(* ===== verification/Prelude.thy ===== *)
theory Prelude
  imports Main "HOL-Library.Word" "HOL-Library.AList"
begin

unbundle bit_operations_syntax

text \<open>
  Shared vocabulary of the development.

  The machine integers of the Rust sources are words of their width (\<open>u8\<close> to \<open>u128\<close>); a signed
  integer is the same word, read with \<open>sint\<close>. A byte slice \<open>&[u8]\<close> or \<open>Vec<u8>\<close> is a list of
  \<open>u8\<close>; a string is the list of its UTF-8 bytes, written as an Isabelle \<open>string\<close>. A function that
  returns \<open>Result<T, E>\<close> returns a sum, \<open>Inl\<close> the error; a function that may also panic (a slice
  out of range, a division by zero) returns \<open>Inl Panic\<close> there. Arithmetic that Rust does on a
  fixed width wraps, as the release profile does; where wrapping would matter a lemma bounds it.

  The file also holds the byte-order conversions (\<open>to_be_bytes\<close>, \<open>from_be_bytes\<close> and their
  little-endian twins), the model of writing into a fixed buffer (\<open>buf[a..b].copy_from_slice\<close>),
  the model of \<open>std::collections::HashMap\<close> behind an interface locale, and the generic lemma that
  an invariant kept by each step is kept by a run.
\<close>

section \<open>Types\<close>

type_synonym u8 = "8 word"
type_synonym u16 = "16 word"
type_synonym u32 = "32 word"
type_synonym u64 = "64 word"
type_synonym u128 = "128 word"
type_synonym i8 = "8 word"
type_synonym i16 = "16 word"
type_synonym i32 = "32 word"
type_synonym i64 = "64 word"
type_synonym i128 = "128 word"
type_synonym bytes = "8 word list"

text \<open>An \<open>f32\<close> is its bit pattern; the operations on it are parameters.\<close>

type_synonym f32 = u32

record f32_ops =
  f32_le :: "f32 \<Rightarrow> f32 \<Rightarrow> bool"
  f32_clamp :: "f32 \<Rightarrow> f32 \<Rightarrow> f32 \<Rightarrow> f32"
  f32_mul :: "f32 \<Rightarrow> f32 \<Rightarrow> f32"
  f32_div :: "f32 \<Rightarrow> f32 \<Rightarrow> f32"
  f32_log10 :: "f32 \<Rightarrow> f32"
  f32_powf :: "f32 \<Rightarrow> f32 \<Rightarrow> f32"
  f32_fixed2 :: "f32 \<Rightarrow> string"

text \<open>A computation that fails with an error of the program, or panics.\<close>

datatype 'e fault = Fail 'e | Panic

named_theorems codec_simps \<open>layout and length facts of serialised messages\<close>
named_theorems step_defs \<open>definitions of the operations of the state machines\<close>

section \<open>Words\<close>

lemma unat_lt: "unat (w :: 'a::len word) < 2 ^ LENGTH('a)"
  by (rule unsigned_less)

lemma unat_u8_lt: "unat (b :: u8) < 256"
  using unat_lt [of b] by simp

lemma unat_u16_lt: "unat (b :: u16) < 65536"
  using unat_lt [of b] by simp

lemma unat_u32_lt: "unat (b :: u32) < 4294967296"
  using unat_lt [of b] by simp

lemma unat_u64_lt: "unat (b :: u64) < 18446744073709551616"
  using unat_lt [of b] by simp

text \<open>Widening keeps the value; narrowing (\<open>as u32\<close>) takes the low bits.\<close>

lemma unat_ucast_mod: "unat (ucast (w :: 'a::len word) :: 'b::len word) = unat w mod 2 ^ LENGTH('b)"
  by (simp add: unsigned_ucast_eq take_bit_eq_mod)

lemma unat_ucast_widen:
  "LENGTH('a) \<le> LENGTH('b) \<Longrightarrow> unat (ucast (w :: 'a::len word) :: 'b::len word) = unat w"
proof -
  assume "LENGTH('a) \<le> LENGTH('b)"
  then have "(2::nat) ^ LENGTH('a) \<le> 2 ^ LENGTH('b)" by (simp add: power_increasing)
  with unat_lt [of w] have "unat w < 2 ^ LENGTH('b)" by (rule less_le_trans)
  then show ?thesis by (simp add: unat_ucast_mod)
qed

lemma unat_mult_small:
  "unat a * unat b < 2 ^ LENGTH('a) \<Longrightarrow> unat (a * b :: 'a::len word) = unat a * unat b"
  by (simp add: unat_word_ariths)

lemma unat_add_small:
  "unat a + unat b < 2 ^ LENGTH('a) \<Longrightarrow> unat (a + b :: 'a::len word) = unat a + unat b"
  by (simp add: unat_word_ariths)

section \<open>Results\<close>

text \<open>The \<open>?\<close> operator.\<close>

definition and_then :: "'e + 'a \<Rightarrow> ('a \<Rightarrow> 'e + 'b) \<Rightarrow> 'e + 'b" where
  "and_then r f = (case r of Inl e \<Rightarrow> Inl e | Inr x \<Rightarrow> f x)"

lemma and_then_simps [simp]:
  "and_then (Inl e) f = Inl e"
  "and_then (Inr x) f = f x"
  by (simp_all add: and_then_def)

lemma and_then_eq_Inr: "and_then r f = Inr y \<longleftrightarrow> (\<exists>x. r = Inr x \<and> f x = Inr y)"
  by (cases r) auto

lemma and_then_eq_Inl: "and_then r f = Inl e \<longleftrightarrow> r = Inl e \<or> (\<exists>x. r = Inr x \<and> f x = Inl e)"
  by (cases r) auto

text \<open>\<open>Option::ok_or\<close> and \<open>Result::map_err\<close>, \<open>Result::ok\<close>.\<close>

definition ok_or :: "'a option \<Rightarrow> 'e \<Rightarrow> 'e + 'a" where
  "ok_or x e = (case x of None \<Rightarrow> Inl e | Some v \<Rightarrow> Inr v)"

lemma ok_or_simps [simp]: "ok_or None e = Inl e" "ok_or (Some v) e = Inr v"
  by (simp_all add: ok_or_def)

definition map_err :: "('e \<Rightarrow> 'f) \<Rightarrow> 'e + 'a \<Rightarrow> 'f + 'a" where
  "map_err g r = (case r of Inl e \<Rightarrow> Inl (g e) | Inr x \<Rightarrow> Inr x)"

lemma map_err_simps [simp]: "map_err g (Inl e) = Inl (g e)" "map_err g (Inr x) = Inr x"
  by (simp_all add: map_err_def)

lemma ok_or_Inr: "ok_or x e = Inr y \<longleftrightarrow> x = Some y"
  by (cases x) simp_all

lemma map_err_Inr: "map_err f x = Inr y \<longleftrightarrow> x = Inr y"
  by (cases x) (simp_all add: map_err_def)

lemma map_sum_eq_Inr: "map_sum f g x = Inr y \<longleftrightarrow> (\<exists>z. x = Inr z \<and> y = g z)"
  by (cases x) auto

definition res_ok :: "'e + 'a \<Rightarrow> 'a option" where
  "res_ok r = (case r of Inl e \<Rightarrow> None | Inr x \<Rightarrow> Some x)"

lemma res_ok_simps [simp]: "res_ok (Inl e) = None" "res_ok (Inr x) = Some x"
  by (simp_all add: res_ok_def)

text \<open>\<open>Iterator::collect\<close> into a \<open>Result<Vec<_>, _>\<close>: the first error ends it.\<close>

fun collect_res :: "('e + 'a) list \<Rightarrow> 'e + 'a list" where
  "collect_res [] = Inr []"
| "collect_res (r # rs) =
     (case r of Inl e \<Rightarrow> Inl e
      | Inr x \<Rightarrow> (case collect_res rs of Inl e \<Rightarrow> Inl e | Inr xs \<Rightarrow> Inr (x # xs)))"

lemma collect_res_length: "collect_res rs = Inr xs \<Longrightarrow> length xs = length rs"
  by (induction rs arbitrary: xs) (auto split: sum.splits)

lemma collect_res_map_Inr [simp]: "collect_res (map (\<lambda>x. Inr (f x)) xs) = Inr (map f xs)"
  by (induction xs) auto

section \<open>Byte order\<close>

primrec be_bytes :: "nat \<Rightarrow> nat \<Rightarrow> bytes" where
  "be_bytes 0 n = []"
| "be_bytes (Suc k) n = be_bytes k (n div 256) @ [word_of_nat n]"

primrec le_bytes :: "nat \<Rightarrow> nat \<Rightarrow> bytes" where
  "le_bytes 0 n = []"
| "le_bytes (Suc k) n = word_of_nat n # le_bytes k (n div 256)"

definition be_nat :: "bytes \<Rightarrow> nat" where
  "be_nat bs = foldl (\<lambda>a b. a * 256 + unat b) 0 bs"

primrec le_nat :: "bytes \<Rightarrow> nat" where
  "le_nat [] = 0"
| "le_nat (b # bs) = unat b + 256 * le_nat bs"

lemma be_bytes_numeral:
  "be_bytes (numeral k) n = be_bytes (pred_numeral k) (n div 256) @ [word_of_nat n]"
  by (simp only: numeral_eq_Suc be_bytes.simps)

lemma le_bytes_numeral:
  "le_bytes (numeral k) n = word_of_nat n # le_bytes (pred_numeral k) (n div 256)"
  by (simp only: numeral_eq_Suc le_bytes.simps)

lemmas byte_eval = be_bytes_numeral le_bytes_numeral

lemma length_be_bytes [simp]: "length (be_bytes k n) = k"
  by (induction k arbitrary: n) auto

lemma length_le_bytes [simp]: "length (le_bytes k n) = k"
  by (induction k arbitrary: n) auto

lemma be_nat_Nil [simp]: "be_nat [] = 0"
  by (simp add: be_nat_def)

lemma be_nat_snoc [simp]: "be_nat (bs @ [b]) = be_nat bs * 256 + unat b"
  by (simp add: be_nat_def)

lemma unat_byte [simp]: "unat (word_of_nat n :: u8) = n mod 256"
  by (simp add: unat_of_nat)

lemma be_nat_be_bytes: "be_nat (be_bytes k n) = n mod 256 ^ k"
proof (induction k arbitrary: n)
  case 0
  show ?case by simp
next
  case (Suc k)
  have "n div 256 mod 256 ^ k * 256 + n mod 256 = n mod (256 * 256 ^ k)"
    by (simp add: mod_mult2_eq)
  with Suc show ?case by simp
qed

lemma le_nat_le_bytes: "le_nat (le_bytes k n) = n mod 256 ^ k"
  by (induction k arbitrary: n) (simp_all add: mod_mult2_eq)

lemma be_nat_bound: "be_nat bs < 256 ^ length bs"
proof (induction bs rule: rev_induct)
  case Nil
  show ?case by simp
next
  case (snoc b bs)
  have "unat b < 256" by (rule unat_u8_lt)
  moreover have "be_nat bs * 256 + 256 \<le> 256 ^ length bs * 256"
    using snoc by (metis add.commute mult.commute mult_Suc_right mult_le_mono2 Suc_leI)
  ultimately show ?case by simp
qed

lemma le_nat_bound: "le_nat bs < 256 ^ length bs"
proof (induction bs)
  case Nil
  show ?case by simp
next
  case (Cons b bs)
  have "unat b < 256" by (rule unat_u8_lt)
  with Cons show ?case by simp
qed

lemma be_bytes_be_nat: "be_bytes (length bs) (be_nat bs) = bs"
proof (induction bs rule: rev_induct)
  case Nil
  show ?case by simp
next
  case (snoc b bs)
  have "unat b < 256" by (rule unat_u8_lt)
  then have "(be_nat bs * 256 + unat b) div 256 = be_nat bs" by simp
  moreover have "(word_of_nat (be_nat bs * 256 + unat b) :: u8) = b"
    using \<open>unat b < 256\<close>
    by (metis mod_less mod_mult_self3 unat_byte word_unat_eq_iff)
  ultimately show ?case using snoc by simp
qed

lemma le_bytes_le_nat: "le_bytes (length bs) (le_nat bs) = bs"
proof (induction bs)
  case Nil
  show ?case by simp
next
  case (Cons b bs)
  have *: "unat b < 256" by (rule unat_u8_lt)
  then have "(unat b + 256 * le_nat bs) div 256 = le_nat bs" by simp
  moreover have "(word_of_nat (unat b + 256 * le_nat bs) :: u8) = b"
    using * by (metis mod_less mod_mult_self2 unat_byte word_unat_eq_iff)
  ultimately show ?case using Cons by simp
qed

text \<open>\<open>to_be_bytes\<close>, \<open>from_be_bytes\<close>, \<open>to_le_bytes\<close>, \<open>from_le_bytes\<close> at every width.\<close>

definition to_be :: "'a::len word \<Rightarrow> bytes" where
  "to_be w = be_bytes (LENGTH('a) div 8) (unat w)"

definition from_be :: "bytes \<Rightarrow> 'a::len word" where
  "from_be bs = word_of_nat (be_nat bs)"

definition to_le :: "'a::len word \<Rightarrow> bytes" where
  "to_le w = le_bytes (LENGTH('a) div 8) (unat w)"

definition from_le :: "bytes \<Rightarrow> 'a::len word" where
  "from_le bs = word_of_nat (le_nat bs)"

lemma be_bytes_pad: "n < 256 ^ k \<Longrightarrow> be_bytes (j + k) n = replicate j 0 @ be_bytes k n"
proof (induction k arbitrary: n)
  case 0
  have "be_bytes j 0 = replicate j 0"
    by (induction j) (simp_all add: replicate_append_same)
  with 0 show ?case by simp
next
  case (Suc k)
  then have "n div 256 < 256 ^ k" by (simp add: div_less_iff_less_mult mult.commute)
  with Suc.IH show ?case by simp
qed

lemma length_to_be [simp]: "length (to_be (w :: 'a::len word)) = LENGTH('a) div 8"
  by (simp add: to_be_def)

lemma length_to_le [simp]: "length (to_le (w :: 'a::len word)) = LENGTH('a) div 8"
  by (simp add: to_le_def)

lemma pow256: "8 dvd n \<Longrightarrow> (256::nat) ^ (n div 8) = 2 ^ n"
proof -
  assume "8 dvd n"
  then obtain k where "n = 8 * k" by (elim dvdE)
  then show ?thesis by (simp add: power_mult)
qed

lemma from_be_to_be:
  assumes "8 dvd LENGTH('a)"
  shows "from_be (to_be w) = (w :: 'a::len word)"
proof -
  have "unat w < 2 ^ LENGTH('a)" by (rule unsigned_less)
  then show ?thesis
    using assms by (simp add: from_be_def to_be_def be_nat_be_bytes pow256)
qed

lemma from_le_to_le:
  assumes "8 dvd LENGTH('a)"
  shows "from_le (to_le w) = (w :: 'a::len word)"
proof -
  have "unat w < 2 ^ LENGTH('a)" by (rule unsigned_less)
  then show ?thesis
    using assms by (simp add: from_le_def to_le_def le_nat_le_bytes pow256)
qed

lemma to_be_from_be:
  assumes "8 dvd LENGTH('a)" and "length bs = LENGTH('a) div 8"
  shows "to_be (from_be bs :: 'a::len word) = bs"
proof -
  have "be_nat bs < 2 ^ LENGTH('a)"
    using be_nat_bound [of bs] assms by (simp add: pow256)
  then have "to_be (from_be bs :: 'a word) = be_bytes (length bs) (be_nat bs)"
    using assms by (simp add: to_be_def from_be_def unat_of_nat)
  then show ?thesis by (simp add: be_bytes_be_nat)
qed

lemma from_be_word [simp]:
  "from_be (to_be (a :: u8)) = a" "from_be (to_be (b :: u16)) = b"
  "from_be (to_be (c :: u32)) = c" "from_be (to_be (d :: u64)) = d"
  by (simp_all add: from_be_to_be)

lemma from_le_word [simp]:
  "from_le (to_le (b :: u16)) = b" "from_le (to_le (c :: u32)) = c" "from_le (to_le (d :: u64)) = d"
  by (simp_all add: from_le_to_le)

lemma to_be_inject: "8 dvd LENGTH('a) \<Longrightarrow> to_be (v :: 'a::len word) = to_be w \<longleftrightarrow> v = w"
  by (metis from_be_to_be)

lemma to_le_inject: "8 dvd LENGTH('a) \<Longrightarrow> to_le (v :: 'a::len word) = to_le w \<longleftrightarrow> v = w"
  by (metis from_le_to_le)

section \<open>Buffers and slices\<close>

text \<open>\<open>buf[off..off + n].copy_from_slice(bs)\<close> on a buffer long enough.\<close>

definition put :: "'a list \<Rightarrow> nat \<Rightarrow> 'a list \<Rightarrow> 'a list" where
  "put buf off bs = take off buf @ bs @ drop (off + length bs) buf"

lemma length_put [simp]: "off + length bs \<le> length buf \<Longrightarrow> length (put buf off bs) = length buf"
  by (simp add: put_def)

lemma put_replicate [codec_simps]:
  "put (replicate m x) k bs = replicate (min k m) x @ bs @ replicate (m - (k + length bs)) x"
  by (simp add: put_def min.commute)

lemma put_append [codec_simps]:
  "length a \<le> off \<Longrightarrow> put (a @ b) off bs = a @ put b (off - length a) bs"
  by (simp add: put_def)

lemma put_Cons [codec_simps]:
  "0 < off \<Longrightarrow> put (x # b) off bs = x # put b (off - 1) bs"
  by (cases off) (simp_all add: put_def)

lemma put_0 [codec_simps]: "put b 0 bs = bs @ drop (length bs) b"
  by (simp add: put_def)

text \<open>Single bytes of a buffer, \<open>buf[k] = x\<close>.\<close>

lemma update_replicate [codec_simps]:
  "k < m \<Longrightarrow> (replicate m y)[k := x] = replicate k y @ x # replicate (m - k - 1) y"
  by (simp add: upd_conv_take_nth_drop)

lemma update_append [codec_simps]:
  "length a \<le> k \<Longrightarrow> (a @ b)[k := x] = a @ b[k - length a := x]"
  by (simp add: list_update_append)

lemma update_Cons [codec_simps]: "0 < k \<Longrightarrow> (y # b)[k := x] = y # b[k - 1 := x]"
  by (cases k) simp_all

text \<open>\<open>&xs[a..b]\<close>; the sources never write \<open>a > b\<close>, so out of range means beyond the end.\<close>

definition slice :: "'a list \<Rightarrow> nat \<Rightarrow> nat \<Rightarrow> 'a list" where
  "slice xs a b = take (b - a) (drop a xs)"

lemma length_slice [simp]: "b \<le> length xs \<Longrightarrow> length (slice xs a b) = b - a"
  by (simp add: slice_def)

lemma slice_append1 [codec_simps]: "b \<le> length xs \<Longrightarrow> slice (xs @ ys) a b = slice xs a b"
  by (cases "a \<le> b") (simp_all add: slice_def)

lemma slice_append2 [codec_simps]:
  "length xs \<le> a \<Longrightarrow> slice (xs @ ys) a b = slice ys (a - length xs) (b - length xs)"
  by (simp add: slice_def diff_diff_left [symmetric] drop_append)

lemma slice_Cons [codec_simps]: "0 < a \<Longrightarrow> slice (x # xs) a b = slice xs (a - 1) (b - 1)"
  by (cases a) (auto simp: slice_def)

lemma slice_Cons_0 [codec_simps]: "0 < b \<Longrightarrow> slice (x # xs) 0 b = x # slice xs 0 (b - 1)"
  by (cases b) (auto simp: slice_def)

lemma slice_empty [codec_simps]: "slice xs a a = []"
  by (simp add: slice_def)

lemma slice_pair: "Suc (Suc k) \<le> length xs \<Longrightarrow> slice xs k (Suc (Suc k)) = [xs ! k, xs ! Suc k]"
  by (simp add: slice_def take_Suc_conv_app_nth Cons_nth_drop_Suc [symmetric])

lemma slice_all [codec_simps]: "length xs \<le> n \<Longrightarrow> slice xs 0 n = xs"
  by (simp add: slice_def)

lemma slice_whole [codec_simps]: "b = length xs \<Longrightarrow> slice (xs @ ys) 0 b = xs"
  by (simp add: slice_def)

text \<open>\<open>slice::chunks(n)\<close> for a positive \<open>n\<close>: pieces of length \<open>n\<close>, the last maybe shorter.\<close>

fun chunks :: "nat \<Rightarrow> 'a list \<Rightarrow> 'a list list" where
  "chunks n [] = []"
| "chunks n (x # xs) = take n (x # xs) # chunks n (drop (n - 1) xs)"

lemma chunks_unfold:
  "0 < n \<Longrightarrow> xs \<noteq> [] \<Longrightarrow> chunks n xs = take n xs # chunks n (drop n xs)"
  by (cases xs; cases n) simp_all

lemma concat_chunks: "0 < n \<Longrightarrow> concat (chunks n xs) = xs"
proof (induction n xs rule: chunks.induct)
  case (2 n x xs)
  then show ?case by (cases n) simp_all
qed simp

lemma chunks_bound: "0 < n \<Longrightarrow> c \<in> set (chunks n xs) \<Longrightarrow> 0 < length c \<and> length c \<le> n"
  by (induction n xs rule: chunks.induct) auto

lemma chunks_eq_Nil [simp]: "chunks n xs = [] \<longleftrightarrow> xs = []"
  by (cases xs) simp_all

text \<open>\<open>xs.iter().find(p)\<close> is \<open>find\<close>.\<close>

lemma find_SomeD: "find P xs = Some x \<Longrightarrow> x \<in> set xs \<and> P x"
  by (induction xs) (auto split: if_splits)

text \<open>\<open>xs.windows(pat.len()).position(|w| w == pat)\<close>.\<close>

fun find_sub :: "'a list \<Rightarrow> 'a list \<Rightarrow> nat option" where
  "find_sub pat xs =
     (if length xs < length pat then None
      else if take (length pat) xs = pat then Some 0
      else (case xs of [] \<Rightarrow> None | x # xs' \<Rightarrow> map_option Suc (find_sub pat xs')))"

declare find_sub.simps [simp del]

lemma find_sub_Some:
  "find_sub pat xs = Some i \<Longrightarrow> i + length pat \<le> length xs \<and> slice xs i (i + length pat) = pat"
proof (induction pat xs arbitrary: i rule: find_sub.induct)
  case (1 pat xs)
  show ?case
  proof (cases "take (length pat) xs = pat \<or> xs = []")
    case True
    with "1.prems" show ?thesis
      by (auto simp: find_sub.simps [of pat xs] slice_def split: if_splits)
  next
    case False
    then obtain x ys where xs: "xs = x # ys" by (cases xs) auto
    with False "1.prems" obtain j where j: "find_sub pat ys = Some j" "i = Suc j"
      and "\<not> length xs < length pat"
      by (auto simp: find_sub.simps [of pat "x # ys"] split: if_splits)
    with "1.IH" [OF _ _ xs] False xs show ?thesis by (auto simp: slice_def)
  qed
qed

lemma find_sub_first:
  "find_sub pat xs = Some i \<Longrightarrow> j < i \<Longrightarrow> take (length pat) (drop j xs) \<noteq> pat"
proof (induction pat xs arbitrary: i j rule: find_sub.induct)
  case (1 pat xs)
  from "1.prems" obtain x ys k where xs: "xs = x # ys" and k: "find_sub pat ys = Some k" "i = Suc k"
    and n: "take (length pat) xs \<noteq> pat" "\<not> length xs < length pat"
    by (auto simp: find_sub.simps [of pat xs] split: if_splits list.splits)
  show ?case
  proof (cases j)
    case 0
    with n show ?thesis by simp
  next
    case (Suc m)
    with "1.IH" [OF n(2,1) xs k(1), of m] "1.prems" k xs show ?thesis by simp
  qed
qed

lemma find_sub_prefix:
  assumes "\<And>j. j < length a \<Longrightarrow> take (length pat) (drop j (a @ pat @ b)) \<noteq> pat"
  shows "find_sub pat (a @ pat @ b) = Some (length a)"
  using assms
proof (induction a)
  case Nil
  show ?case by (simp add: find_sub.simps)
next
  case (Cons x a)
  from Cons.prems [of 0] have n: "take (length pat) (x # a @ pat @ b) \<noteq> pat" by simp
  have "find_sub pat (a @ pat @ b) = Some (length a)"
  proof (rule Cons.IH)
    fix j assume "j < length a"
    with Cons.prems [of "Suc j"] show "take (length pat) (drop j (a @ pat @ b)) \<noteq> pat" by simp
  qed
  with n show ?case by (simp add: find_sub.simps [of pat "x # a @ pat @ b"])
qed

section \<open>Interfaces\<close>

text \<open>
  A fixed-width message: what a reader may rely on when the writer put \<open>ser x\<close> in front of other
  bytes.
\<close>

locale wire_codec =
  fixes ser :: "'a \<Rightarrow> bytes" and parse :: "bytes \<Rightarrow> 'e + 'a" and width :: nat and wf :: "'a \<Rightarrow> bool"
  assumes length_ser: "wf x \<Longrightarrow> length (ser x) = width"
    and parse_ser: "wf x \<Longrightarrow> parse (ser x @ rest) = Inr x"
    and parse_short: "length bs < width \<Longrightarrow> \<exists>e. parse bs = Inl e"
begin

lemma parse_exact: "wf x \<Longrightarrow> parse (ser x) = Inr x"
  using parse_ser [of x "[]"] by simp

lemma ser_inject: "wf x \<Longrightarrow> wf y \<Longrightarrow> ser x = ser y \<longleftrightarrow> x = y"
  using parse_exact by (metis sum.inject(2))

lemma parse_at:
  "wf x \<Longrightarrow> length pre = off \<Longrightarrow>
   parse (slice (pre @ ser x @ post) off (off + width)) = Inr x"
  by (simp add: slice_def length_ser parse_exact)

lemma parse_accepts_long: "parse bs = Inr x \<Longrightarrow> width \<le> length bs"
  using parse_short [of bs] by (cases "length bs < width") auto

end

text \<open>
  A keyed store: what the code relies on when it uses a \<open>HashMap\<close>.
\<close>

locale key_store =
  fixes get :: "'m \<Rightarrow> 'k \<Rightarrow> 'v option"
    and ins :: "'k \<Rightarrow> 'v \<Rightarrow> 'm \<Rightarrow> 'm"
    and del :: "'k \<Rightarrow> 'm \<Rightarrow> 'm"
    and emp :: 'm
    and ok :: "'m \<Rightarrow> bool"
  assumes get_emp: "get emp k = None"
    and get_ins: "ok m \<Longrightarrow> get (ins k v m) k' = (if k' = k then Some v else get m k')"
    and get_del: "ok m \<Longrightarrow> get (del k m) k' = (if k' = k then None else get m k')"
    and ok_emp: "ok emp"
    and ok_ins: "ok m \<Longrightarrow> ok (ins k v m)"
    and ok_del: "ok m \<Longrightarrow> ok (del k m)"
begin

lemma ok_ins_all: "ok m \<Longrightarrow> ok (fold (\<lambda>(k, v). ins k v) kvs m)"
  by (induction kvs arbitrary: m) (auto simp: ok_ins)

text \<open>After a run of insertions the last one under a key is found.\<close>

lemma get_ins_all:
  "ok m \<Longrightarrow> get (fold (\<lambda>(k, v). ins k v) kvs m) k =
     (case map_of (rev kvs) k of None \<Rightarrow> get m k | Some v \<Rightarrow> Some v)"
proof (induction kvs arbitrary: m)
  case Nil
  show ?case by simp
next
  case (Cons kv kvs)
  obtain a v where kv: "kv = (a, v)" by (cases kv)
  have "get (fold (\<lambda>(k, v). ins k v) kvs (ins a v m)) k =
      (case map_of (rev kvs) k of None \<Rightarrow> get (ins a v m) k | Some v \<Rightarrow> Some v)"
    by (rule Cons.IH) (simp add: ok_ins Cons.prems)
  then show ?case
    using Cons.prems by (auto simp: kv get_ins map_add_def split: option.splits)
qed

lemma get_ins_twice: "ok m \<Longrightarrow> get (ins k v (ins k w m)) k' = get (ins k v m) k'"
  by (simp add: get_ins ok_ins)

end

text \<open>
  A deterministic machine with an invariant: whatever each step keeps, every run keeps.
\<close>

locale machine =
  fixes step :: "'s \<Rightarrow> 'e \<Rightarrow> 's" and inv :: "'s \<Rightarrow> bool"
  assumes step_inv: "inv s \<Longrightarrow> inv (step s e)"
begin

lemma run_inv: "inv s \<Longrightarrow> inv (foldl step s es)"
  by (induction es arbitrary: s) (auto intro: step_inv)

end

text \<open>The run of a machine that also produces outputs: the outputs in order and the last state.\<close>

fun run_io :: "('s \<Rightarrow> 'e \<Rightarrow> 'o list \<times> 's) \<Rightarrow> 's \<Rightarrow> 'e list \<Rightarrow> 'o list \<times> 's" where
  "run_io step s [] = ([], s)"
| "run_io step s (e # es) =
     (let (outs, s') = step s e; (more, t) = run_io step s' es in (outs @ more, t))"

lemma run_io_state: "snd (run_io step s es) = foldl (\<lambda>s e. snd (step s e)) s es"
  by (induction es arbitrary: s) (simp_all add: split_def Let_def)

lemma run_io_append:
  "run_io step s (es @ fs) =
     (let (outs, t) = run_io step s es; (more, u) = run_io step t fs in (outs @ more, u))"
  by (induction es arbitrary: s) (simp_all add: split_def Let_def)

section \<open>HashMap\<close>

text \<open>
  A \<open>HashMap\<close> is the list of its entries, one per key, in the order its iterator visits them. The
  order is unspecified in Rust; the model's is one of the possible orders (a new entry goes last),
  and every fact below that depends on it says so.
\<close>

type_synonym ('k, 'v) hmap = "('k \<times> 'v) list"

definition hm_get :: "('k, 'v) hmap \<Rightarrow> 'k \<Rightarrow> 'v option" where
  "hm_get m k = map_of m k"

definition hm_insert :: "'k \<Rightarrow> 'v \<Rightarrow> ('k, 'v) hmap \<Rightarrow> ('k, 'v) hmap" where
  "hm_insert k v m = AList.update k v m"

definition hm_remove :: "'k \<Rightarrow> ('k, 'v) hmap \<Rightarrow> ('k, 'v) hmap" where
  "hm_remove k m = AList.delete k m"

definition hm_ok :: "('k, 'v) hmap \<Rightarrow> bool" where
  "hm_ok m = distinct (map fst m)"

interpretation hm: key_store hm_get hm_insert hm_remove "[]" hm_ok
proof (unfold_locales)
  fix k k' :: 'k and v :: 'v and m :: "('k, 'v) hmap"
  show "hm_get ([] :: ('k, 'v) hmap) k = None" by (simp add: hm_get_def)
  show "hm_get (hm_insert k v m) k' = (if k' = k then Some v else hm_get m k')"
    by (simp add: hm_get_def hm_insert_def update_conv')
  show "hm_get (hm_remove k m) k' = (if k' = k then None else hm_get m k')"
    by (simp add: hm_get_def hm_remove_def delete_conv')
  show "hm_ok ([] :: ('k, 'v) hmap)" by (simp add: hm_ok_def)
  assume "hm_ok m"
  then show "hm_ok (hm_insert k v m)" "hm_ok (hm_remove k m)"
    by (simp_all add: hm_ok_def hm_insert_def hm_remove_def distinct_update distinct_delete)
qed

lemma hm_get_simps [simp]:
  "hm_get [] k = None"
  "hm_get (hm_insert k v m) k' = (if k' = k then Some v else hm_get m k')"
  "hm_get (hm_remove k m) k' = (if k' = k then None else hm_get m k')"
  by (simp_all add: hm_get_def hm_insert_def hm_remove_def update_conv' delete_conv')

lemma hm_ok_simps [simp]:
  "hm_ok []" "hm_ok m \<Longrightarrow> hm_ok (hm_insert k v m)" "hm_ok m \<Longrightarrow> hm_ok (hm_remove k m)"
  by (simp_all add: hm.ok_emp hm.ok_ins hm.ok_del)

end
