(* ===== verification/Rust_Str.thy ===== *)
theory Rust_Str
  imports Prelude
begin

text \<open>
  The operations of \<open>str\<close> the sources use: \<open>trim\<close>, \<open>split\<close>, \<open>split_once\<close>, \<open>lines\<close>,
  \<open>from_str_radix\<close>, \<open>parse::<uN>\<close>, slicing by byte offset, and the decimal and hexadecimal
  formatting of integers. A string is the list of its UTF-8 bytes, so \<open>length\<close> is Rust's
  \<open>len()\<close>. The separators and digits the sources look for are ASCII, which in UTF-8 never occur
  inside another character, so searching bytes is searching characters.
\<close>

section \<open>Bytes and UTF-8\<close>

definition as_bytes :: "string \<Rightarrow> bytes" where
  "as_bytes s = map of_char s"

definition str_of :: "bytes \<Rightarrow> string" where
  "str_of bs = map (\<lambda>b. char_of (unat b)) bs"

abbreviation code :: "char \<Rightarrow> nat" where
  "code c \<equiv> of_char c"

lemma unat_of_char [simp]: "unat (of_char c :: u8) = of_char c"
proof -
  have "(of_char c :: u8) = word_of_nat (of_char c)" by (simp only: of_nat_of_char)
  moreover have "(of_char c :: nat) < 256" by simp
  ultimately show ?thesis by (simp add: unat_of_nat)
qed

lemma str_of_as_bytes [simp]: "str_of (as_bytes s) = s"
  by (simp add: str_of_def as_bytes_def comp_def)

lemma as_bytes_str_of [simp]: "as_bytes (str_of bs) = bs"
proof -
  have "of_char (char_of (unat b) :: char) = b" for b :: u8
  proof -
    have "unat b < 256" by (rule unat_u8_lt)
    then have "unat (of_char (char_of (unat b) :: char) :: u8) = unat b"
      by (simp add: of_char_of)
    then show ?thesis by (simp add: word_unat_eq_iff)
  qed
  then show ?thesis by (simp add: str_of_def as_bytes_def comp_def)
qed

lemma as_bytes_append [simp]: "as_bytes (s @ t) = as_bytes s @ as_bytes t"
  by (simp add: as_bytes_def)

lemma length_as_bytes [simp]: "length (as_bytes s) = length s"
  by (simp add: as_bytes_def)

lemma length_str_of [simp]: "length (str_of s) = length s"
  by (simp add: str_of_def)

lemma str_of_append [simp]: "str_of (s @ t) = str_of s @ str_of t"
  by (simp add: str_of_def)

text \<open>\<open>std::str::from_utf8\<close>: the well-formed byte sequences of the Unicode standard.\<close>

definition cont_byte :: "u8 \<Rightarrow> bool" where
  "cont_byte b \<longleftrightarrow> 0x80 \<le> unat b \<and> unat b \<le> 0xBF"

fun utf8_ok :: "bytes \<Rightarrow> bool" where
  "utf8_ok [] = True"
| "utf8_ok (a # s) =
     (let n = unat a in
      if n < 0x80 then utf8_ok s
      else if 0xC2 \<le> n \<and> n \<le> 0xDF then
        (case s of b # s' \<Rightarrow> cont_byte b \<and> utf8_ok s' | _ \<Rightarrow> False)
      else if 0xE0 \<le> n \<and> n \<le> 0xEF then
        (case s of b # c # s' \<Rightarrow>
           (if n = 0xE0 then 0xA0 \<le> unat b \<and> unat b \<le> 0xBF
            else if n = 0xED then 0x80 \<le> unat b \<and> unat b \<le> 0x9F
            else cont_byte b) \<and> cont_byte c \<and> utf8_ok s' | _ \<Rightarrow> False)
      else if 0xF0 \<le> n \<and> n \<le> 0xF4 then
        (case s of b # c # d # s' \<Rightarrow>
           (if n = 0xF0 then 0x90 \<le> unat b \<and> unat b \<le> 0xBF
            else if n = 0xF4 then 0x80 \<le> unat b \<and> unat b \<le> 0x8F
            else cont_byte b) \<and> cont_byte c \<and> cont_byte d \<and> utf8_ok s' | _ \<Rightarrow> False)
      else False)"

definition from_utf8 :: "bytes \<Rightarrow> string option" where
  "from_utf8 bs = (if utf8_ok bs then Some (str_of bs) else None)"

lemma utf8_ok_ascii: "\<forall>b \<in> set bs. unat b < 0x80 \<Longrightarrow> utf8_ok bs"
  by (induction bs) (auto simp: Let_def)

definition ascii_str :: "string \<Rightarrow> bool" where
  "ascii_str s \<longleftrightarrow> (\<forall>c \<in> set s. code c < 0x80)"

lemma from_utf8_ascii: "ascii_str s \<Longrightarrow> from_utf8 (as_bytes s) = Some s"
  unfolding from_utf8_def
  by (subst utf8_ok_ascii) (auto simp: ascii_str_def as_bytes_def str_of_def comp_def)

text \<open>\<open>&s[a..b]\<close> panics unless both ends are character boundaries.\<close>

definition is_char_boundary :: "string \<Rightarrow> nat \<Rightarrow> bool" where
  "is_char_boundary s i \<longleftrightarrow>
     i = 0 \<or> i = length s \<or> (i < length s \<and> \<not> (0x80 \<le> code (s ! i) \<and> code (s ! i) \<le> 0xBF))"

definition str_slice :: "string \<Rightarrow> nat \<Rightarrow> nat \<Rightarrow> string option" where
  "str_slice s a b =
     (if a \<le> b \<and> is_char_boundary s a \<and> is_char_boundary s b then Some (slice s a b) else None)"

lemma str_slice_ascii:
  assumes "ascii_str s" and "a \<le> b" and "b \<le> length s"
  shows "str_slice s a b = Some (slice s a b)"
proof -
  have "is_char_boundary s i" if "i \<le> length s" for i
  proof (cases "i < length s")
    case True
    then have "code (s ! i) < 0x80" using assms(1) by (simp add: ascii_str_def)
    with True show ?thesis by (simp add: is_char_boundary_def)
  qed (use that in \<open>simp add: is_char_boundary_def\<close>)
  then show ?thesis using assms(2,3) by (simp add: str_slice_def)
qed

section \<open>Searching and splitting\<close>

fun split_on :: "char \<Rightarrow> string \<Rightarrow> string list" where
  "split_on d [] = [[]]"
| "split_on d (c # s) =
     (if c = d then [] # split_on d s
      else (case split_on d s of [] \<Rightarrow> [[c]] | p # ps \<Rightarrow> (c # p) # ps))"

lemma split_on_nonempty [simp]: "split_on d s \<noteq> []"
  by (induction s) (auto split: list.splits)

lemma split_on_no_sep: "d \<notin> set s \<Longrightarrow> split_on d s = [s]"
  by (induction s) auto

lemma split_on_append: "d \<notin> set a \<Longrightarrow> split_on d (a @ d # b) = a # split_on d b"
  by (induction a) auto

text \<open>Splitting undoes joining with the separator.\<close>

fun join_with :: "char \<Rightarrow> string list \<Rightarrow> string" where
  "join_with d [] = []"
| "join_with d [p] = p"
| "join_with d (p # q # ps) = p @ d # join_with d (q # ps)"

lemma split_on_join:
  "ps \<noteq> [] \<Longrightarrow> \<forall>p \<in> set ps. d \<notin> set p \<Longrightarrow> split_on d (join_with d ps) = ps"
  by (induction d ps rule: join_with.induct) (auto simp: split_on_no_sep split_on_append)

lemma join_split_on: "join_with d (split_on d s) = s"
proof (induction s)
  case Nil
  show ?case by simp
next
  case (Cons c s)
  obtain p ps where ps: "split_on d s = p # ps" by (cases "split_on d s") auto
  with Cons show ?case by (cases ps) auto
qed

definition split_once :: "char \<Rightarrow> string \<Rightarrow> (string \<times> string) option" where
  "split_once d s =
     (if d \<in> set s then Some (takeWhile (\<lambda>c. c \<noteq> d) s, drop 1 (dropWhile (\<lambda>c. c \<noteq> d) s))
      else None)"

lemma split_once_append [simp]: "d \<notin> set a \<Longrightarrow> split_once d (a @ d # b) = Some (a, b)"
proof -
  assume "d \<notin> set a"
  then have "\<forall>c \<in> set a. c \<noteq> d" by auto
  then show ?thesis by (simp add: split_once_def takeWhile_append dropWhile_append)
qed

lemma split_once_None [simp]: "d \<notin> set s \<Longrightarrow> split_once d s = None"
  by (simp add: split_once_def)

definition strip_prefix :: "string \<Rightarrow> string \<Rightarrow> string option" where
  "strip_prefix p s = (if take (length p) s = p then Some (drop (length p) s) else None)"

definition starts_with :: "string \<Rightarrow> string \<Rightarrow> bool" where
  "starts_with s p \<longleftrightarrow> take (length p) s = p"

text \<open>
  \<open>str::lines\<close>: a line ends at \<open>\\n\<close>, and one \<open>\\r\<close> before it is cut too; what follows the
  last \<open>\\n\<close> is a line if it is not empty, and is not cut.
\<close>

definition nl :: char where "nl = char_of (10 :: nat)"
definition cr :: char where "cr = char_of (13 :: nat)"
definition crlf :: string where "crlf = [cr, nl]"

lemma code_nl_cr [simp]: "code nl = 10" "code cr = 13"
  by (simp_all add: nl_def cr_def of_char_of)

lemma nl_neq_cr [simp]: "nl \<noteq> cr" "cr \<noteq> nl"
  using code_nl_cr by (metis numeral_eq_iff semiring_norm(85) semiring_norm(88) num.distinct)+

definition chomp_cr :: "string \<Rightarrow> string" where
  "chomp_cr l = (if l \<noteq> [] \<and> last l = cr then butlast l else l)"

definition str_lines :: "string \<Rightarrow> string list" where
  "str_lines s = (let ps = split_on nl s in
     map chomp_cr (butlast ps) @ (if last ps = [] then [] else [last ps]))"

section \<open>Trimming\<close>

text \<open>
  \<open>char::is_whitespace\<close> is the Unicode White_Space property; in UTF-8 its characters are these
  byte sequences of length one, two and three.
\<close>

definition ws1 :: "nat \<Rightarrow> bool" where
  "ws1 a \<longleftrightarrow> (9 \<le> a \<and> a \<le> 13) \<or> a = 32"

definition ws2 :: "nat \<Rightarrow> nat \<Rightarrow> bool" where
  "ws2 a b \<longleftrightarrow> a = 0xC2 \<and> (b = 0x85 \<or> b = 0xA0)"

definition ws3 :: "nat \<Rightarrow> nat \<Rightarrow> nat \<Rightarrow> bool" where
  "ws3 a b c \<longleftrightarrow>
     (a = 0xE1 \<and> b = 0x9A \<and> c = 0x80)
   \<or> (a = 0xE2 \<and> b = 0x80 \<and> ((0x80 \<le> c \<and> c \<le> 0x8A) \<or> c = 0xA8 \<or> c = 0xA9 \<or> c = 0xAF))
   \<or> (a = 0xE2 \<and> b = 0x81 \<and> c = 0x9F)
   \<or> (a = 0xE3 \<and> b = 0x80 \<and> c = 0x80)"

fun trim_start :: "string \<Rightarrow> string" where
  "trim_start (a # b # c # s) =
     (if ws1 (code a) then trim_start (b # c # s)
      else if ws2 (code a) (code b) then trim_start (c # s)
      else if ws3 (code a) (code b) (code c) then trim_start s
      else a # b # c # s)"
| "trim_start [a, b] =
     (if ws1 (code a) then trim_start [b] else if ws2 (code a) (code b) then [] else [a, b])"
| "trim_start [a] = (if ws1 (code a) then [] else [a])"
| "trim_start [] = []"

text \<open>The same from the end, on the reversed string.\<close>

fun trim_rev :: "string \<Rightarrow> string" where
  "trim_rev (c # b # a # s) =
     (if ws1 (code c) then trim_rev (b # a # s)
      else if ws2 (code b) (code c) then trim_rev (a # s)
      else if ws3 (code a) (code b) (code c) then trim_rev s
      else c # b # a # s)"
| "trim_rev [c, b] =
     (if ws1 (code c) then trim_rev [b] else if ws2 (code b) (code c) then [] else [c, b])"
| "trim_rev [c] = (if ws1 (code c) then [] else [c])"
| "trim_rev [] = []"

definition trim :: "string \<Rightarrow> string" where
  "trim s = rev (trim_rev (rev (trim_start s)))"

text \<open>Printable ASCII is left alone; ASCII blanks around it are cut.\<close>

definition plain_str :: "string \<Rightarrow> bool" where
  "plain_str s \<longleftrightarrow> (\<forall>c \<in> set s. 33 \<le> code c \<and> code c < 127)"

lemma plain_str_simps [simp]:
  "plain_str []"
  "plain_str (c # s) \<longleftrightarrow> 33 \<le> code c \<and> code c < 127 \<and> plain_str s"
  "plain_str (s @ t) \<longleftrightarrow> plain_str s \<and> plain_str t"
  "plain_str (rev s) \<longleftrightarrow> plain_str s"
  by (auto simp: plain_str_def)

lemma plain_ascii: "plain_str s \<Longrightarrow> ascii_str s"
  by (auto simp: plain_str_def ascii_str_def)

lemma plain_no_ws:
  "33 \<le> n \<Longrightarrow> n < 127 \<Longrightarrow> \<not> ws1 n"
  "n < 127 \<Longrightarrow> \<not> ws2 n m" "n < 127 \<Longrightarrow> \<not> ws2 m n"
  "n < 127 \<Longrightarrow> \<not> ws3 n m k" "n < 127 \<Longrightarrow> \<not> ws3 m n k" "n < 127 \<Longrightarrow> \<not> ws3 m k n"
  by (auto simp: ws1_def ws2_def ws3_def)

lemma trim_start_plain: "plain_str s \<Longrightarrow> trim_start s = s"
  by (induction s rule: trim_start.induct) (auto simp: plain_no_ws)

lemma trim_rev_plain: "plain_str s \<Longrightarrow> trim_rev s = s"
  by (induction s rule: trim_rev.induct) (auto simp: plain_no_ws)

lemma trim_plain: "plain_str s \<Longrightarrow> trim s = s"
  by (simp add: trim_def trim_start_plain trim_rev_plain)

lemma trim_start_blank:
  assumes "ws1 (code a)" shows "trim_start (a # s) = trim_start s"
proof (cases s)
  case (Cons b t)
  with assms show ?thesis by (cases t) auto
qed (use assms in simp)

lemma trim_blank_plain:
  assumes "plain_str s" shows "trim (CHR '' '' # s) = s"
proof -
  have "ws1 (code CHR '' '')" by (simp add: ws1_def)
  then have "trim_start (CHR '' '' # s) = s"
    using assms by (simp add: trim_start_blank trim_start_plain)
  then show ?thesis using assms by (simp add: trim_def trim_rev_plain)
qed

section \<open>Parsing numbers\<close>

text \<open>\<open>char::to_digit\<close>.\<close>

definition digit_val :: "nat \<Rightarrow> char \<Rightarrow> nat option" where
  "digit_val r c =
     (let n = code c;
          d = (if 48 \<le> n \<and> n \<le> 57 then n - 48
               else if 97 \<le> n \<and> n \<le> 122 then n - 87
               else if 65 \<le> n \<and> n \<le> 90 then n - 55 else r)
      in if d < r then Some d else None)"

text \<open>
  The loop of \<open>uN::from_str_radix\<close>: a bad digit ends it, and so does a value that leaves the
  width (\<open>bound\<close> is \<open>2 ^ N\<close>). Both are the error \<open>ParseIntError\<close>, which the callers map to
  their own.
\<close>

fun radix_loop :: "nat \<Rightarrow> nat \<Rightarrow> nat \<Rightarrow> string \<Rightarrow> nat option" where
  "radix_loop bound r acc [] = Some acc"
| "radix_loop bound r acc (c # cs) =
     (case digit_val r c of None \<Rightarrow> None
      | Some d \<Rightarrow> if acc * r + d < bound then radix_loop bound r (acc * r + d) cs else None)"

definition parse_radix :: "nat \<Rightarrow> nat \<Rightarrow> string \<Rightarrow> nat option" where
  "parse_radix bound r s =
     (case s of [] \<Rightarrow> None
      | c # cs \<Rightarrow>
          if cs = [] \<and> (c = CHR ''+'' \<or> c = CHR ''-'') then None
          else if c = CHR ''+'' then radix_loop bound r 0 cs
          else radix_loop bound r 0 s)"

definition from_str_radix :: "nat \<Rightarrow> string \<Rightarrow> 'a::len word option" where
  "from_str_radix r s = map_option word_of_nat (parse_radix (2 ^ LENGTH('a)) r s)"

definition parse_dec :: "string \<Rightarrow> 'a::len word option" where
  "parse_dec s = from_str_radix 10 s"

section \<open>Formatting numbers\<close>

definition digit_char :: "nat \<Rightarrow> char" where
  "digit_char d = (if d < 10 then char_of (48 + d) else char_of (55 + d))"

fun fmt_radix :: "nat \<Rightarrow> nat \<Rightarrow> string" where
  "fmt_radix r n =
     (if r \<le> 1 \<or> n < r then [digit_char n]
      else fmt_radix r (n div r) @ [digit_char (n mod r)])"

declare fmt_radix.simps [simp del]

definition fmt_dec :: "nat \<Rightarrow> string" where  \<comment> \<open>\<open>{}\<close>\<close>
  "fmt_dec n = fmt_radix 10 n"

definition fmt_hex :: "nat \<Rightarrow> string" where  \<comment> \<open>\<open>{:X}\<close>\<close>
  "fmt_hex n = fmt_radix 16 n"

definition fmt_hex2 :: "u8 \<Rightarrow> string" where  \<comment> \<open>\<open>{:02X}\<close>\<close>
  "fmt_hex2 b = [digit_char (unat b div 16), digit_char (unat b mod 16)]"

lemma code_digit_char: "d < 16 \<Longrightarrow> code (digit_char d) = (if d < 10 then 48 + d else 55 + d)"
  by (simp add: digit_char_def)

lemma digit_val_digit_char: "d < r \<Longrightarrow> r \<le> 16 \<Longrightarrow> digit_val r (digit_char d) = Some d"
  by (auto simp: digit_val_def code_digit_char Let_def)

lemma digit_char_plain:
  "d < 16 \<Longrightarrow> 48 \<le> code (digit_char d) \<and> code (digit_char d) \<le> 70"
  by (auto simp: code_digit_char)

lemma radix_loop_append:
  "radix_loop bound r acc (a @ b) =
     (case radix_loop bound r acc a of None \<Rightarrow> None | Some v \<Rightarrow> radix_loop bound r v b)"
  by (induction a arbitrary: acc) (auto split: option.splits)

lemma fmt_radix_digits:
  "1 < r \<Longrightarrow> r \<le> 16 \<Longrightarrow> c \<in> set (fmt_radix r n) \<Longrightarrow> \<exists>d < r. c = digit_char d"
proof (induction r n rule: fmt_radix.induct)
  case (1 r n)
  show ?case
  proof (cases "n < r")
    case True
    with "1.prems" show ?thesis by (auto simp: fmt_radix.simps [of r n])
  next
    case False
    with "1.prems" consider "c \<in> set (fmt_radix r (n div r))" | "c = digit_char (n mod r)"
      by (auto simp: fmt_radix.simps [of r n])
    then show ?thesis
    proof cases
      case 1
      with "1.IH" "1.prems" False show ?thesis by auto
    next
      case 2
      with "1.prems" show ?thesis by (intro exI [of _ "n mod r"]) simp
    qed
  qed
qed

lemma fmt_radix_nonempty [simp]: "fmt_radix r n \<noteq> []"
  by (subst fmt_radix.simps) simp

lemma radix_loop_fmt:
  "1 < r \<Longrightarrow> r \<le> 16 \<Longrightarrow> n < bound \<Longrightarrow> radix_loop bound r 0 (fmt_radix r n) = Some n"
proof (induction r n rule: fmt_radix.induct)
  case (1 r n)
  show ?case
  proof (cases "n < r")
    case True
    with "1.prems" show ?thesis by (simp add: fmt_radix.simps [of r n] digit_val_digit_char)
  next
    case False
    moreover have "n div r < bound" using "1.prems"(3) div_le_dividend le_less_trans by blast
    ultimately have "radix_loop bound r 0 (fmt_radix r (n div r)) = Some (n div r)"
      using "1.IH" "1.prems" by simp
    with False "1.prems" show ?thesis
      by (simp add: fmt_radix.simps [of r n] radix_loop_append digit_val_digit_char)
  qed
qed

lemma digit_char_no_sign: "d < 16 \<Longrightarrow> digit_char d \<noteq> CHR ''+'' \<and> digit_char d \<noteq> CHR ''-''"
  using digit_char_plain [of d] by auto

lemma parse_radix_digits:
  assumes "s \<noteq> []" and "\<And>c. c \<in> set s \<Longrightarrow> c \<noteq> CHR ''+'' \<and> c \<noteq> CHR ''-''"
  shows "parse_radix bound r s = radix_loop bound r 0 s"
  using assms by (cases s) (auto simp: parse_radix_def)

lemma parse_radix_fmt:
  assumes "1 < r" and "r \<le> 16" and "n < bound"
  shows "parse_radix bound r (fmt_radix r n) = Some n"
proof -
  have "parse_radix bound r (fmt_radix r n) = radix_loop bound r 0 (fmt_radix r n)"
  proof (rule parse_radix_digits)
    fix c assume "c \<in> set (fmt_radix r n)"
    with fmt_radix_digits assms obtain d where "d < r" "c = digit_char d" by blast
    with assms show "c \<noteq> CHR ''+'' \<and> c \<noteq> CHR ''-''" using digit_char_no_sign by simp
  qed simp
  with assms show ?thesis by (simp add: radix_loop_fmt)
qed

lemma from_str_radix_fmt:
  "1 < r \<Longrightarrow> r \<le> 16 \<Longrightarrow> from_str_radix r (fmt_radix r (unat (w :: 'a::len word))) = Some w"
  using parse_radix_fmt [of r "unat w" "2 ^ LENGTH('a)"]
  by (simp add: from_str_radix_def unsigned_less)

lemma parse_dec_fmt [simp]: "parse_dec (fmt_dec (unat w)) = Some w"
  by (simp add: parse_dec_def fmt_dec_def from_str_radix_fmt)

lemma fmt_radix_plain: "1 < r \<Longrightarrow> r \<le> 16 \<Longrightarrow> plain_str (fmt_radix r n)"
proof -
  assume r: "1 < r" "r \<le> 16"
  have "33 \<le> code c \<and> code c < 127" if c: "c \<in> set (fmt_radix r n)" for c
  proof -
    obtain d where "d < r" "c = digit_char d" using fmt_radix_digits [OF r c] by blast
    then show ?thesis using digit_char_plain [of d] r by simp
  qed
  then show ?thesis by (simp add: plain_str_def)
qed

lemma fmt_dec_plain [simp]: "plain_str (fmt_dec n)"
  by (simp add: fmt_dec_def fmt_radix_plain)

lemma fmt_hex_plain [simp]: "plain_str (fmt_hex n)"
  by (simp add: fmt_hex_def fmt_radix_plain)

lemma fmt_dec_digits: "c \<in> set (fmt_dec n) \<Longrightarrow> 48 \<le> code c \<and> code c \<le> 57"
proof -
  assume "c \<in> set (fmt_dec n)"
  then obtain d where "d < 10" "c = digit_char d"
    unfolding fmt_dec_def using fmt_radix_digits [of 10 c n] by auto
  then show ?thesis by (simp add: code_digit_char)
qed

lemma fmt_hex2_parse: "from_str_radix 16 (fmt_hex2 b) = Some b"
proof -
  have "unat b < 256" by (rule unat_u8_lt)
  then have d: "unat b div 16 < 16" by simp
  moreover have "digit_char (unat b div 16) \<noteq> CHR ''+''" using digit_char_no_sign [OF d] by simp
  ultimately show ?thesis
    using \<open>unat b < 256\<close>
    by (simp add: from_str_radix_def parse_radix_def fmt_hex2_def digit_val_digit_char)
qed

section \<open>Case\<close>

definition ascii_lower :: "char \<Rightarrow> char" where
  "ascii_lower c = (if 65 \<le> code c \<and> code c \<le> 90 then char_of (code c + 32) else c)"

definition ascii_upper :: "char \<Rightarrow> char" where
  "ascii_upper c = (if 97 \<le> code c \<and> code c \<le> 122 then char_of (code c - 32) else c)"

definition eq_ignore_ascii_case :: "string \<Rightarrow> string \<Rightarrow> bool" where
  "eq_ignore_ascii_case s t \<longleftrightarrow> map ascii_lower s = map ascii_lower t"

lemma eq_ignore_ascii_case_refl [simp]: "eq_ignore_ascii_case s s"
  by (simp add: eq_ignore_ascii_case_def)

text \<open>\<open>s.replace(":", "")\<close>.\<close>

definition remove_char :: "char \<Rightarrow> string \<Rightarrow> string" where
  "remove_char d s = filter (\<lambda>c. c \<noteq> d) s"

end
