(* ===== verification/Errors.thy ===== *)
theory Errors
  imports Rust_Str
begin

text \<open>
  The error enums of \<open>src/core/error.rs\<close>, and the messages of the two whose \<open>Display\<close> text ends up
  inside another error. An operating-system error is opaque; it is carried as its text.
\<close>

datatype discovery_error =
    Daemon string | Resolution string | NoDevicesFound | DeviceNotFound string

datatype pairing_error =
    InvalidPin | Rejected | SrpVerificationFailed | InvalidServerPublicKey | SignatureInvalid
  | StateMismatch (expected: u8) (actual: u8)
  | TlvParse string | MissingTlv u8 | InvalidState string | Protocol string

datatype rtsp_error =
    ConnectionRefused | InvalidResponse string | UnexpectedStatus u16 | MissingHeader string
  | PlistError string | NoSession | SetupFailed string

datatype streaming_error =
    Encoding string | BufferUnderrun | BufferOverflow | TimingSyncLost | Interrupted
  | InvalidStreamFormat string

datatype crypto_error =
    Encryption string | Decryption string | KeyDerivation string
  | InvalidKeyLength nat nat | AuthTagMismatch

datatype parse_error =
    InvalidFormat string | MissingField string | InvalidHex string | InvalidValue string

datatype error =
    Discovery discovery_error | Connection_error string | Pairing pairing_error | Rtsp rtsp_error
  | Streaming streaming_error | Crypto crypto_error | Parse parse_error
  | UnsupportedFeature string | MfiRequiredError | Timeout

text \<open>\<open>#[error(...)]\<close> texts.\<close>

fun show_parse_error :: "parse_error \<Rightarrow> string" where
  "show_parse_error (InvalidFormat m) = ''Invalid format: '' @ m"
| "show_parse_error (MissingField m) = ''Missing required field: '' @ m"
| "show_parse_error (InvalidHex m) = ''Invalid hex value: '' @ m"
| "show_parse_error (InvalidValue m) = ''Invalid value: '' @ m"

fun show_crypto_error :: "crypto_error \<Rightarrow> string" where
  "show_crypto_error (Encryption m) = ''Encryption failed: '' @ m"
| "show_crypto_error (Decryption m) = ''Decryption failed: '' @ m"
| "show_crypto_error (KeyDerivation m) = ''Key derivation failed: '' @ m"
| "show_crypto_error (InvalidKeyLength e a) =
     ''Invalid key length: expected '' @ fmt_dec e @ '', got '' @ fmt_dec a"
| "show_crypto_error AuthTagMismatch = ''Authentication tag mismatch''"

end
