(* ===== verification/Features.thy ===== *)
theory Features
  imports Errors
begin

text \<open>
  The AirPlay feature bits of \<open>src/core/features.rs\<close>: a 64-bit set, its TXT-record syntax
  (\<open>from_txt_value\<close>, \<open>to_txt_value\<close>) and the choice of the authentication method. A \<open>Features\<close>
  value is its raw word.
\<close>

type_synonym features = u64

datatype auth_method = NoAuth | HomeKitTransient | FairPlay | MfiRequired

section \<open>The flags\<close>

definition flag :: "nat \<Rightarrow> features" where
  "flag n = push_bit n 1"

definition has_flag :: "features \<Rightarrow> features \<Rightarrow> bool" where
  "has_flag f m \<longleftrightarrow> f AND m \<noteq> 0"

lemma has_flag_bit: "has_flag f (flag n) \<longleftrightarrow> bit f n"
proof -
  have "f AND push_bit n 1 = (if bit f n then push_bit n 1 else 0)"
    by (rule bit_eqI) (auto simp: bit_simps)
  moreover have "bit f n \<Longrightarrow> push_bit n 1 \<noteq> (0 :: u64)"
    using bit_imp_le_length [of f n] by (auto simp: bit_eq_iff bit_simps intro!: exI [of _ n])
  ultimately show ?thesis by (auto simp: has_flag_def flag_def)
qed

lemma has_flag_or: "has_flag f (a OR b) \<longleftrightarrow> has_flag f a \<or> has_flag f b"
  by (auto simp: has_flag_def bit.conj_disj_distrib bit_eq_iff bit_simps)

definition SUPPORTS_VIDEO_V1 :: features where "SUPPORTS_VIDEO_V1 = flag 0"
definition SUPPORTS_PHOTO :: features where "SUPPORTS_PHOTO = flag 1"
definition SUPPORTS_SLIDESHOW :: features where "SUPPORTS_SLIDESHOW = flag 5"
definition SUPPORTS_SCREEN :: features where "SUPPORTS_SCREEN = flag 7"
definition SUPPORTS_AUDIO :: features where "SUPPORTS_AUDIO = flag 9"
definition AUDIO_REDUNDANT :: features where "AUDIO_REDUNDANT = flag 11"
definition AUTHENTICATION_FAIRPLAY :: features where "AUTHENTICATION_FAIRPLAY = flag 14"
definition METADATA_FEATURES_0 :: features where "METADATA_FEATURES_0 = flag 15"
definition METADATA_FEATURES_1 :: features where "METADATA_FEATURES_1 = flag 16"
definition METADATA_FEATURES_2 :: features where "METADATA_FEATURES_2 = flag 17"
definition AUDIO_FORMATS_0 :: features where "AUDIO_FORMATS_0 = flag 18"
definition AUDIO_FORMATS_1 :: features where "AUDIO_FORMATS_1 = flag 19"
definition AUDIO_FORMATS_2 :: features where "AUDIO_FORMATS_2 = flag 20"
definition AUDIO_FORMATS_3 :: features where "AUDIO_FORMATS_3 = flag 21"
definition AUTHENTICATION_1 :: features where "AUTHENTICATION_1 = flag 23"
definition AUTHENTICATION_MFI :: features where "AUTHENTICATION_MFI = flag 26"
definition SUPPORTS_LEGACY_PAIRING :: features where "SUPPORTS_LEGACY_PAIRING = flag 27"
definition HAS_UNIFIED_ADVERTISER_INFO :: features where "HAS_UNIFIED_ADVERTISER_INFO = flag 30"
definition IS_CARPLAY :: features where "IS_CARPLAY = flag 32"
definition SUPPORTS_VIDEO_PLAY_QUEUE :: features where "SUPPORTS_VIDEO_PLAY_QUEUE = flag 33"
definition SUPPORTS_AIRPLAY_FROM_CLOUD :: features where "SUPPORTS_AIRPLAY_FROM_CLOUD = flag 34"
definition SUPPORTS_TLS_PSK :: features where "SUPPORTS_TLS_PSK = flag 35"
definition SUPPORTS_UNIFIED_MEDIA_CONTROL :: features where "SUPPORTS_UNIFIED_MEDIA_CONTROL = flag 38"
definition SUPPORTS_BUFFERED_AUDIO :: features where "SUPPORTS_BUFFERED_AUDIO = flag 40"
definition SUPPORTS_PTP :: features where "SUPPORTS_PTP = flag 41"
definition SUPPORTS_SCREEN_MULTI_CODEC :: features where "SUPPORTS_SCREEN_MULTI_CODEC = flag 42"
definition SUPPORTS_SYSTEM_PAIRING :: features where "SUPPORTS_SYSTEM_PAIRING = flag 43"
definition IS_AP_VALERIA_SCREEN_SENDER :: features where "IS_AP_VALERIA_SCREEN_SENDER = flag 44"
definition SUPPORTS_HOMEKIT_PAIRING :: features where "SUPPORTS_HOMEKIT_PAIRING = flag 46"
definition SUPPORTS_TRANSIENT_PAIRING :: features where "SUPPORTS_TRANSIENT_PAIRING = flag 48"
definition SUPPORTS_VIDEO_V2 :: features where "SUPPORTS_VIDEO_V2 = flag 49"
definition METADATA_FEATURES_3 :: features where "METADATA_FEATURES_3 = flag 50"
definition SUPPORTS_UNIFIED_PAIR_MFI :: features where "SUPPORTS_UNIFIED_PAIR_MFI = flag 51"
definition SUPPORTS_SET_PEERS_EXTENDED_MESSAGE :: features where "SUPPORTS_SET_PEERS_EXTENDED_MESSAGE = flag 52"
definition SUPPORTS_AP_SYNC :: features where "SUPPORTS_AP_SYNC = flag 54"
definition SUPPORTS_WOL_55 :: features where "SUPPORTS_WOL_55 = flag 55"
definition SUPPORTS_WOL_56 :: features where "SUPPORTS_WOL_56 = flag 56"
definition SUPPORTS_HANGDOG_REMOTE_CONTROL :: features where "SUPPORTS_HANGDOG_REMOTE_CONTROL = flag 58"
definition SUPPORTS_AUDIO_STREAM_CONNECTION_SETUP :: features where "SUPPORTS_AUDIO_STREAM_CONNECTION_SETUP = flag 59"
definition SUPPORTS_AUDIO_MEDIA_DATA_CONTROL :: features where "SUPPORTS_AUDIO_MEDIA_DATA_CONTROL = flag 60"
definition SUPPORTS_RFC2198_REDUNDANCY :: features where "SUPPORTS_RFC2198_REDUNDANCY = flag 61"

lemmas flag_defs =
  SUPPORTS_VIDEO_V1_def SUPPORTS_PHOTO_def SUPPORTS_SLIDESHOW_def SUPPORTS_SCREEN_def
  SUPPORTS_AUDIO_def AUDIO_REDUNDANT_def AUTHENTICATION_FAIRPLAY_def METADATA_FEATURES_0_def
  METADATA_FEATURES_1_def METADATA_FEATURES_2_def AUDIO_FORMATS_0_def AUDIO_FORMATS_1_def
  AUDIO_FORMATS_2_def AUDIO_FORMATS_3_def AUTHENTICATION_1_def AUTHENTICATION_MFI_def
  SUPPORTS_LEGACY_PAIRING_def HAS_UNIFIED_ADVERTISER_INFO_def IS_CARPLAY_def
  SUPPORTS_VIDEO_PLAY_QUEUE_def SUPPORTS_AIRPLAY_FROM_CLOUD_def SUPPORTS_TLS_PSK_def
  SUPPORTS_UNIFIED_MEDIA_CONTROL_def SUPPORTS_BUFFERED_AUDIO_def SUPPORTS_PTP_def
  SUPPORTS_SCREEN_MULTI_CODEC_def SUPPORTS_SYSTEM_PAIRING_def IS_AP_VALERIA_SCREEN_SENDER_def
  SUPPORTS_HOMEKIT_PAIRING_def SUPPORTS_TRANSIENT_PAIRING_def SUPPORTS_VIDEO_V2_def
  METADATA_FEATURES_3_def SUPPORTS_UNIFIED_PAIR_MFI_def SUPPORTS_SET_PEERS_EXTENDED_MESSAGE_def
  SUPPORTS_AP_SYNC_def SUPPORTS_WOL_55_def SUPPORTS_WOL_56_def SUPPORTS_HANGDOG_REMOTE_CONTROL_def
  SUPPORTS_AUDIO_STREAM_CONNECTION_SETUP_def SUPPORTS_AUDIO_MEDIA_DATA_CONTROL_def
  SUPPORTS_RFC2198_REDUNDANCY_def

definition supports_video_v1 :: "features \<Rightarrow> bool" where
  "supports_video_v1 f \<longleftrightarrow> has_flag f SUPPORTS_VIDEO_V1"

definition supports_photo :: "features \<Rightarrow> bool" where
  "supports_photo f \<longleftrightarrow> has_flag f SUPPORTS_PHOTO"

definition supports_slideshow :: "features \<Rightarrow> bool" where
  "supports_slideshow f \<longleftrightarrow> has_flag f SUPPORTS_SLIDESHOW"

definition supports_screen :: "features \<Rightarrow> bool" where
  "supports_screen f \<longleftrightarrow> has_flag f SUPPORTS_SCREEN"

definition supports_audio :: "features \<Rightarrow> bool" where
  "supports_audio f \<longleftrightarrow> has_flag f SUPPORTS_AUDIO"

definition supports_redundant_audio :: "features \<Rightarrow> bool" where
  "supports_redundant_audio f \<longleftrightarrow> has_flag f AUDIO_REDUNDANT"

definition requires_fairplay :: "features \<Rightarrow> bool" where
  "requires_fairplay f \<longleftrightarrow> has_flag f AUTHENTICATION_FAIRPLAY"

definition has_authentication_1 :: "features \<Rightarrow> bool" where
  "has_authentication_1 f \<longleftrightarrow> has_flag f AUTHENTICATION_1"

definition requires_mfi :: "features \<Rightarrow> bool" where
  "requires_mfi f \<longleftrightarrow> has_flag f AUTHENTICATION_MFI"

definition supports_legacy_pairing :: "features \<Rightarrow> bool" where
  "supports_legacy_pairing f \<longleftrightarrow> has_flag f SUPPORTS_LEGACY_PAIRING"

definition has_unified_advertiser_info :: "features \<Rightarrow> bool" where
  "has_unified_advertiser_info f \<longleftrightarrow> has_flag f HAS_UNIFIED_ADVERTISER_INFO"

definition is_carplay :: "features \<Rightarrow> bool" where
  "is_carplay f \<longleftrightarrow> has_flag f IS_CARPLAY"

definition supports_video_play_queue :: "features \<Rightarrow> bool" where
  "supports_video_play_queue f \<longleftrightarrow> has_flag f SUPPORTS_VIDEO_PLAY_QUEUE"

definition supports_airplay_from_cloud :: "features \<Rightarrow> bool" where
  "supports_airplay_from_cloud f \<longleftrightarrow> has_flag f SUPPORTS_AIRPLAY_FROM_CLOUD"

definition supports_tls_psk :: "features \<Rightarrow> bool" where
  "supports_tls_psk f \<longleftrightarrow> has_flag f SUPPORTS_TLS_PSK"

definition supports_unified_media_control :: "features \<Rightarrow> bool" where
  "supports_unified_media_control f \<longleftrightarrow> has_flag f SUPPORTS_UNIFIED_MEDIA_CONTROL"

definition supports_buffered_audio :: "features \<Rightarrow> bool" where
  "supports_buffered_audio f \<longleftrightarrow> has_flag f SUPPORTS_BUFFERED_AUDIO"

definition feature_ptp :: "features \<Rightarrow> bool" where
  "feature_ptp f \<longleftrightarrow> has_flag f SUPPORTS_PTP"

definition supports_screen_multi_codec :: "features \<Rightarrow> bool" where
  "supports_screen_multi_codec f \<longleftrightarrow> has_flag f SUPPORTS_SCREEN_MULTI_CODEC"

definition supports_system_pairing :: "features \<Rightarrow> bool" where
  "supports_system_pairing f \<longleftrightarrow> has_flag f SUPPORTS_SYSTEM_PAIRING"

definition is_ap_valeria_screen_sender :: "features \<Rightarrow> bool" where
  "is_ap_valeria_screen_sender f \<longleftrightarrow> has_flag f IS_AP_VALERIA_SCREEN_SENDER"

definition supports_homekit_pairing :: "features \<Rightarrow> bool" where
  "supports_homekit_pairing f \<longleftrightarrow> has_flag f SUPPORTS_HOMEKIT_PAIRING"

definition supports_transient_pairing :: "features \<Rightarrow> bool" where
  "supports_transient_pairing f \<longleftrightarrow> has_flag f SUPPORTS_TRANSIENT_PAIRING"

definition supports_video_v2 :: "features \<Rightarrow> bool" where
  "supports_video_v2 f \<longleftrightarrow> has_flag f SUPPORTS_VIDEO_V2"

definition supports_unified_pair_mfi :: "features \<Rightarrow> bool" where
  "supports_unified_pair_mfi f \<longleftrightarrow> has_flag f SUPPORTS_UNIFIED_PAIR_MFI"

definition supports_set_peers_extended_message :: "features \<Rightarrow> bool" where
  "supports_set_peers_extended_message f \<longleftrightarrow> has_flag f SUPPORTS_SET_PEERS_EXTENDED_MESSAGE"

definition supports_ap_sync :: "features \<Rightarrow> bool" where
  "supports_ap_sync f \<longleftrightarrow> has_flag f SUPPORTS_AP_SYNC"

definition supports_wol :: "features \<Rightarrow> bool" where
  "supports_wol f \<longleftrightarrow> has_flag f (SUPPORTS_WOL_55 OR SUPPORTS_WOL_56)"

definition supports_hangdog_remote_control :: "features \<Rightarrow> bool" where
  "supports_hangdog_remote_control f \<longleftrightarrow> has_flag f SUPPORTS_HANGDOG_REMOTE_CONTROL"

definition supports_audio_stream_connection_setup :: "features \<Rightarrow> bool" where
  "supports_audio_stream_connection_setup f \<longleftrightarrow> has_flag f SUPPORTS_AUDIO_STREAM_CONNECTION_SETUP"

definition supports_audio_media_data_control :: "features \<Rightarrow> bool" where
  "supports_audio_media_data_control f \<longleftrightarrow> has_flag f SUPPORTS_AUDIO_MEDIA_DATA_CONTROL"

definition supports_rfc2198_redundancy :: "features \<Rightarrow> bool" where
  "supports_rfc2198_redundancy f \<longleftrightarrow> has_flag f SUPPORTS_RFC2198_REDUNDANCY"

lemmas feature_query_defs =
  supports_video_v1_def supports_photo_def supports_slideshow_def supports_screen_def
  supports_audio_def supports_redundant_audio_def requires_fairplay_def has_authentication_1_def
  requires_mfi_def supports_legacy_pairing_def has_unified_advertiser_info_def is_carplay_def
  supports_video_play_queue_def supports_airplay_from_cloud_def supports_tls_psk_def
  supports_unified_media_control_def supports_buffered_audio_def feature_ptp_def
  supports_screen_multi_codec_def supports_system_pairing_def is_ap_valeria_screen_sender_def
  supports_homekit_pairing_def supports_transient_pairing_def supports_video_v2_def
  supports_unified_pair_mfi_def supports_set_peers_extended_message_def supports_ap_sync_def
  supports_wol_def supports_hangdog_remote_control_def supports_audio_stream_connection_setup_def
  supports_audio_media_data_control_def supports_rfc2198_redundancy_def

section \<open>Fields wider than a bit\<close>

definition metadata_features :: "features \<Rightarrow> u8" where
  "metadata_features f =
     (let b0 = drop_bit 15 f AND 1; b1 = drop_bit 16 f AND 1;
          b2 = drop_bit 17 f AND 1; b3 = drop_bit 50 f AND 1
      in ucast (b0 OR push_bit 1 b1 OR push_bit 2 b2 OR push_bit 3 b3))"

definition audio_formats :: "features \<Rightarrow> u8" where
  "audio_formats f = ucast (drop_bit 18 f AND 0xF)"

section \<open>Authentication\<close>

definition auth_method :: "features \<Rightarrow> auth_method" where
  "auth_method f =
     (if requires_mfi f then MfiRequired
      else if supports_unified_pair_mfi f \<or> supports_transient_pairing f then HomeKitTransient
      else if requires_fairplay f then FairPlay
      else NoAuth)"

section \<open>TXT syntax\<close>

definition parse_hex :: "string \<Rightarrow> parse_error + u64" where
  "parse_hex part0 =
     (let part = trim part0;
          hex_str = (case strip_prefix ''0x'' part of Some h \<Rightarrow> h
                     | None \<Rightarrow> (case strip_prefix ''0X'' part of Some h \<Rightarrow> h | None \<Rightarrow> part))
      in if hex_str = [] then Inl (InvalidHex ''empty hex value'')
         else ok_or (from_str_radix 16 hex_str) (InvalidHex part))"

definition from_txt_value :: "string \<Rightarrow> parse_error + features" where
  "from_txt_value s0 =
     (let s = trim s0 in
      if s = [] then Inl (InvalidFormat ''empty features string'')
      else and_then
        (case split_once CHR '','' s of
           Some (lower_str, upper_str) \<Rightarrow>
             and_then (parse_hex lower_str) (\<lambda>lower.
             and_then (parse_hex upper_str) (\<lambda>upper. Inr (lower, upper)))
         | None \<Rightarrow> and_then (parse_hex s) (\<lambda>lower. Inr (lower, 0)))
        (\<lambda>(lower, upper). Inr (lower OR push_bit 32 upper)))"

definition to_txt_value :: "features \<Rightarrow> string" where
  "to_txt_value f =
     (let lower = f AND 0xFFFFFFFF; upper = drop_bit 32 f in
      if upper = 0 then ''0x'' @ fmt_hex (unat lower)
      else ''0x'' @ fmt_hex (unat lower) @ '',0x'' @ fmt_hex (unat upper))"

section \<open>Lemmas\<close>

lemma parse_hex_fmt: "parse_hex (''0x'' @ fmt_hex (unat w)) = Inr w"
proof -
  have "trim (''0x'' @ fmt_hex (unat w)) = ''0x'' @ fmt_hex (unat w)"
    by (rule trim_plain) simp
  moreover have "strip_prefix ''0x'' (''0x'' @ fmt_hex (unat w)) = Some (fmt_hex (unat w))"
    by (simp add: strip_prefix_def)
  moreover have "from_str_radix 16 (fmt_hex (unat w)) = Some w"
    by (simp add: fmt_hex_def from_str_radix_fmt)
  ultimately show ?thesis by (simp add: parse_hex_def Let_def fmt_hex_def)
qed

lemma fmt_hex_no_comma: "CHR '','' \<notin> set (fmt_hex n)"
proof
  assume "CHR '','' \<in> set (fmt_hex n)"
  then obtain d where d: "d < 16" "CHR '','' = digit_char d"
    unfolding fmt_hex_def using fmt_radix_digits [of 16 "CHR '',''" n] by auto
  from d(1) digit_char_plain [of d] have "48 \<le> code (CHR '','')" by (simp add: d(2))
  then show False by simp
qed

lemma join_halves: "(f AND 0xFFFFFFFF) OR push_bit 32 (drop_bit 32 f) = (f :: u64)"
proof -
  have m: "(0xFFFFFFFF :: u64) = mask 32" by (simp add: mask_eq_exp_minus_1)
  have "f AND 0xFFFFFFFF = take_bit 32 f" unfolding m by (simp add: take_bit_eq_mask)
  then have "f AND 0xFFFFFFFF OR push_bit 32 (drop_bit 32 f) =
      take_bit 32 f OR push_bit 32 (drop_bit 32 f)" by simp
  also have "\<dots> = f"
  proof (rule bit_eqI)
    fix n
    show "bit (take_bit 32 f OR push_bit 32 (drop_bit 32 f)) n = bit f n"
      by (cases "n < 32") (auto simp: bit_simps dest: bit_imp_le_length)
  qed
  finally show ?thesis .
qed

text \<open>The TXT syntax is lossless: reading back what \<open>to_txt_value\<close> prints gives the same
  feature word, for each of the \<open>2 ^ 64\<close> words, in the one-part and the two-part form.\<close>

theorem features_txt_roundtrip: "from_txt_value (to_txt_value f) = Inr f"
proof (cases "drop_bit 32 f = 0")
  case True
  let ?l = "f AND 0xFFFFFFFF"
  have l: "?l = f" using join_halves [of f] True by simp
  have t: "to_txt_value f = ''0x'' @ fmt_hex (unat ?l)" using True by (simp add: to_txt_value_def)
  have "CHR '','' \<notin> set (''0x'' @ fmt_hex (unat ?l))" using fmt_hex_no_comma by simp
  then show ?thesis
    using parse_hex_fmt [of ?l] trim_plain [of "''0x'' @ fmt_hex (unat ?l)"]
    unfolding from_txt_value_def t by (simp add: l del: append.simps)
next
  case False
  let ?l = "f AND 0xFFFFFFFF" and ?u = "drop_bit 32 f"
  let ?a = "''0x'' @ fmt_hex (unat ?l)" and ?b = "''0x'' @ fmt_hex (unat ?u)"
  have t: "to_txt_value f = ?a @ CHR '','' # ?b" using False by (simp add: to_txt_value_def)
  have "CHR '','' \<notin> set ?a" using fmt_hex_no_comma by simp
  then have s: "split_once CHR '','' (?a @ CHR '','' # ?b) = Some (?a, ?b)"
    by (rule split_once_append)
  have "trim (?a @ CHR '','' # ?b) = ?a @ CHR '','' # ?b" by (rule trim_plain) simp
  then show ?thesis
    unfolding from_txt_value_def t
    by (simp only: Let_def s parse_hex_fmt and_then_simps option.case prod.case join_halves
        if_False append_is_Nil_conv list.distinct simp_thms)
qed

text \<open>The authentication method is decided by four bits only, MFi first, then the two HomeKit
  bits, then FairPlay.\<close>

theorem auth_method_decision:
  "auth_method f =
     (if bit f 26 then MfiRequired else if bit f 51 \<or> bit f 48 then HomeKitTransient
      else if bit f 14 then FairPlay else NoAuth)"
  by (simp add: auth_method_def feature_query_defs flag_defs has_flag_bit)

lemma metadata_features_bits:
  "bit (metadata_features f) 0 = bit f 15" "bit (metadata_features f) 1 = bit f 16"
  "bit (metadata_features f) 2 = bit f 17" "bit (metadata_features f) 3 = bit f 50"
  by (simp_all only: metadata_features_def Let_def bit_simps) auto

lemma supports_wol_iff: "supports_wol f \<longleftrightarrow> bit f 55 \<or> bit f 56"
  by (simp add: feature_query_defs flag_defs has_flag_or has_flag_bit)

end
