(* ===== verification/Codec.thy ===== *)
theory Codec
  imports Errors
begin

text \<open>
  Audio formats and stream configurations: \<open>src/core/codec.rs\<close>, \<open>src/core/stream.rs\<close> and the
  constants and the packet clock of \<open>src/protocol.rs\<close>.
\<close>

section \<open>Constants\<close>

definition HKP_TRANSIENT :: u8 where "HKP_TRANSIENT = 4"
definition SAMPLE_RATE_44100 :: u32 where "SAMPLE_RATE_44100 = 44100"
definition SAMPLE_RATE_48000 :: u32 where "SAMPLE_RATE_48000 = 48000"
definition AIRPLAY_ALAC_FRAMES_PER_PACKET :: u32 where "AIRPLAY_ALAC_FRAMES_PER_PACKET = 352"
definition AIRPLAY_AAC_FRAMES_PER_PACKET :: u32 where "AIRPLAY_AAC_FRAMES_PER_PACKET = 1024"
definition AIRPLAY_USER_AGENT :: string where "AIRPLAY_USER_AGENT = ''AirPlay/745.83''"
definition AIRPLAY_CLIENT_NAME :: string where "AIRPLAY_CLIENT_NAME = ''Rust AirPlay Sender''"
definition AIRPLAY_ACTIVE_REMOTE :: string where "AIRPLAY_ACTIVE_REMOTE = ''1234567890''"

lemmas protocol_defs =
  SAMPLE_RATE_44100_def SAMPLE_RATE_48000_def
  AIRPLAY_ALAC_FRAMES_PER_PACKET_def AIRPLAY_AAC_FRAMES_PER_PACKET_def

definition next_airplay_packet_timestamp :: "u32 \<Rightarrow> u32 \<Rightarrow> u32" where
  "next_airplay_packet_timestamp rtp_timestamp sample_rate =
     rtp_timestamp + sample_rate div SAMPLE_RATE_44100 * AIRPLAY_ALAC_FRAMES_PER_PACKET"

section \<open>Codecs and formats\<close>

datatype audio_codec = Pcm | Alac | Aac | AacEld | Opus

datatype sample_rate = Hz44100 | Hz48000

record audio_format =
  codec :: audio_codec
  sample_rate :: sample_rate
  bit_depth :: u8
  channels :: u8
  frames_per_packet :: u32

fun compression_type :: "audio_codec \<Rightarrow> u8" where
  "compression_type Pcm = 1"
| "compression_type Alac = 2"
| "compression_type Aac = 3"
| "compression_type AacEld = 4"
| "compression_type Opus = 32"

fun audio_format_value :: "audio_codec \<Rightarrow> u32" where
  "audio_format_value Pcm = 0"
| "audio_format_value Alac = 0x40000"
| "audio_format_value Aac = 0x400000"
| "audio_format_value AacEld = 0x1000000"
| "audio_format_value Opus = 0x2000000"

definition from_compression_type :: "u8 \<Rightarrow> audio_codec option" where
  "from_compression_type ct =
     (if ct = 1 then Some Pcm else if ct = 2 then Some Alac else if ct = 3 then Some Aac
      else if ct = 4 then Some AacEld else if ct = 32 then Some Opus else None)"

fun as_hz :: "sample_rate \<Rightarrow> u32" where
  "as_hz Hz44100 = SAMPLE_RATE_44100"
| "as_hz Hz48000 = SAMPLE_RATE_48000"

definition default_format :: audio_format where
  "default_format = \<lparr>codec = Alac, sample_rate = Hz44100, bit_depth = 16, channels = 2,
     frames_per_packet = AIRPLAY_ALAC_FRAMES_PER_PACKET\<rparr>"

definition realtime_default :: audio_format where
  "realtime_default = default_format"

definition buffered_default :: audio_format where
  "buffered_default = \<lparr>codec = Aac, sample_rate = Hz44100, bit_depth = 16, channels = 2,
     frames_per_packet = AIRPLAY_AAC_FRAMES_PER_PACKET\<rparr>"

text \<open>\<open>usize\<close> is 64 bits wide.\<close>

definition bytes_per_frame :: "audio_format \<Rightarrow> u64" where
  "bytes_per_frame f = (ucast (bit_depth f) * ucast (channels f)) div 8"

definition buffer_size_for_duration_ms :: "audio_format \<Rightarrow> u32 \<Rightarrow> u64" where
  "buffer_size_for_duration_ms f ms =
     (let samples = (ucast (as_hz (sample_rate f)) * ucast ms :: u64) div 1000
      in samples * bytes_per_frame f)"

section \<open>Stream configuration\<close>

datatype stream_type = Realtime | Buffered | Mirror

fun stream_type_code :: "stream_type \<Rightarrow> nat" where
  "stream_type_code Realtime = 96"
| "stream_type_code Buffered = 103"
| "stream_type_code Mirror = 110"

datatype timing_protocol = Ntp | Ptp

datatype ptp_mode = Master | Slave

record stream_config =
  stream_type :: stream_type
  audio_format :: audio_format
  timing_protocol :: timing_protocol
  ptp_mode :: ptp_mode
  latency_min :: u32
  latency_max :: u32
  supports_dynamic_stream_id :: bool
  asc :: "bytes option"

definition default_config :: stream_config where
  "default_config = \<lparr>stream_type = Realtime, audio_format = default_format,
     timing_protocol = Ntp, ptp_mode = Master, latency_min = 11025, latency_max = 88200,
     supports_dynamic_stream_id = True, asc = None\<rparr>"

definition airplay2_buffered :: stream_config where
  "airplay2_buffered = \<lparr>stream_type = Buffered, audio_format = buffered_default,
     timing_protocol = Ptp, ptp_mode = Master, latency_min = 22050, latency_max = 132300,
     supports_dynamic_stream_id = True, asc = None\<rparr>"

definition airplay2_buffered_ntp :: stream_config where
  "airplay2_buffered_ntp = \<lparr>stream_type = Buffered, audio_format = buffered_default,
     timing_protocol = Ntp, ptp_mode = Master, latency_min = 22050, latency_max = 132300,
     supports_dynamic_stream_id = True, asc = None\<rparr>"

definition airplay1_realtime :: stream_config where
  "airplay1_realtime = default_config"

definition latency_min_ms :: "stream_config \<Rightarrow> u32" where
  "latency_min_ms c =
     ucast ((ucast (latency_min c) * 1000 :: u64) div ucast (as_hz (sample_rate (audio_format c))))"

definition latency_max_ms :: "stream_config \<Rightarrow> u32" where
  "latency_max_ms c =
     ucast ((ucast (latency_max c) * 1000 :: u64) div ucast (as_hz (sample_rate (audio_format c))))"

section \<open>Lemmas\<close>

lemma from_compression_type_iff: "from_compression_type ct = Some c \<longleftrightarrow> compression_type c = ct"
  by (cases c) (auto simp: from_compression_type_def)

lemma as_hz_pos [simp]: "0 < unat (as_hz r)"
  by (cases r) (simp_all add: protocol_defs)

lemma as_hz_nonzero [simp]: "as_hz r \<noteq> 0"
  by (cases r) (simp_all add: protocol_defs)

lemma unat_as_hz: "unat (as_hz r) = (case r of Hz44100 \<Rightarrow> 44100 | Hz48000 \<Rightarrow> 48000)"
  by (cases r) (simp_all add: protocol_defs)

text \<open>The code's \<open>u64\<close> products do not overflow: the results are the exact quotients.\<close>

lemma unat_ucast_u64 [simp]:
  "unat (ucast (a :: u32) :: u64) = unat a" "unat (ucast (b :: u8) :: u64) = unat b"
  by (simp_all add: unat_ucast_widen)

lemma bytes_per_frame_exact:
  "unat (bytes_per_frame f) = unat (bit_depth f) * unat (channels f) div 8"
proof -
  have "unat (bit_depth f) < 2 ^ 8" "unat (channels f) < 2 ^ 8"
    using unat_lt [of "bit_depth f"] unat_lt [of "channels f"] by simp_all
  then have "unat (bit_depth f) * unat (channels f) < 2 ^ 8 * 2 ^ 8" by (rule mult_strict_mono) auto
  then show ?thesis by (simp add: bytes_per_frame_def unat_div unat_mult_small)
qed

lemma bytes_per_frame_bound: "unat (bytes_per_frame f) < 2 ^ 13"
proof -
  have "unat (bit_depth f) \<le> 255" "unat (channels f) \<le> 255"
    using unat_lt [of "bit_depth f"] unat_lt [of "channels f"] by simp_all
  then have "unat (bit_depth f) * unat (channels f) \<le> 255 * 255" by (rule mult_le_mono)
  then show ?thesis by (simp add: bytes_per_frame_exact)
qed

lemma buffer_size_exact:
  "unat (buffer_size_for_duration_ms f ms) =
     unat (as_hz (sample_rate f)) * unat ms div 1000 *
       (unat (bit_depth f) * unat (channels f) div 8)"
proof -
  have hz: "unat (as_hz (sample_rate f)) \<le> 48000" by (simp add: unat_as_hz split: sample_rate.split)
  have ms: "unat ms < 2 ^ 32" using unat_lt [of ms] by simp
  have p: "unat (as_hz (sample_rate f)) * unat ms \<le> 48000 * 2 ^ 32"
    by (rule mult_le_mono) (use hz ms in auto)
  then have q: "unat (as_hz (sample_rate f)) * unat ms div 1000 \<le> 48 * 2 ^ 32" by simp
  then have "unat (as_hz (sample_rate f)) * unat ms div 1000 * unat (bytes_per_frame f)
      \<le> 48 * 2 ^ 32 * 2 ^ 13"
    by (rule mult_le_mono) (use bytes_per_frame_bound [of f] in simp)
  with p show ?thesis
    by (simp add: buffer_size_for_duration_ms_def Let_def unat_mult_small unat_div
        bytes_per_frame_exact)
qed

lemma latency_ms_exact:
  "unat (ucast ((ucast (l :: u32) * 1000 :: u64) div ucast (as_hz r)) :: u32) =
     unat l * 1000 div unat (as_hz r)"
proof -
  have l: "unat l < 2 ^ 32" using unat_lt [of l] by simp
  then have m: "unat (ucast l * 1000 :: u64) = unat l * 1000" by (simp add: unat_mult_small)
  have "unat l * 1000 div unat (as_hz r) \<le> unat l * 1000 div 1000"
    by (rule div_le_mono2) (simp_all add: unat_as_hz split: sample_rate.split)
  with l have "unat l * 1000 div unat (as_hz r) < 2 ^ 32" by simp
  then show ?thesis by (simp add: unat_ucast_mod unat_div m)
qed

end
