(* ===== verification/Device.thy ===== *)
theory Device
  imports Codec Features
begin

text \<open>
  Devices as discovery reports them: \<open>src/core/device.rs\<close> (identifiers, versions, the device record
  and its queries), the choice of the address to connect to (\<open>src/client/mod.rs\<close>) and the random
  client identifier (\<open>src/client/identity.rs\<close>). \<open>DeviceId\<close> wraps a \<open>[u8; 6]\<close>; that the list has
  six bytes is \<open>id_ok\<close>, which every constructor of the code keeps.
\<close>

section \<open>Identifiers\<close>

datatype device_id = DeviceId (as_id_bytes: bytes)

definition id_ok :: "device_id \<Rightarrow> bool" where
  "id_ok d \<longleftrightarrow> length (as_id_bytes d) = 6"

definition hex_byte :: "string \<Rightarrow> parse_error fault + u8" where
  "hex_byte part = ok_or (from_str_radix 16 part) (Fail (InvalidHex part))"

definition hex_pair :: "string \<Rightarrow> nat \<Rightarrow> parse_error fault + u8" where
  "hex_pair s i =
     (case str_slice s (i * 2) (i * 2 + 2) of None \<Rightarrow> Inl Panic | Some part \<Rightarrow> hex_byte part)"

definition from_mac_string :: "string \<Rightarrow> parse_error fault + device_id" where
  "from_mac_string s0 =
     (let s = trim s0 in
      and_then
        (if CHR '':'' \<in> set s then collect_res (map hex_byte (split_on CHR '':'' s))
         else if CHR ''-'' \<in> set s then collect_res (map hex_byte (split_on CHR ''-'' s))
         else if length s \<noteq> 12 then
           Inl (Fail (InvalidFormat
             (''MAC address must be 12 hex characters, got '' @ fmt_dec (length s))))
         else collect_res (map (hex_pair s) [0..<6]))
        (\<lambda>bytes.
           if length bytes \<noteq> 6 then
             Inl (Fail (InvalidFormat
               (''MAC address must have 6 bytes, got '' @ fmt_dec (length bytes))))
           else Inr (DeviceId bytes)))"

definition to_mac_string :: "device_id \<Rightarrow> string" where
  "to_mac_string d = join_with CHR '':'' (map fmt_hex2 (as_id_bytes d))"

text \<open>\<open>generate_device_id\<close>, given the six bytes the operating system returned.\<close>

definition generate_device_id :: "bytes \<Rightarrow> string" where
  "generate_device_id rand = join_with CHR '':'' (map fmt_hex2 rand)"

section \<open>Versions\<close>

datatype version = Version (major: u32) (minor: u32) (patch: u32)

text \<open>\<open>derive(PartialOrd, Ord)\<close>: lexicographic, in the order of the fields.\<close>

definition version_le :: "version \<Rightarrow> version \<Rightarrow> bool" where
  "version_le v w \<longleftrightarrow>
     major v < major w \<or> (major v = major w \<and>
       (minor v < minor w \<or> (minor v = minor w \<and> patch v \<le> patch w)))"

definition version_lt :: "version \<Rightarrow> version \<Rightarrow> bool" where
  "version_lt v w \<longleftrightarrow>
     major v < major w \<or> (major v = major w \<and>
       (minor v < minor w \<or> (minor v = minor w \<and> patch v < patch w)))"

instantiation version :: linorder
begin

definition less_eq_version :: "version \<Rightarrow> version \<Rightarrow> bool" where
  "less_eq_version = version_le"

definition less_version :: "version \<Rightarrow> version \<Rightarrow> bool" where
  "less_version = version_lt"

instance
proof
  fix u v w :: version
  show "(v < w) = (v \<le> w \<and> \<not> w \<le> v)"
    by (auto simp: less_version_def less_eq_version_def version_lt_def version_le_def)
  show "v \<le> v" by (simp add: less_eq_version_def version_le_def)
  show "u \<le> v \<Longrightarrow> v \<le> w \<Longrightarrow> u \<le> w" by (auto simp: less_eq_version_def version_le_def)
  show "v \<le> w \<Longrightarrow> w \<le> v \<Longrightarrow> v = w"
    by (cases v; cases w) (auto simp: less_eq_version_def version_le_def)
  show "v \<le> w \<or> w \<le> v" by (auto simp: less_eq_version_def version_le_def)
qed

end

definition version_default :: version where
  "version_default = Version 0 0 0"

definition parse_part :: "string \<Rightarrow> string list \<Rightarrow> nat \<Rightarrow> parse_error + u32" where
  "parse_part what parts i =
     (if i < length parts
      then ok_or (parse_dec (parts ! i))
             (InvalidValue (''invalid '' @ what @ '' version: '' @ (parts ! i)))
      else Inr 0)"

definition version_parse :: "string \<Rightarrow> parse_error + version" where
  "version_parse s0 =
     (let s = trim s0 in
      if s = [] then Inl (InvalidFormat ''empty version string'')
      else (let parts = split_on CHR ''.'' s in
        if parts = [] then Inl (InvalidFormat ''missing major version'')
        else and_then (parse_part ''major'' parts 0) (\<lambda>major.
             and_then (parse_part ''minor'' parts 1) (\<lambda>minor.
             and_then (parse_part ''patch'' parts 2) (\<lambda>patch.
               Inr (Version major minor patch))))))"

definition version_show :: "version \<Rightarrow> string" where
  "version_show v = fmt_dec (unat (major v)) @ ''.'' @ fmt_dec (unat (minor v)) @ ''.'' @
     fmt_dec (unat (patch v))"

definition MIN_AIRPLAY2_VERSION :: version where
  "MIN_AIRPLAY2_VERSION = Version 354 54 6"

definition MIN_PTP_VERSION :: version where
  "MIN_PTP_VERSION = Version 366 0 0"

section \<open>Addresses\<close>

datatype ip_addr = V4 u32 | V6 u128

fun is_ipv4 :: "ip_addr \<Rightarrow> bool" where
  "is_ipv4 (V4 _) = True"
| "is_ipv4 (V6 _) = False"

type_synonym sock_addr = "ip_addr \<times> u16"

definition is_link_local_v6 :: "u128 \<Rightarrow> bool" where
  "is_link_local_v6 a \<longleftrightarrow> (ucast (drop_bit 112 a) :: u16) AND 0xffc0 = 0xfe80"

definition is_loopback_v6 :: "u128 \<Rightarrow> bool" where
  "is_loopback_v6 a \<longleftrightarrow> a = 1"

fun is_global_v6 :: "ip_addr \<Rightarrow> bool" where
  "is_global_v6 (V6 a) \<longleftrightarrow> \<not> is_loopback_v6 a \<and> \<not> is_link_local_v6 a"
| "is_global_v6 (V4 _) \<longleftrightarrow> False"

definition select_best_address :: "ip_addr list \<Rightarrow> ip_addr option" where
  "select_best_address addresses =
     (case find is_ipv4 addresses of Some addr \<Rightarrow> Some addr
      | None \<Rightarrow> (case find is_global_v6 addresses of Some addr \<Rightarrow> Some addr
                | None \<Rightarrow> (case addresses of [] \<Rightarrow> None | addr # _ \<Rightarrow> Some addr)))"

section \<open>The device record\<close>

record device =
  dev_id :: device_id
  dev_name :: string
  dev_model :: string
  manufacturer :: "string option"
  serial_number :: "string option"
  addresses :: "ip_addr list"
  dev_port :: u16
  dev_features :: features
  required_sender_features :: "features option"
  public_key :: "bytes option"
  source_version :: version
  firmware_version :: "string option"
  os_version :: "string option"
  protocol_version :: "string option"
  requires_password :: bool
  status_flags :: u64
  access_control :: "u8 option"
  pairing_identity :: "string option"
  system_pairing_identity :: "string option"
  bluetooth_address :: "string option"
  homekit_home_id :: "string option"
  group_id :: "u128 option"
  is_group_leader :: bool
  group_public_name :: "string option"
  group_contains_discoverable_leader :: bool
  home_group_id :: "string option"
  household_id :: "string option"
  parent_group_id :: "u128 option"
  parent_group_contains_discoverable_leader :: bool
  tight_sync_id :: "u128 option"
  raop_port :: "u16 option"
  raop_encryption_types :: "u8 list option"
  raop_codecs :: "u8 list option"
  raop_transport :: "string option"
  raop_metadata_types :: "u8 list option"
  raop_digest_auth :: bool
  vodka_version :: "string option"

definition supports_airplay2 :: "device \<Rightarrow> bool" where
  "supports_airplay2 d \<longleftrightarrow>
     supports_buffered_audio (dev_features d) \<and> source_version d \<ge> MIN_AIRPLAY2_VERSION"

definition supports_ptp :: "device \<Rightarrow> bool" where
  "supports_ptp d \<longleftrightarrow> feature_ptp (dev_features d) \<and> source_version d \<ge> MIN_PTP_VERSION"

fun first_ipv4 :: "ip_addr list \<Rightarrow> u16 \<Rightarrow> sock_addr option" where
  "first_ipv4 [] port = None"
| "first_ipv4 (a # as) port = (if is_ipv4 a then Some (a, port) else first_ipv4 as port)"

definition socket_addr :: "device \<Rightarrow> sock_addr option" where
  "socket_addr d =
     (case first_ipv4 (addresses d) (dev_port d) of Some sa \<Rightarrow> Some sa
      | None \<Rightarrow> (case addresses d of [] \<Rightarrow> None | a # _ \<Rightarrow> Some (a, dev_port d)))"

definition device_auth_method :: "device \<Rightarrow> auth_method" where
  "device_auth_method d = auth_method (dev_features d)"

definition supports_raop :: "device \<Rightarrow> bool" where
  "supports_raop d \<longleftrightarrow> raop_port d \<noteq> None \<or> \<not> supports_airplay2 d"

definition raop_connection_port :: "device \<Rightarrow> u16" where
  "raop_connection_port d = (case raop_port d of Some p \<Rightarrow> p | None \<Rightarrow> dev_port d)"

definition supports_rsa_encryption :: "device \<Rightarrow> bool" where
  "supports_rsa_encryption d =
     (case raop_encryption_types d of Some et \<Rightarrow> 1 \<in> set et | None \<Rightarrow> False)"

section \<open>Lemmas: identifiers\<close>

lemma set_fmt_hex2: "c \<in> set (fmt_hex2 b) \<Longrightarrow> 48 \<le> code c \<and> code c \<le> 70"
proof -
  assume "c \<in> set (fmt_hex2 b)"
  moreover have "unat b div 16 < 16" "unat b mod 16 < 16" using unat_u8_lt [of b] by auto
  ultimately show ?thesis using digit_char_plain by (auto simp: fmt_hex2_def)
qed

lemma fmt_hex2_no_sep:
  "CHR '':'' \<notin> set (fmt_hex2 b)" "CHR ''-'' \<notin> set (fmt_hex2 b)"
proof -
  have d: "unat b div 16 < 16" "unat b mod 16 < 16" using unat_u8_lt [of b] by auto
  have "digit_char n \<noteq> CHR '':''" if "n < 16" for n
  proof
    assume "digit_char n = CHR '':''"
    then have "code (digit_char n) = 58" by simp
    with code_digit_char [OF that] show False by (auto split: if_splits)
  qed
  from this [OF d(1)] this [OF d(2)] show "CHR '':'' \<notin> set (fmt_hex2 b)"
    by (simp add: fmt_hex2_def eq_commute)
  show "CHR ''-'' \<notin> set (fmt_hex2 b)"
    using digit_char_no_sign [OF d(1)] digit_char_no_sign [OF d(2)] by (auto simp: fmt_hex2_def)
qed

lemma length_fmt_hex2 [simp]: "length (fmt_hex2 b) = 2"
  by (simp add: fmt_hex2_def)

lemma hex_byte_fmt [simp]: "hex_byte (fmt_hex2 b) = Inr b"
  by (simp add: hex_byte_def fmt_hex2_parse)

lemma plain_fmt_hex2 [simp]: "plain_str (fmt_hex2 b)"
  unfolding plain_str_def by (intro ballI, drule set_fmt_hex2) simp

lemma plain_join:
  "33 \<le> code d \<Longrightarrow> code d < 127 \<Longrightarrow> \<forall>p \<in> set ps. plain_str p \<Longrightarrow> plain_str (join_with d ps)"
  by (induction d ps rule: join_with.induct) auto

lemma set_join_with: "set (join_with d ps) \<subseteq> insert d (\<Union>p \<in> set ps. set p)"
  by (induction d ps rule: join_with.induct) auto

text \<open>Six bytes joined by \<open>:\<close> or \<open>-\<close> are read back.\<close>

lemma from_mac_joined:
  assumes d: "d = CHR '':'' \<or> d = CHR ''-''" and len: "length bs = 6"
  shows "from_mac_string (join_with d (map fmt_hex2 bs)) = Inr (DeviceId bs)"
proof -
  let ?s = "join_with d (map fmt_hex2 bs)"
  have no: "\<forall>p \<in> set (map fmt_hex2 bs). d \<notin> set p" using d fmt_hex2_no_sep by auto
  have "plain_str ?s" by (rule plain_join) (use d in auto)
  then have t: "trim ?s = ?s" by (rule trim_plain)
  have sp: "split_on d ?s = map fmt_hex2 bs" by (rule split_on_join) (use len no in auto)
  have sub: "set ?s \<subseteq> insert d (\<Union>p \<in> set (map fmt_hex2 bs). set p)"
    by (rule set_join_with)
  have "d \<in> set ?s"
  proof (rule ccontr)
    assume "d \<notin> set ?s"
    then have "split_on d ?s = [?s]" by (rule split_on_no_sep)
    with sp len show False by (metis length_map length_Cons list.size(3) numeral_One
        numeral_eq_iff One_nat_def semiring_norm(83))
  qed
  moreover have c: "collect_res (map hex_byte (split_on d ?s)) = Inr bs"
    unfolding sp by (simp add: comp_def collect_res_map_Inr [where f = "\<lambda>x. x", simplified])
  moreover have "d = CHR '':'' \<or> (d = CHR ''-'' \<and> CHR '':'' \<notin> set ?s)"
    using d sub fmt_hex2_no_sep by auto
  ultimately show ?thesis
    using len t by (elim disjE conjE) (simp_all add: from_mac_string_def Let_def)
qed

text \<open>Printing a device identifier and parsing the text gives the identifier back.\<close>

theorem mac_string_roundtrip:
  assumes "id_ok d" shows "from_mac_string (to_mac_string d) = Inr d"
  using assms from_mac_joined [of "CHR '':''" "as_id_bytes d"]
  by (simp add: to_mac_string_def id_ok_def)

theorem mac_string_roundtrip_witness:
  "from_mac_string (to_mac_string (DeviceId [0xAA, 0xBB, 0xCC, 0, 1, 0x2F]))
     = Inr (DeviceId [0xAA, 0xBB, 0xCC, 0, 1, 0x2F])"
  by (rule mac_string_roundtrip) (simp add: id_ok_def)

text \<open>A parsed identifier has six bytes.\<close>

lemma from_mac_string_ok: "from_mac_string s = Inr d \<Longrightarrow> id_ok d"
  by (auto simp: from_mac_string_def Let_def and_then_eq_Inr id_ok_def split: if_splits)

lemma generate_device_id_parses:
  "length rand = 6 \<Longrightarrow> from_mac_string (generate_device_id rand) = Inr (DeviceId rand)"
  by (simp add: generate_device_id_def from_mac_joined)

text \<open>
  The undelimited form slices the text two bytes at a time, so a text of twelve bytes with a
  character of more than one byte across a cut makes the parser panic instead of failing.
\<close>

definition split_char_name :: string where
  "split_char_name = str_of [0x30, 0xC3, 0xA9, 0xC3, 0xA9, 0xC3, 0xA9, 0xC3, 0xA9, 0xC3, 0xA9, 0x30]"

lemma split_char_name_utf8: "utf8_ok (as_bytes split_char_name)"
  by (simp add: split_char_name_def cont_byte_def)

text \<open>\<open>from_mac_string\<close> panics on some valid UTF-8 text of twelve bytes.\<close>

theorem mac_string_panics:
  "\<exists>s. utf8_ok (as_bytes s) \<and> length s = 12 \<and> from_mac_string s = Inl Panic"
proof (intro exI [of _ split_char_name] conjI)
  show "utf8_ok (as_bytes split_char_name)" by (rule split_char_name_utf8)
  show "length split_char_name = 12" by (simp add: split_char_name_def)
  show "from_mac_string split_char_name = Inl Panic"
    by code_simp
qed

text \<open>An ASCII text never makes it panic.\<close>

lemma collect_res_Panic:
  "collect_res rs = Inl e \<Longrightarrow> Inl e \<in> set rs"
  by (induction rs) (auto split: sum.splits)

lemma hex_byte_no_panic: "hex_byte p \<noteq> Inl Panic"
  by (cases "from_str_radix 16 p :: u8 option") (auto simp: hex_byte_def)

lemma from_mac_string_ascii_no_panic:
  assumes "ascii_str (trim s)" shows "from_mac_string s \<noteq> Inl Panic"
proof
  assume "from_mac_string s = Inl Panic"
  then consider
      d where "collect_res (map hex_byte (split_on d (trim s))) = Inl Panic"
    | "length (trim s) = 12" "collect_res (map (hex_pair (trim s)) [0..<6]) = Inl Panic"
    by (auto simp: from_mac_string_def Let_def and_then_eq_Inl split: if_splits)
  then show False
  proof cases
    case 1
    then show False using collect_res_Panic hex_byte_no_panic by fastforce
  next
    case 2
    then obtain i where "i < 6" "hex_pair (trim s) i = Inl Panic"
      using collect_res_Panic by fastforce
    with assms 2(1) hex_byte_no_panic show False
      by (simp add: hex_pair_def str_slice_ascii)
  qed
qed

section \<open>Lemmas: versions\<close>

lemma fmt_dec_no_dot: "CHR ''.'' \<notin> set (fmt_dec n)"
proof
  assume "CHR ''.'' \<in> set (fmt_dec n)"
  then have "48 \<le> code (CHR ''.'')" using fmt_dec_digits by blast
  then show False by simp
qed

text \<open>A version printed as \<open>major.minor.patch\<close> is parsed back unchanged.\<close>

theorem version_roundtrip: "version_parse (version_show v) = Inr v"
proof -
  let ?a = "fmt_dec (unat (major v))" and ?b = "fmt_dec (unat (minor v))"
    and ?c = "fmt_dec (unat (patch v))"
  have s: "version_show v = ?a @ CHR ''.'' # ?b @ CHR ''.'' # ?c" by (simp add: version_show_def)
  have "plain_str (version_show v)" by (simp add: s)
  then have t: "trim (version_show v) = version_show v" by (rule trim_plain)
  have sp: "split_on CHR ''.'' (version_show v) = [?a, ?b, ?c]"
    unfolding s by (simp add: split_on_append split_on_no_sep fmt_dec_no_dot)
  show ?thesis
    using sp by (simp add: version_parse_def t Let_def parse_part_def) (simp add: s)
qed

section \<open>Lemmas: addresses\<close>

text \<open>\<open>select_best_address\<close> returns an address of the list, prefers any IPv4 address to every
  IPv6 one and a global IPv6 address to a loopback or link-local one, and returns \<open>None\<close> for the
  empty list only.\<close>

theorem select_best_address_spec:
  "case select_best_address as of
     None \<Rightarrow> as = []
   | Some a \<Rightarrow> a \<in> set as \<and>
       (is_ipv4 a \<or> ((\<forall>b \<in> set as. \<not> is_ipv4 b) \<and>
         (is_global_v6 a \<or> ((\<forall>b \<in> set as. \<not> is_global_v6 b) \<and> a = hd as))))"
proof (cases "find is_ipv4 as")
  case (Some a)
  then have "a \<in> set as \<and> is_ipv4 a" by (auto simp: find_Some_iff)
  with Some show ?thesis by (simp add: select_best_address_def)
next
  case None
  then have no4: "\<forall>b \<in> set as. \<not> is_ipv4 b" by (simp add: find_None_iff)
  show ?thesis
  proof (cases "find is_global_v6 as")
    case (Some a)
    then have "a \<in> set as \<and> is_global_v6 a" by (auto simp: find_Some_iff)
    with Some None no4 show ?thesis by (simp add: select_best_address_def)
  next
    case None': None
    then have "\<forall>b \<in> set as. \<not> is_global_v6 b" by (simp add: find_None_iff)
    with None None' no4 show ?thesis by (cases as) (simp_all add: select_best_address_def)
  qed
qed

theorem select_best_address_spec_witness: "select_best_address [V6 1, V4 2] = Some (V4 2)"
  using select_best_address_spec [of "[V6 1, V4 2]"] by (auto split: option.splits)

lemma first_ipv4_find: "first_ipv4 as port = map_option (\<lambda>a. (a, port)) (find is_ipv4 as)"
  by (induction as) auto

text \<open>Where an IPv4 address exists, the device's own choice is the client's.\<close>

lemma socket_addr_ipv4:
  "\<exists>a \<in> set (addresses d). is_ipv4 a \<Longrightarrow>
   socket_addr d = map_option (\<lambda>a. (a, dev_port d)) (select_best_address (addresses d))"
  by (cases "find is_ipv4 (addresses d)")
    (auto simp: socket_addr_def first_ipv4_find select_best_address_def find_None_iff)

text \<open>A newer source version never loses a capability.\<close>

lemma supports_ptp_upgrade:
  "supports_ptp d \<Longrightarrow> source_version d \<le> v \<Longrightarrow> supports_ptp (d\<lparr>source_version := v\<rparr>)"
  by (auto simp: supports_ptp_def)

end
