(* ===== verification/Tlv8.thy ===== *)
theory Tlv8
  imports Errors
begin

text \<open>
  The TLV8 containers of the pairing messages: \<open>src/crypto/tlv.rs\<close>. A container maps a one-byte
  type to a value of any length; on the wire a value longer than 255 bytes is cut into fragments
  of the same type.
\<close>

section \<open>Containers\<close>

datatype tlv_type = Method | Salt | PublicKey | Proof | State | Error | Flags

fun tlv_code :: "tlv_type \<Rightarrow> u8" where
  "tlv_code Method = 0x00"
| "tlv_code Salt = 0x02"
| "tlv_code PublicKey = 0x03"
| "tlv_code Proof = 0x04"
| "tlv_code State = 0x06"
| "tlv_code Error = 0x07"
| "tlv_code Flags = 0x13"

record tlv8 =
  items :: "(u8, bytes) hmap"

definition tlv_new :: tlv8 where
  "tlv_new = \<lparr>items = []\<rparr>"

section \<open>Parsing\<close>

definition tlv_add :: "(u8, bytes) hmap \<Rightarrow> u8 option \<Rightarrow> u8 \<Rightarrow> bytes \<Rightarrow> (u8, bytes) hmap" where
  "tlv_add its last_type ty val =
     (if Some ty = last_type then
        (case hm_get its ty of
           Some existing \<Rightarrow> hm_insert ty (existing @ val) its
         | None \<Rightarrow> its)
      else
        (case hm_get its ty of
           Some existing \<Rightarrow> hm_insert ty (existing @ val) its
         | None \<Rightarrow> hm_insert ty val its))"

text \<open>The loop of \<open>parse\<close>; \<open>data\<close> is what is left at the index \<open>i\<close>.\<close>

fun tlv_loop :: "(u8, bytes) hmap \<Rightarrow> u8 option \<Rightarrow> bytes \<Rightarrow> parse_error + (u8, bytes) hmap" where
  "tlv_loop its last_type [] = Inr its"
| "tlv_loop its last_type [_] = Inl (InvalidFormat ''TLV8: truncated header'')"
| "tlv_loop its last_type (ty # len # rest) =
     (let n = unat len in
      if length rest < n then
        Inl (InvalidFormat (''TLV8: truncated value (expected '' @ fmt_dec n @ '' bytes, got '' @
          fmt_dec (length rest) @ '')''))
      else tlv_loop (tlv_add its last_type ty (take n rest)) (Some ty) (drop n rest))"

definition tlv_parse :: "bytes \<Rightarrow> parse_error + tlv8" where
  "tlv_parse data = and_then (tlv_loop [] None data) (\<lambda>its. Inr \<lparr>items = its\<rparr>)"

section \<open>Encoding\<close>

definition encode_value :: "u8 \<Rightarrow> bytes \<Rightarrow> bytes" where
  "encode_value ty val =
     (if val = [] then [ty, 0]
      else concat (map (\<lambda>chunk. [ty, word_of_nat (length chunk)] @ chunk) (chunks 255 val)))"

definition tlv_encode :: "tlv8 \<Rightarrow> bytes" where
  "tlv_encode t =
     concat (map (\<lambda>ty. encode_value ty (the (hm_get (items t) ty)))
       (sort (map fst (items t))))"

section \<open>Accessors\<close>

definition tlv_get :: "tlv8 \<Rightarrow> tlv_type \<Rightarrow> bytes option" where
  "tlv_get t ty = hm_get (items t) (tlv_code ty)"

definition tlv_set :: "tlv8 \<Rightarrow> tlv_type \<Rightarrow> bytes \<Rightarrow> tlv8" where
  "tlv_set t ty val = t\<lparr>items := hm_insert (tlv_code ty) val (items t)\<rparr>"

definition first_byte :: "bytes option \<Rightarrow> u8 option" where
  "first_byte v = (case v of Some (b # _) \<Rightarrow> Some b | _ \<Rightarrow> None)"

definition tlv_state :: "tlv8 \<Rightarrow> u8 option" where
  "tlv_state t = first_byte (tlv_get t State)"

definition tlv_error :: "tlv8 \<Rightarrow> u8 option" where
  "tlv_error t = first_byte (tlv_get t Error)"

definition pair_setup_m1_with_flags :: tlv8 where
  "pair_setup_m1_with_flags =
     tlv_set (tlv_set (tlv_set tlv_new State [0x01]) Method [0x00]) Flags [0x10, 0, 0, 0]"

section \<open>Specification: a message is a list of fragments\<close>

text \<open>
  \<open>tlv_frags\<close> is the grammar alone. The value a message gives to a type is the concatenation of
  the type's fragments wherever they stand; that the code has a separate branch for a fragment
  that follows one of its own type makes no difference.
\<close>

fun tlv_frags :: "bytes \<Rightarrow> (u8 \<times> bytes) list option" where
  "tlv_frags [] = Some []"
| "tlv_frags [_] = None"
| "tlv_frags (ty # len # rest) =
     (if length rest < unat len then None
      else map_option (Cons (ty, take (unat len) rest)) (tlv_frags (drop (unat len) rest)))"

definition frag_value :: "(u8 \<times> bytes) list \<Rightarrow> u8 \<Rightarrow> bytes option" where
  "frag_value fs k =
     (if k \<in> fst ` set fs then Some (concat (map snd (filter (\<lambda>f. fst f = k) fs))) else None)"

definition merge_value :: "bytes option \<Rightarrow> bytes option \<Rightarrow> bytes option" where
  "merge_value a b = (case a of None \<Rightarrow> b | Some x \<Rightarrow> (case b of None \<Rightarrow> a | Some y \<Rightarrow> Some (x @ y)))"

lemma frag_value_Nil [simp]: "frag_value [] k = None"
  by (simp add: frag_value_def)

lemma filter_fst_Nil: "k \<notin> fst ` set fs \<Longrightarrow> filter (\<lambda>f. fst f = k) fs = []"
  by (induction fs) auto

lemma frag_value_Cons:
  "frag_value ((t, v) # fs) k = (if t = k then merge_value (Some v) (frag_value fs k) else frag_value fs k)"
  by (auto simp: frag_value_def merge_value_def filter_fst_Nil)

lemma frag_value_append:
  "frag_value (fs @ gs) k = merge_value (frag_value fs k) (frag_value gs k)"
  by (auto simp: frag_value_def merge_value_def filter_fst_Nil)

lemma merge_value_None [simp]: "merge_value None b = b" "merge_value a None = a"
  by (simp_all add: merge_value_def split: option.split)

lemma merge_value_assoc: "merge_value (merge_value a b) c = merge_value a (merge_value b c)"
  by (auto simp: merge_value_def split: option.splits)

lemma get_tlv_add:
  "(\<forall>t. last_type = Some t \<longrightarrow> hm_get its t \<noteq> None) \<Longrightarrow>
   hm_get (tlv_add its last_type ty val) k =
     (if k = ty then merge_value (hm_get its k) (Some val) else hm_get its k)"
  by (auto simp: tlv_add_def merge_value_def split: option.splits)

lemma ok_tlv_add: "hm_ok its \<Longrightarrow> hm_ok (tlv_add its last_type ty val)"
  by (auto simp: tlv_add_def split: option.splits)

lemma tlv_loop_frags:
  assumes "\<forall>t. last_type = Some t \<longrightarrow> hm_get its t \<noteq> None" and "hm_ok its"
  shows "case tlv_frags data of
           None \<Rightarrow> (\<exists>m. tlv_loop its last_type data = Inl (InvalidFormat m))
         | Some fs \<Rightarrow> (\<exists>its'. tlv_loop its last_type data = Inr its' \<and> hm_ok its' \<and>
             (\<forall>k. hm_get its' k = merge_value (hm_get its k) (frag_value fs k)))"
  using assms
proof (induction its last_type data rule: tlv_loop.induct)
  case (3 its last_type ty len rest)
  show ?case
  proof (cases "length rest < unat len")
    case False
    let ?v = "take (unat len) rest" and ?r = "drop (unat len) rest"
    let ?its = "tlv_add its last_type ty ?v"
    note get = get_tlv_add [OF "3.prems"(1), of ty ?v]
    have last: "\<forall>t. Some ty = Some t \<longrightarrow> hm_get ?its t \<noteq> None"
      by (auto simp: get merge_value_def split: option.splits)
    have "hm_ok ?its" using "3.prems"(2) by (rule ok_tlv_add)
    note IH = "3.IH" [OF refl False last this]
    show ?thesis
    proof (cases "tlv_frags ?r")
      case None
      with IH False show ?thesis by (simp add: Let_def)
    next
      case (Some fs)
      with IH obtain its' where its': "tlv_loop ?its (Some ty) ?r = Inr its'" "hm_ok its'"
        "\<And>k. hm_get its' k = merge_value (hm_get ?its k) (frag_value fs k)"
        by auto
      have "hm_get its' k = merge_value (hm_get its k) (frag_value ((ty, ?v) # fs) k)" for k
        using its'(3) [of k] by (auto simp: get frag_value_Cons merge_value_assoc)
      with its' Some False show ?thesis by (simp add: Let_def)
    qed
  qed (simp add: Let_def)
qed auto

lemma tlv_parse_frags:
  "case tlv_frags data of
     None \<Rightarrow> (\<exists>m. tlv_parse data = Inl (InvalidFormat m))
   | Some fs \<Rightarrow> (\<exists>t. tlv_parse data = Inr t \<and> hm_ok (items t) \<and>
       (\<forall>k. hm_get (items t) k = frag_value fs k))"
  using tlv_loop_frags [of None "[]" data]
  by (auto simp: tlv_parse_def split: option.splits)

text \<open>C34: \<open>parse\<close> accepts exactly the sequences of whole fragments, and gives each type the
  concatenation of its fragments in order; every other input is \<open>InvalidFormat\<close>.\<close>

theorem tlv_parse_refines_frags:
  "case tlv_frags data of
     None \<Rightarrow> (\<exists>m. tlv_parse data = Inl (InvalidFormat m))
   | Some fs \<Rightarrow> (\<exists>t. tlv_parse data = Inr t \<and> hm_ok (items t) \<and>
       (\<forall>k. hm_get (items t) k = frag_value fs k))"
  by (rule tlv_parse_frags)

section \<open>Round trip\<close>

lemma tlv_frags_append:
  "tlv_frags a = Some fs \<Longrightarrow> tlv_frags (a @ b) = map_option (append fs) (tlv_frags b)"
proof (induction a arbitrary: fs rule: tlv_frags.induct)
  case 1
  then show ?case by (simp add: option.map_ident)
next
  case (3 ty len rest)
  from "3.prems" obtain gs where n: "\<not> length rest < unat len"
    and gs: "tlv_frags (drop (unat len) rest) = Some gs" "fs = (ty, take (unat len) rest) # gs"
    by (auto split: if_splits)
  from "3.IH" [OF n gs(1)] n gs(2) show ?case
    by (simp add: option.map_comp comp_def)
qed simp

lemma tlv_frags_chunks:
  "\<forall>c \<in> set cs. length c \<le> 255 \<Longrightarrow>
   tlv_frags (concat (map (\<lambda>c. ty # word_of_nat (length c) # c) cs)) = Some (map (Pair ty) cs)"
proof (induction cs)
  case (Cons c cs)
  then have "length c mod 256 = length c" by simp
  with Cons show ?case by simp
qed simp

lemma tlv_frags_value:
  "\<exists>cs. cs \<noteq> [] \<and> concat cs = val \<and> tlv_frags (encode_value ty val) = Some (map (Pair ty) cs)"
proof (cases "val = []")
  case True
  then show ?thesis by (intro exI [of _ "[[]]"]) (simp add: encode_value_def)
next
  case False
  have "\<forall>c \<in> set (chunks 255 val). length c \<le> 255"
    using chunks_bound [where n = 255 and xs = val] by auto
  with False show ?thesis
    by (intro exI [of _ "chunks 255 val"])
      (simp add: encode_value_def concat_chunks tlv_frags_chunks)
qed

lemma frag_value_map_Pair:
  "cs \<noteq> [] \<Longrightarrow> frag_value (map (Pair ty) cs) k = (if k = ty then Some (concat cs) else None)"
  by (auto simp: frag_value_def filter_map comp_def image_iff)

lemma tlv_frags_encode_types:
  "distinct ks \<Longrightarrow>
   \<exists>fs. tlv_frags (concat (map (\<lambda>ty. encode_value ty (f ty)) ks)) = Some fs \<and>
     (\<forall>k. frag_value fs k = (if k \<in> set ks then Some (f k) else None))"
proof (induction ks)
  case (Cons ty ks)
  then obtain fs where fs: "tlv_frags (concat (map (\<lambda>ty. encode_value ty (f ty)) ks)) = Some fs"
    "\<And>k. frag_value fs k = (if k \<in> set ks then Some (f k) else None)" by auto
  obtain cs where cs: "cs \<noteq> []" "concat cs = f ty"
    "tlv_frags (encode_value ty (f ty)) = Some (map (Pair ty) cs)"
    using tlv_frags_value by blast
  have "tlv_frags (concat (map (\<lambda>ty. encode_value ty (f ty)) (ty # ks))) =
      Some (map (Pair ty) cs @ fs)"
    using tlv_frags_append [OF cs(3)] fs(1) by simp
  moreover have "frag_value (map (Pair ty) cs @ fs) k =
      (if k \<in> set (ty # ks) then Some (f k) else None)" for k
    using Cons.prems cs by (simp add: frag_value_append frag_value_map_Pair fs(2))
  ultimately show ?case by blast
qed simp

lemma tlv_roundtrip_all:
  assumes "hm_ok (items t)"
  obtains t' where "tlv_parse (tlv_encode t) = Inr t'" "hm_ok (items t')"
    "\<And>k. hm_get (items t') k = hm_get (items t) k"
proof -
  let ?f = "\<lambda>ty. the (hm_get (items t) ty)" and ?ks = "sort (map fst (items t))"
  have "distinct ?ks" using assms by (simp add: hm_ok_def)
  from tlv_frags_encode_types [OF this, of ?f] obtain fs where
    fs: "tlv_frags (tlv_encode t) = Some fs"
    "\<And>k. frag_value fs k = (if k \<in> set ?ks then Some (?f k) else None)"
    unfolding tlv_encode_def by blast
  have "frag_value fs k = hm_get (items t) k" for k
  proof (cases "map_of (items t) k")
    case None
    then have "k \<notin> set ?ks" by (simp add: map_of_eq_None_iff)
    with None show ?thesis by (simp add: fs(2) hm_get_def)
  next
    case (Some v)
    then have "k \<in> set ?ks" using map_of_SomeD by force
    with Some show ?thesis by (simp add: fs(2) hm_get_def)
  qed
  with tlv_parse_frags [of "tlv_encode t"] fs(1) that show ?thesis by auto
qed

text \<open>An encoded container is parsed back to one with the same value under every type, however
  long the values are.\<close>

theorem tlv_roundtrip:
  assumes "hm_ok (items t)"
  shows "\<exists>t'. tlv_parse (tlv_encode t) = Inr t' \<and> hm_ok (items t') \<and>
    (\<forall>k. hm_get (items t') k = hm_get (items t) k)"
  using tlv_roundtrip_all [OF assms] by metis

definition sample_tlv :: tlv8 where
  "sample_tlv = tlv_set (tlv_set tlv_new State [3]) PublicKey (replicate 384 7)"

theorem tlv_roundtrip_witness:
  "\<exists>t'. tlv_parse (tlv_encode sample_tlv) = Inr t' \<and> hm_ok (items t') \<and>
    (\<forall>k. hm_get (items t') k = hm_get (items sample_tlv) k)"
  by (rule tlv_roundtrip) (simp add: sample_tlv_def tlv_set_def tlv_new_def)

section \<open>Accessor lemmas\<close>

lemma tlv_code_inject: "tlv_code a = tlv_code b \<longleftrightarrow> a = b"
  by (cases a; cases b) simp_all

lemma tlv_get_set [simp]: "tlv_get (tlv_set t a v) b = (if b = a then Some v else tlv_get t b)"
  by (simp add: tlv_get_def tlv_set_def tlv_code_inject)

lemma tlv_get_new [simp]: "tlv_get tlv_new a = None"
  by (simp add: tlv_get_def tlv_new_def)

lemma tlv_ok_set [simp]: "hm_ok (items t) \<Longrightarrow> hm_ok (items (tlv_set t a v))"
  by (simp add: tlv_set_def)

lemma tlv_ok_new [simp]: "hm_ok (items tlv_new)"
  by (simp add: tlv_new_def)

text \<open>What the peer reads from a container the code built.\<close>

lemma tlv_get_roundtrip:
  assumes "hm_ok (items t)" and "tlv_parse (tlv_encode t) = Inr t'"
  shows "tlv_get t' a = tlv_get t a"
  using tlv_roundtrip_all [OF assms(1)] assms(2) by (metis sum.inject(2) tlv_get_def)

end
