(* ===== verification/Srp.thy ===== *)
theory Srp
  imports Errors
begin

text \<open>
  The SRP-6a client of \<open>src/crypto/srp.rs\<close>: 3072-bit group of RFC 5054, generator 5, SHA-512.
  \<open>num_bigint::BigUint\<close> is represented by \<open>nat\<close>; SHA-512 is a parameter, a function from bytes to
  bytes. The group constants live in \<open>srp_params\<close>, as in the code, and the protocol theorem holds
  for every modulus with the one property it needs (Fermat's little theorem, which the RFC's prime
  has).
\<close>

section \<open>Parameters\<close>

definition N_BYTES :: nat where
  "N_BYTES = 384"

definition RFC5054_N_3072 :: string where
  "RFC5054_N_3072 =
     ''FFFFFFFFFFFFFFFFC90FDAA22168C234C4C6628B80DC1CD129024E08'' @
     ''8A67CC74020BBEA63B139B22514A08798E3404DDEF9519B3CD3A431B'' @
     ''302B0A6DF25F14374FE1356D6D51C245E485B576625E7EC6F44C42E9'' @
     ''A637ED6B0BFF5CB6F406B7EDEE386BFB5A899FA5AE9F24117C4B1FE6'' @
     ''49286651ECE45B3DC2007CB8A163BF0598DA48361C55D39A69163FA8'' @
     ''FD24CF5F83655D23DCA3AD961C62F356208552BB9ED529077096966D'' @
     ''670C354E4ABC9804F1746C08CA18217C32905E462E36CE3BE39E772C'' @
     ''180E86039B2783A2EC07A28FB5C55DF06F4C52C9DE2BCBF695581718'' @
     ''3995497CEA956AE515D2261898FA051015728E5A8AAAC42DAD33170D'' @
     ''04507A33A85521ABDF1CBA64ECFB850458DBEF0A8AEA71575D060C7D'' @
     ''B3970F85A6E1E4C7ABF5AE8CDB0933D71E8C94E04A25619DCEE3D226'' @
     ''1AD2EE6BF12FFA06D98A0864D87602733EC86A64521F2B18177B200C'' @
     ''BBE117577A615D6C770988C0BAD946E208E24FA074E5AB3143DB5BFC'' @
     ''E0FD108E4B82D120A93AD2CAFFFFFFFFFFFFFFFF''"

record srp_params =
  srp_n :: nat
  srp_g :: nat

definition srp_params_default :: srp_params where
  "srp_params_default =
     \<lparr>srp_n = (case radix_loop (16 ^ 768) 16 0 RFC5054_N_3072 of Some n \<Rightarrow> n | None \<Rightarrow> 0),
      srp_g = 5\<rparr>"

section \<open>Big integers as bytes\<close>

text \<open>\<open>BigUint::to_bytes_be\<close>: no leading zero byte, and one zero byte for zero.\<close>

fun be_digits :: "nat \<Rightarrow> bytes" where
  "be_digits n = (if n = 0 then [] else be_digits (n div 256) @ [word_of_nat n])"

declare be_digits.simps [simp del]

definition to_bytes_be :: "nat \<Rightarrow> bytes" where
  "to_bytes_be n = (if n = 0 then [0] else be_digits n)"

definition pad_to_n :: "nat \<Rightarrow> bytes" where
  "pad_to_n v =
     (let bytes = to_bytes_be v in
      if N_BYTES \<le> length bytes then drop (length bytes - N_BYTES) bytes
      else replicate (N_BYTES - length bytes) 0 @ bytes)"

definition modpow :: "nat \<Rightarrow> nat \<Rightarrow> nat \<Rightarrow> nat" where
  "modpow b e m = b ^ e mod m"

section \<open>The client\<close>

type_synonym sha512 = "bytes \<Rightarrow> bytes"

record srp_client =
  params :: srp_params
  identity :: bytes
  password :: bytes
  private_key :: bytes
  srp_public_key :: nat

record srp_challenge =
  salt :: bytes
  server_public_key :: bytes

record srp_proof =
  client_proof :: bytes
  shared_secret :: bytes
  expected_server_proof :: bytes

text \<open>
  The loop of \<open>new\<close> draws 32 random bytes until they are not all zero; \<open>draws\<close> is what the
  operating system returns, in order. \<open>None\<close> is a loop that has not ended yet.
\<close>

fun first_candidate :: "bytes list \<Rightarrow> nat option" where
  "first_candidate [] = None"
| "first_candidate (bytes # draws) =
     (let candidate = be_nat bytes in
      if candidate \<noteq> 0 then Some candidate else first_candidate draws)"

definition srp_client_new :: "srp_params \<Rightarrow> bytes list \<Rightarrow> bytes \<Rightarrow> bytes \<Rightarrow> srp_client option" where
  "srp_client_new ps draws ident pw =
     map_option (\<lambda>a. \<lparr>params = ps, identity = ident, password = pw,
         private_key = to_bytes_be a, srp_public_key = modpow (srp_g ps) a (srp_n ps)\<rparr>)
       (first_candidate draws)"

definition public_key_bytes :: "srp_client \<Rightarrow> bytes" where
  "public_key_bytes c = pad_to_n (srp_public_key c)"

definition compute_k :: "sha512 \<Rightarrow> srp_params \<Rightarrow> nat" where
  "compute_k sha ps = be_nat (sha (pad_to_n (srp_n ps) @ pad_to_n (srp_g ps)))"

definition compute_u :: "sha512 \<Rightarrow> nat \<Rightarrow> nat \<Rightarrow> nat" where
  "compute_u sha a b = be_nat (sha (pad_to_n a @ pad_to_n b))"

definition compute_x :: "sha512 \<Rightarrow> bytes \<Rightarrow> bytes \<Rightarrow> bytes \<Rightarrow> nat" where
  "compute_x sha slt ident pw =
     be_nat (sha (slt @ sha (ident @ as_bytes '':'' @ pw)))"

definition compute_m1 ::
  "sha512 \<Rightarrow> srp_params \<Rightarrow> bytes \<Rightarrow> bytes \<Rightarrow> nat \<Rightarrow> nat \<Rightarrow> bytes \<Rightarrow> bytes" where
  "compute_m1 sha ps ident slt a b k =
     (let h_n = sha (pad_to_n (srp_n ps));
          h_g = sha (to_bytes_be (srp_g ps));
          xor_result = map2 (XOR) h_n h_g;
          h_i = sha ident
      in sha (xor_result @ h_i @ slt @ pad_to_n a @ pad_to_n b @ k))"

definition process_challenge ::
  "sha512 \<Rightarrow> srp_client \<Rightarrow> srp_challenge \<Rightarrow> crypto_error + srp_proof" where
  "process_challenge sha c ch =
     (let ps = params c; n = srp_n ps; b = be_nat (server_public_key ch) in
      if b mod n = 0 then Inl (Encryption ''Invalid server public key: B mod N = 0'')
      else (let a = be_nat (private_key c); u = compute_u sha (srp_public_key c) b in
        if u = 0 then Inl (Encryption ''Invalid u value: u = 0'')
        else (let
            x = compute_x sha (salt ch) (identity c) (password c);
            k = compute_k sha ps;
            g_x = modpow (srp_g ps) x n;
            k_gx = (k * g_x) mod n;
            base = (if k_gx \<le> b then (b - k_gx) mod n else (b + n - k_gx) mod n);
            exponent = (a + u * x) mod (n - 1);
            s = modpow base exponent n;
            secret = sha (pad_to_n s);
            proof = compute_m1 sha ps (identity c) (salt ch) (srp_public_key c) b secret;
            server_proof = sha (pad_to_n (srp_public_key c) @ proof @ secret)
          in Inr \<lparr>client_proof = proof, shared_secret = secret,
                  expected_server_proof = server_proof\<rparr>)))"

definition verify_server_proof :: "bytes \<Rightarrow> bytes \<Rightarrow> bool" where
  "verify_server_proof proof expected_proof \<longleftrightarrow> proof = expected_proof"

section \<open>Padding\<close>

lemma be_nat_append: "be_nat (a @ b) = be_nat a * 256 ^ length b + be_nat b"
proof (induction b rule: rev_induct)
  case (snoc x b)
  have "be_nat (a @ b @ [x]) = be_nat ((a @ b) @ [x])" by simp
  then show ?case using snoc by (simp only: be_nat_snoc) (simp add: algebra_simps)
qed simp

lemma be_nat_replicate_0 [simp]: "be_nat (replicate k 0 @ b) = be_nat b"
proof -
  have "be_nat (replicate k 0) = 0"
  proof (induction k)
    case (Suc k)
    have "be_nat (replicate (Suc k) 0) = be_nat (replicate k 0 @ [0])"
      by (simp only: replicate_append_same replicate_Suc)
    with Suc show ?case by simp
  qed simp
  then show ?thesis by (simp add: be_nat_append)
qed

lemma be_nat_zeros [simp]: "be_nat (replicate k 0) = 0"
  using be_nat_replicate_0 [of k "[]"] by simp

lemma be_nat_be_digits: "be_nat (be_digits n) = n"
proof (induction n rule: be_digits.induct)
  case (1 n)
  then show ?case
    by (subst be_digits.simps) auto
qed

lemma be_nat_to_bytes_be [simp]: "be_nat (to_bytes_be n) = n"
  by (simp add: to_bytes_be_def be_nat_be_digits) (simp add: be_nat_def)

lemma be_nat_drop: "be_nat (drop k bs) = be_nat bs mod 256 ^ (length bs - k)"
proof -
  have "be_nat bs = be_nat (take k bs) * 256 ^ length (drop k bs) + be_nat (drop k bs)"
    using be_nat_append [of "take k bs" "drop k bs"] by simp
  moreover have "be_nat (drop k bs) < 256 ^ length (drop k bs)" by (rule be_nat_bound)
  ultimately show ?thesis by simp
qed

text \<open>Padding is the fixed-width big-endian form of the number.\<close>

lemma pad_to_n_eq: "pad_to_n v = be_bytes N_BYTES v"
proof -
  have len: "length (pad_to_n v) = N_BYTES" by (simp add: pad_to_n_def Let_def)
  have "be_nat (pad_to_n v) = v mod 256 ^ N_BYTES"
  proof (cases "N_BYTES \<le> length (to_bytes_be v)")
    case True
    then show ?thesis by (simp add: pad_to_n_def Let_def be_nat_drop)
  next
    case False
    then have "v < 256 ^ N_BYTES"
      using be_nat_bound [of "to_bytes_be v"]
        power_increasing [of "length (to_bytes_be v)" N_BYTES "256 :: nat"]
      by (simp add: less_le_trans)
    with False show ?thesis by (simp add: pad_to_n_def Let_def)
  qed
  moreover have "be_bytes N_BYTES (be_nat (pad_to_n v)) = pad_to_n v"
    using be_bytes_be_nat [of "pad_to_n v"] len by simp
  ultimately have "be_bytes N_BYTES (v mod 256 ^ N_BYTES) = pad_to_n v" by simp
  moreover have "be_bytes N_BYTES (v mod 256 ^ N_BYTES) = be_bytes N_BYTES v"
    by (metis be_bytes_be_nat be_nat_be_bytes length_be_bytes)
  ultimately show ?thesis by simp
qed

lemma length_pad_to_n [simp]: "length (pad_to_n v) = 384"
  by (simp add: pad_to_n_eq N_BYTES_def)

lemma be_nat_pad_to_n: "v < 256 ^ 384 \<Longrightarrow> be_nat (pad_to_n v) = v"
  by (simp add: pad_to_n_eq be_nat_be_bytes N_BYTES_def)

section \<open>The protocol\<close>

text \<open>
  What the code needs of the group: a modulus for which Fermat's little theorem holds, as it does
  for a prime, and a generator that is not a multiple of it.
\<close>

definition srp_group :: "srp_params \<Rightarrow> bool" where
  "srp_group ps \<longleftrightarrow> 2 < srp_n ps \<and> srp_g ps mod srp_n ps \<noteq> 0 \<and>
     (\<forall>y. y mod srp_n ps \<noteq> 0 \<longrightarrow> y ^ (srp_n ps - 1) mod srp_n ps = 1)"

text \<open>
  The honest server of the protocol, the specification the client is checked against: it stores the
  verifier \<open>v = g ^ x\<close>, answers with \<open>B = k v + g ^ b\<close> and computes its own secret.
\<close>

definition server_verifier :: "srp_params \<Rightarrow> nat \<Rightarrow> nat" where
  "server_verifier ps x = srp_g ps ^ x mod srp_n ps"

definition server_public :: "srp_params \<Rightarrow> nat \<Rightarrow> nat \<Rightarrow> nat \<Rightarrow> nat" where
  "server_public ps k v b = (k * v + srp_g ps ^ b) mod srp_n ps"

definition server_secret :: "srp_params \<Rightarrow> nat \<Rightarrow> nat \<Rightarrow> nat \<Rightarrow> nat \<Rightarrow> nat" where
  "server_secret ps a_pub v u b = (a_pub * (v ^ u mod srp_n ps)) ^ b mod srp_n ps"

lemma mod_add_cancel_nat:
  assumes "(x + c) mod n = (y + c) mod (n :: nat)" shows "x mod n = y mod n"
proof -
  have "(int x + int c) mod int n = (int y + int c) mod int n"
    using assms by (metis of_nat_add of_nat_mod)
  then have "(int x + int c - int c) mod int n = (int y + int c - int c) mod int n"
    by (rule mod_diff_cong) simp
  then show ?thesis by (metis add_diff_cancel_right' of_nat_mod of_nat_eq_iff)
qed

lemma fermat_reduce:
  assumes "srp_group ps" and "y mod srp_n ps \<noteq> 0"
  shows "y ^ (e mod (srp_n ps - 1)) mod srp_n ps = y ^ e mod srp_n ps"
proof -
  let ?n = "srp_n ps" and ?m = "srp_n ps - 1"
  have "y ^ e = (y ^ ?m) ^ (e div ?m) * y ^ (e mod ?m)"
    by (simp add: power_add [symmetric] power_mult [symmetric])
  then have "y ^ e mod ?n = ((y ^ ?m mod ?n) ^ (e div ?m) mod ?n) * y ^ (e mod ?m) mod ?n"
    by (simp add: power_mod mod_mult_left_eq)
  moreover have "y ^ ?m mod ?n = 1" "1 mod ?n = 1"
    using assms by (auto simp: srp_group_def)
  ultimately show ?thesis by simp
qed

lemma generator_power_nonzero:
  assumes "srp_group ps" shows "srp_g ps ^ b mod srp_n ps \<noteq> 0"
proof
  let ?n = "srp_n ps" and ?m = "srp_n ps - 1"
  assume z: "srp_g ps ^ b mod ?n = 0"
  have n: "2 < ?n" "srp_g ps ^ ?m mod ?n = 1" using assms by (auto simp: srp_group_def)
  have "(srp_g ps ^ b) ^ ?m mod ?n = (srp_g ps ^ ?m mod ?n) ^ b mod ?n"
    by (simp add: power_mod power_mult [symmetric] mult.commute)
  also have "\<dots> = 1" using n by simp
  finally have "(srp_g ps ^ b mod ?n) ^ ?m mod ?n = 1" by (simp add: power_mod)
  with z n show False by (simp add: power_0_left)
qed

lemma client_base:
  assumes n: "0 < (n :: nat)" and b: "b = (k * v + gb) mod n"
  shows "(if k * v mod n \<le> b then (b - k * v mod n) mod n else (b + n - k * v mod n) mod n) = gb mod n"
    (is "?base = _")
proof -
  let ?c = "k * v mod n"
  have c: "?c < n" using n by simp
  have l: "(?base + ?c) mod n = b mod n"
  proof (cases "?c \<le> b")
    case True
    then show ?thesis by (simp add: mod_add_left_eq)
  next
    case False
    with c have "b + n - ?c + ?c = b + n" by simp
    with False show ?thesis by (simp only: if_False mod_add_left_eq) (simp add: mod_add_left_eq)
  qed
  have r: "(gb + ?c) mod n = b mod n"
    unfolding b by (simp add: mod_add_right_eq add.commute)
  have "?base mod n = gb mod n" by (rule mod_add_cancel_nat [OF trans [OF l r [symmetric]]])
  moreover have "?base mod n = ?base" by (cases "?c \<le> b") (simp_all only: if_True if_False mod_mod_trivial)
  ultimately show ?thesis by simp
qed

lemma srp_secret_agreement:
  assumes grp: "srp_group ps"
  shows "(srp_g ps ^ b mod srp_n ps) ^ ((a + u * x) mod (srp_n ps - 1)) mod srp_n ps =
    server_secret ps (srp_g ps ^ a mod srp_n ps) (server_verifier ps x) u b"
proof -
  let ?n = "srp_n ps" and ?g = "srp_g ps"
  have "(?g ^ b mod ?n) ^ ((a + u * x) mod (?n - 1)) mod ?n = (?g ^ b mod ?n) ^ (a + u * x) mod ?n"
    by (rule fermat_reduce [OF grp]) (use generator_power_nonzero [OF grp] in simp)
  also have "\<dots> = ?g ^ (b * (a + u * x)) mod ?n" by (simp add: power_mod power_mult)
  also have "\<dots> = (?g ^ a * (?g ^ x) ^ u) ^ b mod ?n"
    by (simp add: power_mult [symmetric] power_add [symmetric] mult.commute)
  also have "\<dots> = ((?g ^ a mod ?n) * ((?g ^ x mod ?n) ^ u mod ?n)) ^ b mod ?n"
    by (metis mod_mult_eq power_mod)
  finally show ?thesis by (simp add: server_secret_def server_verifier_def)
qed

lemma process_challenge_agrees:
  assumes "srp_group (params c)"
    and "srp_public_key c = srp_g (params c) ^ a mod srp_n (params c)"
    and "be_nat (private_key c) = a"
    and "x = compute_x sha (salt ch) (identity c) (password c)"
    and "k = compute_k sha (params c)"
    and "be_nat (server_public_key ch) = server_public (params c) k (server_verifier (params c) x) b"
    and "be_nat (server_public_key ch) mod srp_n (params c) \<noteq> 0"
    and "u = compute_u sha (srp_public_key c) (be_nat (server_public_key ch))" and "u \<noteq> 0"
  shows "\<exists>p. process_challenge sha c ch = Inr p \<and>
    shared_secret p = sha (pad_to_n
      (server_secret (params c) (srp_public_key c) (server_verifier (params c) x) u b)) \<and>
    client_proof p = compute_m1 sha (params c) (identity c) (salt ch) (srp_public_key c)
      (be_nat (server_public_key ch)) (shared_secret p) \<and>
    expected_server_proof p =
      sha (pad_to_n (srp_public_key c) @ client_proof p @ shared_secret p)"
proof -
  let ?n = "srp_n (params c)" and ?B = "be_nat (server_public_key ch)"
  let ?v = "server_verifier (params c) x"
  have n: "0 < ?n" using assms(1) by (simp add: srp_group_def)
  have "?B = (k * ?v + srp_g (params c) ^ b) mod ?n"
    using assms(6) by (simp add: server_public_def)
  note base = client_base [OF n this]
  have s: "modpow (if k * ?v mod ?n \<le> ?B then (?B - k * ?v mod ?n) mod ?n
        else (?B + ?n - k * ?v mod ?n) mod ?n) ((a + u * x) mod (?n - 1)) ?n =
      server_secret (params c) (srp_public_key c) ?v u b"
    unfolding base modpow_def assms(2) by (rule srp_secret_agreement [OF assms(1)])
  have v: "modpow (srp_g (params c)) x ?n = ?v" by (simp add: modpow_def server_verifier_def)
  show ?thesis
    unfolding process_challenge_def Let_def
    using assms(7,9)
    by (simp add: assms(3) assms(4) [symmetric] assms(5) [symmetric] assms(8) [symmetric] v s
        del: One_nat_def split del: if_split cong: if_cong)
qed

text \<open>C31: with the right password, the client's shared secret is the hash of the secret an honest
  server computes, and its expected server proof is the server's; the reduction of the exponent
  modulo \<open>N - 1\<close> and the subtraction of \<open>k g ^ x\<close> modulo \<open>N\<close> are both exact.\<close>

theorem srp_client_agrees_with_server:
  assumes "srp_group (params c)"
    and "srp_public_key c = srp_g (params c) ^ a mod srp_n (params c)"
    and "be_nat (private_key c) = a"
    and "x = compute_x sha (salt ch) (identity c) (password c)"
    and "k = compute_k sha (params c)"
    and "be_nat (server_public_key ch) = server_public (params c) k (server_verifier (params c) x) b"
    and "be_nat (server_public_key ch) mod srp_n (params c) \<noteq> 0"
    and "u = compute_u sha (srp_public_key c) (be_nat (server_public_key ch))" and "u \<noteq> 0"
  shows "\<exists>p. process_challenge sha c ch = Inr p \<and>
    shared_secret p = sha (pad_to_n
      (server_secret (params c) (srp_public_key c) (server_verifier (params c) x) u b)) \<and>
    client_proof p = compute_m1 sha (params c) (identity c) (salt ch) (srp_public_key c)
      (be_nat (server_public_key ch)) (shared_secret p) \<and>
    expected_server_proof p =
      sha (pad_to_n (srp_public_key c) @ client_proof p @ shared_secret p)"
  by (rule process_challenge_agrees [OF assms])

text \<open>A group small enough to compute with: 5 generates the units modulo 23.\<close>

definition toy_params :: srp_params where
  "toy_params = \<lparr>srp_n = 23, srp_g = 5\<rparr>"

lemma toy_group: "srp_group toy_params"
proof -
  have all: "y ^ 22 mod 23 = 1" if "y < 23" "y \<noteq> 0" for y :: nat
  proof -
    from that have "y \<in> {1, 2, 3, 4, 5, 6, 7, 8, 9, 10, 11, 12, 13, 14, 15, 16, 17, 18, 19, 20, 21, 22}"
      by (simp, presburger)
    then show ?thesis by (elim insertE) simp_all
  qed
  have "y ^ 22 mod 23 = 1" if "y mod 23 \<noteq> 0" for y :: nat
  proof -
    have "(y mod 23) ^ 22 mod 23 = 1" by (rule all) (use that in simp_all)
    then show ?thesis by (simp add: power_mod)
  qed
  then show ?thesis by (simp add: srp_group_def toy_params_def)
qed

definition toy_sha :: sha512 where
  "toy_sha bs = replicate 63 0 @ [3]"

definition toy_client :: srp_client where
  "toy_client = \<lparr>params = toy_params, identity = as_bytes ''Pair-Setup'', password = as_bytes ''3939'',
     private_key = [7], srp_public_key = 17\<rparr>"

definition toy_challenge :: srp_challenge where
  "toy_challenge = \<lparr>salt = replicate 16 1, server_public_key = [9]\<rparr>"

lemma toy_values:
  "compute_x toy_sha s i p = 3" "compute_k toy_sha ps = 3" "compute_u toy_sha a b = 3"
  "be_nat [7] = 7" "be_nat [9] = 9"
  using be_nat_snoc [of "[]"]
  by (simp_all add: compute_x_def compute_k_def compute_u_def toy_sha_def)

theorem srp_client_agrees_with_server_witness:
  "\<exists>p. process_challenge toy_sha toy_client toy_challenge = Inr p \<and>
    shared_secret p = toy_sha (pad_to_n
      (server_secret (params toy_client) (srp_public_key toy_client)
        (server_verifier (params toy_client) 3) 3 2)) \<and>
    client_proof p = compute_m1 toy_sha (params toy_client) (identity toy_client)
      (salt toy_challenge) (srp_public_key toy_client) (be_nat (server_public_key toy_challenge))
      (shared_secret p) \<and>
    expected_server_proof p =
      toy_sha (pad_to_n (srp_public_key toy_client) @ client_proof p @ shared_secret p)"
proof (rule srp_client_agrees_with_server [where a = 7 and k = 3])
  show "srp_group (params toy_client)" by (simp add: toy_client_def toy_group)
  show "be_nat (server_public_key toy_challenge) =
      server_public (params toy_client) 3 (server_verifier (params toy_client) 3) 2"
    by (simp add: toy_client_def toy_challenge_def toy_values server_public_def server_verifier_def
        toy_params_def)
qed (simp_all add: toy_client_def toy_challenge_def toy_values toy_params_def)

section \<open>Rejections\<close>

text \<open>A server key that is a multiple of the modulus, zero included, is rejected before any
  secret is computed.\<close>

theorem srp_rejects_zero_key:
  "process_challenge sha c ch = Inl (Encryption ''Invalid server public key: B mod N = 0'') \<longleftrightarrow>
     be_nat (server_public_key ch) mod srp_n (params c) = 0"
  by (simp add: process_challenge_def Let_def)

lemma first_candidate_pos: "first_candidate draws = Some a \<Longrightarrow> 0 < a"
  by (induction draws) (auto simp: Let_def split: if_splits)

lemma srp_client_new_key:
  "srp_client_new ps draws ident pw = Some c \<Longrightarrow>
   srp_public_key c = srp_g ps ^ be_nat (private_key c) mod srp_n ps \<and> 0 < be_nat (private_key c)"
  by (auto simp: srp_client_new_def modpow_def dest: first_candidate_pos)

end
