(* ===== verification/Chacha.thy ===== *)
theory Chacha
  imports Errors
begin

text \<open>
  The symmetric cryptography of \<open>src/crypto/chacha.rs\<close>, \<open>src/crypto/hkdf.rs\<close>, \<open>src/crypto/keys.rs\<close>
  and \<open>src/audio/cipher.rs\<close>: the block framing and nonce counters of the control channel, the
  per-packet nonce of the audio channel, the derivation of the control keys.

  ChaCha20-Poly1305 and HKDF-SHA512 are crates: \<open>aead\<close> and \<open>hkdf\<close> are parameters. What the code
  relies on is \<open>aead_ok\<close>: sealing succeeds, adds a 16-byte tag, and opening with the same key,
  nonce and associated data gives the message back.
\<close>

section \<open>The AEAD\<close>

record aead =
  seal :: "bytes \<Rightarrow> bytes \<Rightarrow> bytes \<Rightarrow> bytes \<Rightarrow> bytes option"  \<comment> \<open>key, nonce, aad, message\<close>
  unseal :: "bytes \<Rightarrow> bytes \<Rightarrow> bytes \<Rightarrow> bytes \<Rightarrow> bytes option"  \<comment> \<open>key, nonce, aad, message and tag\<close>

definition aead_ok :: "aead \<Rightarrow> bool" where
  "aead_ok a \<longleftrightarrow> (\<forall>k n ad m. length k = 32 \<and> length n = 12 \<and> length m < 2 ^ 32 \<longrightarrow>
     (\<exists>c. seal a k n ad m = Some c \<and> length c = length m + 16 \<and> unseal a k n ad c = Some m))"

lemma aead_okE:
  assumes "aead_ok a" and "length k = 32" and "length n = 12" and "length m < 2 ^ 32"
  obtains c where "seal a k n ad m = Some c" "length c = length m + 16" "unseal a k n ad c = Some m"
  using assms unfolding aead_ok_def by blast

text \<open>An executable instance: no secrecy, but the key, nonce and data are bound into the tag.\<close>

definition plain_tag :: "bytes \<Rightarrow> bytes \<Rightarrow> bytes \<Rightarrow> bytes" where
  "plain_tag k n ad = take 16 (n @ ad @ k @ replicate 16 0)"

definition plain_aead :: aead where
  "plain_aead = \<lparr>seal = (\<lambda>k n ad m. Some (m @ plain_tag k n ad)),
     unseal = (\<lambda>k n ad c. if 16 \<le> length c \<and> drop (length c - 16) c = plain_tag k n ad
       then Some (take (length c - 16) c) else None)\<rparr>"

lemma length_plain_tag [simp]: "length (plain_tag k n ad) = 16"
  by (simp add: plain_tag_def)

lemma plain_aead_ok: "aead_ok plain_aead"
  by (simp add: aead_ok_def plain_aead_def)

section \<open>The control channel\<close>

record control_cipher =
  write_key :: bytes
  read_key :: bytes
  encrypt_counter :: u64
  decrypt_counter :: u64

definition control_cipher_new :: "bytes \<Rightarrow> bytes \<Rightarrow> control_cipher" where
  "control_cipher_new wk rk =
     \<lparr>write_key = wk, read_key = rk, encrypt_counter = 0, decrypt_counter = 0\<rparr>"

definition build_nonce_from_counter :: "u64 \<Rightarrow> bytes" where
  "build_nonce_from_counter counter = put (replicate 12 0) 4 (to_le counter)"

definition MAX_BLOCK :: nat where
  "MAX_BLOCK = 0x400"

function encrypt_loop ::
  "aead \<Rightarrow> control_cipher \<Rightarrow> bytes \<Rightarrow> bytes \<Rightarrow> (crypto_error + bytes) \<times> control_cipher" where
  "encrypt_loop a c rest out =
     (if rest = [] then (Inr out, c)
      else (let block = take MAX_BLOCK rest;
                aad = to_le (word_of_nat (length block) :: u16);
                nonce = build_nonce_from_counter (encrypt_counter c)
            in case seal a (write_key c) nonce aad block of
                 None \<Rightarrow> (Inl (Encryption ''Encryption failed: aead::Error''), c)
               | Some ciphertext_with_tag \<Rightarrow>
                   encrypt_loop a (c\<lparr>encrypt_counter := encrypt_counter c + 1\<rparr>)
                     (drop MAX_BLOCK rest) (out @ aad @ ciphertext_with_tag)))"
  by pat_completeness auto
termination
  by (relation "measure (\<lambda>(a, c, rest, out). length rest)") (auto simp: MAX_BLOCK_def)

declare encrypt_loop.simps [simp del]

definition control_encrypt ::
  "aead \<Rightarrow> control_cipher \<Rightarrow> bytes \<Rightarrow> (crypto_error + bytes) \<times> control_cipher" where
  "control_encrypt a c plaintext =
     (if plaintext = [] then (Inl (Encryption ''Empty plaintext''), c)
      else encrypt_loop a c plaintext [])"

definition decrypt_block ::
  "aead \<Rightarrow> control_cipher \<Rightarrow> bytes \<Rightarrow> u16 \<Rightarrow> (crypto_error + bytes) \<times> control_cipher" where
  "decrypt_block a c ciphertext_with_tag block_len =
     (if length ciphertext_with_tag < unat block_len + 16
      then (Inl (Decryption ''Ciphertext block too short''), c)
      else (case unseal a (read_key c) (build_nonce_from_counter (decrypt_counter c))
                   (to_le block_len) ciphertext_with_tag of
              None \<Rightarrow> (Inl (Decryption ''Decryption/authentication failed''), c)
            | Some plaintext \<Rightarrow> (Inr plaintext, c\<lparr>decrypt_counter := decrypt_counter c + 1\<rparr>)))"

section \<open>The audio channel\<close>

definition build_aad :: "u32 \<Rightarrow> u32 \<Rightarrow> bytes" where
  "build_aad rtp_timestamp ssrc =
     put (put (replicate 8 0) 0 (to_be rtp_timestamp)) 4 (to_be ssrc)"

definition audio_nonce :: "u16 \<Rightarrow> bytes" where
  "audio_nonce seqnum = put (replicate 12 0) 4 (to_le seqnum)"

text \<open>\<open>AudioCipher::encrypt_with_seq\<close>: ciphertext, the last eight nonce bytes, the tag.\<close>

definition encrypt_with_seq ::
  "aead \<Rightarrow> bytes \<Rightarrow> bytes \<Rightarrow> u32 \<Rightarrow> u32 \<Rightarrow> u16 \<Rightarrow> crypto_error fault + (bytes \<times> bytes \<times> bytes)" where
  "encrypt_with_seq a key audio_data rtp_timestamp ssrc seqnum =
     (let nonce_12 = audio_nonce seqnum in
      case seal a key nonce_12 (build_aad rtp_timestamp ssrc) audio_data of
        None \<Rightarrow> Inl (Fail (Encryption ''Encryption failed: aead::Error''))
      | Some ciphertext_with_tag \<Rightarrow>
          if length ciphertext_with_tag < 16 then Inl Panic
          else (let tag_start = length ciphertext_with_tag - 16 in
            Inr (take tag_start ciphertext_with_tag, slice nonce_12 4 12,
                 drop tag_start ciphertext_with_tag)))"

section \<open>Packet ciphers\<close>

record encrypted_payload =
  ep_data :: bytes
  ep_tag :: "bytes option"
  ep_nonce :: "bytes option"

text \<open>
  The trait \<open>PacketCipher\<close>: what the RTP sender relies on. The trailer it appends to the payload,
  the tag and then the nonce, has a fixed length, and the nonce depends on the sequence number
  only.
\<close>

locale packet_cipher =
  fixes encrypt_payload :: "bytes \<Rightarrow> u32 \<Rightarrow> u32 \<Rightarrow> u16 \<Rightarrow> error fault + encrypted_payload"
    and seq_nonce :: "u16 \<Rightarrow> bytes"
  assumes tag_len: "encrypt_payload p ts ssrc sq = Inr e \<Longrightarrow> \<exists>t. ep_tag e = Some t \<and> length t = 16"
    and nonce_of_seq: "encrypt_payload p ts ssrc sq = Inr e \<Longrightarrow> ep_nonce e = Some (seq_nonce sq)"
    and nonce_len: "length (seq_nonce sq) = 8"
    and seq_nonce_inject: "seq_nonce s = seq_nonce s' \<Longrightarrow> s = s'"
begin

text \<open>The sender appends the tag and the nonce to the data; the receiver can cut them off again.\<close>

lemma trailer_cut:
  assumes "encrypt_payload p ts ssrc sq = Inr e"
    and "w = ep_data e @ the (ep_tag e) @ the (ep_nonce e)"
  shows "take (length w - 24) w = ep_data e"
    and "slice w (length w - 24) (length w - 8) = the (ep_tag e)"
    and "drop (length w - 8) w = seq_nonce sq"
  using tag_len [OF assms(1)] nonce_of_seq [OF assms(1)] nonce_len [of sq]
  by (auto simp: assms(2) slice_def)

lemma same_nonce_same_seq:
  "encrypt_payload p ts ssrc sq = Inr e \<Longrightarrow> encrypt_payload p' ts' ssrc' sq' = Inr e' \<Longrightarrow>
   ep_nonce e = ep_nonce e' \<longleftrightarrow> sq = sq'"
  using nonce_of_seq seq_nonce_inject by (metis option.inject)

end

definition chacha_encrypt_payload ::
  "aead \<Rightarrow> bytes \<Rightarrow> bytes \<Rightarrow> u32 \<Rightarrow> u32 \<Rightarrow> u16 \<Rightarrow> error fault + encrypted_payload" where
  "chacha_encrypt_payload a key payload timestamp ssrc sequence =
     (case encrypt_with_seq a key payload timestamp ssrc sequence of
        Inl Panic \<Rightarrow> Inl Panic
      | Inl (Fail e) \<Rightarrow> Inl (Fail (Crypto e))
      | Inr (ciphertext, nonce, tag) \<Rightarrow>
          Inr \<lparr>ep_data = ciphertext, ep_tag = Some tag, ep_nonce = Some nonce\<rparr>)"

section \<open>Key derivation\<close>

type_synonym hkdf = "bytes \<Rightarrow> bytes \<Rightarrow> bytes \<Rightarrow> nat \<Rightarrow> bytes option"  \<comment> \<open>salt, ikm, info, length\<close>

definition derive_key_32 :: "hkdf \<Rightarrow> bytes \<Rightarrow> bytes \<Rightarrow> bytes \<Rightarrow> crypto_error + bytes" where
  "derive_key_32 h ikm salt info =
     (case h salt ikm info 32 of
        None \<Rightarrow> Inl (KeyDerivation ''HKDF expand failed'') | Some okm \<Rightarrow> Inr okm)"

definition CONTROL_SALT :: bytes where
  "CONTROL_SALT = as_bytes ''Control-Salt''"

definition CONTROL_WRITE_KEY_INFO :: bytes where
  "CONTROL_WRITE_KEY_INFO = as_bytes ''Control-Write-Encryption-Key''"

definition CONTROL_READ_KEY_INFO :: bytes where
  "CONTROL_READ_KEY_INFO = as_bytes ''Control-Read-Encryption-Key''"

definition derive_control_write_key :: "hkdf \<Rightarrow> bytes \<Rightarrow> crypto_error + bytes" where
  "derive_control_write_key h shared_secret =
     derive_key_32 h shared_secret CONTROL_SALT CONTROL_WRITE_KEY_INFO"

definition derive_control_read_key :: "hkdf \<Rightarrow> bytes \<Rightarrow> crypto_error + bytes" where
  "derive_control_read_key h shared_secret =
     derive_key_32 h shared_secret CONTROL_SALT CONTROL_READ_KEY_INFO"

record session_keys =
  sk_write_key :: bytes
  sk_read_key :: bytes

definition derive_control_keys :: "hkdf \<Rightarrow> bytes \<Rightarrow> crypto_error + session_keys" where
  "derive_control_keys h shared_secret =
     and_then (derive_control_write_key h shared_secret) (\<lambda>write_key.
     and_then (derive_control_read_key h shared_secret) (\<lambda>read_key.
       Inr \<lparr>sk_write_key = write_key, sk_read_key = read_key\<rparr>))"

section \<open>Nonces\<close>

lemma length_nonce [simp]:
  "length (build_nonce_from_counter n) = 12" "length (audio_nonce s) = 12"
  by (simp_all add: build_nonce_from_counter_def audio_nonce_def)

lemma build_nonce_layout: "build_nonce_from_counter n = replicate 4 0 @ to_le n"
  by (simp add: build_nonce_from_counter_def put_replicate)

lemma audio_nonce_layout: "audio_nonce s = replicate 4 0 @ to_le s @ replicate 6 0"
  by (simp add: audio_nonce_def put_replicate)

lemma build_nonce_inject: "build_nonce_from_counter m = build_nonce_from_counter n \<longleftrightarrow> m = n"
  by (simp add: build_nonce_layout to_le_inject)

lemma audio_nonce_inject: "audio_nonce s = audio_nonce t \<longleftrightarrow> s = t"
  by (simp add: audio_nonce_layout to_le_inject)

lemma build_aad_layout: "build_aad ts ssrc = to_be ts @ to_be ssrc"
  by (simp add: build_aad_def codec_simps)

lemma slice_audio_nonce: "slice (audio_nonce s) 4 12 = to_le s @ replicate 6 0"
  by (simp add: audio_nonce_layout slice_def)

interpretation chacha: packet_cipher "chacha_encrypt_payload a key" "\<lambda>s. to_le s @ replicate 6 0"
  for a key
proof (unfold_locales)
  fix p ts ssrc sq e
  assume "chacha_encrypt_payload a key p ts ssrc sq = Inr e"
  then show "\<exists>t. ep_tag e = Some t \<and> length t = 16" "ep_nonce e = Some (to_le sq @ replicate 6 0)"
    by (auto simp: chacha_encrypt_payload_def encrypt_with_seq_def Let_def slice_audio_nonce
        split: option.splits if_splits sum.splits fault.splits)
next
  fix s t :: u16
  show "length (to_le s @ replicate 6 0) = 8" by simp
  show "to_le s @ replicate 6 0 = to_le t @ replicate 6 0 \<Longrightarrow> s = t" by (simp add: to_le_inject)
qed

section \<open>The peer's view of the control channel\<close>

text \<open>
  What the other end does with the stream: a two-byte length, that many bytes and a tag, and so on,
  each block opened with the next counter.
\<close>

function open_blocks :: "aead \<Rightarrow> control_cipher \<Rightarrow> bytes \<Rightarrow> (bytes \<times> control_cipher) option" where
  "open_blocks a r wire =
     (if wire = [] then Some ([], r)
      else if length wire < 2 then None
      else (let n = (from_le (take 2 wire) :: u16); m = unat n + 16; rest = drop 2 wire in
        if length rest < m then None
        else (case decrypt_block a r (take m rest) n of
                (Inl _, _) \<Rightarrow> None
              | (Inr p, r') \<Rightarrow>
                  (case open_blocks a r' (drop m rest) of
                     None \<Rightarrow> None | Some (q, r'') \<Rightarrow> Some (p @ q, r'')))))"
  by pat_completeness auto
termination
  by (relation "measure (\<lambda>(a, r, wire). length wire)") auto

declare open_blocks.simps [simp del]

lemma open_blocks_Nil [simp]: "open_blocks a r [] = Some ([], r)"
  by (subst open_blocks.simps) simp

text \<open>One sealed block in front of the rest of the stream.\<close>

definition sealed_block :: "bytes \<Rightarrow> bytes \<Rightarrow> bytes" where
  "sealed_block block ct = to_le (word_of_nat (length block) :: u16) @ ct"

lemma open_blocks_sealed:
  assumes "length block \<le> MAX_BLOCK" and "length ct = length block + 16"
    and "unseal a (read_key r) (build_nonce_from_counter (decrypt_counter r))
           (to_le (word_of_nat (length block) :: u16)) ct = Some block"
  shows "open_blocks a r (sealed_block block ct @ rest) =
    (case open_blocks a (r\<lparr>decrypt_counter := decrypt_counter r + 1\<rparr>) rest of
       None \<Rightarrow> None | Some (q, r'') \<Rightarrow> Some (block @ q, r''))"
proof -
  let ?n = "word_of_nat (length block) :: u16"
  have n: "unat ?n = length block" using assms(1) by (simp add: MAX_BLOCK_def unat_of_nat)
  have len: "length (to_le ?n) = 2" by simp
  have ne: "sealed_block block ct @ rest \<noteq> []" using assms(2) by (auto simp: sealed_block_def)
  have t: "take 2 (sealed_block block ct @ rest) = to_le ?n"
    "drop 2 (sealed_block block ct @ rest) = ct @ rest"
    using len by (simp_all add: sealed_block_def)
  have "from_le (to_le ?n) = ?n" by simp
  then show ?thesis
    using assms(2,3)
    unfolding open_blocks.simps [of a r "sealed_block block ct @ rest"] if_not_P [OF ne]
    by (simp add: t n Let_def decrypt_block_def sealed_block_def split: option.split)
qed

definition block_count :: "nat \<Rightarrow> nat" where
  "block_count n = (n + (MAX_BLOCK - 1)) div MAX_BLOCK"

lemma block_count_step: "0 < n \<Longrightarrow> block_count n = Suc (block_count (n - MAX_BLOCK))"
  by (cases "n \<le> MAX_BLOCK") (auto simp: block_count_def MAX_BLOCK_def)

lemma encrypt_loop_opens:
  assumes "aead_ok a" and "length (write_key c) = 32"
    and "read_key r = write_key c" and "decrypt_counter r = encrypt_counter c"
  shows "\<exists>wire c' r'. encrypt_loop a c rest out = (Inr (out @ wire), c') \<and>
    open_blocks a r wire = Some (rest, r') \<and>
    length wire = length rest + 18 * block_count (length rest) \<and>
    encrypt_counter c' = encrypt_counter c + word_of_nat (block_count (length rest)) \<and>
    decrypt_counter r' = encrypt_counter c' \<and> write_key c' = write_key c \<and> read_key c' = read_key c"
  using assms
proof (induction "length rest" arbitrary: rest out c r rule: less_induct)
  case less
  show ?case
  proof (cases "rest = []")
    case True
    with less.prems show ?thesis
      by (intro exI [of _ "[]"]) (simp add: encrypt_loop.simps block_count_def MAX_BLOCK_def)
  next
    case False
    let ?block = "take MAX_BLOCK rest" and ?rest = "drop MAX_BLOCK rest"
    let ?c = "c\<lparr>encrypt_counter := encrypt_counter c + 1\<rparr>"
    let ?r = "r\<lparr>decrypt_counter := decrypt_counter r + 1\<rparr>"
    obtain ct where ct:
      "seal a (write_key c) (build_nonce_from_counter (encrypt_counter c))
         (to_le (word_of_nat (length ?block) :: u16)) ?block = Some ct"
      "length ct = length ?block + 16"
      "unseal a (write_key c) (build_nonce_from_counter (encrypt_counter c))
         (to_le (word_of_nat (length ?block) :: u16)) ct = Some ?block"
      by (rule aead_okE [OF less.prems(1,2), of _ ?block]) (auto simp: MAX_BLOCK_def)
    have "length ?rest < length rest" using False by (simp add: MAX_BLOCK_def)
    from less.hyps [OF this, of ?c ?r "out @ sealed_block ?block ct"] less.prems
    obtain wire c' r' where IH:
      "encrypt_loop a ?c ?rest (out @ sealed_block ?block ct) =
         (Inr ((out @ sealed_block ?block ct) @ wire), c')"
      "open_blocks a ?r wire = Some (?rest, r')"
      "length wire = length ?rest + 18 * block_count (length ?rest)"
      "encrypt_counter c' = encrypt_counter c + 1 + word_of_nat (block_count (length ?rest))"
      "decrypt_counter r' = encrypt_counter c'" "write_key c' = write_key c" "read_key c' = read_key c"
      by auto
    have bc: "block_count (length rest) = Suc (block_count (length ?rest))"
      using False block_count_step [of "length rest"] by simp
    have e: "encrypt_loop a c rest out = (Inr (out @ (sealed_block ?block ct @ wire)), c')"
      using False ct(1) IH(1)
      by (subst encrypt_loop.simps) (simp add: Let_def sealed_block_def)
    have o: "open_blocks a r (sealed_block ?block ct @ wire) = Some (rest, r')"
      using open_blocks_sealed [of ?block ct a r wire] ct less.prems IH(2) by simp
    have "length (sealed_block ?block ct @ wire) = length rest + 18 * block_count (length rest)"
      using IH(3) ct(2) by (simp add: bc sealed_block_def)
    with e o IH(4-7) show ?thesis
      by (intro exI [of _ "sealed_block ?block ct @ wire"] exI [of _ c'] exI [of _ r'])
        (simp add: bc)
  qed
qed

text \<open>C32: whatever non-empty message one end of the control channel encrypts, the other end, holding
  the same key and in step on the counter, opens to exactly that message, both counters again
  equal; the wire is 18 bytes longer per started block of 1024.\<close>

theorem control_channel_roundtrip:
  assumes "aead_ok a" and "length (write_key c) = 32" and "plaintext \<noteq> []"
    and "read_key r = write_key c" and "decrypt_counter r = encrypt_counter c"
  shows "\<exists>wire c' r'. control_encrypt a c plaintext = (Inr wire, c') \<and>
    open_blocks a r wire = Some (plaintext, r') \<and> decrypt_counter r' = encrypt_counter c' \<and>
    length wire = length plaintext + 18 * ((length plaintext + 1023) div 1024)"
  using encrypt_loop_opens [OF assms(1,2,4,5), of plaintext "[]"] assms(3)
  by (auto simp: control_encrypt_def block_count_def MAX_BLOCK_def)

theorem control_channel_roundtrip_witness:
  "\<exists>wire c' r'. control_encrypt plain_aead (control_cipher_new (replicate 32 1) (replicate 32 2))
       (replicate 3000 9) = (Inr wire, c') \<and>
     open_blocks plain_aead (control_cipher_new (replicate 32 2) (replicate 32 1)) wire =
       Some (replicate 3000 9, r') \<and> decrypt_counter r' = encrypt_counter c' \<and>
     length wire = length (replicate 3000 (9 :: u8)) + 18 * ((length (replicate 3000 (9 :: u8)) + 1023) div 1024)"
proof (rule control_channel_roundtrip)
  show "replicate 3000 9 \<noteq> ([] :: bytes)" by simp
qed (simp_all add: plain_aead_ok control_cipher_new_def)

text \<open>No counter value is used for two blocks of one message.\<close>

lemma control_block_nonces_distinct:
  "i < 2 ^ 64 \<Longrightarrow> j < 2 ^ 64 \<Longrightarrow>
   build_nonce_from_counter (n + word_of_nat i) = build_nonce_from_counter (n + word_of_nat j) \<longleftrightarrow> i = j"
  by (auto simp: build_nonce_inject word_of_nat_eq_iff take_bit_nat_eq_self)

lemma control_encrypt_empty: "control_encrypt a c [] = (Inl (Encryption ''Empty plaintext''), c)"
  by (simp add: control_encrypt_def)

text \<open>A rejected block leaves the cipher as it was, so the counter only counts opened blocks.\<close>

lemma decrypt_block_error_keeps:
  "decrypt_block a c ct n = (Inl e, c') \<Longrightarrow> c' = c"
  by (auto simp: decrypt_block_def split: if_splits option.splits)

section \<open>Audio packets\<close>

text \<open>A receiver that has the key opens an audio packet from its three parts: the nonce is four
  zero bytes and the transmitted eight, the associated data the packet's timestamp and source.\<close>

lemma encrypt_with_seq_opens:
  assumes "aead_ok a" and "length key = 32" and "length payload < 2 ^ 32"
  shows "\<exists>ct nonce tag. encrypt_with_seq a key payload ts ssrc sq = Inr (ct, nonce, tag) \<and>
    length ct = length payload \<and> length nonce = 8 \<and> length tag = 16 \<and>
    unseal a key (replicate 4 0 @ nonce) (to_be ts @ to_be ssrc) (ct @ tag) = Some payload"
proof -
  obtain c where c: "seal a key (audio_nonce sq) (build_aad ts ssrc) payload = Some c"
    "length c = length payload + 16"
    "unseal a key (audio_nonce sq) (build_aad ts ssrc) c = Some payload"
    by (rule aead_okE [OF assms(1,2) _ assms(3), of "audio_nonce sq"]) auto
  have "audio_nonce sq = replicate 4 0 @ slice (audio_nonce sq) 4 12"
    by (simp add: slice_def audio_nonce_layout)
  with c show ?thesis
    by (auto simp: encrypt_with_seq_def Let_def build_aad_layout)
qed

text \<open>Two packets sealed under one key share their nonce exactly when their 16-bit sequence
  numbers agree, so the nonces repeat after 65536 packets.\<close>

theorem audio_nonce_reuse:
  "audio_nonce (word_of_nat m) = audio_nonce (word_of_nat n) \<longleftrightarrow> m mod 65536 = n mod 65536"
  by (simp add: audio_nonce_inject word_of_nat_eq_iff take_bit_eq_mod)

lemma derive_control_keys_len:
  assumes "\<And>salt ikm info n okm. h salt ikm info n = Some okm \<Longrightarrow> length okm = n"
    and "derive_control_keys h secret = Inr k"
  shows "length (sk_write_key k) = 32 \<and> length (sk_read_key k) = 32"
  using assms(2) assms(1) [of CONTROL_SALT secret _ 32]
  by (auto simp: derive_control_keys_def and_then_eq_Inr derive_control_write_key_def
      derive_control_read_key_def derive_key_32_def split: option.splits)

end
