(* ===== verification/Pairing.thy ===== *)
theory Pairing
  imports Tlv8 Srp Chacha
begin

text \<open>
  Transient pair-setup: \<open>src/pairing/pair_setup.rs\<close> (the SRP message exchange M1 to M4) and
  \<open>src/pairing/session.rs\<close> (the driver the client calls with each response). Each operation takes
  the state and returns its result and the new state; an operation that fails has already moved the
  state where the code does.

  \<open>pair_env\<close> holds what is not in the sources: SHA-512, HKDF, and the group, which the code takes
  from \<open>SrpParams::default()\<close> (\<open>default_env\<close>). The random bytes are an argument of \<open>generate_m1\<close>;
  \<open>None\<close> there is the loop in \<open>SrpClient::new\<close> that has only seen zeros.
\<close>

record pair_env =
  pe_sha :: sha512
  pe_hkdf :: hkdf
  pe_group :: srp_params

definition default_env :: "sha512 \<Rightarrow> hkdf \<Rightarrow> pair_env" where
  "default_env sha h = \<lparr>pe_sha = sha, pe_hkdf = h, pe_group = srp_params_default\<rparr>"

section \<open>PairSetup\<close>

datatype setup_state = Initial | M1Sent | M2Received | M3Sent | M4Received | Complete | Failed

record pair_setup =
  ps_state :: setup_state
  ps_pin :: string
  ps_client :: "srp_client option"
  ps_proof :: "srp_proof option"

definition new_transient_with_pin :: "string \<Rightarrow> pair_setup" where
  "new_transient_with_pin pin =
     \<lparr>ps_state = Initial, ps_pin = pin, ps_client = None, ps_proof = None\<rparr>"

type_synonym 'a setup_result = "(error + 'a) \<times> pair_setup"

definition invalid_state :: "string \<Rightarrow> pair_setup \<Rightarrow> 'a setup_result" where
  "invalid_state msg p = (Inl (Pairing (InvalidState msg)), p\<lparr>ps_state := Failed\<rparr>)"

definition protocol_error :: "string \<Rightarrow> pair_setup \<Rightarrow> 'a setup_result" where
  "protocol_error msg p = (Inl (Pairing (Protocol msg)), p\<lparr>ps_state := Failed\<rparr>)"

definition generate_m1 :: "pair_env \<Rightarrow> bytes list \<Rightarrow> pair_setup \<Rightarrow> bytes setup_result option" where
  "generate_m1 env draws p =
     (if ps_state p \<noteq> Initial then
        Some (invalid_state ''M1 can only be generated from Initial state'' p)
      else map_option
        (\<lambda>c. (Inr (tlv_encode pair_setup_m1_with_flags),
              p\<lparr>ps_client := Some c, ps_state := M1Sent\<rparr>))
        (srp_client_new (pe_group env) draws (as_bytes ''Pair-Setup'') (as_bytes (ps_pin p))))"

text \<open>The server key, padded to the group's 384 bytes; \<open>None\<close> if it is longer.\<close>

definition pad_server_key :: "bytes \<Rightarrow> bytes option" where
  "pad_server_key raw =
     (if length raw < 384 then Some (replicate (384 - length raw) 0 @ raw)
      else if length raw = 384 then Some raw else None)"

text \<open>The second half of \<open>process_m2\<close>, from the padded key on.\<close>

definition process_m2_challenge :: "pair_env \<Rightarrow> pair_setup \<Rightarrow> bytes \<Rightarrow> bytes \<Rightarrow> unit setup_result" where
  "process_m2_challenge env p slt server_pk =
     (case ps_client p of
        None \<Rightarrow> protocol_error ''SRP client not initialized'' p
      | Some c \<Rightarrow>
          (case process_challenge (pe_sha env) c \<lparr>salt = slt, server_public_key = server_pk\<rparr> of
             Inl e \<Rightarrow> protocol_error (''Failed to process SRP challenge: '' @ show_crypto_error e) p
           | Inr pr \<Rightarrow> (Inr (), p\<lparr>ps_proof := Some pr, ps_state := M2Received\<rparr>)))"

definition process_m2 :: "pair_env \<Rightarrow> pair_setup \<Rightarrow> bytes \<Rightarrow> unit setup_result" where
  "process_m2 env p response =
     (if ps_state p \<noteq> M1Sent then invalid_state ''M2 can only be processed after M1'' p
      else (case tlv_parse response of
        Inl e \<Rightarrow> protocol_error (''Failed to parse M2: '' @ show_parse_error e) p
      | Inr tlv \<Rightarrow>
          if tlv_error tlv \<noteq> None then protocol_error ''Server returned error in M2'' p
          else if tlv_state tlv \<noteq> Some 0x02 then protocol_error ''M2 has wrong state value'' p
          else (case tlv_get tlv Salt of
            None \<Rightarrow> protocol_error ''M2 missing salt'' p
          | Some slt \<Rightarrow>
              if length slt \<noteq> 16 then
                protocol_error (''M2 salt has wrong length: '' @ fmt_dec (length slt) @
                  '' (expected 16)'') p
              else (case tlv_get tlv PublicKey of
                None \<Rightarrow> protocol_error ''M2 missing server public key'' p
              | Some raw \<Rightarrow>
                  (case pad_server_key raw of
                     None \<Rightarrow> protocol_error (''M2 public key too long: '' @ fmt_dec (length raw) @
                       '' (expected <= 384)'') p
                   | Some server_pk \<Rightarrow> process_m2_challenge env p slt server_pk)))))"

definition m3_tlv :: "srp_client \<Rightarrow> srp_proof \<Rightarrow> tlv8" where
  "m3_tlv c pr =
     tlv_set (tlv_set (tlv_set tlv_new State [0x03]) PublicKey (public_key_bytes c))
       Proof (client_proof pr)"

definition generate_m3 :: "pair_setup \<Rightarrow> bytes setup_result" where
  "generate_m3 p =
     (if ps_state p \<noteq> M2Received then
        invalid_state ''M3 can only be generated after processing M2'' p
      else (case ps_client p of
        None \<Rightarrow> protocol_error ''SRP client not initialized'' p
      | Some c \<Rightarrow>
          (case ps_proof p of
             None \<Rightarrow> protocol_error ''SRP proof not computed'' p
           | Some pr \<Rightarrow> (Inr (tlv_encode (m3_tlv c pr)), p\<lparr>ps_state := M3Sent\<rparr>))))"

definition process_m4 :: "pair_setup \<Rightarrow> bytes \<Rightarrow> unit setup_result" where
  "process_m4 p response =
     (if ps_state p \<noteq> M3Sent then invalid_state ''M4 can only be processed after M3'' p
      else (case tlv_parse response of
        Inl e \<Rightarrow> protocol_error (''Failed to parse M4: '' @ show_parse_error e) p
      | Inr tlv \<Rightarrow>
          if tlv_error tlv \<noteq> None then
            protocol_error ''Server returned error in M4 (wrong PIN?)'' p
          else if tlv_state tlv \<noteq> Some 0x04 then protocol_error ''M4 has wrong state value'' p
          else (case tlv_get tlv Proof of
            None \<Rightarrow> protocol_error ''M4 missing server proof'' p
          | Some server_proof \<Rightarrow>
              (case ps_client p of
                 None \<Rightarrow> protocol_error ''SRP client not initialized'' p
               | Some c \<Rightarrow>
                   (case ps_proof p of
                      None \<Rightarrow> protocol_error ''SRP proof not computed'' p
                    | Some pr \<Rightarrow>
                        if \<not> verify_server_proof server_proof (expected_server_proof pr) then
                          protocol_error ''Server proof verification failed'' p
                        else (Inr (), p\<lparr>ps_state := M4Received\<rparr>))))))"

definition complete_transient :: "pair_setup \<Rightarrow> bytes setup_result" where
  "complete_transient p =
     (if ps_state p \<noteq> M4Received then
        invalid_state ''complete_transient() can only be called after processing M4'' p
      else (case ps_proof p of
        None \<Rightarrow> protocol_error ''SRP proof not computed'' p
      | Some pr \<Rightarrow> (Inr (shared_secret pr), p\<lparr>ps_state := Complete\<rparr>)))"

lemmas pair_ops [step_defs] =
  generate_m1_def process_m2_def process_m2_challenge_def generate_m3_def process_m4_def
  complete_transient_def invalid_state_def protocol_error_def

section \<open>PairingSession\<close>

datatype transient_stage = NotStarted | WaitingM2 | WaitingM4 | StageComplete

record pairing_session =
  transient_setup :: "pair_setup option"
  transient_state :: transient_stage
  session_keys :: "session_keys option"

definition pairing_session_new :: pairing_session where
  "pairing_session_new =
     \<lparr>transient_setup = None, transient_state = NotStarted, session_keys = None\<rparr>"

definition start_transient_pairing_with_pin ::
  "pair_env \<Rightarrow> bytes list \<Rightarrow> pairing_session \<Rightarrow> string \<Rightarrow> ((error + bytes) \<times> pairing_session) option" where
  "start_transient_pairing_with_pin env draws s pin =
     (if transient_setup s \<noteq> None then
        Some (Inl (Pairing (InvalidState ''Transient pairing already started'')), s)
      else map_option
        (\<lambda>r. case r of
           (Inl e, _) \<Rightarrow> (Inl e, s)
         | (Inr m1, transient) \<Rightarrow>
             (Inr m1, s\<lparr>transient_setup := Some transient, transient_state := WaitingM2\<rparr>))
        (generate_m1 env draws (new_transient_with_pin pin)))"

definition continue_m2 ::
  "pair_env \<Rightarrow> pairing_session \<Rightarrow> pair_setup \<Rightarrow> bytes \<Rightarrow> (error + bytes option) \<times> pairing_session" where
  "continue_m2 env s t response =
     (case process_m2 env t response of
        (Inl e, t1) \<Rightarrow> (Inl e, s\<lparr>transient_setup := Some t1\<rparr>)
      | (Inr _, t1) \<Rightarrow>
          (case generate_m3 t1 of
             (Inl e, t2) \<Rightarrow> (Inl e, s\<lparr>transient_setup := Some t2\<rparr>)
           | (Inr m3, t2) \<Rightarrow>
               (Inr (Some m3), s\<lparr>transient_setup := Some t2, transient_state := WaitingM4\<rparr>)))"

definition continue_m4 ::
  "pair_env \<Rightarrow> pairing_session \<Rightarrow> pair_setup \<Rightarrow> bytes \<Rightarrow> (error + bytes option) \<times> pairing_session" where
  "continue_m4 env s t response =
     (case process_m4 t response of
        (Inl e, t1) \<Rightarrow> (Inl e, s\<lparr>transient_setup := Some t1\<rparr>)
      | (Inr _, t1) \<Rightarrow>
          (case complete_transient t1 of
             (Inl e, t2) \<Rightarrow> (Inl e, s\<lparr>transient_setup := Some t2\<rparr>)
           | (Inr secret, t2) \<Rightarrow>
               (case derive_control_keys (pe_hkdf env) secret of
                  Inl e \<Rightarrow> (Inl (Crypto e), s\<lparr>transient_setup := Some t2\<rparr>)
                | Inr keys \<Rightarrow>
                    (Inr None, s\<lparr>transient_setup := Some t2, session_keys := Some keys,
                       transient_state := StageComplete\<rparr>))))"

definition continue_transient_pairing ::
  "pair_env \<Rightarrow> pairing_session \<Rightarrow> bytes \<Rightarrow> (error + bytes option) \<times> pairing_session" where
  "continue_transient_pairing env s response =
     (case transient_setup s of
        None \<Rightarrow> (Inl (Pairing (InvalidState ''Transient pairing not started'')), s)
      | Some t \<Rightarrow>
          (case transient_state s of
             WaitingM2 \<Rightarrow> continue_m2 env s t response
           | WaitingM4 \<Rightarrow> continue_m4 env s t response
           | _ \<Rightarrow> (Inl (Pairing (InvalidState ''Invalid transient state for continue'')), s)))"

definition take_session_keys :: "pairing_session \<Rightarrow> session_keys option \<times> pairing_session" where
  "take_session_keys s = (session_keys s, s\<lparr>session_keys := None\<rparr>)"

lemmas session_ops [step_defs] =
  start_transient_pairing_with_pin_def continue_transient_pairing_def continue_m2_def
  continue_m4_def take_session_keys_def

section \<open>The state machine of PairSetup\<close>

datatype setup_event = Gen1 "bytes list" | Proc2 bytes | Gen3 | Proc4 bytes | Finish

text \<open>One call of the public interface, in any order; the result is dropped.\<close>

fun setup_step :: "pair_env \<Rightarrow> pair_setup \<Rightarrow> setup_event \<Rightarrow> pair_setup" where
  "setup_step env p (Gen1 draws) =
     (case generate_m1 env draws p of None \<Rightarrow> p | Some (_, p') \<Rightarrow> p')"
| "setup_step env p (Proc2 r) = snd (process_m2 env p r)"
| "setup_step env p Gen3 = snd (generate_m3 p)"
| "setup_step env p (Proc4 r) = snd (process_m4 p r)"
| "setup_step env p Finish = snd (complete_transient p)"

text \<open>
  What the states promise: a client from M1 on, a proof from M2 on, and the proof is the one the
  client computed for a challenge of the right shape.
\<close>

definition proof_for :: "pair_env \<Rightarrow> srp_client \<Rightarrow> srp_proof \<Rightarrow> bool" where
  "proof_for env c pr \<longleftrightarrow>
     (\<exists>ch. length (salt ch) = 16 \<and> length (server_public_key ch) = 384 \<and>
        process_challenge (pe_sha env) c ch = Inr pr)"

definition setup_inv :: "pair_env \<Rightarrow> pair_setup \<Rightarrow> bool" where
  "setup_inv env p \<longleftrightarrow>
     (ps_state p = Initial \<longrightarrow> ps_client p = None \<and> ps_proof p = None) \<and>
     (ps_state p = M1Sent \<longrightarrow> ps_client p \<noteq> None \<and> ps_proof p = None) \<and>
     (ps_state p \<in> {M2Received, M3Sent, M4Received, Complete} \<longrightarrow>
        (\<exists>c pr. ps_client p = Some c \<and> ps_proof p = Some pr \<and> proof_for env c pr))"

lemma setup_inv_new: "setup_inv env (new_transient_with_pin pin)"
  by (simp add: setup_inv_def new_transient_with_pin_def)

lemma setup_inv_failed: "ps_state p = Failed \<Longrightarrow> setup_inv env p"
  by (simp add: setup_inv_def)

lemma pad_server_key_length: "pad_server_key raw = Some k \<Longrightarrow> length k = 384"
  by (auto simp: pad_server_key_def split: if_splits)

lemma process_m2_cases:
  obtains (err) e where "process_m2 env p r = (Inl e, p\<lparr>ps_state := Failed\<rparr>)"
  | (ok) c pr ch t raw where "ps_state p = M1Sent" "ps_client p = Some c"
      "tlv_parse r = Inr t" "tlv_error t = None" "tlv_state t = Some 2"
      "tlv_get t Salt = Some (salt ch)" "length (salt ch) = 16"
      "tlv_get t PublicKey = Some raw" "pad_server_key raw = Some (server_public_key ch)"
      "process_challenge (pe_sha env) c ch = Inr pr"
      "process_m2 env p r = (Inr (), p\<lparr>ps_proof := Some pr, ps_state := M2Received\<rparr>)"
  apply (atomize_elim)
  apply (simp add: process_m2_def process_m2_challenge_def invalid_state_def protocol_error_def
      split: sum.split option.split)
  apply (metis srp_challenge.select_convs)
  done

lemma generate_m3_cases:
  obtains (err) e where "generate_m3 p = (Inl e, p\<lparr>ps_state := Failed\<rparr>)"
  | (ok) c pr where "ps_state p = M2Received" "ps_client p = Some c" "ps_proof p = Some pr"
      "generate_m3 p = (Inr (tlv_encode (m3_tlv c pr)), p\<lparr>ps_state := M3Sent\<rparr>)"
  by (atomize_elim)
    (simp add: generate_m3_def invalid_state_def protocol_error_def split: option.split)

lemma process_m4_cases:
  obtains (err) e where "process_m4 p r = (Inl e, p\<lparr>ps_state := Failed\<rparr>)"
  | (ok) c pr t where "ps_state p = M3Sent" "ps_client p = Some c" "ps_proof p = Some pr"
      "tlv_parse r = Inr t" "tlv_error t = None" "tlv_state t = Some 4"
      "tlv_get t Proof = Some (expected_server_proof pr)"
      "process_m4 p r = (Inr (), p\<lparr>ps_state := M4Received\<rparr>)"
  by (atomize_elim)
    (simp add: process_m4_def invalid_state_def protocol_error_def verify_server_proof_def
      split: sum.split option.split)

lemma complete_transient_cases:
  obtains (err) e where "complete_transient p = (Inl e, p\<lparr>ps_state := Failed\<rparr>)"
  | (ok) pr where "ps_state p = M4Received" "ps_proof p = Some pr"
      "complete_transient p = (Inr (shared_secret pr), p\<lparr>ps_state := Complete\<rparr>)"
  by (atomize_elim)
    (simp add: complete_transient_def invalid_state_def protocol_error_def split: option.split)

lemma generate_m1_cases:
  obtains (none) "generate_m1 env draws p = None"
  | (err) e where "generate_m1 env draws p = Some (Inl e, p\<lparr>ps_state := Failed\<rparr>)"
  | (ok) c where "ps_state p = Initial"
      "srp_client_new (pe_group env) draws (as_bytes ''Pair-Setup'') (as_bytes (ps_pin p)) = Some c"
      "generate_m1 env draws p = Some (Inr (tlv_encode pair_setup_m1_with_flags),
         p\<lparr>ps_client := Some c, ps_state := M1Sent\<rparr>)"
  by (atomize_elim) (auto simp: generate_m1_def invalid_state_def)

lemma process_m2_inv: "setup_inv env p \<Longrightarrow> setup_inv env (snd (process_m2 env p r))"
proof (cases rule: process_m2_cases [of env p r])
  case (ok c pr ch t raw)
  then have "proof_for env c pr"
    using pad_server_key_length by (auto simp: proof_for_def)
  with ok show ?thesis by (simp add: setup_inv_def)
qed (simp add: setup_inv_failed)

lemma setup_step_inv: "setup_inv env p \<Longrightarrow> setup_inv env (setup_step env p ev)"
proof (cases ev)
  case (Gen1 draws)
  assume "setup_inv env p"
  then show ?thesis
    by (cases rule: generate_m1_cases [of env draws p])
      (auto simp: Gen1 setup_inv_def)
next
  case Gen3
  assume "setup_inv env p"
  then show ?thesis
    by (cases rule: generate_m3_cases [of p]) (auto simp: Gen3 setup_inv_def)
next
  case (Proc4 r)
  assume "setup_inv env p"
  then show ?thesis
    by (cases rule: process_m4_cases [of p r]) (auto simp: Proc4 setup_inv_def)
next
  case Finish
  assume "setup_inv env p"
  then show ?thesis
    by (cases rule: complete_transient_cases [of p]) (auto simp: Finish setup_inv_def)
qed (simp add: process_m2_inv)

interpretation setup_run: machine "setup_step env" "setup_inv env" for env
  by unfold_locales (rule setup_step_inv)

lemma setup_failed_step: "ps_state p = Failed \<Longrightarrow> ps_state (setup_step env p ev) = Failed"
  by (cases ev) (simp_all add: step_defs)

interpretation failed_run: machine "setup_step env" "\<lambda>p. ps_state p = Failed" for env
  by unfold_locales (rule setup_failed_step)

text \<open>Whatever calls are made in whatever order, a set-up object that has sent M1 has a client, and
  one past M2 holds the proof its own client computed for a 16-byte salt and a 384-byte key.\<close>

theorem setup_always_consistent:
  "setup_inv env (foldl (setup_step env) (new_transient_with_pin pin) evs)"
  by (rule setup_run.run_inv [OF setup_inv_new])

text \<open>A failure is final: once a call has failed, no later call leaves the failed state, and in
  particular no shared secret is released.\<close>

theorem setup_failure_is_final:
  assumes "ps_state p = Failed"
  shows "ps_state (foldl (setup_step env) p evs) = Failed \<and>
    (\<exists>e. fst (complete_transient (foldl (setup_step env) p evs)) = Inl e)"
proof -
  have f: "ps_state (foldl (setup_step env) p evs) = Failed"
    by (rule failed_run.run_inv [OF assms])
  then show ?thesis by (simp add: complete_transient_def invalid_state_def)
qed

theorem setup_failure_is_final_witness:
  "let env = default_env toy_sha (\<lambda>_ _ _ _. None);
       p = setup_step env (new_transient_with_pin ''3939'') Gen3
   in ps_state (foldl (setup_step env) p [Gen1 [[1]], Gen3, Finish]) = Failed \<and>
     (\<exists>e. fst (complete_transient (foldl (setup_step env) p [Gen1 [[1]], Gen3, Finish])) = Inl e)"
  unfolding Let_def
  by (rule setup_failure_is_final)
    (simp add: generate_m3_def invalid_state_def new_transient_with_pin_def)

section \<open>The session\<close>

datatype session_event = Start "bytes list" string | Continue bytes | TakeKeys

fun session_step :: "pair_env \<Rightarrow> pairing_session \<Rightarrow> session_event \<Rightarrow> pairing_session" where
  "session_step env s (Start draws pin) =
     (case start_transient_pairing_with_pin env draws s pin of None \<Rightarrow> s | Some (_, s') \<Rightarrow> s')"
| "session_step env s (Continue r) = snd (continue_transient_pairing env s r)"
| "session_step env s TakeKeys = snd (take_session_keys s)"

text \<open>The stage of the session and the state of its set-up object move together.\<close>

definition session_inv :: "pair_env \<Rightarrow> pairing_session \<Rightarrow> bool" where
  "session_inv env s \<longleftrightarrow>
     (case transient_setup s of
        None \<Rightarrow> transient_state s = NotStarted \<and> session_keys s = None
      | Some t \<Rightarrow> setup_inv env t \<and>
          (case transient_state s of
             NotStarted \<Rightarrow> False
           | WaitingM2 \<Rightarrow> ps_state t \<in> {M1Sent, Failed} \<and> session_keys s = None
           | WaitingM4 \<Rightarrow> ps_state t \<in> {M3Sent, Complete, Failed} \<and> session_keys s = None
           | StageComplete \<Rightarrow> ps_state t = Complete))"

lemma session_inv_new: "session_inv env pairing_session_new"
  by (simp add: session_inv_def pairing_session_new_def)

lemma start_cases:
  obtains (none) "start_transient_pairing_with_pin env draws s pin = None"
  | (err) e where "start_transient_pairing_with_pin env draws s pin = Some (Inl e, s)"
  | (ok) c where "transient_setup s = None"
      "srp_client_new (pe_group env) draws (as_bytes ''Pair-Setup'') (as_bytes pin) = Some c"
      "start_transient_pairing_with_pin env draws s pin =
         Some (Inr (tlv_encode pair_setup_m1_with_flags),
           s\<lparr>transient_setup := Some \<lparr>ps_state = M1Sent, ps_pin = pin, ps_client = Some c,
               ps_proof = None\<rparr>, transient_state := WaitingM2\<rparr>)"
  by (atomize_elim)
    (auto simp: start_transient_pairing_with_pin_def generate_m1_def new_transient_with_pin_def)

lemma continue_m2_cases:
  obtains (err) e where "continue_m2 env s t r = (Inl e, s\<lparr>transient_setup := Some (t\<lparr>ps_state := Failed\<rparr>)\<rparr>)"
  | (ok) c pr ch v raw where "ps_state t = M1Sent" "ps_client t = Some c"
      "tlv_parse r = Inr v" "tlv_error v = None" "tlv_state v = Some 2"
      "tlv_get v Salt = Some (salt ch)" "length (salt ch) = 16"
      "tlv_get v PublicKey = Some raw" "pad_server_key raw = Some (server_public_key ch)"
      "process_challenge (pe_sha env) c ch = Inr pr"
      "continue_m2 env s t r = (Inr (Some (tlv_encode (m3_tlv c pr))),
         s\<lparr>transient_setup := Some (t\<lparr>ps_proof := Some pr, ps_state := M3Sent\<rparr>),
           transient_state := WaitingM4\<rparr>)"
proof (cases rule: process_m2_cases [of env t r])
  case (err e)
  then show ?thesis by (intro that(1)) (simp add: continue_m2_def)
next
  case (ok c pr ch v raw)
  then show ?thesis by (intro that(2) [of c v ch raw pr]) (simp_all add: continue_m2_def generate_m3_def)
qed

lemma continue_m4_cases:
  obtains (err) e st where "st \<in> {Failed, Complete}"
      "continue_m4 env s t r = (Inl e, s\<lparr>transient_setup := Some (t\<lparr>ps_state := st\<rparr>)\<rparr>)"
      "st = Complete \<Longrightarrow> ps_state t = M3Sent"
  | (ok) c pr v keys where "ps_state t = M3Sent" "ps_client t = Some c" "ps_proof t = Some pr"
      "tlv_parse r = Inr v" "tlv_error v = None" "tlv_state v = Some 4"
      "tlv_get v Proof = Some (expected_server_proof pr)"
      "derive_control_keys (pe_hkdf env) (shared_secret pr) = Inr keys"
      "continue_m4 env s t r = (Inr None,
         s\<lparr>transient_setup := Some (t\<lparr>ps_state := Complete\<rparr>), session_keys := Some keys,
           transient_state := StageComplete\<rparr>)"
proof (cases rule: process_m4_cases [of t r])
  case (err e)
  then show ?thesis by (intro that(1) [of Failed]) (simp_all add: continue_m4_def)
next
  case (ok c pr v)
  show ?thesis
  proof (cases "derive_control_keys (pe_hkdf env) (shared_secret pr)")
    case (Inl e)
    with ok show ?thesis
      by (intro that(1) [of Complete]) (simp_all add: continue_m4_def complete_transient_def)
  next
    case (Inr keys)
    with ok show ?thesis
      by (intro that(2) [of c pr v keys]) (simp_all add: continue_m4_def complete_transient_def)
  qed
qed

lemma continue_inv:
  assumes "session_inv env s" shows "session_inv env (snd (continue_transient_pairing env s r))"
proof (cases "transient_setup s")
  case None
  with assms show ?thesis by (simp add: continue_transient_pairing_def)
next
  case (Some t)
  with assms have t: "setup_inv env t" by (simp add: session_inv_def)
  show ?thesis
  proof (cases "transient_state s")
    case WaitingM2
    show ?thesis
    proof (cases rule: continue_m2_cases [of env s t r])
      case (ok c pr ch v raw)
      then have "proof_for env c pr"
        using pad_server_key_length by (auto simp: proof_for_def)
      with ok Some WaitingM2 assms show ?thesis
        by (simp add: continue_transient_pairing_def session_inv_def setup_inv_def)
    qed (use Some WaitingM2 assms in
        \<open>simp add: continue_transient_pairing_def session_inv_def setup_inv_failed\<close>)
  next
    case WaitingM4
    show ?thesis
      by (cases rule: continue_m4_cases [of env s t r])
        (use Some WaitingM4 assms in
          \<open>auto simp: continue_transient_pairing_def session_inv_def setup_inv_def\<close>)
  qed (use Some assms in \<open>simp_all add: continue_transient_pairing_def\<close>)
qed

lemma session_step_inv: "session_inv env s \<Longrightarrow> session_inv env (session_step env s ev)"
proof (cases ev)
  case (Start draws pin)
  assume "session_inv env s"
  then show ?thesis
    by (cases rule: start_cases [of env draws s pin])
      (auto simp: Start session_inv_def setup_inv_def split: option.splits)
next
  case TakeKeys
  assume "session_inv env s"
  then show ?thesis
    by (auto simp: TakeKeys take_session_keys_def session_inv_def
        split: option.splits transient_stage.splits)
qed (simp add: continue_inv)

interpretation session_run: machine "session_step env" "session_inv env" for env
  by unfold_locales (rule session_step_inv)

text \<open>C2: session keys appear only in the step that receives M4, from a peer whose M4 carries the proof
  the client expects for its own secret, and they are derived from that secret; the session had a
  client and a proof that belongs to it.\<close>

theorem session_keys_need_server_proof:
  assumes "s = foldl (session_step env) pairing_session_new evs"
    and "session_keys s = None"
    and "session_keys (session_step env s ev) = Some keys"
  shows "\<exists>r t c pr v. ev = Continue r \<and> transient_setup s = Some t \<and> ps_client t = Some c \<and>
    proof_for env c pr \<and> tlv_parse r = Inr v \<and> tlv_error v = None \<and> tlv_state v = Some 4 \<and>
    tlv_get v Proof = Some (expected_server_proof pr) \<and>
    derive_control_keys (pe_hkdf env) (shared_secret pr) = Inr keys"
proof -
  have inv: "session_inv env s"
    unfolding assms(1) by (rule session_run.run_inv [OF session_inv_new])
  show ?thesis
  proof (cases ev)
    case (Start draws pin)
    with assms show ?thesis by (cases rule: start_cases [of env draws s pin]) auto
  next
    case TakeKeys
    with assms show ?thesis by (simp add: take_session_keys_def)
  next
    case (Continue r)
    with assms obtain t where t: "transient_setup s = Some t"
      by (cases "transient_setup s") (auto simp: continue_transient_pairing_def)
    have "transient_state s = WaitingM4"
    proof (cases "transient_state s")
      case WaitingM2
      with assms Continue t show ?thesis
        by (cases rule: continue_m2_cases [of env s t r]) (auto simp: continue_transient_pairing_def)
    qed (use assms Continue t in \<open>auto simp: continue_transient_pairing_def\<close>)
    with Continue t assms have k: "session_keys (snd (continue_m4 env s t r)) = Some keys"
      by (simp add: continue_transient_pairing_def)
    show ?thesis
    proof (cases rule: continue_m4_cases [of env s t r])
      case (err e st)
      with k assms(2) show ?thesis by simp
    next
      case (ok c pr v keys')
      with inv t k Continue show ?thesis
        by (auto simp: session_inv_def setup_inv_def split: transient_stage.splits)
    qed
  qed
qed

section \<open>An honest accessory\<close>

text \<open>
  The messages of the accessory: M2 with the salt and its public key (any number of bytes up to
  384), M4 with its proof. \<open>server_keys\<close> says what it computes on its side.
\<close>

definition m2_tlv :: "bytes \<Rightarrow> bytes \<Rightarrow> tlv8" where
  "m2_tlv slt raw = tlv_set (tlv_set (tlv_set tlv_new State [0x02]) Salt slt) PublicKey raw"

definition m4_tlv :: "bytes \<Rightarrow> tlv8" where
  "m4_tlv proof = tlv_set (tlv_set tlv_new State [0x04]) Proof proof"

lemma m2_read:
  obtains t where "tlv_parse (tlv_encode (m2_tlv slt raw)) = Inr t" "tlv_error t = None"
    "tlv_state t = Some 2" "tlv_get t Salt = Some slt" "tlv_get t PublicKey = Some raw"
proof -
  have ok: "hm_ok (items (m2_tlv slt raw))" by (simp add: m2_tlv_def)
  obtain t where t: "tlv_parse (tlv_encode (m2_tlv slt raw)) = Inr t"
    by (rule tlv_roundtrip_all [OF ok])
  note g = tlv_get_roundtrip [OF ok t]
  from t show ?thesis
    by (rule that) (simp_all add: tlv_error_def tlv_state_def g m2_tlv_def first_byte_def)
qed

lemma m3_read:
  obtains t where "tlv_parse (tlv_encode (m3_tlv c pr)) = Inr t" "tlv_state t = Some 3"
    "tlv_get t PublicKey = Some (public_key_bytes c)" "tlv_get t Proof = Some (client_proof pr)"
proof -
  have ok: "hm_ok (items (m3_tlv c pr))" by (simp add: m3_tlv_def)
  obtain t where t: "tlv_parse (tlv_encode (m3_tlv c pr)) = Inr t"
    by (rule tlv_roundtrip_all [OF ok])
  note g = tlv_get_roundtrip [OF ok t]
  from t show ?thesis
    by (rule that) (simp_all add: tlv_state_def g m3_tlv_def first_byte_def)
qed

lemma m4_read:
  obtains t where "tlv_parse (tlv_encode (m4_tlv proof)) = Inr t" "tlv_error t = None"
    "tlv_state t = Some 4" "tlv_get t Proof = Some proof"
proof -
  have ok: "hm_ok (items (m4_tlv proof))" by (simp add: m4_tlv_def)
  obtain t where t: "tlv_parse (tlv_encode (m4_tlv proof)) = Inr t"
    by (rule tlv_roundtrip_all [OF ok])
  note g = tlv_get_roundtrip [OF ok t]
  from t show ?thesis
    by (rule that) (simp_all add: tlv_error_def tlv_state_def g m4_tlv_def first_byte_def)
qed

lemma pad_server_key_short:
  "length raw \<le> 384 \<Longrightarrow> \<exists>k. pad_server_key raw = Some k \<and> be_nat k = be_nat raw"
  by (auto simp: pad_server_key_def)

lemma start_client:
  assumes "start_transient_pairing_with_pin env draws pairing_session_new pin = Some (Inr m1, s1)"
  obtains c t where "transient_setup s1 = Some t" "transient_state s1 = WaitingM2"
    "ps_state t = M1Sent" "ps_client t = Some c" "params c = pe_group env"
    "identity c = as_bytes ''Pair-Setup''" "password c = as_bytes pin"
    "srp_public_key c = srp_g (params c) ^ be_nat (private_key c) mod srp_n (params c)"
proof (cases rule: start_cases [of env draws pairing_session_new pin])
  case (ok c)
  have "params c = pe_group env" "identity c = as_bytes ''Pair-Setup''" "password c = as_bytes pin"
    using ok(2) by (auto simp: srp_client_new_def)
  with ok assms srp_client_new_key [OF ok(2)] show ?thesis
    by (intro that [of _ c]) auto
qed (use assms in simp_all)

lemma honest_run:
  assumes "start_transient_pairing_with_pin env draws pairing_session_new pin = Some (Inr m1, s1)"
    and "transient_setup s1 = Some tc" and "ps_client tc = Some c" and "A = srp_public_key c"
    and "srp_group (pe_group env)" and "length slt = 16"
    and "x = compute_x (pe_sha env) slt (as_bytes ''Pair-Setup'') (as_bytes pin)"
    and "v = server_verifier (pe_group env) x"
    and "B = server_public (pe_group env) (compute_k (pe_sha env) (pe_group env)) v b"
    and "B mod srp_n (pe_group env) \<noteq> 0"
    and "length raw \<le> 384" and "be_nat raw = B"
    and "u = compute_u (pe_sha env) A B" and "u \<noteq> 0"
    and "K = pe_sha env (pad_to_n (server_secret (pe_group env) A v u b))"
    and "derive_control_keys (pe_hkdf env) K = Inr keys"
  shows "\<exists>m3 s2 t3 proof s3.
    continue_transient_pairing env s1 (tlv_encode (m2_tlv slt raw)) = (Inr (Some m3), s2) \<and>
    tlv_parse m3 = Inr t3 \<and> tlv_state t3 = Some 3 \<and>
    tlv_get t3 PublicKey = Some (pad_to_n A) \<and> tlv_get t3 Proof = Some proof \<and>
    proof = compute_m1 (pe_sha env) (pe_group env) (as_bytes ''Pair-Setup'') slt A B K \<and>
    continue_transient_pairing env s2
      (tlv_encode (m4_tlv (pe_sha env (pad_to_n A @ proof @ K)))) = (Inr None, s3) \<and>
    session_keys s3 = Some keys"
proof -
  obtain c' t' where c': "transient_setup s1 = Some t'" "transient_state s1 = WaitingM2"
    "ps_state t' = M1Sent" "ps_client t' = Some c'" "params c' = pe_group env"
    "identity c' = as_bytes ''Pair-Setup''" "password c' = as_bytes pin"
    "srp_public_key c' = srp_g (params c') ^ be_nat (private_key c') mod srp_n (params c')"
    using start_client [OF assms(1)] by metis
  then have c: "t' = tc" "c' = c" using assms(2,3) by auto
  obtain spk where spk: "pad_server_key raw = Some spk" "be_nat spk = B"
    using pad_server_key_short [OF assms(11)] assms(12) by auto
  let ?ch = "\<lparr>salt = slt, server_public_key = spk\<rparr>"
  obtain pr where pr: "process_challenge (pe_sha env) c ?ch = Inr pr"
    "shared_secret pr = K" "client_proof pr =
       compute_m1 (pe_sha env) (pe_group env) (as_bytes ''Pair-Setup'') slt A B K"
    "expected_server_proof pr = pe_sha env (pad_to_n A @ client_proof pr @ K)"
    using process_challenge_agrees [of c _ x "pe_sha env" ?ch "compute_k (pe_sha env) (pe_group env)" b u]
      c' c assms spk(2) by auto
  obtain t2 where t2: "tlv_parse (tlv_encode (m2_tlv slt raw)) = Inr t2" "tlv_error t2 = None"
    "tlv_state t2 = Some 2" "tlv_get t2 Salt = Some slt" "tlv_get t2 PublicKey = Some raw"
    by (rule m2_read)
  obtain t3 where t3: "tlv_parse (tlv_encode (m3_tlv c pr)) = Inr t3" "tlv_state t3 = Some 3"
    "tlv_get t3 PublicKey = Some (public_key_bytes c)" "tlv_get t3 Proof = Some (client_proof pr)"
    by (rule m3_read)
  obtain t4 where t4: "tlv_parse (tlv_encode (m4_tlv (expected_server_proof pr))) = Inr t4"
    "tlv_error t4 = None" "tlv_state t4 = Some 4" "tlv_get t4 Proof = Some (expected_server_proof pr)"
    by (rule m4_read)
  define s2 where "s2 = s1\<lparr>transient_setup := Some (tc\<lparr>ps_proof := Some pr, ps_state := M3Sent\<rparr>),
    transient_state := WaitingM4\<rparr>"
  have two: "continue_transient_pairing env s1 (tlv_encode (m2_tlv slt raw)) =
      (Inr (Some (tlv_encode (m3_tlv c pr))), s2)"
    using c' c t2 spk(1) pr(1) assms(6)
    by (simp add: step_defs s2_def)
  have "continue_transient_pairing env s2 (tlv_encode (m4_tlv (expected_server_proof pr))) =
      (Inr None, s2\<lparr>transient_setup := Some (tc\<lparr>ps_proof := Some pr, ps_state := Complete\<rparr>),
        session_keys := Some keys, transient_state := StageComplete\<rparr>)"
    using c' c t4 pr(2) assms(16)
    by (simp add: step_defs s2_def verify_server_proof_def)
  with two t3 pr assms(4) show ?thesis
    unfolding pr(4) public_key_bytes_def by fastforce
qed

text \<open>C1: pairing with an accessory that knows the PIN succeeds in two responses: the client's M3
  carries its public key and the proof the accessory expects, and M4 leaves both sides with control
  keys derived from the same secret.\<close>

theorem pairing_with_honest_accessory:
  assumes "start_transient_pairing_with_pin env draws pairing_session_new pin = Some (Inr m1, s1)"
    and "transient_setup s1 = Some tc" and "ps_client tc = Some c" and "A = srp_public_key c"
    and "srp_group (pe_group env)" and "length slt = 16"
    and "x = compute_x (pe_sha env) slt (as_bytes ''Pair-Setup'') (as_bytes pin)"
    and "v = server_verifier (pe_group env) x"
    and "B = server_public (pe_group env) (compute_k (pe_sha env) (pe_group env)) v b"
    and "B mod srp_n (pe_group env) \<noteq> 0"
    and "length raw \<le> 384" and "be_nat raw = B"
    and "u = compute_u (pe_sha env) A B" and "u \<noteq> 0"
    and "K = pe_sha env (pad_to_n (server_secret (pe_group env) A v u b))"
    and "derive_control_keys (pe_hkdf env) K = Inr keys"
  shows "\<exists>m3 s2 t3 proof s3.
    continue_transient_pairing env s1 (tlv_encode (m2_tlv slt raw)) = (Inr (Some m3), s2) \<and>
    tlv_parse m3 = Inr t3 \<and> tlv_state t3 = Some 3 \<and>
    tlv_get t3 PublicKey = Some (pad_to_n A) \<and> tlv_get t3 Proof = Some proof \<and>
    proof = compute_m1 (pe_sha env) (pe_group env) (as_bytes ''Pair-Setup'') slt A B K \<and>
    continue_transient_pairing env s2
      (tlv_encode (m4_tlv (pe_sha env (pad_to_n A @ proof @ K)))) = (Inr None, s3) \<and>
    session_keys s3 = Some keys"
  by (rule honest_run [OF assms])

definition toy_env :: pair_env where
  "toy_env = \<lparr>pe_sha = toy_sha, pe_hkdf = \<lambda>_ _ _ n. Some (replicate n 0), pe_group = toy_params\<rparr>"

lemma toy_client_new:
  "srp_client_new toy_params [[7]] (as_bytes ''Pair-Setup'') (as_bytes ''3939'') = Some toy_client"
  by (simp add: srp_client_new_def toy_values toy_client_def toy_params_def modpow_def
      to_bytes_be_def be_digits.simps [of 7] be_digits.simps [of 0])

definition toy_started :: pairing_session where
  "toy_started = \<lparr>transient_setup = Some \<lparr>ps_state = M1Sent, ps_pin = ''3939'',
      ps_client = Some toy_client, ps_proof = None\<rparr>,
    transient_state = WaitingM2, session_keys = None\<rparr>"

lemma toy_start:
  "start_transient_pairing_with_pin toy_env [[7]] pairing_session_new ''3939'' =
     Some (Inr (tlv_encode pair_setup_m1_with_flags), toy_started)"
  by (simp add: start_transient_pairing_with_pin_def generate_m1_def new_transient_with_pin_def
      toy_env_def toy_client_new pairing_session_new_def toy_started_def)

definition toy_m2 :: bytes where
  "toy_m2 = tlv_encode (m2_tlv (replicate 16 1) [9])"

lemma toy_facts:
  "srp_public_key toy_client = 17" "pe_group toy_env = toy_params" "pe_sha toy_env = toy_sha"
  "srp_n toy_params = 23" "srp_g toy_params = 5"
  "derive_control_keys (pe_hkdf toy_env) K =
     Inr \<lparr>sk_write_key = replicate 32 0, sk_read_key = replicate 32 0\<rparr>"
  by (simp_all add: toy_client_def toy_env_def toy_params_def derive_control_keys_def
      derive_control_write_key_def derive_control_read_key_def derive_key_32_def)

definition toy_secret :: bytes where
  "toy_secret = toy_sha (pad_to_n (server_secret toy_params 17 10 3 2))"

theorem pairing_with_honest_accessory_witness:
  "\<exists>m3 s2 t3 proof s3.
    continue_transient_pairing toy_env toy_started toy_m2 = (Inr (Some m3), s2) \<and>
    tlv_parse m3 = Inr t3 \<and> tlv_state t3 = Some 3 \<and>
    tlv_get t3 PublicKey = Some (pad_to_n 17) \<and> tlv_get t3 Proof = Some proof \<and>
    proof = compute_m1 (pe_sha toy_env) (pe_group toy_env) (as_bytes ''Pair-Setup'')
      (replicate 16 1) 17 9 toy_secret \<and>
    continue_transient_pairing toy_env s2
      (tlv_encode (m4_tlv (pe_sha toy_env (pad_to_n 17 @ proof @ toy_secret)))) = (Inr None, s3) \<and>
    session_keys s3 = Some \<lparr>sk_write_key = replicate 32 0, sk_read_key = replicate 32 0\<rparr>"
  unfolding toy_m2_def
  by (rule pairing_with_honest_accessory [OF toy_start,
        where tc = "the (transient_setup toy_started)" and c = toy_client and x = 3 and v = 10
        and b = 2 and u = 3])
    (simp_all add: toy_started_def toy_facts toy_group toy_values server_verifier_def
      server_public_def toy_secret_def)

lemma toy_run:
  obtains m3 s2 r s3 keys where
    "continue_transient_pairing toy_env toy_started toy_m2 = (Inr (Some m3), s2)"
    "continue_transient_pairing toy_env s2 r = (Inr None, s3)" "session_keys s3 = Some keys"
  using honest_run [OF toy_start, where tc = "the (transient_setup toy_started)"
      and c = toy_client and x = 3 and v = 10 and b = 2 and u = 3 and A = 17 and B = 9
      and slt = "replicate 16 1" and raw = "[9]" and K = toy_secret]
  by (fastforce simp: toy_started_def toy_facts toy_group toy_values server_verifier_def
      server_public_def toy_secret_def toy_m2_def)

lemma continue_m2_keys:
  "transient_state s = WaitingM2 \<Longrightarrow>
   session_keys (snd (continue_transient_pairing env s r)) = session_keys s"
  by (auto simp: continue_transient_pairing_def continue_m2_def split: option.split sum.split prod.split)

theorem session_keys_need_server_proof_witness:
  "\<exists>ev s keys. s = foldl (session_step toy_env) pairing_session_new [Start [[7]] ''3939'', Continue toy_m2] \<and>
    session_keys s = None \<and> session_keys (session_step toy_env s ev) = Some keys \<and>
    (\<exists>r t c pr v. ev = Continue r \<and> transient_setup s = Some t \<and> ps_client t = Some c \<and>
      proof_for toy_env c pr \<and> tlv_parse r = Inr v \<and> tlv_error v = None \<and> tlv_state v = Some 4 \<and>
      tlv_get v Proof = Some (expected_server_proof pr) \<and>
      derive_control_keys (pe_hkdf toy_env) (shared_secret pr) = Inr keys)"
proof -
  obtain m3 s2 r s3 keys where run:
    "continue_transient_pairing toy_env toy_started toy_m2 = (Inr (Some m3), s2)"
    "continue_transient_pairing toy_env s2 r = (Inr None, s3)" "session_keys s3 = Some keys"
    by (rule toy_run)
  have s2: "s2 = foldl (session_step toy_env) pairing_session_new [Start [[7]] ''3939'', Continue toy_m2]"
    by (simp add: toy_start run(1))
  have n: "session_keys s2 = None"
    using continue_m2_keys [of toy_started toy_env toy_m2] unfolding run(1)
    by (simp add: toy_started_def)
  have k: "session_keys (session_step toy_env s2 (Continue r)) = Some keys"
    by (simp add: run)
  from session_keys_need_server_proof [OF s2 n k] s2 n k show ?thesis by blast
qed

end
