(* ===== verification/Ptp_Wire.thy ===== *)
theory Ptp_Wire
  imports Errors
begin

text \<open>
  The PTP messages: \<open>src/timing/ptp/types.rs\<close> (timestamps and the common header), \<open>tlv.rs\<close> (the
  TLVs of the gPTP and Apple profiles) and \<open>messages.rs\<close> (the packets the sender emits). A
  \<open>send_*\<close> function is modelled as the packets it hands to the sockets, in order, and the new value
  of its sequence counter; the socket itself is not modelled.
\<close>

section \<open>Message types and timestamps\<close>

definition PTP_EVENT_PORT :: u16 where "PTP_EVENT_PORT = 319"
definition PTP_GENERAL_PORT :: u16 where "PTP_GENERAL_PORT = 320"

datatype ptp_message_type = Sync | DelayReq | FollowUp | DelayResp | Announce | Signaling

fun message_type_code :: "ptp_message_type \<Rightarrow> u8" where
  "message_type_code Sync = 0x00"
| "message_type_code DelayReq = 0x01"
| "message_type_code FollowUp = 0x08"
| "message_type_code DelayResp = 0x09"
| "message_type_code Announce = 0x0B"
| "message_type_code Signaling = 0x0C"

definition from_byte :: "u8 \<Rightarrow> ptp_message_type option" where
  "from_byte b =
     (let n = b AND 0x0F in
      if n = 0x00 then Some Sync else if n = 0x01 then Some DelayReq
      else if n = 0x08 then Some FollowUp else if n = 0x09 then Some DelayResp
      else if n = 0x0B then Some Announce else if n = 0x0C then Some Signaling
      else None)"

record ptp_timestamp =
  seconds :: u64
  nanoseconds :: u32

definition from_nanos :: "u128 \<Rightarrow> ptp_timestamp" where
  "from_nanos nanos =
     \<lparr>seconds = ucast (nanos div 1000000000), nanoseconds = ucast (nanos mod 1000000000)\<rparr>"

definition to_nanos :: "ptp_timestamp \<Rightarrow> u128" where
  "to_nanos ts = ucast (seconds ts) * 1000000000 + ucast (nanoseconds ts)"

definition timestamp_serialize :: "ptp_timestamp \<Rightarrow> bytes" where
  "timestamp_serialize ts =
     (let buf = replicate 10 0;
          sec_bytes = to_be (seconds ts);
          buf = put buf 0 (slice sec_bytes 2 8);
          buf = put buf 6 (to_be (nanoseconds ts))
      in buf)"

definition timestamp_parse :: "bytes \<Rightarrow> error + ptp_timestamp" where
  "timestamp_parse data =
     (if length data < 10 then Inl (Parse (InvalidFormat ''PTP timestamp too short''))
      else (let sec_bytes = put (replicate 8 0) 2 (slice data 0 6) in
        Inr \<lparr>seconds = from_be sec_bytes, nanoseconds = from_be (slice data 6 10)\<rparr>))"

section \<open>The header\<close>

record ptp_header =
  message_type :: ptp_message_type
  hdr_version :: u8
  message_length :: u16
  domain_number :: u8
  hdr_flags :: u16
  correction_field :: i64
  source_port_identity :: bytes
  sequence_id :: u16
  control_field :: u8
  log_message_interval :: i8

fun control_code :: "ptp_message_type \<Rightarrow> u8" where
  "control_code Sync = 0"
| "control_code DelayReq = 1"
| "control_code FollowUp = 2"
| "control_code DelayResp = 3"
| "control_code Announce = 5"
| "control_code Signaling = 5"

definition header_new :: "ptp_message_type \<Rightarrow> u16 \<Rightarrow> ptp_header" where
  "header_new mt sq =
     \<lparr>message_type = mt, hdr_version = 2, message_length = 44, domain_number = 0, hdr_flags = 0,
      correction_field = 0, source_port_identity = replicate 10 0, sequence_id = sq,
      control_field = control_code mt, log_message_interval = 0\<rparr>"

definition header_serialize :: "ptp_header \<Rightarrow> bytes" where
  "header_serialize h =
     (let buf = replicate 34 0;
          buf = buf[0 := message_type_code (message_type h)];
          buf = buf[1 := hdr_version h];
          buf = put buf 2 (to_be (message_length h));
          buf = buf[4 := domain_number h];
          buf = buf[5 := 0];
          buf = put buf 6 (to_be (hdr_flags h));
          buf = put buf 8 (to_be (correction_field h));
          buf = put buf 16 (replicate 4 0);
          buf = put buf 20 (source_port_identity h);
          buf = put buf 30 (to_be (sequence_id h));
          buf = buf[32 := control_field h];
          buf = buf[33 := log_message_interval h]
      in buf)"

definition header_parse :: "bytes \<Rightarrow> error + ptp_header" where
  "header_parse data =
     (if length data < 34 then Inl (Parse (InvalidFormat ''PTP header too short''))
      else (case from_byte (data ! 0) of
        None \<Rightarrow> Inl (Parse (InvalidFormat (''Unknown PTP message type: '' @
          fmt_dec (unat ((data ! 0) AND 0x0F)))))
      | Some mt \<Rightarrow> Inr \<lparr>message_type = mt, hdr_version = (data ! 1) AND 0x0F,
          message_length = from_be [data ! 2, data ! 3], domain_number = data ! 4,
          hdr_flags = from_be [data ! 6, data ! 7], correction_field = from_be (slice data 8 16),
          source_port_identity = slice data 20 30, sequence_id = from_be [data ! 30, data ! 31],
          control_field = data ! 32, log_message_interval = data ! 33\<rparr>))"

section \<open>TLVs\<close>

definition ORGANIZATION_EXTENSION :: u16 where "ORGANIZATION_EXTENSION = 0x0003"
definition ORG_GPTP :: bytes where "ORG_GPTP = [0x00, 0x80, 0xC2]"
definition ORG_APPLE :: bytes where "ORG_APPLE = [0x00, 0x0D, 0x93]"
definition FOLLOW_UP_INFO :: bytes where "FOLLOW_UP_INFO = [0x00, 0x00, 0x01]"
definition MESSAGE_INTERVAL_REQUEST :: bytes where "MESSAGE_INTERVAL_REQUEST = [0x00, 0x00, 0x02]"
definition TYPE_01 :: bytes where "TYPE_01 = [0x00, 0x00, 0x01]"
definition TYPE_05 :: bytes where "TYPE_05 = [0x00, 0x00, 0x05]"

record tlv_header =
  tlv_type_field :: u16
  tlv_length :: u16

definition tlv_header_serialize :: "tlv_header \<Rightarrow> bytes" where
  "tlv_header_serialize h =
     (let buf = replicate 4 0;
          buf = put buf 0 (to_be (tlv_type_field h));
          buf = put buf 2 (to_be (tlv_length h))
      in buf)"

definition org_header :: "nat \<Rightarrow> bytes" where
  "org_header n =
     tlv_header_serialize \<lparr>tlv_type_field = ORGANIZATION_EXTENSION, tlv_length = word_of_nat n\<rparr>"

record follow_up_information_tlv =
  fu_organization_id :: bytes
  fu_organization_subtype :: bytes
  cumulative_scaled_rate_offset :: i32
  gm_time_base_indicator :: u16
  last_gm_phase_change :: bytes
  scaled_last_gm_freq_change :: i32

definition follow_up_tlv_new :: follow_up_information_tlv where
  "follow_up_tlv_new =
     \<lparr>fu_organization_id = ORG_GPTP, fu_organization_subtype = FOLLOW_UP_INFO,
      cumulative_scaled_rate_offset = 0, gm_time_base_indicator = 0,
      last_gm_phase_change = replicate 12 0, scaled_last_gm_freq_change = 0\<rparr>"

definition follow_up_tlv_serialize :: "follow_up_information_tlv \<Rightarrow> bytes" where
  "follow_up_tlv_serialize t =
     org_header 28 @ fu_organization_id t @ fu_organization_subtype t @
     to_be (cumulative_scaled_rate_offset t) @ to_be (gm_time_base_indicator t) @
     last_gm_phase_change t @ to_be (scaled_last_gm_freq_change t)"

record message_interval_request_tlv =
  mi_organization_id :: bytes
  mi_organization_subtype :: bytes
  link_delay_interval :: i8
  time_sync_interval :: i8
  announce_interval :: i8
  mi_flags :: u8

definition interval_tlv_new :: "i8 \<Rightarrow> i8 \<Rightarrow> message_interval_request_tlv" where
  "interval_tlv_new sync_interval ann_interval =
     \<lparr>mi_organization_id = ORG_GPTP, mi_organization_subtype = MESSAGE_INTERVAL_REQUEST,
      link_delay_interval = sync_interval, time_sync_interval = sync_interval,
      announce_interval = ann_interval, mi_flags = 0x02\<rparr>"

definition interval_tlv_serialize :: "message_interval_request_tlv \<Rightarrow> bytes" where
  "interval_tlv_serialize t =
     org_header 10 @ mi_organization_id t @ mi_organization_subtype t @
     [link_delay_interval t, time_sync_interval t, announce_interval t, mi_flags t]"

record apple_tlv =
  ap_organization_id :: bytes
  ap_organization_subtype :: bytes
  ap_payload :: bytes

definition apple_tlv_new :: "bytes \<Rightarrow> bytes \<Rightarrow> apple_tlv" where
  "apple_tlv_new subtype payload =
     \<lparr>ap_organization_id = ORG_APPLE, ap_organization_subtype = subtype, ap_payload = payload\<rparr>"

definition apple_tlv_serialize :: "apple_tlv \<Rightarrow> bytes" where
  "apple_tlv_serialize t =
     org_header (6 + length (ap_payload t)) @ ap_organization_id t @ ap_organization_subtype t @
     ap_payload t"

section \<open>Messages\<close>

definition port_identity :: "bytes \<Rightarrow> bytes" where
  "port_identity clock_identity =
     put (put (replicate 10 0) 0 clock_identity) 8 (to_be (1 :: u16))"

definition announce_packet :: "bytes \<Rightarrow> u16 \<Rightarrow> u8 \<Rightarrow> u8 \<Rightarrow> bytes" where
  "announce_packet clock_identity sq clock_class priority1 =
     (let header = (header_new Announce sq)\<lparr>source_port_identity := port_identity clock_identity,
            message_length := 64, log_message_interval := 1\<rparr>;
          packet = replicate 64 0;
          packet = put packet 0 (header_serialize header);
          packet = put packet 44 (to_be (37 :: i16));
          packet = packet[47 := priority1];
          packet = packet[48 := clock_class];
          packet = packet[49 := 0xFE];
          packet = put packet 50 (to_be (0xFFFF :: u16));
          packet = packet[52 := 128];
          packet = put packet 53 clock_identity;
          packet = packet[63 := 0xA0]
      in packet)"

text \<open>The packet and the new value of \<open>announce_seq\<close>.\<close>

definition send_ptp_announce :: "bytes \<Rightarrow> u16 \<Rightarrow> u8 \<Rightarrow> u8 \<Rightarrow> bytes \<times> u16" where
  "send_ptp_announce clock_identity announce_seq clock_class priority1 =
     (let sq = announce_seq + 1 in (announce_packet clock_identity sq clock_class priority1, sq))"

text \<open>The signaling packets share the header, the ten \<open>0xFF\<close> of the target port and the rule for the
  length.\<close>

definition signaling_packet :: "bytes \<Rightarrow> u16 \<Rightarrow> bytes list \<Rightarrow> bytes" where
  "signaling_packet clock_identity sq tlvs =
     (let header = (header_new Signaling sq)\<lparr>source_port_identity := port_identity clock_identity,
            message_length := 34 + 10 + word_of_nat (length (concat tlvs))\<rparr>
      in header_serialize header @ replicate 10 0xFF @ concat tlvs)"

definition send_ptp_signaling :: "bytes \<Rightarrow> u16 \<Rightarrow> i8 \<Rightarrow> i8 \<Rightarrow> bytes \<times> u16" where
  "send_ptp_signaling clock_identity sid sync_interval_log announce_interval_log =
     (let sq = sid + 1;
          tlv_bytes = interval_tlv_serialize (interval_tlv_new sync_interval_log announce_interval_log);
          apple_01 = apple_tlv_serialize (apple_tlv_new TYPE_01
            ([0x00, 0x04, sync_interval_log, announce_interval_log] @ replicate 12 0));
          apple_05 = apple_tlv_serialize (apple_tlv_new TYPE_05
            ([0x00, 0x10, sync_interval_log, announce_interval_log] @ replicate 22 0))
      in (signaling_packet clock_identity sq [tlv_bytes, apple_01, apple_05], sq))"

definition send_mac_style_signaling :: "bytes \<Rightarrow> u16 \<Rightarrow> bytes \<times> u16" where
  "send_mac_style_signaling clock_identity sid =
     (let sq = sid + 1;
          tlv_bytes = interval_tlv_serialize (interval_tlv_new (- 3) (- 2));
          apple_01 = apple_tlv_serialize (apple_tlv_new TYPE_01
            [0x00, 0x03, 0x00, 0x00, 0x00, 0x00, 0x27, 0x10, 0x00, 0x00, 0x27, 0x10, 0x00, 0x00,
             0x00, 0x00]);
          apple_05 = apple_tlv_serialize (apple_tlv_new TYPE_05
            ([0x00, 0x0f, 0x00, 0x00, 0x00, 0x00, 0x27, 0x10, 0x00, 0x00, 0x27, 0x10] @
             replicate 14 0))
      in (signaling_packet clock_identity sq [tlv_bytes, apple_01, apple_05], sq))"

definition send_stop_signaling :: "bytes \<Rightarrow> u16 \<Rightarrow> bytes \<times> u16" where
  "send_stop_signaling clock_identity sid =
     (let sq = sid + 1;
          stop_tlv = \<lparr>mi_organization_id = ORG_GPTP,
            mi_organization_subtype = MESSAGE_INTERVAL_REQUEST, link_delay_interval = 0x7E,
            time_sync_interval = 0x7E, announce_interval = 0x7E, mi_flags = 0x00\<rparr>
      in (signaling_packet clock_identity sq [interval_tlv_serialize stop_tlv], sq))"

text \<open>The Sync for the event port, the Follow_Up for the general port, the counter. \<open>sync_time\<close> is the
  clock read between the two sends.\<close>

definition send_ptp_sync :: "bytes \<Rightarrow> u16 \<Rightarrow> ptp_timestamp \<Rightarrow> (bytes \<times> bytes) \<times> u16" where
  "send_ptp_sync clock_identity sid sync_time =
     (let sq = sid + 1;
          sync_header = (header_new Sync sq)\<lparr>hdr_flags := 0x0200,
            source_port_identity := port_identity clock_identity\<rparr>;
          sync_packet = put (replicate 44 0) 0 (header_serialize sync_header);
          tlv_bytes = follow_up_tlv_serialize follow_up_tlv_new;
          followup_header = (header_new FollowUp sq)\<lparr>source_port_identity := port_identity clock_identity,
            message_length := 44 + word_of_nat (length tlv_bytes)\<rparr>;
          followup_packet = header_serialize followup_header @ timestamp_serialize sync_time @ tlv_bytes
      in ((sync_packet, followup_packet), sq))"

section \<open>Lemmas: codecs\<close>

lemma from_byte_code [simp]: "from_byte (message_type_code mt) = Some mt"
  by (cases mt) (simp_all add: from_byte_def)

definition timestamp_ok :: "ptp_timestamp \<Rightarrow> bool" where
  "timestamp_ok ts \<longleftrightarrow> unat (seconds ts) < 2 ^ 48"

definition header_ok :: "ptp_header \<Rightarrow> bool" where
  "header_ok h \<longleftrightarrow> hdr_version h AND 0x0F = hdr_version h \<and> length (source_port_identity h) = 10"

lemma header_layout:
  assumes "length (source_port_identity h) = 10"
  shows "header_serialize h =
     [message_type_code (message_type h), hdr_version h] @ to_be (message_length h) @
     [domain_number h, 0] @ to_be (hdr_flags h) @ to_be (correction_field h) @ replicate 4 0 @
     source_port_identity h @ to_be (sequence_id h) @ [control_field h, log_message_interval h]"
  using assms by (simp add: header_serialize_def codec_simps)

lemma timestamp_layout:
  "timestamp_serialize ts = drop 2 (to_be (seconds ts)) @ to_be (nanoseconds ts)"
  by (simp add: timestamp_serialize_def codec_simps slice_def)

lemma timestamp_parse_serialize:
  assumes "timestamp_ok ts" shows "timestamp_parse (timestamp_serialize ts @ rest) = Inr ts"
proof -
  have "to_be (seconds ts) = replicate 2 0 @ be_bytes 6 (unat (seconds ts))"
    using be_bytes_pad [of "unat (seconds ts)" 6 2] assms by (simp add: to_be_def timestamp_ok_def)
  then have s: "to_be (seconds ts) = replicate 2 0 @ drop 2 (to_be (seconds ts))" by simp
  have "from_be (replicate 2 0 @ drop 2 (to_be (seconds ts))) = seconds ts"
    unfolding s [symmetric] by simp
  then show ?thesis
    by (simp add: timestamp_parse_def timestamp_layout codec_simps)
qed

lemma header_parse_serialize:
  assumes "header_ok h" shows "header_parse (header_serialize h @ rest) = Inr h"
proof -
  have spi: "length (source_port_identity h) = 10" using assms by (simp add: header_ok_def)
  define d where "d = header_serialize h @ rest"
  have len: "34 \<le> length d" by (simp add: d_def header_layout [OF spi] spi)
  have pairs: "[d ! 2, d ! 3] = slice d 2 4" "[d ! 6, d ! 7] = slice d 6 8"
    "[d ! 30, d ! 31] = slice d 30 32"
    using len slice_pair [of 2 d] slice_pair [of 6 d] slice_pair [of 30 d]
    by (simp_all add: eval_nat_numeral)
  have one: "d ! 0 = message_type_code (message_type h)" "d ! 1 = hdr_version h"
    "d ! 4 = domain_number h" "d ! 32 = control_field h" "d ! 33 = log_message_interval h"
    by (simp_all add: d_def header_layout [OF spi] spi nth_append nth_Cons')
  show ?thesis
    using len assms unfolding d_def [symmetric] header_parse_def
    by (simp add: one [simplified] pairs)
      (simp add: d_def header_layout [OF spi] spi codec_simps header_ok_def)
qed

interpretation ptp_timestamps: wire_codec timestamp_serialize timestamp_parse 10 timestamp_ok
  by unfold_locales
    (simp_all add: timestamp_parse_serialize, simp_all add: timestamp_layout timestamp_parse_def)

interpretation ptp_headers: wire_codec header_serialize header_parse 34 header_ok
  by unfold_locales
    (simp_all add: header_parse_serialize, simp_all add: header_layout header_ok_def header_parse_def)

text \<open>A header or timestamp the code writes is read back unchanged, whatever follows it in the
  packet: the version fits its nibble, the seconds fit 48 bits.\<close>

theorem ptp_codecs_roundtrip:
  assumes "header_ok h" and "timestamp_ok ts"
  shows "header_parse (header_serialize h @ timestamp_serialize ts @ rest) = Inr h \<and>
    timestamp_parse (slice (header_serialize h @ timestamp_serialize ts @ rest) 34 44) = Inr ts"
  using ptp_headers.parse_ser [OF assms(1)] ptp_headers.length_ser [OF assms(1)]
    ptp_timestamps.parse_at [OF assms(2), of "header_serialize h" 34 rest]
  by simp

theorem ptp_codecs_roundtrip_witness:
  "header_parse (header_serialize (header_new Sync 7) @
      timestamp_serialize \<lparr>seconds = 1700000000, nanoseconds = 5\<rparr> @ [1, 2]) = Inr (header_new Sync 7) \<and>
    timestamp_parse (slice (header_serialize (header_new Sync 7) @
      timestamp_serialize \<lparr>seconds = 1700000000, nanoseconds = 5\<rparr> @ [1, 2]) 34 44) =
      Inr \<lparr>seconds = 1700000000, nanoseconds = 5\<rparr>"
  by (rule ptp_codecs_roundtrip) (simp_all add: header_ok_def header_new_def timestamp_ok_def)

section \<open>Lemmas: nanoseconds\<close>

lemma unat_to_nanos:
  "unat (to_nanos ts) = unat (seconds ts) * 1000000000 + unat (nanoseconds ts)"
proof -
  have b: "unat (seconds ts) < 18446744073709551616" "unat (nanoseconds ts) < 4294967296"
    by (rule unat_u64_lt unat_u32_lt)+
  have m: "unat (ucast (seconds ts) * 1000000000 :: u128) = unat (seconds ts) * 1000000000"
    using b(1) by (subst unat_mult_small) (simp_all add: unat_ucast_widen)
  show ?thesis
    unfolding to_nanos_def
    using b by (subst unat_add_small) (simp_all add: m unat_ucast_widen)
qed

lemma from_nanos_to_nanos:
  assumes "unat (nanoseconds ts) < 1000000000" shows "from_nanos (to_nanos ts) = ts"
proof -
  have "unat (seconds (from_nanos (to_nanos ts))) = unat (seconds ts)"
    using assms unat_u64_lt [of "seconds ts"]
    by (simp add: from_nanos_def unat_ucast_mod unat_div unat_to_nanos)
  moreover have "unat (nanoseconds (from_nanos (to_nanos ts))) = unat (nanoseconds ts)"
    using assms by (simp add: from_nanos_def unat_ucast_mod unat_mod unat_to_nanos)
  ultimately show ?thesis by (simp add: word_unat_eq_iff)
qed

lemma from_nanos_ok:
  assumes "unat n div 1000000000 < 2 ^ 48"
  shows "timestamp_ok (from_nanos n)" "to_nanos (from_nanos n) = n"
proof -
  have s: "unat (seconds (from_nanos n)) = unat n div 1000000000"
    using assms by (simp add: from_nanos_def unat_ucast_mod unat_div)
  have f: "unat (nanoseconds (from_nanos n)) = unat n mod 1000000000"
    by (simp add: from_nanos_def unat_ucast_mod unat_mod)
  show "timestamp_ok (from_nanos n)" using assms s by (simp add: timestamp_ok_def)
  have "unat (to_nanos (from_nanos n)) = unat n" by (simp add: unat_to_nanos s f)
  then show "to_nanos (from_nanos n) = n" by (simp add: word_unat_eq_iff)
qed

section \<open>Lemmas: packets\<close>

lemma length_tlvs [simp]:
  "length (org_header n) = 4"
  "length (follow_up_tlv_serialize follow_up_tlv_new) = 32"
  "length (interval_tlv_serialize (interval_tlv_new a b)) = 14"
  "length (apple_tlv_serialize (apple_tlv_new TYPE_01 p)) = 10 + length p"
  "length (apple_tlv_serialize (apple_tlv_new TYPE_05 p)) = 10 + length p"
  by (simp_all add: org_header_def tlv_header_serialize_def follow_up_tlv_serialize_def
      follow_up_tlv_new_def interval_tlv_serialize_def interval_tlv_new_def apple_tlv_serialize_def
      apple_tlv_new_def ORG_GPTP_def ORG_APPLE_def FOLLOW_UP_INFO_def MESSAGE_INTERVAL_REQUEST_def
      TYPE_01_def TYPE_05_def)

lemma port_identity_layout: "length ci = 8 \<Longrightarrow> port_identity ci = ci @ [0, 1]"
  by (simp add: port_identity_def codec_simps to_be_def byte_eval)

text \<open>What every receiver checks first: the header of a packet says its type, its length and who sent
  it.\<close>

definition well_framed :: "ptp_message_type \<Rightarrow> bytes \<Rightarrow> u16 \<Rightarrow> bytes \<Rightarrow> bool" where
  "well_framed mt ci sq p \<longleftrightarrow>
     (\<exists>h. header_parse p = Inr h \<and> message_type h = mt \<and> unat (message_length h) = length p \<and>
        sequence_id h = sq \<and> source_port_identity h = ci @ [0, 1])"

lemma well_framedI:
  assumes "header_ok h" and "message_type h = mt" and "sequence_id h = sq"
    and "source_port_identity h = ci @ [0, 1]" and "unat (message_length h) = 34 + length rest"
  shows "well_framed mt ci sq (header_serialize h @ rest)"
  using ptp_headers.parse_ser [OF assms(1), of rest] ptp_headers.length_ser [OF assms(1)] assms
  by (auto simp: well_framed_def)

lemma header_ok_new:
  "length ci = 8 \<Longrightarrow> header_ok ((header_new mt sq)\<lparr>source_port_identity := ci @ [0, 1]\<rparr>)"
  by (simp add: header_ok_def header_new_def)

lemma well_framed_signaling:
  assumes "length ci = 8" and "length (concat tlvs) < 1000"
  shows "well_framed Signaling ci sq (signaling_packet ci sq tlvs)"
  unfolding signaling_packet_def Let_def
  by (rule well_framedI)
    (use assms in \<open>simp_all add: header_ok_def header_new_def port_identity_layout unat_add_small unat_of_nat\<close>)

lemma well_framed_announce:
  assumes "length ci = 8" shows "well_framed Announce ci sq (announce_packet ci sq cc p1)"
proof -
  let ?h = "(header_new Announce sq)\<lparr>source_port_identity := ci @ [0, 1], message_length := 64,
    log_message_interval := 1\<rparr>"
  have ok: "header_ok ?h" using assms by (simp add: header_ok_def header_new_def)
  have len: "length (header_serialize ?h) = 34" by (rule ptp_headers.length_ser [OF ok])
  obtain rest where "announce_packet ci sq cc p1 = header_serialize ?h @ rest" "length rest = 30"
    using assms len by (simp add: announce_packet_def port_identity_layout codec_simps)
  then show ?thesis
    using well_framedI [OF ok, of Announce sq ci rest] by (simp add: header_new_def)
qed

text \<open>The messages of one clock, with the counters they were sent under.\<close>

definition emitted ::
  "bytes \<Rightarrow> u16 \<Rightarrow> u8 \<Rightarrow> u8 \<Rightarrow> i8 \<Rightarrow> i8 \<Rightarrow> ptp_timestamp \<Rightarrow> (ptp_message_type \<times> bytes \<times> u16) list" where
  "emitted ci sid cc p1 sync_log ann_log t =
     [(Announce, send_ptp_announce ci sid cc p1),
      (Signaling, send_ptp_signaling ci sid sync_log ann_log),
      (Signaling, send_mac_style_signaling ci sid),
      (Signaling, send_stop_signaling ci sid),
      (Sync, fst (fst (send_ptp_sync ci sid t)), snd (send_ptp_sync ci sid t)),
      (FollowUp, snd (fst (send_ptp_sync ci sid t)), snd (send_ptp_sync ci sid t))]"

lemma well_framed_sync:
  assumes "length ci = 8"
  shows "well_framed Sync ci (sid + 1) (fst (fst (send_ptp_sync ci sid t)))"
    and "well_framed FollowUp ci (sid + 1) (snd (fst (send_ptp_sync ci sid t)))"
proof -
  let ?h = "(header_new Sync (sid + 1))\<lparr>hdr_flags := 0x0200, source_port_identity := ci @ [0, 1]\<rparr>"
  have ok: "header_ok ?h" using assms by (simp add: header_ok_def header_new_def)
  have len: "length (header_serialize ?h) = 34" by (rule ptp_headers.length_ser [OF ok])
  have "fst (fst (send_ptp_sync ci sid t)) = header_serialize ?h @ replicate 10 0"
    using assms len by (simp add: send_ptp_sync_def Let_def port_identity_layout codec_simps)
  then show "well_framed Sync ci (sid + 1) (fst (fst (send_ptp_sync ci sid t)))"
    using well_framedI [OF ok, of Sync "sid + 1" ci "replicate 10 0"] by (simp add: header_new_def)
next
  have "length (timestamp_serialize t) = 10" by (simp add: timestamp_layout)
  then show "well_framed FollowUp ci (sid + 1) (snd (fst (send_ptp_sync ci sid t)))"
    unfolding send_ptp_sync_def Let_def fst_conv snd_conv
    by (intro well_framedI)
      (use assms in \<open>simp_all add: header_ok_def header_new_def port_identity_layout\<close>)
qed

lemma length_stop_tlv [simp]:
  "length (interval_tlv_serialize \<lparr>mi_organization_id = ORG_GPTP,
      mi_organization_subtype = MESSAGE_INTERVAL_REQUEST, link_delay_interval = a,
      time_sync_interval = b, announce_interval = c, mi_flags = f\<rparr>) = 14"
  by (simp add: interval_tlv_serialize_def ORG_GPTP_def MESSAGE_INTERVAL_REQUEST_def)

text \<open>Every packet the PTP code emits carries its true length, its message type, the sender's
  port identity and the incremented counter: a receiver that parses the header finds them.\<close>

theorem ptp_packets_well_framed:
  assumes "length ci = 8"
  shows "list_all (\<lambda>(mt, p, sq). sq = sid + 1 \<and> well_framed mt ci sq p)
    (emitted ci sid cc p1 sync_log ann_log t)"
  using well_framed_sync [OF assms, of sid t] assms
  by (simp add: emitted_def send_ptp_announce_def well_framed_announce send_ptp_signaling_def
      send_mac_style_signaling_def send_stop_signaling_def well_framed_signaling Let_def)
    (simp add: send_ptp_sync_def Let_def)

theorem ptp_packets_well_framed_witness:
  "list_all (\<lambda>(mt, p, sq). sq = 42 \<and> well_framed mt (replicate 8 7) sq p)
    (emitted (replicate 8 7) 41 248 250 (- 3) (- 2) \<lparr>seconds = 5, nanoseconds = 6\<rparr>)"
  using ptp_packets_well_framed [of "replicate 8 7" 41 "248" "250" "- 3" "- 2" "\<lparr>seconds = 5, nanoseconds = 6\<rparr>"]
  by simp

end
