(* ===== verification/Clock.thy ===== *)
theory Clock
  imports Errors
begin

text \<open>
  \<open>src/timing/clock.rs\<close> and \<open>src/timing/ntp.rs\<close>: the clock arithmetic, and the NTP timing responder as
  the function of one datagram that its receive loop applies. The wall clock is an argument; a
  signed field is a word read with \<open>sint\<close>.
\<close>

section \<open>Clock\<close>

definition NTP_EPOCH_OFFSET :: u64 where "NTP_EPOCH_OFFSET = 2208988800"

record clock_offset =
  offset_ns :: i64
  error_ns :: u64
  rtt_ns :: u64

text \<open>\<open>Duration::as_nanos() as u64\<close>\<close>

definition now_wall_ns :: "u128 \<Rightarrow> u64" where
  "now_wall_ns since_epoch = ucast since_epoch"

definition unix_to_ntp :: "u64 \<Rightarrow> u64" where
  "unix_to_ntp unix_ns =
     (let unix_secs = unix_ns div 1000000000;
          frac_ns = unix_ns mod 1000000000;
          ntp_secs = unix_secs + NTP_EPOCH_OFFSET;
          ntp_frac = push_bit 32 (ucast frac_ns :: u128) div 1000000000
      in push_bit 32 ntp_secs OR ucast ntp_frac)"

definition now_ntp :: "u128 \<Rightarrow> u64" where
  "now_ntp since_epoch = unix_to_ntp (now_wall_ns since_epoch)"

definition apply_offset :: "u64 \<Rightarrow> clock_offset \<Rightarrow> u64" where
  "apply_offset local_ns off = local_ns + offset_ns off"

section \<open>NTP timing\<close>

definition TIMING_REQUEST_PT :: u8 where "TIMING_REQUEST_PT = 82"
definition TIMING_RESPONSE_PT :: u8 where "TIMING_RESPONSE_PT = 83"

record ntp_request =
  rq_sequence :: u16
  rq_reference_time :: u64

definition ntp_request_parse :: "bytes \<Rightarrow> error + ntp_request" where
  "ntp_request_parse data =
     (if length data < 32 then Inl (Parse (InvalidFormat ''NTP request too short''))
      else (let pt = (data ! 1) AND 0x7F in
        if pt \<noteq> TIMING_REQUEST_PT then
          Inl (Parse (InvalidFormat (''Expected PT='' @ fmt_dec (unat TIMING_REQUEST_PT) @
            '', got '' @ fmt_dec (unat pt))))
        else Inr \<lparr>rq_sequence = from_be [data ! 2, data ! 3],
                  rq_reference_time = from_be (slice data 24 32)\<rparr>))"

record ntp_response =
  rs_sequence :: u16
  rs_reference_time :: u64
  receive_time :: u64
  send_time :: u64

definition from_request :: "ntp_request \<Rightarrow> u64 \<Rightarrow> u64 \<Rightarrow> ntp_response" where
  "from_request request recv snd_time =
     \<lparr>rs_sequence = rq_sequence request, rs_reference_time = rq_reference_time request,
      receive_time = recv, send_time = snd_time\<rparr>"

definition ntp_response_serialize :: "ntp_response \<Rightarrow> bytes" where
  "ntp_response_serialize r =
     (let buf = replicate 32 0;
          buf = buf[0 := 0x80];
          buf = buf[1 := TIMING_RESPONSE_PT OR 0x80];
          buf = put buf 2 (to_be (rs_sequence r));
          buf = put buf 8 (to_be (rs_reference_time r));
          buf = put buf 16 (to_be (receive_time r));
          buf = put buf 24 (to_be (send_time r))
      in buf)"

text \<open>
  One turn of \<open>run_loop\<close> for a datagram: the kernel cuts it to the 64-byte buffer; a datagram that
  does not parse gets no answer. \<open>t_recv\<close> and \<open>t_send\<close> are the two readings of the wall clock.
\<close>

definition ntp_run_loop_step :: "bytes \<Rightarrow> u128 \<Rightarrow> u128 \<Rightarrow> bytes option" where
  "ntp_run_loop_step datagram t_recv t_send =
     (let recv_time = now_ntp t_recv in
      case ntp_request_parse (take 64 datagram) of
        Inl _ \<Rightarrow> None
      | Inr request \<Rightarrow>
          Some (ntp_response_serialize (from_request request recv_time (now_ntp t_send))))"

section \<open>Lemmas: conversion\<close>

lemma unat_push_32: "unat (push_bit 32 (w :: u64)) = (unat w mod 4294967296) * 4294967296"
proof -
  have "unat (push_bit 32 w) = (unat w * 4294967296) mod (4294967296 * 4294967296)"
    by (simp add: push_bit_eq_mult unat_word_ariths)
  then show ?thesis by (simp only: mult_mod_left)
qed

lemma unat_join_32:
  assumes "unat (lo :: u64) < 4294967296"
  shows "unat (push_bit 32 hi OR lo) = unat (push_bit 32 hi) + unat lo"
proof -
  have "push_bit 32 hi AND lo = 0"
  proof (rule bit_word_eqI)
    fix i assume "i < LENGTH(64)"
    have "\<not> bit lo i" if "32 \<le> i"
    proof -
      have "unat lo < 2 ^ i"
        using assms power_increasing [OF that, of "2 :: nat"] by simp
      then have "\<not> bit (unat lo) i" by (simp add: bit_iff_odd)
      moreover have "i < 64" using \<open>i < LENGTH(64)\<close> by simp
      ultimately show ?thesis by (simp add: bit_unsigned_iff)
    qed
    then show "bit (push_bit 32 hi AND lo) i = bit 0 i"
      by (auto simp: bit_and_iff bit_push_bit_iff)
  qed
  then have "push_bit 32 hi OR lo = push_bit 32 hi + lo" by (simp add: disjunctive_add_eq_or)
  moreover have "unat (push_bit 32 hi) + unat lo < 2 ^ 64"
    using assms by (simp add: unat_push_32)
  ultimately show ?thesis by (simp add: unat_add_small)
qed

lemma unat_ntp_parts:
  "unat (unix_to_ntp n) =
     ((unat n div 1000000000 + 2208988800) mod 4294967296) * 4294967296 +
     (unat n mod 1000000000) * 4294967296 div 1000000000"
proof -
  let ?s = "n div 1000000000 + NTP_EPOCH_OFFSET" and ?f = "n mod 1000000000"
  let ?q = "push_bit 32 (ucast ?f :: u128) div 1000000000"
  have f: "unat ?f < 1000000000" by (simp add: unat_mod)
  have "unat (push_bit 32 (ucast ?f :: u128)) = unat ?f * 4294967296"
    using f by (simp add: push_bit_eq_mult unat_mult_small unat_ucast_widen)
  then have q: "unat ?q = unat ?f * 4294967296 div 1000000000" by (simp add: unat_div)
  then have q32: "unat ?q < 4294967296" using f by simp
  then have lo: "unat (ucast ?q :: u64) = unat ?q" by (simp add: unat_ucast_mod)
  have s: "unat ?s = unat n div 1000000000 + 2208988800"
    using unat_u64_lt [of n] by (subst unat_add_small) (simp_all add: NTP_EPOCH_OFFSET_def unat_div)
  show ?thesis
    unfolding unix_to_ntp_def Let_def
    using unat_join_32 [of "ucast ?q" ?s] lo q32
    by (simp only: unat_push_32 s q) (simp add: unat_mod)
qed

text \<open>Until the NTP era ends in 2036 the conversion is strictly monotone on nanoseconds: later
  wall-clock times have later NTP timestamps, and no two share one.\<close>

theorem unix_to_ntp_strict_mono:
  assumes "m < n" and "unat n div 1000000000 + 2208988800 < 4294967296"
  shows "unix_to_ntp m < unix_to_ntp n"
proof -
  let ?G = "1000000000 :: nat" and ?W = "4294967296 :: nat"
  have mn: "unat m < unat n" using assms(1) by (simp add: word_less_nat_alt)
  then have le: "unat m div ?G \<le> unat n div ?G" by (simp add: div_le_mono)
  have frac: "(x mod ?G) * ?W div ?G < ?W" for x :: nat by (simp add: div_less_iff_less_mult)
  have "unat (unix_to_ntp m) < unat (unix_to_ntp n)"
  proof (cases "unat m div ?G = unat n div ?G")
    case True
    then have "unat m mod ?G + 1 \<le> unat n mod ?G"
      using mn div_mult_mod_eq [of "unat m" ?G] div_mult_mod_eq [of "unat n" ?G] by linarith
    then have "(unat m mod ?G) * ?W + ?G \<le> (unat n mod ?G) * ?W" by linarith
    then have "((unat m mod ?G) * ?W + ?G) div ?G \<le> (unat n mod ?G) * ?W div ?G"
      by (rule div_le_mono)
    moreover have "((unat m mod ?G) * ?W + ?G) div ?G = (unat m mod ?G) * ?W div ?G + 1"
      by (rule div_add_self2) simp
    ultimately show ?thesis unfolding unat_ntp_parts True by linarith
  next
    case False
    with le have "unat m div ?G + 2208988800 + 1 \<le> unat n div ?G + 2208988800" by linarith
    with assms(2) frac [of "unat m"] show ?thesis by (simp add: unat_ntp_parts)
  qed
  then show ?thesis by (simp add: word_less_nat_alt)
qed

theorem unix_to_ntp_strict_mono_witness:
  "unix_to_ntp 1700000000000000000 < unix_to_ntp 1700000000000000001"
  by (rule unix_to_ntp_strict_mono) simp_all

text \<open>At the end of the era the timestamp starts again from zero.\<close>

lemma unix_to_ntp_era_end: "unix_to_ntp (2085978496 * 1000000000) = 0"
proof -
  have "unat (unix_to_ntp (2085978496 * 1000000000)) = 0" by (simp add: unat_ntp_parts)
  then show ?thesis by (simp add: unat_eq_0)
qed

section \<open>Lemmas: the responder\<close>

lemma ntp_response_layout:
  "ntp_response_serialize r =
     [0x80, 0xD3] @ to_be (rs_sequence r) @ replicate 4 0 @ to_be (rs_reference_time r) @
     to_be (receive_time r) @ to_be (send_time r)"
proof -
  have "(TIMING_RESPONSE_PT OR 0x80) = 0xD3" by (simp add: TIMING_RESPONSE_PT_def)
  then show ?thesis
    by (simp add: ntp_response_serialize_def codec_simps)
qed

lemma ntp_request_parse_cases:
  obtains (bad) e where "ntp_request_parse d = Inl e" "length d < 32 \<or> (d ! 1) AND 0x7F \<noteq> TIMING_REQUEST_PT"
  | (ok) rq where "ntp_request_parse d = Inr rq" "32 \<le> length d" "(d ! 1) AND 0x7F = TIMING_REQUEST_PT"
      "to_be (rq_sequence rq) = slice d 2 4" "to_be (rq_reference_time rq) = slice d 24 32"
proof (cases "length d < 32 \<or> (d ! 1) AND 0x7F \<noteq> TIMING_REQUEST_PT")
  case True
  then have "\<exists>e. ntp_request_parse d = Inl e" by (auto simp: ntp_request_parse_def Let_def)
  with True bad show ?thesis by blast
next
  case False
  let ?rq = "\<lparr>rq_sequence = from_be [d ! 2, d ! 3], rq_reference_time = from_be (slice d 24 32)\<rparr>"
  have "slice d 2 4 = [d ! 2, d ! 3]" using slice_pair [of 2 d] False by (simp add: eval_nat_numeral)
  with False show ?thesis
    by (intro ok [of ?rq]) (simp_all add: ntp_request_parse_def to_be_from_be)
qed

definition timing_request :: "bytes \<Rightarrow> bool" where
  "timing_request d \<longleftrightarrow> 32 \<le> length d \<and> (d ! 1) AND 0x7F = TIMING_REQUEST_PT"

text \<open>A timing request is answered with its own sequence number, its transmit time in the
  reference field, and the two clock readings in order; a datagram that is short or has another
  payload type is not answered.\<close>

theorem ntp_request_answered:
  "case ntp_run_loop_step d t_recv t_send of
     None \<Rightarrow> \<not> timing_request d
   | Some r \<Rightarrow> timing_request d \<and> length r = 32 \<and>
       slice r 0 2 = [0x80, 0xD3] \<and> slice r 2 4 = slice d 2 4 \<and> slice r 8 16 = slice d 24 32 \<and>
       from_be (slice r 16 24) = now_ntp t_recv \<and> from_be (slice r 24 32) = now_ntp t_send"
proof (cases rule: ntp_request_parse_cases [of "take 64 d"])
  case (bad e)
  then show ?thesis by (auto simp: ntp_run_loop_step_def timing_request_def Let_def)
next
  case (ok rq)
  have s: "slice (take 64 d) a b = slice d a b" if "b \<le> 64" for a b
    using that by (simp add: slice_def drop_take)
  let ?r = "ntp_response_serialize (from_request rq (now_ntp t_recv) (now_ntp t_send))"
  have "slice ?r 0 2 = [0x80, 0xD3] \<and> slice ?r 2 4 = slice d 2 4 \<and> slice ?r 8 16 = slice d 24 32 \<and>
      slice ?r 16 24 = to_be (now_ntp t_recv) \<and> slice ?r 24 32 = to_be (now_ntp t_send) \<and> length ?r = 32"
    using ok s by (simp add: ntp_response_layout from_request_def codec_simps)
  with ok show ?thesis by (simp add: ntp_run_loop_step_def timing_request_def)
qed

end
