(* ===== verification/Ptp_Flow.thy ===== *)
theory Ptp_Flow
  imports Ptp_Wire Clock Device "HOL-Library.Signed_Division"
begin

text \<open>
  The two PTP tasks, \<open>src/timing/ptp/flows/slave.rs\<close> and \<open>src/timing/ptp/flows/bmca.rs\<close>. Each task
  is a machine: an event is one arm of its \<open>tokio::select!\<close> (a datagram with the clock read while
  handling it, a tick, a deadline), a step gives the outputs in order and the new state. Outputs are
  what is handed to the sockets and channels. A send that fails is only logged by the slave and in the
  BMCA task's second loop; during the negotiation it ends the BMCA task. \<open>i128\<close> values are integers: nothing here comes near the width.
\<close>

section \<open>The exchange\<close>

datatype ptp_out = ToEvent bytes | ToGeneral bytes | PublishOffset clock_offset | PublishClockId bytes

record exchange =
  ex_t1 :: "ptp_timestamp option"
  ex_t2 :: "ptp_timestamp option"
  ex_t3 :: "ptp_timestamp option"
  delay_req_seq :: u16

definition exchange_new :: exchange where
  "exchange_new = \<lparr>ex_t1 = None, ex_t2 = None, ex_t3 = None, delay_req_seq = 0\<rparr>"

definition compute_offset :: "ptp_timestamp \<Rightarrow> ptp_timestamp \<Rightarrow> ptp_timestamp \<Rightarrow> ptp_timestamp \<Rightarrow> clock_offset" where
  "compute_offset t1 t2 t3 t4 =
     (let t1_ns = uint (to_nanos t1); t2_ns = uint (to_nanos t2);
          t3_ns = uint (to_nanos t3); t4_ns = uint (to_nanos t4);
          offset_val = ((t2_ns - t1_ns) + (t3_ns - t4_ns)) sdiv 2;
          delay = ((t2_ns - t1_ns) - (t3_ns - t4_ns)) sdiv 2
      in \<lparr>offset_ns = word_of_int offset_val, error_ns = word_of_int (\<bar>delay\<bar> div 2),
          rtt_ns = word_of_int \<bar>delay\<bar>\<rparr>)"

text \<open>A datagram on the event port. \<open>data\<close> is at most the 256 bytes of the buffer.\<close>

definition on_delay_resp :: "bytes \<Rightarrow> exchange \<Rightarrow> ptp_out list \<times> exchange" where
  "on_delay_resp data s =
     (case timestamp_parse (slice data 34 44) of
        Inl _ \<Rightarrow> ([], s)
      | Inr t4 \<Rightarrow>
          ((case (ex_t1 s, ex_t2 s, ex_t3 s) of
              (Some t1v, Some t2v, Some t3v) \<Rightarrow> [PublishOffset (compute_offset t1v t2v t3v t4)]
            | _ \<Rightarrow> []),
           s\<lparr>ex_t1 := None, ex_t2 := None, ex_t3 := None\<rparr>))"

definition on_event_packet :: "bytes \<Rightarrow> u128 \<Rightarrow> exchange \<Rightarrow> ptp_out list \<times> exchange" where
  "on_event_packet data now s =
     (case header_parse data of
        Inl _ \<Rightarrow> ([], s)
      | Inr header \<Rightarrow>
          (case message_type header of
             Sync \<Rightarrow> ([], s\<lparr>ex_t2 := Some (from_nanos now)\<rparr>)
           | DelayResp \<Rightarrow> if 44 \<le> length data then on_delay_resp data s else ([], s)
           | _ \<Rightarrow> ([], s)))"

definition delay_req_packet :: "bytes \<Rightarrow> u16 \<Rightarrow> ptp_timestamp \<Rightarrow> bytes" where
  "delay_req_packet source sq t3 =
     (let delay_header = (header_new DelayReq sq)\<lparr>source_port_identity := source\<rparr>;
          delay_packet = replicate 44 0;
          delay_packet = put delay_packet 0 (header_serialize delay_header);
          delay_packet = put delay_packet 34 (timestamp_serialize t3)
      in delay_packet)"

text \<open>A datagram on the general port; \<open>source\<close> is the port identity the Delay_Req carries.\<close>

definition on_general_packet :: "bytes \<Rightarrow> bytes \<Rightarrow> u128 \<Rightarrow> exchange \<Rightarrow> ptp_out list \<times> exchange" where
  "on_general_packet source data now s =
     (case header_parse data of
        Inl _ \<Rightarrow> ([], s)
      | Inr header \<Rightarrow>
          if message_type header = FollowUp \<and> 44 \<le> length data then
            (case timestamp_parse (slice data 34 44) of
               Inl _ \<Rightarrow> ([], s)
             | Inr ts \<Rightarrow>
                 (let sq = delay_req_seq s + 1; t3 = from_nanos now in
                  ([ToEvent (delay_req_packet source sq t3)],
                   s\<lparr>ex_t1 := Some ts, ex_t3 := Some t3, delay_req_seq := sq\<rparr>)))
          else ([], s))"

section \<open>The slave task\<close>

record slave =
  sl_exchange :: exchange
  sl_clock_identity :: bytes
  sl_announce_seq :: u16
  sl_signaling_seq :: u16

datatype slave_event =
    AnnounceTick | EventRecv bytes u128 | GeneralRecv bytes u128 | RecvError

definition slave_start :: "u128 \<Rightarrow> ptp_out list \<times> slave" where
  "slave_start now =
     (let clock_identity = to_be (ucast now :: u64);
          (ann, announce_seq) = send_ptp_announce clock_identity 0 255 255;
          (sig, signaling_seq) = send_ptp_signaling clock_identity 0 (- 3) (- 2)
      in ([ToGeneral ann, ToGeneral sig],
          \<lparr>sl_exchange = exchange_new, sl_clock_identity = clock_identity,
           sl_announce_seq = announce_seq, sl_signaling_seq = signaling_seq\<rparr>))"

fun slave_step :: "slave \<Rightarrow> slave_event \<Rightarrow> ptp_out list \<times> slave" where
  "slave_step s AnnounceTick =
     (let (ann, sq) = send_ptp_announce (sl_clock_identity s) (sl_announce_seq s) 255 255
      in ([ToGeneral ann], s\<lparr>sl_announce_seq := sq\<rparr>))"
| "slave_step s (EventRecv data now) =
     (let (outs, ex) = on_event_packet (take 256 data) now (sl_exchange s)
      in (outs, s\<lparr>sl_exchange := ex\<rparr>))"
| "slave_step s (GeneralRecv data now) =
     (let (outs, ex) = on_general_packet (replicate 10 0) (take 256 data) now (sl_exchange s)
      in (outs, s\<lparr>sl_exchange := ex\<rparr>))"
| "slave_step s RecvError = ([], s)"

section \<open>The BMCA task\<close>

datatype bmca_phase = Negotiating | Syncing | BmFailed

record bmca =
  bm_master :: ip_addr
  bm_priority1 :: u8
  bm_clock_identity :: bytes
  bm_phase :: bmca_phase
  bm_exchange :: exchange
  bm_signaling_seq :: u16

text \<open>The flag of an event that can end the negotiation says whether the STOP message is sent, if there is one.\<close>

datatype bmca_event =
    Deadline bool | BmEvent ip_addr bytes u128 | BmGeneral ip_addr bytes u128 bool | BmRecvError

text \<open>The opening: three Syncs, two Announces, one signaling message; \<open>sent i\<close> says whether the \<open>i\<close>-th send
  succeeds. The first that fails is the end of the task.\<close>

definition bmca_start :: "ip_addr \<Rightarrow> u8 \<Rightarrow> u128 \<Rightarrow> (nat \<Rightarrow> u128) \<Rightarrow> (nat \<Rightarrow> bool) \<Rightarrow> ptp_out list \<times> bmca" where
  "bmca_start master_ip priority1 now sync_at sent =
     (let clock_identity = to_be (ucast now :: u64);
          round = (\<lambda>i (outs, sync_seq, announce_seq).
            let ((sync, follow), sync_seq) =
                  send_ptp_sync clock_identity sync_seq (from_nanos (sync_at i));
                outs = outs @ [ToEvent sync, ToGeneral follow]
            in if i < 2 then
                 (let (ann, announce_seq) = send_ptp_announce clock_identity announce_seq 248 priority1
                  in (outs @ [ToGeneral ann], sync_seq, announce_seq))
               else (outs, sync_seq, announce_seq));
          (outs, _, _) = fold round [0, 1, 2] ([], 0 :: u16, 0 :: u16);
          (sig, signaling_seq) = send_mac_style_signaling clock_identity 0;
          outs = outs @ [ToGeneral sig];
          good = length (takeWhile sent [0..<length outs])
      in (take (Suc good) outs,
          \<lparr>bm_master = master_ip, bm_priority1 = priority1, bm_clock_identity = clock_identity,
           bm_phase = (if good < length outs then BmFailed else Negotiating), bm_exchange = exchange_new,
           bm_signaling_seq = signaling_seq\<rparr>))"

text \<open>What follows the negotiation loop.\<close>

definition bmca_decide :: "u8 \<Rightarrow> bytes \<Rightarrow> bool \<Rightarrow> bmca \<Rightarrow> ptp_out list \<times> bmca" where
  "bmca_decide remote_priority1 remote_clock_id stop_sent s =
     (let we_are_master = bm_priority1 s < remote_priority1;
          (stop, sq) = (if we_are_master then ([], bm_signaling_seq s)
            else (let (p, sq) = send_stop_signaling (bm_clock_identity s) (bm_signaling_seq s)
                  in ([ToGeneral p], sq)));
          s = s\<lparr>bm_signaling_seq := sq\<rparr>
      in if \<not> we_are_master \<and> \<not> stop_sent then (stop, s\<lparr>bm_phase := BmFailed\<rparr>)
         else (stop @ [PublishClockId remote_clock_id], s\<lparr>bm_phase := Syncing\<rparr>))"

definition negotiate_step :: "bmca \<Rightarrow> bmca_event \<Rightarrow> ptp_out list \<times> bmca" where
  "negotiate_step s ev =
     (case ev of
        Deadline stop_sent \<Rightarrow> bmca_decide 255 (replicate 8 0) stop_sent s
      | BmRecvError \<Rightarrow> ([], s)
      | BmEvent src data now \<Rightarrow> ([], s)
      | BmGeneral src datagram now stop_sent \<Rightarrow>
          (let data = take 256 datagram in
           if src \<noteq> bm_master s then ([], s)
           else (case header_parse data of
             Inl _ \<Rightarrow> ([], s)
           | Inr header \<Rightarrow>
               if message_type header = Announce \<and> 61 \<le> length data then
                 bmca_decide (data ! 47) (slice data 53 61) stop_sent s
               else ([], s))))"

definition bmca_sync_step :: "bmca \<Rightarrow> bmca_event \<Rightarrow> ptp_out list \<times> bmca" where
  "bmca_sync_step s ev =
     (case ev of
        Deadline stop_sent \<Rightarrow> ([], s)
      | BmRecvError \<Rightarrow> ([], s)
      | BmEvent src data now \<Rightarrow>
          if src \<noteq> bm_master s then ([], s)
          else (let (outs, ex) = on_event_packet (take 256 data) now (bm_exchange s)
                in (outs, s\<lparr>bm_exchange := ex\<rparr>))
      | BmGeneral src data now stop_sent \<Rightarrow>
          if src \<noteq> bm_master s then ([], s)
          else (let (outs, ex) = on_general_packet (port_identity (bm_clock_identity s))
                  (take 256 data) now (bm_exchange s)
                in (outs, s\<lparr>bm_exchange := ex\<rparr>)))"

definition bmca_step :: "bmca \<Rightarrow> bmca_event \<Rightarrow> ptp_out list \<times> bmca" where
  "bmca_step s ev =
     (case bm_phase s of Negotiating \<Rightarrow> negotiate_step s ev | Syncing \<Rightarrow> bmca_sync_step s ev | BmFailed \<Rightarrow> ([], s))"

lemmas exchange_ops [step_defs] =
  on_event_packet_def on_delay_resp_def on_general_packet_def

lemmas bmca_ops [step_defs] =
  bmca_step_def negotiate_step_def bmca_sync_step_def bmca_decide_def

section \<open>Lemmas: the estimate\<close>

lemma half_bounds: "x sdiv 2 * 2 \<le> x + 1 \<and> x \<le> x sdiv 2 * 2 + 1" for x :: int
  by (cases "0 \<le> x") (simp add: signed_divide_int_def sgn_if, presburger)+

lemma compute_offset_value:
  fixes \<theta> d1 d2 :: int
  assumes "uint (to_nanos t2) = uint (to_nanos t1) + \<theta> + d1"
    and "uint (to_nanos t4) = uint (to_nanos t3) - \<theta> + d2"
  shows "compute_offset t1 t2 t3 t4 =
    \<lparr>offset_ns = word_of_int ((2 * \<theta> + d1 - d2) sdiv 2),
     error_ns = word_of_int (\<bar>(d1 + d2) sdiv 2\<bar> div 2),
     rtt_ns = word_of_int \<bar>(d1 + d2) sdiv 2\<bar>\<rparr>"
proof -
  have "uint (to_nanos t2) - uint (to_nanos t1) = \<theta> + d1"
    and "uint (to_nanos t3) - uint (to_nanos t4) = \<theta> - d2"
    using assms by simp_all
  moreover have "\<theta> + d1 + (\<theta> - d2) = 2 * \<theta> + d1 - d2" "\<theta> + d1 - (\<theta> - d2) = d1 + d2" by simp_all
  ultimately show ?thesis by (simp only: compute_offset_def Let_def)
qed

lemma sint_word_of_int_small:
  "- (2 ^ 63) \<le> x \<Longrightarrow> x < 2 ^ 63 \<Longrightarrow> sint (word_of_int x :: i64) = x"
  by (simp add: signed_of_int signed_take_bit_int_eq_self_iff)

lemma compute_offset_estimate:
  fixes \<theta> d1 d2 :: int
  assumes "uint (to_nanos t2) = uint (to_nanos t1) + \<theta> + d1"
    and "uint (to_nanos t4) = uint (to_nanos t3) - \<theta> + d2"
    and "0 \<le> d1" "0 \<le> d2" "d1 + d2 < 2 ^ 60" "\<bar>\<theta>\<bar> < 2 ^ 60"
  shows "\<bar>2 * sint (offset_ns (compute_offset t1 t2 t3 t4)) - (2 * \<theta> + (d1 - d2))\<bar> \<le> 1"
    and "uint (rtt_ns (compute_offset t1 t2 t3 t4)) = (d1 + d2) div 2"
proof -
  let ?x = "(2 * \<theta> + d1 - d2) sdiv 2"
  have b: "?x * 2 \<le> 2 * \<theta> + d1 - d2 + 1" "2 * \<theta> + d1 - d2 \<le> ?x * 2 + 1"
    using half_bounds [of "2 * \<theta> + d1 - d2"] by simp_all
  have "- (2 ^ 63) \<le> ?x" "?x < 2 ^ 63" using b assms(3-6) by (simp_all add: abs_if split: if_splits)
  then have "sint (word_of_int ?x :: i64) = ?x" by (rule sint_word_of_int_small)
  with b show "\<bar>2 * sint (offset_ns (compute_offset t1 t2 t3 t4)) - (2 * \<theta> + (d1 - d2))\<bar> \<le> 1"
    by (simp add: compute_offset_value [OF assms(1,2)] abs_if)
  have "\<bar>(d1 + d2) sdiv 2\<bar> = (d1 + d2) div 2"
    using assms(3,4) by (simp add: signed_divide_int_def sgn_if)
  moreover have "uint (word_of_int ((d1 + d2) div 2) :: u64) = (d1 + d2) div 2"
    using assms(3-5) by (simp add: uint_word_of_int)
  ultimately show "uint (rtt_ns (compute_offset t1 t2 t3 t4)) = (d1 + d2) div 2"
    by (simp add: compute_offset_value [OF assms(1,2)])
qed

section \<open>Lemmas: the exchange\<close>

definition ptp_packet :: "ptp_message_type \<Rightarrow> ptp_timestamp \<Rightarrow> bytes \<Rightarrow> bytes \<Rightarrow> bool" where
  "ptp_packet mt ts rest p \<longleftrightarrow> length rest \<le> 200 \<and> timestamp_ok ts \<and>
     (\<exists>h. header_ok h \<and> message_type h = mt \<and>
        p = header_serialize h @ timestamp_serialize ts @ rest)"

lemma ptp_packet_read:
  assumes "ptp_packet mt ts rest p"
  obtains h where "header_parse p = Inr h" "message_type h = mt" "take 256 p = p"
    "44 \<le> length p" "timestamp_parse (slice p 34 44) = Inr ts"
proof -
  obtain h where h: "header_ok h" "message_type h = mt"
    "p = header_serialize h @ timestamp_serialize ts @ rest" "timestamp_ok ts" "length rest \<le> 200"
    using assms by (auto simp: ptp_packet_def)
  have len: "length (header_serialize h) = 34" "length (timestamp_serialize ts) = 10"
    using ptp_headers.length_ser [OF h(1)] ptp_timestamps.length_ser [OF h(4)] .
  have "header_parse p = Inr h" using ptp_headers.parse_ser [OF h(1)] h(3) by simp
  moreover have "timestamp_parse (slice p 34 44) = Inr ts"
    using ptp_timestamps.parse_at [OF h(4) len(1), of rest] h(3) by simp
  ultimately show ?thesis using h len by (intro that) simp_all
qed

lemma exchange_run:
  assumes "ptp_packet Sync ts0 r0 sync" and "ptp_packet FollowUp t1 r1 follow"
    and "ptp_packet DelayResp t4 r4 resp"
  shows "\<exists>s' req. run_io slave_step s
      [EventRecv sync now2, GeneralRecv follow now3, EventRecv resp now4] =
    ([ToEvent req, PublishOffset (compute_offset t1 (from_nanos now2) (from_nanos now3) t4)], s') \<and>
    ex_t1 (sl_exchange s') = None \<and> ex_t2 (sl_exchange s') = None \<and> ex_t3 (sl_exchange s') = None"
  by (rule ptp_packet_read [OF assms(1)], rule ptp_packet_read [OF assms(2)],
      rule ptp_packet_read [OF assms(3)])
    (simp add: on_event_packet_def on_general_packet_def on_delay_resp_def Let_def)

text \<open>C40: one complete exchange (Sync, Follow_Up, Delay_Resp) with a master whose clock is \<open>\<theta>\<close> behind the
  local one publishes one offset: \<open>\<theta>\<close> up to half the asymmetry of the two path delays and rounding.
  The field named \<open>rtt_ns\<close> holds the mean one-way delay, half the round trip. The measurements are
  cleared, so the next offset uses new ones.\<close>

theorem ptp_slave_measures_offset:
  fixes \<theta> d1 d2 :: int
  assumes "ptp_packet Sync ts0 r0 sync" and "ptp_packet FollowUp t1 r1 follow"
    and "ptp_packet DelayResp t4 r4 resp"
    and "uint (to_nanos (from_nanos now2)) = uint (to_nanos t1) + \<theta> + d1"
    and "uint (to_nanos t4) = uint (to_nanos (from_nanos now3)) - \<theta> + d2"
    and "0 \<le> d1" and "0 \<le> d2" and "d1 + d2 < 2 ^ 60" and "\<bar>\<theta>\<bar> < 2 ^ 60"
  shows "\<exists>c s' req. run_io slave_step s
      [EventRecv sync now2, GeneralRecv follow now3, EventRecv resp now4] =
        ([ToEvent req, PublishOffset c], s') \<and>
    \<bar>2 * sint (offset_ns c) - (2 * \<theta> + (d1 - d2))\<bar> \<le> 1 \<and>
    uint (rtt_ns c) = (d1 + d2) div 2 \<and>
    ex_t1 (sl_exchange s') = None \<and> ex_t2 (sl_exchange s') = None \<and> ex_t3 (sl_exchange s') = None"
  using exchange_run [OF assms(1-3), of s now2 now3 now4] compute_offset_estimate [OF assms(4-9)]
  by blast

definition sample_packet :: "ptp_message_type \<Rightarrow> ptp_timestamp \<Rightarrow> bytes" where
  "sample_packet mt ts = header_serialize (header_new mt 1) @ timestamp_serialize ts @ []"

lemma sample_packet_ok: "timestamp_ok ts \<Longrightarrow> ptp_packet mt ts [] (sample_packet mt ts)"
  unfolding ptp_packet_def sample_packet_def
  by (intro conjI exI [of _ "header_new mt 1"]) (simp_all add: header_ok_def header_new_def)

theorem ptp_slave_measures_offset_witness:
  "\<exists>c s' req. run_io slave_step (snd (slave_start 5))
      [EventRecv (sample_packet Sync \<lparr>seconds = 0, nanoseconds = 0\<rparr>) 100000001010,
       GeneralRecv (sample_packet FollowUp \<lparr>seconds = 100, nanoseconds = 0\<rparr>) 100000002000,
       EventRecv (sample_packet DelayResp \<lparr>seconds = 100, nanoseconds = 1020\<rparr>) 100000003000] =
        ([ToEvent req, PublishOffset c], s') \<and>
    \<bar>2 * sint (offset_ns c) - (2 * 1000 + (10 - 20))\<bar> \<le> 1 \<and> uint (rtt_ns c) = (10 + 20) div 2 \<and>
    ex_t1 (sl_exchange s') = None \<and> ex_t2 (sl_exchange s') = None \<and> ex_t3 (sl_exchange s') = None"
  by (rule ptp_slave_measures_offset [OF sample_packet_ok sample_packet_ok sample_packet_ok])
    (simp_all add: timestamp_ok_def to_nanos_def from_nanos_def)

section \<open>Lemmas: applying the offset\<close>

text \<open>The offset is the local clock minus the master's, and \<open>apply_offset\<close> adds it to local time:
  the result is ahead of the local clock by the offset, while the master's time is behind it by the
  same amount. Only with equal clocks does \<open>apply_offset\<close> give the master's time.\<close>

theorem apply_offset_moves_away:
  fixes local_ns master_ns :: u64
  assumes "local_ns = master_ns + offset_ns off"
  shows "apply_offset local_ns off - local_ns = local_ns - master_ns \<and>
    (apply_offset local_ns off = master_ns \<longleftrightarrow> 2 * offset_ns off = 0)"
  using assms by (simp add: apply_offset_def)

theorem apply_offset_moves_away_witness:
  "apply_offset 1500 \<lparr>offset_ns = 500, error_ns = 0, rtt_ns = 0\<rparr> - 1500 = 1500 - 1000 \<and>
   apply_offset 1500 \<lparr>offset_ns = 500, error_ns = 0, rtt_ns = 0\<rparr> \<noteq> 1000"
  using apply_offset_moves_away [of 1500 1000 "\<lparr>offset_ns = 500, error_ns = 0, rtt_ns = 0\<rparr>"] by simp

section \<open>Lemmas: the negotiation\<close>

fun ev_source :: "bmca_event \<Rightarrow> ip_addr option" where
  "ev_source (Deadline _) = None"
| "ev_source BmRecvError = None"
| "ev_source (BmEvent src _ _) = Some src"
| "ev_source (BmGeneral src _ _ _) = Some src"

definition clock_ids :: "ptp_out list \<Rightarrow> bytes list" where
  "clock_ids outs = concat (map (\<lambda>out. case out of PublishClockId i \<Rightarrow> [i] | _ \<Rightarrow> []) outs)"

lemma clock_ids_simps [simp]:
  "clock_ids [] = []" "clock_ids (outs @ outs') = clock_ids outs @ clock_ids outs'"
  "clock_ids (PublishClockId i # outs) = i # clock_ids outs"
  "clock_ids (ToGeneral p # outs) = clock_ids outs"
  "clock_ids (ToEvent p # outs) = clock_ids outs"
  "clock_ids (PublishOffset c # outs) = clock_ids outs"
  by (simp_all add: clock_ids_def)

lemma exchange_no_clock_ids:
  "clock_ids (fst (on_event_packet d now x)) = []"
  "clock_ids (fst (on_general_packet src d now x)) = []"
  by (auto simp: on_event_packet_def on_delay_resp_def on_general_packet_def Let_def
      split: sum.split ptp_message_type.split option.split)

text \<open>The identity of the task never changes, and its sequence of published clock identities is empty
  while it negotiates and stays what it was once it synchronises.\<close>

lemma bmca_step_frame:
  "bm_master (snd (bmca_step s ev)) = bm_master s \<and>
   bm_priority1 (snd (bmca_step s ev)) = bm_priority1 s \<and>
   bm_clock_identity (snd (bmca_step s ev)) = bm_clock_identity s"
  by (auto simp: bmca_ops split_def Let_def
      split: bmca_phase.split bmca_event.split sum.split)

lemma bmca_step_publishes:
  "length (clock_ids (fst (bmca_step s ev))) =
     (if bm_phase s = Negotiating \<and> bm_phase (snd (bmca_step s ev)) = Syncing then 1 else 0)"
  "bm_phase s = Syncing \<Longrightarrow> bm_phase (snd (bmca_step s ev)) = Syncing"
  "bm_phase s = BmFailed \<Longrightarrow> bmca_step s ev = ([], s)"
  by (auto simp: bmca_ops split_def Let_def exchange_no_clock_ids
      split: bmca_phase.split bmca_event.split sum.split)

definition bmca_inv :: "ip_addr \<Rightarrow> u8 \<Rightarrow> bmca \<Rightarrow> bool" where
  "bmca_inv m p s \<longleftrightarrow> bm_master s = m \<and> bm_priority1 s = p"

interpretation bmca_run: machine "\<lambda>s ev. snd (bmca_step s ev)" "bmca_inv m p" for m p
  by unfold_locales (simp add: bmca_inv_def bmca_step_frame)

lemma run_publishes_syncing:
  "bm_phase s = Syncing \<Longrightarrow>
   clock_ids (fst (run_io bmca_step s evs)) = [] \<and> bm_phase (snd (run_io bmca_step s evs)) = Syncing"
proof (induction evs arbitrary: s)
  case (Cons ev evs)
  have "bm_phase (snd (bmca_step s ev)) = Syncing" using bmca_step_publishes(2) [OF Cons.prems] .
  moreover have "clock_ids (fst (bmca_step s ev)) = []"
    using bmca_step_publishes(1) [of s ev] Cons.prems by simp
  ultimately show ?case
    using Cons.IH [of "snd (bmca_step s ev)"] by (simp add: split_def Let_def)
qed simp

lemma run_failed: "bm_phase s = BmFailed \<Longrightarrow> run_io bmca_step s evs = ([], s)"
  by (induction evs) (simp_all add: bmca_step_publishes(3))

text \<open>The task publishes the master's clock identity at most once, exactly when it goes from the
  negotiation to the second loop; it never returns to it. A task that has failed publishes nothing.\<close>

theorem bmca_publishes_once:
  assumes "bm_phase s = Negotiating"
  shows "length (clock_ids (fst (run_io bmca_step s evs))) =
    (if bm_phase (snd (run_io bmca_step s evs)) = Syncing then 1 else 0)"
  using assms
proof (induction evs arbitrary: s)
  case (Cons ev evs)
  let ?s = "snd (bmca_step s ev)"
  show ?case
  proof (cases "bm_phase ?s")
    case Negotiating
    with Cons.IH [OF this] bmca_step_publishes(1) [of s ev] show ?thesis
      by (simp add: split_def Let_def)
  next
    case Syncing
    with run_publishes_syncing [OF this] bmca_step_publishes(1) [of s ev] Cons.prems show ?thesis
      by (simp add: split_def Let_def)
  next
    case BmFailed
    with run_failed [OF this] bmca_step_publishes(1) [of s ev] Cons.prems show ?thesis
      by (simp add: split_def Let_def)
  qed
qed simp

theorem bmca_publishes_once_witness:
  "length (clock_ids (fst (run_io bmca_step (snd (bmca_start (V4 1) 250 7 (\<lambda>_. 8) (\<lambda>_. True))) [Deadline True, Deadline True]))) =
    (if bm_phase (snd (run_io bmca_step (snd (bmca_start (V4 1) 250 7 (\<lambda>_. 8) (\<lambda>_. True))) [Deadline True, Deadline True])) =
       Syncing then 1 else 0)"
  by (rule bmca_publishes_once) (simp add: bmca_start_def split_def Let_def)

text \<open>Datagrams from any address but the master's change nothing and cause no output, in either
  phase, whatever they contain.\<close>

theorem bmca_ignores_other_peers:
  assumes "\<forall>ev \<in> set evs. ev_source ev \<noteq> None \<and> ev_source ev \<noteq> Some (bm_master s)"
  shows "run_io bmca_step s evs = ([], s)"
  using assms
proof (induction evs)
  case (Cons ev evs)
  then have "bmca_step s ev = ([], s)"
    by (cases ev) (auto simp: bmca_ops Let_def split: bmca_phase.split)
  with Cons show ?case by simp
qed simp

theorem bmca_ignores_other_peers_witness:
  "run_io bmca_step (snd (bmca_start (V4 1) 250 7 (\<lambda>_. 8) (\<lambda>_. True)))
    [BmGeneral (V4 2) (announce_packet (replicate 8 1) 1 6 1) 9 True, BmEvent (V6 3) [] 10] =
    ([], snd (bmca_start (V4 1) 250 7 (\<lambda>_. 8) (\<lambda>_. True)))"
  by (rule bmca_ignores_other_peers) (simp add: bmca_start_def split_def Let_def)

lemma announce_layout:
  assumes "length ci = 8"
  shows "announce_packet ci sq cc pri =
    header_serialize ((header_new Announce sq)\<lparr>source_port_identity := ci @ [0, 1],
      message_length := 64, log_message_interval := 1\<rparr>) @ replicate 10 0 @ to_be (37 :: i16) @
    [0, pri, cc, 0xFE] @ to_be (0xFFFF :: u16) @ [128] @ ci @ [0, 0, 0xA0]"
proof -
  let ?h = "(header_new Announce sq)\<lparr>source_port_identity := ci @ [0, 1], message_length := 64,
    log_message_interval := 1\<rparr>"
  have "header_ok ?h" using assms by (simp add: header_ok_def header_new_def)
  then have "length (header_serialize ?h) = 34" by (rule ptp_headers.length_ser)
  with assms show ?thesis
    by (simp add: announce_packet_def port_identity_layout codec_simps) (simp add: eval_nat_numeral)
qed

lemma announce_read:
  assumes "length ci = 8"
  obtains h where "header_parse (announce_packet ci sq cc pri) = Inr h" "message_type h = Announce"
    "length (announce_packet ci sq cc pri) = 64" "announce_packet ci sq cc pri ! 47 = pri"
    "slice (announce_packet ci sq cc pri) 53 61 = ci"
proof -
  let ?h = "(header_new Announce sq)\<lparr>source_port_identity := ci @ [0, 1], message_length := 64,
    log_message_interval := 1\<rparr>" and ?p = "announce_packet ci sq cc pri"
  have ok: "header_ok ?h" using assms by (simp add: header_ok_def header_new_def)
  note l = ptp_headers.length_ser [OF ok] announce_layout [OF assms, of sq cc pri]
  have "header_parse ?p = Inr ?h" unfolding l(2) by (rule ptp_headers.parse_ser [OF ok])
  moreover have "message_type ?h = Announce" by (simp add: header_new_def)
  moreover have "length ?p = 64" by (simp add: l assms)
  moreover have "?p ! 47 = pri" by (simp add: l nth_append)
  moreover have "slice ?p 53 61 = ci" using assms by (simp add: l codec_simps)
  ultimately show ?thesis by (rule that)
qed

lemma announce_decides:
  assumes "bm_phase s = Negotiating" and "length ci = 8"
  shows "fst (bmca_step s (BmGeneral (bm_master s) (announce_packet ci sq cc pri) now True)) =
    (if bm_priority1 s < pri then []
     else [ToGeneral (fst (send_stop_signaling (bm_clock_identity s) (bm_signaling_seq s)))]) @
    [PublishClockId ci]"
  by (rule announce_read [OF assms(2), of sq cc pri])
    (simp add: bmca_ops assms(1) split_def Let_def)

text \<open>When two such tasks hear each other's Announce, each publishes the other's identity, and the
  one with the larger \<open>priority1\<close> sends the STOP message; with equal priorities both send it, since
  the code compares nothing but \<open>priority1\<close>.\<close>

theorem bmca_larger_priority_yields:
  assumes "bm_phase a = Negotiating" and "bm_phase b = Negotiating"
    and "length (bm_clock_identity a) = 8" and "length (bm_clock_identity b) = 8"
  shows "\<exists>stop_a stop_b.
    fst (bmca_step a (BmGeneral (bm_master a)
      (announce_packet (bm_clock_identity b) n 248 (bm_priority1 b)) now True)) =
      stop_a @ [PublishClockId (bm_clock_identity b)] \<and>
    fst (bmca_step b (BmGeneral (bm_master b)
      (announce_packet (bm_clock_identity a) m 248 (bm_priority1 a)) now' True)) =
      stop_b @ [PublishClockId (bm_clock_identity a)] \<and>
    (stop_a = [] \<longleftrightarrow> bm_priority1 a < bm_priority1 b) \<and>
    (stop_b = [] \<longleftrightarrow> bm_priority1 b < bm_priority1 a)"
  using announce_decides [OF assms(1,4)] announce_decides [OF assms(2,3)] by simp

theorem bmca_larger_priority_yields_witness:
  "let a = snd (bmca_start (V4 1) 250 7 (\<lambda>_. 8) (\<lambda>_. True)); b = snd (bmca_start (V4 2) 250 9 (\<lambda>_. 8) (\<lambda>_. True)) in
   \<exists>stop_a stop_b.
    fst (bmca_step a (BmGeneral (bm_master a)
      (announce_packet (bm_clock_identity b) 1 248 (bm_priority1 b)) 3 True)) =
      stop_a @ [PublishClockId (bm_clock_identity b)] \<and>
    fst (bmca_step b (BmGeneral (bm_master b)
      (announce_packet (bm_clock_identity a) 1 248 (bm_priority1 a)) 4 True)) =
      stop_b @ [PublishClockId (bm_clock_identity a)] \<and>
    (stop_a = [] \<longleftrightarrow> bm_priority1 a < bm_priority1 b) \<and>
    (stop_b = [] \<longleftrightarrow> bm_priority1 b < bm_priority1 a)"
  unfolding Let_def
  by (rule bmca_larger_priority_yields) (simp_all add: bmca_start_def split_def Let_def)

text \<open>When no Announce comes before the deadline, a task with a \<open>priority1\<close> below 255 counts as the
  master: it sends no STOP and publishes the all-zero clock identity.\<close>

theorem bmca_deadline_keeps_master:
  assumes "bm_phase s = Negotiating" and "bm_priority1 s < 255"
  shows "bmca_step s (Deadline sent) = ([PublishClockId (replicate 8 0)], s\<lparr>bm_phase := Syncing\<rparr>)"
  using assms by (simp add: bmca_ops)

theorem bmca_deadline_keeps_master_witness:
  "bmca_step (snd (bmca_start (V4 1) 250 7 (\<lambda>_. 8) (\<lambda>_. True))) (Deadline False) =
    ([PublishClockId (replicate 8 0)], (snd (bmca_start (V4 1) 250 7 (\<lambda>_. 8) (\<lambda>_. True)))\<lparr>bm_phase := Syncing\<rparr>)"
  by (rule bmca_deadline_keeps_master) (simp_all add: bmca_start_def split_def Let_def)

end
