(* ===== verification/Rtsp_Msg.thy ===== *)
theory Rtsp_Msg
  imports Codec "HOL-Library.List_Lexorder" "HOL-Library.Char_ord"
begin

text \<open>
  RTSP messages: \<open>src/rtsp/request.rs\<close> (the requests the client builds, and their text) and
  \<open>src/rtsp/response.rs\<close> (the response parser). A header map is an \<open>hmap\<close>; the serialiser sorts it
  by key, so its order does not show. \<open>usize\<close> is 64 bits and wraps, as the release profile does.
\<close>

section \<open>Requests\<close>

datatype rtsp_method =
    Options | Setup | Record | Flush | Teardown | SetParameter | Post | Get | SetPeers

fun as_str :: "rtsp_method \<Rightarrow> string" where
  "as_str Options = ''OPTIONS''"
| "as_str Setup = ''SETUP''"
| "as_str Record = ''RECORD''"
| "as_str Flush = ''FLUSH''"
| "as_str Teardown = ''TEARDOWN''"
| "as_str SetParameter = ''SET_PARAMETER''"
| "as_str Post = ''POST''"
| "as_str Get = ''GET''"
| "as_str SetPeers = ''SETPEERS''"

record rtsp_request =
  rq_method :: rtsp_method
  rq_uri :: string
  rq_headers :: "(string, string) hmap"
  rq_body :: "bytes option"

definition request_new :: "rtsp_method \<Rightarrow> string \<Rightarrow> rtsp_request" where
  "request_new m uri = \<lparr>rq_method = m, rq_uri = uri, rq_headers = [], rq_body = None\<rparr>"

definition with_header :: "string \<Rightarrow> string \<Rightarrow> rtsp_request \<Rightarrow> rtsp_request" where
  "with_header k v r = r\<lparr>rq_headers := hm_insert k v (rq_headers r)\<rparr>"

definition with_body :: "bytes \<Rightarrow> rtsp_request \<Rightarrow> rtsp_request" where
  "with_body b r = r\<lparr>rq_body := Some b\<rparr>"

definition content_type_bplist :: "rtsp_request \<Rightarrow> rtsp_request" where
  "content_type_bplist r = with_header ''Content-Type'' ''application/x-apple-binary-plist'' r"

definition header_line :: "string \<times> string \<Rightarrow> string" where
  "header_line kv = fst kv @ '': '' @ snd kv @ crlf"

definition request_head :: "rtsp_request \<Rightarrow> u32 \<Rightarrow> string" where
  "request_head r cseq =
     as_str (rq_method r) @ '' '' @ rq_uri r @ '' RTSP/1.0'' @ crlf @
     ''CSeq: '' @ fmt_dec (unat cseq) @ crlf @
     (case rq_body r of None \<Rightarrow> [] | Some b \<Rightarrow> ''Content-Length: '' @ fmt_dec (length b) @ crlf) @
     concat (map header_line (sort_key fst (rq_headers r))) @ crlf"

definition request_serialize :: "rtsp_request \<Rightarrow> u32 \<Rightarrow> bytes" where
  "request_serialize r cseq =
     as_bytes (request_head r cseq) @ (case rq_body r of None \<Rightarrow> [] | Some b \<Rightarrow> b)"

definition rtp_info :: "u16 \<Rightarrow> u32 \<Rightarrow> string" where
  "rtp_info sq rtptime = ''seq='' @ fmt_dec (unat sq) @ '';rtptime='' @ fmt_dec (unat rtptime)"

definition get_info :: rtsp_request where
  "get_info = content_type_bplist (request_new Get ''/info'')"

definition options_request :: rtsp_request where
  "options_request = request_new Options ''*''"

definition setup_request :: "string \<Rightarrow> bytes \<Rightarrow> rtsp_request" where
  "setup_request uri b = with_body b (content_type_bplist (request_new Setup uri))"

definition record_request :: "string \<Rightarrow> rtsp_request" where
  "record_request uri = with_header ''X-Apple-ProtocolVersion'' ''1'' (request_new Record uri)"

definition teardown_request :: "string \<Rightarrow> rtsp_request" where
  "teardown_request uri = request_new Teardown uri"

definition flush_with_info :: "string \<Rightarrow> u16 \<Rightarrow> u32 \<Rightarrow> rtsp_request" where
  "flush_with_info uri sq rtptime =
     with_header ''RTP-Info'' (rtp_info sq rtptime) (request_new Flush uri)"

definition set_parameter_text :: "string \<Rightarrow> bytes \<Rightarrow> rtsp_request" where
  "set_parameter_text uri b =
     with_body b (with_header ''Content-Type'' ''text/parameters'' (request_new SetParameter uri))"

definition setpeers_request :: "bytes \<Rightarrow> rtsp_request" where
  "setpeers_request b =
     with_body b (content_type_bplist (request_new SetPeers ''/peer-list-changed''))"

definition record_with_info :: "string \<Rightarrow> u16 \<Rightarrow> u32 \<Rightarrow> rtsp_request" where
  "record_with_info uri sq rtptime =
     with_header ''RTP-Info'' (rtp_info sq rtptime)
       (with_header ''Range'' ''npt=0-''
         (with_header ''X-Apple-ProtocolVersion'' ''1'' (request_new Record uri)))"

definition pair_setup_request :: "bytes \<Rightarrow> string \<Rightarrow> u8 \<Rightarrow> rtsp_request" where
  "pair_setup_request b device_id hkp =
     with_body b
       (with_header ''User-Agent'' AIRPLAY_USER_AGENT
         (with_header ''Active-Remote'' AIRPLAY_ACTIVE_REMOTE
           (with_header ''DACP-ID'' (remove_char CHR '':'' device_id)
             (with_header ''X-Apple-HKP'' (fmt_dec (unat hkp))
               (with_header ''X-Apple-Device-ID'' device_id
                 (with_header ''Content-Type'' ''application/octet-stream''
                   (request_new Post ''/pair-setup'')))))))"

definition feedback_request :: "string \<Rightarrow> rtsp_request" where
  "feedback_request uri = content_type_bplist (request_new Post (uri @ ''/feedback''))"

section \<open>Responses\<close>

record rtsp_response =
  status_code :: u16
  status_text :: string
  rs_headers :: "(string, string) hmap"
  rs_body :: "bytes option"

text \<open>\<open>line.splitn(3, ' ')\<close>\<close>

definition splitn3 :: "char \<Rightarrow> string \<Rightarrow> string list" where
  "splitn3 d s =
     (case split_once d s of None \<Rightarrow> [s]
      | Some (a, s') \<Rightarrow> (case split_once d s' of None \<Rightarrow> [a, s'] | Some (b, c) \<Rightarrow> [a, b, c]))"

definition invalid_response :: "string \<Rightarrow> error fault + 'a" where
  "invalid_response msg = Inl (Fail (Rtsp (InvalidResponse msg)))"

definition parse_status_line :: "string \<Rightarrow> error fault + u16 \<times> string" where
  "parse_status_line line =
     (let parts = splitn3 CHR '' '' line in
      if length parts < 2 then invalid_response (''malformed status line: '' @ line)
      else if \<not> starts_with (parts ! 0) ''RTSP/'' then
        invalid_response (''not an RTSP response: '' @ parts ! 0)
      else (case parse_dec (parts ! 1) of
        None \<Rightarrow> invalid_response (''invalid status code: '' @ parts ! 1)
      | Some c \<Rightarrow> Inr (c, if length parts = 2 then [] else parts ! 2)))"

fun add_header_lines :: "string list \<Rightarrow> (string, string) hmap \<Rightarrow> (string, string) hmap" where
  "add_header_lines [] hs = hs"
| "add_header_lines (l # ls) hs =
     (case split_once CHR '':'' l of
        None \<Rightarrow> add_header_lines ls hs
      | Some (k, v) \<Rightarrow> add_header_lines ls (hm_insert (trim k) (trim v) hs))"

definition find_header :: "string \<Rightarrow> (string, string) hmap \<Rightarrow> string option" where
  "find_header name hs = map_option snd (find (\<lambda>kv. eq_ignore_ascii_case (fst kv) name) hs)"

definition content_length_of :: "(string, string) hmap \<Rightarrow> u64" where
  "content_length_of hs =
     (case Option.bind (find_header ''Content-Length'' hs) parse_dec of None \<Rightarrow> 0 | Some n \<Rightarrow> n)"

text \<open>
  The body: the end \<open>body_start + content_length\<close> is computed in \<open>usize\<close>; when it wraps below
  \<open>body_start\<close> the slice panics.
\<close>

definition take_body :: "bytes \<Rightarrow> nat \<Rightarrow> u64 \<Rightarrow> error fault + bytes option" where
  "take_body data body_start content_length =
     (let body_end = (body_start + unat content_length) mod 2 ^ 64 in
      if content_length = 0 then Inr None
      else if body_end \<le> length data then
        (if body_end < body_start then Inl Panic else Inr (Some (slice data body_start body_end)))
      else invalid_response (''body too short: expected '' @ fmt_dec (unat content_length) @
        '' bytes, got '' @ fmt_dec (length data - body_start)))"

definition response_parse :: "bytes \<Rightarrow> error fault + rtsp_response" where
  "response_parse data =
     (case find_sub (as_bytes (crlf @ crlf)) data of
        None \<Rightarrow> invalid_response ''missing header terminator''
      | Some header_end \<Rightarrow>
          (case from_utf8 (take header_end data) of
             None \<Rightarrow> invalid_response ''invalid UTF-8 in headers''
           | Some header_str \<Rightarrow>
               (case str_lines header_str of
                  [] \<Rightarrow> invalid_response ''missing status line''
                | status_line # lines \<Rightarrow>
                    and_then (parse_status_line status_line) (\<lambda>(c, text).
                      let headers = add_header_lines lines [] in
                      and_then (take_body data (header_end + 4) (content_length_of headers)) (\<lambda>b.
                        Inr \<lparr>status_code = c, status_text = text, rs_headers = headers,
                             rs_body = b\<rparr>)))))"

definition response_header :: "rtsp_response \<Rightarrow> string \<Rightarrow> string option" where
  "response_header r name = find_header name (rs_headers r)"

definition response_cseq :: "rtsp_response \<Rightarrow> u32 option" where
  "response_cseq r = Option.bind (response_header r ''CSeq'') parse_dec"

section \<open>Lemmas: lines\<close>

definition line_str :: "string \<Rightarrow> bool" where
  "line_str s \<longleftrightarrow> (\<forall>c \<in> set s. 32 \<le> code c \<and> code c < 127)"

lemma line_str_simps [simp]:
  "line_str []" "line_str (c # s) \<longleftrightarrow> 32 \<le> code c \<and> code c < 127 \<and> line_str s"
  "line_str (s @ t) \<longleftrightarrow> line_str s \<and> line_str t"
  by (auto simp: line_str_def)

lemma plain_line_str: "plain_str s \<Longrightarrow> line_str s"
  by (auto simp: plain_str_def line_str_def)

lemma line_str_no_crlf: "line_str s \<Longrightarrow> cr \<notin> set s \<and> nl \<notin> set s"
  by (fastforce simp: line_str_def)

text \<open>A head is its lines, each ended by CRLF.\<close>

definition head_text :: "string list \<Rightarrow> string" where
  "head_text ls = concat (map (\<lambda>l. l @ crlf) ls)"

definition head_ok :: "string list \<Rightarrow> bool" where
  "head_ok ls \<longleftrightarrow> ls \<noteq> [] \<and> (\<forall>l \<in> set ls. line_str l \<and> l \<noteq> [])"

lemma as_bytes_crlf: "as_bytes crlf = [13, 10]"
proof -
  have "(of_char cr :: u8) = 13" "(of_char nl :: u8) = 10"
    using of_nat_of_char [of cr, where 'a = "8 word"] of_nat_of_char [of nl, where 'a = "8 word"]
    by (simp_all only: code_nl_cr of_nat_numeral)
  then show ?thesis by (simp add: as_bytes_def crlf_def)
qed

lemma line_bytes: "line_str l \<Longrightarrow> 13 \<notin> set (as_bytes l)"
proof
  assume l: "line_str l" and "13 \<in> set (as_bytes l)"
  then obtain c where c: "c \<in> set l" "(of_char c :: u8) = 13" by (auto simp: as_bytes_def)
  then have "code c = unat (13 :: u8)" by (metis unat_of_char)
  with l c show False by (auto simp: line_str_def)
qed

lemma find_sub_Cons:
  assumes "take (length pat) (x # xs) \<noteq> pat"
  shows "find_sub pat (x # xs) = map_option Suc (find_sub pat xs)"
proof (cases "length (x # xs) < length pat")
  case True
  then have "find_sub pat (x # xs) = None" "find_sub pat xs = None"
    by (subst find_sub.simps, simp)+
  then show ?thesis by simp
next
  case False
  with assms show ?thesis by (subst find_sub.simps) simp
qed

lemma find_sub_skip:
  "p \<notin> set a \<Longrightarrow> find_sub (p # ps) (a @ xs) = map_option ((+) (length a)) (find_sub (p # ps) xs)"
proof (induction a)
  case Nil
  show ?case by (simp add: option.map_ident_strong)
next
  case (Cons x a)
  have short: "find_sub (p # ps) ys = None" if "length ys < Suc (length ps)" for ys
    using that by (simp add: find_sub.simps)
  show ?case
  proof (cases "length (a @ xs) < length ps")
    case True
    then show ?thesis by (simp add: find_sub.simps [of _ "x # a @ xs"] short)
  next
    case False
    with Cons show ?thesis
      by (auto simp: find_sub.simps [of _ "x # a @ xs"] option.map_comp comp_def)
  qed
qed

lemma find_crlf_step:
  "c \<noteq> 13 \<Longrightarrow> find_sub [13, 10, 13, 10 :: u8] (13 # 10 # c # xs) =
     map_option ((+) 2) (find_sub [13, 10, 13, 10] (c # xs))"
proof -
  assume c: "c \<noteq> 13"
  let ?p = "[13, 10, 13, 10 :: u8]"
  have 1: "find_sub ?p (13 # 10 # c # xs) = map_option Suc (find_sub ?p (10 # c # xs))"
    using c by (intro find_sub_Cons) simp
  have 2: "find_sub ?p (10 # c # xs) = map_option Suc (find_sub ?p (c # xs))"
    by (intro find_sub_Cons) simp
  show ?thesis unfolding 1 2 by (cases "find_sub ?p (c # xs)") simp_all
qed

lemma find_head_end:
  "head_ok ls \<Longrightarrow>
   find_sub [13, 10, 13, 10 :: u8] (as_bytes (head_text ls) @ 13 # 10 # body) =
     Some (length (head_text ls) - 2)"
proof (induction ls)
  case (Cons l ls)
  let ?p = "[13, 10, 13, 10 :: u8]"
  have l: "line_str l" "l \<noteq> []" using Cons.prems by (auto simp: head_ok_def)
  have n13: "13 \<notin> set (as_bytes l)" by (rule line_bytes [OF l(1)])
  show ?case
  proof (cases ls)
    case Nil
    have "find_sub ?p (13 # 10 # 13 # 10 # body) = Some 0" by (simp add: find_sub.simps)
    then show ?thesis
      using find_sub_skip [OF n13, of "[10, 13, 10]" "13 # 10 # 13 # 10 # body"] Nil
      by (simp add: head_text_def as_bytes_crlf) (simp add: crlf_def)
  next
    case (Cons m ms)
    then have ok: "head_ok ls" and m: "line_str m" "m \<noteq> []"
      using Cons.prems by (auto simp: head_ok_def)
    obtain c cs where rest: "as_bytes (head_text ls) = c # cs" "c \<noteq> 13"
    proof -
      obtain d ds where "m = d # ds" using m by (cases m) auto
      then have "as_bytes (head_text ls) = of_char d # as_bytes (ds @ crlf @ head_text ms)"
        using Cons by (simp add: head_text_def as_bytes_def)
      moreover have "(of_char d :: u8) \<noteq> 13"
        using line_bytes [OF m(1)] \<open>m = d # ds\<close> by (auto simp: as_bytes_def)
      ultimately show ?thesis by (rule that)
    qed
    have "2 \<le> length (head_text ls)" using ok by (cases ls) (simp_all add: head_ok_def head_text_def crlf_def)
    have e: "length (head_text (l # ls)) = length l + 2 + length (head_text ls)"
      by (simp add: head_text_def crlf_def)
    have "find_sub ?p (as_bytes (head_text (l # ls)) @ 13 # 10 # body) =
        map_option ((+) (length l)) (find_sub ?p (13 # 10 # as_bytes (head_text ls) @ 13 # 10 # body))"
      using find_sub_skip [OF n13, of "[10, 13, 10]"] by (simp add: head_text_def as_bytes_crlf)
    also have "\<dots> = Some (length l + (2 + (length (head_text ls) - 2)))"
      using Cons.IH [OF ok] rest find_crlf_step [OF rest(2)] by simp
    also have "\<dots> = Some (length (head_text (l # ls)) - 2)"
      using \<open>2 \<le> length (head_text ls)\<close> by (simp add: e)
    finally show ?thesis .
  qed
qed (simp add: head_ok_def)

lemma split_on_snoc_end:
  "c \<noteq> d \<Longrightarrow> split_on d (h @ [c, d]) = butlast (split_on d h) @ [last (split_on d h) @ [c], []]"
proof (induction h)
  case (Cons x h)
  obtain p ps where "split_on d h = p # ps" by (cases "split_on d h") auto
  with Cons show ?case by auto
qed simp

lemma split_on_head:
  "\<forall>l \<in> set ls. line_str l \<Longrightarrow> split_on nl (head_text ls) = map (\<lambda>l. l @ [cr]) ls @ [[]]"
proof (induction ls)
  case (Cons l ls)
  then have "nl \<notin> set (l @ [cr])" using line_str_no_crlf by simp
  then show ?case
    using Cons split_on_append [of nl "l @ [cr]" "head_text ls"] by (simp add: head_text_def crlf_def)
qed (simp add: head_text_def)

lemma str_lines_head:
  assumes "head_ok ls" and "head_text ls = h @ crlf" shows "str_lines h = ls"
proof -
  have "butlast (split_on nl h) @ [last (split_on nl h) @ [cr], []] = map (\<lambda>l. l @ [cr]) ls @ [[]]"
    using split_on_snoc_end [of cr nl h] split_on_head [of ls] assms
    by (simp add: head_ok_def crlf_def)
  then have e: "butlast (split_on nl h) @ [last (split_on nl h) @ [cr]] = map (\<lambda>l. l @ [cr]) ls"
    by simp
  obtain ms m where ls: "ls = ms @ [m]" using assms(1) by (cases ls rule: rev_cases) (auto simp: head_ok_def)
  have m: "m \<noteq> []" using assms(1) by (simp add: ls head_ok_def)
  have "butlast (split_on nl h) = map (\<lambda>l. l @ [cr]) ms" "last (split_on nl h) = m"
    using e by (simp_all add: ls)
  then show ?thesis using m by (simp add: str_lines_def ls chomp_cr_def comp_def)
qed

lemma head_text_split:
  assumes "head_ok ls"
  obtains h where "head_text ls = h @ crlf" "length h = length (head_text ls) - 2" "line_str (concat ls)"
    "ascii_str h"
proof -
  obtain ms m where ls: "ls = ms @ [m]" using assms by (cases ls rule: rev_cases) (auto simp: head_ok_def)
  have *: "line_str (concat ls)" using assms by (induction ls) (auto simp: head_ok_def line_str_def)
  have c: "\<forall>c \<in> set (concat ls). code c < 128" using * unfolding line_str_def by fastforce
  have "ascii_str (head_text ms @ m)"
    using c by (auto simp: ascii_str_def head_text_def ls crlf_def)
  then show ?thesis by (intro that [of "head_text ms @ m"]) (simp_all add: head_text_def ls crlf_def * [unfolded ls, simplified])
qed

section \<open>Lemmas: headers\<close>

definition header_clean :: "string \<times> string \<Rightarrow> bool" where
  "header_clean kv \<longleftrightarrow> line_str (fst kv) \<and> line_str (snd kv) \<and> CHR '':'' \<notin> set (fst kv) \<and>
     trim (fst kv) = fst kv \<and> trim (snd kv) = snd kv"

definition header_text :: "string \<times> string \<Rightarrow> string" where
  "header_text kv = fst kv @ '': '' @ snd kv"

lemma trim_space: "trim (CHR '' '' # v) = trim v"
  by (simp add: trim_def trim_start_blank ws1_def)

lemma header_split:
  "header_clean kv \<Longrightarrow> split_once CHR '':'' (header_text kv) = Some (fst kv, CHR '' '' # snd kv)"
  using split_once_append [of "CHR '':''" "fst kv" "CHR '' '' # snd kv"]
  by (simp add: header_clean_def header_text_def)

lemma header_text_ok: "header_clean kv \<Longrightarrow> line_str (header_text kv) \<and> header_text kv \<noteq> []"
  by (simp add: header_clean_def header_text_def)

lemma add_header_lines_texts:
  "\<forall>kv \<in> set kvs. header_clean kv \<Longrightarrow>
   add_header_lines (map header_text kvs) hs = fold (\<lambda>(k, v). hm_insert k v) kvs hs"
proof (induction kvs arbitrary: hs)
  case (Cons kv kvs)
  then have "header_clean kv" by simp
  with Cons show ?case
    by (simp add: header_split trim_space split_def) (simp add: header_clean_def)
qed simp

section \<open>The text of a request, read by a server\<close>

text \<open>What a receiver does with a message: find the end of the head, cut the lines, split and trim the
  headers. The rest is the body.\<close>

definition read_message :: "bytes \<Rightarrow> (string \<times> (string \<times> string) list \<times> bytes) option" where
  "read_message data =
     (case find_sub (as_bytes (crlf @ crlf)) data of
        None \<Rightarrow> None
      | Some e \<Rightarrow>
          (case str_lines (str_of (take e data)) of
             [] \<Rightarrow> None
           | l # ls \<Rightarrow> Some (l,
               concat (map (\<lambda>l. case split_once CHR '':'' l of None \<Rightarrow> []
                 | Some (k, v) \<Rightarrow> [(trim k, trim v)]) ls),
               drop (e + 4) data)))"

lemma head_found:
  assumes "head_ok ls"
  obtains h where "find_sub (as_bytes (crlf @ crlf)) (as_bytes (head_text ls @ crlf) @ body) = Some (length h)"
    "take (length h) (as_bytes (head_text ls @ crlf) @ body) = as_bytes h"
    "drop (length h + 4) (as_bytes (head_text ls @ crlf) @ body) = body"
    "str_lines h = ls" "ascii_str h" "length (head_text ls) = length h + 2"
proof -
  obtain h where h: "head_text ls = h @ crlf" "length h = length (head_text ls) - 2" "ascii_str h"
    by (rule head_text_split [OF assms])
  have "find_sub (as_bytes (crlf @ crlf)) (as_bytes (head_text ls @ crlf) @ body) = Some (length h)"
    using find_head_end [OF assms, of body] h(2) by (simp add: as_bytes_crlf)
  then show ?thesis
    by (rule that) (use str_lines_head [OF assms h(1)] h in \<open>simp_all add: as_bytes_crlf\<close>, simp add: crlf_def)
qed

lemma read_headers:
  "\<forall>kv \<in> set kvs. header_clean kv \<Longrightarrow>
   concat (map (\<lambda>l. case split_once CHR '':'' l of None \<Rightarrow> [] | Some (k, v) \<Rightarrow> [(trim k, trim v)])
     (map header_text kvs)) = kvs"
proof (induction kvs)
  case (Cons kv kvs)
  then have "header_clean kv" by simp
  with Cons show ?case by (simp add: header_split trim_space) (simp add: header_clean_def)
qed simp

definition request_clean :: "rtsp_request \<Rightarrow> bool" where
  "request_clean r \<longleftrightarrow> line_str (rq_uri r) \<and> (\<forall>kv \<in> set (rq_headers r). header_clean kv)"

text \<open>The headers a request shows on the wire, in order.\<close>

definition wire_headers :: "rtsp_request \<Rightarrow> u32 \<Rightarrow> (string \<times> string) list" where
  "wire_headers r cseq =
     [(''CSeq'', fmt_dec (unat cseq))] @
     (case rq_body r of None \<Rightarrow> [] | Some b \<Rightarrow> [(''Content-Length'', fmt_dec (length b))]) @
     sort_key fst (rq_headers r)"

definition request_line :: "rtsp_request \<Rightarrow> string" where
  "request_line r = as_str (rq_method r) @ '' '' @ rq_uri r @ '' RTSP/1.0''"

lemma header_clean_fixed:
  "header_clean (''CSeq'', fmt_dec n)" "header_clean (''Content-Length'', fmt_dec n)"
proof -
  have "trim ''CSeq'' = ''CSeq''" "trim ''Content-Length'' = ''Content-Length''"
    by (rule trim_plain, simp)+
  then show "header_clean (''CSeq'', fmt_dec n)" "header_clean (''Content-Length'', fmt_dec n)"
    by (simp_all add: header_clean_def plain_line_str trim_plain)
qed

lemma line_str_as_str: "line_str (as_str m) \<and> as_str m \<noteq> []"
  by (cases m) simp_all

lemma request_head_text:
  "request_head r cseq =
     head_text (request_line r # map header_text (wire_headers r cseq)) @ crlf"
  by (simp add: request_head_def head_text_def request_line_def wire_headers_def header_text_def
      header_line_def [abs_def] comp_def split: option.split)

lemma wire_headers_clean: "request_clean r \<Longrightarrow> \<forall>kv \<in> set (wire_headers r cseq). header_clean kv"
  by (auto simp: wire_headers_def request_clean_def header_clean_fixed split: option.splits)

lemma request_reads:
  assumes "request_clean r"
  shows "read_message (request_serialize r cseq) =
    Some (request_line r, wire_headers r cseq, case rq_body r of None \<Rightarrow> [] | Some b \<Rightarrow> b)"
proof -
  let ?ls = "request_line r # map header_text (wire_headers r cseq)"
    and ?b = "case rq_body r of None \<Rightarrow> [] | Some b \<Rightarrow> b"
  have clean: "\<forall>kv \<in> set (wire_headers r cseq). header_clean kv" by (rule wire_headers_clean [OF assms])
  have "line_str (request_line r)" "request_line r \<noteq> []"
    using assms line_str_as_str by (simp_all add: request_line_def request_clean_def)
  with clean have ok: "head_ok ?ls" using header_text_ok by (auto simp: head_ok_def)
  obtain h where h: "find_sub (as_bytes (crlf @ crlf)) (as_bytes (head_text ?ls @ crlf) @ ?b) = Some (length h)"
    "take (length h) (as_bytes (head_text ?ls @ crlf) @ ?b) = as_bytes h"
    "drop (length h + 4) (as_bytes (head_text ?ls @ crlf) @ ?b) = ?b" "str_lines h = ?ls"
    by (rule head_found [OF ok])
  have "request_serialize r cseq = as_bytes (head_text ?ls @ crlf) @ ?b"
    by (simp only: request_serialize_def request_head_text)
  then show ?thesis
    unfolding read_message_def by (simp only: h option.case str_of_as_bytes list.case read_headers [OF clean])
qed

text \<open>C35: a request written by the client is read back by a server: the request line, the headers
  (CSeq first, the length of the body when there is one, the rest sorted by name) and exactly the
  body's bytes, when no header contains control characters or blanks at its ends.\<close>

theorem request_read_back:
  assumes "request_clean r"
  shows "read_message (request_serialize r cseq) =
    Some (request_line r, wire_headers r cseq, case rq_body r of None \<Rightarrow> [] | Some b \<Rightarrow> b)"
  by (rule request_reads [OF assms])

theorem request_read_back_witness:
  "read_message (request_serialize (flush_with_info ''rtsp://10.0.0.2/X'' 7 9) 3) =
    Some (''FLUSH rtsp://10.0.0.2/X RTSP/1.0'',
      [(''CSeq'', fmt_dec 3), (''RTP-Info'', rtp_info 7 9)], [])"
proof -
  have c: "request_clean (flush_with_info ''rtsp://10.0.0.2/X'' 7 9)"
    by (simp add: request_clean_def flush_with_info_def with_header_def request_new_def hm_insert_def
        header_clean_def rtp_info_def plain_line_str trim_plain)
  show ?thesis
    using request_read_back [OF c, of 3]
    by (simp add: request_line_def wire_headers_def flush_with_info_def with_header_def
        request_new_def hm_insert_def)
qed

section \<open>Lemmas: responses\<close>

definition status_line_text :: "u16 \<Rightarrow> string \<Rightarrow> string" where
  "status_line_text c text = ''RTSP/1.0 '' @ fmt_dec (unat c) @ '' '' @ text"

lemma parse_status_line_text:
  "parse_status_line (status_line_text c text) = Inr (c, text)"
proof -
  have n: "CHR '' '' \<notin> set ''RTSP/1.0''" "CHR '' '' \<notin> set (fmt_dec (unat c))"
    using fmt_dec_digits [of "CHR '' ''" "unat c"] by auto
  have "splitn3 CHR '' '' (status_line_text c text) = [''RTSP/1.0'', fmt_dec (unat c), text]"
    using split_once_append [OF n(1), of "fmt_dec (unat c) @ '' '' @ text"]
      split_once_append [OF n(2), of "text"]
    by (simp add: splitn3_def status_line_text_def)
  then show ?thesis by (simp add: parse_status_line_def starts_with_def)
qed

definition response_bytes :: "u16 \<Rightarrow> string \<Rightarrow> (string \<times> string) list \<Rightarrow> bytes \<Rightarrow> bytes" where
  "response_bytes c text kvs b =
     as_bytes (head_text (status_line_text c text # map header_text kvs) @ crlf) @ b"

lemma response_parse_head:
  assumes "line_str text" and "\<forall>kv \<in> set kvs. header_clean kv"
  obtains n where
    "response_parse (response_bytes c text kvs b) =
      (let headers = fold (\<lambda>(k, v). hm_insert k v) kvs [] in
       and_then (take_body (response_bytes c text kvs b) n (content_length_of headers)) (\<lambda>body.
         Inr \<lparr>status_code = c, status_text = text, rs_headers = headers, rs_body = body\<rparr>))"
    "drop n (response_bytes c text kvs b) = b" "length (response_bytes c text kvs b) = n + length b"
    "4 \<le> n"
proof -
  let ?ls = "status_line_text c text # map header_text kvs"
  have "line_str (status_line_text c text)" "status_line_text c text \<noteq> []"
    using assms(1) by (simp_all add: status_line_text_def plain_line_str)
  with assms(2) have ok: "head_ok ?ls" using header_text_ok by (auto simp: head_ok_def)
  obtain h where h: "find_sub (as_bytes (crlf @ crlf)) (response_bytes c text kvs b) = Some (length h)"
    "take (length h) (response_bytes c text kvs b) = as_bytes h"
    "drop (length h + 4) (response_bytes c text kvs b) = b" "str_lines h = ?ls" "ascii_str h"
    "length (head_text ?ls) = length h + 2"
    unfolding response_bytes_def by (rule head_found [OF ok])
  have len: "length (response_bytes c text kvs b) = length h + 4 + length b"
    using h(6) by (simp add: response_bytes_def crlf_def)
  show ?thesis
    by (rule that [of "length h + 4"])
      (simp_all add: response_parse_def h(1) [simplified] h(2-) from_utf8_ascii parse_status_line_text
        add_header_lines_texts [OF assms(2)] len Let_def)
qed

lemma response_parse_gives:
  assumes "line_str text" and "\<forall>kv \<in> set kvs. header_clean kv"
    and "unat (content_length_of (fold (\<lambda>(k, v). hm_insert k v) kvs [])) = length b"
    and "length (response_bytes c text kvs b) < 2 ^ 64"
  shows "\<exists>r. response_parse (response_bytes c text kvs b) = Inr r \<and> status_code r = c \<and>
    status_text r = text \<and> (\<forall>k. hm_get (rs_headers r) k = map_of (rev kvs) k) \<and>
    rs_body r = (if b = [] then None else Some b)"
proof -
  let ?d = "response_bytes c text kvs b" and ?hs = "fold (\<lambda>(k, v). hm_insert k v) kvs []"
  obtain n where n: "response_parse ?d =
      (let headers = ?hs in and_then (take_body ?d n (content_length_of headers)) (\<lambda>body.
         Inr \<lparr>status_code = c, status_text = text, rs_headers = headers, rs_body = body\<rparr>))"
    "drop n ?d = b" "length ?d = n + length b"
    by (rule response_parse_head [OF assms(1,2)])
  have "take_body ?d n (content_length_of ?hs) = Inr (if b = [] then None else Some b)"
    using assms(3,4) n(2,3) by (auto simp: take_body_def Let_def unat_eq_0 [symmetric] slice_def)
  moreover have "hm_get ?hs k = map_of (rev kvs) k" for k
    using hm.get_ins_all [OF hm.ok_emp, of kvs k] by (simp split: option.split)
  ultimately show ?thesis by (simp add: n(1))
qed

text \<open>A response with clean headers whose Content-Length is the length of its body (or that has
  neither) is parsed to its status, its headers (the last one of a name wins) and its body.\<close>

theorem response_parse_correct:
  assumes "line_str text" and "\<forall>kv \<in> set kvs. header_clean kv"
    and "unat (content_length_of (fold (\<lambda>(k, v). hm_insert k v) kvs [])) = length b"
    and "length (response_bytes c text kvs b) < 2 ^ 64"
  shows "\<exists>r. response_parse (response_bytes c text kvs b) = Inr r \<and> status_code r = c \<and>
    status_text r = text \<and> (\<forall>k. hm_get (rs_headers r) k = map_of (rev kvs) k) \<and>
    rs_body r = (if b = [] then None else Some b)"
  by (rule response_parse_gives [OF assms])

theorem response_parse_correct_witness:
  "\<exists>r. response_parse (response_bytes 200 ''OK'' [(''CSeq'', ''3''), (''Content-Length'', fmt_dec 2)] [1, 2]) = Inr r \<and>
    status_code r = 200 \<and> status_text r = ''OK'' \<and>
    (\<forall>k. hm_get (rs_headers r) k = map_of (rev [(''CSeq'', ''3''), (''Content-Length'', fmt_dec 2)]) k) \<and>
    rs_body r = (if [1, 2 :: u8] = [] then None else Some [1, 2])"
proof (rule response_parse_correct)
  have t: "trim ''CSeq'' = ''CSeq''" "trim ''3'' = ''3''" by (rule trim_plain, simp)+
  show "\<forall>kv \<in> set [(''CSeq'', ''3''), (''Content-Length'', fmt_dec 2)]. header_clean kv"
    using header_clean_fixed by (simp add: header_clean_def t)
  have "(parse_dec (fmt_dec 2) :: u64 option) = Some 2"
    using parse_dec_fmt [of "2 :: u64"] by simp
  then show "unat (content_length_of (fold (\<lambda>(k, v). hm_insert k v)
      [(''CSeq'', ''3''), (''Content-Length'', fmt_dec 2)] [])) = length [1, 2 :: u8]"
    by (simp add: content_length_of_def find_header_def hm_insert_def eq_ignore_ascii_case_def
        ascii_lower_def)
  show "length (response_bytes 200 ''OK'' [(''CSeq'', ''3''), (''Content-Length'', fmt_dec 2)] [1, 2]) < 2 ^ 64"
    by (simp add: response_bytes_def head_text_def header_text_def status_line_text_def crlf_def
        fmt_dec_def fmt_radix.simps)
qed simp

lemma parse_usize_max: "parse_dec ''18446744073709551615'' = Some (- 1 :: u64)"
  by (simp add: parse_dec_def from_str_radix_def parse_radix_def digit_val_def Let_def)

text \<open>A response whose Content-Length is the largest \<open>usize\<close> makes \<open>RtspResponse::parse\<close> panic: the
  end of the body wraps below its start.\<close>

theorem response_parse_panics:
  "response_parse (response_bytes 200 ''OK'' [(''Content-Length'', ''18446744073709551615'')] []) = Inl Panic"
proof -
  let ?kvs = "[(''Content-Length'', ''18446744073709551615'')]"
  let ?d = "response_bytes 200 ''OK'' ?kvs []"
  have t: "trim ''Content-Length'' = ''Content-Length''"
    "trim ''18446744073709551615'' = ''18446744073709551615''"
    by (rule trim_plain, simp)+
  have clean: "\<forall>kv \<in> set ?kvs. header_clean kv" by (simp add: header_clean_def t)
  obtain n where n: "response_parse ?d =
      (let headers = fold (\<lambda>(k, v). hm_insert k v) ?kvs [] in
       and_then (take_body ?d n (content_length_of headers)) (\<lambda>body.
         Inr \<lparr>status_code = 200, status_text = ''OK'', rs_headers = headers, rs_body = body\<rparr>))"
    "length ?d = n + length ([] :: bytes)" "4 \<le> n"
    by (rule response_parse_head [OF _ clean, of "''OK''" 200 "[]"]) simp_all
  have l: "length (fmt_dec (unat (200 :: u16))) = 3" by (simp add: fmt_dec_def fmt_radix.simps)
  have c: "content_length_of (fold (\<lambda>(k, v). hm_insert k v) ?kvs []) = - 1"
    by (simp add: content_length_of_def find_header_def hm_insert_def parse_usize_max)
  have len: "length ?d < 1000"
    by (simp add: response_bytes_def head_text_def header_text_def status_line_text_def crlf_def l [simplified])
  have "take_body ?d n (- 1) = Inl Panic"
  proof -
    have "(n + unat (- 1 :: u64)) mod 2 ^ 64 = n - 1"
    proof -
      have "n + unat (- 1 :: u64) = (n - 1) + 2 ^ 64"
        using n(3) by (simp add: unsigned_minus_1_eq_mask mask_eq_exp_minus_1)
      then show ?thesis using n(2) len by (simp only: mod_add_self2) simp
    qed
    then show ?thesis using n(2,3) by (simp add: take_body_def Let_def)
  qed
  then show ?thesis by (simp only: n(1) Let_def c) simp
qed

end
