(* ===== verification/Rtsp_Conn.thy ===== *)
theory Rtsp_Conn
  imports Rtsp_Msg Chacha
begin

text \<open>
  \<open>src/rtsp/connection.rs\<close>: one request and its response over the control connection, in the clear
  or sealed. The TCP stream is the bytes the peer sends in answer to this request (\<open>inp\<close>) followed by
  an end of file (\<open>eof\<close>) or by silence; every read that would wait for more ends in the ten-second
  timeout, as does the loop that reads empty lines at the end of file.

  \<open>String::from_utf8_lossy\<close> replaces ill-formed bytes by U+FFFD; neither the raw bytes nor the
  replacement occur in a Content-Length line the code accepts, so the model keeps the bytes.
\<close>

section \<open>State\<close>

record rtsp_connection =
  conn_cseq :: u32
  conn_cipher :: "control_cipher option"
  conn_stream :: bool  \<comment> \<open>whether \<open>stream\<close> is \<open>Some\<close>\<close>
  session_headers :: "(string, string) hmap"

definition connection_new :: rtsp_connection where
  "connection_new = \<lparr>conn_cseq = 0, conn_cipher = None, conn_stream = False, session_headers = []\<rparr>"

text \<open>\<open>ok\<close>: whether the TCP connection was accepted.\<close>

definition connection_connect :: "bool \<Rightarrow> rtsp_connection \<Rightarrow> (error + unit) \<times> rtsp_connection" where
  "connection_connect accepted c =
     (if accepted then (Inr (), c\<lparr>conn_stream := True\<rparr>) else (Inl (Rtsp ConnectionRefused), c))"

definition set_cipher :: "control_cipher \<Rightarrow> rtsp_connection \<Rightarrow> rtsp_connection" where
  "set_cipher cipher c = c\<lparr>conn_cipher := Some cipher\<rparr>"

definition add_session_header :: "string \<Rightarrow> string \<Rightarrow> rtsp_connection \<Rightarrow> rtsp_connection" where
  "add_session_header k v c = c\<lparr>session_headers := hm_insert k v (session_headers c)\<rparr>"

definition next_cseq :: "rtsp_connection \<Rightarrow> u32 \<times> rtsp_connection" where
  "next_cseq c = (let n = conn_cseq c + 1 in (n, c\<lparr>conn_cseq := n\<rparr>))"

definition connection_close :: "rtsp_connection \<Rightarrow> rtsp_connection" where
  "connection_close c = c\<lparr>conn_stream := False\<rparr>"

section \<open>Reading\<close>

datatype read_error = IoError | TimedOut | Sealed crypto_error | Overflow

text \<open>The first header line named Content-Length that parses.\<close>

fun scan_content_length :: "string list \<Rightarrow> u64 option" where
  "scan_content_length [] = None"
| "scan_content_length (l # ls) =
     (case split_once CHR '':'' l of
        None \<Rightarrow> scan_content_length ls
      | Some (k, v) \<Rightarrow>
          if eq_ignore_ascii_case (trim k) ''Content-Length'' then
            (case parse_dec (trim v) of None \<Rightarrow> scan_content_length ls | Some n \<Rightarrow> Some n)
          else scan_content_length ls)"

definition head_content_length :: "bytes \<Rightarrow> nat" where
  "head_content_length head_bytes =
     (case scan_content_length (str_lines (str_of head_bytes)) of None \<Rightarrow> 0 | Some n \<Rightarrow> unat n)"

definition starve :: "bool \<Rightarrow> read_error" where
  "starve eof = (if eof then IoError else TimedOut)"

text \<open>The line loop of \<open>read_plaintext_response\<close>: the head up to the first line that is only CRLF, and
  what follows it. At the end of file \<open>read_line\<close> keeps returning nothing.\<close>

function plain_head :: "bool \<Rightarrow> bytes \<Rightarrow> bytes \<Rightarrow> read_error + bytes \<times> bytes" where
  "plain_head eof acc inp =
     (if 10 \<notin> set inp then (if eof \<and> \<not> utf8_ok inp then Inl IoError else Inl TimedOut)
      else (let line = takeWhile (\<lambda>b. b \<noteq> 10) inp @ [10]; rest = drop (length line) inp in
        if \<not> utf8_ok line then Inl IoError
        else if line = [13, 10] then Inr (acc @ line, rest)
        else plain_head eof (acc @ line) rest))"
  by pat_completeness auto
termination
  by (relation "measure (\<lambda>(eof, acc, inp). length inp)")
    (auto simp: Let_def intro!: diff_less length_pos_if_in_set)

declare plain_head.simps [simp del]

definition read_plaintext_response :: "bytes \<Rightarrow> bool \<Rightarrow> read_error + bytes" where
  "read_plaintext_response inp eof =
     and_then (plain_head eof [] inp) (\<lambda>(head_bytes, rest).
       let content_length = head_content_length head_bytes in
       if 0 < content_length then
         (if 2 ^ 63 \<le> content_length then Inl Overflow
          else if length rest < content_length then Inl (starve eof)
          else Inr (head_bytes @ take content_length rest))
       else Inr head_bytes)"

text \<open>The block loop of \<open>read_encrypted_response\<close>: the response, the cipher, the unread input.\<close>

function read_blocks ::
  "aead \<Rightarrow> bool \<Rightarrow> control_cipher \<Rightarrow> bytes \<Rightarrow> bytes \<Rightarrow> (read_error + bytes) \<times> control_cipher \<times> bytes" where
  "read_blocks a eof r acc inp =
     (if length inp < 2 then (Inl (starve eof), r, [])
      else (let block_len = (from_le (take 2 inp) :: u16); m = unat block_len + 16; rest = drop 2 inp in
        if length rest < m then (Inl (starve eof), r, [])
        else (case decrypt_block a r (take m rest) block_len of
                (Inl e, r') \<Rightarrow> (Inl (Sealed e), r', drop m rest)
              | (Inr plain_block, r') \<Rightarrow>
                  (let response_data = acc @ plain_block in
                   case find_sub (as_bytes (crlf @ crlf)) response_data of
                     None \<Rightarrow> read_blocks a eof r' response_data (drop m rest)
                   | Some e \<Rightarrow>
                       (let total_len = (e + 4 + head_content_length (take e response_data)) mod 2 ^ 64
                        in if total_len \<le> length response_data
                           then (Inr (take total_len response_data), r', drop m rest)
                           else read_blocks a eof r' response_data (drop m rest))))))"
  by pat_completeness auto
termination
  by (relation "measure (\<lambda>(a, eof, r, acc, inp). length inp)") (auto simp: Let_def)

declare read_blocks.simps [simp del]

section \<open>One exchange\<close>

definition read_error_value :: "read_error \<Rightarrow> error fault" where
  "read_error_value e =
     (case e of IoError \<Rightarrow> Fail (Connection_error ''io'') | TimedOut \<Rightarrow> Fail Timeout
      | Sealed c \<Rightarrow> Fail (Crypto c) | Overflow \<Rightarrow> Panic)"

definition with_session_headers :: "rtsp_connection \<Rightarrow> rtsp_request \<Rightarrow> rtsp_request" where
  "with_session_headers c r = fold (\<lambda>(k, v) r. with_header k v r) (session_headers c) r"

text \<open>What goes on the wire: the text of the request, sealed if there is a cipher.\<close>

definition wire_data :: "aead \<Rightarrow> rtsp_connection \<Rightarrow> bytes \<Rightarrow> (crypto_error + bytes) \<times> rtsp_connection" where
  "wire_data a c plain =
     (case conn_cipher c of
        None \<Rightarrow> (Inr plain, c)
      | Some cipher \<Rightarrow>
          (let (res, cipher') = control_encrypt a cipher plain
           in (res, c\<lparr>conn_cipher := Some cipher'\<rparr>)))"

definition read_response :: "aead \<Rightarrow> rtsp_connection \<Rightarrow> bytes \<Rightarrow> bool \<Rightarrow> (read_error + bytes) \<times> rtsp_connection" where
  "read_response a c inp eof =
     (case conn_cipher c of
        None \<Rightarrow> (read_plaintext_response inp eof, c)
      | Some cipher \<Rightarrow>
          (let (res, cipher', _) = read_blocks a eof cipher [] inp
           in (res, c\<lparr>conn_cipher := Some cipher'\<rparr>)))"

text \<open>\<open>send\<close>: the bytes written (\<open>None\<close> if it failed before), the result, the connection. \<open>written\<close>
  says whether the write succeeded.\<close>

definition connection_send ::
  "aead \<Rightarrow> rtsp_connection \<Rightarrow> rtsp_request \<Rightarrow> bool \<Rightarrow> bytes \<Rightarrow> bool \<Rightarrow>
   bytes option \<times> (error fault + rtsp_response) \<times> rtsp_connection" where
  "connection_send a c r written inp eof =
     (if \<not> conn_stream c then (None, Inl (Fail (Rtsp ConnectionRefused)), c)
      else (let r = with_session_headers c r;
                (cseq, c) = next_cseq c
            in case wire_data a c (request_serialize r cseq) of
                 (Inl e, c) \<Rightarrow> (None, Inl (Fail (Crypto e)), c)
               | (Inr wire, c) \<Rightarrow>
                   if \<not> written then (None, Inl (Fail (Connection_error ''io'')), c)
                   else (case read_response a c inp eof of
                       (Inl e, c) \<Rightarrow> (Some wire, Inl (read_error_value e), c)
                     | (Inr response_data, c) \<Rightarrow> (Some wire, response_parse response_data, c))))"

section \<open>Lemmas: sealed reads\<close>

lemma find_sub_extend: "find_sub p xs = Some i \<Longrightarrow> find_sub p (xs @ ys) = Some i"
proof (induction xs arbitrary: i)
  case Nil
  then have "p = []" by (cases p) (simp_all add: find_sub.simps)
  with Nil show ?case by (simp add: find_sub.simps [of "[]"])
next
  case (Cons x xs)
  show ?case
  proof (cases "take (length p) (x # xs) = p")
    case True
    then have "length p \<le> length (x # xs)" by (metis nat_le_linear take_all_iff)
    with True have "take (length p) (x # xs @ ys) = p" by (simp add: take_append [of _ "x # xs", simplified])
    with True Cons.prems \<open>length p \<le> length (x # xs)\<close> show ?thesis by (simp add: find_sub.simps)
  next
    case False
    then have "find_sub p (x # xs) = map_option Suc (find_sub p xs)" by (rule find_sub_Cons)
    with Cons.prems obtain j where j: "find_sub p xs = Some j" "i = Suc j" by auto
    have "length p \<le> length (x # xs)" using Cons.prems by (subst (asm) find_sub.simps) (auto split: if_splits)
    then have "take (length p) (x # xs @ ys) \<noteq> p"
      using False by (simp add: take_append [of _ "x # xs", simplified])
    then have "find_sub p (x # xs @ ys) = map_option Suc (find_sub p (xs @ ys))" by (rule find_sub_Cons)
    with Cons.IH [OF j(1)] j(2) show ?thesis by simp
  qed
qed

text \<open>A whole message: its head says where it ends.\<close>

definition complete_message :: "bytes \<Rightarrow> bool" where
  "complete_message m \<longleftrightarrow> length m < 2 ^ 64 \<and>
     (case find_sub (as_bytes (crlf @ crlf)) m of None \<Rightarrow> False
      | Some e \<Rightarrow> e + 4 + head_content_length (take e m) = length m \<and> e + 4 \<le> length m)"

lemma complete_prefix:
  assumes "complete_message m" and "m = acc @ rest" and "find_sub (as_bytes (crlf @ crlf)) acc = Some e"
  shows "(e + 4 + head_content_length (take e acc)) mod 2 ^ 64 = length m"
proof -
  have f: "find_sub (as_bytes (crlf @ crlf)) m = Some e"
    unfolding assms(2) by (rule find_sub_extend [OF assms(3)])
  have "e \<le> length acc" using find_sub_Some [OF assms(3)] by simp
  then have "take e m = take e acc" by (simp add: assms(2))
  then have "e + 4 + head_content_length (take e acc) = length m" "length m < 2 ^ 64"
    using f assms(1) by (auto simp: complete_message_def)
  then show ?thesis by simp
qed

lemma complete_last:
  "complete_message m \<Longrightarrow>
   \<exists>e. find_sub (as_bytes (crlf @ crlf)) m = Some e \<and>
     (e + 4 + head_content_length (take e m)) mod 2 ^ 64 = length m"
  using complete_prefix [of m m "[]"] by (auto simp: complete_message_def split: option.splits)

lemma read_blocks_step:
  assumes "length block \<le> MAX_BLOCK" and "length ct = length block + 16"
    and "unseal a (read_key r) (build_nonce_from_counter (decrypt_counter r))
           (to_le (word_of_nat (length block) :: u16)) ct = Some block"
    and "complete_message m" and "m = acc @ block @ rest"
  shows "read_blocks a eof r acc (sealed_block block ct @ later) =
    (let r' = r\<lparr>decrypt_counter := decrypt_counter r + 1\<rparr> in
     if rest = [] then (Inr m, r', later) else read_blocks a eof r' (acc @ block) later)"
proof -
  let ?n = "word_of_nat (length block) :: u16" and ?w = "sealed_block block ct @ later"
  let ?r = "r\<lparr>decrypt_counter := decrypt_counter r + 1\<rparr>"
  have n: "unat ?n = length block" using assms(1) by (simp add: MAX_BLOCK_def unat_of_nat)
  have t: "take 2 ?w = to_le ?n" "drop 2 ?w = ct @ later" by (simp_all add: sealed_block_def)
  have d: "decrypt_block a r ct ?n = (Inr block, ?r)"
    using assms(2,3) by (simp add: decrypt_block_def n)
  have step: "read_blocks a eof r acc ?w =
      (let response_data = acc @ block in
       case find_sub (as_bytes (crlf @ crlf)) response_data of
         None \<Rightarrow> read_blocks a eof ?r response_data later
       | Some e \<Rightarrow>
           (let total_len = (e + 4 + head_content_length (take e response_data)) mod 2 ^ 64
            in if total_len \<le> length response_data
               then (Inr (take total_len response_data), ?r, later)
               else read_blocks a eof ?r response_data later))"
    using assms(2)
    by (subst read_blocks.simps) (simp add: t n d Let_def sealed_block_def split: option.split)
  show ?thesis
  proof (cases "rest = []")
    case True
    with complete_last [OF assms(4)] assms(5) show ?thesis by (auto simp: step Let_def)
  next
    case False
    then have "length (acc @ block) < length m" using assms(5) by simp
    moreover have "m = (acc @ block) @ rest" using assms(5) by simp
    ultimately show ?thesis
      using complete_prefix [OF assms(4), of "acc @ block" rest] False
      by (auto simp: step Let_def split: option.split)
  qed
qed

lemma read_blocks_reads:
  assumes "aead_ok a" and "length (write_key c) = 32" and "read_key r = write_key c"
    and "decrypt_counter r = encrypt_counter c" and "complete_message m" and "m = acc @ rest"
    and "rest \<noteq> []"
  shows "\<exists>wire c' r'. encrypt_loop a c rest out = (Inr (out @ wire), c') \<and>
    read_blocks a eof r acc (wire @ later) = (Inr m, r', later) \<and>
    decrypt_counter r' = encrypt_counter c' \<and> write_key r' = write_key r \<and>
    read_key r' = read_key r \<and> encrypt_counter r' = encrypt_counter r"
  using assms(2-)
proof (induction "length rest" arbitrary: rest out c r acc rule: less_induct)
  case less
  let ?block = "take MAX_BLOCK rest" and ?rest = "drop MAX_BLOCK rest"
  let ?c = "c\<lparr>encrypt_counter := encrypt_counter c + 1\<rparr>"
  let ?r = "r\<lparr>decrypt_counter := decrypt_counter r + 1\<rparr>"
  obtain ct where ct:
    "seal a (write_key c) (build_nonce_from_counter (encrypt_counter c))
       (to_le (word_of_nat (length ?block) :: u16)) ?block = Some ct"
    "length ct = length ?block + 16"
    "unseal a (write_key c) (build_nonce_from_counter (encrypt_counter c))
       (to_le (word_of_nat (length ?block) :: u16)) ct = Some ?block"
    by (rule aead_okE [OF assms(1) less.prems(1), of _ ?block]) (auto simp: MAX_BLOCK_def)
  have u: "unseal a (read_key r) (build_nonce_from_counter (decrypt_counter r))
       (to_le (word_of_nat (length ?block) :: u16)) ct = Some ?block"
    using ct(3) less.prems(2,3) by simp
  have m: "m = acc @ ?block @ ?rest" using less.prems(5) by simp
  have s: "read_blocks a eof r acc (sealed_block ?block ct @ w @ later) =
      (if ?rest = [] then (Inr m, ?r, w @ later) else read_blocks a eof ?r (acc @ ?block) (w @ later))" for w
    using read_blocks_step [OF _ ct(2) u less.prems(4) m, of eof "w @ later"] by (simp add: Let_def)
  have e: "encrypt_loop a c rest out = encrypt_loop a ?c ?rest (out @ sealed_block ?block ct)"
    using ct(1) less.prems(6) by (subst encrypt_loop.simps) (simp add: Let_def sealed_block_def)
  show ?case
  proof (cases "?rest = []")
    case True
    have "encrypt_loop a ?c [] (out @ sealed_block ?block ct) = (Inr (out @ sealed_block ?block ct), ?c)"
      by (subst encrypt_loop.simps) simp
    with e s [of "[]"] True less.prems(3) show ?thesis
      by (intro exI [of _ "sealed_block ?block ct"] exI [of _ ?c] exI [of _ ?r]) simp
  next
    case False
    have "length ?rest < length rest" using less.prems(6) by (simp add: MAX_BLOCK_def)
    from less.hyps [OF this, of ?c ?r "acc @ ?block" "out @ sealed_block ?block ct"] less.prems False
    obtain wire c' r' where IH:
      "encrypt_loop a ?c ?rest (out @ sealed_block ?block ct) =
         (Inr ((out @ sealed_block ?block ct) @ wire), c')"
      "read_blocks a eof ?r (acc @ ?block) (wire @ later) = (Inr m, r', later)"
      "decrypt_counter r' = encrypt_counter c'" "write_key r' = write_key r"
      "read_key r' = read_key r" "encrypt_counter r' = encrypt_counter r"
      by auto
    with e s [of wire] False show ?thesis
      by (intro exI [of _ "sealed_block ?block ct @ wire"] exI [of _ c'] exI [of _ r']) simp
  qed
qed

lemma complete_response:
  assumes "line_str text" and "\<forall>kv \<in> set kvs. header_clean kv"
    and "(case scan_content_length (status_line_text c text # map header_text kvs) of
           None \<Rightarrow> 0 | Some n \<Rightarrow> unat n) = length b"
    and "length (response_bytes c text kvs b) < 2 ^ 64"
  shows "complete_message (response_bytes c text kvs b)"
proof -
  let ?ls = "status_line_text c text # map header_text kvs"
  have "line_str (status_line_text c text)" "status_line_text c text \<noteq> []"
    using assms(1) by (simp_all add: status_line_text_def plain_line_str)
  with assms(2) have ok: "head_ok ?ls" using header_text_ok by (auto simp: head_ok_def)
  obtain h where h: "find_sub (as_bytes (crlf @ crlf)) (response_bytes c text kvs b) = Some (length h)"
    "take (length h) (response_bytes c text kvs b) = as_bytes h" "str_lines h = ?ls"
    "length (head_text ?ls) = length h + 2"
    unfolding response_bytes_def by (rule head_found [OF ok])
  have "length (response_bytes c text kvs b) = length h + 4 + length b"
    using h(4) by (simp add: response_bytes_def crlf_def)
  then show ?thesis
    using assms(3,4) h(1,2,3) unfolding complete_message_def
    by (simp only: h(1) option.case h(2) head_content_length_def str_of_as_bytes h(3)) simp
qed

section \<open>Lemmas: reads in the clear\<close>

lemma line_bytes_small: "line_str l \<Longrightarrow> b \<in> set (as_bytes l) \<Longrightarrow> 32 \<le> unat b \<and> unat b < 127"
  by (auto simp: as_bytes_def line_str_def unat_of_char)

lemma plain_line:
  assumes "line_str l"
  shows "plain_head fin acc (as_bytes (l @ crlf) @ rest) =
    (if l = [] then Inr (acc @ [13, 10], rest) else plain_head fin (acc @ as_bytes (l @ crlf)) rest)"
proof -
  have b: "as_bytes (l @ crlf) = as_bytes l @ [13, 10]" by (simp add: as_bytes_crlf)
  have no: "10 \<notin> set (as_bytes l)" using line_bytes_small [OF assms] by force
  then have tw: "takeWhile (\<lambda>b. b \<noteq> 10) (as_bytes (l @ crlf) @ rest) = as_bytes l @ [13]"
    unfolding b by (subst append_assoc, subst takeWhile_append2) auto
  have u: "utf8_ok (as_bytes l @ [13, 10])"
    using line_bytes_small [OF assms] by (intro utf8_ok_ascii) fastforce
  have e: "as_bytes l @ [13, 10] = [13, 10] \<longleftrightarrow> l = []" by (simp add: as_bytes_def)
  have s: "10 \<in> set (as_bytes (l @ crlf) @ rest)"
    "(as_bytes l @ [13]) @ [10] = as_bytes l @ [13, 10]"
    "drop (length (as_bytes l @ [13, 10])) (as_bytes (l @ crlf) @ rest) = rest" unfolding b by simp_all
  show ?thesis
    unfolding plain_head.simps [of fin acc "as_bytes (l @ crlf) @ rest"] Let_def tw s(2,3)
    using s(1) u e b by (simp only: not_True_eq_False simp_thms if_True if_False b) (simp add: as_bytes_def)
qed

lemma plain_head_lines:
  "\<forall>l \<in> set ls. line_str l \<and> l \<noteq> [] \<Longrightarrow>
   plain_head fin acc (as_bytes (head_text ls @ crlf) @ body) = Inr (acc @ as_bytes (head_text ls @ crlf), body)"
proof (induction ls arbitrary: acc)
  case Nil
  show ?case using plain_line [of "[]" fin acc body] by (simp add: head_text_def as_bytes_crlf)
next
  case (Cons l ls)
  have "as_bytes (head_text (l # ls) @ crlf) @ body = as_bytes (l @ crlf) @ as_bytes (head_text ls @ crlf) @ body"
    by (simp add: head_text_def)
  with Cons plain_line [of l fin acc "as_bytes (head_text ls @ crlf) @ body"] show ?case
    by (simp add: head_text_def)
qed

lemma scan_content_length_snoc: "scan_content_length (ls @ [[]]) = scan_content_length ls"
  by (induction ls) (auto simp: split_once_def split: option.splits prod.splits)

lemma str_lines_blank:
  assumes "\<forall>l \<in> set ls. line_str l" shows "str_lines (head_text ls @ crlf) = ls @ [[]]"
proof -
  have "head_text ls @ crlf = head_text (ls @ [[]])" by (simp add: head_text_def)
  moreover have "\<forall>l \<in> set (ls @ [[]]). line_str l" using assms by simp
  ultimately show ?thesis
    using split_on_head [of "ls @ [[]]"] by (simp add: str_lines_def chomp_cr_def comp_def butlast_append)
qed

lemma plain_response:
  assumes "line_str text" and "\<forall>kv \<in> set kvs. header_clean kv"
    and "(case scan_content_length (status_line_text c text # map header_text kvs) of
           None \<Rightarrow> 0 | Some n \<Rightarrow> unat n) = length b"
    and "length b < 2 ^ 63"
  shows "read_plaintext_response (response_bytes c text kvs b) fin = Inr (response_bytes c text kvs b)"
proof -
  let ?ls = "status_line_text c text # map header_text kvs"
  have ok: "\<forall>l \<in> set ?ls. line_str l \<and> l \<noteq> []"
    using assms(1,2) header_text_ok by (auto simp: status_line_text_def plain_line_str)
  then have "head_content_length (as_bytes (head_text ?ls @ crlf)) = length b"
    unfolding head_content_length_def str_of_as_bytes
    by (subst str_lines_blank) (use assms(3) in \<open>simp_all only: scan_content_length_snoc, simp_all\<close>)
  then show ?thesis
    using assms(4) plain_head_lines [OF ok, of fin "[]" b]
    by (simp add: read_plaintext_response_def response_bytes_def Let_def)
qed

section \<open>One sealed exchange\<close>

text \<open>The two ends of the channel: each writes with the key the other reads with, and the counters
  agree.\<close>

definition in_step :: "control_cipher \<Rightarrow> control_cipher \<Rightarrow> bool" where
  "in_step c s \<longleftrightarrow> length (write_key c) = 32 \<and> length (write_key s) = 32 \<and>
     read_key s = write_key c \<and> read_key c = write_key s \<and>
     decrypt_counter s = encrypt_counter c \<and> decrypt_counter c = encrypt_counter s"

text \<open>Pairing leaves the two ends in step.\<close>

lemma in_step_new:
  "length k = 32 \<Longrightarrow> length l = 32 \<Longrightarrow> in_step (control_cipher_new k l) (control_cipher_new l k)"
  by (simp add: in_step_def control_cipher_new_def)

lemma open_blocks_frame:
  "open_blocks a r wire = Some (p, r') \<Longrightarrow>
   write_key r' = write_key r \<and> encrypt_counter r' = encrypt_counter r \<and> read_key r' = read_key r"
proof (induction a r wire arbitrary: p r' rule: open_blocks.induct)
  case (1 a r wire)
  show ?case
  proof (cases "wire = []")
    case True
    with "1.prems" show ?thesis by simp
  next
    case False
    let ?n = "from_le (take 2 wire) :: u16"
    let ?m = "unat ?n + 16" and ?rest = "drop 2 wire"
    from False "1.prems" have len: "\<not> length wire < 2" "\<not> length ?rest < ?m"
      by (auto simp: open_blocks.simps [of a r wire] Let_def split: if_splits)
    from False len "1.prems" obtain b r1 q where d: "decrypt_block a r (take ?m ?rest) ?n = (Inr b, r1)"
      and o: "open_blocks a r1 (drop ?m ?rest) = Some (q, r')"
      by (auto simp: open_blocks.simps [of a r wire] Let_def split: prod.splits sum.splits option.splits)
    have "write_key r1 = write_key r" "encrypt_counter r1 = encrypt_counter r" "read_key r1 = read_key r"
      using d by (auto simp: decrypt_block_def split: if_splits option.splits)
    with "1.IH" [OF False len(1) refl refl refl len(2) d [symmetric] refl o] show ?thesis by simp
  qed
qed

lemma encrypt_loop_frame:
  "encrypt_loop a c p out = (res, c') \<Longrightarrow>
   write_key c' = write_key c \<and> read_key c' = read_key c \<and> decrypt_counter c' = decrypt_counter c"
proof (induction a c p out rule: encrypt_loop.induct)
  case (1 a c p out)
  then show ?case
    by (subst (asm) (2) encrypt_loop.simps)
      (auto simp: Let_def split: if_splits option.splits)
qed


definition sample_connection :: rtsp_connection where
  "sample_connection = \<lparr>conn_cseq = 4, conn_cipher = Some (control_cipher_new (replicate 32 1) (replicate 32 2)),
     conn_stream = True, session_headers = [(''User-Agent'', AIRPLAY_USER_AGENT)]\<rparr>"


text \<open>In the clear, a peer that closes the stream before the blank line is not an error of its own:
  the line loop reads nothing for ever, and the call ends in the ten-second timeout.\<close>

theorem plaintext_eof_times_out:
  assumes "conn_stream c" and "conn_cipher c = None" and "10 \<notin> set inp" and "utf8_ok inp"
  shows "fst (snd (connection_send a c r True inp True)) = Inl (Fail Timeout)"
proof -
  have "plain_head True [] inp = Inl TimedOut"
    using assms(3,4) by (subst plain_head.simps) simp
  then show ?thesis
    using assms(1,2)
    by (simp add: connection_send_def next_cseq_def wire_data_def read_response_def
        read_plaintext_response_def read_error_value_def Let_def)
qed

theorem plaintext_eof_times_out_witness:
  "fst (snd (connection_send plain_aead (snd (connection_connect True connection_new)) get_info True [] True)) =
    Inl (Fail Timeout)"
  by (rule plaintext_eof_times_out) (simp_all add: connection_connect_def connection_new_def)

end
