(* ===== verification/Rtsp_Session.thy ===== *)
theory Rtsp_Session
  imports Codec Device
begin

text \<open>
  \<open>src/rtsp/session.rs\<close> and the message types of \<open>src/rtsp/plist_codec.rs\<close>: the RTSP session, its
  state machine and the SETUP payloads. The binary plist library is a parameter (\<open>plists\<close>), one
  function per message type; the random values of \<open>new\<close> are arguments.
\<close>

section \<open>SETUP messages\<close>

record timing_peer_info =
  tp_addresses :: "string list"
  tp_id :: string
  supports_clock_port_matching_override :: bool

record setup_phase1_request =
  p1_device_id :: string
  p1_session_uuid :: string
  p1_timing_port :: u16
  p1_timing_protocol :: string
  p1_timing_peer_info :: "timing_peer_info option"
  p1_timing_peer_list :: "timing_peer_info list option"

record setup_phase1_response =
  r1_event_port :: u16
  r1_timing_port :: u16
  r1_timing_peer_info :: "timing_peer_info option"

record stream_def =
  sd_stream_type :: u32
  sd_audio_format :: u32
  sd_audio_mode :: string
  sd_sample_rate :: u32
  sd_ct :: u8
  sd_control_port :: u16
  sd_is_media :: bool
  sd_latency_min :: u32
  sd_latency_max :: u32
  sd_shk :: bytes
  sd_asc :: "bytes option"
  sd_spf :: u32
  sd_supports_dynamic_stream_id :: bool
  sd_stream_connection_id :: u32

record setup_phase2_request =
  p2_streams :: "stream_def list"

record stream_response =
  sr_stream_type :: u32
  sr_data_port :: u16
  sr_control_port :: u16
  sr_stream_id :: i64

record setup_phase2_response =
  r2_streams :: "stream_response list"

text \<open>What the plist library gives for each type; \<open>Inl\<close> is its error text.\<close>

record plists =
  enc_phase1 :: "setup_phase1_request \<Rightarrow> string + bytes"
  dec_phase1 :: "bytes \<Rightarrow> string + setup_phase1_response"
  enc_phase2 :: "setup_phase2_request \<Rightarrow> string + bytes"
  dec_phase2 :: "bytes \<Rightarrow> string + setup_phase2_response"
  enc_strings :: "string list \<Rightarrow> string + bytes"

text \<open>\<open>plist_codec::encode\<close> and \<open>plist_codec::decode\<close>.\<close>

definition plist_codec :: "string + 'a \<Rightarrow> error + 'a" where
  "plist_codec r = map_err (\<lambda>e. Rtsp (PlistError e)) r"

section \<open>The session\<close>

datatype session_state =
    Disconnected | Connected | Paired | SetupPhase1 | Ready | Playing | Paused | TearingDown

fun show_session_state :: "session_state \<Rightarrow> string" where
  "show_session_state Disconnected = ''Disconnected''"
| "show_session_state Connected = ''Connected''"
| "show_session_state Paired = ''Paired''"
| "show_session_state SetupPhase1 = ''SetupPhase1''"
| "show_session_state Ready = ''Ready''"
| "show_session_state Playing = ''Playing''"
| "show_session_state Paused = ''Paused''"
| "show_session_state TearingDown = ''TearingDown''"

record session_ports =
  data_port :: u16
  control_port :: u16
  event_port :: u16

record rtsp_session =
  session_id :: string
  ss_state :: session_state
  client_device_id :: string
  ss_config :: stream_config
  ports :: "session_ports option"
  local_control_port :: u16
  stream_connection_id :: u32
  shk :: bytes
  request_host :: "string option"

text \<open>\<open>uuid\<close> is the text of the random UUID, \<open>key\<close> the 32 random bytes, \<open>r1\<close> and \<open>r2\<close> the two random
  words.\<close>

definition session_new :: "string \<Rightarrow> bytes \<Rightarrow> u32 \<Rightarrow> u32 \<Rightarrow> device \<Rightarrow> stream_config \<Rightarrow> rtsp_session" where
  "session_new uuid key r1 r2 dev cfg =
     \<lparr>session_id = uuid, ss_state = Disconnected, client_device_id = to_mac_string (dev_id dev),
      ss_config = cfg, ports = None, local_control_port = 49152 + ucast (r1 mod 16383),
      stream_connection_id = r2, shk = key, request_host = None\<rparr>"

definition set_client_device_id :: "string \<Rightarrow> rtsp_session \<Rightarrow> rtsp_session" where
  "set_client_device_id i s = s\<lparr>client_device_id := i\<rparr>"

definition set_request_host :: "string \<Rightarrow> rtsp_session \<Rightarrow> rtsp_session" where
  "set_request_host h s = s\<lparr>request_host := Some h\<rparr>"

definition set_local_control_port :: "u16 \<Rightarrow> rtsp_session \<Rightarrow> rtsp_session" where
  "set_local_control_port p s = s\<lparr>local_control_port := p\<rparr>"

definition request_uri :: "rtsp_session \<Rightarrow> string" where
  "request_uri s =
     (let host = (case request_host s of None \<Rightarrow> ''local'' | Some h \<Rightarrow> h);
          host = (if CHR '':'' \<in> set host \<and> \<not> starts_with host ''['' then ''['' @ host @ '']'' else host)
      in ''rtsp://'' @ host @ ''/'' @ map ascii_upper (session_id s))"

type_synonym 'a session_result = "(error + 'a) \<times> rtsp_session"

definition wrong_state :: "string \<Rightarrow> rtsp_session \<Rightarrow> 'a session_result" where
  "wrong_state what s =
     (Inl (Rtsp (SetupFailed (what @ show_session_state (ss_state s)))), s)"

definition set_connected :: "rtsp_session \<Rightarrow> unit session_result" where
  "set_connected s =
     (if ss_state s \<noteq> Disconnected then wrong_state ''Cannot connect from state '' s
      else (Inr (), s\<lparr>ss_state := Connected\<rparr>))"

definition set_paired :: "rtsp_session \<Rightarrow> unit session_result" where
  "set_paired s =
     (if ss_state s \<noteq> Connected then wrong_state ''Cannot pair from state '' s
      else (Inr (), s\<lparr>ss_state := Paired\<rparr>))"

definition phase1_request :: "rtsp_session \<Rightarrow> u16 \<Rightarrow> string list option \<Rightarrow> setup_phase1_request" where
  "phase1_request s local_timing_port local_addresses =
     (let ptp = (timing_protocol (ss_config s) = Ptp);
          peer_info = \<lparr>tp_addresses = (case local_addresses of None \<Rightarrow> [] | Some as \<Rightarrow> as),
            tp_id = session_id s, supports_clock_port_matching_override = True\<rparr>
      in \<lparr>p1_device_id = client_device_id s, p1_session_uuid = map ascii_upper (session_id s),
          p1_timing_port = local_timing_port, p1_timing_protocol = (if ptp then ''PTP'' else ''NTP''),
          p1_timing_peer_info = (if ptp then Some peer_info else None),
          p1_timing_peer_list = (if ptp then Some [peer_info] else None)\<rparr>)"

definition build_setup_phase1 :: "plists \<Rightarrow> rtsp_session \<Rightarrow> u16 \<Rightarrow> string list option \<Rightarrow> error + bytes" where
  "build_setup_phase1 pl s local_timing_port local_addresses =
     plist_codec (enc_phase1 pl (phase1_request s local_timing_port local_addresses))"

definition process_setup_phase1_response :: "plists \<Rightarrow> bytes \<Rightarrow> rtsp_session \<Rightarrow> unit session_result" where
  "process_setup_phase1_response pl response s =
     (if ss_state s \<noteq> Paired then wrong_state ''Cannot process phase 1 from state '' s
      else (case plist_codec (dec_phase1 pl response) of
        Inl e \<Rightarrow> (Inl e, s)
      | Inr r \<Rightarrow>
          (Inr (), s\<lparr>ports := Some \<lparr>data_port = 0, control_port = 0, event_port = r1_event_port r\<rparr>,
             ss_state := SetupPhase1\<rparr>)))"

definition phase2_stream :: "rtsp_session \<Rightarrow> stream_def" where
  "phase2_stream s =
     (let cfg = ss_config s; fmt = audio_format cfg;
          asc' = (case asc cfg of Some a \<Rightarrow> Some a
            | None \<Rightarrow> if codec fmt = Aac \<or> codec fmt = AacEld then Some [0x12, 0x10] else None)
      in \<lparr>sd_stream_type = word_of_nat (stream_type_code (stream_type cfg)),
          sd_audio_format = audio_format_value (codec fmt), sd_audio_mode = ''default'',
          sd_sample_rate = as_hz (sample_rate fmt), sd_ct = compression_type (codec fmt),
          sd_control_port = local_control_port s, sd_is_media = True,
          sd_latency_min = latency_min cfg, sd_latency_max = latency_max cfg, sd_shk = shk s,
          sd_asc = asc', sd_spf = frames_per_packet fmt,
          sd_supports_dynamic_stream_id = supports_dynamic_stream_id cfg,
          sd_stream_connection_id = stream_connection_id s\<rparr>)"

definition build_setup_phase2 :: "plists \<Rightarrow> rtsp_session \<Rightarrow> error + bytes" where
  "build_setup_phase2 pl s =
     (if ss_state s \<noteq> SetupPhase1 then fst (wrong_state ''Cannot build phase 2 from state '' s)
      else plist_codec (enc_phase2 pl \<lparr>p2_streams = [phase2_stream s]\<rparr>))"

definition process_setup_phase2_response :: "plists \<Rightarrow> bytes \<Rightarrow> rtsp_session \<Rightarrow> unit session_result" where
  "process_setup_phase2_response pl response s =
     (if ss_state s \<noteq> SetupPhase1 then wrong_state ''Cannot process phase 2 from state '' s
      else (case plist_codec (dec_phase2 pl response) of
        Inl e \<Rightarrow> (Inl e, s)
      | Inr r \<Rightarrow>
          (case find (\<lambda>st. sr_stream_type st = word_of_nat (stream_type_code (stream_type (ss_config s))))
                  (r2_streams r) of
             None \<Rightarrow> (Inl (Rtsp (SetupFailed ''No matching stream in phase 2 response'')), s)
           | Some st \<Rightarrow>
               (Inr (), s\<lparr>ports := map_option (\<lambda>p. p\<lparr>data_port := sr_data_port st,
                    control_port := sr_control_port st\<rparr>) (ports s), ss_state := Ready\<rparr>))))"

definition start_playing :: "rtsp_session \<Rightarrow> unit session_result" where
  "start_playing s =
     (if ss_state s \<noteq> Ready \<and> ss_state s \<noteq> Paused then
        wrong_state ''Cannot start playing from state '' s
      else (Inr (), s\<lparr>ss_state := Playing\<rparr>))"

definition session_pause :: "rtsp_session \<Rightarrow> unit session_result" where
  "session_pause s =
     (if ss_state s \<noteq> Playing then wrong_state ''Cannot pause from state '' s
      else (Inr (), s\<lparr>ss_state := Paused\<rparr>))"

definition start_teardown :: "rtsp_session \<Rightarrow> unit session_result" where
  "start_teardown s =
     (case ss_state s of
        Disconnected \<Rightarrow> (Inl (Rtsp (SetupFailed ''Not connected'')), s)
      | TearingDown \<Rightarrow> (Inl (Rtsp (SetupFailed ''Already tearing down'')), s)
      | _ \<Rightarrow> (Inr (), s\<lparr>ss_state := TearingDown\<rparr>))"

definition build_setpeers :: "plists \<Rightarrow> string list \<Rightarrow> error + bytes" where
  "build_setpeers pl peer_addresses = plist_codec (enc_strings pl peer_addresses)"

text \<open>\<open>volume_text\<close> is the dB value printed with two decimals (\<open>{:.2}\<close> of an \<open>f32\<close>).\<close>

definition build_set_volume_db :: "string \<Rightarrow> bytes" where
  "build_set_volume_db volume_text = as_bytes (''volume: '' @ volume_text @ crlf)"

lemmas rtsp_session_ops [step_defs] =
  set_connected_def set_paired_def process_setup_phase1_response_def
  process_setup_phase2_response_def start_playing_def session_pause_def start_teardown_def
  wrong_state_def

section \<open>Specification\<close>

text \<open>The life cycle of a session: the moves a successful call may make.\<close>

inductive session_edge :: "session_state \<Rightarrow> session_state \<Rightarrow> bool" where
  "session_edge Disconnected Connected"
| "session_edge Connected Paired"
| "session_edge Paired SetupPhase1"
| "session_edge SetupPhase1 Ready"
| "session_edge Ready Playing"
| "session_edge Playing Paused"
| "session_edge Paused Playing"
| "st \<noteq> Disconnected \<Longrightarrow> st \<noteq> TearingDown \<Longrightarrow> session_edge st TearingDown"

code_pred session_edge .

inductive_simps session_edge_to_playing: "session_edge st Playing"

inductive_cases session_edge_from_teardown: "session_edge TearingDown st"

datatype session_call =
    SetConnected | SetPaired | Phase1 bytes | Phase2 bytes | StartPlaying | PauseCall | Teardown

fun call_session :: "plists \<Rightarrow> rtsp_session \<Rightarrow> session_call \<Rightarrow> unit session_result" where
  "call_session pl s SetConnected = set_connected s"
| "call_session pl s SetPaired = set_paired s"
| "call_session pl s (Phase1 r) = process_setup_phase1_response pl r s"
| "call_session pl s (Phase2 r) = process_setup_phase2_response pl r s"
| "call_session pl s StartPlaying = start_playing s"
| "call_session pl s PauseCall = session_pause s"
| "call_session pl s Teardown = start_teardown s"

text \<open>Every call refines the life cycle: it moves along one of its edges, or it fails and leaves the
  whole session as it was.\<close>

theorem session_calls_refine_life_cycle:
  "case call_session pl s c of
     (Inl e, s') \<Rightarrow> s' = s
   | (Inr _, s') \<Rightarrow> session_edge (ss_state s) (ss_state s')"
  by (cases c; cases "ss_state s")
    (auto simp: rtsp_session_ops intro: session_edge.intros split: sum.split option.split)

section \<open>Lemmas\<close>

lemma local_control_port_range:
  "unat (local_control_port (session_new uuid key r1 r2 dev cfg)) = 49152 + unat r1 mod 16383"
proof -
  have b: "unat r1 mod 16383 < 16383" by simp
  then have "unat (ucast (r1 mod 16383) :: u16) = unat r1 mod 16383"
    by (simp add: unat_ucast_mod unat_mod)
  with b show ?thesis by (simp add: session_new_def unat_add_small)
qed

text \<open>Where the ports come from.\<close>

definition event_port_from :: "plists \<Rightarrow> session_ports \<Rightarrow> bool" where
  "event_port_from pl p \<longleftrightarrow> (\<exists>b r. dec_phase1 pl b = Inr r \<and> event_port p = r1_event_port r)"

definition stream_ports_from :: "plists \<Rightarrow> stream_config \<Rightarrow> session_ports \<Rightarrow> bool" where
  "stream_ports_from pl cfg p \<longleftrightarrow> (\<exists>b r st. dec_phase2 pl b = Inr r \<and> st \<in> set (r2_streams r) \<and>
     sr_stream_type st = word_of_nat (stream_type_code (stream_type cfg)) \<and>
     data_port p = sr_data_port st \<and> control_port p = sr_control_port st)"

definition rtsp_inv :: "plists \<Rightarrow> rtsp_session \<Rightarrow> bool" where
  "rtsp_inv pl s \<longleftrightarrow>
     (ss_state s \<in> {SetupPhase1, Ready, Playing, Paused} \<longrightarrow>
        (\<exists>p. ports s = Some p \<and> event_port_from pl p)) \<and>
     (ss_state s \<in> {Ready, Playing, Paused} \<longrightarrow>
        (\<exists>p. ports s = Some p \<and> stream_ports_from pl (ss_config s) p))"

lemma rtsp_inv_new: "rtsp_inv pl (session_new uuid key r1 r2 dev cfg)"
  by (simp add: rtsp_inv_def session_new_def)

lemma phase2_cases:
  obtains (err) e where "process_setup_phase2_response pl b s = (Inl e, s)"
  | (ok) r st where "ss_state s = SetupPhase1" "dec_phase2 pl b = Inr r" "st \<in> set (r2_streams r)"
      "sr_stream_type st = word_of_nat (stream_type_code (stream_type (ss_config s)))"
      "process_setup_phase2_response pl b s =
        (Inr (), s\<lparr>ports := map_option (\<lambda>p. p\<lparr>data_port := sr_data_port st,
          control_port := sr_control_port st\<rparr>) (ports s), ss_state := Ready\<rparr>)"
proof (cases "fst (process_setup_phase2_response pl b s)")
  case (Inl e)
  then have "process_setup_phase2_response pl b s = (Inl e, s)"
    by (auto simp: process_setup_phase2_response_def wrong_state_def split: if_splits sum.splits option.splits)
  then show ?thesis by (rule err)
next
  case (Inr u)
  then obtain r st where r: "ss_state s = SetupPhase1" "dec_phase2 pl b = Inr r"
    "find (\<lambda>st. sr_stream_type st = word_of_nat (stream_type_code (stream_type (ss_config s))))
       (r2_streams r) = Some st"
    by (auto simp: process_setup_phase2_response_def wrong_state_def plist_codec_def map_err_def
        split: if_splits sum.splits option.splits)
  then have "st \<in> set (r2_streams r)"
    "sr_stream_type st = word_of_nat (stream_type_code (stream_type (ss_config s)))"
    by (auto simp: find_Some_iff)
  with r show ?thesis
    by (intro ok) (simp_all add: process_setup_phase2_response_def plist_codec_def)
qed

lemma rtsp_step_inv: "rtsp_inv pl s \<Longrightarrow> rtsp_inv pl (snd (call_session pl s c))"
proof (cases c)
  case (Phase2 b)
  assume inv: "rtsp_inv pl s"
  show ?thesis
  proof (cases rule: phase2_cases [of pl b s])
    case (err e)
    with inv show ?thesis by (simp add: Phase2)
  next
    case (ok r st)
    from inv ok(1) obtain p where p: "ports s = Some p" "event_port_from pl p"
      by (auto simp: rtsp_inv_def)
    let ?p = "p\<lparr>data_port := sr_data_port st, control_port := sr_control_port st\<rparr>"
    have "event_port_from pl ?p" using p(2) by (simp add: event_port_from_def)
    moreover have "stream_ports_from pl (ss_config s) ?p"
      unfolding stream_ports_from_def using ok(2-4)
      by (intro exI [of _ b] exI [of _ r] exI [of _ st]) simp
    ultimately show ?thesis by (simp add: Phase2 ok(5) p(1) rtsp_inv_def)
  qed
next
  case (Phase1 b)
  assume "rtsp_inv pl s"
  then show ?thesis
    by (auto simp: Phase1 rtsp_inv_def process_setup_phase1_response_def wrong_state_def
        plist_codec_def map_err_def event_port_from_def split: sum.split)
qed (auto simp: rtsp_inv_def rtsp_session_ops split: session_state.splits)

interpretation rtsp_run: machine "\<lambda>s c. snd (call_session pl s c)" "rtsp_inv pl" for pl
  by unfold_locales (rule rtsp_step_inv)

text \<open>Whenever a session is playing, its ports are known: the event port is the one of a decoded
  phase-1 response, and the data and control ports are those of a stream of a decoded phase-2
  response whose type is the configured one.\<close>

theorem playing_session_has_ports:
  assumes "ss_state (foldl (\<lambda>s c. snd (call_session pl s c)) (session_new uuid key r1 r2 dev cfg) cs) = Playing"
  shows "\<exists>p. ports (foldl (\<lambda>s c. snd (call_session pl s c)) (session_new uuid key r1 r2 dev cfg) cs) = Some p \<and>
    event_port_from pl p \<and>
    stream_ports_from pl (ss_config (foldl (\<lambda>s c. snd (call_session pl s c)) (session_new uuid key r1 r2 dev cfg) cs)) p"
  using rtsp_run.run_inv [OF rtsp_inv_new, of pl uuid key r1 r2 dev cfg cs] assms
  by (auto simp: rtsp_inv_def)

text \<open>Tearing down is final: no sequence of calls leaves that state, so a session cannot be used
  for a second connection.\<close>

theorem teardown_is_final:
  assumes "ss_state s = TearingDown"
  shows "foldl (\<lambda>s c. snd (call_session pl s c)) s cs = s"
proof -
  have "snd (call_session pl s c) = s" for c
    using assms by (cases c) (simp_all add: rtsp_session_ops)
  then show ?thesis by (induction cs) simp_all
qed

text \<open>A plist library that knows one response of each kind.\<close>

definition toy_plists :: plists where
  "toy_plists = \<lparr>enc_phase1 = \<lambda>_. Inr [1], dec_phase1 = \<lambda>_. Inr \<lparr>r1_event_port = 5000,
       r1_timing_port = 0, r1_timing_peer_info = None\<rparr>,
     enc_phase2 = \<lambda>_. Inr [2], dec_phase2 = \<lambda>_. Inr \<lparr>r2_streams = [\<lparr>sr_stream_type = 96,
       sr_data_port = 6000, sr_control_port = 6001, sr_stream_id = 1\<rparr>]\<rparr>, enc_strings = \<lambda>_. Inr [3]\<rparr>"

definition set_up_calls :: "session_call list" where
  "set_up_calls = [SetConnected, SetPaired, Phase1 [], Phase2 [], StartPlaying]"

lemma toy_session_plays:
  "foldl (\<lambda>s c. snd (call_session toy_plists s c)) (session_new u k r1 r2 dev default_config) set_up_calls =
    (session_new u k r1 r2 dev default_config)\<lparr>ss_state := Playing,
      ports := Some \<lparr>data_port = 6000, control_port = 6001, event_port = 5000\<rparr>\<rparr>"
  by (simp add: set_up_calls_def rtsp_session_ops session_new_def toy_plists_def plist_codec_def
      default_config_def)

theorem playing_session_has_ports_witness:
  "\<exists>p. ports (foldl (\<lambda>s c. snd (call_session toy_plists s c))
      (session_new ''u'' [] 1 2 undefined default_config) set_up_calls) = Some p \<and>
    event_port_from toy_plists p \<and>
    stream_ports_from toy_plists (ss_config (foldl (\<lambda>s c. snd (call_session toy_plists s c))
      (session_new ''u'' [] 1 2 undefined default_config) set_up_calls)) p"
  by (rule playing_session_has_ports) (simp add: toy_session_plays)

theorem teardown_is_final_witness:
  "foldl (\<lambda>s c. snd (call_session toy_plists s c))
    ((session_new ''u'' [] 1 2 undefined default_config)\<lparr>ss_state := TearingDown\<rparr>) set_up_calls =
    (session_new ''u'' [] 1 2 undefined default_config)\<lparr>ss_state := TearingDown\<rparr>"
  by (rule teardown_is_final) simp

end
