(* ===== verification/Discovery.thy ===== *)
theory Discovery
  imports Device Errors
begin

text \<open>
  Discovery: the TXT records of \<open>_airplay._tcp\<close> and \<open>_raop._tcp\<close> read as devices
  (\<open>src/discovery/parser.rs\<close>), the browser that keeps a registry of devices under the events of the
  mDNS daemon (\<open>src/discovery/browser.rs\<close>) and the events it yields (\<open>src/discovery/traits.rs\<close>).
  The mDNS library and the UUID parser are not part of the repository: a service the library resolved
  is a record of what the code reads from it, its receive calls are the events of a turn of the loop,
  and \<open>Uuid::parse_str\<close> is the parameter \<open>parse_uuid\<close>. A failing parser returns \<open>Inl (Fail e)\<close>, a
  slice across a character \<open>Inl Panic\<close>.
\<close>

section \<open>TXT records\<close>

type_synonym txt_record = "(string, string) hmap"

text \<open>\<open>.map(f).transpose()\<close> on an optional entry.\<close>

definition try_entry :: "('a \<Rightarrow> 'e + 'b) \<Rightarrow> 'a option \<Rightarrow> 'e + 'b option" where
  "try_entry f x =
     (case x of None \<Rightarrow> Inr None | Some v \<Rightarrow> and_then (f v) (\<lambda>y. Inr (Some y)))"

definition unwrap_or :: "'a \<Rightarrow> 'a option \<Rightarrow> 'a" where
  "unwrap_or d x = (case x of None \<Rightarrow> d | Some v \<Rightarrow> v)"

definition or_else :: "'a option \<Rightarrow> 'a option \<Rightarrow> 'a option" where
  "or_else x y = (case x of None \<Rightarrow> y | Some v \<Rightarrow> Some v)"

definition txt_flag :: "txt_record \<Rightarrow> string \<Rightarrow> bool" where
  "txt_flag txt k =
     unwrap_or False (map_option (\<lambda>v. v = ''true'' \<or> v = ''1'') (hm_get txt k))"

definition parse_public_key :: "string \<Rightarrow> parse_error fault + bytes" where
  "parse_public_key hex0 =
     (let hex = trim hex0 in
      if length hex \<noteq> 64 then
        Inl (Fail (InvalidFormat
          (''public key must be 64 hex characters, got '' @ fmt_dec (length hex))))
      else collect_res (map (hex_pair hex) [0..<32]))"

definition parse_uuid_prefix :: "(string \<Rightarrow> u128 option) \<Rightarrow> string \<Rightarrow> parse_error fault + u128" where
  "parse_uuid_prefix parse_uuid v =
     (let uuid = hd (split_on CHR ''+'' v) in
      ok_or (parse_uuid uuid) (Fail (InvalidValue (''invalid UUID: '' @ v))))"

definition has_hex_prefix :: "string \<Rightarrow> bool" where
  "has_hex_prefix s \<longleftrightarrow> starts_with s ''0x'' \<or> starts_with s ''0X''"

definition parse_hex_or_decimal :: "string \<Rightarrow> u64" where
  "parse_hex_or_decimal s0 =
     (let s = trim s0 in
      if has_hex_prefix s then unwrap_or 0 (from_str_radix 16 (drop 2 s))
      else unwrap_or 0 (parse_dec s))"

definition is_ascii_digit :: "char \<Rightarrow> bool" where
  "is_ascii_digit c \<longleftrightarrow> 48 \<le> code c \<and> code c \<le> 57"

definition parse_legacy_features :: "string \<Rightarrow> parse_error + features" where
  "parse_legacy_features sf0 =
     (let sf = trim sf0 in
      if has_hex_prefix sf then ok_or (from_str_radix 16 (drop 2 sf)) (InvalidHex sf)
      else if list_all is_ascii_digit sf then
        ok_or (parse_dec sf) (InvalidValue (''invalid decimal: '' @ sf))
      else ok_or (from_str_radix 16 sf) (InvalidHex sf))"

text \<open>The comma-separated number lists \<open>et\<close>, \<open>cn\<close>, \<open>md\<close>: entries that are no \<open>u8\<close> are dropped.\<close>

definition number_list :: "string \<Rightarrow> u8 list" where
  "number_list s = List.map_filter (\<lambda>p. parse_dec (trim p)) (split_on CHR '','' s)"

definition parse_airplay_txt ::
  "(string \<Rightarrow> u128 option) \<Rightarrow> string \<Rightarrow> txt_record \<Rightarrow> ip_addr list \<Rightarrow> u16
     \<Rightarrow> parse_error fault + device" where
  "parse_airplay_txt parse_uuid name txt addrs port =
     and_then (ok_or (hm_get txt ''deviceid'') (Fail (MissingField ''deviceid''))) (\<lambda>device_id_str.
     and_then (from_mac_string device_id_str) (\<lambda>id.
     and_then (map_err Fail (try_entry from_txt_value (hm_get txt ''features''))) (\<lambda>feats.
     and_then (map_err Fail (try_entry version_parse (hm_get txt ''srcvers''))) (\<lambda>srcvers.
     and_then (try_entry parse_public_key (hm_get txt ''pk'')) (\<lambda>pk.
     and_then (map_err Fail (try_entry from_txt_value (hm_get txt ''rsf''))) (\<lambda>rsf.
     and_then (try_entry (parse_uuid_prefix parse_uuid) (hm_get txt ''gid'')) (\<lambda>gid.
     and_then (try_entry (parse_uuid_prefix parse_uuid) (hm_get txt ''pgid'')) (\<lambda>pgid.
     and_then (try_entry (parse_uuid_prefix parse_uuid) (hm_get txt ''tsid'')) (\<lambda>tsid.
     Inr \<lparr> dev_id = id, dev_name = name,
       dev_model = unwrap_or [] (hm_get txt ''model''),
       manufacturer = hm_get txt ''manufacturer'',
       serial_number = hm_get txt ''serialNumber'',
       addresses = addrs, dev_port = port,
       dev_features = unwrap_or 0 feats, required_sender_features = rsf,
       public_key = pk, source_version = unwrap_or version_default srcvers,
       firmware_version = hm_get txt ''fv'', os_version = hm_get txt ''osvers'',
       protocol_version = hm_get txt ''protovers'',
       requires_password = txt_flag txt ''pw'',
       status_flags = unwrap_or 0 (map_option parse_hex_or_decimal
         (or_else (hm_get txt ''flags'') (hm_get txt ''sf''))),
       access_control = Option.bind (hm_get txt ''acl'') parse_dec,
       pairing_identity = hm_get txt ''pi'',
       system_pairing_identity = hm_get txt ''psi'',
       bluetooth_address = hm_get txt ''btaddr'',
       homekit_home_id = hm_get txt ''hkid'',
       group_id = gid, is_group_leader = txt_flag txt ''igl'',
       group_public_name = hm_get txt ''gpn'',
       group_contains_discoverable_leader = txt_flag txt ''gcgl'',
       home_group_id = hm_get txt ''hgid'', household_id = hm_get txt ''hmid'',
       parent_group_id = pgid,
       parent_group_contains_discoverable_leader = txt_flag txt ''pgcgl'',
       tight_sync_id = tsid,
       raop_port = None, raop_encryption_types = None, raop_codecs = None,
       raop_transport = None, raop_metadata_types = None, raop_digest_auth = False,
       vodka_version = None \<rparr>)))))))))"

definition parse_raop_txt ::
  "string \<Rightarrow> txt_record \<Rightarrow> ip_addr list \<Rightarrow> u16 \<Rightarrow> parse_error fault + device" where
  "parse_raop_txt name txt addrs port =
     and_then (ok_or (split_once CHR ''@'' name)
       (Fail (InvalidFormat (''RAOP name must contain '@'' @ [CHR 0x27]))))
     (\<lambda>(mac_hex, device_name).
     and_then (from_mac_string mac_hex) (\<lambda>id.
     and_then (map_err Fail
       (case hm_get txt ''ft'' of Some ft \<Rightarrow> from_txt_value ft
        | None \<Rightarrow> (case hm_get txt ''sf'' of Some sf \<Rightarrow> parse_legacy_features sf
                  | None \<Rightarrow> Inr 0))) (\<lambda>feats.
     and_then (map_err Fail (try_entry version_parse
       (or_else (hm_get txt ''vs'') (hm_get txt ''vn'')))) (\<lambda>version.
     and_then (try_entry parse_public_key (hm_get txt ''pk'')) (\<lambda>pk.
     Inr \<lparr> dev_id = id, dev_name = device_name,
       dev_model = unwrap_or [] (or_else (hm_get txt ''am'') (hm_get txt ''model'')),
       manufacturer = None, serial_number = None,
       addresses = addrs, dev_port = port,
       dev_features = feats, required_sender_features = None,
       public_key = pk, source_version = unwrap_or version_default version,
       firmware_version = hm_get txt ''fv'', os_version = hm_get txt ''ov'',
       protocol_version = None,
       requires_password = txt_flag txt ''pw'',
       status_flags = unwrap_or 0 (map_option parse_hex_or_decimal (hm_get txt ''sf'')),
       access_control = None, pairing_identity = None, system_pairing_identity = None,
       bluetooth_address = None, homekit_home_id = None,
       group_id = None, is_group_leader = False, group_public_name = None,
       group_contains_discoverable_leader = False, home_group_id = None, household_id = None,
       parent_group_id = None, parent_group_contains_discoverable_leader = False,
       tight_sync_id = None,
       raop_port = Some port,
       raop_encryption_types = map_option number_list (hm_get txt ''et''),
       raop_codecs = map_option number_list (hm_get txt ''cn''),
       raop_transport = hm_get txt ''tp'',
       raop_metadata_types = map_option number_list (hm_get txt ''md''),
       raop_digest_auth = txt_flag txt ''da'',
       vodka_version = hm_get txt ''vv'' \<rparr>)))))"

section \<open>Merging what the two services say\<close>

fun push_addresses :: "ip_addr list \<Rightarrow> ip_addr list \<Rightarrow> ip_addr list" where
  "push_addresses as [] = as"
| "push_addresses as (a # bs) =
     push_addresses (if a \<in> set as then as else as @ [a]) bs"

text \<open>The fields that are not written here are the clones of \<open>airplay\<close>'s.\<close>

definition merge_device_info :: "device \<Rightarrow> device \<Rightarrow> device" where
  "merge_device_info airplay raop =
     airplay\<lparr> dev_model := if dev_model airplay = [] then dev_model raop else dev_model airplay,
       addresses := push_addresses (addresses airplay) (addresses raop),
       public_key := or_else (public_key airplay) (public_key raop),
       source_version := if source_version airplay = version_default then source_version raop
         else source_version airplay,
       firmware_version := or_else (firmware_version airplay) (firmware_version raop),
       os_version := or_else (os_version airplay) (os_version raop),
       requires_password := requires_password airplay \<or> requires_password raop,
       status_flags := if status_flags airplay \<noteq> 0 then status_flags airplay
         else status_flags raop,
       raop_port := raop_port raop,
       raop_encryption_types := raop_encryption_types raop,
       raop_codecs := raop_codecs raop,
       raop_transport := raop_transport raop,
       raop_metadata_types := raop_metadata_types raop,
       raop_digest_auth := raop_digest_auth raop,
       vodka_version := vodka_version raop \<rparr>"

section \<open>Lemmas: reading the records\<close>

lemma unwrap_or_simps [simp]: "unwrap_or d None = d" "unwrap_or d (Some v) = v"
  by (simp_all add: unwrap_or_def)

lemma or_else_simps [simp]: "or_else None y = y" "or_else (Some v) y = Some v"
  by (simp_all add: or_else_def)

lemma or_else_None [simp]: "or_else x None = x"
  by (cases x) simp_all

lemma try_entry_simps [simp]:
  "try_entry f None = Inr None"
  "try_entry f (Some v) = and_then (f v) (\<lambda>y. Inr (Some y))"
  by (simp_all add: try_entry_def)

lemma map_err_eq_Inr [simp]: "map_err g r = Inr x \<longleftrightarrow> r = Inr x"
  by (cases r) simp_all

lemma map_err_Fail_no_panic [simp]: "map_err Fail r \<noteq> Inl Panic"
  by (cases r) simp_all

lemma try_entry_Inr_Some:
  "try_entry f x = Inr (Some y) \<longleftrightarrow> (\<exists>v. x = Some v \<and> f v = Inr y)"
  by (cases x) (auto simp: and_then_eq_Inr)

lemma try_entry_panic: "try_entry f x = Inl Panic \<longleftrightarrow> (\<exists>v. x = Some v \<and> f v = Inl Panic)"
  by (cases x) (auto simp: and_then_eq_Inl)

text \<open>A key that is accepted has 32 bytes.\<close>

lemma parse_public_key_length: "parse_public_key s = Inr pk \<Longrightarrow> length pk = 32"
  by (auto simp: parse_public_key_def Let_def split: if_splits dest: collect_res_length)

lemma parse_public_key_no_panic:
  assumes "ascii_str (trim s)" shows "parse_public_key s \<noteq> Inl Panic"
proof
  assume "parse_public_key s = Inl Panic"
  then have len: "length (trim s) = 64" and "collect_res (map (hex_pair (trim s)) [0..<32]) = Inl Panic"
    by (auto simp: parse_public_key_def Let_def split: if_splits)
  then obtain i where "i < 32" "hex_pair (trim s) i = Inl Panic"
    using collect_res_Panic by fastforce
  with assms len hex_byte_no_panic show False by (simp add: hex_pair_def str_slice_ascii)
qed

text \<open>The hexadecimal text of a key.\<close>

definition key_text :: "bytes \<Rightarrow> string" where
  "key_text pk = concat (map fmt_hex2 pk)"

lemma plain_key_text: "plain_str (key_text pk)"
  by (induction pk) (simp_all add: key_text_def)

lemma length_key_text: "length (key_text pk) = 2 * length pk"
  by (induction pk) (simp_all add: key_text_def)

lemma slice_key_text: "i < length pk \<Longrightarrow> slice (key_text pk) (i * 2) (i * 2 + 2) = fmt_hex2 (pk ! i)"
proof (induction pk arbitrary: i)
  case Nil
  then show ?case by simp
next
  case (Cons b pk)
  show ?case
  proof (cases i)
    case 0
    then show ?thesis by (simp add: slice_def key_text_def)
  next
    case (Suc j)
    then have "slice (key_text (b # pk)) (i * 2) (i * 2 + 2) = slice (key_text pk) (j * 2) (j * 2 + 2)"
      by (simp add: slice_def key_text_def)
    with Suc Cons show ?thesis by simp
  qed
qed

text \<open>The text of a key, in blanks or not, is read back.\<close>

lemma public_key_roundtrip:
  assumes "length pk = 32" shows "parse_public_key (key_text pk) = Inr pk"
proof -
  have t: "trim (key_text pk) = key_text pk" by (rule trim_plain [OF plain_key_text])
  have "hex_pair (key_text pk) i = Inr (pk ! i)" if "i < 32" for i
    using that assms slice_key_text [of i pk]
    by (simp add: hex_pair_def str_slice_ascii plain_ascii [OF plain_key_text] length_key_text)
  then have m: "map (hex_pair (key_text pk)) [0..<32] = map (\<lambda>i. Inr (pk ! i)) [0..<32]" by simp
  have n: "map (\<lambda>i. pk ! i) [0..<32] = pk" using assms by (metis map_nth)
  show ?thesis by (simp add: parse_public_key_def t length_key_text assms m n)
qed

section \<open>Lemmas: the parsed device\<close>

definition key_ok :: "device \<Rightarrow> bool" where
  "key_ok d \<longleftrightarrow> id_ok (dev_id d) \<and> (\<forall>pk. public_key d = Some pk \<longrightarrow> length pk = 32)"

lemma parse_airplay_ok:
  "parse_airplay_txt p name txt addrs port = Inr d \<Longrightarrow>
     key_ok d \<and> addresses d = addrs \<and> dev_port d = port \<and> dev_name d = name \<and> raop_port d = None"
  by (auto simp: parse_airplay_txt_def and_then_eq_Inr key_ok_def try_entry_Inr_Some
      dest: from_mac_string_ok parse_public_key_length)

lemma parse_raop_ok:
  "parse_raop_txt name txt addrs port = Inr d \<Longrightarrow>
     key_ok d \<and> addresses d = addrs \<and> dev_port d = port \<and> raop_port d = Some port"
  by (auto simp: parse_raop_txt_def and_then_eq_Inr key_ok_def try_entry_Inr_Some
      dest: from_mac_string_ok parse_public_key_length)

lemma parse_raop_id:
  assumes "parse_raop_txt name txt addrs port = Inr d"
  shows "CHR ''@'' \<in> set name \<and>
    from_mac_string (takeWhile (\<lambda>c. c \<noteq> CHR ''@'') name) = Inr (dev_id d)"
  using assms
  by (auto simp: parse_raop_txt_def and_then_eq_Inr split_once_def split: if_splits)

lemma hd_split_on: "hd (split_on d s) = takeWhile (\<lambda>c. c \<noteq> d) s"
  by (induction s) (auto split: list.splits)

text \<open>Entries of plain ASCII never make a parser panic.\<close>

definition txt_ascii :: "txt_record \<Rightarrow> bool" where
  "txt_ascii txt \<longleftrightarrow> (\<forall>k v. hm_get txt k = Some v \<longrightarrow> ascii_str (trim v))"

lemma parse_uuid_no_panic: "parse_uuid_prefix p v \<noteq> Inl Panic"
  by (cases "p (hd (split_on CHR ''+'' v))") (auto simp: parse_uuid_prefix_def Let_def)

lemma parse_airplay_no_panic:
  "txt_ascii txt \<Longrightarrow> parse_airplay_txt p name txt addrs port \<noteq> Inl Panic"
  by (cases "hm_get txt ''deviceid''")
    (auto simp: parse_airplay_txt_def and_then_eq_Inl try_entry_panic txt_ascii_def parse_uuid_no_panic
      dest: parse_public_key_no_panic from_mac_string_ascii_no_panic)

lemma parse_raop_no_panic:
  assumes "txt_ascii txt" and "ascii_str (trim (takeWhile (\<lambda>c. c \<noteq> CHR ''@'') name))"
  shows "parse_raop_txt name txt addrs port \<noteq> Inl Panic"
  using assms
  by (auto simp: parse_raop_txt_def and_then_eq_Inl try_entry_panic txt_ascii_def split_once_def
      dest: parse_public_key_no_panic from_mac_string_ascii_no_panic split: if_splits)

section \<open>Lemmas: merging\<close>

lemma set_push_addresses [simp]: "set (push_addresses as bs) = set as \<union> set bs"
  by (induction as bs rule: push_addresses.induct) auto

lemma push_addresses_nil [simp]: "push_addresses as bs = [] \<longleftrightarrow> as = [] \<and> bs = []"
  by (metis set_empty set_push_addresses sup_bot.neutr_eq_iff)

lemma distinct_push_addresses [simp]: "distinct (push_addresses as bs) \<longleftrightarrow> distinct as"
  by (induction as bs rule: push_addresses.induct) auto

lemma push_addresses_absorb: "set bs \<subseteq> set as \<Longrightarrow> push_addresses as bs = as"
  by (induction as bs rule: push_addresses.induct) auto

lemma merge_simps [simp]:
  "dev_id (merge_device_info a r) = dev_id a"
  "dev_name (merge_device_info a r) = dev_name a"
  "dev_port (merge_device_info a r) = dev_port a"
  "raop_port (merge_device_info a r) = raop_port r"
  "set (addresses (merge_device_info a r)) = set (addresses a) \<union> set (addresses r)"
  "addresses (merge_device_info a r) = [] \<longleftrightarrow> addresses a = [] \<and> addresses r = []"
  by (simp_all add: merge_device_info_def)

lemma merge_key_ok: "key_ok a \<Longrightarrow> key_ok r \<Longrightarrow> key_ok (merge_device_info a r)"
  by (auto simp: key_ok_def merge_device_info_def or_else_def split: option.splits)

text \<open>Merging the same answer a second time, from either service, changes nothing.\<close>

lemma merge_raop_again: "merge_device_info (merge_device_info a r) r = merge_device_info a r"
  by (cases a; cases r) (auto simp: merge_device_info_def push_addresses_absorb or_else_def
      split: option.splits)

lemma push_addresses_append: "push_addresses as (bs @ cs) = push_addresses (push_addresses as bs) cs"
  by (induction as bs rule: push_addresses.induct) simp_all

lemma push_addresses_fresh:
  "distinct zs \<Longrightarrow> set zs \<inter> set as = {} \<Longrightarrow> push_addresses as zs = as @ zs"
  by (induction as zs rule: push_addresses.induct) auto

lemma push_addresses_new:
  "\<exists>zs. push_addresses as bs = as @ zs \<and> distinct zs \<and> set zs \<inter> set as = {}"
proof (induction as bs rule: push_addresses.induct)
  case (2 as a bs)
  then obtain zs where "push_addresses (if a \<in> set as then as else as @ [a]) bs =
      (if a \<in> set as then as else as @ [a]) @ zs" "distinct zs"
      "set zs \<inter> set (if a \<in> set as then as else as @ [a]) = {}" by blast
  then show ?case
    by (cases "a \<in> set as") (auto intro!: exI [of _ "a # zs"])
qed simp

lemma push_addresses_twice [simp]:
  "push_addresses as (push_addresses as bs) = push_addresses as bs"
proof -
  obtain zs where "push_addresses as bs = as @ zs" "distinct zs" "set zs \<inter> set as = {}"
    using push_addresses_new by blast
  then show ?thesis by (simp add: push_addresses_append push_addresses_absorb push_addresses_fresh)
qed

lemma merge_airplay_again:
  "merge_device_info a (merge_device_info a r) = merge_device_info a r"
  by (cases a; cases r) (auto simp: merge_device_info_def or_else_def split: option.splits)

end
