(* ===== verification/Browser.thy ===== *)
theory Browser
  imports Discovery
begin

text \<open>
  The browser (\<open>src/discovery/browser.rs\<close>) and the events it yields (\<open>src/discovery/traits.rs\<close>):
  \<open>ServiceBrowser\<close> is the registry it shares with the streams and the \<open>running\<close> flag, the two
  browse loops are recursions over their turns. One turn is the flag (and, for \<open>scan\<close>, the clock)
  read at its head and the outcome of the two receives, an event or nothing within the time-out.
  A panic unwinds the loop; what an unwound turn leaves in the shared registry is not modelled.
\<close>

section \<open>The registry and its events\<close>

datatype browse_event =
    Added (event_device: device)
  | Updated (event_device: device)
  | Removed (event_id: device_id)

definition browse_event_device :: "browse_event \<Rightarrow> device option" where
  "browse_event_device ev =
     (case ev of Added d \<Rightarrow> Some d | Updated d \<Rightarrow> Some d | Removed _ \<Rightarrow> None)"

definition browse_event_device_id :: "browse_event \<Rightarrow> device_id" where
  "browse_event_device_id ev =
     (case ev of Added d \<Rightarrow> dev_id d | Updated d \<Rightarrow> dev_id d | Removed gone \<Rightarrow> gone)"

definition is_added :: "browse_event \<Rightarrow> bool" where
  "is_added ev = (case ev of Added _ \<Rightarrow> True | _ \<Rightarrow> False)"

definition is_updated :: "browse_event \<Rightarrow> bool" where
  "is_updated ev = (case ev of Updated _ \<Rightarrow> True | _ \<Rightarrow> False)"

definition is_removed :: "browse_event \<Rightarrow> bool" where
  "is_removed ev = (case ev of Removed _ \<Rightarrow> True | _ \<Rightarrow> False)"

text \<open>What the code reads of \<open>mdns_sd::ServiceInfo\<close>.\<close>

record service_info =
  fullname :: string
  info_port :: u16
  info_addresses :: "ip_addr list"
  properties :: "(string \<times> string) list"

datatype service_event =
    ServiceResolved service_info
  | ServiceRemoved string string
  | SearchStarted string
  | SearchStopped string
  | OtherServiceEvent

type_synonym registry = "(device_id, device) hmap"

definition collect_txt :: "(string \<times> string) list \<Rightarrow> txt_record" where
  "collect_txt props = foldl (\<lambda>m (k, v). hm_insert k v m) [] props"

text \<open>Not every parse error is one: \<open>Ok(None)\<close> of the result is the logged failure.\<close>

definition parse_service_event ::
  "(string \<Rightarrow> u128 option) \<Rightarrow> service_info \<Rightarrow> bool \<Rightarrow> parse_error fault + device option" where
  "parse_service_event parse_uuid info is_raop =
     (if info_addresses info = [] then Inr None
      else
        (let txt = collect_txt (properties info);
             service_name = hd (split_on CHR ''.'' (fullname info));
             result = (if is_raop
               then parse_raop_txt service_name txt (info_addresses info) (info_port info)
               else parse_airplay_txt parse_uuid service_name txt (info_addresses info) (info_port info))
         in case result of
              Inr device \<Rightarrow> Inr (Some device)
            | Inl (Fail e) \<Rightarrow> Inr None
            | Inl Panic \<Rightarrow> Inl Panic))"

definition extract_device_id_from_removal ::
  "string \<Rightarrow> bool \<Rightarrow> parse_error fault + device_id option" where
  "extract_device_id_from_removal name is_raop =
     (let service_name = hd (split_on CHR ''.'' name) in
      if is_raop then
        (case from_mac_string (hd (split_on CHR ''@'' service_name)) of
           Inr gone \<Rightarrow> Inr (Some gone)
         | Inl (Fail e) \<Rightarrow> Inr None
         | Inl Panic \<Rightarrow> Inl Panic)
      else Inr None)"

definition store_resolved :: "bool \<Rightarrow> device \<Rightarrow> registry \<Rightarrow> browse_event option \<times> registry" where
  "store_resolved is_raop device devices =
     (case hm_get devices (dev_id device) of
        None \<Rightarrow> (Some (Added device), hm_insert (dev_id device) device devices)
      | Some existing \<Rightarrow>
          (let merged = (if is_raop then merge_device_info existing device
                         else merge_device_info device existing)
           in (Some (Updated merged), hm_insert (dev_id device) merged devices)))"

definition handle_service_event ::
  "(string \<Rightarrow> u128 option) \<Rightarrow> service_event \<Rightarrow> bool \<Rightarrow> registry
     \<Rightarrow> parse_error fault + browse_event option \<times> registry" where
  "handle_service_event parse_uuid ev is_raop devices =
     (case ev of
        ServiceResolved info \<Rightarrow>
          and_then (parse_service_event parse_uuid info is_raop) (\<lambda>parsed.
            case parsed of
              Some device \<Rightarrow> Inr (store_resolved is_raop device devices)
            | None \<Rightarrow> Inr (None, devices))
      | ServiceRemoved _ name \<Rightarrow>
          and_then (extract_device_id_from_removal name is_raop) (\<lambda>found.
            case found of
              Some gone \<Rightarrow>
                if hm_get devices gone \<noteq> None then Inr (Some (Removed gone), hm_remove gone devices)
                else Inr (None, devices)
            | None \<Rightarrow> Inr (None, devices))
      | SearchStarted _ \<Rightarrow> Inr (None, devices)
      | SearchStopped _ \<Rightarrow> Inr (None, devices)
      | OtherServiceEvent \<Rightarrow> Inr (None, devices))"

section \<open>The browse loops\<close>

record browser =
  browser_devices :: registry
  browser_running :: bool

definition service_browser_new :: browser where
  "service_browser_new = \<lparr> browser_devices = [], browser_running = False \<rparr>"

text \<open>What one receive yields: nothing, if it timed out or the event is not for the client.\<close>

definition browse_recv ::
  "(string \<Rightarrow> u128 option) \<Rightarrow> bool \<Rightarrow> service_event option \<Rightarrow> registry
     \<Rightarrow> parse_error fault + browse_event list \<times> registry" where
  "browse_recv parse_uuid is_raop received devices =
     (case received of
        None \<Rightarrow> Inr ([], devices)
      | Some ev \<Rightarrow> and_then (handle_service_event parse_uuid ev is_raop devices)
          (\<lambda>(yielded, devices'). Inr (case yielded of None \<Rightarrow> [] | Some be \<Rightarrow> [be], devices')))"

definition browse_turn ::
  "(string \<Rightarrow> u128 option) \<Rightarrow> service_event option \<Rightarrow> service_event option \<Rightarrow> registry
     \<Rightarrow> parse_error fault + browse_event list \<times> registry" where
  "browse_turn parse_uuid airplay raop devices =
     and_then (browse_recv parse_uuid False airplay devices) (\<lambda>(outs1, devices1).
     and_then (browse_recv parse_uuid True raop devices1) (\<lambda>(outs2, devices2).
       Inr (outs1 @ outs2, devices2)))"

text \<open>
  The stream of \<open>browse\<close>, over the turns that happen: the flag (another task may clear it) and the
  two receives.
\<close>

fun browse_stream ::
  "(string \<Rightarrow> u128 option) \<Rightarrow> (bool \<times> service_event option \<times> service_event option) list
     \<Rightarrow> registry \<Rightarrow> parse_error fault + browse_event list \<times> registry" where
  "browse_stream p [] devices = Inr ([], devices)"
| "browse_stream p ((running, airplay, raop) # turns) devices =
     (if \<not> running then Inr ([], devices)
      else and_then (browse_turn p airplay raop devices) (\<lambda>(outs, devices').
           and_then (browse_stream p turns devices') (\<lambda>(later, devices'').
             Inr (outs @ later, devices''))))"

text \<open>\<open>browse\<close> itself, with the outcomes of the two \<open>daemon.browse\<close> calls: the flag is raised first.\<close>

definition browse :: "string option \<Rightarrow> string option \<Rightarrow> browser \<Rightarrow> (error + unit) \<times> browser" where
  "browse airplay_err raop_err b0 =
     (let b = b0\<lparr>browser_running := True\<rparr> in
      case airplay_err of
        Some e \<Rightarrow> (Inl (Discovery (Daemon (''Failed to browse AirPlay: '' @ e))), b)
      | None \<Rightarrow>
      (case raop_err of
        Some e \<Rightarrow> (Inl (Discovery (Daemon (''Failed to browse RAOP: '' @ e))), b)
      | None \<Rightarrow> (Inr (), b)))"

text \<open>
  The loop of \<open>scan\<close>. A turn also has the time elapsed when its condition is read. \<open>None\<close> means that
  the turns of the list are over and the loop is still running.
\<close>

record scan_turn =
  elapsed :: nat
  still_running :: bool
  airplay_recv :: "service_event option"
  raop_recv :: "service_event option"

fun scan_loop ::
  "(string \<Rightarrow> u128 option) \<Rightarrow> nat \<Rightarrow> scan_turn list \<Rightarrow> registry
     \<Rightarrow> (parse_error fault + registry) option" where
  "scan_loop p timeout [] devices = None"
| "scan_loop p timeout (t # turns) devices =
     (if elapsed t < timeout \<and> still_running t then
        (case browse_turn p (airplay_recv t) (raop_recv t) devices of
           Inl e \<Rightarrow> Some (Inl e)
         | Inr (outs, devices') \<Rightarrow> scan_loop p timeout turns devices')
      else Some (Inr devices))"

text \<open>\<open>scan\<close>, with the outcomes of the two \<open>daemon.browse\<close> calls.\<close>

definition scan ::
  "(string \<Rightarrow> u128 option) \<Rightarrow> string option \<Rightarrow> string option \<Rightarrow> nat \<Rightarrow> scan_turn list \<Rightarrow> browser
     \<Rightarrow> (error fault + device list) option \<times> browser" where
  "scan p airplay_err raop_err timeout turns b0 =
     (let b = b0\<lparr>browser_running := True\<rparr> in
      case airplay_err of
        Some e \<Rightarrow> (Some (Inl (Fail (Discovery (Daemon (''Failed to browse AirPlay: '' @ e))))), b)
      | None \<Rightarrow>
      (case raop_err of
        Some e \<Rightarrow> (Some (Inl (Fail (Discovery (Daemon (''Failed to browse RAOP: '' @ e))))), b)
      | None \<Rightarrow>
      (case scan_loop p timeout turns (browser_devices b) of
        None \<Rightarrow> (None, b)
      | Some (Inl e) \<Rightarrow> (Some (Inl Panic), b)
      | Some (Inr devices) \<Rightarrow>
          (Some (Inr (map snd devices)), b\<lparr>browser_devices := devices, browser_running := False\<rparr>))))"

definition browser_stop :: "browser \<Rightarrow> browser" where
  "browser_stop b = b\<lparr>browser_running := False\<rparr>"

definition get_device :: "browser \<Rightarrow> device_id \<Rightarrow> device option" where
  "get_device b k = hm_get (browser_devices b) k"

definition get_all_devices :: "browser \<Rightarrow> device list" where
  "get_all_devices b = map snd (browser_devices b)"

text \<open>The flag is shared: a scan that ends lowers it under a stream that is being browsed, which then ends at its
  next turn without an error.\<close>

lemma scan_ends_the_browsing:
  assumes "browse None None b0 = (Inr (), b)" and "scan p airplay_err raop_err timeout turns b = (Some (Inr ds), b')"
  shows "browse_stream p ((browser_running b', airplay, raop) # turns2) (browser_devices b') = Inr ([], browser_devices b')"
  using assms by (auto simp: scan_def Let_def split: option.splits sum.splits)

section \<open>What every stored device satisfies\<close>

definition device_ok :: "device_id \<Rightarrow> device \<Rightarrow> bool" where
  "device_ok k d \<longleftrightarrow> dev_id d = k \<and> key_ok d \<and> addresses d \<noteq> []"

definition registry_ok :: "registry \<Rightarrow> bool" where
  "registry_ok m \<longleftrightarrow> hm_ok m \<and> (\<forall>k d. hm_get m k = Some d \<longrightarrow> device_ok k d)"

lemma registry_ok_empty [simp]: "registry_ok []"
  by (simp add: registry_ok_def)

lemma registry_ok_insert: "registry_ok m \<Longrightarrow> device_ok k d \<Longrightarrow> registry_ok (hm_insert k d m)"
  by (auto simp: registry_ok_def)

lemma registry_ok_remove: "registry_ok m \<Longrightarrow> registry_ok (hm_remove k m)"
  by (auto simp: registry_ok_def)

lemma parse_service_event_ok:
  "parse_service_event p info is_raop = Inr (Some d) \<Longrightarrow> device_ok (dev_id d) d"
  by (auto simp: parse_service_event_def device_ok_def Let_def
      split: if_splits sum.splits fault.splits dest: parse_airplay_ok parse_raop_ok)

lemma merge_device_ok:
  "device_ok k a \<Longrightarrow> device_ok k r \<Longrightarrow> device_ok k (merge_device_info a r)"
  by (simp add: device_ok_def merge_key_ok)

lemma store_resolved_ok:
  assumes "registry_ok m" and "device_ok (dev_id d) d"
  shows "registry_ok (snd (store_resolved is_raop d m))"
  using assms
  by (auto simp: store_resolved_def Let_def split: option.splits
      intro!: registry_ok_insert merge_device_ok) (auto simp: registry_ok_def device_ok_def)

lemma handle_event_ok:
  "handle_service_event p ev is_raop m = Inr (be, m') \<Longrightarrow> registry_ok m \<Longrightarrow> registry_ok m'"
proof (cases ev)
  case (ServiceResolved info)
  assume *: "handle_service_event p ev is_raop m = Inr (be, m')" "registry_ok m"
  then consider "m' = m" | d where "parse_service_event p info is_raop = Inr (Some d)"
      "m' = snd (store_resolved is_raop d m)"
    by (auto simp: handle_service_event_def ServiceResolved and_then_eq_Inr split: option.splits)
  then show ?thesis using * store_resolved_ok parse_service_event_ok by cases blast+
qed (auto simp: handle_service_event_def and_then_eq_Inr split: option.splits if_splits
    intro: registry_ok_remove)

section \<open>The client's view\<close>

text \<open>
  A client that follows the stream keeps a map of its own: what it is told was added or updated goes
  in, what it is told was removed goes out.
\<close>

definition apply_browse_event :: "(device_id \<rightharpoonup> device) \<Rightarrow> browse_event \<Rightarrow> (device_id \<rightharpoonup> device)" where
  "apply_browse_event view ev =
     (case ev of Added d \<Rightarrow> view(dev_id d \<mapsto> d) | Updated d \<Rightarrow> view(dev_id d \<mapsto> d)
      | Removed gone \<Rightarrow> view(gone := None))"

text \<open>An event is truthful for a view: an addition is new, an update and a removal are of a known
  device.\<close>

definition truthful :: "(device_id \<rightharpoonup> device) \<Rightarrow> browse_event \<Rightarrow> bool" where
  "truthful view ev =
     (case ev of Added d \<Rightarrow> view (dev_id d) = None | Updated d \<Rightarrow> view (dev_id d) \<noteq> None
      | Removed gone \<Rightarrow> view gone \<noteq> None)"

fun all_truthful :: "(device_id \<rightharpoonup> device) \<Rightarrow> browse_event list \<Rightarrow> bool" where
  "all_truthful view [] = True"
| "all_truthful view (ev # evs) = (truthful view ev \<and> all_truthful (apply_browse_event view ev) evs)"

lemma all_truthful_append [simp]:
  "all_truthful view (evs @ fs) \<longleftrightarrow>
     all_truthful view evs \<and> all_truthful (foldl apply_browse_event view evs) fs"
  by (induction evs arbitrary: view) auto

text \<open>A result that reports what it does: the registry stays well formed, the events are truthful
  and turn the view of the old registry into the view of the new one.\<close>

definition reported :: "registry \<Rightarrow> 'e + browse_event list \<times> registry \<Rightarrow> bool" where
  "reported m r \<longleftrightarrow>
     (\<forall>outs m'. r = Inr (outs, m') \<longrightarrow>
        registry_ok m' \<and> all_truthful (hm_get m) outs \<and>
        foldl apply_browse_event (hm_get m) outs = hm_get m')"

lemma reported_nothing: "registry_ok m \<Longrightarrow> reported m (Inr ([], m))"
  by (simp add: reported_def)

lemma reported_bind:
  assumes "reported m r" and "\<And>outs m1. r = Inr (outs, m1) \<Longrightarrow> registry_ok m1 \<Longrightarrow> reported m1 (f m1)"
  shows "reported m (and_then r (\<lambda>(outs, m1). and_then (f m1) (\<lambda>(outs2, m2). Inr (outs @ outs2, m2))))"
  using assms unfolding reported_def by (fastforce simp: and_then_eq_Inr split_def)

lemma view_insert: "hm_get (hm_insert k d m) = (hm_get m)(k \<mapsto> d)"
  by (rule ext) simp

lemma view_remove: "hm_get (hm_remove k m) = (hm_get m)(k := None)"
  by (rule ext) simp

lemma store_resolved_reported:
  assumes "registry_ok m" and "store_resolved is_raop d m = (be, m')"
  shows "\<exists>ev. be = Some ev \<and> truthful (hm_get m) ev \<and> apply_browse_event (hm_get m) ev = hm_get m'"
proof (cases "hm_get m (dev_id d)")
  case None
  with assms(2) show ?thesis
    by (auto simp: store_resolved_def truthful_def apply_browse_event_def view_insert)
next
  case (Some old)
  then have "dev_id old = dev_id d" using assms(1) by (auto simp: registry_ok_def device_ok_def)
  with Some assms(2) show ?thesis
    by (auto simp: store_resolved_def Let_def truthful_def apply_browse_event_def view_insert)
qed

lemma handle_event_reported:
  assumes ok: "registry_ok m" and h: "handle_service_event p ev is_raop m = Inr (be, m')"
  shows "case be of None \<Rightarrow> m' = m
    | Some e \<Rightarrow> truthful (hm_get m) e \<and> apply_browse_event (hm_get m) e = hm_get m'"
proof (cases ev)
  case (ServiceResolved info)
  then consider "be = None" "m' = m" | d where "store_resolved is_raop d m = (be, m')"
    using h by (auto simp: handle_service_event_def and_then_eq_Inr split: option.splits)
  then show ?thesis
  proof cases
    case 2
    from store_resolved_reported [OF ok this] show ?thesis by auto
  qed simp
next
  case (ServiceRemoved ty name)
  then show ?thesis
    using h by (auto simp: handle_service_event_def and_then_eq_Inr truthful_def
        apply_browse_event_def view_remove split: option.splits if_splits)
qed (use h in \<open>auto simp: handle_service_event_def\<close>)

lemma browse_recv_reported:
  "registry_ok m \<Longrightarrow> reported m (browse_recv p is_raop received m)"
  by (auto simp: reported_def browse_recv_def and_then_eq_Inr split: option.splits
      dest: handle_event_ok handle_event_reported)

lemma browse_turn_reported: "registry_ok m \<Longrightarrow> reported m (browse_turn p airplay raop m)"
  unfolding browse_turn_def by (intro reported_bind browse_recv_reported)

lemma browse_stream_reported: "registry_ok m \<Longrightarrow> reported m (browse_stream p turns m)"
proof (induction p turns m rule: browse_stream.induct)
  case (2 p running airplay raop turns m)
  then show ?case
    by (cases running) (auto simp: reported_nothing intro!: reported_bind browse_turn_reported)
qed (simp add: reported_nothing)

lemma scan_loop_ok:
  "registry_ok m \<Longrightarrow> scan_loop p timeout turns m = Some (Inr m') \<Longrightarrow> registry_ok m'"
proof (induction p timeout turns m rule: scan_loop.induct)
  case (2 p timeout t turns m)
  then show ?case
    using browse_turn_reported [of m p "airplay_recv t" "raop_recv t"]
    by (auto simp: reported_def split: if_splits sum.splits)
qed simp

section \<open>ASCII announcements\<close>

lemma set_trim_start: "set (trim_start s) \<subseteq> set s"
  by (induction s rule: trim_start.induct) auto

lemma set_trim_rev: "set (trim_rev s) \<subseteq> set s"
  by (induction s rule: trim_rev.induct) auto

lemma ascii_trim: "ascii_str s \<Longrightarrow> ascii_str (trim s)"
  using set_trim_start [of s] set_trim_rev [of "rev (trim_start s)"]
  by (auto simp: ascii_str_def trim_def)

lemma ascii_takeWhile: "ascii_str s \<Longrightarrow> ascii_str (takeWhile P s)"
  by (auto simp: ascii_str_def dest: set_takeWhileD)

fun event_ascii :: "service_event \<Rightarrow> bool" where
  "event_ascii (ServiceResolved info) \<longleftrightarrow>
     ascii_str (fullname info) \<and> list_all (\<lambda>(k, v). ascii_str v) (properties info)"
| "event_ascii (ServiceRemoved ty name) \<longleftrightarrow> ascii_str name"
| "event_ascii _ \<longleftrightarrow> True"

lemma collect_txt_get:
  "hm_get (foldl (\<lambda>m (k, v). hm_insert k v m) m props) k = Some v \<Longrightarrow>
     hm_get m k = Some v \<or> (k, v) \<in> set props"
  by (induction props arbitrary: m) (fastforce split: if_splits)+

lemma collect_txt_ascii: "list_all (\<lambda>(k, v). ascii_str v) props \<Longrightarrow> txt_ascii (collect_txt props)"
  by (auto simp: txt_ascii_def collect_txt_def list_all_iff dest!: collect_txt_get intro!: ascii_trim)

lemma handle_event_no_panic:
  assumes "event_ascii ev" shows "\<exists>be m'. handle_service_event p ev is_raop m = Inr (be, m')"
proof (cases ev)
  case (ServiceResolved info)
  have "parse_service_event p info is_raop \<noteq> Inl e" for e
    using assms collect_txt_ascii [of "properties info"] parse_airplay_no_panic parse_raop_no_panic
    by (auto simp: ServiceResolved parse_service_event_def Let_def hd_split_on ascii_takeWhile ascii_trim
        split: sum.splits fault.splits)
  then obtain found where "parse_service_event p info is_raop = Inr found"
    by (cases "parse_service_event p info is_raop") auto
  then show ?thesis by (cases found) (auto simp: ServiceResolved handle_service_event_def)
next
  case (ServiceRemoved ty name)
  have "extract_device_id_from_removal name is_raop \<noteq> Inl e" for e
    using assms from_mac_string_ascii_no_panic
    by (auto simp: ServiceRemoved extract_device_id_from_removal_def Let_def hd_split_on
        ascii_takeWhile ascii_trim split: sum.splits fault.splits)
  then obtain found where "extract_device_id_from_removal name is_raop = Inr found"
    by (cases "extract_device_id_from_removal name is_raop") auto
  then show ?thesis by (cases found) (auto simp: ServiceRemoved handle_service_event_def)
qed (simp_all add: handle_service_event_def)

definition turn_ascii :: "service_event option \<Rightarrow> service_event option \<Rightarrow> bool" where
  "turn_ascii airplay raop \<longleftrightarrow>
     pred_option event_ascii airplay \<and> pred_option event_ascii raop"

lemma browse_recv_no_panic:
  "pred_option event_ascii received \<Longrightarrow> \<exists>outs m'. browse_recv p is_raop received m = Inr (outs, m')"
  using handle_event_no_panic by (cases received) (fastforce simp: browse_recv_def and_then_eq_Inr)+

lemma browse_turn_no_panic:
  assumes "turn_ascii airplay raop" shows "\<exists>outs m'. browse_turn p airplay raop m = Inr (outs, m')"
proof -
  obtain outs m1 where 1: "browse_recv p False airplay m = Inr (outs, m1)"
    using assms browse_recv_no_panic unfolding turn_ascii_def by blast
  obtain outs2 m2 where "browse_recv p True raop m1 = Inr (outs2, m2)"
    using assms browse_recv_no_panic unfolding turn_ascii_def by blast
  with 1 show ?thesis by (simp add: browse_turn_def)
qed

lemma browse_stream_no_panic:
  "list_all (\<lambda>(running, airplay, raop). turn_ascii airplay raop) turns \<Longrightarrow>
     \<exists>outs m'. browse_stream p turns m = Inr (outs, m')"
proof (induction p turns m rule: browse_stream.induct)
  case (2 p running airplay raop turns m)
  obtain outs m1 where 1: "browse_turn p airplay raop m = Inr (outs, m1)"
    using 2(2) browse_turn_no_panic by fastforce
  show ?case
  proof (cases running)
    case True
    then obtain outs2 m2 where "browse_stream p turns m1 = Inr (outs2, m2)" using 2 by fastforce
    with True 1 show ?thesis by simp
  qed simp
qed simp

section \<open>The scan\<close>

definition scan_turn_ascii :: "scan_turn \<Rightarrow> bool" where
  "scan_turn_ascii t = turn_ascii (airplay_recv t) (raop_recv t)"

lemma scan_loop_returns:
  "\<exists>t \<in> set turns. timeout \<le> elapsed t \<Longrightarrow> list_all scan_turn_ascii turns \<Longrightarrow>
     \<exists>m'. scan_loop p timeout turns m = Some (Inr m')"
proof (induction turns arbitrary: m)
  case (Cons t turns)
  obtain outs m1 where "browse_turn p (airplay_recv t) (raop_recv t) m = Inr (outs, m1)"
    using Cons.prems(2) browse_turn_no_panic by (fastforce simp: scan_turn_ascii_def)
  with Cons show ?case by auto
qed simp

lemma registry_values:
  assumes "registry_ok m"
  shows "distinct (map dev_id (map snd m)) \<and> list_all (\<lambda>d. device_ok (dev_id d) d) (map snd m)"
proof -
  have each: "dev_id d = k \<and> device_ok k d" if "(k, d) \<in> set m" for k d
  proof -
    have "hm_get m k = Some d"
      using that assms by (auto simp: registry_ok_def hm_ok_def hm_get_def)
    then show ?thesis using assms by (auto simp: registry_ok_def device_ok_def)
  qed
  then have keys: "map dev_id (map snd m) = map fst m" by auto
  have "list_all (\<lambda>d. device_ok (dev_id d) d) (map snd m)"
    using each by (fastforce simp: list_all_iff)
  then show ?thesis unfolding keys using assms by (simp add: registry_ok_def hm_ok_def)
qed

section \<open>Two services announcing one device\<close>

lemma merge_self: "merge_device_info d d = d"
  by (cases d) (auto simp: merge_device_info_def push_addresses_absorb or_else_def split: option.splits)

text \<open>What the registry should know of a device after having heard its AirPlay announcement, its RAOP
  announcement, both or none.\<close>

definition known :: "device \<Rightarrow> device \<Rightarrow> bool \<Rightarrow> bool \<Rightarrow> device option" where
  "known a r heard_a heard_r =
     (if heard_a \<and> heard_r then Some (merge_device_info a r)
      else if heard_a then Some a else if heard_r then Some r else None)"

lemma store_airplay:
  assumes "hm_get m (dev_id a) = known a r x y" and "dev_id r = dev_id a"
  shows "hm_get (snd (store_resolved False a m)) = (hm_get m)(dev_id a := known a r True y)"
  using assms
  by (auto simp: store_resolved_def known_def view_insert merge_self merge_airplay_again Let_def)

lemma store_raop:
  assumes "hm_get m (dev_id a) = known a r x y" and "dev_id r = dev_id a"
  shows "hm_get (snd (store_resolved True r m)) = (hm_get m)(dev_id a := known a r x True)"
  using assms
  by (auto simp: store_resolved_def known_def view_insert merge_self merge_raop_again Let_def)

lemma handle_resolved:
  assumes "parse_service_event p info is_raop = Inr (Some d)"
  shows "handle_service_event p (ServiceResolved info) is_raop m = Inr (store_resolved is_raop d m)"
  using assms by (simp add: handle_service_event_def)

definition announce :: "service_info \<Rightarrow> bool \<Rightarrow> service_event option" where
  "announce info b = (if b then Some (ServiceResolved info) else None)"

lemma browse_turn_announced:
  assumes a: "parse_service_event p ia False = Inr (Some a)"
    and r: "parse_service_event p ir True = Inr (Some r)" and eq: "dev_id r = dev_id a"
    and m: "hm_get m (dev_id a) = known a r x y"
  shows "\<exists>outs m'. browse_turn p (announce ia u) (announce ir v) m = Inr (outs, m') \<and>
    hm_get m' = (hm_get m)(dev_id a := known a r (x \<or> u) (y \<or> v))"
proof -
  have idem: "(hm_get m)(dev_id a := known a r x y) = hm_get m" using m by (metis fun_upd_triv)
  obtain outs m1 where 1: "browse_recv p False (announce ia u) m = Inr (outs, m1)"
    "hm_get m1 = (hm_get m)(dev_id a := known a r (x \<or> u) y)"
    using store_airplay [OF m eq] m idem
    by (cases u) (auto simp: announce_def browse_recv_def handle_resolved [OF a] split_def)
  then have m1: "hm_get m1 (dev_id a) = known a r (x \<or> u) y" by simp
  obtain outs2 m2 where 2: "browse_recv p True (announce ir v) m1 = Inr (outs2, m2)"
    "hm_get m2 = (hm_get m1)(dev_id a := known a r (x \<or> u) (y \<or> v))"
    using store_raop [OF m1 eq] m1 fun_upd_triv [of "hm_get m1" "dev_id a"]
    by (cases v) (auto simp: announce_def browse_recv_def handle_resolved [OF r] split_def)
  show ?thesis using 1 2 by (auto simp: browse_turn_def)
qed

lemma browse_stream_announced:
  assumes a: "parse_service_event p ia False = Inr (Some a)"
    and r: "parse_service_event p ir True = Inr (Some r)" and eq: "dev_id r = dev_id a"
  shows "hm_get m (dev_id a) = known a r x y \<Longrightarrow>
    \<exists>outs m'. browse_stream p (map (\<lambda>(u, v). (True, announce ia u, announce ir v)) ts) m = Inr (outs, m') \<and>
      hm_get m' = (hm_get m)(dev_id a := known a r (x \<or> (\<exists>t \<in> set ts. fst t)) (y \<or> (\<exists>t \<in> set ts. snd t)))"
proof (induction ts arbitrary: m x y)
  case Nil
  then show ?case by (auto simp: fun_eq_iff)
next
  case (Cons t ts)
  obtain u v where t: "t = (u, v)" by (cases t)
  obtain outs m1 where 1: "browse_turn p (announce ia u) (announce ir v) m = Inr (outs, m1)"
    "hm_get m1 = (hm_get m)(dev_id a := known a r (x \<or> u) (y \<or> v))"
    using browse_turn_announced [OF a r eq Cons.prems] by blast
  then have "hm_get m1 (dev_id a) = known a r (x \<or> u) (y \<or> v)" by simp
  from Cons.IH [OF this] 1 show ?case by (auto simp: t intro!: ext)
qed

section \<open>Properties\<close>


definition sample_info :: service_info where
  "sample_info = \<lparr> fullname = ''AABBCCDDEEFF@Kitchen._raop._tcp.local.'', info_port = 7000,
     info_addresses = [V4 1], properties = [(''cn'', ''0, 1'')] \<rparr>"

definition sample_airplay_info :: service_info where
  "sample_airplay_info = \<lparr> fullname = ''Kitchen._airplay._tcp.local.'', info_port = 7001,
     info_addresses = [V4 2], properties = [(''deviceid'', ''AA:BB:CC:DD:EE:FF'')] \<rparr>"


text \<open>C37: the events of the stream tell exactly what happens to the registry: every addition is of a
  device that was not there, every update and removal of one that was, and a client that applies
  them in order to what it knew has the registry's content.\<close>

theorem browse_events_tell_registry:
  assumes "registry_ok m" and "browse_stream p turns m = Inr (outs, m')"
  shows "all_truthful (hm_get m) outs \<and> foldl apply_browse_event (hm_get m) outs = hm_get m'"
  using browse_stream_reported [OF assms(1), of p turns] assms(2) by (simp add: reported_def)

definition sample_device :: device where
  "sample_device = the (the (res_ok (parse_service_event (\<lambda>_. None) sample_info True)))"

lemma sample_turn:
  "browse_stream (\<lambda>_. None) [(True, None, Some (ServiceResolved sample_info))] []
     = Inr ([Added sample_device], [(dev_id sample_device, sample_device)])"
  by code_simp

theorem browse_events_tell_registry_witness:
  "foldl apply_browse_event (hm_get []) [Added sample_device] =
     hm_get [(dev_id sample_device, sample_device)]"
  using browse_events_tell_registry [OF registry_ok_empty sample_turn] by (rule conjunct2)

text \<open>C38: when one device is announced by both services, in any order, any number of times, the
  registry ends with one record that depends only on which services were heard: the AirPlay record
  completed by the RAOP one if both were.\<close>

theorem announcements_commute:
  assumes "parse_service_event p ia False = Inr (Some a)"
    and "parse_service_event p ir True = Inr (Some r)" and "dev_id r = dev_id a"
    and "hm_get m (dev_id a) = None"
  shows "\<exists>outs m'. browse_stream p (map (\<lambda>(u, v). (True, announce ia u, announce ir v)) ts) m
      = Inr (outs, m') \<and>
    hm_get m' = (hm_get m)(dev_id a := known a r (\<exists>t \<in> set ts. fst t) (\<exists>t \<in> set ts. snd t))"
  using browse_stream_announced [OF assms(1-3), of m False False ts] assms(4)
  by (simp add: known_def)

definition sample_airplay_device :: device where
  "sample_airplay_device = the (the (res_ok (parse_service_event (\<lambda>_. None) sample_airplay_info False)))"

lemma sample_parses:
  "parse_service_event (\<lambda>_. None) sample_airplay_info False = Inr (Some sample_airplay_device)"
  "parse_service_event (\<lambda>_. None) sample_info True = Inr (Some sample_device)"
  "dev_id sample_device = dev_id sample_airplay_device"
  by code_simp+

theorem announcements_commute_witness:
  "\<exists>outs m'. browse_stream (\<lambda>_. None)
     (map (\<lambda>(u, v). (True, announce sample_airplay_info u, announce sample_info v))
        [(False, True), (True, False)]) [] = Inr (outs, m') \<and>
   hm_get m' (dev_id sample_airplay_device) =
     Some (merge_device_info sample_airplay_device sample_device)"
  using announcements_commute [OF sample_parses, of "[]" "[(False, True), (True, False)]"]
  by (auto simp: known_def simp del: list.map)

text \<open>A RAOP goodbye removes the device its announcement had stored, with everything AirPlay had
  said of it, and tells the client; an AirPlay goodbye is ignored, so a device that announces AirPlay
  only never leaves the registry.\<close>

theorem goodbye_behaviour:
  assumes "parse_service_event p info True = Inr (Some d)" and "hm_get m (dev_id d) \<noteq> None"
  shows "handle_service_event p (ServiceRemoved ty (fullname info)) True m =
      Inr (Some (Removed (dev_id d)), hm_remove (dev_id d) m) \<and>
    handle_service_event p (ServiceRemoved ty' name) False m = Inr (None, m)"
proof
  let ?name = "hd (split_on CHR ''.'' (fullname info))"
  have "\<exists>txt addrs port. parse_raop_txt ?name txt addrs port = Inr d"
    using assms(1)
    by (auto simp: parse_service_event_def Let_def split: if_splits sum.splits fault.splits)
  then have "from_mac_string (hd (split_on CHR ''@'' ?name)) = Inr (dev_id d)"
    using parse_raop_id by (auto simp: hd_split_on)
  then show "handle_service_event p (ServiceRemoved ty (fullname info)) True m =
      Inr (Some (Removed (dev_id d)), hm_remove (dev_id d) m)"
    using assms(2) by (simp add: handle_service_event_def extract_device_id_from_removal_def Let_def)
  show "handle_service_event p (ServiceRemoved ty' name) False m = Inr (None, m)"
    by (simp add: handle_service_event_def extract_device_id_from_removal_def Let_def)
qed

theorem goodbye_behaviour_witness:
  "handle_service_event (\<lambda>_. None) (ServiceRemoved ''_raop'' (fullname sample_info)) True
     [(dev_id sample_device, sample_device)] =
   Inr (Some (Removed (dev_id sample_device)), hm_remove (dev_id sample_device)
     [(dev_id sample_device, sample_device)])"
  using goodbye_behaviour [OF sample_parses(2), of "[(dev_id sample_device, sample_device)]"]
  by (simp add: hm_get_def)

text \<open>A key of 64 bytes of UTF-8 whose two-byte characters lie across the cuts.\<close>

definition split_char_key :: string where
  "split_char_key = CHR ''0'' # concat (replicate 31 (str_of [0xC3, 0xA9])) @ ''0''"

definition split_char_info :: service_info where
  "split_char_info = sample_airplay_info\<lparr>properties := properties sample_airplay_info @ [(''pk'', split_char_key)]\<rparr>"

text \<open>The TXT record of any host on the network can make the browser panic: the public key is
  sliced at fixed byte positions after only its length was checked.\<close>

theorem txt_record_panics:
  "\<exists>info. list_all (\<lambda>(k, v). utf8_ok (as_bytes k) \<and> utf8_ok (as_bytes v)) (properties info) \<and>
     utf8_ok (as_bytes (fullname info)) \<and>
     (\<forall>m. handle_service_event p (ServiceResolved info) False m = Inl Panic)"
proof (intro exI [of _ split_char_info] conjI allI)
  show "list_all (\<lambda>(k, v). utf8_ok (as_bytes k) \<and> utf8_ok (as_bytes v)) (properties split_char_info)"
    by code_simp
  show "utf8_ok (as_bytes (fullname split_char_info))" by code_simp
  have "parse_service_event p split_char_info False = Inl Panic"
    by code_simp
  then show "handle_service_event p (ServiceResolved split_char_info) False m = Inl Panic" for m
    by (simp add: handle_service_event_def)
qed

text \<open>A scan returns once its time is over, however the announcements come in: the flag is cleared,
  and the devices it returns are well formed and have different identifiers.\<close>

theorem scan_returns:
  assumes "\<exists>t \<in> set turns. timeout \<le> elapsed t" and "list_all scan_turn_ascii turns"
    and "registry_ok (browser_devices b)"
  shows "\<exists>ds b'. scan p None None timeout turns b = (Some (Inr ds), b') \<and> \<not> browser_running b' \<and>
    ds = get_all_devices b' \<and> distinct (map dev_id ds) \<and> list_all (\<lambda>d. device_ok (dev_id d) d) ds"
proof -
  obtain m' where m': "scan_loop p timeout turns (browser_devices b) = Some (Inr m')"
    using scan_loop_returns [OF assms(1,2)] by blast
  then have "registry_ok m'" by (rule scan_loop_ok [OF assms(3)])
  from registry_values [OF this] m' show ?thesis by (simp add: scan_def get_all_devices_def)
qed

theorem scan_returns_witness:
  "\<exists>ds b'. scan (\<lambda>_. None) None None 5
     [\<lparr> elapsed = 0, still_running = True, airplay_recv = announce sample_airplay_info True,
        raop_recv = announce sample_info True \<rparr>,
      \<lparr> elapsed = 5, still_running = True, airplay_recv = None, raop_recv = None \<rparr>]
     service_browser_new = (Some (Inr ds), b') \<and> \<not> browser_running b' \<and> distinct (map dev_id ds)"
  using scan_returns [of "[\<lparr> elapsed = 0, still_running = True,
        airplay_recv = announce sample_airplay_info True, raop_recv = announce sample_info True \<rparr>,
      \<lparr> elapsed = 5, still_running = True, airplay_recv = None, raop_recv = None \<rparr>]" 5
      service_browser_new "\<lambda>_. None"]
  by (simp add: service_browser_new_def scan_turn_ascii_def turn_ascii_def announce_def
      sample_info_def sample_airplay_info_def ascii_str_def) blast

end
