(* ===== verification/Audio_Buffer.thy ===== *)
theory Audio_Buffer
  imports Codec Complex_Main
begin

text \<open>
  The jitter buffer between the decoder and the encoder, \<open>src/audio/buffer.rs\<close>, behind the interface
  of a bounded queue. Lengths and capacities are natural numbers (\<open>usize\<close> values that count list
  elements); the sample counters are \<open>u64\<close>. \<open>fill_percentage\<close> is the exact quotient: the code
  compares the \<open>f32\<close> value with 10 and 40 only, and below \<open>2 ^ 20\<close> frames, where the two lengths are
  exact as \<open>f32\<close>, a quotient that differs from the bound does so by far more than the rounding.
\<close>

section \<open>Bounded queues\<close>

text \<open>A sequence of operations, \<open>Some x\<close> offers \<open>x\<close> and \<open>None\<close> takes: what was accepted, what was
  delivered, and the queue after them.\<close>

fun queue_run ::
  "('a \<Rightarrow> 'q \<Rightarrow> 'q option) \<Rightarrow> ('q \<Rightarrow> ('a \<times> 'q) option) \<Rightarrow> 'q \<Rightarrow> 'a option list \<Rightarrow> 'a list \<times> 'a list \<times> 'q" where
  "queue_run enq deq q [] = ([], [], q)"
| "queue_run enq deq q (Some x # ops) =
     (case enq x q of
        None \<Rightarrow> queue_run enq deq q ops
      | Some q' \<Rightarrow> (case queue_run enq deq q' ops of (ins, outs, q'') \<Rightarrow> (x # ins, outs, q'')))"
| "queue_run enq deq q (None # ops) =
     (case deq q of
        None \<Rightarrow> queue_run enq deq q ops
      | Some (x, q') \<Rightarrow> (case queue_run enq deq q' ops of (ins, outs, q'') \<Rightarrow> (ins, x # outs, q'')))"

text \<open>What the streamer relies on: first in first out, and a refusal exactly when full.\<close>

locale bounded_queue =
  fixes content :: "'q \<Rightarrow> 'a list" and cap :: "'q \<Rightarrow> nat" and ok :: "'q \<Rightarrow> bool"
    and enq :: "'a \<Rightarrow> 'q \<Rightarrow> 'q option" and deq :: "'q \<Rightarrow> ('a \<times> 'q) option"
  assumes enq_full: "ok q \<Longrightarrow> cap q \<le> length (content q) \<Longrightarrow> enq x q = None"
    and enq_room: "ok q \<Longrightarrow> length (content q) < cap q \<Longrightarrow>
      \<exists>q'. enq x q = Some q' \<and> content q' = content q @ [x] \<and> cap q' = cap q \<and> ok q'"
    and deq_empty: "content q = [] \<Longrightarrow> deq q = None"
    and deq_first: "ok q \<Longrightarrow> content q = x # xs \<Longrightarrow>
      \<exists>q'. deq q = Some (x, q') \<and> content q' = xs \<and> cap q' = cap q \<and> ok q'"
begin

lemma fifo:
  assumes "ok q" and "length (content q) \<le> cap q" and "queue_run enq deq q ops = (ins, outs, q')"
  shows "content q @ ins = outs @ content q' \<and> length (content q') \<le> cap q' \<and> cap q' = cap q \<and> ok q'"
  using assms
proof (induction ops arbitrary: q ins outs)
  case (Cons op ops)
  show ?case
  proof (cases op)
    case (Some x)
    show ?thesis
    proof (cases "length (content q) < cap q")
      case True
      then obtain q1 where q1: "enq x q = Some q1" "content q1 = content q @ [x]" "cap q1 = cap q" "ok q1"
        using enq_room [OF Cons.prems(1)] by blast
      obtain ins' where run: "queue_run enq deq q1 ops = (ins', outs, q')" "ins = x # ins'"
        using Cons.prems(3) Some q1(1) by (auto split: prod.splits)
      show ?thesis using Cons.IH [OF q1(4) _ run(1)] q1 True run(2) by simp
    next
      case False
      with Cons.prems Some show ?thesis by (intro Cons.IH) (auto simp: enq_full)
    qed
  next
    case None
    show ?thesis
    proof (cases "content q")
      case Nil
      with Cons.prems None show ?thesis by (intro Cons.IH) (auto simp: deq_empty)
    next
      case (Cons y ys)
      then obtain q1 where q1: "deq q = Some (y, q1)" "content q1 = ys" "cap q1 = cap q" "ok q1"
        using deq_first [OF Cons.prems(1)] by blast
      obtain outs' where run: "queue_run enq deq q1 ops = (ins, outs', q')" "outs = y # outs'"
        using Cons.prems(3) None q1(1) by (auto split: prod.splits)
      show ?thesis using Cons.IH [OF q1(4) _ run(1)] q1 run(2) Cons Cons.prems(2) by simp
    qed
  qed
qed simp

end

section \<open>The buffer\<close>

record audio_frame =
  samples :: "i16 list"

definition audio_frame_new :: "i16 list \<Rightarrow> audio_frame" where
  "audio_frame_new xs = \<lparr>samples = xs\<rparr>"

datatype buffer_error = BufOverflow

record audio_buffer =
  frames :: "audio_frame list"
  buf_format :: audio_format
  capacity_frames :: nat
  total_samples_written :: u64
  total_samples_read :: u64

text \<open>\<open>checked_div\<close> is \<open>None\<close> for a zero divisor; the product wraps at 32 bits.\<close>

definition buffer_new :: "audio_format \<Rightarrow> u32 \<Rightarrow> audio_buffer" where
  "buffer_new f capacity_ms =
     (let samples_per_ms = as_hz (sample_rate f) div 1000;
          capacity_samples = samples_per_ms * capacity_ms;
          cap = (if frames_per_packet f = 0 then 1 else unat (capacity_samples div frames_per_packet f))
      in \<lparr>frames = [], buf_format = f, capacity_frames = max cap 1, total_samples_written = 0,
          total_samples_read = 0\<rparr>)"

definition frame_count :: "audio_format \<Rightarrow> audio_frame \<Rightarrow> u64" where
  "frame_count f fr = word_of_nat (length (samples fr) div unat (channels f))"

definition buffer_push :: "audio_frame \<Rightarrow> audio_buffer \<Rightarrow> (buffer_error fault + unit) \<times> audio_buffer" where
  "buffer_push fr b =
     (if capacity_frames b \<le> length (frames b) then (Inl (Fail BufOverflow), b)
      else if channels (buf_format b) = 0 then (Inl Panic, b)
      else (Inr (), b\<lparr>total_samples_written := total_samples_written b + frame_count (buf_format b) fr,
                      frames := frames b @ [fr]\<rparr>))"

definition buffer_pop :: "audio_buffer \<Rightarrow> (unit fault + audio_frame option) \<times> audio_buffer" where
  "buffer_pop b =
     (case frames b of
        [] \<Rightarrow> (Inr None, b)
      | fr # frs \<Rightarrow>
          if channels (buf_format b) = 0 then (Inl Panic, b\<lparr>frames := frs\<rparr>)
          else (Inr (Some fr), b\<lparr>frames := frs,
                  total_samples_read := total_samples_read b + frame_count (buf_format b) fr\<rparr>))"

definition buffer_is_empty :: "audio_buffer \<Rightarrow> bool" where
  "buffer_is_empty b \<longleftrightarrow> frames b = []"

definition fill_percentage :: "audio_buffer \<Rightarrow> rat" where
  "fill_percentage b =
     (if capacity_frames b = 0 then 0
      else (of_nat (length (frames b)) / of_nat (capacity_frames b)) * 100)"

definition buffer_flush :: "audio_buffer \<Rightarrow> audio_frame list \<times> audio_buffer" where
  "buffer_flush b = (frames b, b\<lparr>frames := []\<rparr>)"

lemmas buffer_ops [step_defs] =
  buffer_push_def buffer_pop_def buffer_is_empty_def buffer_flush_def

section \<open>The buffer is a bounded queue\<close>

definition buffer_ok :: "audio_buffer \<Rightarrow> bool" where
  "buffer_ok b \<longleftrightarrow> channels (buf_format b) \<noteq> 0 \<and> 0 < capacity_frames b"

definition try_push :: "audio_frame \<Rightarrow> audio_buffer \<Rightarrow> audio_buffer option" where
  "try_push fr b = (case buffer_push fr b of (Inr _, b') \<Rightarrow> Some b' | _ \<Rightarrow> None)"

definition try_pop :: "audio_buffer \<Rightarrow> (audio_frame \<times> audio_buffer) option" where
  "try_pop b = (case buffer_pop b of (Inr (Some fr), b') \<Rightarrow> Some (fr, b') | _ \<Rightarrow> None)"

interpretation jitter: bounded_queue frames capacity_frames buffer_ok try_push try_pop
  by unfold_locales (auto simp: try_push_def try_pop_def buffer_ops buffer_ok_def)

lemma buffer_new_ok [simp]: "channels f \<noteq> 0 \<Longrightarrow> buffer_ok (buffer_new f ms)"
  by (simp add: buffer_ok_def buffer_new_def Let_def max_def)

lemma buffer_new_empty [simp]: "frames (buffer_new f ms) = []" "buf_format (buffer_new f ms) = f"
  by (simp_all add: buffer_new_def Let_def)

text \<open>The fill tests are comparisons of lengths.\<close>

lemma fill_tests:
  assumes "0 < capacity_frames b"
  shows "40 \<le> fill_percentage b \<longleftrightarrow> 2 * capacity_frames b \<le> 5 * length (frames b)"
    and "10 < fill_percentage b \<longleftrightarrow> capacity_frames b < 10 * length (frames b)"
proof -
  have c: "(0::rat) < of_nat (capacity_frames b)" using assms by simp
  have "40 \<le> fill_percentage b \<longleftrightarrow>
      (of_nat (2 * capacity_frames b) :: rat) \<le> of_nat (5 * length (frames b))"
    using c by (simp add: fill_percentage_def field_simps)
  then show "40 \<le> fill_percentage b \<longleftrightarrow> 2 * capacity_frames b \<le> 5 * length (frames b)"
    by (simp only: of_nat_le_iff)
  have "10 < fill_percentage b \<longleftrightarrow>
      (of_nat (capacity_frames b) :: rat) < of_nat (10 * length (frames b))"
    using c by (simp add: fill_percentage_def field_simps)
  then show "10 < fill_percentage b \<longleftrightarrow> capacity_frames b < 10 * length (frames b)"
    by (simp only: of_nat_less_iff)
qed

section \<open>Counters\<close>

text \<open>The difference of the two counters is what is queued, as long as the flush is not used.\<close>

definition queued_samples :: "audio_buffer \<Rightarrow> u64" where
  "queued_samples b = sum_list (map (frame_count (buf_format b)) (frames b))"

definition counters_ok :: "audio_buffer \<Rightarrow> bool" where
  "counters_ok b \<longleftrightarrow> total_samples_written b = total_samples_read b + queued_samples b"

lemma push_counters: "counters_ok b \<Longrightarrow> counters_ok (snd (buffer_push fr b))"
  by (simp add: counters_ok_def queued_samples_def buffer_ops)

lemma pop_counters: "buffer_ok b \<Longrightarrow> counters_ok b \<Longrightarrow> counters_ok (snd (buffer_pop b))"
  by (auto simp: counters_ok_def queued_samples_def buffer_ops buffer_ok_def
      split: list.split)

section \<open>Claims\<close>

text \<open>The buffer is first in first out and bounded. Through any sequence of pushes and pops, what
  was queued and accepted is what was delivered followed by what is still queued, and never more
  frames are queued than the capacity; a push is refused only when the buffer is full.\<close>

theorem audio_buffer_fifo:
  assumes "buffer_ok b" and "length (frames b) \<le> capacity_frames b"
    and "queue_run try_push try_pop b ops = (ins, outs, b')"
  shows "frames b @ ins = outs @ frames b' \<and> length (frames b') \<le> capacity_frames b \<and>
    (fst (buffer_push fr b') = Inl (Fail BufOverflow) \<longleftrightarrow> length (frames b') = capacity_frames b)"
  using jitter.fifo [OF assms] by (auto simp: buffer_ops buffer_ok_def)

definition sample_buffer :: "audio_frame list \<Rightarrow> u64 \<Rightarrow> u64 \<Rightarrow> audio_buffer" where
  "sample_buffer frs w r = \<lparr>frames = frs, buf_format = default_format, capacity_frames = 2,
     total_samples_written = w, total_samples_read = r\<rparr>"

theorem audio_buffer_fifo_witness:
  "frames (sample_buffer [] 0 0) @ [\<lparr>samples = [1, 2]\<rparr>, \<lparr>samples = [3, 4]\<rparr>] =
     [\<lparr>samples = [1, 2]\<rparr>] @ frames (sample_buffer [\<lparr>samples = [3, 4]\<rparr>] 2 1) \<and>
   length (frames (sample_buffer [\<lparr>samples = [3, 4]\<rparr>] 2 1)) \<le> capacity_frames (sample_buffer [] 0 0) \<and>
   (fst (buffer_push \<lparr>samples = []\<rparr> (sample_buffer [\<lparr>samples = [3, 4]\<rparr>] 2 1)) = Inl (Fail BufOverflow) \<longleftrightarrow>
     length (frames (sample_buffer [\<lparr>samples = [3, 4]\<rparr>] 2 1)) =
       capacity_frames (sample_buffer [] 0 0))"
  by (rule audio_buffer_fifo [where ops = "[Some \<lparr>samples = [1, 2]\<rparr>, Some \<lparr>samples = [3, 4]\<rparr>, None]"])
    (simp_all add: sample_buffer_def buffer_ok_def default_format_def try_push_def try_pop_def
      buffer_ops frame_count_def)

end
