(* ===== verification/Live_Decoder.thy ===== *)
theory Live_Decoder
  imports Codec
begin

text \<open>
  The live decoder, \<open>src/audio/live_decoder.rs\<close>: it takes frames of arbitrary size from a bounded
  channel and cuts them into packets of a fixed number of samples.

  The channel is a third-party one; a decoder carries the outcomes of its receives to come, in
  order (\<open>rx\<close>): a frame, a time-out, or the end after the last sender is gone. When the list is
  exhausted nothing arrives. The resampler (\<open>src/audio/resampler.rs\<close>, floating-point filtering by a
  third-party crate) is an object that answers one call and becomes its next state; \<open>Resample\<close>
  builds that object from the code.
\<close>

section \<open>Frames\<close>

record decoded_frame =
  dec_samples :: "i16 list"

record live_pcm_frame =
  pcm_samples :: "i16 list"
  pcm_channels :: u8
  pcm_sample_rate :: u32

definition live_pcm_frame_new :: "i16 list \<Rightarrow> u8 \<Rightarrow> u32 \<Rightarrow> live_pcm_frame" where
  "live_pcm_frame_new xs ch rate = \<lparr>pcm_samples = xs, pcm_channels = ch, pcm_sample_rate = rate\<rparr>"

section \<open>The sending half\<close>

datatype live_audio_send_error = QueueFull | QueueDisconnected

text \<open>What the channel answers to \<open>try_send\<close>, and what \<open>LiveFrameSender\<close> makes of it.\<close>

datatype try_send_outcome = Accepted | RefusedFull | RefusedDisconnected

fun live_try_send :: "try_send_outcome \<Rightarrow> live_audio_send_error + unit" where
  "live_try_send Accepted = Inr ()"
| "live_try_send RefusedFull = Inl QueueFull"
| "live_try_send RefusedDisconnected = Inl QueueDisconnected"

text \<open>\<open>send\<close> waits for room: it fails only when the decoder is gone.\<close>

definition live_send :: "bool \<Rightarrow> live_audio_send_error + unit" where
  "live_send sent = (if sent then Inr () else Inl QueueDisconnected)"

section \<open>The decoder\<close>

datatype recv = Got live_pcm_frame | RecvTimeout | RecvDisconnected

codatatype resampler = Resampler "i16 list \<Rightarrow> (error fault + i16 list) \<times> resampler"

record live_decoder =
  rx :: "recv list"
  source_rate :: u32
  dec_channels :: u8
  position_samples :: u64
  eof :: bool
  residual_samples :: "i16 list"
  dec_resampler :: "resampler option"

definition live_decoder_new :: "recv list \<Rightarrow> u32 \<Rightarrow> u8 \<Rightarrow> live_decoder" where
  "live_decoder_new ch rate n = \<lparr>rx = ch, source_rate = rate, dec_channels = n,
     position_samples = 0, eof = False, residual_samples = [], dec_resampler = None\<rparr>"

definition decode_frame :: "live_decoder \<Rightarrow> (error fault + decoded_frame option) \<times> live_decoder" where
  "decode_frame d =
     (if eof d then (Inr None, d)
      else (case rx d of
          [] \<Rightarrow> (Inr None, d)
        | RecvTimeout # r \<Rightarrow> (Inr None, d\<lparr>rx := r\<rparr>)
        | RecvDisconnected # r \<Rightarrow> (Inr None, d\<lparr>rx := r, eof := True\<rparr>)
        | Got frame # r \<Rightarrow>
            if pcm_channels frame = 0 then (Inl Panic, d\<lparr>rx := r\<rparr>)
            else (let num_frames = length (pcm_samples frame) div unat (pcm_channels frame) in
              (Inr (Some \<lparr>dec_samples = pcm_samples frame\<rparr>),
               d\<lparr>rx := r, position_samples := position_samples d + word_of_nat num_frames\<rparr>))))"

text \<open>One frame at the target rate.\<close>

definition convert :: "u32 \<Rightarrow> i16 list \<Rightarrow> live_decoder \<Rightarrow> (error fault + i16 list) \<times> live_decoder" where
  "convert target_rate xs d =
     (if source_rate d = target_rate then (Inr xs, d)
      else (case dec_resampler d of
          None \<Rightarrow> (Inl Panic, d)
        | Some (Resampler process) \<Rightarrow>
            (case process xs of
               (Inl e, r) \<Rightarrow> (Inl e, d\<lparr>dec_resampler := Some r\<rparr>)
             | (Inr ys, r) \<Rightarrow> (Inr ys, d\<lparr>dec_resampler := Some r\<rparr>))))"

lemma convert_rx: "(res, d') = convert r xs d \<Longrightarrow> rx d' = rx d"
  by (auto simp: convert_def split: if_splits option.splits resampler.splits prod.splits sum.splits)

lemma decode_frame_rx:
  "(Inr (Some frame), d') = decode_frame d \<Longrightarrow> length (rx d') < length (rx d)"
  by (auto simp: decode_frame_def Let_def split: if_splits list.splits recv.splits)

text \<open>The \<open>while\<close> loop of \<open>decode_resampled\<close>; \<open>None\<close> is its early \<open>return Ok(None)\<close>.\<close>

function collect_loop ::
  "u32 \<Rightarrow> nat \<Rightarrow> i16 list \<Rightarrow> live_decoder \<Rightarrow> (error fault + i16 list option) \<times> live_decoder" where
  "collect_loop target_rate target_samples collected d =
     (if target_samples \<le> length collected then (Inr (Some collected), d)
      else (case decode_frame d of
          (Inl e, d) \<Rightarrow> (Inl e, d)
        | (Inr None, d) \<Rightarrow>
            (Inr None, if collected = [] then d else d\<lparr>residual_samples := collected\<rparr>)
        | (Inr (Some frame), d) \<Rightarrow>
            (case convert target_rate (dec_samples frame) d of
               (Inl e, d) \<Rightarrow> (Inl e, d)
             | (Inr more_samples, d) \<Rightarrow>
                 collect_loop target_rate target_samples (collected @ more_samples) d)))"
  by pat_completeness auto

termination
  by (relation "measure (\<lambda>(r, n, acc, d). length (rx d))") (auto dest!: decode_frame_rx convert_rx)

declare collect_loop.simps [simp del]

text \<open>\<open>Resampler::new\<close>: source rate, target rate, channels.\<close>

type_synonym resampler_maker = "u32 \<Rightarrow> u32 \<Rightarrow> u8 \<Rightarrow> error fault + resampler"

definition ensure_resampler ::
  "resampler_maker \<Rightarrow> u32 \<Rightarrow> live_decoder \<Rightarrow> error fault + live_decoder" where
  "ensure_resampler resampler_new target_rate d =
     (if source_rate d \<noteq> target_rate \<and> dec_resampler d = None then
        and_then (resampler_new (source_rate d) target_rate (dec_channels d))
          (\<lambda>r. Inr (d\<lparr>dec_resampler := Some r\<rparr>))
      else Inr d)"

definition decode_resampled ::
  "resampler_maker \<Rightarrow> audio_format \<Rightarrow> nat \<Rightarrow> live_decoder \<Rightarrow>
   (error fault + decoded_frame option) \<times> live_decoder" where
  "decode_resampled resampler_new target_format packet_frames d =
     (let target_rate = as_hz (sample_rate target_format) in
      case ensure_resampler resampler_new target_rate d of
        Inl e \<Rightarrow> (Inl e, d)
      | Inr d \<Rightarrow>
          (let target_samples = packet_frames * unat (channels target_format) in
           case collect_loop target_rate target_samples (residual_samples d) (d\<lparr>residual_samples := []\<rparr>) of
             (Inl e, d) \<Rightarrow> (Inl e, d)
           | (Inr None, d) \<Rightarrow> (Inr None, d)
           | (Inr (Some collected), d) \<Rightarrow>
               if collected = [] then (Inr None, d)
               else if target_samples < length collected then
                 (Inr (Some \<lparr>dec_samples = take target_samples collected\<rparr>),
                  d\<lparr>residual_samples := drop target_samples collected\<rparr>)
               else (Inr (Some \<lparr>dec_samples = collected\<rparr>), d)))"

text \<open>\<open>rx.is_empty()\<close>: the next receive would not return a frame.\<close>

definition rx_is_empty :: "live_decoder \<Rightarrow> bool" where
  "rx_is_empty d = (case rx d of Got _ # _ \<Rightarrow> False | _ \<Rightarrow> True)"

definition is_eof :: "live_decoder \<Rightarrow> bool" where
  "is_eof d \<longleftrightarrow> eof d \<and> rx_is_empty d"

section \<open>Lemmas\<close>

text \<open>The samples the channel delivered by a list of receives.\<close>

fun delivered :: "recv list \<Rightarrow> i16 list" where
  "delivered [] = []"
| "delivered (Got frame # r) = pcm_samples frame @ delivered r"
| "delivered (_ # r) = delivered r"

definition frames_sane :: "recv list \<Rightarrow> bool" where
  "frames_sane r = list_all (\<lambda>x. case x of Got frame \<Rightarrow> pcm_channels frame \<noteq> 0 | _ \<Rightarrow> True) r"

lemma delivered_append [simp]: "delivered (xs @ ys) = delivered xs @ delivered ys"
  by (induction xs rule: delivered.induct) auto

lemma decode_frame_cases:
  assumes "frames_sane (rx d)"
  obtains (none) d' used where "decode_frame d = (Inr None, d')" "rx d = used @ rx d'"
      "used \<in> {[], [RecvTimeout], [RecvDisconnected]}"
      "residual_samples d' = residual_samples d" "source_rate d' = source_rate d"
      "dec_resampler d' = dec_resampler d"
    | (frame) fr d' where "decode_frame d = (Inr (Some \<lparr>dec_samples = pcm_samples fr\<rparr>), d')"
      "rx d = Got fr # rx d'" "residual_samples d' = residual_samples d" "source_rate d' = source_rate d"
      "dec_resampler d' = dec_resampler d"
proof (cases "eof d")
  case True
  show thesis by (rule none [of d "[]"]) (simp_all add: decode_frame_def True)
next
  case False
  show thesis
  proof (cases "rx d")
    case Nil
    show thesis by (rule none [of d "[]"]) (simp_all add: decode_frame_def False Nil)
  next
    case (Cons x r)
    show thesis
    proof (cases x)
      case (Got fr)
      with assms Cons have "pcm_channels fr \<noteq> 0" by (simp add: frames_sane_def)
      then show thesis
        by (intro frame [of fr "snd (decode_frame d)"])
          (simp_all add: decode_frame_def False Cons Got Let_def)
    next
      case RecvTimeout
      show thesis
        by (rule none [of "d\<lparr>rx := r\<rparr>" "[x]"]) (simp_all add: decode_frame_def False Cons RecvTimeout)
    next
      case RecvDisconnected
      show thesis
        by (rule none [of "d\<lparr>rx := r, eof := True\<rparr>" "[x]"])
          (simp_all add: decode_frame_def False Cons RecvDisconnected)
    qed
  qed
qed

lemma frames_sane_append [simp]: "frames_sane (xs @ ys) \<longleftrightarrow> frames_sane xs \<and> frames_sane ys"
  by (simp add: frames_sane_def)

text \<open>The samples a list of receives comes to at the target rate, when no conversion fails.\<close>

fun convert_all :: "u32 \<Rightarrow> recv list \<Rightarrow> live_decoder \<Rightarrow> i16 list option" where
  "convert_all r [] d = Some []"
| "convert_all r (Got frame # q) d =
     (case convert r (pcm_samples frame) d of
        (Inl e, _) \<Rightarrow> None
      | (Inr ys, d) \<Rightarrow> map_option ((@) ys) (convert_all r q d))"
| "convert_all r (_ # q) d = convert_all r q d"

lemma convert_cases:
  obtains (failed) e d' where "convert r xs d = (Inl e, d')"
    | (converted) ys d' where "convert r xs d = (Inr ys, d')" "rx d' = rx d"
      "residual_samples d' = residual_samples d" "source_rate d' = source_rate d"
      "dec_resampler d' = None \<longleftrightarrow> dec_resampler d = None" "eof d' = eof d"
proof (cases "fst (convert r xs d)")
  case (Inl e)
  then show thesis by (intro failed [of e "snd (convert r xs d)"]) (simp add: prod_eq_iff)
next
  case (Inr ys)
  then show thesis
    by (intro converted [of ys "snd (convert r xs d)"])
      (auto simp: convert_def split: if_splits option.splits resampler.splits prod.splits sum.splits)
qed

lemma convert_alike:
  assumes "source_rate e = source_rate d" and "dec_resampler e = dec_resampler d"
  shows "fst (convert r xs e) = fst (convert r xs d)"
    and "source_rate (snd (convert r xs e)) = source_rate (snd (convert r xs d))"
    and "dec_resampler (snd (convert r xs e)) = dec_resampler (snd (convert r xs d))"
  using assms by (auto simp: convert_def split: if_splits option.splits resampler.splits prod.splits sum.splits)

lemma convert_all_alike:
  "source_rate e = source_rate d \<Longrightarrow> dec_resampler e = dec_resampler d \<Longrightarrow> convert_all r q e = convert_all r q d"
proof (induction q arbitrary: d e)
  case (Cons x q)
  show ?case
  proof (cases x)
    case (Got frame)
    note alike = convert_alike [OF Cons.prems, of r "pcm_samples frame"]
    obtain y d' z e' where yz: "convert r (pcm_samples frame) d = (y, d')" "convert r (pcm_samples frame) e = (z, e')"
      by (cases "convert r (pcm_samples frame) d"; cases "convert r (pcm_samples frame) e")
    with alike have "z = y" "source_rate e' = source_rate d'" "dec_resampler e' = dec_resampler d'" by simp_all
    with Cons.IH [OF this(2,3)] yz Got show ?thesis by (cases y) simp_all
  next
    case RecvTimeout
    with Cons.IH [OF Cons.prems] show ?thesis by simp
  next
    case RecvDisconnected
    with Cons.IH [OF Cons.prems] show ?thesis by simp
  qed
qed simp

lemma convert_all_same_rate: "source_rate d = r \<Longrightarrow> convert_all r q d = Some (delivered q)"
  by (induction r q d rule: convert_all.induct) (simp_all add: convert_def)

lemma convert_all_silent:
  "used \<in> {[], [RecvTimeout], [RecvDisconnected]} \<Longrightarrow> convert_all r (used @ q) d = convert_all r q d"
  by auto

text \<open>The loop gathers converted samples until the packet is full or the channel is silent; nothing is
  lost, and what is still to come stays convertible.\<close>

lemma collect_loop_converts:
  assumes "frames_sane (rx d)" and "residual_samples d = []" and "convert_all r (rx d) d = Some pend"
  shows "\<exists>used d' out rest. collect_loop r n acc d = (Inr out, d') \<and> rx d = used @ rx d' \<and>
    source_rate d' = source_rate d \<and> (dec_resampler d' = None \<longleftrightarrow> dec_resampler d = None) \<and>
    convert_all r (rx d') d' = Some rest \<and>
    (case out of
       None \<Rightarrow> acc @ pend = residual_samples d' @ rest \<and> length (residual_samples d') < n
     | Some ys \<Rightarrow> acc @ pend = ys @ rest \<and> n \<le> length ys \<and> residual_samples d' = [])"
  using assms
proof (induction "length (rx d)" arbitrary: acc d pend rule: less_induct)
  case (less d acc pend)
  show ?case
  proof (cases "n \<le> length acc")
    case True
    then show ?thesis
      using less.prems
      by (intro exI [of _ "[]"] exI [of _ d] exI [of _ "Some acc"] exI [of _ pend]) (simp add: collect_loop.simps)
  next
    case False
    from less.prems(1) show ?thesis
    proof (cases rule: decode_frame_cases)
      case (none d' used)
      let ?d = "if acc = [] then d' else d'\<lparr>residual_samples := acc\<rparr>"
      have "convert_all r (rx d') ?d = convert_all r (rx d') d"
        using none by (intro convert_all_alike) simp_all
      moreover have "rx ?d = rx d'" by simp
      ultimately have "convert_all r (rx ?d) ?d = Some pend"
        using less.prems(3) convert_all_silent [OF none(3), of r "rx d'" d] none(2) by (simp only:)
      with none False less.prems show ?thesis
        by (intro exI [of _ used] exI [of _ ?d] exI [of _ None] exI [of _ pend])
          (simp add: collect_loop.simps)
    next
      case (frame fr d')
      have come: "convert_all r (Got fr # rx d') d' = Some pend"
        using less.prems(3) frame convert_all_alike [of d' d r "rx d"] by simp
      show ?thesis
      proof (cases rule: convert_cases [of r "pcm_samples fr" d'])
        case (failed e d'')
        with come show ?thesis by simp
      next
        case (converted ys d'')
        from come converted obtain pend' where
          t: "convert_all r (rx d'') d'' = Some pend'" "pend = ys @ pend'" by auto
        have sane: "frames_sane (rx d'')" using less.prems(1) frame(2) converted(2) by (simp add: frames_sane_def)
        have step: "collect_loop r n acc d = collect_loop r n (acc @ ys) d''"
          using False by (simp add: collect_loop.simps [of r n acc d] frame(1) converted(1))
        have "length (rx d'') < length (rx d)" "residual_samples d'' = []"
          using frame converted less.prems by simp_all
        from less.hyps [OF this(1) sane this(2) t(1), of "acc @ ys"]
        obtain used d3 out rest where *: "collect_loop r n (acc @ ys) d'' = (Inr out, d3)"
            "rx d'' = used @ rx d3" "source_rate d3 = source_rate d''"
            "dec_resampler d3 = None \<longleftrightarrow> dec_resampler d'' = None" "convert_all r (rx d3) d3 = Some rest"
            "case out of
               None \<Rightarrow> (acc @ ys) @ pend' = residual_samples d3 @ rest \<and> length (residual_samples d3) < n
             | Some zs \<Rightarrow> (acc @ ys) @ pend' = zs @ rest \<and> n \<le> length zs \<and> residual_samples d3 = []"
          by (elim exE conjE) (rule that; assumption)
        then show ?thesis
          using frame converted t(2)
          by (intro exI [of _ "Got fr # used"] exI [of _ d3] exI [of _ out] exI [of _ rest])
            (auto simp: step split: option.splits)
      qed
    qed
  qed
qed

text \<open>The samples still to come at the target rate: what \<open>decode_resampled\<close> makes of every receive,
  when the resampler can be built and converts each frame.\<close>

definition to_come :: "resampler_maker \<Rightarrow> u32 \<Rightarrow> live_decoder \<Rightarrow> i16 list option" where
  "to_come rn rate d =
     (case ensure_resampler rn rate d of Inl _ \<Rightarrow> None | Inr d \<Rightarrow> convert_all rate (rx d) d)"

lemma ensure_resampler_once:
  assumes "ensure_resampler rn rate d = Inr d'"
  shows "rx d' = rx d" and "residual_samples d' = residual_samples d" and "source_rate d' = source_rate d"
    and "source_rate d = rate \<or> dec_resampler d' \<noteq> None"
  using assms by (auto simp: ensure_resampler_def and_then_eq_Inr split: if_splits)

lemma to_come_same_rate: "source_rate d = rate \<Longrightarrow> to_come rn rate d = Some (delivered (rx d))"
  by (simp add: to_come_def ensure_resampler_def convert_all_same_rate)

text \<open>One call: a packet of exactly the target size off the front of what is pending, or nothing, and
  then less than a packet is pending.\<close>

lemma decode_resampled_cuts:
  assumes "frames_sane (rx d)" and "to_come rn (as_hz (sample_rate f)) d = Some pend"
    and "0 < n * unat (channels f)"
  shows "\<exists>used d' out rest. decode_resampled rn f n d = (Inr out, d') \<and> rx d = used @ rx d' \<and>
    source_rate d' = source_rate d \<and> to_come rn (as_hz (sample_rate f)) d' = Some rest \<and>
    (case out of
       None \<Rightarrow> residual_samples d @ pend = residual_samples d' @ rest \<and>
         length (residual_samples d') < n * unat (channels f)
     | Some fr \<Rightarrow> residual_samples d @ pend = dec_samples fr @ residual_samples d' @ rest \<and>
         length (dec_samples fr) = n * unat (channels f))"
proof -
  let ?n = "n * unat (channels f)" and ?r = "as_hz (sample_rate f)"
  from assms(2) obtain e where e: "ensure_resampler rn ?r d = Inr e" "convert_all ?r (rx e) e = Some pend"
    by (auto simp: to_come_def split: sum.splits)
  note same = ensure_resampler_once [OF e(1)]
  let ?e = "e\<lparr>residual_samples := []\<rparr>"
  have "convert_all ?r (rx ?e) ?e = Some pend"
    using e(2) convert_all_alike [of ?e e ?r "rx e"] by simp
  have sane: "frames_sane (rx ?e)" using assms(1) same(1) by simp
  have fields: "rx ?e = rx d" "source_rate ?e = source_rate d" "residual_samples ?e = []"
    "dec_resampler ?e = dec_resampler e"
    using same by simp_all
  obtain used d' out rest where l: "collect_loop ?r ?n (residual_samples d) ?e = (Inr out, d')"
      "rx d = used @ rx d'" "source_rate d' = source_rate d" "dec_resampler d' = None \<longleftrightarrow> dec_resampler e = None"
      "convert_all ?r (rx d') d' = Some rest"
      "case out of
         None \<Rightarrow> residual_samples d @ pend = residual_samples d' @ rest \<and> length (residual_samples d') < ?n
       | Some ys \<Rightarrow> residual_samples d @ pend = ys @ rest \<and> ?n \<le> length ys \<and> residual_samples d' = []"
    using collect_loop_converts [of ?e ?r pend ?n "residual_samples d", OF sane fields(3) \<open>convert_all ?r (rx ?e) ?e = Some pend\<close>]
    unfolding fields by (elim exE conjE) (rule that; assumption)
  have ready: "to_come rn ?r d'' = Some rest"
    if "rx d'' = rx d'" "source_rate d'' = source_rate d'" "dec_resampler d'' = dec_resampler d'" for d''
    using that l same(4) convert_all_alike [of d'' d' ?r "rx d'"]
    by (auto simp: to_come_def ensure_resampler_def)
  show ?thesis
  proof (cases out)
    case None
    with l e assms same ready [of d'] show ?thesis
      by (intro exI [of _ used] exI [of _ d'] exI [of _ "None :: decoded_frame option"] exI [of _ rest])
        (simp add: decode_resampled_def)
  next
    case (Some ys)
    let ?d = "if ?n < length ys then d'\<lparr>residual_samples := drop ?n ys\<rparr> else d'"
    from Some l assms(3) have "ys \<noteq> []" by auto
    with Some l e assms same ready [of ?d] show ?thesis
      by (intro exI [of _ used] exI [of _ ?d] exI [of _ "Some \<lparr>dec_samples = take ?n ys\<rparr>"] exI [of _ rest])
        (auto simp: decode_resampled_def Let_def)
  qed
qed

text \<open>A number of calls in a row: their results and the decoder after them.\<close>

fun decode_calls ::
  "(live_decoder \<Rightarrow> 'r \<times> live_decoder) \<Rightarrow> nat \<Rightarrow> live_decoder \<Rightarrow> 'r list \<times> live_decoder" where
  "decode_calls f 0 d = ([], d)"
| "decode_calls f (Suc k) d =
     (let (res, d') = f d; (ress, d'') = decode_calls f k d' in (res # ress, d''))"

definition packet_samples :: "(error fault + decoded_frame option) list \<Rightarrow> i16 list list" where
  "packet_samples ress = concat (map (\<lambda>r. case r of Inr (Some fr) \<Rightarrow> [dec_samples fr] | _ \<Rightarrow> []) ress)"

lemma packet_samples_simps [simp]:
  "packet_samples [] = []"
  "packet_samples (Inr (Some fr) # ress) = dec_samples fr # packet_samples ress"
  "packet_samples (Inr None # ress) = packet_samples ress"
  "packet_samples (Inl e # ress) = packet_samples ress"
  by (simp_all add: packet_samples_def)

lemma frames_sane_rest: "frames_sane (rx d) \<Longrightarrow> rx d = used @ rx d' \<Longrightarrow> frames_sane (rx d')"
  by simp

lemma decode_calls_cut:
  assumes "frames_sane (rx d)" and "to_come rn (as_hz (sample_rate f)) d = Some pend"
    and "0 < n * unat (channels f)"
  shows "\<exists>ress d' used rest. decode_calls (decode_resampled rn f n) k d = (ress, d') \<and> rx d = used @ rx d' \<and>
    source_rate d' = source_rate d \<and> to_come rn (as_hz (sample_rate f)) d' = Some rest \<and>
    residual_samples d @ pend = concat (packet_samples ress) @ residual_samples d' @ rest \<and>
    list_all (\<lambda>p. length p = n * unat (channels f)) (packet_samples ress) \<and> list_all (\<lambda>r. \<not> isl r) ress"
  using assms
proof (induction k arbitrary: d pend)
  case 0
  then show ?case by (simp add: exI [of _ "[]"])
next
  case (Suc k)
  obtain used d' out rest where one: "decode_resampled rn f n d = (Inr out, d')" "rx d = used @ rx d'"
      "source_rate d' = source_rate d" "to_come rn (as_hz (sample_rate f)) d' = Some rest"
      "case out of
         None \<Rightarrow> residual_samples d @ pend = residual_samples d' @ rest \<and>
           length (residual_samples d') < n * unat (channels f)
       | Some fr \<Rightarrow> residual_samples d @ pend = dec_samples fr @ residual_samples d' @ rest \<and>
           length (dec_samples fr) = n * unat (channels f)"
    using decode_resampled_cuts [OF Suc.prems] by blast
  have "frames_sane (rx d')" using Suc.prems(1) one(2) by (rule frames_sane_rest)
  from Suc.IH [OF this one(4) Suc.prems(3)] obtain ress d'' used' rest' where ih:
      "decode_calls (decode_resampled rn f n) k d' = (ress, d'')" "rx d' = used' @ rx d''"
      "source_rate d'' = source_rate d'" "to_come rn (as_hz (sample_rate f)) d'' = Some rest'"
      "residual_samples d' @ rest = concat (packet_samples ress) @ residual_samples d'' @ rest'"
      "list_all (\<lambda>p. length p = n * unat (channels f)) (packet_samples ress)" "list_all (\<lambda>r. \<not> isl r) ress"
    by blast
  show ?case
    using one ih
    by (intro exI [of _ "Inr out # ress"] exI [of _ d''] exI [of _ "used @ used'"] exI [of _ rest'])
      (auto split: option.splits)
qed

section \<open>Claims\<close>

text \<open>When the source has the target's sample rate the decoder only re-cuts the stream. Whatever
  the sizes of the frames received and the gaps between them, the packets returned by any number of
  calls, followed by the residue, are exactly the samples received, in order; every packet has
  exactly the requested size, and no call fails.\<close>

theorem live_decoder_recuts:
  assumes "frames_sane (rx d)" and "source_rate d = as_hz (sample_rate f)"
    and "0 < n * unat (channels f)"
  shows "let (ress, d') = decode_calls (decode_resampled rn f n) k d in
    (\<exists>used. rx d = used @ rx d' \<and>
      concat (packet_samples ress) @ residual_samples d' = residual_samples d @ delivered used) \<and>
    list_all (\<lambda>p. length p = n * unat (channels f)) (packet_samples ress) \<and> list_all (\<lambda>r. \<not> isl r) ress"
proof -
  from assms have "to_come rn (as_hz (sample_rate f)) d = Some (delivered (rx d))"
    by (simp add: to_come_same_rate)
  from decode_calls_cut [OF assms(1) this assms(3), of k] obtain ress d' used rest where
    l: "decode_calls (decode_resampled rn f n) k d = (ress, d')" "rx d = used @ rx d'"
      "source_rate d' = source_rate d" "to_come rn (as_hz (sample_rate f)) d' = Some rest"
      "residual_samples d @ delivered (rx d) = concat (packet_samples ress) @ residual_samples d' @ rest"
      "list_all (\<lambda>p. length p = n * unat (channels f)) (packet_samples ress)" "list_all (\<lambda>r. \<not> isl r) ress"
    by blast
  then have "rest = delivered (rx d')" using assms(2) by (simp add: to_come_same_rate)
  with l have "concat (packet_samples ress) @ residual_samples d' = residual_samples d @ delivered used"
    by (metis append.assoc append_same_eq delivered_append)
  with l show ?thesis by auto
qed

theorem live_decoder_recuts_witness:
  "let (ress, d') = decode_calls (decode_resampled (\<lambda>_ _ _. Inl (Fail Timeout)) default_format 2) 3
      (live_decoder_new [Got \<lparr>pcm_samples = [1, 2], pcm_channels = 2, pcm_sample_rate = 44100\<rparr>,
         RecvTimeout, Got \<lparr>pcm_samples = [3, 4, 5, 6], pcm_channels = 2, pcm_sample_rate = 44100\<rparr>]
         44100 2) in
    (\<exists>used. rx (live_decoder_new [Got \<lparr>pcm_samples = [1, 2], pcm_channels = 2, pcm_sample_rate = 44100\<rparr>,
         RecvTimeout, Got \<lparr>pcm_samples = [3, 4, 5, 6], pcm_channels = 2, pcm_sample_rate = 44100\<rparr>]
         44100 2) = used @ rx d' \<and>
      concat (packet_samples ress) @ residual_samples d' =
        residual_samples (live_decoder_new [Got \<lparr>pcm_samples = [1, 2], pcm_channels = 2, pcm_sample_rate = 44100\<rparr>,
         RecvTimeout, Got \<lparr>pcm_samples = [3, 4, 5, 6], pcm_channels = 2, pcm_sample_rate = 44100\<rparr>]
         44100 2) @ delivered used) \<and>
    list_all (\<lambda>p. length p = 2 * unat (channels default_format)) (packet_samples ress) \<and> list_all (\<lambda>r. \<not> isl r) ress"
  by (rule live_decoder_recuts)
    (simp_all add: live_decoder_new_def frames_sane_def default_format_def protocol_defs)

end
