(* ===== verification/Encoder.thy ===== *)
theory Encoder
  imports Codec
begin

text \<open>
  The encoder stage, \<open>src/audio/encoder.rs\<close>. The ALAC codec itself is a third-party crate: it is a
  parameter, an object that is given the PCM description, the input bytes and the output buffer,
  answers the encoded size and the written buffer, and becomes its next state. Around it the code
  keeps the samples not yet encoded and the packet clock. Samples go to the codec in native byte
  order, which is little-endian on the targets of the program.
\<close>

section \<open>A packet clock\<close>

text \<open>What the streamer relies on: the time stamp of a packet is the clock before it, and encoding
  moves the clock by the samples of the packet.\<close>

record encoded_packet =
  pkt_data :: bytes
  pkt_samples :: u32
  pkt_timestamp :: u64

locale packet_clock =
  fixes enc :: "i16 list \<Rightarrow> 'e \<Rightarrow> ('err + encoded_packet) \<times> 'e" and clock :: "'e \<Rightarrow> u64"
    and wf :: "'e \<Rightarrow> bool" and fits :: "i16 list \<Rightarrow> 'e \<Rightarrow> bool"
  assumes enc_time: "wf e \<Longrightarrow> fits xs e \<Longrightarrow> enc xs e = (Inr p, e') \<Longrightarrow>
      pkt_timestamp p = clock e \<and> clock e' = clock e + ucast (pkt_samples p)"
    and enc_wf: "wf e \<Longrightarrow> enc xs e = (r, e') \<Longrightarrow> wf e'"
begin

text \<open>Consecutive packets are contiguous.\<close>

lemma contiguous:
  assumes "wf e" and "fits xs e" and "enc xs e = (Inr p, e')" and "fits ys e'" and "enc ys e' = (Inr q, e'')"
  shows "pkt_timestamp q = pkt_timestamp p + ucast (pkt_samples p)"
  using enc_time [OF assms(1-3)] enc_time [OF enc_wf [OF assms(1,3)] assms(4,5)] by simp

end

section \<open>The ALAC encoder\<close>

record pcm_description =
  pcm_rate :: u32
  pcm_channels_per_frame :: u32

codatatype alac_codec =
  Alac_codec "pcm_description \<Rightarrow> bytes \<Rightarrow> bytes \<Rightarrow> nat \<times> bytes \<times> alac_codec"

fun alac_encode :: "alac_codec \<Rightarrow> pcm_description \<Rightarrow> bytes \<Rightarrow> bytes \<Rightarrow> nat \<times> bytes \<times> alac_codec" where
  "alac_encode (Alac_codec f) = f"

record alac_encoder =
  alac_state :: alac_codec
  input_format :: pcm_description
  enc_format :: audio_format
  enc_timestamp :: u64
  enc_buffer :: "i16 list"
  output_buffer :: bytes

text \<open>The parameter makes a codec for a rate, a packet length and a number of channels.\<close>

definition alac_encoder_new :: "(u32 \<Rightarrow> u32 \<Rightarrow> u32 \<Rightarrow> alac_codec) \<Rightarrow> audio_format \<Rightarrow> alac_encoder" where
  "alac_encoder_new codec_new f =
     (let rate = as_hz (sample_rate f);
          max_encoded_size = unat (frames_per_packet f) * unat (channels f) * 2 + 256
      in \<lparr>alac_state = codec_new rate (frames_per_packet f) (ucast (channels f)),
          input_format = \<lparr>pcm_rate = rate, pcm_channels_per_frame = ucast (channels f)\<rparr>,
          enc_format = f, enc_timestamp = 0, enc_buffer = [],
          output_buffer = replicate max_encoded_size 0\<rparr>)"

definition encode_samples :: "i16 list \<Rightarrow> alac_encoder \<Rightarrow> (error fault + encoded_packet) \<times> alac_encoder" where
  "encode_samples xs e =
     (if channels (enc_format e) = 0 then (Inl Panic, e)
      else (let num_samples = length xs div unat (channels (enc_format e));
                input_bytes = concat (map to_le xs);
                (encoded_size, out, st) = alac_encode (alac_state e) (input_format e) input_bytes (output_buffer e);
                timestamp = enc_timestamp e;
                e = e\<lparr>alac_state := st, output_buffer := out,
                      enc_timestamp := enc_timestamp e + word_of_nat num_samples\<rparr>
            in if length out < encoded_size then (Inl Panic, e)
               else (Inr \<lparr>pkt_data = take encoded_size out, pkt_samples = word_of_nat num_samples,
                          pkt_timestamp = timestamp\<rparr>, e)))"

definition alac_encoder_encode :: "i16 list \<Rightarrow> alac_encoder \<Rightarrow> (error fault + encoded_packet) \<times> alac_encoder" where
  "alac_encoder_encode xs e =
     (let samples_per_frame = unat (frames_per_packet (enc_format e)) * unat (channels (enc_format e));
          buf = enc_buffer e @ xs
      in if samples_per_frame \<le> length buf then
           encode_samples (take samples_per_frame buf) (e\<lparr>enc_buffer := drop samples_per_frame buf\<rparr>)
         else encode_samples buf (e\<lparr>enc_buffer := []\<rparr>))"

text \<open>\<open>{:?}\<close> of a codec.\<close>

fun debug_codec :: "audio_codec \<Rightarrow> string" where
  "debug_codec Pcm = ''Pcm''"
| "debug_codec Alac = ''Alac''"
| "debug_codec Aac = ''Aac''"
| "debug_codec AacEld = ''AacEld''"
| "debug_codec Opus = ''Opus''"

definition create_encoder :: "(u32 \<Rightarrow> u32 \<Rightarrow> u32 \<Rightarrow> alac_codec) \<Rightarrow> audio_format \<Rightarrow> error + alac_encoder" where
  "create_encoder codec_new f =
     (case codec f of
        Alac \<Rightarrow> Inr (alac_encoder_new codec_new f)
      | c \<Rightarrow> Inl (Streaming (InvalidStreamFormat (''Unsupported codec: '' @ debug_codec c))))"

section \<open>Lemmas\<close>

definition packet_samples_per :: "audio_format \<Rightarrow> nat" where
  "packet_samples_per f = unat (frames_per_packet f) * unat (channels f)"

text \<open>An input the 32-bit sample count of a packet can hold.\<close>

definition fits_packet :: "i16 list \<Rightarrow> alac_encoder \<Rightarrow> bool" where
  "fits_packet xs e \<longleftrightarrow> length (enc_buffer e @ xs) < 2 ^ 32"

lemma encode_samples_time:
  assumes "encode_samples xs e = (Inr p, e')" and "length xs < 2 ^ 32"
  shows "pkt_timestamp p = enc_timestamp e \<and> enc_timestamp e' = enc_timestamp e + ucast (pkt_samples p)"
proof -
  let ?n = "length xs div unat (channels (enc_format e))"
  have "?n < 2 ^ 32" using assms(2) by (rule le_less_trans [OF div_le_dividend])
  then have "ucast (word_of_nat ?n :: u32) = (word_of_nat ?n :: u64)"
    by (simp add: word_unat_eq_iff unat_ucast_widen unat_of_nat)
  with assms(1) show ?thesis
    by (auto simp: encode_samples_def Let_def split: if_splits prod.splits)
qed

interpretation alac_clock: packet_clock alac_encoder_encode enc_timestamp "\<lambda>_. True" fits_packet
proof (unfold_locales)
  fix e e' :: alac_encoder and xs p
  assume "fits_packet xs e" "alac_encoder_encode xs e = (Inr p, e')"
  then show "pkt_timestamp p = enc_timestamp e \<and> enc_timestamp e' = enc_timestamp e + ucast (pkt_samples p)"
    using encode_samples_time
    by (fastforce simp: alac_encoder_encode_def fits_packet_def Let_def split: if_splits)
qed simp

text \<open>A codec is well behaved when the encoded size is within the buffer, which keeps its length.\<close>

coinductive codec_fits :: "nat \<Rightarrow> alac_codec \<Rightarrow> bool" where
  "(\<And>d bs out. length out = n \<Longrightarrow>
      (case f d bs out of (k, out', c) \<Rightarrow> k \<le> n \<and> length out' = n \<and> codec_fits n c)) \<Longrightarrow>
    codec_fits n (Alac_codec f)"

lemma codec_fitsD:
  assumes "codec_fits n c" and "length out = n" and "alac_encode c d bs out = (k, out', c')"
  shows "k \<le> n \<and> length out' = n \<and> codec_fits n c'"
  using assms(1)
proof cases
  case (1 f)
  show ?thesis using 1(2) [OF assms(2), of d bs] assms(3) 1(1) by (simp split: prod.splits)
qed

text \<open>The encoder between packets, when it is given whole packets only.\<close>

definition encoder_ready :: "alac_encoder \<Rightarrow> bool" where
  "encoder_ready e \<longleftrightarrow> enc_buffer e = [] \<and> channels (enc_format e) \<noteq> 0 \<and>
     codec_fits (length (output_buffer e)) (alac_state e)"

lemma encode_whole_packet:
  assumes "encoder_ready e" and "length xs = packet_samples_per (enc_format e)"
  shows "\<exists>p e'. alac_encoder_encode xs e = (Inr p, e') \<and> encoder_ready e' \<and>
    enc_format e' = enc_format e \<and> pkt_timestamp p = enc_timestamp e \<and>
    pkt_samples p = frames_per_packet (enc_format e) \<and>
    enc_timestamp e' = enc_timestamp e + ucast (frames_per_packet (enc_format e))"
proof -
  obtain k out c where a: "alac_encode (alac_state e) (input_format e) (concat (map to_le xs)) (output_buffer e)
      = (k, out, c)"
    by (cases "alac_encode (alac_state e) (input_format e) (concat (map to_le xs)) (output_buffer e)") auto
  have fit: "k \<le> length (output_buffer e)" "length out = length (output_buffer e)"
      "codec_fits (length (output_buffer e)) c"
    using codec_fitsD [OF _ refl a] assms(1) by (auto simp: encoder_ready_def)
  have ch: "0 < unat (channels (enc_format e))"
    using assms(1) by (simp add: encoder_ready_def unat_gt_0)
  then have n: "length xs div unat (channels (enc_format e)) = unat (frames_per_packet (enc_format e))"
    using assms(2) by (simp add: packet_samples_per_def)
  have w: "(word_of_nat (unat (frames_per_packet (enc_format e))) :: u64) =
      ucast (frames_per_packet (enc_format e))"
    by (simp add: word_unat_eq_iff unat_ucast_widen unat_of_nat order.strict_trans [OF unat_u32_lt])
  show ?thesis
    using assms fit a ch
    by (simp add: alac_encoder_encode_def encode_samples_def Let_def packet_samples_per_def
        encoder_ready_def n w)
qed

end
