(* ===== verification/Rtp.thy ===== *)
theory Rtp
  imports Chacha Device
begin

text \<open>
  The RTP side of the sender: \<open>src/audio/rtp/packet.rs\<close>, \<open>retransmit.rs\<close> and \<open>sender.rs\<close>, and the
  request parser of \<open>src/client/control.rs\<close>. A socket is its presence; a function that sends returns
  the datagram and its destination beside its result. The cipher is any \<open>packet_cipher\<close>.
\<close>

section \<open>Packets\<close>

definition RETRANSMIT_REQUEST :: u8 where "RETRANSMIT_REQUEST = 85"
definition RETRANSMIT_RESPONSE :: u8 where "RETRANSMIT_RESPONSE = 86"

record rtp_header =
  rh_version :: u8
  padding :: bool
  extension :: bool
  csrc_count :: u8
  marker :: bool
  payload_type :: u8
  rh_sequence :: u16
  rh_timestamp :: u32
  rh_ssrc :: u32

definition rtp_header_new :: "u8 \<Rightarrow> u16 \<Rightarrow> u32 \<Rightarrow> u32 \<Rightarrow> rtp_header" where
  "rtp_header_new pt sq ts src =
     \<lparr>rh_version = 2, padding = False, extension = False, csrc_count = 0, marker = False,
      payload_type = pt, rh_sequence = sq, rh_timestamp = ts, rh_ssrc = src\<rparr>"

definition with_marker :: "bool \<Rightarrow> rtp_header \<Rightarrow> rtp_header" where
  "with_marker m h = h\<lparr>marker := m\<rparr>"

definition bool_u8 :: "bool \<Rightarrow> u8" where
  "bool_u8 b = (if b then 1 else 0)"

definition rtp_header_serialize :: "rtp_header \<Rightarrow> bytes" where
  "rtp_header_serialize h =
     (let buf = replicate 12 0;
          buf = buf[0 := push_bit 6 (rh_version h) OR push_bit 5 (bool_u8 (padding h)) OR
            push_bit 4 (bool_u8 (extension h)) OR (csrc_count h AND 0x0F)];
          buf = buf[1 := push_bit 7 (bool_u8 (marker h)) OR (payload_type h AND 0x7F)];
          buf = put buf 2 (to_be (rh_sequence h));
          buf = put buf 4 (to_be (rh_timestamp h));
          buf = put buf 8 (to_be (rh_ssrc h))
      in buf)"

record rtp_packet =
  pk_header :: rtp_header
  pk_payload :: bytes

definition rtp_packet_serialize :: "rtp_packet \<Rightarrow> bytes" where
  "rtp_packet_serialize p = rtp_header_serialize (pk_header p) @ pk_payload p"

section \<open>Retransmission messages\<close>

record retransmit_request =
  first_sequence :: u16
  rt_count :: u16

definition retransmit_parse :: "bytes \<Rightarrow> error + retransmit_request" where
  "retransmit_parse data =
     (if length data < 12 then Inl (Parse (InvalidFormat ''Retransmit request too short''))
      else (let pt = (data ! 1) AND 0x7F in
        if pt \<noteq> RETRANSMIT_REQUEST then
          Inl (Parse (InvalidFormat (''Expected payload type 85, got '' @ fmt_dec (unat pt))))
        else Inr \<lparr>first_sequence = from_be [data ! 8, data ! 9], rt_count = from_be [data ! 10, data ! 11]\<rparr>))"

definition build_retransmit_response :: "bytes \<Rightarrow> bytes" where
  "build_retransmit_response original_packet =
     [0x80, 0x80 OR RETRANSMIT_RESPONSE] @
     (if 4 \<le> length original_packet then [original_packet ! 2, original_packet ! 3] else [0, 0]) @
     original_packet"

text \<open>\<open>client/control.rs\<close>: both request layouts.\<close>

definition parse_retransmit_request :: "bytes \<Rightarrow> retransmit_request option" where
  "parse_retransmit_request data =
     (if length data < 4 then None
      else if (data ! 1) AND 0x7F \<noteq> RETRANSMIT_REQUEST then None
      else if length data = 8 then
        Some \<lparr>first_sequence = from_be [data ! 4, data ! 5], rt_count = from_be [data ! 6, data ! 7]\<rparr>
      else if 12 \<le> length data then res_ok (retransmit_parse data)
      else None)"

section \<open>The sender\<close>

definition PACKET_HISTORY_SIZE :: nat where "PACKET_HISTORY_SIZE = 512"

type_synonym cipher_fn = "bytes \<Rightarrow> u32 \<Rightarrow> u32 \<Rightarrow> u16 \<Rightarrow> error fault + encrypted_payload"

record rtp_sender =
  rtp_socket :: bool
  rtp_dest :: sock_addr
  control_dest :: "sock_addr option"
  control_socket :: bool
  rtp_sequence :: u16
  rtp_ssrc :: u32
  rtp_cipher :: "cipher_fn option"
  sync_sequence :: u16
  first_sync_sent :: bool
  packet_history :: "bytes option list"

definition sender_new :: "sock_addr \<Rightarrow> u32 \<Rightarrow> rtp_sender" where
  "sender_new dest src =
     \<lparr>rtp_socket = False, rtp_dest = dest, control_dest = None, control_socket = False,
      rtp_sequence = 0, rtp_ssrc = src, rtp_cipher = None, sync_sequence = 0,
      first_sync_sent = False, packet_history = replicate PACKET_HISTORY_SIZE None\<rparr>"

definition set_control_dest :: "sock_addr \<Rightarrow> rtp_sender \<Rightarrow> rtp_sender" where
  "set_control_dest d s = s\<lparr>control_dest := Some d\<rparr>"

definition set_control_socket :: "rtp_sender \<Rightarrow> rtp_sender" where
  "set_control_socket s = s\<lparr>control_socket := True\<rparr>"

definition set_packet_cipher :: "cipher_fn \<Rightarrow> rtp_sender \<Rightarrow> rtp_sender" where
  "set_packet_cipher f s = s\<lparr>rtp_cipher := Some f\<rparr>"

definition reset_sync_state :: "rtp_sender \<Rightarrow> rtp_sender" where
  "reset_sync_state s = s\<lparr>first_sync_sent := False\<rparr>"

definition opt_bytes :: "bytes option \<Rightarrow> bytes" where
  "opt_bytes b = (case b of None \<Rightarrow> [] | Some bs \<Rightarrow> bs)"

definition audio_wire :: "rtp_sender \<Rightarrow> u8 \<Rightarrow> u32 \<Rightarrow> bytes \<Rightarrow> bool \<Rightarrow> error fault + bytes" where
  "audio_wire s pt ts payload mk =
     (let header = with_marker mk (rtp_header_new pt (rtp_sequence s) ts (rtp_ssrc s)) in
      case rtp_cipher s of
        None \<Rightarrow> Inr (rtp_packet_serialize \<lparr>pk_header = header, pk_payload = payload\<rparr>)
      | Some encrypt_payload \<Rightarrow>
          and_then (encrypt_payload payload ts (rtp_ssrc s) (rtp_sequence s)) (\<lambda>encrypted.
            Inr (rtp_header_serialize header @ ep_data encrypted @ opt_bytes (ep_tag encrypted) @
              opt_bytes (ep_nonce encrypted))))"

definition serialize_audio ::
  "u8 \<Rightarrow> u32 \<Rightarrow> bytes \<Rightarrow> bool \<Rightarrow> rtp_sender \<Rightarrow> (error fault + bytes) \<times> rtp_sender" where
  "serialize_audio pt ts payload mk s =
     (case audio_wire s pt ts payload mk of
        Inl e \<Rightarrow> (Inl e, s)
      | Inr serialized \<Rightarrow>
          (let idx = unat (rtp_sequence s) mod PACKET_HISTORY_SIZE in
           (Inr serialized, s\<lparr>packet_history := (packet_history s)[idx := Some serialized],
              rtp_sequence := rtp_sequence s + 1\<rparr>)))"

definition not_bound :: error where
  "not_bound = Streaming (Encoding ''Socket not bound'')"

text \<open>The datagrams that go out, the result, the sender. \<open>sent\<close> says which datagrams a socket accepts.\<close>

definition socket_send :: "(bytes \<Rightarrow> bool) \<Rightarrow> bytes \<Rightarrow> sock_addr \<Rightarrow> (bytes \<times> sock_addr) list \<times> (error + unit)" where
  "socket_send sent packet dest =
     (if sent packet then ([(packet, dest)], Inr ()) else ([], Inl (Connection_error ''send'')))"

definition send_audio ::
  "(bytes \<Rightarrow> bool) \<Rightarrow> u8 \<Rightarrow> u32 \<Rightarrow> bytes \<Rightarrow> bool \<Rightarrow> rtp_sender \<Rightarrow>
   (bytes \<times> sock_addr) list \<times> (error fault + unit) \<times> rtp_sender" where
  "send_audio sent pt ts payload mk s =
     (case serialize_audio pt ts payload mk s of
        (Inl e, s') \<Rightarrow> ([], Inl e, s')
      | (Inr serialized, s') \<Rightarrow>
          if rtp_socket s' then
            (let (outs, res) = socket_send sent serialized (rtp_dest s') in (outs, map_err Fail res, s'))
          else ([], Inl (Fail not_bound), s'))"

definition prepare_audio ::
  "u8 \<Rightarrow> u32 \<Rightarrow> bytes \<Rightarrow> bool \<Rightarrow> rtp_sender \<Rightarrow> (error fault + bytes) \<times> rtp_sender" where
  "prepare_audio = serialize_audio"

definition control_target :: "rtp_sender \<Rightarrow> sock_addr" where
  "control_target s = (case control_dest s of None \<Rightarrow> rtp_dest s | Some d \<Rightarrow> d)"

definition prepare_sync :: "u32 \<Rightarrow> u64 \<Rightarrow> rtp_sender \<Rightarrow> bytes option \<times> rtp_sender" where
  "prepare_sync rtp_ts ntp_ts s =
     (if snd (control_target s) = 0 then (None, s)
      else (let packet = replicate 20 0;
                packet = packet[0 := if first_sync_sent s then 0x80 else 0x90];
                packet = packet[1 := 0xd4];
                packet = put packet 2 (to_be (sync_sequence s));
                packet = put packet 4 (to_be rtp_ts);
                packet = put packet 8 (to_be ntp_ts);
                packet = put packet 16 (to_be rtp_ts)
            in (Some packet, s\<lparr>first_sync_sent := True, sync_sequence := sync_sequence s + 1\<rparr>)))"

definition send_sync ::
  "(bytes \<Rightarrow> bool) \<Rightarrow> u32 \<Rightarrow> u64 \<Rightarrow> rtp_sender \<Rightarrow>
   (bytes \<times> sock_addr) list \<times> (error + unit) \<times> rtp_sender" where
  "send_sync sent rtp_ts ntp_ts s =
     (if snd (control_target s) = 0 then ([], Inr (), s)
      else if \<not> control_socket s \<and> \<not> rtp_socket s then ([], Inl not_bound, s)
      else (case prepare_sync rtp_ts ntp_ts s of
          (None, s') \<Rightarrow> ([], Inr (), s')
        | (Some packet, s') \<Rightarrow>
            (let (outs, res) = socket_send sent packet (control_target s) in (outs, res, s'))))"

definition prepare_ptp_sync :: "u32 \<Rightarrow> u64 \<Rightarrow> u32 \<Rightarrow> bytes \<Rightarrow> rtp_sender \<Rightarrow> bytes option \<times> rtp_sender" where
  "prepare_ptp_sync current_rtp_ts ptp_clock_ns next_rtp_ts master_clock_id s =
     (if snd (control_target s) = 0 then (None, s)
      else (let packet = replicate 28 0;
                packet = packet[0 := if first_sync_sent s then 0x80 else 0x90];
                packet = packet[1 := 0xD7];
                packet = put packet 2 (to_be (sync_sequence s));
                packet = put packet 4 (to_be current_rtp_ts);
                ptp_secs = (ucast (ptp_clock_ns div 1000000000) :: u32);
                ptp_nanos = ptp_clock_ns mod 1000000000;
                ptp_frac = (ucast (push_bit 32 ptp_nanos div 1000000000) :: u32);
                packet = put packet 8 (to_be ptp_secs);
                packet = put packet 12 (to_be ptp_frac);
                packet = put packet 16 (to_be next_rtp_ts);
                packet = put packet 20 master_clock_id
            in (Some packet, s\<lparr>first_sync_sent := True, sync_sequence := sync_sequence s + 1\<rparr>)))"

definition send_ptp_sync_packet ::
  "(bytes \<Rightarrow> bool) \<Rightarrow> u32 \<Rightarrow> u64 \<Rightarrow> u32 \<Rightarrow> bytes \<Rightarrow> rtp_sender \<Rightarrow>
   (bytes \<times> sock_addr) list \<times> (error + unit) \<times> rtp_sender" where
  "send_ptp_sync_packet sent current_rtp_ts ptp_clock_ns next_rtp_ts master_clock_id s =
     (case prepare_ptp_sync current_rtp_ts ptp_clock_ns next_rtp_ts master_clock_id s of
        (None, s') \<Rightarrow> ([], Inr (), s')
      | (Some packet, s') \<Rightarrow>
          if control_socket s' \<or> rtp_socket s' then
            (let (outs, res) = socket_send sent packet (control_target s') in (outs, res, s'))
          else ([], Inl not_bound, s'))"

text \<open>
  The loop of \<open>handle_retransmit\<close> over the sequence numbers still to do: the responses sent and
  whether a send failed. \<open>sent\<close> says which datagrams the socket accepts.
\<close>

definition history_packet :: "rtp_sender \<Rightarrow> u16 \<Rightarrow> bytes option" where
  "history_packet s sq =
     (case packet_history s ! (unat sq mod PACKET_HISTORY_SIZE) of
        None \<Rightarrow> None
      | Some original \<Rightarrow>
          if 4 \<le> length original \<and> from_be [original ! 2, original ! 3] \<noteq> sq then None
          else Some original)"

fun retransmit_loop :: "(bytes \<Rightarrow> bool) \<Rightarrow> rtp_sender \<Rightarrow> u16 list \<Rightarrow> bytes list \<times> bool" where
  "retransmit_loop sent s [] = ([], True)"
| "retransmit_loop sent s (sq # sqs) =
     (case history_packet s sq of
        None \<Rightarrow> retransmit_loop sent s sqs
      | Some original \<Rightarrow>
          (let response = build_retransmit_response original in
           if \<not> sent response then ([], False)
           else (let (responses, ok) = retransmit_loop sent s sqs in (response # responses, ok))))"

definition requested :: "retransmit_request \<Rightarrow> u16 list" where
  "requested r = map (\<lambda>i. first_sequence r + word_of_nat i) [0..<unat (rt_count r)]"

definition handle_retransmit ::
  "(bytes \<Rightarrow> bool) \<Rightarrow> rtp_sender \<Rightarrow> retransmit_request \<Rightarrow> bytes list \<times> (error + u16)" where
  "handle_retransmit sent s r =
     (if \<not> control_socket s \<and> \<not> rtp_socket s then ([], Inl not_bound)
      else (let (responses, ok) = retransmit_loop sent s (requested r) in
        (responses, if ok then Inr (word_of_nat (length responses)) else Inl (Connection_error ''send''))))"

section \<open>Lemmas: layout\<close>

lemma rtp_header_layout:
  "rtp_header_serialize h =
     [push_bit 6 (rh_version h) OR push_bit 5 (bool_u8 (padding h)) OR
        push_bit 4 (bool_u8 (extension h)) OR (csrc_count h AND 0x0F),
      push_bit 7 (bool_u8 (marker h)) OR (payload_type h AND 0x7F)] @
     to_be (rh_sequence h) @ to_be (rh_timestamp h) @ to_be (rh_ssrc h)"
  by (simp add: rtp_header_serialize_def codec_simps)

lemma length_rtp_header [simp]: "length (rtp_header_serialize h) = 12"
  by (simp add: rtp_header_layout)

definition wire_seq :: "bytes \<Rightarrow> u16" where
  "wire_seq w = from_be [w ! 2, w ! 3]"

lemma wire_seq_slice: "4 \<le> length w \<Longrightarrow> wire_seq w = from_be (slice w 2 4)"
  using slice_pair [of 2 w] by (simp add: wire_seq_def eval_nat_numeral)

lemma wire_seq_header [simp]: "wire_seq (rtp_header_serialize h @ p) = rh_sequence h"
  by (simp add: wire_seq_slice) (simp add: rtp_header_layout codec_simps)

lemma audio_wire_header:
  "audio_wire s pt ts payload mk = Inr w \<Longrightarrow>
   \<exists>body. w = rtp_header_serialize (with_marker mk (rtp_header_new pt (rtp_sequence s) ts (rtp_ssrc s))) @ body"
  by (auto simp: audio_wire_def rtp_packet_serialize_def and_then_eq_Inr Let_def split: option.splits)

lemma audio_wire_seq:
  assumes "audio_wire s pt ts payload mk = Inr w"
  shows "wire_seq w = rtp_sequence s \<and> 12 \<le> length w"
proof -
  obtain body where "w = rtp_header_serialize (with_marker mk (rtp_header_new pt (rtp_sequence s) ts (rtp_ssrc s))) @ body"
    using audio_wire_header [OF assms] by blast
  then show ?thesis by (simp add: with_marker_def rtp_header_new_def)
qed

section \<open>Lemmas: the history\<close>

text \<open>
  The abstraction is the log of all packets serialised so far: packet \<open>k\<close> has sequence number
  \<open>k mod 65536\<close>, and the history holds the last 512 of the log.
\<close>

definition in_window :: "bytes list \<Rightarrow> nat \<Rightarrow> bool" where
  "in_window lg k \<longleftrightarrow> k < length lg \<and> length lg \<le> k + PACKET_HISTORY_SIZE"

definition log_ok :: "bytes list \<Rightarrow> bool" where
  "log_ok lg \<longleftrightarrow> (\<forall>k < length lg. wire_seq (lg ! k) = word_of_nat k \<and> 12 \<le> length (lg ! k))"

definition history_inv :: "bytes list \<Rightarrow> rtp_sender \<Rightarrow> bool" where
  "history_inv lg s \<longleftrightarrow> log_ok lg \<and> rtp_sequence s = word_of_nat (length lg) \<and>
     length (packet_history s) = PACKET_HISTORY_SIZE \<and>
     (\<forall>i < PACKET_HISTORY_SIZE. \<forall>p. packet_history s ! i = Some p \<longleftrightarrow>
        (\<exists>k. in_window lg k \<and> k mod PACKET_HISTORY_SIZE = i \<and> p = lg ! k))"

lemma history_inv_new: "history_inv [] (sender_new dest src)"
  by (simp add: history_inv_def log_ok_def in_window_def sender_new_def)

lemma window_unique:
  "in_window lg j \<Longrightarrow> in_window lg k \<Longrightarrow> j mod PACKET_HISTORY_SIZE = k mod PACKET_HISTORY_SIZE \<Longrightarrow> j = k"
proof -
  assume w: "in_window lg j" "in_window lg k" and m: "j mod PACKET_HISTORY_SIZE = k mod PACKET_HISTORY_SIZE"
  have near: "j < k + PACKET_HISTORY_SIZE" "k < j + PACKET_HISTORY_SIZE"
    using w by (simp_all add: in_window_def)
  have "b = a" if "a \<le> b" "b < a + PACKET_HISTORY_SIZE" "a mod PACKET_HISTORY_SIZE = b mod PACKET_HISTORY_SIZE"
    for a b :: nat
  proof -
    have "PACKET_HISTORY_SIZE dvd b - a" using that mod_eq_dvd_iff_nat by metis
    moreover have "b - a < PACKET_HISTORY_SIZE" using that by simp
    ultimately have "b - a = 0" using nat_dvd_not_less by blast
    with that(1) show ?thesis by simp
  qed
  with near m show "j = k" by (metis nat_le_linear)
qed

lemma seq_slot: "unat (word_of_nat k :: u16) mod PACKET_HISTORY_SIZE = k mod PACKET_HISTORY_SIZE"
proof -
  have "(512 :: nat) dvd 65536" by simp
  then show ?thesis by (simp add: unat_of_nat PACKET_HISTORY_SIZE_def mod_mod_cancel)
qed

lemma history_inv_step:
  assumes inv: "history_inv lg s" and ser: "serialize_audio pt ts payload mk s = (Inr w, s')"
  shows "history_inv (lg @ [w]) s'"
proof -
  let ?n = "length lg" and ?N = PACKET_HISTORY_SIZE
  have N: "0 < ?N" by (simp add: PACKET_HISTORY_SIZE_def)
  have w: "audio_wire s pt ts payload mk = Inr w" and s': "rtp_sequence s' = rtp_sequence s + 1"
    "packet_history s' = (packet_history s)[?n mod ?N := Some w]"
    using ser inv seq_slot [of ?n]
    by (auto simp: serialize_audio_def history_inv_def Let_def split: sum.splits)
  have lok: "log_ok (lg @ [w])"
    using inv audio_wire_seq [OF w] by (auto simp: history_inv_def log_ok_def nth_append less_Suc_eq)
  have hist: "packet_history s' ! i = Some p \<longleftrightarrow>
      (\<exists>k. in_window (lg @ [w]) k \<and> k mod ?N = i \<and> p = (lg @ [w]) ! k)" if i: "i < ?N" for i p
  proof (cases "i = ?n mod ?N")
    case True
    have in_n: "in_window (lg @ [w]) ?n" using N by (simp add: in_window_def)
    have "k = ?n" if "in_window (lg @ [w]) k" "k mod ?N = ?n mod ?N" for k
      using window_unique [OF that(1) in_n that(2)] .
    then have "(\<exists>k. in_window (lg @ [w]) k \<and> k mod ?N = ?n mod ?N \<and> p = (lg @ [w]) ! k) \<longleftrightarrow> p = w"
      using in_n by (metis nth_append_length)
    moreover have "packet_history s' ! i = Some w"
      using True i inv by (simp add: s' history_inv_def)
    ultimately show ?thesis using True by auto
  next
    case False
    have "in_window (lg @ [w]) k \<longleftrightarrow> in_window lg k" if "k mod ?N = i" for k
    proof -
      have "k \<noteq> ?n" using that False by auto
      moreover have "?n \<noteq> k + ?N" using that False by auto
      ultimately show ?thesis by (auto simp: in_window_def)
    qed
    moreover have "(lg @ [w]) ! k = lg ! k" if "in_window lg k" for k
      using that by (simp add: in_window_def nth_append)
    ultimately have e: "(\<exists>k. in_window (lg @ [w]) k \<and> k mod ?N = i \<and> p = (lg @ [w]) ! k) \<longleftrightarrow>
        (\<exists>k. in_window lg k \<and> k mod ?N = i \<and> p = lg ! k)" by metis
    have "packet_history s' ! i = packet_history s ! i" using False by (simp add: s')
    then show ?thesis using inv i unfolding e by (simp add: history_inv_def)
  qed
  show ?thesis
    unfolding history_inv_def using lok hist inv s' by (simp add: history_inv_def add.commute)
qed

lemma history_packet_log:
  assumes "history_inv lg s"
  shows "history_packet s sq = Some p \<longleftrightarrow>
    (\<exists>k. in_window lg k \<and> word_of_nat k = sq \<and> p = lg ! k)"
proof -
  let ?N = PACKET_HISTORY_SIZE and ?i = "unat sq mod PACKET_HISTORY_SIZE"
  have i: "?i < ?N" by (simp add: PACKET_HISTORY_SIZE_def)
  have h: "packet_history s ! ?i = Some q \<longleftrightarrow> (\<exists>k. in_window lg k \<and> k mod ?N = ?i \<and> q = lg ! k)" for q
    using assms i by (simp add: history_inv_def)
  have lg: "wire_seq (lg ! k) = word_of_nat k" "4 \<le> length (lg ! k)" if "in_window lg k" for k
    using assms that by (auto simp: history_inv_def log_ok_def in_window_def)
  have "history_packet s sq = Some p \<longleftrightarrow>
      packet_history s ! ?i = Some p \<and> \<not> (4 \<le> length p \<and> wire_seq p \<noteq> sq)"
    by (auto simp: history_packet_def wire_seq_def split: option.splits)
  also have "\<dots> \<longleftrightarrow> (\<exists>k. in_window lg k \<and> k mod ?N = ?i \<and> p = lg ! k \<and> word_of_nat k = sq)"
    unfolding h using lg by auto
  also have "\<dots> \<longleftrightarrow> (\<exists>k. in_window lg k \<and> word_of_nat k = sq \<and> p = lg ! k)"
    using seq_slot by metis
  finally show ?thesis .
qed

section \<open>Retransmission serves the last 512 packets\<close>

text \<open>A run of the sender over audio frames (payload type, timestamp, payload, marker): the packets it
  produced. A frame that cannot be sealed is skipped, and its sequence number is used by the next.\<close>

fun audio_run :: "(u8 \<times> u32 \<times> bytes \<times> bool) list \<Rightarrow> rtp_sender \<Rightarrow> bytes list \<times> rtp_sender" where
  "audio_run [] s = ([], s)"
| "audio_run ((pt, ts, payload, mk) # fs) s =
     (case prepare_audio pt ts payload mk s of
        (Inl e, s') \<Rightarrow> audio_run fs s'
      | (Inr w, s') \<Rightarrow> (let (ws, s'') = audio_run fs s' in (w # ws, s'')))"

definition fresh_sender :: "rtp_sender \<Rightarrow> bool" where
  "fresh_sender s \<longleftrightarrow> rtp_sequence s = 0 \<and> packet_history s = replicate PACKET_HISTORY_SIZE None"

lemma fresh_sender_simps [simp]:
  "fresh_sender (sender_new dest src)" "fresh_sender (set_control_dest d s) = fresh_sender s"
  "fresh_sender (set_control_socket s) = fresh_sender s"
  "fresh_sender (set_packet_cipher f s) = fresh_sender s"
  by (simp_all add: fresh_sender_def sender_new_def set_control_dest_def set_control_socket_def
      set_packet_cipher_def)

lemma fresh_history: "fresh_sender s \<Longrightarrow> history_inv [] s"
  by (simp add: fresh_sender_def history_inv_def log_ok_def in_window_def)

lemma serialize_audio_error: "serialize_audio pt ts payload mk s = (Inl e, s') \<Longrightarrow> s' = s"
  by (auto simp: serialize_audio_def Let_def split: sum.splits)

lemma audio_run_history:
  "history_inv lg s \<Longrightarrow> audio_run fs s = (ws, s') \<Longrightarrow> history_inv (lg @ ws) s'"
proof (induction fs arbitrary: lg s ws)
  case (Cons f fs)
  obtain pt ts payload mk where f: "f = (pt, ts, payload, mk)" by (cases f) auto
  show ?case
  proof (cases "prepare_audio pt ts payload mk s")
    case (Pair r s1)
    show ?thesis
    proof (cases r)
      case (Inl e)
      with Pair serialize_audio_error have "s1 = s" by (simp add: prepare_audio_def)
      with Cons Pair Inl f show ?thesis by simp
    next
      case (Inr w)
      with Pair Cons.prems(1) have h: "history_inv (lg @ [w]) s1"
        using history_inv_step by (simp add: prepare_audio_def)
      obtain vs where "audio_run fs s1 = (vs, s')" "ws = w # vs"
        using Cons.prems(2) f Pair Inr by (auto simp: Let_def split: prod.splits)
      with Cons.IH [OF h] show ?thesis by simp
    qed
  qed
qed simp

text \<open>The specification of the answer: the packet of the window with that sequence number.\<close>

definition window_packet :: "bytes list \<Rightarrow> u16 \<Rightarrow> bytes option" where
  "window_packet lg sq =
     map_option (\<lambda>k. lg ! k) (find (\<lambda>k. word_of_nat k = sq) [length lg - PACKET_HISTORY_SIZE..<length lg])"

lemma history_packet_window:
  assumes "history_inv lg s" shows "history_packet s sq = window_packet lg sq"
proof (cases "window_packet lg sq")
  case None
  then have "\<not> (\<exists>k. in_window lg k \<and> word_of_nat k = sq)"
    by (auto simp: window_packet_def find_None_iff in_window_def)
  then have "history_packet s sq \<noteq> Some p" for p using history_packet_log [OF assms] by blast
  then have "history_packet s sq = None" by (cases "history_packet s sq") auto
  with None show ?thesis by simp
next
  case (Some p)
  then obtain k where k: "find (\<lambda>k. word_of_nat k = sq) [length lg - PACKET_HISTORY_SIZE..<length lg] = Some k"
    "p = lg ! k" by (auto simp: window_packet_def)
  then have "k \<in> set [length lg - PACKET_HISTORY_SIZE..<length lg] \<and> word_of_nat k = sq"
    by (auto dest: find_SomeD)
  then have "in_window lg k \<and> word_of_nat k = sq" by (auto simp: in_window_def)
  with k(2) have "history_packet s sq = Some p" using history_packet_log [OF assms] by blast
  with Some show ?thesis by simp
qed

lemma retransmit_loop_all:
  "retransmit_loop (\<lambda>_. True) s sqs =
     (concat (map (\<lambda>sq. case history_packet s sq of None \<Rightarrow> [] | Some p \<Rightarrow> [build_retransmit_response p]) sqs), True)"
  by (induction sqs) (auto simp: Let_def split: option.split)

lemma retransmit_loop_length: "length (fst (retransmit_loop sent s sqs)) \<le> length sqs"
  by (induction sqs) (auto simp: Let_def split_def split: option.split)

text \<open>After any number of packets, a retransmission request is answered with exactly the packets of
  the last 512 that have the requested sequence numbers, in request order, each byte for byte the
  packet that was sent; numbers outside that window are skipped, also across the wrap of the
  16-bit counter, and the result counts the answers.\<close>

theorem retransmit_serves_window:
  assumes "fresh_sender s" and "audio_run fs s = (lg, s')" and "rtp_socket s' \<or> control_socket s'"
  shows "handle_retransmit (\<lambda>_. True) s' r =
    (let responses = concat (map (\<lambda>sq. case window_packet lg sq of None \<Rightarrow> []
           | Some p \<Rightarrow> [build_retransmit_response p]) (requested r))
     in (responses, Inr (word_of_nat (length responses)))) \<and>
    length (fst (handle_retransmit (\<lambda>_. True) s' r)) \<le> unat (rt_count r)"
proof -
  have h: "history_inv lg s'" using audio_run_history [OF fresh_history [OF assms(1)] assms(2)] by simp
  have "length (fst (retransmit_loop (\<lambda>_. True) s' (requested r))) \<le> unat (rt_count r)"
    using retransmit_loop_length [of "\<lambda>_. True" s' "requested r"] by (simp add: requested_def)
  with assms(3) show ?thesis
    by (auto simp: handle_retransmit_def retransmit_loop_all history_packet_window [OF h] Let_def)
qed

definition two_packets :: "bytes list \<times> rtp_sender" where
  "two_packets = audio_run [(96, 0, [1], True), (96, 352, [2], False)]
     ((sender_new (V4 1, 6000) 7)\<lparr>rtp_socket := True\<rparr>)"

theorem retransmit_serves_window_witness:
  "handle_retransmit (\<lambda>_. True) (snd two_packets) \<lparr>first_sequence = 1, rt_count = 2\<rparr> =
    ([build_retransmit_response (fst two_packets ! 1)], Inr 1)"
proof -
  have run: "audio_run [(96, 0, [1], True), (96, 352, [2], False)]
      ((sender_new (V4 1, 6000) 7)\<lparr>rtp_socket := True\<rparr>) = (fst two_packets, snd two_packets)"
    by (simp add: two_packets_def)
  have b: "rtp_socket (snd two_packets) \<or> control_socket (snd two_packets)"
    and l: "length (fst two_packets) = 2"
    by (simp_all add: two_packets_def prepare_audio_def serialize_audio_def audio_wire_def sender_new_def Let_def)
  have f: "fresh_sender ((sender_new (V4 1, 6000) 7)\<lparr>rtp_socket := True\<rparr>)"
    by (simp add: fresh_sender_def sender_new_def)
  have w: "window_packet (fst two_packets) 1 = Some (fst two_packets ! 1)"
    "window_packet (fst two_packets) 2 = None"
    by (simp_all add: window_packet_def l PACKET_HISTORY_SIZE_def upt_rec)
  have q: "requested \<lparr>first_sequence = 1, rt_count = 2\<rparr> = [1, 2]"
    by (simp add: requested_def upt_rec)
  show ?thesis
    using retransmit_serves_window [OF f run b, of "\<lparr>first_sequence = 1, rt_count = 2\<rparr>"] by (simp add: q w)
qed

section \<open>A sealed packet on the wire\<close>

text \<open>What a receiver with the stream key makes of a datagram: the nonce is its last eight bytes after four
  zeros, the associated data the timestamp and source of the RTP header, and what lies between the
  header and the nonce is the sealed payload.\<close>

definition open_packet :: "aead \<Rightarrow> bytes \<Rightarrow> bytes \<Rightarrow> bytes option" where
  "open_packet a key w =
     unseal a key (replicate 4 0 @ drop (length w - 8) w) (slice w 4 12) (slice w 12 (length w - 8))"

lemma serialized_opens:
  assumes "aead_ok a" and "length key = 32" and "length payload < 2 ^ 32"
    and "rtp_cipher s = Some (chacha_encrypt_payload a key)"
  shows "\<exists>w s'. serialize_audio pt ts payload mk s = (Inr w, s') \<and> length w = length payload + 36 \<and>
    wire_seq w = rtp_sequence s \<and> slice w 4 12 = to_be ts @ to_be (rtp_ssrc s) \<and>
    open_packet a key w = Some payload"
proof -
  obtain ct nonce tag where e:
    "encrypt_with_seq a key payload ts (rtp_ssrc s) (rtp_sequence s) = Inr (ct, nonce, tag)"
    "length ct = length payload" "length nonce = 8" "length tag = 16"
    "unseal a key (replicate 4 0 @ nonce) (to_be ts @ to_be (rtp_ssrc s)) (ct @ tag) = Some payload"
    using encrypt_with_seq_opens [OF assms(1-3), of ts "rtp_ssrc s" "rtp_sequence s"] by blast
  let ?h = "with_marker mk (rtp_header_new pt (rtp_sequence s) ts (rtp_ssrc s))"
  let ?w = "rtp_header_serialize ?h @ ct @ tag @ nonce"
  have "audio_wire s pt ts payload mk = Inr ?w"
    using assms(4) e(1) by (simp add: audio_wire_def chacha_encrypt_payload_def opt_bytes_def Let_def)
  then obtain s' where ser: "serialize_audio pt ts payload mk s = (Inr ?w, s')"
    by (simp add: serialize_audio_def Let_def)
  have hdr: "slice ?w 4 12 = to_be ts @ to_be (rtp_ssrc s)"
    by (simp add: rtp_header_layout codec_simps with_marker_def rtp_header_new_def)
      (simp add: slice_def)
  have cut: "drop (length ?w - 8) ?w = nonce" "slice ?w 12 (length ?w - 8) = ct @ tag"
    using e(2-4) by (simp_all add: slice_def)
  have len: "length ?w = length payload + 36" using e(2-4) by simp
  have sq: "wire_seq ?w = rtp_sequence s" by (simp add: with_marker_def rtp_header_new_def)
  have "unseal a key (replicate 4 0 @ drop (length ?w - 8) ?w) (slice ?w 4 12)
      (slice ?w 12 (length ?w - 8)) = Some payload"
    unfolding hdr cut by (rule e(5))
  with ser hdr len sq show ?thesis unfolding open_packet_def by blast
qed

text \<open>C30: a receiver that has the stream key opens a sealed audio packet from the datagram alone: the
  nonce is its last eight bytes after four zeros, the associated data the timestamp and source of
  the RTP header, and what lies between the header and the nonce is the sealed payload.\<close>

theorem sealed_packet_opens:
  assumes "aead_ok a" and "length key = 32" and "length payload < 2 ^ 32"
    and "rtp_cipher s = Some (chacha_encrypt_payload a key)"
  shows "\<exists>w s'. serialize_audio pt ts payload mk s = (Inr w, s') \<and> length w = length payload + 36 \<and>
    wire_seq w = rtp_sequence s \<and> slice w 4 12 = to_be ts @ to_be (rtp_ssrc s) \<and>
    open_packet a key w = Some payload"
  using assms by (rule serialized_opens)

theorem sealed_packet_opens_witness:
  "\<exists>w s'. serialize_audio 96 352 [1, 2, 3]
      True (set_packet_cipher (chacha_encrypt_payload plain_aead (replicate 32 5)) (sender_new (V4 1, 6000) 7)) =
      (Inr w, s') \<and> length w = length [1 :: u8, 2, 3] + 36 \<and>
    wire_seq w = rtp_sequence (set_packet_cipher (chacha_encrypt_payload plain_aead (replicate 32 5)) (sender_new (V4 1, 6000) 7)) \<and>
    slice w 4 12 = to_be (352 :: u32) @ to_be (rtp_ssrc (set_packet_cipher (chacha_encrypt_payload plain_aead (replicate 32 5)) (sender_new (V4 1, 6000) 7))) \<and>
    open_packet plain_aead (replicate 32 5) w = Some [1, 2, 3]"
  by (rule sealed_packet_opens) (simp_all add: plain_aead_ok set_packet_cipher_def)

section \<open>Sync packets\<close>

lemma prepare_ptp_sync_layout:
  assumes "snd (control_target s) \<noteq> 0" and "length cid = 8"
  shows "prepare_ptp_sync ts ns next_ts cid s =
    (Some ([if first_sync_sent s then 0x80 else 0x90, 0xD7] @ to_be (sync_sequence s) @ to_be ts @
       to_be (ucast (ns div 1000000000) :: u32) @
       to_be (ucast (push_bit 32 (ns mod 1000000000) div 1000000000) :: u32) @ to_be next_ts @ cid),
     s\<lparr>first_sync_sent := True, sync_sequence := sync_sequence s + 1\<rparr>)"
  using assms by (simp add: prepare_ptp_sync_def Let_def codec_simps)

lemma unat_ptp_frac:
  "unat (ucast (push_bit 32 (ns mod 1000000000 :: u64) div 1000000000) :: u32) =
     (unat ns mod 1000000000) * 4294967296 div 1000000000"
proof -
  have f: "unat (ns mod 1000000000) < 1000000000" by (simp add: unat_mod)
  have "unat (push_bit 32 (ns mod 1000000000)) = unat (ns mod 1000000000) * 4294967296"
    using f by (simp add: push_bit_eq_mult unat_mult_small)
  then have "unat (push_bit 32 (ns mod 1000000000) div 1000000000) =
      unat (ns mod 1000000000) * 4294967296 div 1000000000" by (simp add: unat_div)
  moreover have "unat (ns mod 1000000000) * 4294967296 div 1000000000 < 4294967296"
    using f by (simp add: div_less_iff_less_mult)
  ultimately show ?thesis by (simp add: unat_ucast_mod unat_mod)
qed

lemma frac_floor:
  fixes f :: nat
  defines "q \<equiv> f * 4294967296 div 1000000000"
  shows "q * 1000000000 div 4294967296 \<le> f \<and> f \<le> q * 1000000000 div 4294967296 + 1"
proof -
  let ?x = "f * 4294967296" and ?G = "1000000000 :: nat" and ?W = "4294967296 :: nat"
  have "?x = q * ?G + ?x mod ?G" unfolding q_def by (rule div_mult_mod_eq [symmetric])
  moreover have "?x mod ?G < ?G" by simp
  ultimately have a: "q * ?G \<le> f * ?W" "f * ?W < q * ?G + ?G" by linarith+
  have "q * ?G div ?W \<le> f * ?W div ?W" by (rule div_le_mono [OF a(1)])
  moreover have "f * ?W \<le> q * ?G + ?W" using a(2) by simp
  then have "f * ?W div ?W \<le> (q * ?G + ?W) div ?W" by (rule div_le_mono)
  ultimately show ?thesis by simp
qed

text \<open>The time in a PTP sync packet, read as seconds and a 32-bit binary fraction, is the given clock
  value up to one nanosecond, until the seconds leave 32 bits in 2106; the packet also carries both
  RTP timestamps, the master's clock identity and the running sequence number, and only the first
  one after a reset has the extension bit.\<close>

theorem ptp_sync_packet_time:
  assumes "snd (control_target s) \<noteq> 0" and "length cid = 8" and "unat ns div 1000000000 < 4294967296"
  shows "\<exists>p s'. prepare_ptp_sync ts ns next_ts cid s = (Some p, s') \<and> length p = 28 \<and>
    p ! 0 = (if first_sync_sent s then 0x80 else 0x90) \<and> wire_seq p = sync_sequence s \<and>
    first_sync_sent s' \<and> sync_sequence s' = sync_sequence s + 1 \<and>
    from_be (slice p 4 8) = ts \<and> from_be (slice p 16 20) = next_ts \<and> slice p 20 28 = cid \<and>
    (let t = be_nat (slice p 8 12) * 1000000000 + be_nat (slice p 12 16) * 1000000000 div 4294967296
     in t \<le> unat ns \<and> unat ns \<le> t + 1)"
proof -
  let ?secs = "ucast (ns div 1000000000) :: u32"
    and ?frac = "ucast (push_bit 32 (ns mod 1000000000) div 1000000000) :: u32"
  let ?p = "[if first_sync_sent s then 0x80 else 0x90, 0xD7] @ to_be (sync_sequence s) @ to_be ts @
    to_be ?secs @ to_be ?frac @ to_be next_ts @ cid"
  have nat_be: "be_nat (to_be (w :: u32)) = unat w" for w
    using unat_u32_lt [of w] by (simp add: to_be_def be_nat_be_bytes)
  have sl: "slice ?p 4 8 = to_be ts" "slice ?p 8 12 = to_be ?secs" "slice ?p 12 16 = to_be ?frac"
    "slice ?p 16 20 = to_be next_ts" "slice ?p 20 28 = cid" "slice ?p 2 4 = to_be (sync_sequence s)"
    using assms(2) by (simp_all add: codec_simps)
  have len: "length ?p = 28" using assms(2) by simp
  have "wire_seq ?p = from_be (slice ?p 2 4)" by (rule wire_seq_slice) simp
  then have sq: "wire_seq ?p = sync_sequence s" unfolding sl(6) by (simp only: from_be_word)
  have secs: "unat ?secs = unat ns div 1000000000" using assms(3) by (simp add: unat_ucast_mod unat_div)
  have tm: "(let t = be_nat (slice ?p 8 12) * 1000000000 + be_nat (slice ?p 12 16) * 1000000000 div 4294967296
     in t \<le> unat ns \<and> unat ns \<le> t + 1)"
    unfolding sl nat_be secs unat_ptp_frac Let_def
    using frac_floor [of "unat ns mod 1000000000"] div_mult_mod_eq [of "unat ns" 1000000000] by linarith
  have rtp: "from_be (slice ?p 4 8) = ts" "from_be (slice ?p 16 20) = next_ts"
    unfolding sl by (rule from_be_word)+
  have first: "?p ! 0 = (if first_sync_sent s then 0x80 else 0x90)" by simp
  let ?s' = "s\<lparr>first_sync_sent := True, sync_sequence := sync_sequence s + 1\<rparr>"
  have st: "first_sync_sent ?s'" "sync_sequence ?s' = sync_sequence s + 1" by simp_all
  show ?thesis
    using prepare_ptp_sync_layout [OF assms(1,2), of ts ns next_ts] len first sq st rtp sl(5) tm
    by (intro exI [of _ ?p] exI [of _ ?s'] conjI)
qed

theorem ptp_sync_packet_time_witness:
  "\<exists>p s'. prepare_ptp_sync 44100 1700000000123456789 88200 (replicate 8 3) (sender_new (V4 1, 6000) 7) = (Some p, s') \<and>
    length p = 28 \<and>
    p ! 0 = (if first_sync_sent (sender_new (V4 1, 6000) 7) then 0x80 else 0x90) \<and>
    wire_seq p = sync_sequence (sender_new (V4 1, 6000) 7) \<and>
    first_sync_sent s' \<and> sync_sequence s' = sync_sequence (sender_new (V4 1, 6000) 7) + 1 \<and>
    from_be (slice p 4 8) = (44100 :: u32) \<and> from_be (slice p 16 20) = (88200 :: u32) \<and>
    slice p 20 28 = replicate 8 3 \<and>
    (let t = be_nat (slice p 8 12) * 1000000000 + be_nat (slice p 12 16) * 1000000000 div 4294967296
     in t \<le> unat (1700000000123456789 :: u64) \<and> unat (1700000000123456789 :: u64) \<le> t + 1)"
  by (rule ptp_sync_packet_time) (simp_all add: control_target_def sender_new_def)

end
