(* ===== verification/Sender_Thread.thy ===== *)
theory Sender_Thread
  imports Rtp
begin

text \<open>
  The real-time sender thread, \<open>src/audio/sender_thread.rs\<close> (its Linux variant). The thread is a
  machine whose events are the results of its receives with the monotonic clock read while handling
  them, and whose outputs are the absolute sleeps and the datagrams handed to the sockets; a failed
  send is only logged. The jitter statistics feed the log and nothing else, and the start-up calls (priority,
  power saving, the absolute sleep) are in \<open>Sockets\<close>.
\<close>

section \<open>The thread\<close>

datatype sender_message = Packet "bytes list" "bytes option" | PauseMsg | ResumeMsg | StopMsg

record send_target =
  tg_data_dest :: sock_addr
  tg_control_socket :: bool
  tg_control_dest :: "sock_addr option"

datatype thread_socket = DataSocket nat | ControlSocket nat

datatype thread_out = SleepUntil u64 | SendTo thread_socket sock_addr bytes

datatype thread_mode = ThRunning | ThPaused | ThExited

record sender_thread =
  th_targets :: "send_target list"
  th_burst_size :: nat
  th_burst_ns :: u64
  th_deadline_ns :: u64
  th_started :: bool
  th_burst_buffer :: "(bytes list \<times> bytes option) list"
  th_mode :: thread_mode

text \<open>\<open>frame_duration.as_nanos() as u64\<close>.\<close>

definition sender_thread_start :: "send_target list \<Rightarrow> u64 \<Rightarrow> nat \<Rightarrow> u64 \<Rightarrow> sender_thread" where
  "sender_thread_start targets frame_ns burst now =
     (let burst = max burst 1 in
      \<lparr>th_targets = targets, th_burst_size = burst, th_burst_ns = frame_ns * word_of_nat burst,
       th_deadline_ns = now, th_started = False, th_burst_buffer = [], th_mode = ThRunning\<rparr>)"

text \<open>One packet of the burst: its sync datagram to every target, then its audio datagrams.\<close>

definition sync_datagrams :: "send_target list \<Rightarrow> bytes option \<Rightarrow> thread_out list" where
  "sync_datagrams targets sync_data =
     (case sync_data of
        None \<Rightarrow> []
      | Some sync \<Rightarrow>
          map (\<lambda>(i, t). SendTo (if tg_control_socket t then ControlSocket i else DataSocket i)
              (case tg_control_dest t of None \<Rightarrow> tg_data_dest t | Some d \<Rightarrow> d) sync)
            (enumerate 0 targets))"

definition audio_datagrams :: "send_target list \<Rightarrow> bytes list \<Rightarrow> thread_out list" where
  "audio_datagrams targets wire_packets =
     map (\<lambda>(i, t). SendTo (DataSocket i) (tg_data_dest t) (wire_packets ! i))
       (filter (\<lambda>(i, t). i < length wire_packets) (enumerate 0 targets))"

definition packet_datagrams :: "send_target list \<Rightarrow> bytes list \<times> bytes option \<Rightarrow> thread_out list" where
  "packet_datagrams targets p = sync_datagrams targets (snd p) @ audio_datagrams targets (fst p)"

definition burst_datagrams :: "send_target list \<Rightarrow> (bytes list \<times> bytes option) list \<Rightarrow> thread_out list" where
  "burst_datagrams targets ps = concat (map (packet_datagrams targets) ps)"

text \<open>The clock is read before the burst (first packet, \<open>Resume\<close>) and after it.\<close>

datatype thread_event =
    ThMessage sender_message (clock_before: u64) (clock_after: u64) | ThTimeout | ThDisconnected

definition on_packet ::
  "bytes list \<times> bytes option \<Rightarrow> u64 \<Rightarrow> u64 \<Rightarrow> sender_thread \<Rightarrow> thread_out list \<times> sender_thread" where
  "on_packet p before after s =
     (let buf = th_burst_buffer s @ [p] in
      if length buf < th_burst_size s \<and> th_started s then ([], s\<lparr>th_burst_buffer := buf\<rparr>)
      else
        (let deadline = (if th_started s then th_deadline_ns s else before);
             sleep = (if th_started s then [SleepUntil deadline] else []);
             next = deadline + th_burst_ns s;
             next = (if next + th_burst_ns s < after then after else next)
         in (sleep @ burst_datagrams (th_targets s) buf,
             s\<lparr>th_burst_buffer := [], th_started := True, th_deadline_ns := next\<rparr>)))"

fun thread_step :: "sender_thread \<Rightarrow> thread_event \<Rightarrow> thread_out list \<times> sender_thread" where
  "thread_step s ev =
     (case th_mode s of
        ThExited \<Rightarrow> ([], s)
      | ThPaused \<Rightarrow>
          (case ev of
             ThMessage ResumeMsg now _ \<Rightarrow> ([], s\<lparr>th_deadline_ns := now, th_mode := ThRunning\<rparr>)
           | ThMessage StopMsg _ _ \<Rightarrow> ([], s\<lparr>th_mode := ThExited\<rparr>)
           | _ \<Rightarrow> ([], s))
      | ThRunning \<Rightarrow>
          (case ev of
             ThTimeout \<Rightarrow> ([], s)
           | ThDisconnected \<Rightarrow> ([], s\<lparr>th_mode := ThExited\<rparr>)
           | ThMessage StopMsg _ _ \<Rightarrow> ([], s\<lparr>th_mode := ThExited\<rparr>)
           | ThMessage PauseMsg _ _ \<Rightarrow> ([], s\<lparr>th_mode := ThPaused\<rparr>)
           | ThMessage ResumeMsg now _ \<Rightarrow> ([], s\<lparr>th_deadline_ns := now\<rparr>)
           | ThMessage (Packet wire_packets sync_data) before after \<Rightarrow>
               on_packet (wire_packets, sync_data) before after s))"

declare thread_step.simps [simp del]
lemmas thread_ops [step_defs] = thread_step.simps on_packet_def

section \<open>The gate\<close>

text \<open>The specification: a gate that lets packets through while it is open. \<open>Pause\<close> closes it,
  \<open>Resume\<close> opens it, \<open>Stop\<close> and, while open, the end of the channel remove it.\<close>

fun gate_step :: "thread_mode \<Rightarrow> thread_event \<Rightarrow> (bytes list \<times> bytes option) list \<times> thread_mode" where
  "gate_step ThExited ev = ([], ThExited)"
| "gate_step m (ThMessage StopMsg _ _) = ([], ThExited)"
| "gate_step ThRunning (ThMessage (Packet ps sy) _ _) = ([(ps, sy)], ThRunning)"
| "gate_step ThRunning (ThMessage PauseMsg _ _) = ([], ThPaused)"
| "gate_step ThPaused (ThMessage ResumeMsg _ _) = ([], ThRunning)"
| "gate_step ThRunning ThDisconnected = ([], ThExited)"
| "gate_step m _ = ([], m)"

definition is_datagram :: "thread_out \<Rightarrow> bool" where
  "is_datagram out = (case out of SleepUntil _ \<Rightarrow> False | SendTo _ _ _ \<Rightarrow> True)"

definition datagrams :: "thread_out list \<Rightarrow> thread_out list" where
  "datagrams outs = filter is_datagram outs"

lemma datagrams_append [simp]: "datagrams (xs @ ys) = datagrams xs @ datagrams ys"
  by (simp add: datagrams_def)

lemma datagrams_Nil [simp]: "datagrams [] = []"
  by (simp add: datagrams_def)

lemma datagrams_Sleep [simp]: "datagrams (SleepUntil d # outs) = datagrams outs"
  by (simp add: datagrams_def is_datagram_def)

lemma packet_datagrams_all: "datagrams (packet_datagrams ts p) = packet_datagrams ts p"
  by (auto simp: datagrams_def packet_datagrams_def sync_datagrams_def audio_datagrams_def is_datagram_def
      split: option.split intro!: filter_True)

lemma burst_datagrams_all [simp]: "datagrams (burst_datagrams ts ps) = burst_datagrams ts ps"
  by (induction ps) (simp_all add: burst_datagrams_def packet_datagrams_all)

lemma burst_datagrams_append [simp]:
  "burst_datagrams ts (ps @ qs) = burst_datagrams ts ps @ burst_datagrams ts qs"
  by (simp add: burst_datagrams_def)

lemma burst_datagrams_Nil [simp]: "burst_datagrams ts [] = []"
  by (simp add: burst_datagrams_def)

lemma thread_step_refines_gate:
  assumes "thread_step s ev = (outs, s')" and "gate_step (th_mode s) ev = (ps, m)"
  shows "datagrams outs @ burst_datagrams (th_targets s) (th_burst_buffer s') =
      burst_datagrams (th_targets s) (th_burst_buffer s @ ps) \<and>
    th_mode s' = m \<and> th_targets s' = th_targets s \<and> th_burst_size s' = th_burst_size s"
  using assms
  by (auto simp: thread_ops Let_def split: thread_mode.splits thread_event.splits sender_message.splits if_splits)

lemma thread_run_refines_gate:
  assumes "run_io thread_step s evs = (outs, s')" and "run_io gate_step (th_mode s) evs = (ps, m)"
  shows "datagrams outs @ burst_datagrams (th_targets s) (th_burst_buffer s') =
      burst_datagrams (th_targets s) (th_burst_buffer s @ ps) \<and>
    th_mode s' = m \<and> th_targets s' = th_targets s \<and> th_burst_size s' = th_burst_size s"
  using assms
proof (induction evs arbitrary: s outs ps)
  case (Cons ev evs)
  obtain o1 s1 where one: "thread_step s ev = (o1, s1)" by (cases "thread_step s ev")
  obtain o2 where more: "run_io thread_step s1 evs = (o2, s')" "outs = o1 @ o2"
    using Cons.prems(1) one by (auto split: prod.splits)
  obtain p1 m1 where gate: "gate_step (th_mode s) ev = (p1, m1)" by (cases "gate_step (th_mode s) ev")
  obtain p2 where gates: "run_io gate_step m1 evs = (p2, m)" "ps = p1 @ p2"
    using Cons.prems(2) gate by (auto split: prod.splits)
  note a = thread_step_refines_gate [OF one gate]
  with Cons.IH [OF more(1), of p2] gates a show ?case by (auto simp: more(2))
qed simp

text \<open>The burst buffer is shorter than a burst.\<close>

definition thread_inv :: "sender_thread \<Rightarrow> bool" where
  "thread_inv s \<longleftrightarrow> length (th_burst_buffer s) < th_burst_size s"

interpretation thread_run: machine "\<lambda>s ev. snd (thread_step s ev)" thread_inv
  by unfold_locales
    (auto simp: thread_inv_def thread_ops Let_def
      split: thread_mode.splits thread_event.splits sender_message.splits)

lemma sender_thread_start_simps [simp]:
  "th_mode (sender_thread_start ts ns b now) = ThRunning"
  "th_targets (sender_thread_start ts ns b now) = ts"
  "th_burst_size (sender_thread_start ts ns b now) = max b 1"
  "th_burst_buffer (sender_thread_start ts ns b now) = []"
  by (simp_all add: sender_thread_start_def Let_def)

section \<open>Pacing\<close>

definition sleeps :: "thread_out list \<Rightarrow> u64 list" where
  "sleeps outs = concat (map (\<lambda>out. case out of SleepUntil d \<Rightarrow> [d] | SendTo _ _ _ \<Rightarrow> []) outs)"

lemma sleeps_simps [simp]:
  "sleeps [] = []" "sleeps (SleepUntil d # outs) = d # sleeps outs"
  "sleeps (xs @ ys) = sleeps xs @ sleeps ys"
  by (simp_all add: sleeps_def)

lemma sleeps_packet: "sleeps (packet_datagrams ts p) = []"
  by (auto simp: sleeps_def packet_datagrams_def sync_datagrams_def audio_datagrams_def
      split: option.split)

lemma sleeps_burst [simp]: "sleeps (burst_datagrams ts ps) = []"
  by (induction ps) (simp_all add: burst_datagrams_def sleeps_packet)

lemma unat_add_twice:
  "unat a + 2 * unat b < 2 ^ 64 \<Longrightarrow> unat (a + b + b) = unat a + 2 * unat b" for a b :: u64
  using unat_add_small [of a b] unat_add_small [of "a + b" b] by simp

text \<open>A packet that is handled less than two bursts after its deadline moves the deadline by one.\<close>

lemma on_packet_in_time:
  assumes "th_started s" and "th_burst_size s = 1" and "th_burst_buffer s = []"
    and "unat (th_deadline_ns s) + 2 * unat (th_burst_ns s) < 2 ^ 64"
    and "unat after \<le> unat (th_deadline_ns s) + 2 * unat (th_burst_ns s)"
  shows "on_packet p before after s =
    (SleepUntil (th_deadline_ns s) # burst_datagrams (th_targets s) [p],
     s\<lparr>th_deadline_ns := th_deadline_ns s + th_burst_ns s\<rparr>)"
proof -
  have "unat (th_deadline_ns s + th_burst_ns s + th_burst_ns s) =
      unat (th_deadline_ns s) + 2 * unat (th_burst_ns s)"
    using assms(4) by (rule unat_add_twice)
  then have "\<not> th_deadline_ns s + th_burst_ns s + th_burst_ns s < after"
    using assms(5) by (simp add: word_less_nat_alt)
  with assms(1-3) show ?thesis by (simp add: on_packet_def Let_def)
qed

lemma thread_step_packet:
  "th_mode s = ThRunning \<Longrightarrow>
   thread_step s (ThMessage (Packet ps sy) before after) = on_packet (ps, sy) before after s"
  by (simp add: thread_step.simps)

definition packet_event :: "(nat \<Rightarrow> bytes list) \<Rightarrow> (nat \<Rightarrow> u64) \<Rightarrow> (nat \<Rightarrow> u64) \<Rightarrow> nat \<Rightarrow> thread_event" where
  "packet_event ps before after k = ThMessage (Packet (ps k) None) (before k) (after k)"

lemma pacing_started:
  assumes "th_started s" and "th_burst_size s = 1" and "th_burst_buffer s = []" and "th_mode s = ThRunning"
    and "unat (th_deadline_ns s) + (n + 1) * unat (th_burst_ns s) < 2 ^ 64"
    and "\<And>k. k < n \<Longrightarrow> unat (after (j + k)) \<le> unat (th_deadline_ns s) + (k + 2) * unat (th_burst_ns s)"
  shows "sleeps (fst (run_io thread_step s (map (packet_event ps before after) [j..<j + n]))) =
    map (\<lambda>k. th_deadline_ns s + word_of_nat k * th_burst_ns s) [0..<n]"
  using assms
proof (induction n arbitrary: s j)
  case (Suc n)
  let ?d = "th_burst_ns s"
  let ?s = "s\<lparr>th_deadline_ns := th_deadline_ns s + ?d\<rparr>"
  have dl: "unat (th_deadline_ns s + ?d) = unat (th_deadline_ns s) + unat ?d"
    using Suc.prems(5) by (simp add: unat_add_small)
  have one: "thread_step s (packet_event ps before after j) =
      (SleepUntil (th_deadline_ns s) # burst_datagrams (th_targets s) [(ps j, None)], ?s)"
    using Suc.prems(1-5) Suc.prems(6) [of 0]
    by (simp add: packet_event_def thread_step_packet on_packet_in_time)
  have "sleeps (fst (run_io thread_step ?s (map (packet_event ps before after) [Suc j..<Suc j + n]))) =
      map (\<lambda>k. th_deadline_ns ?s + word_of_nat k * th_burst_ns ?s) [0..<n]"
  proof (rule Suc.IH)
    show "unat (th_deadline_ns ?s) + (n + 1) * unat (th_burst_ns ?s) < 2 ^ 64"
      using Suc.prems(5) dl by simp
    show "unat (after (Suc j + k)) \<le> unat (th_deadline_ns ?s) + (k + 2) * unat (th_burst_ns ?s)"
      if "k < n" for k
      using Suc.prems(6) [of "Suc k"] that dl by (simp add: algebra_simps)
  qed (use Suc.prems in simp_all)
  moreover have "[j..<j + Suc n] = j # [Suc j..<Suc j + n]" by (simp add: upt_rec)
  moreover have "[0..<Suc n] = 0 # map Suc [0..<n]" by (simp add: upt_conv_Cons map_Suc_upt)
  ultimately show ?case
    using one by (simp add: split_def Let_def algebra_simps comp_def)
qed simp

section \<open>Claims\<close>


text \<open>The thread does not drift. If every packet is handled within two frame times of its
  deadline, then the sleeps before packets 2, 3, ... of a stream end at the start of the first one
  plus 1, 2, ... frame times exactly, however long the individual sends took.\<close>

theorem sender_thread_does_not_drift:
  assumes "before 0 = t0" and "unat t0 + (n + 2) * unat ns < 2 ^ 64"
    and "\<forall>k < n. unat (after k) \<le> unat t0 + (k + 2) * unat ns"
  shows "sleeps (fst (run_io thread_step (sender_thread_start ts ns 1 now)
      (map (packet_event ps before after) [0..<n]))) =
    map (\<lambda>k. t0 + word_of_nat k * ns) [1..<n]"
proof (cases n)
  case (Suc m)
  let ?s = "sender_thread_start ts ns 1 now"
  let ?s1 = "?s\<lparr>th_started := True, th_deadline_ns := t0 + ns\<rparr>"
  have lt: "unat t0 + 2 * unat ns < 2 ^ 64" using assms(2) Suc by simp
  then have u: "unat (t0 + ns) = unat t0 + unat ns" by (simp add: unat_add_small)
  from unat_add_twice [OF lt] have "\<not> t0 + ns + ns < after 0"
    using assms(3) Suc by (auto simp: word_less_nat_alt dest!: spec [of _ 0])
  then have one: "thread_step ?s (packet_event ps before after 0) =
      (burst_datagrams ts [(ps 0, None)], ?s1)"
    by (simp add: packet_event_def thread_step_packet on_packet_def Let_def sender_thread_start_def assms(1))
  have "sleeps (fst (run_io thread_step ?s1 (map (packet_event ps before after) [1..<1 + m]))) =
      map (\<lambda>k. th_deadline_ns ?s1 + word_of_nat k * th_burst_ns ?s1) [0..<m]"
  proof (rule pacing_started)
    show "unat (after (1 + k)) \<le> unat (th_deadline_ns ?s1) + (k + 2) * unat (th_burst_ns ?s1)"
      if "k < m" for k
      using assms(3) Suc u(1) that
      by (auto simp: sender_thread_start_def Let_def algebra_simps dest!: spec [of _ "Suc k"])
  qed (use assms(2) Suc u(1) in \<open>simp_all add: sender_thread_start_def Let_def algebra_simps\<close>)
  moreover have "[0..<n] = 0 # [1..<1 + m]" using Suc by (simp add: upt_conv_Cons)
  moreover have "[1..<n] = map Suc [0..<m]" using Suc by (simp add: map_Suc_upt)
  ultimately show ?thesis
    using one by (simp add: split_def Let_def sender_thread_start_def algebra_simps comp_def)
qed simp

theorem sender_thread_does_not_drift_witness:
  "sleeps (fst (run_io thread_step (sender_thread_start [] 7981859 1 0)
      (map (packet_event (\<lambda>_. []) (\<lambda>_. 1000) (\<lambda>k. 2000 + word_of_nat k * 7981859)) [0..<3]))) =
    map (\<lambda>k. 1000 + word_of_nat k * 7981859) [1..<3]"
proof (rule sender_thread_does_not_drift)
  show "\<forall>k < 3. unat (2000 + word_of_nat k * 7981859 :: u64) \<le> unat (1000 :: u64) + (k + 2) * unat (7981859 :: u64)"
    by (simp add: numeral_3_eq_3 less_Suc_eq all_conj_distrib)
qed simp_all

text \<open>A paused thread is deaf. Until a \<open>Resume\<close> or a \<open>Stop\<close> arrives it discards every packet
  it receives, and it does not even notice that all senders are gone: the end of the channel leaves
  it in the pause loop, so it never ends.\<close>

theorem paused_thread_is_deaf:
  assumes "th_mode s = ThPaused"
    and "\<forall>ev \<in> set evs. \<forall>a b. ev \<noteq> ThMessage ResumeMsg a b \<and> ev \<noteq> ThMessage StopMsg a b"
  shows "run_io thread_step s evs = ([], s)"
  using assms(2)
proof (induction evs)
  case (Cons ev evs)
  then have "thread_step s ev = ([], s)"
    using assms(1) by (auto simp: thread_step.simps split: thread_event.split sender_message.split)
  with Cons show ?case by simp
qed simp

theorem paused_thread_is_deaf_witness:
  "run_io thread_step (sender_thread_start [] 1 1 0\<lparr>th_mode := ThPaused\<rparr>)
     (ThMessage (Packet [[1]] None) 0 0 # replicate 1000 ThDisconnected) =
   ([], sender_thread_start [] 1 1 0\<lparr>th_mode := ThPaused\<rparr>)"
  by (rule paused_thread_is_deaf) (simp_all add: set_replicate_conv_if)

end
