(* ===== verification/Streamer.thy ===== *)
theory Streamer
  imports Audio_Buffer Live_Decoder Encoder Rtp Clock Sender_Thread
begin

text \<open>
  The audio streamer, \<open>src/audio/streamer.rs\<close>: the loop that fills the jitter buffer from the
  decoder, encodes one frame at a time, stamps it, decides when a sync packet is due, and hands the
  datagrams to the sender thread or, without one, to the sockets. The calls of \<open>AudioStreamer\<close> and
  the iterations of the loop interleave; what runs under the mutex is one step of the model. The
  atomics of \<open>AudioStreamer\<close> (\<open>state_cache\<close> and the counters) are fields beside the inner state.
  Third-party parts are parameters: the resampler, the ALAC codec, the clocks (read in each step).
\<close>

section \<open>State\<close>

definition DEFAULT_BUFFER_CAPACITY_MS :: u32 where "DEFAULT_BUFFER_CAPACITY_MS = 2000"
definition BUFFER_LOW_WATERMARK_PERCENT :: rat where "BUFFER_LOW_WATERMARK_PERCENT = 40"
definition BUFFER_RESUME_FILL_PERCENT :: rat where "BUFFER_RESUME_FILL_PERCENT = 10"
definition DECODE_BATCH_LIMIT :: nat where "DECODE_BATCH_LIMIT = 3"
definition DEFAULT_BURST_SIZE :: nat where "DEFAULT_BURST_SIZE = 1"
definition NANOS_PER_MILLI :: u64 where "NANOS_PER_MILLI = 1000000"

datatype streamer_state = StIdle | StBuffering | StStreaming | StPaused | StStopped | StError

record streamer_inner =
  si_state :: streamer_state
  si_config :: stream_config
  si_buffer :: audio_buffer
  rtp_senders :: "rtp_sender list"
  current_timestamp :: u64
  last_sync_rtp :: u32
  si_clock_offset :: "clock_offset option"
  si_timing_rx :: bool
  live_decoder :: "live_decoder option"
  si_encoder :: "alac_encoder option"
  first_packet_sent :: bool
  render_delay_ns :: u64
  use_ptp_sync :: bool
  ptp_master_clock_id :: bytes

record audio_streamer =
  st_inner :: streamer_inner
  st_task :: bool
  state_cache :: streamer_state
  timestamp_cache :: u64
  st_packets_sent :: u64
  st_underruns :: u64
  st_sender_thread :: bool
  st_sender_tx :: bool
  loop_running :: bool
  loop_checked :: bool
  loop_deadline :: u64

definition streamer_new :: "stream_config \<Rightarrow> audio_streamer" where
  "streamer_new config =
     \<lparr>st_inner = \<lparr>si_state = StIdle, si_config = config,
        si_buffer = buffer_new (audio_format config) DEFAULT_BUFFER_CAPACITY_MS, rtp_senders = [],
        current_timestamp = 0, last_sync_rtp = 0, si_clock_offset = None, si_timing_rx = False,
        live_decoder = None, si_encoder = None, first_packet_sent = False, render_delay_ns = 0,
        use_ptp_sync = False, ptp_master_clock_id = replicate 8 0\<rparr>,
      st_task = False, state_cache = StIdle, timestamp_cache = 0, st_packets_sent = 0, st_underruns = 0,
      st_sender_thread = False, st_sender_tx = False, loop_running = False, loop_checked = False,
      loop_deadline = 0\<rparr>"

section \<open>Settings\<close>

definition on_inner :: "(streamer_inner \<Rightarrow> streamer_inner) \<Rightarrow> audio_streamer \<Rightarrow> audio_streamer" where
  "on_inner f s = s\<lparr>st_inner := f (st_inner s)\<rparr>"

definition set_rtp_sender :: "rtp_sender \<Rightarrow> audio_streamer \<Rightarrow> audio_streamer" where
  "set_rtp_sender r = on_inner (\<lambda>i. i\<lparr>rtp_senders := [r]\<rparr>)"

definition set_rtp_senders :: "rtp_sender list \<Rightarrow> audio_streamer \<Rightarrow> audio_streamer" where
  "set_rtp_senders rs = on_inner (\<lambda>i. i\<lparr>rtp_senders := rs\<rparr>)"

definition set_ptp_sync_mode :: "bytes \<Rightarrow> audio_streamer \<Rightarrow> audio_streamer" where
  "set_ptp_sync_mode clock_id = on_inner (\<lambda>i. i\<lparr>use_ptp_sync := True, ptp_master_clock_id := clock_id\<rparr>)"

definition set_render_delay_ms :: "u32 \<Rightarrow> audio_streamer \<Rightarrow> audio_streamer" where
  "set_render_delay_ms ms = on_inner (\<lambda>i. i\<lparr>render_delay_ns := ucast ms * NANOS_PER_MILLI\<rparr>)"

definition set_timing_offset :: "clock_offset \<Rightarrow> audio_streamer \<Rightarrow> audio_streamer" where
  "set_timing_offset off = on_inner (\<lambda>i. i\<lparr>si_clock_offset := Some off\<rparr>)"

definition set_timing_updates :: "audio_streamer \<Rightarrow> audio_streamer" where
  "set_timing_updates = on_inner (\<lambda>i. i\<lparr>si_timing_rx := True\<rparr>)"

definition handle_retransmit_for_target ::
  "(bytes \<Rightarrow> bool) \<Rightarrow> nat \<Rightarrow> retransmit_request \<Rightarrow> audio_streamer \<Rightarrow> bytes list \<times> (error + u16)" where
  "handle_retransmit_for_target sent index r s =
     (if index < length (rtp_senders (st_inner s))
      then handle_retransmit sent (rtp_senders (st_inner s) ! index) r
      else ([], Inr 0))"

definition streamer_position :: "audio_streamer \<Rightarrow> u64" where
  "streamer_position s = timestamp_cache s"

section \<open>Filling the buffer\<close>

text \<open>\<open>update\<close> is the new value on the watch channel, if it has changed.\<close>

definition update_timing_offset :: "clock_offset option \<Rightarrow> streamer_inner \<Rightarrow> streamer_inner" where
  "update_timing_offset update i =
     (if si_timing_rx i then
        (case update of None \<Rightarrow> i | Some latest \<Rightarrow> i\<lparr>si_clock_offset := Some latest\<rparr>)
      else i)"

fun decode_batch :: "resampler_maker \<Rightarrow> nat \<Rightarrow> streamer_inner \<Rightarrow> (error fault + unit) \<times> streamer_inner" where
  "decode_batch rn 0 i = (Inr (), i)"
| "decode_batch rn (Suc k) i =
     (let format = audio_format (si_config i); packet_frames = unat (frames_per_packet format) in
      case live_decoder i of
        None \<Rightarrow> (Inr (), i)
      | Some d \<Rightarrow>
          (case decode_resampled rn format packet_frames d of
             (Inl e, d) \<Rightarrow> (Inl e, i\<lparr>live_decoder := Some d\<rparr>)
           | (Inr None, d) \<Rightarrow> (Inr (), i\<lparr>live_decoder := Some d\<rparr>)
           | (Inr (Some frame), d) \<Rightarrow>
               (case buffer_push (audio_frame_new (dec_samples frame)) (si_buffer i) of
                  (Inl (Fail _), b) \<Rightarrow>
                    (Inl (Fail (Streaming BufferOverflow)), i\<lparr>live_decoder := Some d, si_buffer := b\<rparr>)
                | (Inl Panic, b) \<Rightarrow> (Inl Panic, i\<lparr>live_decoder := Some d, si_buffer := b\<rparr>)
                | (Inr _, b) \<Rightarrow> decode_batch rn k (i\<lparr>live_decoder := Some d, si_buffer := b\<rparr>))))"

definition decode_some_inner :: "resampler_maker \<Rightarrow> streamer_inner \<Rightarrow> (error fault + unit) \<times> streamer_inner" where
  "decode_some_inner rn = decode_batch rn DECODE_BATCH_LIMIT"

definition refill_buffer_if_needed ::
  "resampler_maker \<Rightarrow> streamer_inner \<Rightarrow> (error fault + unit) \<times> streamer_inner" where
  "refill_buffer_if_needed rn i =
     (if BUFFER_LOW_WATERMARK_PERCENT \<le> fill_percentage (si_buffer i) then (Inr (), i)
      else decode_some_inner rn i)"

datatype buffering_action = Ready | Wait | StopLoop

definition buffering_action :: "streamer_inner \<Rightarrow> buffering_action \<times> streamer_inner" where
  "buffering_action i =
     (if si_state i \<noteq> StBuffering then (Ready, i)
      else if BUFFER_RESUME_FILL_PERCENT < fill_percentage (si_buffer i) then
        (Ready, i\<lparr>si_state := StStreaming\<rparr>)
      else
        (let live_decoder_eof = (case live_decoder i of None \<Rightarrow> True | Some d \<Rightarrow> is_eof d);
             has_live_decoder = (live_decoder i \<noteq> None)
         in if has_live_decoder \<and> live_decoder_eof \<and> buffer_is_empty (si_buffer i) then
              (StopLoop, i\<lparr>si_state := StStopped\<rparr>)
            else (Wait, i)))"

section \<open>Sending one frame\<close>

definition adjusted_wall_time :: "streamer_inner \<Rightarrow> u64 \<Rightarrow> u64" where
  "adjusted_wall_time i local_wall =
     (case si_clock_offset i of None \<Rightarrow> local_wall | Some off \<Rightarrow> apply_offset local_wall off)"

definition need_sync :: "streamer_inner \<Rightarrow> u32 \<Rightarrow> bool" where
  "need_sync i rtp_ts \<longleftrightarrow> \<not> first_packet_sent i \<or> last_sync_rtp i = 0 \<or>
     as_hz (sample_rate (audio_format (si_config i))) \<le> rtp_ts - last_sync_rtp i"

definition update_sent_packet_state :: "u32 \<Rightarrow> bool \<Rightarrow> bool \<Rightarrow> u64 \<Rightarrow> audio_streamer \<Rightarrow> audio_streamer" where
  "update_sent_packet_state rtp_ts first_packet sync next_timestamp s =
     (let i = st_inner s;
          i = (if sync then i\<lparr>last_sync_rtp := rtp_ts\<rparr> else i);
          i = (if first_packet then i\<lparr>first_packet_sent := True\<rparr> else i);
          i = i\<lparr>current_timestamp := next_timestamp\<rparr>
      in s\<lparr>st_inner := i, timestamp_cache := next_timestamp, st_packets_sent := st_packets_sent s + 1\<rparr>)"

definition record_buffer_underrun :: "audio_streamer \<Rightarrow> audio_streamer" where
  "record_buffer_underrun s =
     s\<lparr>st_underruns := st_underruns s + 1, st_inner := (st_inner s)\<lparr>si_state := StBuffering\<rparr>,
       state_cache := StBuffering\<rparr>"

text \<open>\<open>prepare_audio\<close> and \<open>send_audio\<close> for every sender in turn; the first failure ends it.\<close>

fun prepare_all :: "u8 \<Rightarrow> u32 \<Rightarrow> bytes \<Rightarrow> bool \<Rightarrow> rtp_sender list \<Rightarrow> (error fault + bytes list) \<times> rtp_sender list" where
  "prepare_all pt ts payload mk [] = (Inr [], [])"
| "prepare_all pt ts payload mk (r # rs) =
     (case prepare_audio pt ts payload mk r of
        (Inl e, r) \<Rightarrow> (Inl e, r # rs)
      | (Inr wire, r) \<Rightarrow>
          (let (res, rs) = prepare_all pt ts payload mk rs
           in (and_then res (\<lambda>wires. Inr (wire # wires)), r # rs)))"

fun send_all ::
  "(bytes \<Rightarrow> bool) \<Rightarrow> u8 \<Rightarrow> u32 \<Rightarrow> bytes \<Rightarrow> bool \<Rightarrow> rtp_sender list \<Rightarrow>
   (bytes \<times> sock_addr) list \<times> (error fault + unit) \<times> rtp_sender list" where
  "send_all sent pt ts payload mk [] = ([], Inr (), [])"
| "send_all sent pt ts payload mk (r # rs) =
     (case send_audio sent pt ts payload mk r of
        (outs, Inl e, r) \<Rightarrow> (outs, Inl e, r # rs)
      | (outs, Inr _, r) \<Rightarrow>
          (let (more_outs, res, rs) = send_all sent pt ts payload mk rs
           in (outs @ more_outs, res, r # rs)))"

text \<open>The outputs of a step: a message for the sender thread, or datagrams.\<close>

datatype stream_out = ToThread sender_message | Wire bytes sock_addr

text \<open>How an iteration ends: the next one follows (at once, or after a sleep until the deadline), the
  loop breaks, or an error leaves it.\<close>

datatype loop_end = NextNow | NextAt u64 | RetryLater | Broken | Failed "error fault"

text \<open>What an iteration reads from outside: a new clock offset, the wall clock, the monotonic clock,
  which datagrams the sockets accept, and whether the sender thread still receives.\<close>

record tick =
  tk_offset :: "clock_offset option"
  tk_wall :: u128
  tk_now :: u64
  tk_accepts :: "bytes \<Rightarrow> bool"
  tk_thread_alive :: bool

definition sync_for_thread ::
  "bool \<Rightarrow> u32 \<Rightarrow> u64 \<Rightarrow> streamer_inner \<Rightarrow> bytes option \<times> streamer_inner" where
  "sync_for_thread sync rtp_ts render_adjusted i =
     (case rtp_senders i of
        [] \<Rightarrow> (None, i)
      | r # rs \<Rightarrow>
          if \<not> sync then (None, i)
          else
            (let rate = as_hz (sample_rate (audio_format (si_config i)));
                 (data, r) = (if use_ptp_sync i
                   then prepare_ptp_sync rtp_ts render_adjusted
                     (next_airplay_packet_timestamp rtp_ts rate) (ptp_master_clock_id i) r
                   else prepare_sync rtp_ts (unix_to_ntp render_adjusted) r)
             in (data, i\<lparr>rtp_senders := r # rs\<rparr>)))"

definition sync_to_socket ::
  "(bytes \<Rightarrow> bool) \<Rightarrow> bool \<Rightarrow> u32 \<Rightarrow> u64 \<Rightarrow> streamer_inner \<Rightarrow>
   (bytes \<times> sock_addr) list \<times> (error + unit) \<times> streamer_inner" where
  "sync_to_socket sent sync rtp_ts render_adjusted i =
     (case rtp_senders i of
        [] \<Rightarrow> ([], Inr (), i)
      | r # rs \<Rightarrow>
          if \<not> sync then ([], Inr (), i)
          else
            (let rate = as_hz (sample_rate (audio_format (si_config i)));
                 (outs, res, r) = (if use_ptp_sync i
                   then send_ptp_sync_packet sent rtp_ts render_adjusted
                     (next_airplay_packet_timestamp rtp_ts rate) (ptp_master_clock_id i) r
                   else send_sync sent rtp_ts (unix_to_ntp render_adjusted) r)
             in (outs, res, i\<lparr>rtp_senders := r # rs\<rparr>)))"

text \<open>The end of an iteration that neither breaks nor continues early.\<close>

definition finish_iteration :: "tick \<Rightarrow> audio_streamer \<Rightarrow> loop_end \<times> audio_streamer" where
  "finish_iteration tk s =
     (if st_sender_tx s then (NextNow, s)
      else
        (let format = audio_format (si_config (st_inner s));
             frame_duration_ns = ucast (frames_per_packet format) * 1000000000 div ucast (as_hz (sample_rate format));
             deadline = loop_deadline s + frame_duration_ns
         in (if tk_now tk < deadline then NextAt deadline else NextNow, s\<lparr>loop_deadline := deadline\<rparr>)))"

text \<open>An encoded packet goes out.\<close>

definition send_packet :: "tick \<Rightarrow> encoded_packet \<Rightarrow> audio_streamer \<Rightarrow> stream_out list \<times> loop_end \<times> audio_streamer" where
  "send_packet tk packet s =
     (let i = st_inner s;
          payload_type = (word_of_nat (stream_type_code (stream_type (si_config i))) :: u8);
          adjusted = adjusted_wall_time i (now_wall_ns (tk_wall tk));
          render_adjusted = adjusted + render_delay_ns i;
          first_packet = (\<not> first_packet_sent i);
          rtp_ts = (ucast (pkt_timestamp packet) :: u32);
          sync = need_sync i rtp_ts;
          next_timestamp = pkt_timestamp packet + ucast (pkt_samples packet)
      in if rtp_senders i = [] then
           (let (e, s) = finish_iteration tk s in ([], e, s))
         else if st_sender_tx s then
           (let (sync_data, i) = sync_for_thread sync rtp_ts render_adjusted i in
            case prepare_all payload_type rtp_ts (pkt_data packet) first_packet (rtp_senders i) of
              (Inl e, rs) \<Rightarrow> ([], Failed e, s\<lparr>st_inner := i\<lparr>rtp_senders := rs\<rparr>\<rparr>)
            | (Inr wire_packets, rs) \<Rightarrow>
                (let s = update_sent_packet_state rtp_ts first_packet sync next_timestamp
                           (s\<lparr>st_inner := i\<lparr>rtp_senders := rs\<rparr>\<rparr>)
                 in if tk_thread_alive tk then ([ToThread (Packet wire_packets sync_data)], NextNow, s)
                    else ([], Broken, s\<lparr>state_cache := StError\<rparr>)))
         else
           (case sync_to_socket (tk_accepts tk) sync rtp_ts render_adjusted i of
              (outs, Inl e, i) \<Rightarrow> (map (case_prod Wire) outs, Failed (Fail e), s\<lparr>st_inner := i\<rparr>)
            | (outs, Inr _, i) \<Rightarrow>
                (case send_all (tk_accepts tk) payload_type rtp_ts (pkt_data packet) first_packet (rtp_senders i) of
                   (outs', Inl e, rs) \<Rightarrow>
                     (map (case_prod Wire) (outs @ outs'), Failed e, s\<lparr>st_inner := i\<lparr>rtp_senders := rs\<rparr>\<rparr>)
                 | (outs', Inr _, rs) \<Rightarrow>
                     (let (e, s) = finish_iteration tk (update_sent_packet_state rtp_ts first_packet sync
                            next_timestamp (s\<lparr>st_inner := i\<lparr>rtp_senders := rs\<rparr>\<rparr>))
                      in (map (case_prod Wire) (outs @ outs'), e, s)))))"

text \<open>From the buffer to the wire.\<close>

definition send_next_frame :: "tick \<Rightarrow> audio_streamer \<Rightarrow> stream_out list \<times> loop_end \<times> audio_streamer" where
  "send_next_frame tk s =
     (let i = st_inner s in
      case buffer_pop (si_buffer i) of
        (Inl _, b) \<Rightarrow> ([], Failed Panic, s\<lparr>st_inner := i\<lparr>si_buffer := b\<rparr>\<rparr>)
      | (Inr None, b) \<Rightarrow>
          (let (e, s) = finish_iteration tk (record_buffer_underrun (s\<lparr>st_inner := i\<lparr>si_buffer := b\<rparr>\<rparr>))
           in ([], e, s))
      | (Inr (Some frame), b) \<Rightarrow>
          (case si_encoder i of
             None \<Rightarrow> ([], Failed (Fail (Streaming (Encoding ''Encoder missing''))),
                      s\<lparr>st_inner := i\<lparr>si_buffer := b\<rparr>\<rparr>)
           | Some enc \<Rightarrow>
               (case alac_encoder_encode (samples frame) enc of
                  (Inl e, enc) \<Rightarrow> ([], Failed e, s\<lparr>st_inner := i\<lparr>si_buffer := b, si_encoder := Some enc\<rparr>\<rparr>)
                | (Inr packet, enc) \<Rightarrow>
                    send_packet tk packet (s\<lparr>st_inner := i\<lparr>si_buffer := b, si_encoder := Some enc\<rparr>\<rparr>))))"

text \<open>An iteration takes the mutex twice: to look at the state, and to do its work. Calls of
  \<open>AudioStreamer\<close> can come between. \<open>loop_checked\<close> says that the first part is over.\<close>

definition loop_check :: "tick \<Rightarrow> audio_streamer \<Rightarrow> loop_end \<times> audio_streamer" where
  "loop_check tk s =
     (let st = si_state (st_inner s) in
      if st = StStopped \<or> st = StError then (Broken, s)
      else if st = StPaused then (RetryLater, s\<lparr>loop_deadline := tk_now tk\<rparr>)
      else (NextNow, s\<lparr>loop_checked := True\<rparr>))"

definition loop_body ::
  "resampler_maker \<Rightarrow> tick \<Rightarrow> audio_streamer \<Rightarrow> stream_out list \<times> loop_end \<times> audio_streamer" where
  "loop_body rn tk s =
     (let i = update_timing_offset (tk_offset tk) (st_inner s) in
      case refill_buffer_if_needed rn i of
        (Inl e, i) \<Rightarrow> ([], Failed e, s\<lparr>st_inner := i\<rparr>)
      | (Inr _, i) \<Rightarrow>
          (case buffering_action i of
             (StopLoop, i) \<Rightarrow> ([], Broken, s\<lparr>st_inner := i, state_cache := StStopped\<rparr>)
           | (Wait, i) \<Rightarrow>
               ([], RetryLater, s\<lparr>st_inner := i, state_cache := StBuffering, loop_deadline := tk_now tk\<rparr>)
           | (Ready, i) \<Rightarrow>
               send_next_frame tk
                 (s\<lparr>st_inner := i,
                    state_cache := (if si_state i = StStreaming then StStreaming else state_cache s)\<rparr>)))"

definition loop_part ::
  "resampler_maker \<Rightarrow> tick \<Rightarrow> audio_streamer \<Rightarrow> stream_out list \<times> loop_end \<times> audio_streamer" where
  "loop_part rn tk s =
     (if loop_checked s then loop_body rn tk (s\<lparr>loop_checked := False\<rparr>)
      else (let (e, s) = loop_check tk s in ([], e, s)))"

section \<open>The task and the calls\<close>

text \<open>The spawned task around the loop: an error is recorded (in the inner state only if the mutex is
  free), a clean end tells the sender thread to stop. \<open>signalled\<close> says whether a \<open>try_send\<close> to the
  sender thread succeeds.\<close>

definition task_step ::
  "resampler_maker \<Rightarrow> tick \<Rightarrow> bool \<Rightarrow> bool \<Rightarrow> audio_streamer \<Rightarrow> stream_out list \<times> audio_streamer" where
  "task_step rn tk mutex_free signalled s =
     (if \<not> loop_running s then ([], s)
      else (case loop_part rn tk s of
          (outs, Broken, s) \<Rightarrow>
            (outs @ (if st_sender_tx s \<and> signalled then [ToThread StopMsg] else []), s\<lparr>loop_running := False\<rparr>)
        | (outs, Failed (Fail e), s) \<Rightarrow>
            (outs, s\<lparr>loop_running := False, state_cache := StError,
                     st_inner := (if mutex_free then (st_inner s)\<lparr>si_state := StError\<rparr> else st_inner s)\<rparr>)
        | (outs, Failed Panic, s) \<Rightarrow> (outs, s\<lparr>loop_running := False\<rparr>)
        | (outs, _, s) \<Rightarrow> (outs, s)))"

text \<open>The targets of the sender thread: the senders whose data socket can be cloned.\<close>

definition send_targets :: "rtp_sender list \<Rightarrow> send_target list" where
  "send_targets rs =
     map (\<lambda>r. \<lparr>tg_data_dest = rtp_dest r,
               tg_control_socket = (control_socket r \<and> control_dest r \<noteq> None),
               tg_control_dest = (if control_socket r then control_dest r else None)\<rparr>)
       (filter rtp_socket rs)"

definition start_live ::
  "(u32 \<Rightarrow> u32 \<Rightarrow> u32 \<Rightarrow> alac_codec) \<Rightarrow> live_decoder \<Rightarrow> u64 \<Rightarrow> audio_streamer \<Rightarrow> (error + unit) \<times> audio_streamer" where
  "start_live codec_new d now s =
     (let s = on_inner (\<lambda>i. i\<lparr>live_decoder := Some d\<rparr>) s in
      case create_encoder codec_new (audio_format (si_config (st_inner s))) of
        Inl e \<Rightarrow> (Inl e, s)
      | Inr enc \<Rightarrow>
          (let s = on_inner (\<lambda>i. i\<lparr>si_encoder := Some enc, si_state := StBuffering\<rparr>) s;
               s = s\<lparr>state_cache := StBuffering\<rparr>
           in if st_task s then (Inr (), s)
              else
                (let s = (if send_targets (rtp_senders (st_inner s)) \<noteq> []
                          then s\<lparr>st_sender_thread := True, st_sender_tx := True\<rparr> else s)
                 in (Inr (), s\<lparr>st_task := True, loop_running := True, loop_checked := False,
                              loop_deadline := now\<rparr>))))"

definition signal_thread :: "bool \<Rightarrow> sender_message \<Rightarrow> audio_streamer \<Rightarrow> stream_out list" where
  "signal_thread signalled msg s = (if st_sender_tx s \<and> signalled then [ToThread msg] else [])"

definition streamer_pause :: "bool \<Rightarrow> audio_streamer \<Rightarrow> stream_out list \<times> audio_streamer" where
  "streamer_pause signalled s =
     (if si_state (st_inner s) = StStreaming then
        (signal_thread signalled PauseMsg s,
         s\<lparr>st_inner := (st_inner s)\<lparr>si_state := StPaused\<rparr>, state_cache := StPaused\<rparr>)
      else ([], s))"

definition streamer_resume :: "bool \<Rightarrow> audio_streamer \<Rightarrow> stream_out list \<times> audio_streamer" where
  "streamer_resume signalled s =
     (if si_state (st_inner s) = StPaused then
        (signal_thread signalled ResumeMsg s,
         s\<lparr>st_inner := (st_inner s)\<lparr>si_state := StStreaming\<rparr>, state_cache := StStreaming\<rparr>)
      else ([], s))"

definition reset_after_flush :: "audio_streamer \<Rightarrow> audio_streamer" where
  "reset_after_flush =
     on_inner (\<lambda>i. i\<lparr>first_packet_sent := False, rtp_senders := map reset_sync_state (rtp_senders i)\<rparr>)"

text \<open>\<open>stop\<close> joins the sender thread and aborts the task.\<close>

definition streamer_stop :: "bool \<Rightarrow> audio_streamer \<Rightarrow> stream_out list \<times> audio_streamer" where
  "streamer_stop signalled s =
     (let outs = signal_thread signalled StopMsg s;
          s = s\<lparr>state_cache := StStopped, st_sender_tx := False, st_sender_thread := False, st_task := False,
                loop_running := False\<rparr>;
          i = st_inner s
      in (outs, s\<lparr>st_inner := i\<lparr>si_state := StStopped, si_buffer := snd (buffer_flush (si_buffer i)),
                                live_decoder := None\<rparr>\<rparr>))"

datatype streamer_event =
    Tick tick bool bool | PauseCall bool | ResumeCall bool | ResetAfterFlush | StopCall bool

fun streamer_step :: "resampler_maker \<Rightarrow> audio_streamer \<Rightarrow> streamer_event \<Rightarrow> stream_out list \<times> audio_streamer" where
  "streamer_step rn s (Tick tk mutex_free signalled) = task_step rn tk mutex_free signalled s"
| "streamer_step rn s (PauseCall signalled) = streamer_pause signalled s"
| "streamer_step rn s (ResumeCall signalled) = streamer_resume signalled s"
| "streamer_step rn s ResetAfterFlush = ([], reset_after_flush s)"
| "streamer_step rn s (StopCall signalled) = streamer_stop signalled s"

end
