(* ===== verification/Control.thy ===== *)
theory Control
  imports Streamer
begin

text \<open>
  The control listeners (\<open>src/client/control.rs\<close>), which answer the retransmission requests of one
  device or of a group, and the statistics they keep (\<open>src/client/stats.rs\<close>). A listener is a fold
  over the outcomes of its receives; the streamer is locked for each request, so each outcome comes
  with the streamer's state of that moment and with what the socket accepts; the thread around it, its
  shutdown flag and its end are in \<open>Listener\<close>. The percentages of \<open>StatsSnapshot\<close> are exact rationals here, \<open>f64\<close> in the code.
\<close>

section \<open>Statistics\<close>

record device_stream_stats =
  dev_rtx_requested :: u64
  dev_rtx_fulfilled :: u64

record stream_stats =
  ss_packets_sent :: u64
  rtx_requested :: u64
  rtx_fulfilled :: u64
  device_stats :: "device_stream_stats list"

definition device_stream_stats_new :: device_stream_stats where
  "device_stream_stats_new = \<lparr> dev_rtx_requested = 0, dev_rtx_fulfilled = 0 \<rparr>"

definition stream_stats_new :: stream_stats where
  "stream_stats_new =
     \<lparr> ss_packets_sent = 0, rtx_requested = 0, rtx_fulfilled = 0, device_stats = [] \<rparr>"

definition with_device_count :: "nat \<Rightarrow> stream_stats" where
  "with_device_count count =
     \<lparr> ss_packets_sent = 0, rtx_requested = 0, rtx_fulfilled = 0,
       device_stats = replicate count device_stream_stats_new \<rparr>"

record stats_snapshot =
  snap_packets_sent :: u64
  snap_rtx_requested :: u64
  snap_rtx_fulfilled :: u64
  snap_underruns :: u64
  snap_devices :: "device_stream_stats list"

definition stats_snapshot :: "stream_stats \<Rightarrow> stats_snapshot" where
  "stats_snapshot st =
     \<lparr> snap_packets_sent = ss_packets_sent st, snap_rtx_requested = rtx_requested st,
       snap_rtx_fulfilled = rtx_fulfilled st, snap_underruns = 0, snap_devices = device_stats st \<rparr>"

definition loss_percent :: "stats_snapshot \<Rightarrow> rat" where
  "loss_percent s =
     (if snap_packets_sent s = 0 then 0
      else of_nat (unat (snap_rtx_requested s)) / of_nat (unat (snap_packets_sent s)) * 100)"

definition device_loss_percent :: "stats_snapshot \<Rightarrow> nat \<Rightarrow> rat" where
  "device_loss_percent s index =
     (if snap_packets_sent s = 0 then 0
      else if index < length (snap_devices s) then
        of_nat (unat (dev_rtx_requested (snap_devices s ! index))) /
          of_nat (unat (snap_packets_sent s)) * 100
      else 0)"

section \<open>The control socket\<close>

text \<open>What a read of the socket with a time-out comes to: a datagram, nothing in time, or a failure of
  the operating system (also of setting the time-out).\<close>

datatype control_recv = Datagram bytes | NoData | RecvError string

record rtp_receiver =
  rr_socket :: bool

definition receiver_new :: rtp_receiver where
  "receiver_new = \<lparr> rr_socket = False \<rparr>"

text \<open>\<open>bind\<close>: the socket is kept only when it is bound, has its time-out and tells its port.\<close>

definition receiver_bind ::
  "error + unit \<Rightarrow> error + unit \<Rightarrow> error + u16 \<Rightarrow> rtp_receiver \<Rightarrow> (error + u16) \<times> rtp_receiver" where
  "receiver_bind bound timeout_set local_port r =
     (case and_then bound (\<lambda>_. and_then timeout_set (\<lambda>_. local_port)) of
        Inl e \<Rightarrow> (Inl e, r)
      | Inr port \<Rightarrow> (Inr port, r\<lparr>rr_socket := True\<rparr>))"

text \<open>The buffer has 2048 bytes; the operating system cuts a longer datagram. The sender's address,
  which no caller looks at, is left out.\<close>

definition recv_raw_timeout :: "rtp_receiver \<Rightarrow> control_recv \<Rightarrow> error + bytes option" where
  "recv_raw_timeout r received =
     (if \<not> rr_socket r then Inl (Streaming (Encoding ''Socket not bound''))
      else (case received of
          Datagram data \<Rightarrow> Inr (Some (take 2048 data))
        | NoData \<Rightarrow> Inr None
        | RecvError e \<Rightarrow> Inl (Connection_error e)))"

definition try_clone_socket :: "rtp_receiver \<Rightarrow> error + unit \<Rightarrow> error + unit option" where
  "try_clone_socket r cloned = (if rr_socket r then map_sum id Some cloned else Inr None)"

section \<open>The listeners\<close>

record control_event =
  ce_recv :: control_recv
  ce_streamer :: audio_streamer
  ce_accepts :: "bytes \<Rightarrow> bool"

definition count_requested :: "u16 \<Rightarrow> stream_stats \<Rightarrow> stream_stats" where
  "count_requested n st = st\<lparr>rtx_requested := rtx_requested st + ucast n\<rparr>"

definition count_fulfilled :: "u16 \<Rightarrow> stream_stats \<Rightarrow> stream_stats" where
  "count_fulfilled n st = st\<lparr>rtx_fulfilled := rtx_fulfilled st + ucast n\<rparr>"

definition on_device ::
  "nat \<Rightarrow> (device_stream_stats \<Rightarrow> device_stream_stats) \<Rightarrow> stream_stats \<Rightarrow> stream_stats" where
  "on_device index f st =
     (if index < length (device_stats st)
      then st\<lparr>device_stats := (device_stats st)[index := f (device_stats st ! index)]\<rparr> else st)"

definition device_requested :: "u16 \<Rightarrow> device_stream_stats \<Rightarrow> device_stream_stats" where
  "device_requested n d = d\<lparr>dev_rtx_requested := dev_rtx_requested d + ucast n\<rparr>"

definition device_fulfilled :: "u16 \<Rightarrow> device_stream_stats \<Rightarrow> device_stream_stats" where
  "device_fulfilled n d = d\<lparr>dev_rtx_fulfilled := dev_rtx_fulfilled d + ucast n\<rparr>"

text \<open>The listener of one device: the responses it sends and the statistics.\<close>

definition single_step :: "rtp_receiver \<Rightarrow> stream_stats \<Rightarrow> control_event \<Rightarrow> bytes list \<times> stream_stats" where
  "single_step r st ev =
     (case recv_raw_timeout r (ce_recv ev) of
        Inr (Some data) \<Rightarrow>
          (case parse_retransmit_request data of
             None \<Rightarrow> ([], st)
           | Some request \<Rightarrow>
               (let st = count_requested (rt_count request) st in
                case handle_retransmit_for_target (ce_accepts ev) 0 request (ce_streamer ev) of
                  (outs, Inr retransmitted) \<Rightarrow>
                    (outs, if 0 < retransmitted then count_fulfilled retransmitted st else st)
                | (outs, Inl e) \<Rightarrow> (outs, st)))
      | Inr None \<Rightarrow> ([], st)
      | Inl e \<Rightarrow> ([], st))"

text \<open>The listener of a group reads the sockets itself: an event is of the socket of one device, and the
  buffer has 2048 bytes as well.\<close>

definition group_step :: "stream_stats \<Rightarrow> nat \<times> control_event \<Rightarrow> bytes list \<times> stream_stats" where
  "group_step st ie =
     (let (index, ev) = ie in
      case ce_recv ev of
        Datagram data \<Rightarrow>
          (case parse_retransmit_request (take 2048 data) of
             None \<Rightarrow> ([], st)
           | Some request \<Rightarrow>
               (let st = count_requested (rt_count request) st;
                    st = on_device index (device_requested (rt_count request)) st in
                case handle_retransmit_for_target (ce_accepts ev) index request (ce_streamer ev) of
                  (outs, Inr fulfilled) \<Rightarrow>
                    (outs,
                     if 0 < fulfilled
                     then on_device index (device_fulfilled fulfilled) (count_fulfilled fulfilled st)
                     else st)
                | (outs, Inl e) \<Rightarrow> (outs, st)))
      | NoData \<Rightarrow> ([], st)
      | RecvError e \<Rightarrow> ([], st))"

definition listen_single ::
  "rtp_receiver \<Rightarrow> stream_stats \<Rightarrow> control_event list \<Rightarrow> bytes list \<times> stream_stats" where
  "listen_single r = run_io (single_step r)"

definition listen_group :: "stream_stats \<Rightarrow> (nat \<times> control_event) list \<Rightarrow> bytes list \<times> stream_stats" where
  "listen_group = run_io group_step"

text \<open>\<open>spawn_group\<close> starts no listener for no sockets.\<close>

definition spawn_group :: "nat list \<Rightarrow> bool" where
  "spawn_group sockets \<longleftrightarrow> sockets \<noteq> []"

section \<open>What is counted\<close>

lemma handle_retransmit_count:
  assumes "handle_retransmit_for_target sent index r s = (outs, Inr n)"
  shows "n \<le> rt_count r \<and> unat n = length outs"
proof -
  have len: "length (fst (retransmit_loop sent rs (requested r))) \<le> unat (rt_count r)" for rs
    using retransmit_loop_length [of sent rs "requested r"] by (simp add: requested_def)
  have small: "unat (word_of_nat k :: u16) = k \<and> (word_of_nat k :: u16) \<le> rt_count r"
    if "k \<le> unat (rt_count r)" for k
    using that unat_u16_lt [of "rt_count r"] by (simp add: unat_of_nat word_le_nat_alt)
  show ?thesis
    using assms len small
    by (auto simp: handle_retransmit_for_target_def handle_retransmit_def split_def Let_def
        split: if_splits)
qed

text \<open>A receiver that is not bound never answers, and the listeners agree: what the group's listener does
  with a datagram of its first device is what the single listener does, but for the device's counters.\<close>

lemma unbound_single_step: "\<not> rr_socket r \<Longrightarrow> single_step r st ev = ([], st)"
  by (simp add: single_step_def recv_raw_timeout_def)

lemma on_device_totals [simp]:
  "rtx_requested (on_device i f st) = rtx_requested st" "rtx_fulfilled (on_device i f st) = rtx_fulfilled st"
  "ss_packets_sent (on_device i f st) = ss_packets_sent st"
  by (simp_all add: on_device_def)

lemma listeners_agree:
  assumes "rr_socket r"
  shows "fst (group_step st (0, ev)) = fst (single_step r st ev)"
    and "rtx_requested (snd (group_step st (0, ev))) = rtx_requested (snd (single_step r st ev))"
    and "rtx_fulfilled (snd (group_step st (0, ev))) = rtx_fulfilled (snd (single_step r st ev))"
  using assms
  by (auto simp: group_step_def single_step_def recv_raw_timeout_def count_requested_def count_fulfilled_def Let_def
      split: control_recv.split option.split prod.split sum.split)

definition totals_ok :: "nat \<Rightarrow> stream_stats \<Rightarrow> bool" where
  "totals_ok bound st \<longleftrightarrow>
     unat (rtx_requested st) \<le> bound \<and> rtx_fulfilled st \<le> rtx_requested st \<and>
     list_all (\<lambda>d. dev_rtx_fulfilled d \<le> dev_rtx_requested d) (device_stats st) \<and>
     sum_list (map (\<lambda>d. unat (dev_rtx_requested d)) (device_stats st)) = unat (rtx_requested st) \<and>
     sum_list (map (\<lambda>d. unat (dev_rtx_fulfilled d)) (device_stats st)) = unat (rtx_fulfilled st)"

lemma totals_ok_new: "totals_ok 0 (with_device_count n)"
  by (simp add: totals_ok_def with_device_count_def device_stream_stats_new_def list_all_iff
      map_replicate sum_list_replicate)

lemma totals_ok_mono: "totals_ok b st \<Longrightarrow> b \<le> c \<Longrightarrow> totals_ok c st"
  by (simp add: totals_ok_def)

text \<open>What one answered request does to the counters.\<close>

definition account :: "nat \<Rightarrow> u16 \<Rightarrow> u16 \<Rightarrow> stream_stats \<Rightarrow> stream_stats" where
  "account index n k st =
     on_device index (device_fulfilled k)
       (count_fulfilled k (on_device index (device_requested n) (count_requested n st)))"

lemma unat_add_u16:
  assumes "unat (x :: u64) \<le> bound" and "bound + 65536 \<le> 2 ^ 64"
  shows "unat (x + ucast (n :: u16)) = unat x + unat n"
proof -
  have "unat (ucast n :: u64) = unat n" by (rule unat_ucast_widen) simp
  with unat_u16_lt [of n] assms show ?thesis by (simp add: unat_add_small)
qed

lemma sum_list_bump:
  fixes f :: "'a \<Rightarrow> nat"
  assumes "i < length xs" and "f y = f (xs ! i) + c"
  shows "sum_list (map f (xs[i := y])) = sum_list (map f xs) + c"
proof -
  have "map f xs ! i \<le> sum_list (map f xs)" using assms(1) by (intro member_le_sum_list) simp_all
  then show ?thesis using assms by (simp add: map_update sum_list_update)
qed

lemma account_ok:
  assumes ok: "totals_ok bound st" and i: "index < length (device_stats st)"
    and k: "k \<le> n" and room: "bound + 65536 \<le> 2 ^ 64"
  shows "totals_ok (bound + 65535) (account index n k st)"
    and "length (device_stats (account index n k st)) = length (device_stats st)"
proof -
  let ?d = "device_stats st ! index"
  let ?d' = "device_fulfilled k (device_requested n ?d)"
  have mem: "?d \<in> set (device_stats st)" using i by simp
  have req: "unat (rtx_requested st) \<le> bound" and ful: "unat (rtx_fulfilled st) \<le> bound"
    using ok by (auto simp: totals_ok_def word_le_nat_alt)
  have dreq: "unat (dev_rtx_requested ?d) \<le> bound" and dful: "unat (dev_rtx_fulfilled ?d) \<le> bound"
    using ok mem member_le_sum_list [of "unat (dev_rtx_requested ?d)"
        "map (\<lambda>d. unat (dev_rtx_requested d)) (device_stats st)"]
    by (auto simp: totals_ok_def list_all_iff word_le_nat_alt)
  note sums = req [THEN unat_add_u16, OF room] ful [THEN unat_add_u16, OF room]
    dreq [THEN unat_add_u16, OF room] dful [THEN unat_add_u16, OF room]
  have stats: "device_stats (account index n k st) = (device_stats st)[index := ?d']"
    using i by (simp add: account_def on_device_def count_fulfilled_def count_requested_def)
  show "length (device_stats (account index n k st)) = length (device_stats st)" by (simp add: stats)
  have tot: "rtx_requested (account index n k st) = rtx_requested st + ucast n"
    "rtx_fulfilled (account index n k st) = rtx_fulfilled st + ucast k"
    by (simp_all add: account_def on_device_def count_fulfilled_def count_requested_def)
  have "unat n < 65536" "unat k \<le> unat n" using unat_u16_lt k by (auto simp: word_le_nat_alt)
  moreover have "list_all (\<lambda>d. dev_rtx_fulfilled d \<le> dev_rtx_requested d) ((device_stats st)[index := ?d'])"
    using ok mem sums \<open>unat k \<le> unat n\<close>
    by (auto simp: totals_ok_def list_all_iff device_fulfilled_def device_requested_def word_le_nat_alt
        dest!: set_update_subset_insert [THEN subsetD])
  ultimately show "totals_ok (bound + 65535) (account index n k st)"
    using ok sums i unfolding totals_ok_def stats tot
    by (auto simp: word_le_nat_alt device_fulfilled_def device_requested_def
        sum_list_bump [where c = "unat n"] sum_list_bump [where c = "unat k"])
qed

lemma device_fulfilled_zero [simp]: "device_fulfilled 0 d = d" "count_fulfilled 0 st = st"
  by (simp_all add: device_fulfilled_def count_fulfilled_def)

lemma on_device_same: "(\<And>d. f d = d) \<Longrightarrow> on_device index f st = st"
  by (simp add: on_device_def)

text \<open>Each event leaves the statistics alone or accounts for one request.\<close>

lemma group_step_accounts:
  "\<exists>n k. snd (group_step st (index, ev)) = st \<or> (k \<le> n \<and> snd (group_step st (index, ev)) = account index n k st)"
proof (cases "ce_recv ev")
  case (Datagram data)
  show ?thesis
  proof (cases "parse_retransmit_request (take 2048 data)")
    case (Some r)
    obtain outs res where h: "handle_retransmit_for_target (ce_accepts ev) index r (ce_streamer ev) = (outs, res)"
      by fastforce
    have "snd (group_step st (index, ev)) = account index (rt_count r)
        (case res of Inl e \<Rightarrow> 0 | Inr k \<Rightarrow> k) st"
      by (simp add: group_step_def Datagram Some h account_def on_device_same split: sum.split)
        (auto simp: on_device_same word_gt_0 Let_def)
    moreover have "(case res of Inl e \<Rightarrow> 0 | Inr k \<Rightarrow> k) \<le> rt_count r"
      using handle_retransmit_count h by (auto split: sum.split)
    ultimately show ?thesis by blast
  qed (simp add: group_step_def Datagram)
qed (simp_all add: group_step_def)

lemma group_run_ok:
  "totals_ok bound st \<Longrightarrow> bound + 65536 * (length evs + 1) \<le> 2 ^ 64 \<Longrightarrow>
     \<forall>(i, ev) \<in> set evs. i < length (device_stats st) \<Longrightarrow>
     totals_ok (bound + 65535 * length evs) (foldl (\<lambda>s e. snd (group_step s e)) st evs)"
proof (induction evs arbitrary: st bound)
  case (Cons e evs)
  obtain i ev where e: "e = (i, ev)" by (cases e)
  let ?st = "snd (group_step st (i, ev))"
  have i: "i < length (device_stats st)" using Cons.prems(3) e by auto
  have room: "bound + 65536 \<le> 2 ^ 64" using Cons.prems(2) by simp
  have "totals_ok (bound + 65535) ?st \<and> length (device_stats ?st) = length (device_stats st)"
    using group_step_accounts [of st i ev] account_ok [OF Cons.prems(1) i _ room] Cons.prems(1)
    by (auto intro: totals_ok_mono)
  with Cons.IH [of "bound + 65535" ?st] Cons.prems show ?case by (simp add: e ac_simps)
qed simp

text \<open>However requests arrive on the control sockets of a group of \<open>n\<close> devices, never more packets
  are counted as retransmitted than were requested, in total and for each device, and the totals are
  the sums over the devices (for fewer than \<open>2 ^ 47\<close> datagrams, so that no counter wraps).\<close>

theorem group_statistics_consistent:
  assumes "\<forall>(i, ev) \<in> set evs. i < n" and "length evs < 2 ^ 47"
  defines "st \<equiv> snd (listen_group (with_device_count n) evs)"
  shows "rtx_fulfilled st \<le> rtx_requested st \<and>
    list_all (\<lambda>d. dev_rtx_fulfilled d \<le> dev_rtx_requested d) (device_stats st) \<and>
    sum_list (map (\<lambda>d. unat (dev_rtx_requested d)) (device_stats st)) = unat (rtx_requested st) \<and>
    sum_list (map (\<lambda>d. unat (dev_rtx_fulfilled d)) (device_stats st)) = unat (rtx_fulfilled st)"
proof -
  have len: "length (device_stats (with_device_count n)) = n" by (simp add: with_device_count_def)
  have "totals_ok (0 + 65535 * length evs) (foldl (\<lambda>s e. snd (group_step s e)) (with_device_count n) evs)"
    by (rule group_run_ok [OF totals_ok_new]) (use assms(1,2) len in auto)
  then show ?thesis by (simp add: totals_ok_def st_def listen_group_def run_io_state)
qed

definition sample_request :: bytes where
  "sample_request = [0x80, 0xD5, 0, 1, 0, 7, 0, 2]"

definition sample_control_event :: control_event where
  "sample_control_event = \<lparr> ce_recv = Datagram sample_request,
     ce_streamer = streamer_new airplay1_realtime, ce_accepts = (\<lambda>_. True) \<rparr>"

theorem group_statistics_consistent_witness:
  "rtx_fulfilled (snd (listen_group (with_device_count 2) [(1, sample_control_event)]))
     \<le> rtx_requested (snd (listen_group (with_device_count 2) [(1, sample_control_event)])) \<and>
   rtx_requested (snd (listen_group (with_device_count 2) [(1, sample_control_event)])) = 2"
proof
  show "rtx_fulfilled (snd (listen_group (with_device_count 2) [(1, sample_control_event)]))
     \<le> rtx_requested (snd (listen_group (with_device_count 2) [(1, sample_control_event)]))"
    using group_statistics_consistent [of "[(1, sample_control_event)]" 2] by simp
  show "rtx_requested (snd (listen_group (with_device_count 2) [(1, sample_control_event)])) = 2"
    by code_simp
qed

end
