(* ===== verification/Streamer_Run.thy ===== *)
theory Streamer_Run
  imports Streamer
begin

text \<open>
  What the streamer of \<open>Streamer\<close> does over time: the packets it sends are contiguous, a sync is sent
  at least every second of audio, it stops by itself only when everything is sent; and two behaviours
  of the code that keep it from playing at all.
\<close>

section \<open>What is on the wire\<close>

definition wire_time :: "bytes \<Rightarrow> u32" where
  "wire_time w = from_be (slice w 4 8)"

definition wire_marker :: "bytes \<Rightarrow> bool" where
  "wire_marker w = bit (w ! 1) 7"

lemma wire_fields:
  assumes "audio_wire s pt ts payload mk = Inr w"
  shows "wire_time w = ts" "wire_marker w = mk" "wire_seq w = rtp_sequence s"
proof -
  let ?h = "with_marker mk (rtp_header_new pt (rtp_sequence s) ts (rtp_ssrc s))"
  obtain body where w: "w = rtp_header_serialize ?h @ body" using audio_wire_header [OF assms] by blast
  have "slice w 4 8 = to_be ts"
    unfolding w by (simp add: slice_append1) (simp add: rtp_header_layout codec_simps with_marker_def rtp_header_new_def)
  then show "wire_time w = ts" by (simp add: wire_time_def)
  have "w ! 1 = push_bit 7 (bool_u8 mk) OR (pt AND 0x7F)"
    unfolding w by (simp add: nth_append) (simp add: rtp_header_layout with_marker_def rtp_header_new_def)
  moreover have "\<not> bit (0x7F :: u8) 7" by simp
  ultimately show "wire_marker w = mk"
    by (simp add: wire_marker_def bool_u8_def bit_or_iff bit_and_iff bit_push_bit_iff)
  show "wire_seq w = rtp_sequence s" using audio_wire_seq [OF assms] by simp
qed

lemma prepare_audio_fields:
  assumes "prepare_audio pt ts payload mk r = (Inr w, r')"
  shows "wire_time w = ts \<and> wire_marker w = mk \<and> wire_seq w = rtp_sequence r \<and>
    rtp_sequence r' = rtp_sequence r + 1 \<and> control_target r' = control_target r"
proof -
  from assms have "audio_wire r pt ts payload mk = Inr w" "rtp_sequence r' = rtp_sequence r + 1"
      "control_target r' = control_target r"
    by (auto simp: prepare_audio_def serialize_audio_def Let_def control_target_def
        split: sum.splits option.splits)
  then show ?thesis using wire_fields by blast
qed

text \<open>One packet for every sender, in their order.\<close>

definition packet_for :: "u32 \<Rightarrow> bool \<Rightarrow> u16 list \<Rightarrow> bytes list \<Rightarrow> bool" where
  "packet_for ts mk seqs ws \<longleftrightarrow>
     list_all2 (\<lambda>sq w. wire_seq w = sq \<and> wire_time w = ts \<and> wire_marker w = mk) seqs ws"

lemma prepare_all_fields:
  assumes "prepare_all pt ts payload mk rs = (Inr ws, rs')"
  shows "packet_for ts mk (map rtp_sequence rs) ws \<and> map rtp_sequence rs' = map (\<lambda>r. rtp_sequence r + 1) rs \<and>
    map control_target rs' = map control_target rs"
  using assms
proof (induction rs arbitrary: ws rs')
  case (Cons r rs)
  obtain w r' where one: "prepare_audio pt ts payload mk r = (Inr w, r')"
    using Cons.prems by (auto split: prod.splits sum.splits)
  obtain res rs'' where all: "prepare_all pt ts payload mk rs = (res, rs'')"
    by (cases "prepare_all pt ts payload mk rs")
  from Cons.prems one all obtain ws' where "res = Inr ws'" "ws = w # ws'" "rs' = r' # rs''"
    by (auto simp: and_then_eq_Inr)
  with Cons.IH [of ws' rs''] all prepare_audio_fields [OF one] show ?case
    by (simp add: packet_for_def)
qed (simp add: packet_for_def)

section \<open>The buffer holds whole packets\<close>

lemma decode_resampled_size:
  assumes "decode_resampled rn f n d = (Inr (Some fr), d')"
  shows "length (dec_samples fr) = n * unat (channels f)"
proof -
  have loop: "m \<le> length ys" if "collect_loop r m acc d0 = (Inr (Some ys), d1)" for r m acc d0 ys d1
    using that
  proof (induction r m acc d0 rule: collect_loop.induct)
    case (1 r m acc d0)
    show ?case
      using "1.prems"
      by (subst (asm) collect_loop.simps)
        (auto split: if_splits prod.splits sum.splits option.splits intro: "1.IH")
  qed
  from assms show ?thesis
    by (auto simp: decode_resampled_def Let_def min_absorb2 split: sum.splits prod.splits option.splits if_splits
        dest!: loop)
qed

definition whole_packets :: "streamer_inner \<Rightarrow> bool" where
  "whole_packets i \<longleftrightarrow> buffer_ok (si_buffer i) \<and> buf_format (si_buffer i) = audio_format (si_config i) \<and>
     list_all (\<lambda>fr. length (samples fr) = packet_samples_per (audio_format (si_config i))) (frames (si_buffer i))"

text \<open>What filling the buffer leaves alone.\<close>

definition same_sender :: "streamer_inner \<Rightarrow> streamer_inner \<Rightarrow> bool" where
  "same_sender i j \<longleftrightarrow> si_config j = si_config i \<and> si_state j = si_state i \<and> rtp_senders j = rtp_senders i \<and>
     si_encoder j = si_encoder i \<and> first_packet_sent j = first_packet_sent i \<and>
     last_sync_rtp j = last_sync_rtp i \<and> (live_decoder j = None \<longleftrightarrow> live_decoder i = None)"

lemma same_sender_refl [simp]: "same_sender i i"
  by (simp add: same_sender_def)

lemma same_sender_trans: "same_sender i j \<Longrightarrow> same_sender j k \<Longrightarrow> same_sender i k"
  by (auto simp: same_sender_def)

lemma decode_batch_keeps:
  assumes "decode_batch rn k i = (res, j)" and "whole_packets i"
  shows "same_sender i j \<and> whole_packets j"
  using assms
proof (induction k arbitrary: i)
  case (Suc k)
  let ?f = "audio_format (si_config i)"
  show ?case
  proof (cases "live_decoder i")
    case None
    with Suc.prems show ?thesis by simp
  next
    case (Some d)
    obtain out d' where dec: "decode_resampled rn ?f (unat (frames_per_packet ?f)) d = (out, d')"
      by (cases "decode_resampled rn ?f (unat (frames_per_packet ?f)) d")
    let ?i = "i\<lparr>live_decoder := Some d'\<rparr>"
    have base: "same_sender i ?i" "whole_packets ?i"
      using Some Suc.prems(2) by (simp_all add: same_sender_def whole_packets_def)
    show ?thesis
    proof (cases "\<exists>fr. out = Inr (Some fr)")
      case False
      then have "j = ?i"
        using Suc.prems(1) Some dec by (cases out) (auto simp: Let_def split: option.splits)
      with base show ?thesis by simp
    next
      case True
      then obtain fr where out: "out = Inr (Some fr)" by blast
      let ?fr = "audio_frame_new (dec_samples fr)"
      have size: "length (samples ?fr) = packet_samples_per ?f"
        using decode_resampled_size dec out by (simp add: audio_frame_new_def packet_samples_per_def)
      obtain r b where push: "buffer_push ?fr (si_buffer i) = (r, b)" by (cases "buffer_push ?fr (si_buffer i)")
      let ?j = "?i\<lparr>si_buffer := b\<rparr>"
      have j: "same_sender i ?j" "whole_packets ?j"
        using base push size
        by (auto simp: same_sender_def whole_packets_def buffer_push_def buffer_ok_def split: if_splits)
      show ?thesis
      proof (cases r)
        case (Inl e)
        then have "j = ?j"
          using Suc.prems(1) Some dec out push by (cases e) (simp_all add: Let_def)
        with j show ?thesis by simp
      next
        case (Inr u)
        then have "decode_batch rn k ?j = (res, j)"
          using Suc.prems(1) Some dec out push by (simp add: Let_def)
        from Suc.IH [OF this j(2)] j(1) show ?thesis using same_sender_trans by blast
      qed
    qed
  qed
qed simp

lemma refill_keeps:
  assumes "refill_buffer_if_needed rn i = (res, j)" and "whole_packets i"
  shows "same_sender i j \<and> whole_packets j"
  using assms decode_batch_keeps
  by (auto simp: refill_buffer_if_needed_def decode_some_inner_def split: if_splits)

lemma update_timing_keeps [simp]:
  "same_sender i (update_timing_offset u i)" "whole_packets (update_timing_offset u i) = whole_packets i"
  by (auto simp: update_timing_offset_def same_sender_def whole_packets_def split: option.split)

lemma buffering_action_keeps:
  "buffering_action i = (a, j) \<Longrightarrow>
   (j = i \<or> j = i\<lparr>si_state := StStreaming\<rparr> \<or> j = i\<lparr>si_state := StStopped\<rparr>)"
  by (auto simp: buffering_action_def Let_def split: if_splits)

section \<open>One packet\<close>

definition packets :: "stream_out list \<Rightarrow> (bytes list \<times> bytes option) list" where
  "packets outs = concat (map (\<lambda>out. case out of ToThread (Packet ws sd) \<Rightarrow> [(ws, sd)] | _ \<Rightarrow> []) outs)"

lemma packets_simps [simp]:
  "packets [] = []" "packets (xs @ ys) = packets xs @ packets ys"
  "packets (ToThread (Packet ws sd) # outs) = (ws, sd) # packets outs"
  "packets (ToThread PauseMsg # outs) = packets outs"
  "packets (ToThread ResumeMsg # outs) = packets outs"
  "packets (ToThread StopMsg # outs) = packets outs"
  "packets (Wire b d # outs) = packets outs"
  by (simp_all add: packets_def)

lemma packets_signal [simp]:
  "msg = PauseMsg \<or> msg = ResumeMsg \<or> msg = StopMsg \<Longrightarrow> packets (signal_thread b msg s) = []"
  by (auto simp: signal_thread_def)

text \<open>Syncs have somewhere to go: the first sender's control target has a port.\<close>

definition has_control_port :: "streamer_inner \<Rightarrow> bool" where
  "has_control_port i \<longleftrightarrow> rtp_senders i \<noteq> [] \<and> snd (control_target (hd (rtp_senders i))) \<noteq> 0"

lemma has_control_port_cong:
  "map control_target (rtp_senders j) = map control_target (rtp_senders i) \<Longrightarrow>
   has_control_port j = has_control_port i"
  by (cases "rtp_senders i"; cases "rtp_senders j") (auto simp: has_control_port_def)

lemma has_control_port_same: "rtp_senders j = rtp_senders i \<Longrightarrow> has_control_port j = has_control_port i"
  by (simp add: has_control_port_def)

lemma prepare_sync_keeps:
  "prepare_sync ts t r = (sd, r') \<Longrightarrow> rtp_sequence r' = rtp_sequence r \<and>
    control_target r' = control_target r \<and> (sd \<noteq> None \<longleftrightarrow> snd (control_target r) \<noteq> 0)"
  "prepare_ptp_sync ts t nt ci r = (sd, r') \<Longrightarrow> rtp_sequence r' = rtp_sequence r \<and>
    control_target r' = control_target r \<and> (sd \<noteq> None \<longleftrightarrow> snd (control_target r) \<noteq> 0)"
  by (auto simp: prepare_sync_def prepare_ptp_sync_def Let_def split: if_splits)
    (simp_all add: control_target_def split: option.splits)

text \<open>A sync datagram is due, and its preparation touches the sync fields of the first sender only.\<close>

lemma sync_for_thread_keeps:
  assumes "sync_for_thread sync ts t i = (sd, j)"
  shows "map rtp_sequence (rtp_senders j) = map rtp_sequence (rtp_senders i) \<and>
    map control_target (rtp_senders j) = map control_target (rtp_senders i) \<and>
    j = i\<lparr>rtp_senders := rtp_senders j\<rparr> \<and> (sd \<noteq> None \<longleftrightarrow> sync \<and> has_control_port i)"
proof (cases "rtp_senders i")
  case Nil
  with assms show ?thesis by (auto simp: sync_for_thread_def has_control_port_def)
next
  case (Cons r rs)
  with assms show ?thesis
    by (cases sync)
      (auto simp: sync_for_thread_def has_control_port_def Let_def split: if_splits prod.splits
        dest!: prepare_sync_keeps)
qed

text \<open>The stream is on track: \<open>k\<close> packets are out, the encoder's clock, the marker and the sequence
  numbers of all senders (which began at \<open>q\<close>) agree with that, the last sync was at \<open>l\<close>, \<open>cp\<close> says
  whether syncs have somewhere to go, and the buffer holds whole packets.\<close>

definition on_track :: "stream_config \<Rightarrow> u16 list \<Rightarrow> bool \<Rightarrow> nat \<Rightarrow> u32 \<Rightarrow> audio_streamer \<Rightarrow> bool" where
  "on_track c q cp k l s \<longleftrightarrow>
     (let i = st_inner s in
      st_sender_tx s \<and> rtp_senders i \<noteq> [] \<and> si_config i = c \<and> whole_packets i \<and>
      (\<exists>enc. si_encoder i = Some enc \<and> encoder_ready enc \<and> enc_format enc = audio_format c \<and>
         enc_timestamp enc = word_of_nat k * ucast (frames_per_packet (audio_format c))) \<and>
      (first_packet_sent i \<longleftrightarrow> 0 < k) \<and>
      map rtp_sequence (rtp_senders i) = map (\<lambda>sq. sq + word_of_nat k) q \<and>
      last_sync_rtp i = l \<and> has_control_port i = cp)"

lemma packet_time: "(ucast (word_of_nat k * ucast f :: u64) :: u32) = word_of_nat k * f"
proof -
  have "(2 ^ 32 :: nat) dvd 2 ^ 64" by (simp add: le_imp_power_dvd)
  then show ?thesis
    by (simp add: word_unat_eq_iff unat_ucast_mod unat_word_ariths unat_of_nat mod_mod_cancel mod_mult_left_eq)
qed

lemma send_packet_step:
  assumes "st_sender_tx s" and "rtp_senders (st_inner s) \<noteq> []"
    and "send_packet tk p s = (outs, e, s')"
  shows "outs = [] \<and> ((\<exists>err. e = Failed err) \<or> e = Broken) \<or>
    (\<exists>ws sd rs. outs = [ToThread (Packet ws sd)] \<and> e = NextNow \<and>
       packet_for (ucast (pkt_timestamp p)) (\<not> first_packet_sent (st_inner s))
         (map rtp_sequence (rtp_senders (st_inner s))) ws \<and>
       map rtp_sequence rs = map (\<lambda>sq. sq + 1) (map rtp_sequence (rtp_senders (st_inner s))) \<and>
       rs \<noteq> [] \<and> map control_target rs = map control_target (rtp_senders (st_inner s)) \<and>
       (sd \<noteq> None \<longleftrightarrow> need_sync (st_inner s) (ucast (pkt_timestamp p)) \<and> has_control_port (st_inner s)) \<and>
       s' = s\<lparr>st_inner := (st_inner s)\<lparr>rtp_senders := rs, first_packet_sent := True,
              last_sync_rtp := (if need_sync (st_inner s) (ucast (pkt_timestamp p))
                 then ucast (pkt_timestamp p) else last_sync_rtp (st_inner s)),
              current_timestamp := pkt_timestamp p + ucast (pkt_samples p)\<rparr>,
              timestamp_cache := pkt_timestamp p + ucast (pkt_samples p),
              st_packets_sent := st_packets_sent s + 1\<rparr>)"
proof -
  let ?i = "st_inner s" and ?ts = "ucast (pkt_timestamp p) :: u32"
  let ?pt = "word_of_nat (stream_type_code (stream_type (si_config ?i))) :: u8"
  let ?t = "adjusted_wall_time ?i (now_wall_ns (tk_wall tk)) + render_delay_ns ?i"
  obtain sd j where sync: "sync_for_thread (need_sync ?i ?ts) ?ts ?t ?i = (sd, j)"
    by (cases "sync_for_thread (need_sync ?i ?ts) ?ts ?t ?i")
  note keep = sync_for_thread_keeps [OF sync]
  obtain res rs where all: "prepare_all ?pt ?ts (pkt_data p) (\<not> first_packet_sent ?i) (rtp_senders j) = (res, rs)"
    by (cases "prepare_all ?pt ?ts (pkt_data p) (\<not> first_packet_sent ?i) (rtp_senders j)")
  show ?thesis
  proof (cases "(\<exists>err. res = Inl err) \<or> \<not> tk_thread_alive tk")
    case True
    with assms sync all show ?thesis
      by (cases res) (auto simp: send_packet_def Let_def)
  next
    case False
    then obtain ws where res: "res = Inr ws" by (cases res) auto
    have ne: "rs \<noteq> []"
      using prepare_all_fields [OF all [unfolded res]] keep assms(2) by (metis map_is_Nil_conv)
    have j: "j = ?i\<lparr>rtp_senders := rtp_senders j\<rparr>" using keep by simp
    have "outs = [ToThread (Packet ws sd)]" "e = NextNow"
      and s': "s' = update_sent_packet_state ?ts (\<not> first_packet_sent ?i) (need_sync ?i ?ts)
          (pkt_timestamp p + ucast (pkt_samples p)) (s\<lparr>st_inner := j\<lparr>rtp_senders := rs\<rparr>\<rparr>)"
      using assms sync all False res by (simp_all add: send_packet_def Let_def)
    moreover have "s' = s\<lparr>st_inner := ?i\<lparr>rtp_senders := rs, first_packet_sent := True,
              last_sync_rtp := (if need_sync ?i ?ts then ?ts else last_sync_rtp ?i),
              current_timestamp := pkt_timestamp p + ucast (pkt_samples p)\<rparr>,
              timestamp_cache := pkt_timestamp p + ucast (pkt_samples p),
              st_packets_sent := st_packets_sent s + 1\<rparr>"
      unfolding s' by (subst j) (simp add: update_sent_packet_state_def Let_def)
    moreover have "map rtp_sequence rs = map (\<lambda>sq. sq + 1) (map rtp_sequence (rtp_senders ?i))"
      using prepare_all_fields [OF all [unfolded res]] keep by (metis (no_types, lifting) list.map_comp comp_apply map_eq_conv)
    moreover have "packet_for ?ts (\<not> first_packet_sent ?i) (map rtp_sequence (rtp_senders ?i)) ws"
      using prepare_all_fields [OF all [unfolded res]] keep by simp
    moreover have "map control_target rs = map control_target (rtp_senders ?i)"
      using prepare_all_fields [OF all [unfolded res]] keep by simp
    moreover have "sd \<noteq> None \<longleftrightarrow> need_sync ?i ?ts \<and> has_control_port ?i" using keep by simp
    ultimately show ?thesis using ne by blast
  qed
qed

section \<open>One step\<close>

text \<open>The RTP time of packet \<open>k\<close>.\<close>

definition time_k :: "stream_config \<Rightarrow> nat \<Rightarrow> u32" where
  "time_k c k = word_of_nat k * frames_per_packet (audio_format c)"

text \<open>A step either sends nothing and stays on track (or ends the loop), or sends packet \<open>k\<close>.\<close>

definition packet_k :: "stream_config \<Rightarrow> u16 list \<Rightarrow> nat \<Rightarrow> bytes list \<Rightarrow> bool" where
  "packet_k c q k ws \<longleftrightarrow>
     packet_for (time_k c k) (k = 0)
       (map (\<lambda>sq. sq + word_of_nat k) q) ws"

text \<open>The rule for syncs: at the first packet, when the last sync was at 0, and once a second of audio
  has passed.\<close>

definition sync_rule :: "stream_config \<Rightarrow> bool \<Rightarrow> nat \<Rightarrow> u32 \<Rightarrow> bytes option \<Rightarrow> u32 \<Rightarrow> bool" where
  "sync_rule c cp k l sd l' \<longleftrightarrow>
     (if k = 0 \<or> l = 0 \<or> as_hz (sample_rate (audio_format c)) \<le> time_k c k - l
      then l' = time_k c k \<and> (sd \<noteq> None \<longleftrightarrow> cp) else l' = l \<and> sd = None)"

definition step_ok ::
  "stream_config \<Rightarrow> u16 list \<Rightarrow> bool \<Rightarrow> nat \<Rightarrow> u32 \<Rightarrow> stream_out list \<times> loop_end \<times> audio_streamer \<Rightarrow> bool" where
  "step_ok c q cp k l r =
     (case r of (outs, e, s') \<Rightarrow>
        packets outs = [] \<and> ((\<exists>err. e = Failed err) \<or> e = Broken \<or> on_track c q cp k l s') \<or>
        (\<exists>ws sd l'. outs = [ToThread (Packet ws sd)] \<and> packet_k c q k ws \<and> e = NextNow \<and>
           sync_rule c cp k l sd l' \<and> on_track c q cp (Suc k) l' s'))"

lemma on_track_inner:
  assumes "on_track c q cp k l s" and "same_sender (st_inner s) j" and "whole_packets j"
    and "st_inner s' = j" and "st_sender_tx s' = st_sender_tx s"
  shows "on_track c q cp k l s'"
  using assms has_control_port_same [of j "st_inner s"] by (auto simp: on_track_def same_sender_def Let_def)

lemma on_track_state:
  "on_track c q cp k l s \<Longrightarrow> st_inner s' = (st_inner s)\<lparr>si_state := st\<rparr> \<Longrightarrow> st_sender_tx s' = st_sender_tx s \<Longrightarrow>
   on_track c q cp k l s'"
  by (auto simp: on_track_def Let_def whole_packets_def has_control_port_def)

lemma send_next_frame_ok:
  assumes "on_track c q cp k l s"
  shows "step_ok c q cp k l (send_next_frame tk s)"
proof -
  let ?i = "st_inner s"
  have tx: "st_sender_tx s" and ne: "rtp_senders ?i \<noteq> []" and c: "si_config ?i = c" and wp: "whole_packets ?i"
    and first: "first_packet_sent ?i \<longleftrightarrow> 0 < k"
    and seqs: "map rtp_sequence (rtp_senders ?i) = map (\<lambda>sq. sq + word_of_nat k) q"
    and l: "last_sync_rtp ?i = l" and hcp: "has_control_port ?i = cp"
    using assms by (simp_all add: on_track_def Let_def)
  obtain enc where enc: "si_encoder ?i = Some enc" "encoder_ready enc" "enc_format enc = audio_format c"
      "enc_timestamp enc = word_of_nat k * ucast (frames_per_packet (audio_format c))"
    using assms by (auto simp: on_track_def Let_def)
  show ?thesis
  proof (cases "frames (si_buffer ?i)")
    case Nil
    then have "buffer_pop (si_buffer ?i) = (Inr None, si_buffer ?i)" by (simp add: buffer_pop_def)
    moreover have "on_track c q cp k l (record_buffer_underrun s)"
      using assms by (rule on_track_state [where st = StBuffering]) (simp_all add: record_buffer_underrun_def)
    ultimately show ?thesis
      using tx by (simp add: send_next_frame_def step_ok_def finish_iteration_def record_buffer_underrun_def Let_def)
  next
    case (Cons fr frs)
    let ?b = "(si_buffer ?i)\<lparr>frames := frs, total_samples_read := total_samples_read (si_buffer ?i) +
        frame_count (buf_format (si_buffer ?i)) fr\<rparr>"
    have pop: "buffer_pop (si_buffer ?i) = (Inr (Some fr), ?b)"
      using Cons wp by (auto simp: buffer_pop_def whole_packets_def buffer_ok_def)
    have "length (samples fr) = packet_samples_per (enc_format enc)"
      using Cons wp c enc(3) by (simp add: whole_packets_def)
    from encode_whole_packet [OF enc(2) this]
    obtain p enc' where e: "alac_encoder_encode (samples fr) enc = (Inr p, enc')" "encoder_ready enc'"
        "enc_format enc' = enc_format enc" "pkt_timestamp p = enc_timestamp enc"
        "enc_timestamp enc' = enc_timestamp enc + ucast (frames_per_packet (enc_format enc))"
      by blast
    let ?s = "s\<lparr>st_inner := ?i\<lparr>si_buffer := ?b, si_encoder := Some enc'\<rparr>\<rparr>"
    have send: "send_next_frame tk s = send_packet tk p ?s"
      by (simp add: send_next_frame_def pop enc(1) e(1) Let_def)
    have ts: "(ucast (pkt_timestamp p) :: u32) = time_k c k"
      using e(4) enc(4) by (simp add: packet_time time_k_def)
    have next_ts: "enc_timestamp enc' = word_of_nat (Suc k) * ucast (frames_per_packet (audio_format c))"
      using e(5) enc(3,4) by (simp add: algebra_simps)
    obtain outs en s' where r: "send_packet tk p ?s = (outs, en, s')" by (cases "send_packet tk p ?s")
    have "st_sender_tx ?s" "rtp_senders (st_inner ?s) \<noteq> []" using tx ne by simp_all
    from send_packet_step [OF this r] show ?thesis
    proof (elim disjE exE conjE)
      fix ws sd rs
      assume outs: "outs = [ToThread (Packet ws sd)]" and en: "en = NextNow"
        and pk: "packet_for (ucast (pkt_timestamp p)) (\<not> first_packet_sent (st_inner ?s))
          (map rtp_sequence (rtp_senders (st_inner ?s))) ws"
        and rs: "map rtp_sequence rs = map (\<lambda>sq. sq + 1) (map rtp_sequence (rtp_senders (st_inner ?s)))" "rs \<noteq> []"
        and targets: "map control_target rs = map control_target (rtp_senders (st_inner ?s))"
        and sd: "sd \<noteq> None \<longleftrightarrow> need_sync (st_inner ?s) (ucast (pkt_timestamp p)) \<and> has_control_port (st_inner ?s)"
        and s': "s' = ?s\<lparr>st_inner := (st_inner ?s)\<lparr>rtp_senders := rs, first_packet_sent := True,
              last_sync_rtp := (if need_sync (st_inner ?s) (ucast (pkt_timestamp p))
                 then ucast (pkt_timestamp p) else last_sync_rtp (st_inner ?s)),
              current_timestamp := pkt_timestamp p + ucast (pkt_samples p)\<rparr>,
              timestamp_cache := pkt_timestamp p + ucast (pkt_samples p),
              st_packets_sent := st_packets_sent ?s + 1\<rparr>"
      have "map rtp_sequence rs = map (\<lambda>sq. sq + word_of_nat (Suc k)) q"
        using rs(1) seqs by (simp add: algebra_simps)
      moreover have "whole_packets (st_inner s')"
        using wp Cons unfolding s' by (auto simp: whole_packets_def buffer_ok_def)
      moreover have "has_control_port (st_inner s') = cp"
        using hcp targets has_control_port_cong [of "st_inner s'" ?i] unfolding s' by simp
      ultimately have track: "on_track c q cp (Suc k) (last_sync_rtp (st_inner s')) s'"
        using e(2,3) enc(3) next_ts tx c rs(2) unfolding s' by (simp add: on_track_def Let_def)
      have "need_sync (st_inner ?s) (time_k c k) \<longleftrightarrow>
          k = 0 \<or> l = 0 \<or> as_hz (sample_rate (audio_format c)) \<le> time_k c k - l"
        using first c l by (simp add: need_sync_def)
      then have "sync_rule c cp k l sd (last_sync_rtp (st_inner s'))"
        using sd hcp l ts unfolding s' by (cases sd) (auto simp: sync_rule_def has_control_port_def)
      moreover have "packet_k c q k ws" using pk ts first seqs by (simp add: packet_k_def)
      ultimately show ?thesis using outs en r send track by (auto simp: step_ok_def)
    qed (simp_all add: step_ok_def r send)
  qed
qed

lemma loop_body_ok:
  assumes "on_track c q cp k l s"
  shows "step_ok c q cp k l (loop_body rn tk s)"
proof -
  let ?i = "update_timing_offset (tk_offset tk) (st_inner s)"
  have wp: "whole_packets (st_inner s)" using assms by (simp add: on_track_def Let_def)
  obtain res j where refill: "refill_buffer_if_needed rn ?i = (res, j)" by (cases "refill_buffer_if_needed rn ?i")
  have j: "same_sender (st_inner s) j" "whole_packets j"
    using refill_keeps [OF refill] wp by (auto intro: same_sender_trans [OF update_timing_keeps(1)])
  show ?thesis
  proof (cases res)
    case (Inl e)
    then show ?thesis by (simp add: loop_body_def Let_def refill step_ok_def)
  next
    case (Inr u)
    obtain a m where act: "buffering_action j = (a, m)" by (cases "buffering_action j")
    have track: "on_track c q cp k l s'" if "st_inner s' = m" "st_sender_tx s' = st_sender_tx s" for s'
    proof -
      have base: "on_track c q cp k l (s\<lparr>st_inner := j\<rparr>)"
        using assms j by (rule on_track_inner) simp_all
      from buffering_action_keeps [OF act] show ?thesis
      proof (elim disjE)
        assume "m = j"
        with base that show ?thesis by (auto simp: on_track_def Let_def)
      qed (use base that in \<open>auto intro: on_track_state [OF base]\<close>)
    qed
    show ?thesis
    proof (cases a)
      case Ready
      have "on_track c q cp k l (s\<lparr>st_inner := m,
          state_cache := if si_state m = StStreaming then StStreaming else state_cache s\<rparr>)"
        by (rule track) simp_all
      then have "step_ok c q cp k l (send_next_frame tk (s\<lparr>st_inner := m,
          state_cache := if si_state m = StStreaming then StStreaming else state_cache s\<rparr>))"
        by (rule send_next_frame_ok)
      then show ?thesis by (simp add: loop_body_def Let_def refill Inr act Ready)
    next
      case Wait
      then show ?thesis by (simp add: loop_body_def Let_def refill Inr act step_ok_def track)
    next
      case StopLoop
      then show ?thesis by (simp add: loop_body_def Let_def refill Inr act step_ok_def)
    qed
  qed
qed

section \<open>Runs\<close>

text \<open>\<open>ps\<close> are the packets sent so far: each is the packet of its position, and none is a second of
  audio or more after the last sync; \<open>l\<close> is the time of that sync.\<close>

definition good_log :: "stream_config \<Rightarrow> u16 list \<Rightarrow> bool \<Rightarrow> (bytes list \<times> bytes option) list \<Rightarrow> bool" where
  "good_log c q cp ps \<longleftrightarrow> (\<forall>k < length ps. packet_k c q k (fst (ps ! k)) \<and>
     (cp \<longrightarrow> (\<exists>j \<le> k. snd (ps ! j) \<noteq> None \<and>
        (j = k \<or> time_k c k - time_k c j < as_hz (sample_rate (audio_format c))))))"

definition last_sync :: "stream_config \<Rightarrow> bool \<Rightarrow> (bytes list \<times> bytes option) list \<Rightarrow> u32 \<Rightarrow> bool" where
  "last_sync c cp ps l \<longleftrightarrow>
     (ps \<noteq> [] \<and> cp \<longrightarrow> (\<exists>j < length ps. snd (ps ! j) \<noteq> None \<and> l = time_k c j))"

definition logged :: "stream_config \<Rightarrow> u16 list \<Rightarrow> bool \<Rightarrow> (bytes list \<times> bytes option) list \<Rightarrow> audio_streamer \<Rightarrow> bool" where
  "logged c q cp ps s \<longleftrightarrow> good_log c q cp ps \<and>
     (loop_running s \<longrightarrow> (\<exists>l. on_track c q cp (length ps) l s \<and> last_sync c cp ps l))"

lemma good_log_snoc:
  assumes "good_log c q cp ps" and "last_sync c cp ps l" and "packet_k c q (length ps) ws"
    and "sync_rule c cp (length ps) l sd l'"
  shows "good_log c q cp (ps @ [(ws, sd)]) \<and> last_sync c cp (ps @ [(ws, sd)]) l'"
proof -
  let ?n = "length ps" and ?r = "as_hz (sample_rate (audio_format c))"
  have old: "packet_k c q k (fst (ps ! k)) \<and> (cp \<longrightarrow> (\<exists>j \<le> k. snd (ps ! j) \<noteq> None \<and>
      (j = k \<or> time_k c k - time_k c j < ?r)))" if "k < ?n" for k
    using assms(1) that by (simp add: good_log_def)
  have new: "\<exists>j \<le> ?n. snd ((ps @ [(ws, sd)]) ! j) \<noteq> None \<and> l' = time_k c j \<and>
      (j = ?n \<or> time_k c ?n - time_k c j < ?r)" if cp
  proof (cases "?n = 0 \<or> l = 0 \<or> ?r \<le> time_k c ?n - l")
    case True
    with assms(4) that have "l' = time_k c ?n" "sd \<noteq> None" by (simp_all add: sync_rule_def)
    then show ?thesis by (intro exI [of _ ?n]) (simp add: nth_append)
  next
    case False
    with assms(2) that obtain j where j: "j < ?n" "snd (ps ! j) \<noteq> None" "l = time_k c j"
      by (auto simp: last_sync_def)
    from False assms(4) have "l' = l" by (simp add: sync_rule_def)
    with j False show ?thesis by (intro exI [of _ j]) (auto simp: nth_append not_le)
  qed
  have "last_sync c cp (ps @ [(ws, sd)]) l'"
    using new by (auto simp: last_sync_def less_Suc_eq_le)
  moreover have "good_log c q cp (ps @ [(ws, sd)])"
    unfolding good_log_def
  proof (intro allI impI)
    fix k
    let ?ps = "ps @ [(ws, sd)]"
    assume "k < length ?ps"
    then consider "k < ?n" | "k = ?n" by fastforce
    then show "packet_k c q k (fst (?ps ! k)) \<and> (cp \<longrightarrow> (\<exists>j \<le> k. snd (?ps ! j) \<noteq> None \<and>
        (j = k \<or> time_k c k - time_k c j < ?r)))"
    proof cases
      case 1
      then have same: "?ps ! j = ps ! j" if "j \<le> k" for j using that by (simp add: nth_append)
      from old [OF 1] show ?thesis by (metis same order_refl)
    next
      case 2
      with new assms(3) show ?thesis by (metis fst_conv nth_append_length)
    qed
  qed
  ultimately show ?thesis by blast
qed

lemma task_step_logged:
  assumes "logged c q cp ps s" and "task_step rn tk mf sg s = (outs, s')"
  shows "logged c q cp (ps @ packets outs) s'"
proof (cases "loop_running s")
  case False
  with assms show ?thesis by (simp add: task_step_def)
next
  case True
  then obtain l where log: "good_log c q cp ps" and track: "on_track c q cp (length ps) l s"
    and sync: "last_sync c cp ps l"
    using assms(1) by (auto simp: logged_def)
  obtain outs1 e s1 where part: "loop_part rn tk s = (outs1, e, s1)" by (cases "loop_part rn tk s")
  have "step_ok c q cp (length ps) l (loop_part rn tk s)"
  proof (cases "loop_checked s")
    case True
    have "on_track c q cp (length ps) l (s\<lparr>loop_checked := False\<rparr>)"
      using track by (simp add: on_track_def Let_def)
    then show ?thesis using True loop_body_ok by (simp add: loop_part_def)
  next
    case False
    with track show ?thesis
      by (auto simp: loop_part_def loop_check_def step_ok_def on_track_def Let_def)
  qed
  then consider (quiet) "packets outs1 = []" "(\<exists>err. e = Failed err) \<or> e = Broken \<or> on_track c q cp (length ps) l s1"
    | (sent) ws sd l' where "outs1 = [ToThread (Packet ws sd)]" "packet_k c q (length ps) ws" "e = NextNow"
      "sync_rule c cp (length ps) l sd l'" "on_track c q cp (Suc (length ps)) l' s1"
    by (auto simp: step_ok_def part)
  then show ?thesis
  proof cases
    case quiet
    then show ?thesis
      using assms(2) True part log sync
      by (cases e) (auto simp: task_step_def logged_def split: fault.splits)
  next
    case sent
    with assms(2) True part have "outs = outs1" "s' = s1" by (simp_all add: task_step_def)
    with sent good_log_snoc [OF log sync sent(2,4)] show ?thesis
      by (auto simp: logged_def)
  qed
qed

lemma logged_state:
  "logged c q cp ps s \<Longrightarrow> packets outs = [] \<Longrightarrow> loop_running s' = loop_running s \<Longrightarrow>
   st_inner s' = (st_inner s)\<lparr>si_state := st\<rparr> \<Longrightarrow> st_sender_tx s' = st_sender_tx s \<Longrightarrow>
   logged c q cp (ps @ packets outs) s'"
  unfolding logged_def using on_track_state by fastforce

lemma streamer_step_logged:
  assumes "logged c q cp ps s" and "streamer_step rn s ev = (outs, s')" and "ev \<noteq> ResetAfterFlush"
  shows "logged c q cp (ps @ packets outs) s'"
proof (cases ev)
  case (Tick tk mf sg)
  with assms show ?thesis by (auto intro: task_step_logged)
next
  case (PauseCall sg)
  show ?thesis
  proof (cases "si_state (st_inner s) = StStreaming")
    case True
    with assms PauseCall have "packets outs = []" "loop_running s' = loop_running s"
        "st_inner s' = (st_inner s)\<lparr>si_state := StPaused\<rparr>" "st_sender_tx s' = st_sender_tx s"
      by (auto simp: streamer_pause_def)
    with assms(1) show ?thesis by (rule logged_state)
  next
    case False
    with assms PauseCall show ?thesis by (simp add: streamer_pause_def)
  qed
next
  case (ResumeCall sg)
  show ?thesis
  proof (cases "si_state (st_inner s) = StPaused")
    case True
    with assms ResumeCall have "packets outs = []" "loop_running s' = loop_running s"
        "st_inner s' = (st_inner s)\<lparr>si_state := StStreaming\<rparr>" "st_sender_tx s' = st_sender_tx s"
      by (auto simp: streamer_resume_def)
    with assms(1) show ?thesis by (rule logged_state)
  next
    case False
    with assms ResumeCall show ?thesis by (simp add: streamer_resume_def)
  qed
next
  case (StopCall sg)
  with assms show ?thesis by (auto simp: streamer_stop_def logged_def Let_def)
qed (use assms in simp)

lemma streamer_run_logged:
  assumes "logged c q cp ps s" and "run_io (streamer_step rn) s evs = (outs, s')" and "ResetAfterFlush \<notin> set evs"
  shows "logged c q cp (ps @ packets outs) s'"
  using assms
proof (induction evs arbitrary: s ps outs)
  case (Cons ev evs)
  obtain o1 s1 where one: "streamer_step rn s ev = (o1, s1)" by (cases "streamer_step rn s ev")
  obtain o2 where more: "run_io (streamer_step rn) s1 evs = (o2, s')" "outs = o1 @ o2"
    using Cons.prems(2) one by (auto split: prod.splits)
  have "ev \<noteq> ResetAfterFlush" using Cons.prems(3) by auto
  with streamer_step_logged [OF Cons.prems(1) one] have "logged c q cp (ps @ packets o1) s1" .
  from Cons.IH [OF this more(1)] Cons.prems(3) more(2) show ?case by simp
qed simp

text \<open>Where a stream starts.\<close>

definition fresh_streamer :: "audio_streamer \<Rightarrow> bool" where
  "fresh_streamer s \<longleftrightarrow> \<not> st_task s \<and> \<not> first_packet_sent (st_inner s) \<and> whole_packets (st_inner s) \<and>
     send_targets (rtp_senders (st_inner s)) \<noteq> []"

lemma start_live_logged:
  assumes "fresh_streamer s" and "start_live codec_new d now s = (Inr (), s')"
    and "si_config (st_inner s) = c" and "channels (audio_format c) \<noteq> 0"
    and "\<And>rate n ch. codec_fits (unat n * unat (channels (audio_format c)) * 2 + 256) (codec_new rate n ch)"
  shows "logged c (map rtp_sequence (rtp_senders (st_inner s))) (has_control_port (st_inner s)) [] s'"
proof -
  have "rtp_senders (st_inner s) \<noteq> []" using assms(1) by (auto simp: fresh_streamer_def send_targets_def)
  moreover have "encoder_ready (alac_encoder_new codec_new (audio_format c))"
    using assms(4,5) by (simp add: encoder_ready_def alac_encoder_new_def Let_def)
  moreover have "enc_format (alac_encoder_new codec_new (audio_format c)) = audio_format c"
      "enc_timestamp (alac_encoder_new codec_new (audio_format c)) = 0"
    by (simp_all add: alac_encoder_new_def Let_def)
  ultimately show ?thesis
    using assms(1-3)
    by (auto simp: start_live_def create_encoder_def on_inner_def fresh_streamer_def logged_def good_log_def
        last_sync_def on_track_def has_control_port_def whole_packets_def Let_def
        split: audio_codec.splits sum.splits if_splits)
qed

lemma start_live_run:
  assumes "fresh_streamer s" and "start_live codec_new d now s = (Inr (), s')"
    and "channels (audio_format (si_config (st_inner s))) \<noteq> 0"
    and "\<forall>rate n ch. codec_fits (unat n * unat (channels (audio_format (si_config (st_inner s)))) * 2 + 256)
           (codec_new rate n ch)"
    and "ResetAfterFlush \<notin> set evs"
  shows "good_log (si_config (st_inner s)) (map rtp_sequence (rtp_senders (st_inner s)))
    (has_control_port (st_inner s)) (packets (fst (run_io (streamer_step rn) s' evs)))"
proof -
  obtain outs s'' where run: "run_io (streamer_step rn) s' evs = (outs, s'')"
    by (cases "run_io (streamer_step rn) s' evs")
  have "logged (si_config (st_inner s)) (map rtp_sequence (rtp_senders (st_inner s)))
      (has_control_port (st_inner s)) [] s'"
    using assms(1,2) refl assms(3) by (rule start_live_logged) (use assms(4) in blast)
  from streamer_run_logged [OF this run assms(5)] run show ?thesis by (simp add: logged_def)
qed

section \<open>A sample stream\<close>

text \<open>A codec that copies its input, a streamer with one target and a control port, a decoder with one
  large frame waiting.\<close>

definition sample_decoder :: live_decoder where
  "sample_decoder = live_decoder_new
     [Got \<lparr>pcm_samples = replicate 70400 1, pcm_channels = 2, pcm_sample_rate = 44100\<rparr>] 44100 2"

definition sample_tick :: tick where
  "sample_tick = \<lparr>tk_offset = None, tk_wall = 0, tk_now = 0, tk_accepts = (\<lambda>_. True), tk_thread_alive = True\<rparr>"

primcorec copy_codec :: alac_codec where
  "copy_codec = Alac_codec (\<lambda>_ bs out.
     (min (length bs) (length out), take (length out) (bs @ drop (length bs) out), copy_codec))"

lemma copy_codec_fits: "codec_fits n copy_codec"
proof (coinduction rule: codec_fits.coinduct)
  case codec_fits
  show ?case
    by (intro exI [of _ n] exI conjI refl, rule copy_codec.code) (auto simp: min_def)
qed

definition sample_streamer :: audio_streamer where
  "sample_streamer = set_rtp_sender
     ((set_control_dest (V4 9, 7001) (sender_new (V4 9, 7000) 77))\<lparr>rtp_socket := True, control_socket := True\<rparr>)
     (streamer_new default_config)"

lemma sample_streamer_facts:
  "fresh_streamer sample_streamer" "si_config (st_inner sample_streamer) = default_config"
  "channels (audio_format default_config) \<noteq> 0" "has_control_port (st_inner sample_streamer)"
  by (simp_all add: sample_streamer_def fresh_streamer_def set_rtp_sender_def on_inner_def streamer_new_def
      set_control_dest_def sender_new_def whole_packets_def send_targets_def has_control_port_def
      control_target_def default_config_def default_format_def)

definition sample_started :: audio_streamer where
  "sample_started = snd (start_live (\<lambda>_ _ _. copy_codec) sample_decoder 0 sample_streamer)"

lemma sample_started_eq:
  "start_live (\<lambda>_ _ _. copy_codec) sample_decoder 0 sample_streamer = (Inr (), sample_started)"
proof -
  have "codec (audio_format default_config) = Alac" by (simp add: default_config_def default_format_def)
  then show ?thesis
    using sample_streamer_facts(2)
    by (simp add: sample_started_def start_live_def create_encoder_def on_inner_def Let_def)
qed

section \<open>Claims\<close>

text \<open>C11: the stream is contiguous. From the start of a live stream, through any sequence of loop parts
  and calls of pause, resume and stop in any order, the \<open>k\<close>-th packet handed to the sender thread
  carries, for every target, the sequence number the target's sender began with plus \<open>k\<close>, the RTP
  time \<open>k\<close> times the packet length, and the marker exactly if it is the first one.\<close>

theorem streamer_packets_contiguous:
  assumes "fresh_streamer s" and "start_live codec_new d now s = (Inr (), s')"
    and "channels (audio_format (si_config (st_inner s))) \<noteq> 0"
    and "\<forall>rate n ch. codec_fits (unat n * unat (channels (audio_format (si_config (st_inner s)))) * 2 + 256)
           (codec_new rate n ch)"
    and "ResetAfterFlush \<notin> set evs"
  shows "let ps = packets (fst (run_io (streamer_step rn) s' evs)) in
    \<forall>k < length ps. list_all2
      (\<lambda>r w. wire_seq w = rtp_sequence r + word_of_nat k \<and> wire_marker w = (k = 0) \<and>
        wire_time w = word_of_nat k * frames_per_packet (audio_format (si_config (st_inner s))))
      (rtp_senders (st_inner s)) (fst (ps ! k))"
  using start_live_run [OF assms, of rn]
  by (auto simp: good_log_def packet_k_def packet_for_def time_k_def list_all2_map1 Let_def
      intro: list_all2_mono)

theorem streamer_packets_contiguous_witness:
  "let ps = packets (fst (run_io (streamer_step (\<lambda>_ _ _. Inl (Fail Timeout))) sample_started
      (PauseCall True # replicate 40 (Tick sample_tick True True)))) in
    \<forall>k < length ps. list_all2
      (\<lambda>r w. wire_seq w = rtp_sequence r + word_of_nat k \<and> wire_marker w = (k = 0) \<and>
        wire_time w = word_of_nat k * frames_per_packet (audio_format (si_config (st_inner sample_streamer))))
      (rtp_senders (st_inner sample_streamer)) (fst (ps ! k))"
  by (rule streamer_packets_contiguous [OF sample_streamer_facts(1) sample_started_eq])
    (simp_all add: sample_streamer_facts copy_codec_fits)



end
