(* ===== verification/Streamer_Live.thy ===== *)
theory Streamer_Live
  imports Streamer_Run
begin

text \<open>
  Progress of the streamer: a healthy stream sends a frame at every turn of its loop, and the loop
  ends by itself only when everything is sent. Then two ways in which the code gets stuck: a short
  tail of a stream is never played and never ends, and a pause that falls between the two halves of
  a turn can be undone by an underrun, which leaves the sender thread paused for good.
\<close>

section \<open>Turns that fill nothing\<close>

text \<open>The decoder has nothing to give: the end is reached or nothing has arrived, and less than a packet
  is left over.\<close>

definition dry :: "audio_format \<Rightarrow> live_decoder \<Rightarrow> bool" where
  "dry f d \<longleftrightarrow> (eof d \<or> rx d = []) \<and> source_rate d = as_hz (sample_rate f) \<and>
     length (residual_samples d) < unat (frames_per_packet f) * unat (channels f)"

lemma decode_dry:
  assumes "dry f d"
  shows "decode_resampled rn f (unat (frames_per_packet f)) d = (Inr None, d)"
proof -
  let ?n = "unat (frames_per_packet f) * unat (channels f)" and ?d = "d\<lparr>residual_samples := []\<rparr>"
  have "decode_frame ?d = (Inr None, ?d)" using assms by (auto simp: dry_def decode_frame_def)
  moreover have "\<not> ?n \<le> length (residual_samples d)" using assms by (simp add: dry_def)
  ultimately have "collect_loop (as_hz (sample_rate f)) ?n (residual_samples d) ?d = (Inr None, d)"
    by (simp add: collect_loop.simps)
  then show ?thesis using assms by (simp add: decode_resampled_def ensure_resampler_def dry_def Let_def)
qed

lemma refill_dry:
  assumes "live_decoder i = Some d" and "dry (audio_format (si_config i)) d"
  shows "refill_buffer_if_needed rn i = (Inr (), i)"
  using assms
  by (simp add: refill_buffer_if_needed_def decode_some_inner_def DECODE_BATCH_LIMIT_def numeral_3_eq_3
      decode_dry Let_def)

lemma update_timing_fields [simp]:
  "si_state (update_timing_offset u i) = si_state i" "si_config (update_timing_offset u i) = si_config i"
  "si_buffer (update_timing_offset u i) = si_buffer i" "live_decoder (update_timing_offset u i) = live_decoder i"
  by (simp_all add: update_timing_offset_def split: option.split)

section \<open>The short tail\<close>

definition tail_stuck :: "audio_frame list \<Rightarrow> live_decoder \<Rightarrow> audio_streamer \<Rightarrow> bool" where
  "tail_stuck frs d s \<longleftrightarrow> (let i = st_inner s in
     loop_running s \<and> si_state i = StBuffering \<and> live_decoder i = Some d \<and> eof d \<and>
     dry (audio_format (si_config i)) d \<and> frames (si_buffer i) = frs \<and> frs \<noteq> [] \<and>
     10 * length frs \<le> capacity_frames (si_buffer i))"

lemma tail_stuck_step:
  assumes "tail_stuck frs d s"
  shows "\<exists>s'. task_step rn tk mf sg s = ([], s') \<and> tail_stuck frs d s'"
proof (cases "loop_checked s")
  case False
  with assms show ?thesis by (simp add: tail_stuck_def task_step_def loop_part_def loop_check_def Let_def)
next
  case True
  let ?i = "update_timing_offset (tk_offset tk) (st_inner s)"
  have fill: "\<not> BUFFER_RESUME_FILL_PERCENT < fill_percentage (si_buffer ?i)"
    using assms fill_tests(2) [of "si_buffer ?i"]
    by (auto simp: tail_stuck_def BUFFER_RESUME_FILL_PERCENT_def Let_def simp flip: length_greater_0_conv)
  then have "buffering_action ?i = (Wait, ?i)"
    using assms by (simp add: buffering_action_def tail_stuck_def buffer_is_empty_def Let_def)
  moreover have "refill_buffer_if_needed rn ?i = (Inr (), ?i)"
    using assms by (intro refill_dry [of _ d]) (simp_all add: tail_stuck_def Let_def)
  ultimately show ?thesis
    using True assms by (simp add: task_step_def loop_part_def loop_body_def tail_stuck_def Let_def)
qed

lemma tail_stuck_run:
  assumes "tail_stuck frs d s" and "list_all (\<lambda>ev. \<exists>tk mf sg. ev = Tick tk mf sg) evs"
  shows "\<exists>s'. run_io (streamer_step rn) s evs = ([], s') \<and> tail_stuck frs d s'"
  using assms
proof (induction evs arbitrary: s)
  case (Cons ev evs)
  then obtain tk mf sg where ev: "ev = Tick tk mf sg" by auto
  obtain s1 where "task_step rn tk mf sg s = ([], s1)" "tail_stuck frs d s1"
    using tail_stuck_step [OF Cons.prems(1)] by blast
  with Cons.IH [of s1] Cons.prems(2) show ?case by (auto simp: ev)
qed simp

section \<open>The end of the loop\<close>

lemma stop_action:
  "buffering_action i = (StopLoop, j) \<Longrightarrow>
   \<exists>d. live_decoder j = Some d \<and> is_eof d \<and> frames (si_buffer j) = [] \<and> live_decoder i = Some d"
  by (auto simp: buffering_action_def buffer_is_empty_def Let_def split: if_splits option.splits)

lemma send_packet_state: "send_packet tk p s = (outs, e, s') \<Longrightarrow> si_state (st_inner s') = si_state (st_inner s)"
  by (auto simp: send_packet_def finish_iteration_def update_sent_packet_state_def sync_for_thread_def
      sync_to_socket_def Let_def split: if_splits prod.splits sum.splits list.splits)

lemma send_next_frame_state:
  "send_next_frame tk s = (outs, e, s') \<Longrightarrow>
   si_state (st_inner s') = si_state (st_inner s) \<or> si_state (st_inner s') = StBuffering"
  by (auto simp: send_next_frame_def finish_iteration_def record_buffer_underrun_def Let_def
      split: if_splits prod.splits sum.splits option.splits dest!: send_packet_state)

lemma decode_batch_state: "decode_batch rn k i = (res, j) \<Longrightarrow> si_state j = si_state i"
proof (induction k arbitrary: i)
  case (Suc k)
  then show ?case
    by (auto simp: Let_def split: option.splits prod.splits sum.splits fault.splits dest!: Suc.IH)
qed simp

lemma refill_state: "refill_buffer_if_needed rn i = (res, j) \<Longrightarrow> si_state j = si_state i"
  by (auto simp: refill_buffer_if_needed_def decode_some_inner_def decode_batch_state split: if_splits)

section \<open>Turns that play\<close>

text \<open>A stream whose frames to come are sane and can all be converted to the encoder's rate, and a buffer of at least four frames: filling the
  buffer never fails.\<close>

definition healthy :: "resampler_maker \<Rightarrow> streamer_inner \<Rightarrow> bool" where
  "healthy rn i \<longleftrightarrow> (let f = audio_format (si_config i) in
     buffer_ok (si_buffer i) \<and> 4 \<le> capacity_frames (si_buffer i) \<and> 0 < unat (frames_per_packet f) * unat (channels f) \<and>
     (\<exists>d. live_decoder i = Some d \<and> frames_sane (rx d) \<and> to_come rn (as_hz (sample_rate f)) d \<noteq> None))"

lemma decode_batch_healthy:
  assumes "healthy rn i" and "length (frames (si_buffer i)) + k \<le> capacity_frames (si_buffer i)"
  shows "\<exists>j new. decode_batch rn k i = (Inr (), j) \<and> frames (si_buffer j) = frames (si_buffer i) @ new \<and> healthy rn j"
  using assms
proof (induction k arbitrary: i)
  case (Suc k)
  let ?f = "audio_format (si_config i)"
  obtain pend d where d: "live_decoder i = Some d" "frames_sane (rx d)"
      "to_come rn (as_hz (sample_rate ?f)) d = Some pend"
    and n: "0 < unat (frames_per_packet ?f) * unat (channels ?f)"
    using Suc.prems(1) by (auto simp: healthy_def Let_def)
  from decode_resampled_cuts [OF d(2,3) n]
  obtain used d' out rest where dec: "decode_resampled rn ?f (unat (frames_per_packet ?f)) d = (Inr out, d')"
      "rx d = used @ rx d'" "to_come rn (as_hz (sample_rate ?f)) d' = Some rest" by blast
  have sane: "frames_sane (rx d')" using d(2) dec(2) by simp
  show ?case
  proof (cases out)
    case None
    have "decode_batch rn (Suc k) i = (Inr (), i\<lparr>live_decoder := Some d'\<rparr>)"
      using d(1) dec(1) None by (simp add: Let_def)
    moreover have "healthy rn (i\<lparr>live_decoder := Some d'\<rparr>)"
      using Suc.prems(1) dec(3) sane by (auto simp: healthy_def Let_def)
    ultimately show ?thesis by auto
  next
    case (Some fr)
    let ?fr = "audio_frame_new (dec_samples fr)"
    obtain b where push: "buffer_push ?fr (si_buffer i) = (Inr (), b)"
      and fr: "frames b = frames (si_buffer i) @ [?fr]" "capacity_frames b = capacity_frames (si_buffer i)"
        "buf_format b = buf_format (si_buffer i)"
      using Suc.prems by (auto simp: buffer_push_def healthy_def buffer_ok_def Let_def)
    let ?i = "i\<lparr>live_decoder := Some d', si_buffer := b\<rparr>"
    have step: "decode_batch rn (Suc k) i = decode_batch rn k ?i"
      using d(1) dec(1) Some push by (simp add: Let_def)
    have "healthy rn ?i" using Suc.prems(1) dec(3) sane fr by (auto simp: healthy_def buffer_ok_def Let_def)
    from Suc.IH [OF this] Suc.prems(2) fr step show ?thesis by auto
  qed
qed auto

lemma refill_healthy:
  assumes "healthy rn i"
  shows "\<exists>j new. refill_buffer_if_needed rn i = (Inr (), j) \<and>
    frames (si_buffer j) = frames (si_buffer i) @ new \<and> healthy rn j"
proof (cases "BUFFER_LOW_WATERMARK_PERCENT \<le> fill_percentage (si_buffer i)")
  case True
  with assms show ?thesis by (auto simp: refill_buffer_if_needed_def)
next
  case False
  then have "length (frames (si_buffer i)) + 3 \<le> capacity_frames (si_buffer i)"
    using assms fill_tests(1) [of "si_buffer i"] by (auto simp: healthy_def BUFFER_LOW_WATERMARK_PERCENT_def Let_def)
  from decode_batch_healthy [OF assms this] False show ?thesis
    by (simp add: refill_buffer_if_needed_def decode_some_inner_def DECODE_BATCH_LIMIT_def)
qed

text \<open>A sender whose cipher never fails.\<close>

definition sealable :: "rtp_sender \<Rightarrow> bool" where
  "sealable r \<longleftrightarrow> (case rtp_cipher r of None \<Rightarrow> True | Some f \<Rightarrow> \<forall>p t s sq. \<exists>x. f p t s sq = Inr x)"

lemma prepare_audio_sealable:
  "sealable r \<Longrightarrow> \<exists>w r'. prepare_audio pt ts payload mk r = (Inr w, r') \<and> sealable r'"
proof -
  assume r: "sealable r"
  have "\<exists>w. audio_wire r pt ts payload mk = Inr w"
  proof (cases "rtp_cipher r")
    case None
    then show ?thesis by (simp add: audio_wire_def Let_def)
  next
    case (Some f)
    with r have "\<exists>x. f payload ts (rtp_ssrc r) (rtp_sequence r) = Inr x" by (simp add: sealable_def)
    with Some show ?thesis by (auto simp: audio_wire_def Let_def)
  qed
  then obtain w where "audio_wire r pt ts payload mk = Inr w" by blast
  with r show "\<exists>w r'. prepare_audio pt ts payload mk r = (Inr w, r') \<and> sealable r'"
    by (simp add: prepare_audio_def serialize_audio_def sealable_def Let_def)
qed

lemma prepare_all_sealable:
  "list_all sealable rs \<Longrightarrow> \<exists>ws rs'. prepare_all pt ts payload mk rs = (Inr ws, rs') \<and> list_all sealable rs'"
proof (induction rs)
  case (Cons r rs)
  then obtain w r' ws rs' where "prepare_audio pt ts payload mk r = (Inr w, r')" "sealable r'"
      "prepare_all pt ts payload mk rs = (Inr ws, rs')" "list_all sealable rs'"
    using prepare_audio_sealable [of r pt ts payload mk] by auto
  then show ?case by simp
qed simp

lemma sync_for_thread_sealable:
  "sync_for_thread sync ts t i = (sd, j) \<Longrightarrow> list_all sealable (rtp_senders i) \<Longrightarrow> list_all sealable (rtp_senders j)"
  by (auto simp: sync_for_thread_def prepare_sync_def prepare_ptp_sync_def sealable_def Let_def
      split: list.splits if_splits prod.splits)

lemma send_packet_live:
  assumes "st_sender_tx s" and "rtp_senders (st_inner s) \<noteq> []" and "list_all sealable (rtp_senders (st_inner s))"
    and "tk_thread_alive tk"
  shows "\<exists>ws sd rs s'. send_packet tk p s = ([ToThread (Packet ws sd)], NextNow, s') \<and> list_all sealable rs \<and>
    rtp_senders (st_inner s') = rs \<and> si_state (st_inner s') = si_state (st_inner s) \<and>
    si_buffer (st_inner s') = si_buffer (st_inner s) \<and> si_config (st_inner s') = si_config (st_inner s) \<and>
    live_decoder (st_inner s') = live_decoder (st_inner s) \<and> loop_running s' = loop_running s \<and>
    loop_checked s' = loop_checked s"
proof -
  let ?i = "st_inner s" and ?ts = "ucast (pkt_timestamp p) :: u32"
  let ?pt = "word_of_nat (stream_type_code (stream_type (si_config ?i))) :: u8"
  let ?t = "adjusted_wall_time ?i (now_wall_ns (tk_wall tk)) + render_delay_ns ?i"
  obtain sd j where sync: "sync_for_thread (need_sync ?i ?ts) ?ts ?t ?i = (sd, j)"
    by (cases "sync_for_thread (need_sync ?i ?ts) ?ts ?t ?i")
  have j: "j = ?i\<lparr>rtp_senders := rtp_senders j\<rparr>" using sync_for_thread_keeps [OF sync] by simp
  then have jf: "si_state j = si_state ?i" "si_buffer j = si_buffer ?i" "si_config j = si_config ?i"
      "live_decoder j = live_decoder ?i"
    by (metis streamer_inner.select_convs streamer_inner.surjective streamer_inner.update_convs(4))+
  obtain ws rs where all: "prepare_all ?pt ?ts (pkt_data p) (\<not> first_packet_sent ?i) (rtp_senders j) = (Inr ws, rs)"
      "list_all sealable rs"
    using prepare_all_sealable sync_for_thread_sealable [OF sync assms(3)] by blast
  show ?thesis
    using assms sync all jf by (simp add: send_packet_def Let_def update_sent_packet_state_def)
qed

text \<open>A playing stream between turns, with at least \<open>n\<close> frames waiting.\<close>

definition playing :: "resampler_maker \<Rightarrow> stream_config \<Rightarrow> u16 list \<Rightarrow> nat \<Rightarrow> audio_streamer \<Rightarrow> bool" where
  "playing rn c q n s \<longleftrightarrow> (\<exists>cp k l. on_track c q cp k l s) \<and> loop_running s \<and> \<not> loop_checked s \<and>
     si_state (st_inner s) = StStreaming \<and> healthy rn (st_inner s) \<and>
     list_all sealable (rtp_senders (st_inner s)) \<and> n \<le> length (frames (si_buffer (st_inner s)))"

lemma send_next_frame_live:
  assumes "on_track c q cp k l s" and "healthy rn (st_inner s)" and "list_all sealable (rtp_senders (st_inner s))"
    and "frames (si_buffer (st_inner s)) = fr # frs" and "tk_thread_alive tk"
  shows "\<exists>ws sd s'. send_next_frame tk s = ([ToThread (Packet ws sd)], NextNow, s') \<and>
    healthy rn (st_inner s') \<and> list_all sealable (rtp_senders (st_inner s')) \<and>
    frames (si_buffer (st_inner s')) = frs \<and> si_state (st_inner s') = si_state (st_inner s) \<and>
    loop_running s' = loop_running s \<and> loop_checked s' = loop_checked s"
proof -
  let ?i = "st_inner s"
  obtain b where pop: "buffer_pop (si_buffer ?i) = (Inr (Some fr), b)" "frames b = frs"
      "capacity_frames b = capacity_frames (si_buffer ?i)" "buf_format b = buf_format (si_buffer ?i)"
    using assms(2,4) by (auto simp: buffer_pop_def healthy_def buffer_ok_def Let_def)
  obtain enc where enc: "si_encoder ?i = Some enc" "encoder_ready enc" "enc_format enc = audio_format c"
    using assms(1) by (auto simp: on_track_def Let_def)
  have "length (samples fr) = packet_samples_per (enc_format enc)"
    using assms(1,4) enc(3) by (auto simp: on_track_def whole_packets_def Let_def)
  from encode_whole_packet [OF enc(2) this] obtain p enc' where
    e: "alac_encoder_encode (samples fr) enc = (Inr p, enc')" by blast
  let ?s = "s\<lparr>st_inner := ?i\<lparr>si_buffer := b, si_encoder := Some enc'\<rparr>\<rparr>"
  have "send_next_frame tk s = send_packet tk p ?s"
    using pop(1) enc(1) e by (simp add: send_next_frame_def Let_def)
  moreover have "healthy rn (st_inner ?s)"
    using assms(2) pop by (auto simp: healthy_def buffer_ok_def Let_def)
  moreover have "st_sender_tx ?s" "rtp_senders (st_inner ?s) \<noteq> []"
    using assms(1) by (auto simp: on_track_def Let_def)
  ultimately show ?thesis
    using send_packet_live [of ?s tk p] assms(3,5) pop(2) by (auto simp: healthy_def Let_def)
qed

lemma playing_turn:
  assumes "playing rn c q (Suc n) s" and "tk_thread_alive tk"
  shows "\<exists>ws sd s'. run_io (streamer_step rn) s [Tick tk0 mf0 sg0, Tick tk mf sg] = ([ToThread (Packet ws sd)], s') \<and>
    playing rn c q n s'"
proof -
  obtain cp k l where track: "on_track c q cp k l s" using assms(1) by (auto simp: playing_def)
  let ?s = "s\<lparr>loop_checked := True\<rparr>" and ?s1 = "s\<lparr>loop_checked := False\<rparr>"
  have check: "streamer_step rn s (Tick tk0 mf0 sg0) = ([], ?s)"
    using assms(1) by (simp add: playing_def task_step_def loop_part_def loop_check_def Let_def)
  have track1: "on_track c q cp k l ?s1" using track by (simp add: on_track_def Let_def)
  let ?i = "update_timing_offset (tk_offset tk) (st_inner s)"
  have "healthy rn ?i" using assms(1) by (simp add: playing_def healthy_def)
  then obtain j new where refill: "refill_buffer_if_needed rn ?i = (Inr (), j)"
      "frames (si_buffer j) = frames (si_buffer (st_inner s)) @ new" "healthy rn j"
    using refill_healthy [of rn ?i] by auto
  have wp: "whole_packets ?i" using track by (simp add: on_track_def Let_def)
  have j: "same_sender (st_inner s) j" "whole_packets j"
    using refill_keeps [OF refill(1) wp] same_sender_trans [OF update_timing_keeps(1)] by auto
  obtain fr frs where fr: "frames (si_buffer j) = fr # frs" "n \<le> length frs"
  proof -
    have "Suc n \<le> length (frames (si_buffer j))" using assms(1) refill(2) by (simp add: playing_def)
    then show thesis using that by (cases "frames (si_buffer j)") auto
  qed
  have act: "buffering_action j = (Ready, j)"
    using j(1) assms(1) by (simp add: buffering_action_def same_sender_def playing_def)
  let ?s2 = "?s1\<lparr>st_inner := j, state_cache := if si_state j = StStreaming then StStreaming else state_cache s\<rparr>"
  have track2: "on_track c q cp k l ?s2"
    by (rule on_track_inner [OF track1 _ j(2)]) (simp_all add: j(1))
  have st: "si_state j = StStreaming" "list_all sealable (rtp_senders j)" "loop_running s"
    using j(1) assms(1) by (simp_all add: same_sender_def playing_def)
  obtain ws sd s' where send: "send_next_frame tk ?s2 = ([ToThread (Packet ws sd)], NextNow, s')"
      "healthy rn (st_inner s')" "list_all sealable (rtp_senders (st_inner s'))"
      "frames (si_buffer (st_inner s')) = frs" "si_state (st_inner s') = StStreaming" "loop_running s'"
      "\<not> loop_checked s'"
    using send_next_frame_live [OF track2, of rn fr frs tk] refill(3) fr(1) st assms(2) by auto
  have body: "loop_body rn tk ?s1 = send_next_frame tk ?s2"
    by (simp add: loop_body_def Let_def refill(1) act)
  from send_next_frame_ok [OF track2, of tk] obtain l' where "on_track c q cp (Suc k) l' s'"
    by (auto simp: step_ok_def send(1))
  then have "playing rn c q n s'" using send fr(2) by (auto simp: playing_def)
  moreover have "streamer_step rn ?s (Tick tk mf sg) = ([ToThread (Packet ws sd)], s')"
    using st(3) send(1) by (simp add: task_step_def loop_part_def body)
  ultimately show ?thesis using check by simp
qed

text \<open>Any number of turns.\<close>

definition turns :: "nat \<Rightarrow> tick \<Rightarrow> streamer_event list" where
  "turns n tk = concat (replicate n [Tick tk True True, Tick tk True True])"

lemma playing_turns:
  assumes "playing rn c q n s" and "tk_thread_alive tk"
  shows "length (packets (fst (run_io (streamer_step rn) s (turns n tk)))) = n \<and>
    playing rn c q 0 (snd (run_io (streamer_step rn) s (turns n tk)))"
  using assms(1)
proof (induction n arbitrary: s)
  case (Suc n)
  obtain ws sd s' where turn: "run_io (streamer_step rn) s [Tick tk True True, Tick tk True True] =
      ([ToThread (Packet ws sd)], s')" "playing rn c q n s'"
    using playing_turn [OF Suc.prems assms(2), of tk True True True True] by blast
  have "turns (Suc n) tk = [Tick tk True True, Tick tk True True] @ turns n tk" by (simp add: turns_def)
  then have "run_io (streamer_step rn) s (turns (Suc n) tk) =
      (let (outs, t) = ([ToThread (Packet ws sd)], s'); (more, u) = run_io (streamer_step rn) t (turns n tk)
       in (outs @ more, u))"
    by (simp only: run_io_append turn(1))
  then show ?case using Suc.IH [OF turn(2)] by (simp add: split_def Let_def)
qed (simp add: turns_def)

definition sample_playing :: "nat \<Rightarrow> audio_streamer" where
  "sample_playing n = on_inner (\<lambda>i. i\<lparr>si_state := StStreaming,
     si_buffer := (si_buffer i)\<lparr>frames := replicate n \<lparr>samples = replicate 704 0\<rparr>\<rparr>\<rparr>) sample_started"

lemma sample_playing_ok: "playing rn default_config [0] n (sample_playing n)"
proof -
  have q: "map rtp_sequence (rtp_senders (st_inner sample_streamer)) = [0]"
    by (simp add: sample_streamer_def set_rtp_sender_def on_inner_def set_control_dest_def sender_new_def)
  have log: "logged default_config [0] True [] sample_started"
    using start_live_logged [OF sample_streamer_facts(1) sample_started_eq sample_streamer_facts(2,3)]
      copy_codec_fits sample_streamer_facts(4) q by simp
  have run: "loop_running sample_started" "\<not> loop_checked sample_started"
      "live_decoder (st_inner sample_started) = Some sample_decoder"
      "list_all sealable (rtp_senders (st_inner sample_started))"
      "buffer_ok (si_buffer (st_inner sample_started))"
      "4 \<le> capacity_frames (si_buffer (st_inner sample_started))"
    by (simp_all add: sample_started_def start_live_def create_encoder_def sample_streamer_def set_rtp_sender_def
        on_inner_def streamer_new_def set_control_dest_def sender_new_def send_targets_def sealable_def
        buffer_ok_def buffer_new_def DEFAULT_BUFFER_CAPACITY_MS_def
        default_config_def default_format_def protocol_defs Let_def max_def)
  from log run(1) obtain l where track: "on_track default_config [0] True 0 l sample_started"
    by (auto simp: logged_def)
  have f: "packet_samples_per (audio_format default_config) = 704" "frames_per_packet (audio_format default_config) = 352"
      "channels (audio_format default_config) = 2" "sample_rate (audio_format default_config) = Hz44100"
    by (simp_all add: packet_samples_per_def default_config_def default_format_def protocol_defs)
  have "on_track default_config [0] True 0 l (sample_playing n)"
    using track f(1)
    by (auto simp: sample_playing_def on_inner_def on_track_def whole_packets_def buffer_ok_def
        has_control_port_def Let_def list_all_iff)
  moreover have "healthy rn (st_inner (sample_playing n))"
    using run(3,5,6) track f
    by (auto simp: healthy_def sample_playing_def on_inner_def on_track_def buffer_ok_def Let_def
        sample_decoder_def live_decoder_new_def frames_sane_def protocol_defs to_come_same_rate)
  ultimately show ?thesis
    using run by (auto simp: playing_def sample_playing_def on_inner_def)
qed

section \<open>Claims\<close>

text \<open>A healthy stream makes progress. When it is streaming, every frame to come can
  be converted to the encoder's rate, its ciphers do
  not fail, the sender thread lives and at least \<open>n\<close> frames wait in the buffer, then \<open>n\<close> turns of the
  loop (each its two parts, with any clocks) send exactly \<open>n\<close> packets.\<close>

theorem streamer_makes_progress:
  assumes "playing rn c q n s" and "tk_thread_alive tk"
  shows "length (packets (fst (run_io (streamer_step rn) s (turns n tk)))) = n"
  using playing_turns [OF assms] by simp

theorem streamer_makes_progress_witness:
  "length (packets (fst (run_io (streamer_step (\<lambda>_ _ _. Inl (Fail Timeout))) (sample_playing 100) (turns 100 sample_tick)))) = 100"
  by (rule streamer_makes_progress [OF sample_playing_ok]) (simp add: sample_tick_def)

text \<open>The loop does not cut a stream short. When a turn of a stream that is buffering or streaming
  stops it, then the decoder had reached its end and the buffer is empty.\<close>

theorem streamer_stops_when_drained:
  assumes "si_state (st_inner s) = StBuffering \<or> si_state (st_inner s) = StStreaming"
    and "task_step rn tk mf sg s = (outs, s')" and "si_state (st_inner s') = StStopped"
  shows "(\<exists>d. live_decoder (st_inner s') = Some d \<and> is_eof d) \<and> frames (si_buffer (st_inner s')) = []"
proof -
  have run: "loop_running s"
  proof (rule ccontr)
    assume "\<not> loop_running s"
    with assms(2) have "s' = s" by (simp add: task_step_def)
    with assms(1,3) show False by auto
  qed
  obtain o1 e s1 where part: "loop_part rn tk s = (o1, e, s1)" by (cases "loop_part rn tk s")
  have st1: "si_state (st_inner s1) = StStopped" and same: "st_inner s' = st_inner s1"
    using assms(2,3) run part
    by (auto simp: task_step_def split: loop_end.splits fault.splits if_splits)
  have checked: "loop_checked s"
    using assms(1) part st1 by (auto simp: loop_part_def loop_check_def Let_def split: if_splits)
  let ?i = "update_timing_offset (tk_offset tk) (st_inner s)"
  obtain res j where refill: "refill_buffer_if_needed rn ?i = (res, j)" by (cases "refill_buffer_if_needed rn ?i")
  have j: "si_state j = si_state (st_inner s)" using refill_state [OF refill] by simp
  obtain a m where act: "buffering_action j = (a, m)" by (cases "buffering_action j")
  have m: "si_state m = StStopped \<Longrightarrow> a = StopLoop"
    using act j assms(1) by (auto simp: buffering_action_def Let_def split: if_splits)
  have body: "loop_body rn tk (s\<lparr>loop_checked := False\<rparr>) = (o1, e, s1)"
    using part checked by (simp add: loop_part_def)
  show ?thesis
  proof (cases "res = Inr () \<and> a = StopLoop")
    case True
    with body refill act have "st_inner s1 = m" by (auto simp: loop_body_def Let_def)
    with stop_action [of j m] True act same show ?thesis by auto
  next
    case False
    with body refill act st1 j assms(1) m show ?thesis
      by (cases res; cases a) (auto simp: loop_body_def Let_def dest!: send_next_frame_state split: if_splits)
  qed
qed

theorem streamer_stops_when_drained_witness:
  "(\<exists>d. live_decoder (st_inner (snd (task_step (\<lambda>_ _ _. Inl (Fail Timeout)) sample_tick True True
        (on_inner (\<lambda>i. i\<lparr>live_decoder := Some (sample_decoder\<lparr>rx := [], eof := True\<rparr>)\<rparr>)
          (sample_started\<lparr>loop_checked := True\<rparr>))))) = Some d \<and> is_eof d) \<and>
    frames (si_buffer (st_inner (snd (task_step (\<lambda>_ _ _. Inl (Fail Timeout)) sample_tick True True
        (on_inner (\<lambda>i. i\<lparr>live_decoder := Some (sample_decoder\<lparr>rx := [], eof := True\<rparr>)\<rparr>)
          (sample_started\<lparr>loop_checked := True\<rparr>)))))) = []"
proof -
  let ?d = "sample_decoder\<lparr>rx := [], eof := True\<rparr>"
  let ?s = "on_inner (\<lambda>i. i\<lparr>live_decoder := Some ?d\<rparr>) (sample_started\<lparr>loop_checked := True\<rparr>)"
  let ?i = "update_timing_offset (tk_offset sample_tick) (st_inner ?s)"
  have s: "si_state (st_inner ?s) = StBuffering" "loop_running ?s" "loop_checked ?s"
      "frames (si_buffer (st_inner ?s)) = []" "live_decoder (st_inner ?s) = Some ?d"
      "si_config (st_inner ?s) = default_config" "0 < capacity_frames (si_buffer (st_inner ?s))"
    by (simp_all add: sample_started_def start_live_def create_encoder_def sample_streamer_def set_rtp_sender_def
        on_inner_def streamer_new_def set_control_dest_def sender_new_def send_targets_def
        buffer_new_def default_config_def default_format_def Let_def)
  have "dry (audio_format default_config) ?d"
    by (simp add: dry_def sample_decoder_def live_decoder_new_def default_config_def default_format_def protocol_defs)
  then have refill: "refill_buffer_if_needed (\<lambda>_ _ _. Inl (Fail Timeout)) ?i = (Inr (), ?i)"
    using s by (intro refill_dry [of _ ?d]) simp_all
  have "buffering_action ?i = (StopLoop, ?i\<lparr>si_state := StStopped\<rparr>)"
    using s fill_tests(2) [of "si_buffer ?i"]
    by (simp add: buffering_action_def BUFFER_RESUME_FILL_PERCENT_def buffer_is_empty_def is_eof_def rx_is_empty_def)
  then have "si_state (st_inner (snd (task_step (\<lambda>_ _ _. Inl (Fail Timeout)) sample_tick True True ?s))) = StStopped"
    using s refill by (simp add: task_step_def loop_part_def loop_body_def Let_def)
  then show ?thesis
    using s(1) by (intro streamer_stops_when_drained [where s = ?s]) (auto intro: prod.collapse [symmetric])
qed

text \<open>C23: a short tail is never played and never ends. When the decoder has reached its end while the
  stream is buffering, and the buffer holds something but no more than a tenth of its capacity (25
  packets, a fifth of a second, in the default configuration), then however often the loop turns it
  sends nothing, keeps running, and keeps the audio in the buffer.\<close>

theorem short_tail_never_plays:
  assumes "loop_running s" and "si_state (st_inner s) = StBuffering"
    and "live_decoder (st_inner s) = Some d" and "eof d" and "dry (audio_format (si_config (st_inner s))) d"
    and "frames (si_buffer (st_inner s)) \<noteq> []"
    and "10 * length (frames (si_buffer (st_inner s))) \<le> capacity_frames (si_buffer (st_inner s))"
  shows "let (outs, s') = run_io (streamer_step rn) s (turns n tk) in
    outs = [] \<and> loop_running s' \<and> si_state (st_inner s') = StBuffering \<and>
    frames (si_buffer (st_inner s')) = frames (si_buffer (st_inner s))"
proof -
  have "tail_stuck (frames (si_buffer (st_inner s))) d s"
    using assms by (simp add: tail_stuck_def Let_def)
  moreover have "list_all (\<lambda>ev. \<exists>tk mf sg. ev = Tick tk mf sg) (turns n tk)"
    by (auto simp: turns_def list_all_iff)
  ultimately obtain s' where "run_io (streamer_step rn) s (turns n tk) = ([], s')"
      "tail_stuck (frames (si_buffer (st_inner s))) d s'"
    using tail_stuck_run by blast
  then show ?thesis by (simp add: tail_stuck_def Let_def)
qed

definition sample_tail :: audio_streamer where
  "sample_tail = on_inner (\<lambda>i. i\<lparr>live_decoder := Some (sample_decoder\<lparr>rx := [], eof := True\<rparr>),
     si_buffer := (si_buffer i)\<lparr>frames := replicate 25 \<lparr>samples = replicate 704 0\<rparr>\<rparr>\<rparr>) sample_started"

theorem short_tail_never_plays_witness:
  "let (outs, s') = run_io (streamer_step (\<lambda>_ _ _. Inl (Fail Timeout))) sample_tail (turns 1000 sample_tick) in
    outs = [] \<and> loop_running s' \<and> si_state (st_inner s') = StBuffering \<and>
    frames (si_buffer (st_inner s')) = frames (si_buffer (st_inner sample_tail))"
proof (rule short_tail_never_plays)
  show "live_decoder (st_inner sample_tail) = Some (sample_decoder\<lparr>rx := [], eof := True\<rparr>)"
    by (simp add: sample_tail_def on_inner_def)
qed (simp_all add: sample_tail_def sample_started_def start_live_def create_encoder_def sample_streamer_def
    set_rtp_sender_def on_inner_def streamer_new_def set_control_dest_def sender_new_def send_targets_def
    buffer_new_def DEFAULT_BUFFER_CAPACITY_MS_def default_config_def default_format_def protocol_defs Let_def
    dry_def sample_decoder_def live_decoder_new_def max_def)

section \<open>A pause that is undone\<close>

text \<open>What the sender thread receives from the outputs of the streamer.\<close>

definition to_thread :: "(nat \<Rightarrow> u64) \<Rightarrow> stream_out list \<Rightarrow> thread_event list" where
  "to_thread clk outs =
     map (\<lambda>(k, m). ThMessage m (clk k) (clk k))
       (enumerate 0 (concat (map (\<lambda>out. case out of ToThread m \<Rightarrow> [m] | Wire _ _ \<Rightarrow> []) outs)))"

lemma gate_closed:
  "\<forall>ev \<in> set evs. \<forall>a b. ev \<noteq> ThMessage ResumeMsg a b \<Longrightarrow> fst (run_io gate_step ThPaused evs) = []"
  "fst (run_io gate_step ThExited evs) = []"
proof -
  show ex: "fst (run_io gate_step ThExited evs) = []" for evs
    by (induction evs) (simp_all add: split_def Let_def)
  show "fst (run_io gate_step ThPaused evs) = []" if "\<forall>ev \<in> set evs. \<forall>a b. ev \<noteq> ThMessage ResumeMsg a b"
    using that
  proof (induction evs)
    case (Cons ev evs)
    then have "gate_step ThPaused ev = ([], ThPaused) \<or> gate_step ThPaused ev = ([], ThExited)"
      by (cases ev; cases "case ev of ThMessage m _ _ \<Rightarrow> m | _ \<Rightarrow> StopMsg") auto
    with Cons ex show ?case by (auto simp: split_def Let_def)
  qed simp
qed

lemma send_packet_outs:
  "send_packet tk p s = (outs, e, s') \<Longrightarrow> \<forall>out \<in> set outs. (\<exists>ws sd. out = ToThread (Packet ws sd)) \<or> (\<exists>b d. out = Wire b d)"
  by (auto simp: send_packet_def finish_iteration_def Let_def split: if_splits prod.splits sum.splits)

lemma task_step_outs:
  assumes "task_step rn tk mf sg s = (outs, s')" and "ToThread m \<in> set outs"
  shows "m \<noteq> ResumeMsg"
proof -
  have next_outs: "m \<noteq> ResumeMsg" if "send_next_frame tk s0 = (o0, e0, s1)" "ToThread m \<in> set o0" for s0 o0 e0 s1
    using that
    by (auto simp: send_next_frame_def Let_def split: prod.splits sum.splits option.splits dest!: send_packet_outs)
  have part: "m \<noteq> ResumeMsg" if "loop_part rn tk s = (o0, e0, s1)" "ToThread m \<in> set o0" for o0 e0 s1
    using that
    by (auto simp: loop_part_def loop_body_def Let_def dest: next_outs
        split: if_splits prod.splits sum.splits buffering_action.splits)
  from assms show ?thesis
    by (auto simp: task_step_def dest: part split: if_splits prod.splits loop_end.splits fault.splits)
qed

lemma turns_outs:
  assumes "list_all (\<lambda>ev. \<exists>tk mf sg. ev = Tick tk mf sg) evs" and "ToThread m \<in> set (fst (run_io (streamer_step rn) s evs))"
  shows "m \<noteq> ResumeMsg"
  using assms
proof (induction evs arbitrary: s)
  case (Cons ev evs)
  then obtain tk mf sg where "ev = Tick tk mf sg" by auto
  with Cons show ?case
    by (auto simp: split_def Let_def dest: task_step_outs [OF prod.collapse [symmetric]])
qed simp

lemma gate_after_pause:
  assumes "\<And>m. ToThread m \<in> set outs \<Longrightarrow> m \<noteq> ResumeMsg"
  shows "fst (run_io gate_step ThRunning (to_thread clk (ToThread PauseMsg # outs))) = []"
proof -
  let ?ms = "concat (map (\<lambda>out. case out of ToThread m \<Rightarrow> [m] | Wire _ _ \<Rightarrow> []) outs)"
  let ?evs = "map (\<lambda>(k, m). ThMessage m (clk k) (clk k)) (enumerate 1 ?ms)"
  have "ResumeMsg \<notin> set ?ms" using assms by (fastforce split: stream_out.splits)
  moreover have "snd ` set (enumerate 1 ?ms) = set ?ms" by (metis list.set_map map_snd_enumerate)
  ultimately have "\<forall>ev \<in> set ?evs. \<forall>a b. ev \<noteq> ThMessage ResumeMsg a b" by (force simp del: set_concat)
  then have "fst (run_io gate_step ThPaused ?evs) = []" by (rule gate_closed)
  then show ?thesis by (simp add: to_thread_def split_def Let_def)
qed

lemma underrun_undoes_pause:
  assumes "loop_running s" and "loop_checked s" and "si_state (st_inner s) = StStreaming" and "st_sender_tx s"
    and "live_decoder (st_inner s) = Some d" and "dry (audio_format (si_config (st_inner s))) d"
    and "frames (si_buffer (st_inner s)) = []"
  shows "\<exists>s'. run_io (streamer_step rn) s [PauseCall True, Tick tk mf sg, ResumeCall True] =
    ([ToThread PauseMsg], s') \<and> si_state (st_inner s') = StBuffering \<and> loop_running s'"
proof -
  let ?s = "s\<lparr>st_inner := (st_inner s)\<lparr>si_state := StPaused\<rparr>, state_cache := StPaused\<rparr>"
  have pause: "streamer_step rn s (PauseCall True) = ([ToThread PauseMsg], ?s)"
    using assms by (simp add: streamer_pause_def signal_thread_def)
  let ?i = "update_timing_offset (tk_offset tk) (st_inner ?s)"
  have "refill_buffer_if_needed rn ?i = (Inr (), ?i)" using assms by (intro refill_dry [of _ d]) simp_all
  moreover have "buffering_action ?i = (Ready, ?i)" by (simp add: buffering_action_def)
  ultimately obtain s1 where body: "streamer_step rn ?s (Tick tk mf sg) = ([], s1)"
      "si_state (st_inner s1) = StBuffering" "loop_running s1"
    using assms
    by (simp add: task_step_def loop_part_def loop_body_def send_next_frame_def buffer_pop_def
        finish_iteration_def record_buffer_underrun_def Let_def)
  have "streamer_step rn s1 (ResumeCall True) = ([], s1)" using body(2) by (simp add: streamer_resume_def)
  with pause body show ?thesis by (simp add: Let_def)
qed


definition sample_gap :: audio_streamer where
  "sample_gap = (on_inner (\<lambda>i. i\<lparr>si_state := StStreaming, live_decoder := Some (sample_decoder\<lparr>rx := []\<rparr>)\<rparr>)
     sample_started)\<lparr>loop_checked := True\<rparr>"


end
