(* ===== verification/Pipeline.thy ===== *)
theory Pipeline
  imports Streamer_Live
begin

text \<open>
  The streamer task, the bounded channel and the sender thread together: what
  \<open>AudioStreamer::start_live\<close> of \<open>src/audio/streamer.rs\<close> wires up, and \<open>stop\<close> in its two halves, the
  request and the join. The channel holds at most \<open>SENDER_CHANNEL_CAPACITY\<close> messages; the task's
  packets wait for room (\<open>tx.send\<close> on a blocking thread), the signals of \<open>pause\<close>, \<open>resume\<close>, \<open>stop\<close>
  and of the task's end do not (\<open>try_send\<close>). The task and the thread are the machines of the theories
  \<open>Streamer\<close> and \<open>Sender_Thread\<close>; any interleaving of their steps is a list of events.
\<close>

section \<open>The composed machine\<close>

definition SENDER_CHANNEL_CAPACITY :: nat where "SENDER_CHANNEL_CAPACITY = 8"

record pipeline =
  pl_streamer :: audio_streamer
  pl_channel :: "sender_message list"
  pl_pending :: "sender_message option"
  pl_thread :: sender_thread
  pl_stopping :: bool
  pl_returned :: bool

datatype pipe_event =
    TaskTurn tick bool | SendUnblocks | ThreadTurn u64 u64
  | PipePause | PipeResume | PipeStop | JoinReturns

datatype pipe_out = Up stream_out | Net thread_out

definition thread_alive :: "pipeline \<Rightarrow> bool" where
  "thread_alive p \<longleftrightarrow> th_mode (pl_thread p) \<noteq> ThExited"

text \<open>\<open>try_send\<close> succeeds if the receiver lives and the channel has room.\<close>

definition has_room :: "pipeline \<Rightarrow> bool" where
  "has_room p \<longleftrightarrow> thread_alive p \<and> length (pl_channel p) < SENDER_CHANNEL_CAPACITY"

text \<open>A message of the task: a packet waits if there is no room, a signal was only emitted with room.\<close>

fun post :: "pipeline \<Rightarrow> stream_out \<Rightarrow> pipeline" where
  "post p (ToThread (Packet ps sy)) =
     (if length (pl_channel p) < SENDER_CHANNEL_CAPACITY
      then p\<lparr>pl_channel := pl_channel p @ [Packet ps sy]\<rparr>
      else p\<lparr>pl_pending := Some (Packet ps sy)\<rparr>)"
| "post p (ToThread m) = p\<lparr>pl_channel := pl_channel p @ [m]\<rparr>"
| "post p (Wire _ _) = p"

definition post_all :: "stream_out list \<Rightarrow> pipeline \<Rightarrow> pipeline" where
  "post_all outs p = foldl post p outs"

text \<open>A waiting \<open>send\<close> ends when there is room, or fails when the receiver is gone: the loop breaks.\<close>

definition send_unblocks :: "pipeline \<Rightarrow> pipeline" where
  "send_unblocks p =
     (case pl_pending p of
        None \<Rightarrow> p
      | Some m \<Rightarrow>
          if has_room p then p\<lparr>pl_channel := pl_channel p @ [m], pl_pending := None\<rparr>
          else if \<not> thread_alive p then
            p\<lparr>pl_pending := None,
              pl_streamer := (pl_streamer p)\<lparr>state_cache := StError, loop_running := False\<rparr>\<rparr>
          else p)"

text \<open>The thread receives the oldest message. The channel is disconnected when it is empty and both
  transmitters are gone, the one of the task and the one of the streamer's handle.\<close>

definition thread_turn :: "u64 \<Rightarrow> u64 \<Rightarrow> pipeline \<Rightarrow> thread_out list \<times> pipeline" where
  "thread_turn before after p =
     (case pl_channel p of
        m # ms \<Rightarrow>
          (let (outs, th) = thread_step (pl_thread p) (ThMessage m before after)
           in (outs, if thread_alive p then p\<lparr>pl_thread := th, pl_channel := ms\<rparr> else p))
      | [] \<Rightarrow>
          (let gone = (\<not> loop_running (pl_streamer p) \<and> pl_stopping p);
               (outs, th) = thread_step (pl_thread p) (if gone then ThDisconnected else ThTimeout)
           in (outs, p\<lparr>pl_thread := th\<rparr>)))"

text \<open>\<open>stop\<close> up to the join, and from the join's return.\<close>

definition stop_request :: "pipeline \<Rightarrow> stream_out list \<times> pipeline" where
  "stop_request p =
     (if pl_stopping p then ([], p)
      else (let outs = signal_thread (has_room p) StopMsg (pl_streamer p);
                p = p\<lparr>pl_streamer := (pl_streamer p)\<lparr>state_cache := StStopped\<rparr>, pl_stopping := True\<rparr>
            in (outs, post_all outs p)))"

definition stop_finish :: "pipeline \<Rightarrow> pipeline" where
  "stop_finish p =
     (if pl_stopping p \<and> \<not> thread_alive p \<and> \<not> pl_returned p
      then p\<lparr>pl_streamer := snd (streamer_stop False (pl_streamer p)), pl_pending := None, pl_returned := True\<rparr>
      else p)"

fun pipeline_step :: "resampler_maker \<Rightarrow> pipeline \<Rightarrow> pipe_event \<Rightarrow> pipe_out list \<times> pipeline" where
  "pipeline_step rn p (TaskTurn tk mutex_free) =
     (if pl_pending p \<noteq> None then ([], p)
      else (let (outs, s) = task_step rn (tk\<lparr>tk_thread_alive := thread_alive p\<rparr>) mutex_free (has_room p)
                  (pl_streamer p)
            in (map Up outs, post_all outs (p\<lparr>pl_streamer := s\<rparr>))))"
| "pipeline_step rn p SendUnblocks = ([], send_unblocks p)"
| "pipeline_step rn p (ThreadTurn before after) =
     (let (outs, p) = thread_turn before after p in (map Net outs, p))"
| "pipeline_step rn p PipePause =
     (if pl_stopping p then ([], p)
      else (let (outs, s) = streamer_pause (has_room p) (pl_streamer p)
            in (map Up outs, post_all outs (p\<lparr>pl_streamer := s\<rparr>))))"
| "pipeline_step rn p PipeResume =
     (if pl_stopping p then ([], p)
      else (let (outs, s) = streamer_resume (has_room p) (pl_streamer p)
            in (map Up outs, post_all outs (p\<lparr>pl_streamer := s\<rparr>))))"
| "pipeline_step rn p PipeStop = (let (outs, p) = stop_request p in (map Up outs, p))"
| "pipeline_step rn p JoinReturns = ([], stop_finish p)"

definition pipeline_run :: "resampler_maker \<Rightarrow> pipeline \<Rightarrow> pipe_event list \<Rightarrow> pipe_out list \<times> pipeline" where
  "pipeline_run rn = run_io (pipeline_step rn)"

text \<open>The pipeline as \<open>start_live\<close> leaves it.\<close>

definition pipeline_start :: "audio_streamer \<Rightarrow> u64 \<Rightarrow> u64 \<Rightarrow> pipeline" where
  "pipeline_start s frame_ns now =
     \<lparr> pl_streamer = s, pl_channel = [], pl_pending = None,
       pl_thread = sender_thread_start (send_targets (rtp_senders (st_inner s))) frame_ns
         DEFAULT_BURST_SIZE now,
       pl_stopping = False, pl_returned = False \<rparr>"

section \<open>The task's outputs\<close>

definition task_outs :: "tick \<Rightarrow> bool \<Rightarrow> stream_out list \<Rightarrow> audio_streamer \<Rightarrow> bool" where
  "task_outs tk room outs s' \<longleftrightarrow>
     outs = [] \<or> (\<exists>ps sy. outs = [ToThread (Packet ps sy)] \<and> loop_running s' \<and> tk_thread_alive tk) \<or>
     (outs = [ToThread StopMsg] \<and> room \<and> \<not> loop_running s')"

lemma send_packet_shape:
  assumes "send_packet tk packet s = (outs, e, s')" and "st_sender_tx s"
  shows "st_sender_tx s' \<and> loop_running s' = loop_running s \<and>
    (outs = [] \<or> (\<exists>ps sy. outs = [ToThread (Packet ps sy)] \<and> e = NextNow \<and> tk_thread_alive tk))"
  using assms
  by (auto simp: send_packet_def finish_iteration_def update_sent_packet_state_def Let_def
      split: if_splits prod.splits sum.splits)

lemma send_next_frame_shape:
  assumes "send_next_frame tk s = (outs, e, s')" and "st_sender_tx s"
  shows "st_sender_tx s' \<and> loop_running s' = loop_running s \<and>
    (outs = [] \<or> (\<exists>ps sy. outs = [ToThread (Packet ps sy)] \<and> e = NextNow \<and> tk_thread_alive tk))"
  using assms
  by (auto simp: send_next_frame_def finish_iteration_def record_buffer_underrun_def Let_def
      split: if_splits prod.splits sum.splits option.splits dest!: send_packet_shape)

lemma loop_part_shape:
  assumes "loop_part rn tk s = (outs, e, s')" and "st_sender_tx s"
  shows "st_sender_tx s' \<and> loop_running s' = loop_running s \<and>
    (outs = [] \<or> (\<exists>ps sy. outs = [ToThread (Packet ps sy)] \<and> e = NextNow \<and> tk_thread_alive tk))"
  using assms
  by (auto simp: loop_part_def loop_body_def loop_check_def Let_def
      split: if_splits prod.splits sum.splits buffering_action.splits dest!: send_next_frame_shape)

lemma task_step_shape:
  assumes "task_step rn tk mf room s = (outs, s')" and "st_sender_tx s"
  shows "st_sender_tx s' \<and> task_outs tk room outs s' \<and> (\<not> loop_running s \<longrightarrow> outs = [] \<and> s' = s)"
  using assms
  by (auto simp: task_step_def task_outs_def split: if_splits prod.splits loop_end.splits fault.splits
      dest!: loop_part_shape)

section \<open>In order, nothing lost\<close>

definition ups :: "pipe_out list \<Rightarrow> stream_out list" where
  "ups outs = concat (map (\<lambda>out. case out of Up u \<Rightarrow> [u] | Net _ \<Rightarrow> []) outs)"

definition nets :: "pipe_out list \<Rightarrow> thread_out list" where
  "nets outs = concat (map (\<lambda>out. case out of Up _ \<Rightarrow> [] | Net n \<Rightarrow> [n]) outs)"

lemma ups_nets_simps [simp]:
  "ups [] = []" "nets [] = []"
  "ups (xs @ ys) = ups xs @ ups ys" "nets (xs @ ys) = nets xs @ nets ys"
  "ups (Up u # outs) = u # ups outs" "nets (Up u # outs) = nets outs"
  "ups (map Up us) = us" "ups (map Net ns) = []" "nets (map Up us) = []" "nets (map Net ns) = ns"
  by (simp_all add: ups_def nets_def comp_def)

definition as_packet :: "bytes list \<times> bytes option \<Rightarrow> sender_message" where
  "as_packet q = Packet (fst q) (snd q)"

lemma as_packet_simps [simp]: "as_packet (ps, sy) = Packet ps sy" "as_packet q \<noteq> StopMsg"
    "StopMsg \<noteq> as_packet q"
  by (simp_all add: as_packet_def)

definition waiting :: "pipeline \<Rightarrow> sender_message list" where
  "waiting p = (case pl_pending p of None \<Rightarrow> [] | Some m \<Rightarrow> [m])"

lemma waiting_simps [simp]:
  "pl_pending p = None \<Longrightarrow> waiting p = []" "pl_pending p = Some m \<Longrightarrow> waiting p = [m]"
  by (simp_all add: waiting_def)

text \<open>\<open>q\<close> are the packets in flight: those in the channel and the one that waits for room. The thread
  runs, or it has taken the stop signal of a task that is over.\<close>

definition in_flight :: "send_target list \<Rightarrow> (bytes list \<times> bytes option) list \<Rightarrow> pipeline \<Rightarrow> bool" where
  "in_flight ts q p \<longleftrightarrow>
     \<not> pl_stopping p \<and> st_sender_tx (pl_streamer p) \<and>
     th_targets (pl_thread p) = ts \<and> th_burst_size (pl_thread p) = 1 \<and> th_burst_buffer (pl_thread p) = [] \<and>
     (th_mode (pl_thread p) = ThRunning \<and> length (pl_channel p) \<le> SENDER_CHANNEL_CAPACITY \<and>
        (pl_channel p @ waiting p = map as_packet q \<or>
         pl_channel p = map as_packet q @ [StopMsg] \<and> pl_pending p = None \<and> \<not> loop_running (pl_streamer p)) \<or>
      th_mode (pl_thread p) = ThExited \<and> q = [] \<and> pl_pending p = None \<and> \<not> loop_running (pl_streamer p))"

lemma in_flight_length: "in_flight ts q p \<Longrightarrow> length q \<le> 9"
proof -
  assume *: "in_flight ts q p"
  have "length (waiting p) \<le> 1" by (simp add: waiting_def split: option.split)
  moreover have "length (pl_channel p) + length (waiting p) = length q"
    if "pl_channel p @ waiting p = map as_packet q"
    using arg_cong [OF that, of length] by simp
  ultimately show ?thesis using * by (auto simp: in_flight_def SENDER_CHANNEL_CAPACITY_def)
qed

lemma burst_single: "burst_datagrams ts [p] = packet_datagrams ts p"
  by (simp add: burst_datagrams_def)

lemma on_packet_single:
  assumes "th_burst_size th = 1" and "th_burst_buffer th = []" and "on_packet x before after th = (outs, th')"
  shows "datagrams outs = burst_datagrams (th_targets th) [x] \<and> th_targets th' = th_targets th \<and>
    th_burst_size th' = 1 \<and> th_burst_buffer th' = [] \<and> th_mode th' = th_mode th"
  using assms by (auto simp: on_packet_def Let_def)

lemma in_flight_task:
  assumes "in_flight ts q p" and "pipeline_step rn p (TaskTurn tk mf) = (outs, p')"
  shows "in_flight ts (q @ packets (ups outs)) p' \<and> nets outs = []"
proof (cases "pl_pending p")
  case None
  obtain us s' where t: "task_step rn (tk\<lparr>tk_thread_alive := thread_alive p\<rparr>) mf (has_room p) (pl_streamer p) = (us, s')"
    by fastforce
  have tx: "st_sender_tx (pl_streamer p)" using assms(1) by (simp add: in_flight_def)
  note shape = task_step_shape [OF t tx]
  have step: "outs = map Up us" "p' = post_all us (p\<lparr>pl_streamer := s'\<rparr>)" using assms(2) None t by auto
  have w: "waiting p = []" using None by simp
  consider "us = []" "loop_running s' \<longrightarrow> loop_running (pl_streamer p)"
    | ps sy where "us = [ToThread (Packet ps sy)]" "loop_running (pl_streamer p)" "thread_alive p"
    | "us = [ToThread StopMsg]" "loop_running (pl_streamer p)" "has_room p" "\<not> loop_running s'"
    using shape by (cases "loop_running (pl_streamer p)") (auto simp: task_outs_def)
  then show ?thesis
  proof cases
    case 1
    with assms(1) w step shape None show ?thesis by (auto simp: in_flight_def post_all_def)
  next
    case 2
    then have run: "th_mode (pl_thread p) = ThRunning" "pl_channel p = map as_packet q"
      using assms(1) w by (auto simp: in_flight_def)
    with assms(1) 2(1) step shape None show ?thesis by (simp add: in_flight_def post_all_def)
  next
    case 3
    then have run: "th_mode (pl_thread p) = ThRunning" "pl_channel p = map as_packet q"
      using assms(1) w by (auto simp: in_flight_def)
    with assms(1) 3 step shape None show ?thesis by (simp add: in_flight_def post_all_def has_room_def)
  qed
qed (use assms in simp)

lemma thread_step_idle [simp]:
  "th_mode s = ThExited \<Longrightarrow> thread_step s ev = ([], s)"
  "th_mode s = ThRunning \<Longrightarrow> thread_step s ThTimeout = ([], s)"
  "th_mode s = ThRunning \<Longrightarrow> thread_step s (ThMessage StopMsg a b) = ([], s\<lparr>th_mode := ThExited\<rparr>)"
  by (simp_all add: thread_step.simps)

lemma in_flight_unblocks:
  assumes "in_flight ts q p" shows "in_flight ts q (send_unblocks p)"
proof (cases "pl_pending p")
  case (Some m)
  then have run: "th_mode (pl_thread p) = ThRunning" and ch: "pl_channel p @ [m] = map as_packet q"
    using assms by (auto simp: in_flight_def)
  show ?thesis
  proof (cases "has_room p")
    case True
    then have "length (pl_channel p @ [m]) \<le> SENDER_CHANNEL_CAPACITY" by (simp add: has_room_def)
    with True Some run ch assms show ?thesis by (simp add: send_unblocks_def in_flight_def)
  next
    case False
    with Some run assms show ?thesis by (simp add: send_unblocks_def thread_alive_def)
  qed
qed (use assms in \<open>simp add: send_unblocks_def\<close>)

lemma in_flight_thread:
  assumes "in_flight ts q p" and "pipeline_step rn p (ThreadTurn before after) = (outs, p')"
  shows "\<exists>r q'. in_flight ts q' p' \<and> q = r @ q' \<and> ups outs = [] \<and> datagrams (nets outs) = burst_datagrams ts r"
proof (cases "th_mode (pl_thread p) = ThExited \<or> pl_channel p = []")
  case True
  have "thread_turn before after p = ([], p)"
  proof (cases "th_mode (pl_thread p) = ThExited")
    case True
    then show ?thesis by (simp add: thread_turn_def thread_alive_def split: list.split)
  next
    case False
    then have "th_mode (pl_thread p) = ThRunning" "\<not> pl_stopping p"
      using assms(1) by (auto simp: in_flight_def)
    then show ?thesis using True False by (simp add: thread_turn_def)
  qed
  then show ?thesis using assms by (intro exI [of _ "[]"] exI [of _ q]) simp
next
  case False
  then obtain m ms where ch: "pl_channel p = m # ms" by (cases "pl_channel p") auto
  have run: "th_mode (pl_thread p) = ThRunning" using assms(1) False by (auto simp: in_flight_def)
  show ?thesis
  proof (cases m)
    case (Packet ps sy)
    obtain nouts th' where on: "on_packet (ps, sy) before after (pl_thread p) = (nouts, th')" by fastforce
    have b: "th_burst_size (pl_thread p) = 1" "th_burst_buffer (pl_thread p) = []"
      using assms(1) by (auto simp: in_flight_def)
    obtain q' where q: "q = (ps, sy) # q'"
      using assms(1) ch Packet run by (cases q) (auto simp: in_flight_def as_packet_def)
    show ?thesis
      using assms ch Packet run on q on_packet_single [OF b on]
      by (intro exI [of _ "[(ps, sy)]"] exI [of _ q'])
        (auto simp: thread_turn_def thread_step_packet thread_alive_def in_flight_def waiting_def)
  next
    case StopMsg
    then have "q = []" "ms = []" "pl_pending p = None" "\<not> loop_running (pl_streamer p)"
      using assms(1) ch run by (cases q; auto simp: in_flight_def as_packet_def waiting_def split: option.splits)+
    then show ?thesis
      using assms ch run StopMsg
      by (intro exI [of _ "[]"]) (auto simp: thread_turn_def thread_alive_def in_flight_def)
  next
    case PauseMsg
    then show ?thesis
      using assms(1) ch run by (cases q) (auto simp: in_flight_def as_packet_def waiting_def split: option.splits)
  next
    case ResumeMsg
    then show ?thesis
      using assms(1) ch run by (cases q) (auto simp: in_flight_def as_packet_def waiting_def split: option.splits)
  qed
qed

lemma in_flight_step:
  assumes "in_flight ts q p" and "pipeline_step rn p ev = (outs, p')"
    and "ev \<notin> {PipePause, PipeResume, PipeStop}"
  shows "\<exists>r q'. in_flight ts q' p' \<and> q @ packets (ups outs) = r @ q' \<and> datagrams (nets outs) = burst_datagrams ts r"
proof (cases ev)
  case (TaskTurn tk mf)
  with assms in_flight_task [of ts q p rn tk mf outs p'] show ?thesis
    by (intro exI [of _ "[]"] exI [of _ "q @ packets (ups outs)"]) simp
next
  case (ThreadTurn before after)
  with assms in_flight_thread [of ts q p rn before after outs p'] show ?thesis by fastforce
next
  case SendUnblocks
  then show ?thesis using assms in_flight_unblocks by (intro exI [of _ "[]"] exI [of _ q]) auto
next
  case JoinReturns
  then show ?thesis using assms
    by (intro exI [of _ "[]"] exI [of _ q]) (auto simp: stop_finish_def in_flight_def waiting_def)
qed (use assms in simp_all)

lemma in_flight_run:
  assumes "in_flight ts q p" and "run_io (pipeline_step rn) p evs = (outs, p')"
    and "set evs \<inter> {PipePause, PipeResume, PipeStop} = {}"
  shows "\<exists>r q'. in_flight ts q' p' \<and> q @ packets (ups outs) = r @ q' \<and> datagrams (nets outs) = burst_datagrams ts r"
  using assms
proof (induction evs arbitrary: p q outs)
  case Nil
  then show ?case by (intro exI [of _ "[]"] exI [of _ q]) simp
next
  case (Cons ev evs)
  obtain o1 p1 where one: "pipeline_step rn p ev = (o1, p1)" by fastforce
  obtain o2 where more: "run_io (pipeline_step rn) p1 evs = (o2, p')" "outs = o1 @ o2"
    using Cons.prems(2) one by (auto split: prod.splits)
  obtain r1 q1 where 1: "in_flight ts q1 p1" "q @ packets (ups o1) = r1 @ q1"
      "datagrams (nets o1) = burst_datagrams ts r1"
    using in_flight_step [OF Cons.prems(1) one] Cons.prems(3) by auto
  obtain r2 q2 where 2: "in_flight ts q2 p'" "q1 @ packets (ups o2) = r2 @ q2"
      "datagrams (nets o2) = burst_datagrams ts r2"
    using Cons.IH [OF 1(1) more(1)] Cons.prems(3) by auto
  from 1 2 more(2) show ?case
    by (intro exI [of _ "r1 @ r2"] exI [of _ q2]) (simp, metis append.assoc)
qed

section \<open>Stopping\<close>

lemma thread_step_exits:
  assumes "thread_step th ev = (outs, th')" and "th_mode th' = ThExited" and "th_mode th \<noteq> ThExited"
  shows "(\<exists>a b. ev = ThMessage StopMsg a b) \<or> ev = ThDisconnected"
  using assms
  by (auto simp: thread_step.simps on_packet_def Let_def
      split: thread_mode.splits thread_event.splits sender_message.splits if_splits)

lemma thread_step_stop:
  "thread_step th (ThMessage StopMsg a b) = (outs, th') \<Longrightarrow> th_mode th' = ThExited"
  by (auto simp: thread_step.simps split: thread_mode.splits)

text \<open>While the task runs, a stop whose signal was lost has not returned.\<close>

definition signal_lost :: "pipeline \<Rightarrow> bool" where
  "signal_lost p \<longleftrightarrow> pl_stopping p \<and>
     (loop_running (pl_streamer p) \<longrightarrow>
        \<not> pl_returned p \<and> thread_alive p \<and> st_sender_tx (pl_streamer p) \<and>
        StopMsg \<notin> set (pl_channel p @ waiting p))"

lemma post_all_simps [simp]:
  "post_all [] p = p" "post_all (out # outs) p = post_all outs (post p out)"
  by (simp_all add: post_all_def)

lemma signal_lost_task:
  assumes "signal_lost p" shows "signal_lost (snd (pipeline_step rn p (TaskTurn tk mf)))"
proof (cases "pl_pending p = None \<and> loop_running (pl_streamer p)")
  case True
  obtain us s' where t: "task_step rn (tk\<lparr>tk_thread_alive := thread_alive p\<rparr>) mf (has_room p) (pl_streamer p) = (us, s')"
    by fastforce
  have "st_sender_tx (pl_streamer p)" using assms True by (simp add: signal_lost_def)
  from task_step_shape [OF t this] consider
      "us = []" "st_sender_tx s'"
    | ps sy where "us = [ToThread (Packet ps sy)]" "st_sender_tx s'"
    | "us = [ToThread StopMsg]" "\<not> loop_running s'"
    by (auto simp: task_outs_def)
  then show ?thesis
    using assms True t by cases (simp_all add: signal_lost_def thread_alive_def waiting_def)
next
  case False
  have "task_step rn tk' mf room s = ([], s)" if "\<not> loop_running s" for tk' room and s :: audio_streamer
    using that by (simp add: task_step_def)
  with False assms show ?thesis by (cases "pl_pending p = None") simp_all
qed

lemma signal_lost_thread:
  assumes "signal_lost p" shows "signal_lost (snd (pipeline_step rn p (ThreadTurn a b)))"
proof (cases "pl_channel p")
  case Nil
  obtain outs th' where t: "thread_step (pl_thread p)
      (if \<not> loop_running (pl_streamer p) \<and> pl_stopping p then ThDisconnected else ThTimeout) = (outs, th')"
    by fastforce
  then have "loop_running (pl_streamer p) \<Longrightarrow> th_mode (pl_thread p) \<noteq> ThExited \<Longrightarrow> th_mode th' \<noteq> ThExited"
    using thread_step_exits [OF t] by auto
  with assms Nil t show ?thesis
    by (simp add: thread_turn_def signal_lost_def thread_alive_def waiting_def)
next
  case (Cons m ms)
  obtain outs th' where t: "thread_step (pl_thread p) (ThMessage m a b) = (outs, th')" by fastforce
  have "m \<noteq> StopMsg \<Longrightarrow> th_mode (pl_thread p) \<noteq> ThExited \<Longrightarrow> th_mode th' \<noteq> ThExited"
    using thread_step_exits [OF t] by auto
  with assms Cons t show ?thesis
    by (auto simp: thread_turn_def signal_lost_def thread_alive_def waiting_def)
qed

lemma signal_lost_step: "signal_lost p \<Longrightarrow> signal_lost (snd (pipeline_step rn p ev))"
proof (cases ev)
  case SendUnblocks
  assume "signal_lost p"
  with SendUnblocks show ?thesis
    by (auto simp: send_unblocks_def signal_lost_def has_room_def thread_alive_def waiting_def split: option.splits)
next
  case PipeStop
  assume "signal_lost p"
  with PipeStop show ?thesis by (simp add: stop_request_def signal_lost_def)
next
  case JoinReturns
  assume "signal_lost p"
  with JoinReturns show ?thesis
    by (auto simp: stop_finish_def signal_lost_def streamer_stop_def Let_def thread_alive_def)
qed (use signal_lost_task signal_lost_thread in \<open>auto simp: signal_lost_def\<close>)

interpretation lost_stop: machine "\<lambda>p ev. snd (pipeline_step rn p ev)" signal_lost
  by unfold_locales (rule signal_lost_step)

text \<open>A signal that got into the channel stays there until the thread takes it.\<close>

definition signal_due :: "nat \<Rightarrow> pipeline \<Rightarrow> bool" where
  "signal_due n p \<longleftrightarrow> pl_stopping p \<and>
     (pl_returned p \<longrightarrow> si_state (st_inner (pl_streamer p)) = StStopped \<and>
        \<not> loop_running (pl_streamer p) \<and> pl_pending p = None) \<and>
     (thread_alive p \<longrightarrow> StopMsg \<in> set (take (Suc n) (pl_channel p))) \<and>
     (thread_alive p \<longrightarrow> \<not> pl_returned p)"

lemma post_thread [simp]:
  "pl_thread (post_all outs p) = pl_thread p" "pl_stopping (post_all outs p) = pl_stopping p"
  "pl_returned (post_all outs p) = pl_returned p" "pl_streamer (post_all outs p) = pl_streamer p"
proof -
  have "pl_thread (post p out) = pl_thread p \<and> pl_stopping (post p out) = pl_stopping p \<and>
      pl_returned (post p out) = pl_returned p \<and> pl_streamer (post p out) = pl_streamer p" for p out
    by (cases "(p, out)" rule: post.cases) simp_all
  then have "pl_thread (post_all outs p) = pl_thread p \<and> pl_stopping (post_all outs p) = pl_stopping p \<and>
      pl_returned (post_all outs p) = pl_returned p \<and> pl_streamer (post_all outs p) = pl_streamer p"
    by (induction outs arbitrary: p) simp_all
  then show "pl_thread (post_all outs p) = pl_thread p" "pl_stopping (post_all outs p) = pl_stopping p"
    "pl_returned (post_all outs p) = pl_returned p" "pl_streamer (post_all outs p) = pl_streamer p" by blast+
qed

lemma post_channel: "\<exists>xs. pl_channel (post_all outs p) = pl_channel p @ xs"
proof (induction outs arbitrary: p)
  case (Cons out outs)
  obtain xs where "pl_channel (post_all outs (post p out)) = pl_channel (post p out) @ xs" using Cons by blast
  then show ?case by (cases "(p, out)" rule: post.cases) auto
qed simp

definition is_thread_turn :: "pipe_event \<Rightarrow> bool" where
  "is_thread_turn ev = (case ev of ThreadTurn _ _ \<Rightarrow> True | _ \<Rightarrow> False)"

lemma thread_dead_step: "\<not> thread_alive p \<Longrightarrow> \<not> thread_alive (snd (pipeline_step rn p ev))"
  by (cases ev)
    (auto simp: thread_alive_def thread_turn_def stop_request_def stop_finish_def send_unblocks_def Let_def
      split: list.splits option.splits prod.splits)

lemma signal_due_task:
  assumes "signal_due n p" shows "signal_due n (snd (pipeline_step rn p (TaskTurn tk mf)))"
proof (cases "pl_pending p = None \<and> loop_running (pl_streamer p)")
  case True
  obtain us s' where t: "task_step rn (tk\<lparr>tk_thread_alive := thread_alive p\<rparr>) mf (has_room p) (pl_streamer p) = (us, s')"
    by fastforce
  have nr: "\<not> pl_returned p" using assms True by (auto simp: signal_due_def)
  obtain xs where "pl_channel (post_all us (p\<lparr>pl_streamer := s'\<rparr>)) = pl_channel p @ xs"
    using post_channel [of us "p\<lparr>pl_streamer := s'\<rparr>"] by auto
  with assms nr t True show ?thesis by (auto simp: signal_due_def thread_alive_def)
next
  case False
  have "task_step rn tk' mf room s = ([], s)" if "\<not> loop_running s" for tk' room and s :: audio_streamer
    using that by (simp add: task_step_def)
  with False assms show ?thesis by (cases "pl_pending p = None") simp_all
qed

lemma signal_due_thread:
  assumes "signal_due n p"
  shows "signal_due (n - 1) (snd (pipeline_step rn p (ThreadTurn a b))) \<and>
    (n = 0 \<longrightarrow> \<not> thread_alive (snd (pipeline_step rn p (ThreadTurn a b))))"
proof (cases "thread_alive p")
  case True
  then have here: "StopMsg \<in> set (take (Suc n) (pl_channel p))" using assms by (simp add: signal_due_def)
  then obtain m ms where ch: "pl_channel p = m # ms" by (cases "pl_channel p") auto
  show ?thesis
  proof (cases "m = StopMsg")
    case m: True
    then have "\<not> thread_alive (snd (pipeline_step rn p (ThreadTurn a b)))"
      using ch True thread_step_stop [of "pl_thread p" a b, OF prod.collapse [symmetric]]
      by (simp add: thread_turn_def thread_alive_def split_def Let_def)
    moreover have "pl_stopping (snd (pipeline_step rn p (ThreadTurn a b)))"
      "\<not> pl_returned (snd (pipeline_step rn p (ThreadTurn a b)))"
      using assms ch True by (auto simp: signal_due_def thread_turn_def split_def Let_def split: list.split)
    ultimately show ?thesis by (simp add: signal_due_def)
  next
    case m: False
    with here ch have "StopMsg \<in> set (take n ms)" by auto
    then obtain k where k: "n = Suc k" by (cases n) auto
    with m here ch assms True show ?thesis
      by (auto simp: signal_due_def thread_turn_def split_def Let_def)
  qed
next
  case False
  have "pl_stopping (snd (pipeline_step rn p (ThreadTurn a b))) = pl_stopping p \<and>
     pl_returned (snd (pipeline_step rn p (ThreadTurn a b))) = pl_returned p \<and>
     pl_streamer (snd (pipeline_step rn p (ThreadTurn a b))) = pl_streamer p \<and>
     pl_pending (snd (pipeline_step rn p (ThreadTurn a b))) = pl_pending p"
    by (simp add: thread_turn_def split_def Let_def split: list.split)
  with False assms thread_dead_step [OF False, of rn "ThreadTurn a b"] show ?thesis
    by (simp add: signal_due_def del: pipeline_step.simps)
qed

lemma signal_due_other:
  assumes "signal_due n p" and "\<not> is_thread_turn ev"
  shows "signal_due n (snd (pipeline_step rn p ev))"
proof (cases ev)
  case SendUnblocks
  with assms(1) show ?thesis
    by (auto simp: send_unblocks_def signal_due_def has_room_def thread_alive_def split: option.splits)
next
  case JoinReturns
  with assms(1) show ?thesis
    by (auto simp: stop_finish_def signal_due_def streamer_stop_def Let_def thread_alive_def)
next
  case (TaskTurn tk mf)
  with signal_due_task [OF assms(1)] show ?thesis by simp
qed (use assms in \<open>auto simp: signal_due_def stop_request_def is_thread_turn_def\<close>)

lemma signal_due_run:
  "signal_due n p \<Longrightarrow>
    signal_due (n - length (filter is_thread_turn evs)) (snd (run_io (pipeline_step rn) p evs)) \<and>
    (n < length (filter is_thread_turn evs) \<longrightarrow> \<not> thread_alive (snd (run_io (pipeline_step rn) p evs)))"
proof (induction evs arbitrary: n p)
  case (Cons ev evs)
  let ?p = "snd (pipeline_step rn p ev)"
  have dead: "\<not> thread_alive q \<Longrightarrow> \<not> thread_alive (snd (run_io (pipeline_step rn) q es))" for q es
    by (induction es arbitrary: q) (auto simp: split_def Let_def dest: thread_dead_step)
  have run: "snd (run_io (pipeline_step rn) p (ev # evs)) = snd (run_io (pipeline_step rn) ?p evs)"
    by (simp add: split_def Let_def)
  show ?case
  proof (cases "is_thread_turn ev")
    case True
    then obtain a b where ev: "ev = ThreadTurn a b" by (cases ev) (auto simp: is_thread_turn_def)
    have due: "signal_due (n - 1) ?p" and zero: "n = 0 \<Longrightarrow> \<not> thread_alive ?p"
      using signal_due_thread [OF Cons.prems, of rn a b] unfolding ev by simp_all
    show ?thesis
      using Cons.IH [OF due] dead [of ?p evs] zero True unfolding run by (cases n) auto
  next
    case False
    then show ?thesis using Cons.IH [OF signal_due_other [OF Cons.prems False, of rn]] unfolding run by simp
  qed
qed simp

section \<open>Claims\<close>

text \<open>C13: the datagrams of the network are those of the packets the streamer produced, in order and
  without a gap; at most nine packets, eight in the channel and one waiting for room, are still on the
  way, however the task and the thread interleave.\<close>

theorem pipeline_delivers_in_order:
  assumes "st_sender_tx s" and "set evs \<inter> {PipePause, PipeResume, PipeStop} = {}"
  shows "let outs = fst (pipeline_run rn (pipeline_start s ns now) evs); ps = packets (ups outs) in
    \<exists>k \<le> length ps. length ps \<le> k + 9 \<and>
      datagrams (nets outs) = burst_datagrams (send_targets (rtp_senders (st_inner s))) (take k ps)"
proof -
  let ?ts = "send_targets (rtp_senders (st_inner s))"
  obtain outs p' where run: "run_io (pipeline_step rn) (pipeline_start s ns now) evs = (outs, p')" by fastforce
  have "in_flight ?ts [] (pipeline_start s ns now)"
    using assms(1) by (simp add: in_flight_def pipeline_start_def waiting_def DEFAULT_BURST_SIZE_def)
  from in_flight_run [OF this run assms(2)] obtain r q where
    *: "in_flight ?ts q p'" "packets (ups outs) = r @ q" "datagrams (nets outs) = burst_datagrams ?ts r" by auto
  then show ?thesis
    using in_flight_length [OF *(1)] run
    by (auto simp: pipeline_run_def Let_def intro!: exI [of _ "length r"])
qed

definition sample_pipeline :: pipeline where
  "sample_pipeline = pipeline_start (sample_playing 3) 8000000 0"

lemma sample_pipeline_simps [simp]:
  "st_sender_tx (sample_playing n)" "loop_running (sample_playing n)"
  "pl_streamer sample_pipeline = sample_playing 3" "pl_channel sample_pipeline = []"
  "pl_pending sample_pipeline = None" "\<not> pl_stopping sample_pipeline" "\<not> pl_returned sample_pipeline"
  "th_mode (pl_thread sample_pipeline) = ThRunning"
  using sample_playing_ok [where n = n]
  by (auto simp: playing_def on_track_def sample_pipeline_def pipeline_start_def Let_def)

theorem pipeline_delivers_in_order_witness:
  "let outs = fst (pipeline_run (\<lambda>_ _ _. Inl (Fail Timeout)) sample_pipeline
        (concat (replicate 3 [TaskTurn sample_tick True, ThreadTurn 5 5])));
      ps = packets (ups outs) in
    \<exists>k \<le> length ps. length ps \<le> k + 9 \<and>
      datagrams (nets outs) = burst_datagrams (send_targets (rtp_senders (st_inner (sample_playing 3)))) (take k ps)"
  unfolding sample_pipeline_def by (rule pipeline_delivers_in_order) auto

text \<open>C15: \<open>stop\<close> returns if its signal finds room in the channel: whatever else happens, once the thread
  has received eight more times it is gone, the join returns, and the stream is stopped.\<close>

theorem stop_with_room_returns:
  assumes "has_room p" and "\<not> pl_stopping p" and "\<not> pl_returned p" and "st_sender_tx (pl_streamer p)"
    and "8 \<le> length (filter is_thread_turn evs)"
  shows "let p' = snd (pipeline_run rn p (PipeStop # evs @ [JoinReturns])) in
    pl_returned p' \<and> \<not> loop_running (pl_streamer p') \<and> si_state (st_inner (pl_streamer p')) = StStopped"
proof -
  let ?p = "snd (pipeline_step rn p PipeStop)"
  have "signal_due 7 ?p"
    using assms(1-4)
    by (auto simp: stop_request_def signal_thread_def Let_def signal_due_def has_room_def
        SENDER_CHANNEL_CAPACITY_def thread_alive_def)
  from signal_due_run [OF this, of evs rn] assms(5)
  have due: "signal_due 0 (snd (run_io (pipeline_step rn) ?p evs))"
    and dead: "\<not> thread_alive (snd (run_io (pipeline_step rn) ?p evs))" by simp_all
  have "snd (pipeline_run rn p (PipeStop # evs @ [JoinReturns])) =
      stop_finish (snd (run_io (pipeline_step rn) ?p evs))"
    unfolding pipeline_run_def by (simp add: run_io_append split_def Let_def)
  then show ?thesis
    using due dead
    by (auto simp: stop_finish_def signal_due_def streamer_stop_def Let_def)
qed

theorem stop_with_room_returns_witness:
  "let p' = snd (pipeline_run (\<lambda>_ _ _. Inl (Fail Timeout)) sample_pipeline
      (PipeStop # (TaskTurn sample_tick True # replicate 8 (ThreadTurn 0 0)) @ [JoinReturns])) in
    pl_returned p' \<and> \<not> loop_running (pl_streamer p') \<and> si_state (st_inner (pl_streamer p')) = StStopped"
  by (rule stop_with_room_returns)
    (simp_all add: has_room_def thread_alive_def SENDER_CHANNEL_CAPACITY_def is_thread_turn_def)

text \<open>C14: \<open>stop\<close> may find the channel full, and then its signal is lost. From then on, whatever the
  task and the thread do, \<open>stop\<close> does not return while the streaming task runs: the task still plays
  the source, and only the source's end or an error ends it.\<close>

theorem stop_waits_for_the_source:
  assumes "length (pl_channel p) = SENDER_CHANNEL_CAPACITY" and "StopMsg \<notin> set (pl_channel p @ waiting p)"
    and "thread_alive p" and "\<not> pl_stopping p" and "\<not> pl_returned p" and "st_sender_tx (pl_streamer p)"
  shows "let p' = snd (pipeline_run rn p (PipeStop # evs)) in
    loop_running (pl_streamer p') \<longrightarrow> \<not> pl_returned p' \<and> thread_alive p'"
proof -
  let ?p = "snd (pipeline_step rn p PipeStop)"
  have "signal_lost ?p"
    using assms by (auto simp: stop_request_def signal_thread_def has_room_def signal_lost_def
        thread_alive_def waiting_def Let_def)
  then have "signal_lost (foldl (\<lambda>p ev. snd (pipeline_step rn p ev)) ?p evs)" by (rule lost_stop.run_inv)
  then have "signal_lost (snd (run_io (pipeline_step rn) p (PipeStop # evs)))"
    by (simp only: run_io_state foldl.simps)
  then show ?thesis by (simp only: pipeline_run_def signal_lost_def Let_def) blast
qed

definition full_pipeline :: pipeline where
  "full_pipeline = sample_pipeline\<lparr>pl_channel := replicate 8 (Packet [] None)\<rparr>"

theorem stop_waits_for_the_source_witness:
  "\<not> pl_returned (snd (pipeline_run (\<lambda>_ _ _. Inl (Fail Timeout)) full_pipeline
     (PipeStop # [ThreadTurn 0 0, JoinReturns])))"
proof -
  let ?p = "snd (pipeline_run (\<lambda>_ _ _. Inl (Fail Timeout)) full_pipeline (PipeStop # [ThreadTurn 0 0, JoinReturns]))"
  have r: "replicate 8 (Packet [] None) = Packet [] None # replicate 7 (Packet [] None)"
    by (simp add: eval_nat_numeral)
  have "loop_running (pl_streamer ?p)"
    by (simp add: pipeline_run_def full_pipeline_def stop_request_def signal_thread_def has_room_def
        SENDER_CHANNEL_CAPACITY_def thread_turn_def thread_step_packet on_packet_def stop_finish_def
        thread_alive_def split_def Let_def r)
  then show ?thesis
    using stop_waits_for_the_source [of full_pipeline "\<lambda>_ _ _. Inl (Fail Timeout)" "[ThreadTurn 0 0, JoinReturns]"]
    by (simp add: full_pipeline_def SENDER_CHANNEL_CAPACITY_def waiting_def thread_alive_def Let_def)
qed

end
