(* ===== verification/Connection.thy ===== *)
theory Connection
  imports Rtsp_Conn Rtsp_Session Control Streamer_Run Pairing Discovery Ptp_Wire
begin

text \<open>
  The connection to one receiver, \<open>src/client/connection.rs\<close>, with the playback state of
  \<open>src/client/playback.rs\<close>: SETUP in its two phases, streaming, pause, resume, stop, volume, feedback
  and disconnect. It composes the RTSP connection and session with the streamer.

  What happens outside the program during a call is the argument \<open>host\<close>: the AEAD and property-list
  libraries, the ALAC codec, what the operating system answers to binds and connects, the result of
  the clock negotiation, and the operations on \<open>f32\<close>, whose values are their bit patterns. The
  receiver is the list of its answers, one per request. An answer that comes after an outer time-out
  is dropped with the future that waits for it.
\<close>

section \<open>Playback\<close>

datatype playback_state = PbStopped | PbPlaying | PbPaused | PbBuffering | PbError

definition F32_0 :: f32 where "F32_0 = 0"
definition F32_1 :: f32 where "F32_1 = 0x3F800000"
definition F32_10 :: f32 where "F32_10 = 0x41200000"
definition F32_20 :: f32 where "F32_20 = 0x41A00000"
definition F32_MINUS_144 :: f32 where "F32_MINUS_144 = 0xC3100000"

text \<open>\<open>PlaybackInfo\<close>, its \<open>f64\<close> and \<open>f32\<close> values as rationals.\<close>

record playback_info =
  pi_state :: playback_state
  pi_position :: rat
  pi_duration :: "rat option"
  pi_volume :: rat
  pi_buffer_level :: rat
  pi_is_muted :: bool

definition playback_info_default :: playback_info where
  "playback_info_default = \<lparr> pi_state = PbStopped, pi_position = 0, pi_duration = None, pi_volume = 1,
     pi_buffer_level = 0, pi_is_muted = False \<rparr>"

definition playback_remaining :: "playback_info \<Rightarrow> rat option" where
  "playback_remaining p = map_option (\<lambda>d. d - pi_position p) (pi_duration p)"

definition progress_percentage :: "playback_info \<Rightarrow> rat option" where
  "progress_percentage p = map_option (\<lambda>d. pi_position p / d * 100) (pi_duration p)"

definition playback_is_active :: "playback_info \<Rightarrow> bool" where
  "playback_is_active p \<longleftrightarrow> pi_state p = PbPlaying \<or> pi_state p = PbBuffering"

section \<open>The world outside\<close>

record host =
  h_aead :: aead
  h_plists :: plists
  h_codec :: "u32 \<Rightarrow> u32 \<Rightarrow> u32 \<Rightarrow> alac_codec"
  h_f32 :: f32_ops
  h_show_ip :: "ip_addr \<Rightarrow> string"
  h_local_ip :: "ip_addr option"
  h_ntp_port :: "error + u16"
  h_events :: bool
  h_control_port :: "error + u16"
  h_clock_id :: "bytes option"
  h_offset :: clock_offset
  h_data_bind :: "error + unit"
  h_control_clone :: bool
  h_signalled :: bool
  h_now :: u64

text \<open>One answer of the receiver: whether the write went through, the bytes, whether it then closes,
  and whether it comes before an outer time-out.\<close>

record exchange =
  ex_written :: bool
  ex_input :: bytes
  ex_eof :: bool
  ex_in_time :: bool

definition silence :: exchange where
  "silence = \<lparr> ex_written = True, ex_input = [], ex_eof = False, ex_in_time = False \<rparr>"

text \<open>The RTSP connection, the answers to come, and every request so far with what went on the wire.\<close>

record link =
  lk_conn :: rtsp_connection
  lk_answers :: "exchange list"
  lk_log :: "(rtsp_request \<times> bytes option) list"

definition next_answer :: "link \<Rightarrow> exchange" where
  "next_answer lk = (case lk_answers lk of [] \<Rightarrow> silence | x # _ \<Rightarrow> x)"

text \<open>Calls that may fail and change a state.\<close>

type_synonym ('a, 's) call = "(error fault + 'a) \<times> 's"

definition bind_in :: "('a, 's) call \<Rightarrow> ('a \<Rightarrow> 's \<Rightarrow> ('b, 's) call) \<Rightarrow> ('b, 's) call" where
  "bind_in r f = (case r of (Inl e, s) \<Rightarrow> (Inl e, s) | (Inr x, s) \<Rightarrow> f x s)"

definition from_res :: "error + 'a \<Rightarrow> 's \<Rightarrow> ('a, 's) call" where
  "from_res r s = (map_err Fail r, s)"

lemma bind_in_simps [simp]:
  "bind_in (Inl e, s) f = (Inl e, s)" "bind_in (Inr x, s) f = f x s"
  by (simp_all add: bind_in_def)

lemma from_res_simps [simp]:
  "from_res (Inl e) s = (Inl (Fail e), s)" "from_res (Inr x) s = (Inr x, s)"
  by (simp_all add: from_res_def)

definition rtsp_send :: "host \<Rightarrow> rtsp_request \<Rightarrow> link \<Rightarrow> (rtsp_response, link) call" where
  "rtsp_send h r lk =
     (let x = next_answer lk;
          (wire, res, c) = connection_send (h_aead h) (lk_conn lk) r (ex_written x) (ex_input x) (ex_eof x)
      in (res, lk\<lparr>lk_conn := c, lk_log := lk_log lk @ [(r, wire)],
                 lk_answers := (if conn_stream (lk_conn lk) then tl (lk_answers lk) else lk_answers lk)\<rparr>))"

text \<open>\<open>tokio::time::timeout\<close> around \<open>send\<close>: \<open>None\<close> if it elapses. The request is written, no answer read.\<close>

definition rtsp_send_timeout ::
  "host \<Rightarrow> rtsp_request \<Rightarrow> link \<Rightarrow> (error fault + rtsp_response) option \<times> link" where
  "rtsp_send_timeout h r lk =
     (if ex_in_time (next_answer lk) \<or> \<not> conn_stream (lk_conn lk)
      then (let (res, lk) = rtsp_send h r lk in (Some res, lk))
      else (let (_, lk) = rtsp_send h r (lk\<lparr>lk_answers := silence # tl (lk_answers lk)\<rparr>) in (None, lk)))"

section \<open>The connection\<close>

record connection =
  cn_device :: device
  cn_link :: link
  cn_session :: rtsp_session
  cn_streamer :: "audio_streamer option"
  cn_playback :: playback_state
  cn_volume :: f32
  cn_config :: stream_config
  cn_timing_offset :: "clock_offset option"
  cn_timing_tx :: "clock_offset option"
  cn_listener :: bool
  cn_timing_task :: bool
  cn_timing_server :: bool
  cn_ptp_task :: bool
  cn_control_rx :: bool
  cn_events :: bool
  cn_clock_id :: "bytes option"
  cn_render_delay_ms :: u32
  cn_stats :: stream_stats

definition from_paired_parts :: "device \<Rightarrow> link \<Rightarrow> rtsp_session \<Rightarrow> stream_config \<Rightarrow> connection" where
  "from_paired_parts dev lk s cfg =
     \<lparr> cn_device = dev, cn_link = lk, cn_session = s, cn_streamer = None, cn_playback = PbStopped,
       cn_volume = F32_1, cn_config = cfg, cn_timing_offset = None, cn_timing_tx = None,
       cn_listener = False, cn_timing_task = False, cn_timing_server = False, cn_ptp_task = False,
       cn_control_rx = False, cn_events = False, cn_clock_id = None, cn_render_delay_ms = 0,
       cn_stats = stream_stats_new \<rparr>"

definition send_request :: "host \<Rightarrow> rtsp_request \<Rightarrow> connection \<Rightarrow> (rtsp_response, connection) call" where
  "send_request h r c = (let (res, lk) = rtsp_send h r (cn_link c) in (res, c\<lparr>cn_link := lk\<rparr>))"

definition on_session :: "(rtsp_session \<Rightarrow> 'a session_result) \<Rightarrow> connection \<Rightarrow> ('a, connection) call" where
  "on_session f c = (let (res, s) = f (cn_session c) in (map_err Fail res, c\<lparr>cn_session := s\<rparr>))"

definition response_body :: "rtsp_response \<Rightarrow> bytes" where
  "response_body r = (case rs_body r of None \<Rightarrow> [] | Some b \<Rightarrow> b)"

definition conn_uri :: "connection \<Rightarrow> string" where
  "conn_uri c = request_uri (cn_session c)"

definition local_rtsp_addresses :: "host \<Rightarrow> string list" where
  "local_rtsp_addresses h = (case h_local_ip h of None \<Rightarrow> [] | Some ip \<Rightarrow> [h_show_ip h ip])"

text \<open>A failure that is only logged; a panic still unwinds.\<close>

definition best_effort :: "('a, 's) call \<Rightarrow> (unit, 's) call" where
  "best_effort r =
     (case r of (Inl (Fail e), s) \<Rightarrow> (Inr (), s) | (Inl Panic, s) \<Rightarrow> (Inl Panic, s) | (Inr _, s) \<Rightarrow> (Inr (), s))"

definition best_effort_send_initial_record :: "host \<Rightarrow> connection \<Rightarrow> (unit, connection) call" where
  "best_effort_send_initial_record h c =
     (case rtsp_send_timeout h (record_with_info (conn_uri c) 0 0) (cn_link c) of
        (None, lk) \<Rightarrow> (Inr (), c\<lparr>cn_link := lk\<rparr>)
      | (Some res, lk) \<Rightarrow> best_effort (res, c\<lparr>cn_link := lk\<rparr>))"

definition setup_rtsp_media_session ::
  "host \<Rightarrow> u16 \<Rightarrow> string list \<Rightarrow> connection \<Rightarrow> (ip_addr, connection) call" where
  "setup_rtsp_media_session h local_timing_port local_addresses c =
     bind_in (from_res (build_setup_phase1 (h_plists h) (cn_session c) local_timing_port (Some local_addresses)) c)
       (\<lambda>setup1_body c.
     bind_in (send_request h (setup_request (conn_uri c) setup1_body) c) (\<lambda>setup1_resp c.
     bind_in (on_session (process_setup_phase1_response (h_plists h) (response_body setup1_resp)) c) (\<lambda>_ c.
       let session_id = (case hm_get (rs_headers setup1_resp) ''Session'' of None \<Rightarrow> ''1'' | Some v \<Rightarrow> v);
           c = c\<lparr>cn_link := (cn_link c)\<lparr>lk_conn := add_session_header ''Session'' session_id (lk_conn (cn_link c))\<rparr>\<rparr> in
     bind_in (from_res (ok_or (select_best_address (addresses (cn_device c))) (Rtsp ConnectionRefused)) c) (\<lambda>addr c.
     bind_in (from_res (ok_or (ports (cn_session c)) (Rtsp (InvalidResponse ''No ports in SETUP response''))) c) (\<lambda>_ c.
       let c = (if h_events h then c\<lparr>cn_events := True\<rparr> else c) in
     bind_in (from_res (h_control_port h) c) (\<lambda>actual_control_port c.
       let c = c\<lparr>cn_session := set_local_control_port actual_control_port (cn_session c), cn_control_rx := True\<rparr> in
     bind_in (from_res (build_setup_phase2 (h_plists h) (cn_session c)) c) (\<lambda>setup2_body c.
     bind_in (send_request h (setup_request (conn_uri c) setup2_body) c) (\<lambda>setup2_resp c.
     bind_in (on_session (process_setup_phase2_response (h_plists h) (response_body setup2_resp)) c) (\<lambda>_ c.
     bind_in (best_effort_send_initial_record h c) (\<lambda>_ c.
       (Inr addr, c)))))))))))"

definition clock_offset_default :: clock_offset where
  "clock_offset_default = \<lparr> offset_ns = 0, error_ns = 0, rtt_ns = 0 \<rparr>"

text \<open>The first half of \<open>setup\<close>: the local timing port.\<close>

definition setup_timing_port :: "host \<Rightarrow> connection \<Rightarrow> (u16, connection) call" where
  "setup_timing_port h c =
     (case timing_protocol (cn_config c) of
        Ntp \<Rightarrow> bind_in (from_res (h_ntp_port h) c) (\<lambda>port c. (Inr port, c\<lparr>cn_timing_server := True\<rparr>))
      | Ptp \<Rightarrow> (Inr PTP_EVENT_PORT, c))"

text \<open>The second half: the clock. A spawned task is its flag; \<open>h_clock_id\<close> is what the negotiation
  publishes within its time-out, \<open>h_offset\<close> the offset on the watch channel half a second later.\<close>

definition setup_clock :: "host \<Rightarrow> connection \<Rightarrow> connection" where
  "setup_clock h c =
     (case timing_protocol (cn_config c) of
        Ntp \<Rightarrow> c\<lparr>cn_timing_offset := Some clock_offset_default\<rparr>
      | Ptp \<Rightarrow>
          (case ptp_mode (cn_config c) of
             Master \<Rightarrow>
               (let c = c\<lparr>cn_timing_tx := Some (h_offset h), cn_ptp_task := True\<rparr>;
                    c = (case h_clock_id h of None \<Rightarrow> c | Some i \<Rightarrow> c\<lparr>cn_clock_id := Some i\<rparr>)
                in c\<lparr>cn_timing_offset := Some (h_offset h)\<rparr>)
           | Slave \<Rightarrow>
               c\<lparr>cn_timing_tx := Some (h_offset h), cn_timing_task := True,
                 cn_timing_offset := Some (h_offset h)\<rparr>))"

definition connection_setup :: "host \<Rightarrow> connection \<Rightarrow> (unit, connection) call" where
  "connection_setup h c =
     bind_in (setup_timing_port h c) (\<lambda>local_timing_port c.
     bind_in (setup_rtsp_media_session h local_timing_port (local_rtsp_addresses h) c) (\<lambda>addr c.
       (Inr (), setup_clock h c)))"

definition setup_for_group ::
  "host \<Rightarrow> bytes \<Rightarrow> clock_offset \<Rightarrow> clock_offset \<Rightarrow> connection \<Rightarrow> (unit, connection) call" where
  "setup_for_group h clock_id off timing_rx c =
     bind_in (setup_rtsp_media_session h PTP_EVENT_PORT (local_rtsp_addresses h) c) (\<lambda>_ c.
       (Inr (), c\<lparr>cn_clock_id := Some clock_id, cn_timing_offset := Some off,
                 cn_timing_tx := Some off, cn_timing_task := True\<rparr>))"

section \<open>Requests during playback\<close>

definition send_flush :: "host \<Rightarrow> u16 \<Rightarrow> u32 \<Rightarrow> connection \<Rightarrow> (unit, connection) call" where
  "send_flush h sq rtptime c =
     bind_in (send_request h (flush_with_info (conn_uri c) sq rtptime) c) (\<lambda>_ c. (Inr (), c))"

definition best_effort_send_flush :: "host \<Rightarrow> u16 \<Rightarrow> u32 \<Rightarrow> connection \<Rightarrow> (unit, connection) call" where
  "best_effort_send_flush h sq rtptime c = best_effort (send_flush h sq rtptime c)"

definition send_record :: "host \<Rightarrow> connection \<Rightarrow> (unit, connection) call" where
  "send_record h c = bind_in (send_request h (record_request (conn_uri c)) c) (\<lambda>_ c. (Inr (), c))"

definition best_effort_send_record :: "host \<Rightarrow> connection \<Rightarrow> (unit, connection) call" where
  "best_effort_send_record h c = best_effort (send_record h c)"

definition conn_set_volume_db :: "host \<Rightarrow> f32 \<Rightarrow> connection \<Rightarrow> (unit, connection) call" where
  "conn_set_volume_db h volume_db c =
     (let f = h_f32 h;
          clamped = f32_clamp f volume_db F32_MINUS_144 F32_0;
          c = c\<lparr>cn_volume := (if f32_le f clamped F32_MINUS_144 then F32_0
                              else f32_powf f F32_10 (f32_div f clamped F32_20))\<rparr>;
          volume_body = build_set_volume_db (f32_fixed2 f clamped)
      in bind_in (send_request h (set_parameter_text (conn_uri c) volume_body) c) (\<lambda>_ c. (Inr (), c)))"

definition conn_set_volume_linear :: "host \<Rightarrow> f32 \<Rightarrow> connection \<Rightarrow> (unit, connection) call" where
  "conn_set_volume_linear h volume c =
     (let f = h_f32 h;
          clamped = f32_clamp f volume F32_0 F32_1;
          volume_db = (if f32_le f clamped F32_0 then F32_MINUS_144 else f32_mul f F32_20 (f32_log10 f clamped))
      in conn_set_volume_db h volume_db c)"

definition conn_send_feedback :: "host \<Rightarrow> connection \<Rightarrow> (unit, connection) call" where
  "conn_send_feedback h c =
     (case rtsp_send_timeout h (feedback_request (conn_uri c)) (cn_link c) of
        (None, lk) \<Rightarrow> (Inr (), c\<lparr>cn_link := lk\<rparr>)
      | (Some res, lk) \<Rightarrow> bind_in (res, c\<lparr>cn_link := lk\<rparr>) (\<lambda>_ c. (Inr (), c)))"

text \<open>\<open>clone_control_socket_for_recv\<close>: a failed clone is as if there were no socket.\<close>

definition clone_control_socket_for_recv :: "host \<Rightarrow> connection \<Rightarrow> bool" where
  "clone_control_socket_for_recv h c \<longleftrightarrow> cn_control_rx c \<and> h_control_clone h"

definition send_setpeers :: "host \<Rightarrow> string list \<Rightarrow> connection \<Rightarrow> (unit, connection) call" where
  "send_setpeers h peer_addresses c =
     bind_in (from_res (build_setpeers (h_plists h) peer_addresses) c) (\<lambda>body c.
     bind_in (send_request h (setpeers_request body) c) (\<lambda>_ c. (Inr (), c)))"

definition build_rtp_sender :: "host \<Rightarrow> connection \<Rightarrow> error + rtp_sender" where
  "build_rtp_sender h c =
     and_then (ok_or (ports (cn_session c)) (Rtsp (SetupFailed ''Missing ports from SETUP''))) (\<lambda>ports.
     and_then (ok_or (select_best_address (addresses (cn_device c))) (Rtsp ConnectionRefused)) (\<lambda>dest_addr.
     and_then (h_data_bind h) (\<lambda>_.
       let sender = sender_new (dest_addr, data_port ports) 0;
           sender = set_control_dest (dest_addr, control_port ports) sender;
           sender = sender\<lparr>rtp_socket := True\<rparr>;
           sender = (if cn_control_rx c \<and> h_control_clone h then set_control_socket sender else sender)
       in Inr (set_packet_cipher (chacha_encrypt_payload (h_aead h) (shk (cn_session c))) sender))))"

section \<open>Streaming\<close>

text \<open>The streamer of a new stream, configured but not started.\<close>

definition configured_streamer :: "connection \<Rightarrow> rtp_sender \<Rightarrow> audio_streamer" where
  "configured_streamer c sender =
     (let s = set_rtp_sender sender (streamer_new (cn_config c));
          s = (if 0 < cn_render_delay_ms c then set_render_delay_ms (cn_render_delay_ms c) s else s);
          s = (case cn_timing_offset c of None \<Rightarrow> s | Some off \<Rightarrow> set_timing_offset off s)
      in (case cn_timing_tx c of None \<Rightarrow> s | Some _ \<Rightarrow> set_timing_updates s))"

definition start_streaming_live :: "host \<Rightarrow> live_decoder \<Rightarrow> connection \<Rightarrow> (unit, connection) call" where
  "start_streaming_live h d c =
     (let c = c\<lparr>cn_listener := False\<rparr> in
     bind_in (if ss_state (cn_session c) \<noteq> session_state.Ready then connection_setup h c else (Inr (), c)) (\<lambda>_ c.
     bind_in (from_res (build_rtp_sender h c) c) (\<lambda>sender c.
       let streamer = configured_streamer c sender in
     bind_in (best_effort_send_flush h 0 0 c) (\<lambda>_ c.
       let (started, streamer) = start_live (h_codec h) d (h_now h) streamer in
     bind_in (from_res started c) (\<lambda>_ c.
     bind_in (on_session start_playing c) (\<lambda>_ c.
     bind_in (best_effort (conn_set_volume_linear h (cn_volume c) c)) (\<lambda>_ c.
       (Inr (), c\<lparr>cn_streamer := Some streamer, cn_listener := cn_control_rx c,
                 cn_playback := PbPlaying\<rparr>))))))))"

definition map_streamer :: "(audio_streamer \<Rightarrow> audio_streamer) \<Rightarrow> connection \<Rightarrow> connection" where
  "map_streamer f c = c\<lparr>cn_streamer := map_option f (cn_streamer c)\<rparr>"

definition conn_pause :: "host \<Rightarrow> connection \<Rightarrow> (unit, connection) call" where
  "conn_pause h c =
     (let c = map_streamer (\<lambda>s. snd (streamer_pause (h_signalled h) s)) c in
     bind_in (send_request h (flush_with_info (conn_uri c) 0 0) c) (\<lambda>_ c.
       let c = map_streamer reset_after_flush c in
     bind_in (on_session session_pause c) (\<lambda>_ c.
       (Inr (), c\<lparr>cn_playback := PbPaused\<rparr>))))"

definition conn_resume :: "host \<Rightarrow> connection \<Rightarrow> (unit, connection) call" where
  "conn_resume h c =
     (let c = map_streamer (\<lambda>s. snd (streamer_resume (h_signalled h) s)) c in
     bind_in (send_request h (record_request (conn_uri c)) c) (\<lambda>_ c.
     bind_in (on_session start_playing c) (\<lambda>_ c.
       (Inr (), c\<lparr>cn_playback := PbPlaying\<rparr>))))"

definition conn_stop :: "host \<Rightarrow> connection \<Rightarrow> (unit, connection) call" where
  "conn_stop h c =
     (let c = c\<lparr>cn_listener := False\<rparr>;
          c = map_streamer (\<lambda>s. snd (streamer_stop (h_signalled h) s)) c in
     bind_in (best_effort_send_flush h 0 0 c) (\<lambda>_ c.
       (Inr (), (map_streamer reset_after_flush c)\<lparr>cn_playback := PbStopped\<rparr>)))"

definition conn_disconnect :: "host \<Rightarrow> connection \<Rightarrow> (unit, connection) call" where
  "conn_disconnect h c =
     (let c = c\<lparr>cn_listener := False\<rparr>;
          c = map_streamer (\<lambda>s. snd (streamer_stop (h_signalled h) s)) c;
          c = c\<lparr>cn_timing_task := False, cn_timing_server := False, cn_ptp_task := False, cn_control_rx := False\<rparr> in
     bind_in (if ss_state (cn_session c) \<noteq> Disconnected
              then bind_in (best_effort (on_session start_teardown c)) (\<lambda>_ c.
                   best_effort (send_request h (teardown_request (conn_uri c)) c))
              else (Inr (), c)) (\<lambda>_ c.
       (Inr (), c\<lparr>cn_link := (cn_link c)\<lparr>lk_conn := connection_close (lk_conn (cn_link c))\<rparr>,
                 cn_playback := PbStopped\<rparr>)))"

definition playback_position :: "connection \<Rightarrow> rat" where
  "playback_position c =
     (case cn_streamer c of None \<Rightarrow> 0
      | Some s \<Rightarrow> of_nat (unat (streamer_position s)) /
          of_nat (unat (as_hz (sample_rate (audio_format (cn_config c))))))"

definition conn_set_render_delay_ms :: "u32 \<Rightarrow> connection \<Rightarrow> connection" where
  "conn_set_render_delay_ms ms c = c\<lparr>cn_render_delay_ms := ms\<rparr>"

definition streamer_packets_sent :: "connection \<Rightarrow> u64" where
  "streamer_packets_sent c = (case cn_streamer c of None \<Rightarrow> 0 | Some s \<Rightarrow> st_packets_sent s)"

definition streamer_underruns :: "connection \<Rightarrow> u64" where
  "streamer_underruns c = (case cn_streamer c of None \<Rightarrow> 0 | Some s \<Rightarrow> st_underruns s)"

section \<open>Reasoning about calls\<close>

text \<open>\<open>ensures r Q E\<close>: \<open>Q\<close> holds of the value and the state if the call succeeds, \<open>E\<close> of the error and
  the state if it fails.\<close>

definition ensures :: "('a, 's) call \<Rightarrow> ('a \<Rightarrow> 's \<Rightarrow> bool) \<Rightarrow> (error fault \<Rightarrow> 's \<Rightarrow> bool) \<Rightarrow> bool" where
  "ensures r Q E \<longleftrightarrow> (case r of (Inl e, s) \<Rightarrow> E e s | (Inr x, s) \<Rightarrow> Q x s)"

lemma ensures_simps [simp]:
  "ensures (Inl e, s) Q E = E e s" "ensures (Inr x, s) Q E = Q x s"
  by (simp_all add: ensures_def)

lemma ensures_bind:
  assumes "ensures r R E" and "\<And>x s. R x s \<Longrightarrow> ensures (f x s) Q E"
  shows "ensures (bind_in r f) Q E"
proof -
  obtain res s where r: "r = (res, s)" by (cases r)
  show ?thesis using assms unfolding r by (cases res) simp_all
qed

lemma ensures_weaken:
  "ensures r R F \<Longrightarrow> (\<And>x s. R x s \<Longrightarrow> Q x s) \<Longrightarrow> (\<And>e s. F e s \<Longrightarrow> E e s) \<Longrightarrow> ensures r Q E"
  by (auto simp: ensures_def split: prod.splits sum.splits)

lemma ensures_from_res: "(\<And>x. Q x s) \<Longrightarrow> (\<And>e. E e s) \<Longrightarrow> ensures (from_res r s) Q E"
  by (cases r) simp_all

lemma ensures_best_effort:
  "ensures r (\<lambda>_. P) (\<lambda>e s. P s) \<Longrightarrow> ensures (best_effort r) (\<lambda>_. P) (\<lambda>e. P)"
  by (auto simp: ensures_def best_effort_def split: prod.splits sum.splits fault.splits)

lemma ensuresD: "ensures r Q E \<Longrightarrow> r = (res, s) \<Longrightarrow> (case res of Inl e \<Rightarrow> E e s | Inr x \<Rightarrow> Q x s)"
  by (auto simp: ensures_def split: sum.splits)

text \<open>What a request cannot change: everything but the link.\<close>

definition link_free :: "(connection \<Rightarrow> bool) \<Rightarrow> bool" where
  "link_free P \<longleftrightarrow> (\<forall>c lk. P (c\<lparr>cn_link := lk\<rparr>) = P c)"

lemma link_freeD: "link_free P \<Longrightarrow> P (c\<lparr>cn_link := lk\<rparr>) = P c"
  by (simp add: link_free_def)

lemma send_request_keeps:
  "link_free P \<Longrightarrow> P c \<Longrightarrow> ensures (send_request h r c) (\<lambda>_. P) (\<lambda>_. P)"
  by (auto simp: ensures_def send_request_def link_freeD split: prod.splits sum.splits)

lemma send_flush_keeps:
  "link_free P \<Longrightarrow> P c \<Longrightarrow> ensures (send_flush h sq t c) (\<lambda>_. P) (\<lambda>_. P)"
  unfolding send_flush_def by (rule ensures_bind, rule send_request_keeps) simp_all

lemma best_effort_send_flush_keeps:
  "link_free P \<Longrightarrow> P c \<Longrightarrow> ensures (best_effort_send_flush h sq t c) (\<lambda>_. P) (\<lambda>_. P)"
  unfolding best_effort_send_flush_def by (intro ensures_best_effort send_flush_keeps)

lemma send_record_keeps:
  "link_free P \<Longrightarrow> P c \<Longrightarrow> ensures (send_record h c) (\<lambda>_. P) (\<lambda>_. P)"
  unfolding send_record_def by (rule ensures_bind, rule send_request_keeps) simp_all

lemma best_effort_send_record_keeps:
  "link_free P \<Longrightarrow> P c \<Longrightarrow> ensures (best_effort_send_record h c) (\<lambda>_. P) (\<lambda>_. P)"
  unfolding best_effort_send_record_def by (intro ensures_best_effort send_record_keeps)

lemma initial_record_keeps:
  "link_free P \<Longrightarrow> P c \<Longrightarrow> ensures (best_effort_send_initial_record h c) (\<lambda>_. P) (\<lambda>_. P)"
proof -
  assume P: "link_free P" "P c"
  have "ensures (best_effort (res, c\<lparr>cn_link := lk\<rparr>)) (\<lambda>_. P) (\<lambda>_. P)" for res :: "error fault + rtsp_response" and lk
    by (rule ensures_best_effort) (use P in \<open>cases res; simp add: link_freeD\<close>)
  with P show ?thesis
    by (auto simp: best_effort_send_initial_record_def link_freeD split: prod.splits option.splits)
qed

lemma feedback_keeps:
  "link_free P \<Longrightarrow> P c \<Longrightarrow> ensures (conn_send_feedback h c) (\<lambda>_. P) (\<lambda>_. P)"
  by (auto simp: conn_send_feedback_def ensures_def bind_in_def link_freeD
      split: prod.splits option.splits sum.splits)

lemma setpeers_keeps:
  "link_free P \<Longrightarrow> P c \<Longrightarrow> ensures (send_setpeers h ps c) (\<lambda>_. P) (\<lambda>_. P)"
  unfolding send_setpeers_def
  by (rule ensures_bind [OF ensures_from_res [where Q = "\<lambda>_. P"]], assumption+,
      rule ensures_bind, rule send_request_keeps) simp_all

text \<open>A volume change also sets the volume.\<close>

definition volume_free :: "(connection \<Rightarrow> bool) \<Rightarrow> bool" where
  "volume_free P \<longleftrightarrow> link_free P \<and> (\<forall>c v. P (c\<lparr>cn_volume := v\<rparr>) = P c)"

lemma volume_db_keeps:
  "volume_free P \<Longrightarrow> P c \<Longrightarrow> ensures (conn_set_volume_db h v c) (\<lambda>_. P) (\<lambda>_. P)"
  unfolding conn_set_volume_db_def Let_def
  by (rule ensures_bind, rule send_request_keeps) (auto simp: volume_free_def)

lemma volume_linear_keeps:
  "volume_free P \<Longrightarrow> P c \<Longrightarrow> ensures (conn_set_volume_linear h v c) (\<lambda>_. P) (\<lambda>_. P)"
  unfolding conn_set_volume_linear_def Let_def by (rule volume_db_keeps)

lemma volume_free_link: "volume_free P \<Longrightarrow> link_free P"
  by (simp add: volume_free_def)

section \<open>Setup\<close>

definition setup_free :: "(connection \<Rightarrow> bool) \<Rightarrow> bool" where
  "setup_free P \<longleftrightarrow> link_free P \<and>
     (\<forall>c s. P (c\<lparr>cn_session := s\<rparr>) = P c) \<and> (\<forall>c b. P (c\<lparr>cn_events := b\<rparr>) = P c) \<and>
     (\<forall>c b. P (c\<lparr>cn_control_rx := b\<rparr>) = P c)"

abbreviation conn_state :: "connection \<Rightarrow> session_state" where
  "conn_state c \<equiv> ss_state (cn_session c)"

lemma on_session_phase1:
  assumes "setup_free P" and "P c"
  shows "ensures (on_session (process_setup_phase1_response pl b) c)
    (\<lambda>_ c'. P c' \<and> conn_state c = Paired \<and> conn_state c' = SetupPhase1)
    (\<lambda>_ c'. P c' \<and> cn_session c' = cn_session c \<and> cn_control_rx c' = cn_control_rx c)"
  using assms
  by (auto simp: on_session_def process_setup_phase1_response_def wrong_state_def ensures_def setup_free_def
      split: prod.splits sum.splits if_splits)

lemma on_session_phase2:
  assumes "setup_free P" and "P c" and "cn_control_rx c" and "ports (cn_session c) \<noteq> None"
  shows "ensures (on_session (process_setup_phase2_response pl b) c)
    (\<lambda>_ c'. P c' \<and> conn_state c' = session_state.Ready \<and> cn_control_rx c' \<and> ports (cn_session c') \<noteq> None)
    (\<lambda>_ c'. P c' \<and> conn_state c' = conn_state c)"
  using assms
  by (auto simp: on_session_def process_setup_phase2_response_def wrong_state_def ensures_def setup_free_def
      split: prod.splits sum.splits if_splits option.splits)

text \<open>What SETUP leaves: all else as it was, and the session where the failure found it.\<close>

definition setup_end :: "(connection \<Rightarrow> bool) \<Rightarrow> connection \<Rightarrow> connection \<Rightarrow> bool" where
  "setup_end P c c' \<longleftrightarrow> P c' \<and>
     (cn_session c' = cn_session c \<and> cn_control_rx c' = cn_control_rx c \<or> conn_state c = Paired \<and>
       (conn_state c' = SetupPhase1 \<or>
        conn_state c' = session_state.Ready \<and> cn_control_rx c' \<and> ports (cn_session c') \<noteq> None))"

lemma setup_media_ensures:
  assumes P: "setup_free P" and c: "P c"
  shows "ensures (setup_rtsp_media_session h port as c)
    (\<lambda>_ c'. P c' \<and> conn_state c = Paired \<and> conn_state c' = session_state.Ready \<and> cn_control_rx c' \<and>
       ports (cn_session c') \<noteq> None)
    (\<lambda>_. setup_end P c)"
proof -
  let ?E = "\<lambda>_ :: error fault. setup_end P c"
  let ?A = "\<lambda>c'. P c' \<and> cn_session c' = cn_session c \<and> cn_control_rx c' = cn_control_rx c"
  let ?B = "\<lambda>c'. P c' \<and> conn_state c = Paired \<and> conn_state c' = SetupPhase1"
  let ?C = "\<lambda>c'. ?B c' \<and> cn_control_rx c' \<and> ports (cn_session c') \<noteq> None"
  let ?R = "\<lambda>c'. P c' \<and> conn_state c = Paired \<and> conn_state c' = session_state.Ready \<and> cn_control_rx c' \<and>
       ports (cn_session c') \<noteq> None"
  have AE: "?A x \<Longrightarrow> ?E e x" and BE: "?B x \<Longrightarrow> ?E e x" and RE: "?R x \<Longrightarrow> ?E e x" for x e
    by (auto simp: setup_end_def)
  have lf: "link_free P" using P by (simp add: setup_free_def)
  have lfA: "link_free ?A" "link_free ?C" "link_free ?R" using lf by (simp_all add: link_free_def)
  have sendA: "ensures (send_request h r c1) (\<lambda>_. ?A) ?E" if "?A c1" for r c1
    by (rule ensures_weaken [OF send_request_keeps [OF lfA(1) that]]) (auto simp: setup_end_def)
  have sendC: "ensures (send_request h r c1) (\<lambda>_. ?C) ?E" if "?C c1" for r c1
    by (rule ensures_weaken [OF send_request_keeps [OF lfA(2) that]]) (auto simp: setup_end_def)
  have one: "ensures (on_session (process_setup_phase1_response pl b) c1) (\<lambda>_. ?B) ?E" if "?A c1" for pl b c1
    by (rule ensures_weaken [OF on_session_phase1 [OF P, of c1]]) (use that in \<open>auto simp: setup_end_def\<close>)
  have two: "ensures (on_session (process_setup_phase2_response pl b) c1) (\<lambda>_. ?R) ?E" if "?C c1" for pl b c1
    by (rule ensures_weaken [OF on_session_phase2 [OF P, of c1]]) (use that in \<open>auto simp: setup_end_def\<close>)
  have initial: "ensures (best_effort_send_initial_record h c1) (\<lambda>_. ?R) ?E" if "?R c1" for c1
    by (rule ensures_weaken [OF initial_record_keeps [OF lfA(3) that]]) (auto simp: setup_end_def)
  have ports: "ensures (from_res (ok_or (ports (cn_session c1)) e) c1)
      (\<lambda>_ c'. ?B c' \<and> ports (cn_session c') \<noteq> None) ?E" if "?B c1" for c1 e
    using that by (cases "ports (cn_session c1)") (auto simp: setup_end_def)
  note fields = P [unfolded setup_free_def link_free_def]
  show ?thesis
    unfolding setup_rtsp_media_session_def Let_def
    apply (rule ensures_bind [OF ensures_from_res [where Q = "\<lambda>_. ?A"]])
      apply (use c in \<open>simp\<close>)
     apply (rule AE, use c in \<open>simp\<close>)
    apply (rule ensures_bind [OF sendA], assumption)
    apply (rule ensures_bind [OF one], assumption)
    apply (rule ensures_bind [OF ensures_from_res [where Q = "\<lambda>_. ?B"]])
      apply (use fields in \<open>simp\<close>)
     apply (rule BE, use fields in \<open>simp\<close>)
    apply (rule ensures_bind [OF ports], assumption)
    apply (rule ensures_bind [OF ensures_from_res [where Q = "\<lambda>_ c'. ?B c' \<and> ports (cn_session c') \<noteq> None"]])
      apply (use fields in \<open>simp\<close>)
     apply (rule BE, use fields in \<open>simp\<close>)
    apply (rule ensures_bind [OF ensures_from_res [where Q = "\<lambda>_. ?C"]])
      apply (use fields in \<open>simp add: set_local_control_port_def\<close>)
     apply (rule BE, use fields in \<open>simp add: set_local_control_port_def\<close>)
    apply (rule ensures_bind [OF sendC], assumption)
    apply (rule ensures_bind [OF two], assumption)
    apply (rule ensures_bind [OF initial], assumption)
    apply simp
    done
qed

definition clock_free :: "(connection \<Rightarrow> bool) \<Rightarrow> bool" where
  "clock_free P \<longleftrightarrow> (\<forall>c b. P (c\<lparr>cn_timing_server := b\<rparr>) = P c) \<and>
     (\<forall>c b. P (c\<lparr>cn_timing_task := b\<rparr>) = P c) \<and> (\<forall>c b. P (c\<lparr>cn_ptp_task := b\<rparr>) = P c) \<and>
     (\<forall>c x. P (c\<lparr>cn_timing_offset := x\<rparr>) = P c) \<and> (\<forall>c x. P (c\<lparr>cn_timing_tx := x\<rparr>) = P c) \<and>
     (\<forall>c x. P (c\<lparr>cn_clock_id := x\<rparr>) = P c)"

lemma setup_clock_keeps:
  assumes "clock_free P" shows "P (setup_clock h c) = P c"
    and "cn_session (setup_clock h c) = cn_session c" and "cn_control_rx (setup_clock h c) = cn_control_rx c"
  using assms
  by (auto simp: setup_clock_def clock_free_def Let_def
      split: timing_protocol.split ptp_mode.split option.split)

lemma setup_ensures:
  assumes P: "setup_free P" "clock_free P" and c: "P c"
  shows "ensures (connection_setup h c)
    (\<lambda>_ c'. P c' \<and> conn_state c = Paired \<and> conn_state c' = session_state.Ready \<and> cn_control_rx c' \<and>
       ports (cn_session c') \<noteq> None)
    (\<lambda>_. setup_end P c)"
  unfolding connection_setup_def
proof (rule ensures_bind)
  show "ensures (setup_timing_port h c)
      (\<lambda>_ c'. P c' \<and> cn_session c' = cn_session c \<and> cn_control_rx c' = cn_control_rx c)
      (\<lambda>_. setup_end P c)"
    using P(2) c
    by (cases "h_ntp_port h") (auto simp: setup_timing_port_def clock_free_def setup_end_def
        split: timing_protocol.split)
next
  fix port c1
  assume 1: "P c1 \<and> cn_session c1 = cn_session c \<and> cn_control_rx c1 = cn_control_rx c"
  show "ensures (bind_in (setup_rtsp_media_session h port (local_rtsp_addresses h) c1)
        (\<lambda>addr c. (Inr (), setup_clock h c)))
      (\<lambda>_ c'. P c' \<and> conn_state c = Paired \<and> conn_state c' = session_state.Ready \<and> cn_control_rx c' \<and>
         ports (cn_session c') \<noteq> None)
      (\<lambda>_. setup_end P c)"
    by (rule ensures_bind [OF ensures_weaken [OF setup_media_ensures [OF P(1), of c1]]])
      (use 1 P(2) in \<open>auto simp: setup_clock_keeps setup_end_def\<close>)
qed

section \<open>The calls of a connection\<close>

datatype conn_call =
    CallSetup | CallStart live_decoder | CallPause | CallResume | CallStop | CallVolumeLinear f32
  | CallVolumeDb f32 | CallFeedback | CallFlush u16 u32 | CallRecord | CallDisconnect

fun conn_call_step :: "host \<Rightarrow> conn_call \<Rightarrow> connection \<Rightarrow> (unit, connection) call" where
  "conn_call_step h CallSetup c = connection_setup h c"
| "conn_call_step h (CallStart d) c = start_streaming_live h d c"
| "conn_call_step h CallPause c = conn_pause h c"
| "conn_call_step h CallResume c = conn_resume h c"
| "conn_call_step h CallStop c = conn_stop h c"
| "conn_call_step h (CallVolumeLinear v) c = conn_set_volume_linear h v c"
| "conn_call_step h (CallVolumeDb v) c = conn_set_volume_db h v c"
| "conn_call_step h CallFeedback c = conn_send_feedback h c"
| "conn_call_step h (CallFlush sq t) c = send_flush h sq t c"
| "conn_call_step h CallRecord c = send_record h c"
| "conn_call_step h CallDisconnect c = conn_disconnect h c"

text \<open>Between two calls the streaming task may have changed its streamer, which is shared.\<close>

definition streamer_moved :: "audio_streamer \<Rightarrow> connection \<Rightarrow> connection" where
  "streamer_moved s = map_streamer (\<lambda>_. s)"

text \<open>A run of calls, each in a world of its own; it ends at a panic.\<close>

fun conn_run :: "(host \<times> audio_streamer \<times> conn_call) list \<Rightarrow> connection \<Rightarrow> connection option" where
  "conn_run [] c = Some c"
| "conn_run ((h, s, call) # calls) c =
     (case conn_call_step h call (streamer_moved s c) of
        (Inl Panic, c') \<Rightarrow> None
      | (_, c') \<Rightarrow> conn_run calls c')"

section \<open>The invariant\<close>

definition conn_inv :: "connection \<Rightarrow> bool" where
  "conn_inv c \<longleftrightarrow>
     cn_playback c \<notin> {PbBuffering, PbError} \<and>
     (cn_playback c = PbPlaying \<longrightarrow> conn_state c = Playing) \<and>
     (cn_playback c = PbPaused \<longrightarrow> conn_state c = Paused) \<and>
     (cn_streamer c \<noteq> None \<longrightarrow> conn_state c \<in> {Playing, Paused, TearingDown}) \<and>
     (cn_listener c \<longrightarrow> cn_control_rx c \<and> cn_streamer c \<noteq> None) \<and>
     (conn_state c \<in> {session_state.Ready, Playing, Paused} \<longrightarrow>
        cn_control_rx c \<and> ports (cn_session c) \<noteq> None)"

lemma volume_free_inv: "volume_free conn_inv" "link_free conn_inv"
  by (simp_all add: volume_free_def link_free_def conn_inv_def)

lemma conn_inv_moved [simp]: "conn_inv (streamer_moved s c) = conn_inv c"
  by (simp add: streamer_moved_def map_streamer_def conn_inv_def)

lemma setup_inv:
  assumes "conn_inv c"
  shows "ensures (connection_setup h c) (\<lambda>_ c'. conn_inv c' \<and> conn_state c' = session_state.Ready \<and>
      cn_playback c' = PbStopped \<and> cn_listener c' = cn_listener c) (\<lambda>_. conn_inv)"
proof -
  let ?P = "\<lambda>c'. cn_playback c' = cn_playback c \<and> cn_streamer c' = cn_streamer c \<and> cn_listener c' = cn_listener c"
  have 1: "ensures (connection_setup h c)
    (\<lambda>_ c'. ?P c' \<and> conn_state c = Paired \<and> conn_state c' = session_state.Ready \<and> cn_control_rx c' \<and>
       ports (cn_session c') \<noteq> None)
    (\<lambda>_. setup_end ?P c)"
    by (rule setup_ensures [where P = ?P]) (simp_all add: setup_free_def link_free_def clock_free_def)
  have fresh: "cn_playback c = PbStopped \<and> cn_streamer c = None \<and> \<not> cn_listener c" if "conn_state c = Paired"
    using assms that by (cases "cn_playback c") (auto simp: conn_inv_def)
  have same: "conn_inv s" if "?P s" "cn_session s = cn_session c" "cn_control_rx s = cn_control_rx c" for s
    using assms that by (simp add: conn_inv_def)
  show ?thesis
  proof (rule ensures_weaken [OF 1])
    fix x s
    assume "?P s \<and> conn_state c = Paired \<and> conn_state s = session_state.Ready \<and> cn_control_rx s \<and>
       ports (cn_session s) \<noteq> None"
    with fresh show "conn_inv s \<and> conn_state s = session_state.Ready \<and>
      cn_playback s = PbStopped \<and> cn_listener s = cn_listener c" by (simp add: conn_inv_def)
  next
    fix e s
    assume e: "setup_end ?P c s"
    show "conn_inv s"
    proof (cases "cn_session s = cn_session c \<and> cn_control_rx s = cn_control_rx c")
      case True
      with e same show ?thesis by (simp add: setup_end_def)
    next
      case False
      with e fresh show ?thesis by (auto simp: setup_end_def conn_inv_def)
    qed
  qed
qed

lemma pause_inv:
  assumes "conn_inv c" shows "ensures (conn_pause h c) (\<lambda>_. conn_inv) (\<lambda>_. conn_inv)"
proof -
  have m: "conn_inv (map_streamer f c1) = conn_inv c1" for f c1 by (simp add: map_streamer_def conn_inv_def)
  have p: "ensures (on_session session_pause c1)
      (\<lambda>_ c'. conn_inv (c'\<lparr>cn_playback := PbPaused\<rparr>)) (\<lambda>_. conn_inv)" if "conn_inv c1" for c1
    using that by (auto simp: on_session_def session_pause_def wrong_state_def conn_inv_def)
  show ?thesis
    unfolding conn_pause_def Let_def
    by (rule ensures_bind [OF send_request_keeps [OF volume_free_inv(2)]], simp add: m assms,
        rule ensures_bind [OF p]) (simp_all add: m)
qed

lemma resume_inv:
  assumes "conn_inv c" shows "ensures (conn_resume h c) (\<lambda>_. conn_inv) (\<lambda>_. conn_inv)"
proof -
  have m: "conn_inv (map_streamer f c1) = conn_inv c1" for f c1 by (simp add: map_streamer_def conn_inv_def)
  have p: "ensures (on_session start_playing c1)
      (\<lambda>_ c'. conn_inv (c'\<lparr>cn_playback := PbPlaying\<rparr>)) (\<lambda>_. conn_inv)" if "conn_inv c1" for c1
    using that by (auto simp: on_session_def start_playing_def wrong_state_def conn_inv_def)
  show ?thesis
    unfolding conn_resume_def Let_def
    by (rule ensures_bind [OF send_request_keeps [OF volume_free_inv(2)]], simp add: m assms,
        rule ensures_bind [OF p]) simp_all
qed

lemma stop_inv:
  assumes "conn_inv c" shows "ensures (conn_stop h c) (\<lambda>_. conn_inv) (\<lambda>_. conn_inv)"
proof -
  have m: "conn_inv (map_streamer f (c\<lparr>cn_listener := False\<rparr>))" for f
    using assms by (auto simp: map_streamer_def conn_inv_def)
  have e: "conn_inv ((map_streamer f c1)\<lparr>cn_playback := PbStopped\<rparr>)" if "conn_inv c1" for f c1
    using that by (auto simp: map_streamer_def conn_inv_def)
  show ?thesis
    unfolding conn_stop_def Let_def
    by (rule ensures_bind [OF best_effort_send_flush_keeps [OF volume_free_inv(2)]], rule m) (simp add: e)
qed

lemma start_inv:
  assumes "conn_inv c"
  shows "ensures (start_streaming_live h d c) (\<lambda>_. conn_inv) (\<lambda>_. conn_inv)"
proof -
  let ?I = "\<lambda>c. conn_inv c \<and> conn_state c = session_state.Ready \<and> cn_playback c = PbStopped \<and> \<not> cn_listener c"
  let ?J = "\<lambda>c. conn_inv c \<and> conn_state c = Playing \<and> \<not> cn_listener c"
  let ?c = "c\<lparr>cn_listener := False\<rparr>"
  have c: "conn_inv ?c" using assms by (auto simp: conn_inv_def)
  have ready: "cn_playback c1 = PbStopped" if "conn_inv c1" "conn_state c1 = session_state.Ready" for c1
    using that by (cases "cn_playback c1") (auto simp: conn_inv_def)
  have lf: "link_free ?I" "volume_free ?J"
    by (simp_all add: link_free_def volume_free_def conn_inv_def)
  have prep: "ensures (if conn_state ?c \<noteq> session_state.Ready then connection_setup h ?c else (Inr (), ?c))
      (\<lambda>_. ?I) (\<lambda>_. conn_inv)"
    using c ready [OF c] ensures_weaken [OF setup_inv [OF c], of "\<lambda>_. ?I" "\<lambda>_. conn_inv" h] by auto
  have play: "ensures (on_session start_playing c1) (\<lambda>_. ?J) (\<lambda>_. conn_inv)" if "?I c1" for c1
    using that by (auto simp: on_session_def start_playing_def wrong_state_def conn_inv_def)
  have vol: "ensures (best_effort (conn_set_volume_linear h v c1)) (\<lambda>_. ?J) (\<lambda>_. conn_inv)" if "?J c1" for v c1
    by (rule ensures_weaken [OF ensures_best_effort [OF volume_linear_keeps [OF lf(2) that]]]) auto
  have flush: "ensures (best_effort_send_flush h 0 0 c1) (\<lambda>_. ?I) (\<lambda>_. conn_inv)" if "?I c1" for c1
    by (rule ensures_weaken [OF best_effort_send_flush_keeps [OF lf(1) that]]) auto
  show ?thesis
    unfolding start_streaming_live_def Let_def
    apply (rule ensures_bind [OF prep])
    apply (rule ensures_bind [OF ensures_from_res [where Q = "\<lambda>_. ?I"]], assumption, simp)
    apply (rule ensures_bind [OF flush], assumption)
    apply (simp only: split_def)
    apply (rule ensures_bind [OF ensures_from_res [where Q = "\<lambda>_. ?I"]], assumption, simp)
    apply (rule ensures_bind [OF play], assumption)
    apply (rule ensures_bind [OF vol], assumption)
    apply (auto simp: conn_inv_def)
    done
qed

lemma disconnect_end:
  "ensures (conn_disconnect h c)
     (\<lambda>_ c'. cn_playback c' = PbStopped \<and> conn_state c' \<in> {Disconnected, TearingDown} \<and>
        (conn_state c = Disconnected \<longleftrightarrow> conn_state c' = Disconnected) \<and>
        \<not> cn_listener c' \<and> \<not> cn_timing_task c' \<and> \<not> cn_timing_server c' \<and> \<not> cn_ptp_task c' \<and>
        \<not> cn_control_rx c' \<and> \<not> conn_stream (lk_conn (cn_link c')) \<and>
        cn_streamer c' = map_option (\<lambda>s. snd (streamer_stop (h_signalled h) s)) (cn_streamer c))
     (\<lambda>e _. e = Panic)"
proof -
  let ?c = "(map_streamer (\<lambda>s. snd (streamer_stop (h_signalled h) s)) (c\<lparr>cn_listener := False\<rparr>))
    \<lparr>cn_timing_task := False, cn_timing_server := False, cn_ptp_task := False, cn_control_rx := False\<rparr>"
  let ?P = "\<lambda>c'. conn_state c' \<in> {Disconnected, TearingDown} \<and>
      (conn_state c = Disconnected \<longleftrightarrow> conn_state c' = Disconnected) \<and>
      \<not> cn_listener c' \<and> \<not> cn_timing_task c' \<and> \<not> cn_timing_server c' \<and> \<not> cn_ptp_task c' \<and> \<not> cn_control_rx c' \<and>
      cn_streamer c' = map_option (\<lambda>s. snd (streamer_stop (h_signalled h) s)) (cn_streamer c)"
  have lf: "link_free ?P" by (simp add: link_free_def)
  have be: "ensures (best_effort r) (\<lambda>_. Q) (\<lambda>e _. e = Panic)" if "ensures r (\<lambda>_. Q) (\<lambda>_. Q)" for r and Q
    using that by (auto simp: ensures_def best_effort_def split: prod.splits sum.splits fault.splits)
  have td: "ensures (on_session start_teardown ?c) (\<lambda>_. ?P) (\<lambda>_. ?P)" if "conn_state c \<noteq> Disconnected"
    using that by (cases "conn_state c") (simp_all add: on_session_def start_teardown_def map_streamer_def)
  have "ensures (if conn_state ?c \<noteq> Disconnected
              then bind_in (best_effort (on_session start_teardown ?c)) (\<lambda>_ c.
                   best_effort (send_request h (teardown_request (conn_uri c)) c))
              else (Inr (), ?c)) (\<lambda>_. ?P) (\<lambda>e _. e = Panic)"
  proof (cases "conn_state c = Disconnected")
    case True
    then show ?thesis by (simp add: map_streamer_def)
  next
    case False
    have "ensures (bind_in (best_effort (on_session start_teardown ?c)) (\<lambda>_ c.
                   best_effort (send_request h (teardown_request (conn_uri c)) c))) (\<lambda>_. ?P) (\<lambda>e _. e = Panic)"
      by (rule ensures_bind [OF be [OF td [OF False]]], rule be, rule send_request_keeps [OF lf])
    with False show ?thesis by (simp add: map_streamer_def)
  qed
  then show ?thesis
    unfolding conn_disconnect_def Let_def
    by (rule ensures_bind) (simp add: connection_close_def)
qed

lemma conn_call_inv:
  assumes "conn_inv c"
  shows "ensures (conn_call_step h call c) (\<lambda>_. conn_inv) (\<lambda>e c'. e = Panic \<or> conn_inv c')"
proof -
  have w: "ensures r (\<lambda>_. conn_inv) (\<lambda>e c'. e = Panic \<or> conn_inv c')"
    if "ensures r (\<lambda>_. conn_inv) (\<lambda>_. conn_inv)" for r :: "(unit, connection) call"
    by (rule ensures_weaken [OF that]) auto
  show ?thesis
  proof (cases call)
    case CallSetup
    show ?thesis
      unfolding CallSetup conn_call_step.simps
      by (rule ensures_weaken [OF setup_inv [OF assms]]) auto
  next
    case CallDisconnect
    have idle: "cn_streamer c = None" if "conn_state c = Disconnected"
      using assms that by (auto simp: conn_inv_def)
    show ?thesis
      unfolding CallDisconnect conn_call_step.simps
      by (rule ensures_weaken [OF disconnect_end]) (auto simp: conn_inv_def idle)
  qed (simp_all add: w assms start_inv pause_inv resume_inv stop_inv volume_linear_keeps volume_db_keeps
      volume_free_inv feedback_keeps send_flush_keeps send_record_keeps)
qed

lemma conn_run_inv: "conn_run calls c = Some c' \<Longrightarrow> conn_inv c \<Longrightarrow> conn_inv c'"
proof (induction calls c rule: conn_run.induct)
  case (2 h s call calls c)
  obtain res c1 where r: "conn_call_step h call (streamer_moved s c) = (res, c1)" by fastforce
  have "ensures (res, c1) (\<lambda>_. conn_inv) (\<lambda>e c'. e = Panic \<or> conn_inv c')"
    using conn_call_inv [of "streamer_moved s c" h call] 2(4) unfolding r by simp
  with 2 r show ?case by (auto split: sum.splits fault.splits)
qed simp

text \<open>A connection that has streamed: no call makes it ready again.\<close>

definition spent :: "connection \<Rightarrow> bool" where
  "spent c \<longleftrightarrow> conn_state c \<in> {Playing, Paused, TearingDown}"

lemma spent_free [simp]: "volume_free spent" "link_free spent"
  by (simp_all add: volume_free_def link_free_def spent_def)

lemma spent_streamer [simp]: "spent (map_streamer f c) = spent c"
  by (simp add: spent_def map_streamer_def)

lemma setup_spent:
  assumes "spent c" shows "ensures (connection_setup h c) (\<lambda>_ _. False) (\<lambda>_. spent)"
proof -
  have 1: "ensures (connection_setup h c)
    (\<lambda>_ c'. True \<and> conn_state c = Paired \<and> conn_state c' = session_state.Ready \<and> cn_control_rx c' \<and>
       ports (cn_session c') \<noteq> None) (\<lambda>_. setup_end (\<lambda>_. True) c)"
    by (rule setup_ensures) (simp_all add: setup_free_def link_free_def clock_free_def)
  show ?thesis
    by (rule ensures_weaken [OF 1]) (use assms in \<open>auto simp: spent_def setup_end_def\<close>)
qed

lemma start_spent:
  assumes "spent c" shows "ensures (start_streaming_live h d c) (\<lambda>_ _. False) (\<lambda>_. spent)"
proof -
  let ?c = "c\<lparr>cn_listener := False\<rparr>"
  have "spent ?c" using assms by (simp add: spent_def)
  moreover have "conn_state ?c \<noteq> session_state.Ready" using assms by (auto simp: spent_def)
  ultimately have "ensures (if conn_state ?c \<noteq> session_state.Ready then connection_setup h ?c else (Inr (), ?c))
      (\<lambda>_ _. False) (\<lambda>_. spent)"
    using setup_spent by presburger
  then show ?thesis unfolding start_streaming_live_def Let_def by (rule ensures_bind) simp
qed

lemma session_spent:
  "spent c \<Longrightarrow> ensures (on_session session_pause c) (\<lambda>_. spent) (\<lambda>_. spent)"
  "spent c \<Longrightarrow> ensures (on_session start_playing c) (\<lambda>_. spent) (\<lambda>_. spent)"
  by (auto simp: on_session_def session_pause_def start_playing_def wrong_state_def spent_def)

lemma conn_call_spent:
  assumes "spent c" shows "ensures (conn_call_step h call c) (\<lambda>_. spent) (\<lambda>e c'. e = Panic \<or> spent c')"
proof -
  have w: "ensures r (\<lambda>_. spent) (\<lambda>e c'. e = Panic \<or> spent c')"
    if "ensures r (\<lambda>_. spent) (\<lambda>_. spent)" for r :: "(unit, connection) call"
    by (rule ensures_weaken [OF that]) auto
  have never: "ensures r (\<lambda>_. spent) (\<lambda>e c'. e = Panic \<or> spent c')"
    if "ensures r (\<lambda>_ _. False) (\<lambda>_. spent)" for r :: "(unit, connection) call"
    by (rule ensures_weaken [OF that]) auto
  have b: "spent (c\<lparr>cn_playback := p\<rparr>) = spent c" "spent (c\<lparr>cn_listener := l\<rparr>) = spent c" for c p l
    by (simp_all add: spent_def)
  have pause: "ensures (conn_pause h c) (\<lambda>_. spent) (\<lambda>_. spent)"
    unfolding conn_pause_def Let_def
    by (rule ensures_bind [OF send_request_keeps], simp_all add: assms,
        rule ensures_bind [OF session_spent(1)]) (simp_all add: b)
  have resume: "ensures (conn_resume h c) (\<lambda>_. spent) (\<lambda>_. spent)"
    unfolding conn_resume_def Let_def
    by (rule ensures_bind [OF send_request_keeps], simp_all add: assms,
        rule ensures_bind [OF session_spent(2)]) (simp_all add: b)
  have stop: "ensures (conn_stop h c) (\<lambda>_. spent) (\<lambda>_. spent)"
    unfolding conn_stop_def Let_def
    by (rule ensures_bind [OF best_effort_send_flush_keeps]) (simp_all add: assms b)
  show ?thesis
  proof (cases call)
    case CallDisconnect
    show ?thesis
      unfolding CallDisconnect conn_call_step.simps
      by (rule ensures_weaken [OF disconnect_end]) (use assms in \<open>auto simp: spent_def\<close>)
  qed (simp_all add: w never assms setup_spent start_spent pause resume stop volume_linear_keeps
      volume_db_keeps feedback_keeps send_flush_keeps send_record_keeps)
qed

lemma conn_run_spent: "conn_run calls c = Some c' \<Longrightarrow> spent c \<Longrightarrow> spent c'"
proof (induction calls c rule: conn_run.induct)
  case (2 h s call calls c)
  obtain res c1 where r: "conn_call_step h call (streamer_moved s c) = (res, c1)" by fastforce
  have "ensures (res, c1) (\<lambda>_. spent) (\<lambda>e c'. e = Panic \<or> spent c')"
    using conn_call_spent [of "streamer_moved s c" h call] 2(4) unfolding r by (simp add: streamer_moved_def)
  with 2 r show ?case by (auto split: sum.splits fault.splits)
qed simp

section \<open>What a started stream is\<close>

lemma bind_in_Inr: "bind_in r f = (Inr x, s) \<longleftrightarrow> (\<exists>y s1. r = (Inr y, s1) \<and> f y s1 = (Inr x, s))"
  by (cases r; cases "fst r") (auto simp: bind_in_def split: sum.splits)

lemma from_res_Inr: "from_res r s = (Inr x, s') \<longleftrightarrow> r = Inr x \<and> s' = s"
  by (cases r) (auto simp: from_res_def)

lemma ensures_Inr: "ensures r Q E \<Longrightarrow> r = (Inr x, s) \<Longrightarrow> Q x s"
  by (simp add: ensures_def)

definition same_config :: "connection \<Rightarrow> connection \<Rightarrow> bool" where
  "same_config c c' \<longleftrightarrow> cn_config c' = cn_config c \<and> cn_device c' = cn_device c"

lemma same_config_free:
  "setup_free (same_config c)" "clock_free (same_config c)" "link_free (same_config c)"
  by (simp_all add: setup_free_def link_free_def clock_free_def same_config_def)

text \<open>The log only grows, and the session headers stay.\<close>

definition grown :: "link \<Rightarrow> link \<Rightarrow> bool" where
  "grown lk lk' \<longleftrightarrow> (\<exists>more. lk_log lk' = lk_log lk @ more) \<and>
     session_headers (lk_conn lk') = session_headers (lk_conn lk)"

lemma grown_refl [simp]: "grown lk lk" by (simp add: grown_def)

lemma grown_trans: "grown lk lk1 \<Longrightarrow> grown lk1 lk2 \<Longrightarrow> grown lk lk2"
  by (auto simp: grown_def)

lemma send_session_headers:
  "rtsp_send h r lk = (res, lk') \<Longrightarrow> session_headers (lk_conn lk') = session_headers (lk_conn lk)"
  by (auto simp: rtsp_send_def connection_send_def wire_data_def next_cseq_def read_response_def Let_def
      split: if_splits prod.splits sum.splits option.splits)

lemma send_grown: "rtsp_send h r lk = (res, lk') \<Longrightarrow> grown lk lk'"
  using send_session_headers by (auto simp: grown_def rtsp_send_def Let_def split: prod.splits)

lemma send_timeout_grown: "rtsp_send_timeout h r lk = (res, lk') \<Longrightarrow> grown lk lk'"
  using send_grown by (fastforce simp: rtsp_send_timeout_def grown_def split: if_splits prod.splits)

lemma request_grown: "send_request h r c = (res, c') \<Longrightarrow> grown (cn_link c) (cn_link c')"
  using send_grown by (auto simp: send_request_def split: prod.splits)

lemma best_effort_snd: "best_effort r = (res, s) \<Longrightarrow> snd r = s"
  by (auto simp: best_effort_def split: prod.splits sum.splits fault.splits)

lemma initial_record_grown:
  "best_effort_send_initial_record h c = (res, c') \<Longrightarrow> grown (cn_link c) (cn_link c') \<and> cn_session c' = cn_session c"
  using send_timeout_grown
  by (fastforce simp: best_effort_send_initial_record_def split: prod.splits option.splits dest: best_effort_snd)

lemma volume_grown: "conn_set_volume_linear h v c = (res, c') \<Longrightarrow> grown (cn_link c) (cn_link c')"
  using request_grown
  by (fastforce simp: conn_set_volume_linear_def conn_set_volume_db_def bind_in_def Let_def split: prod.splits sum.splits)

lemma flush_grown: "send_flush h sq t c = (res, c') \<Longrightarrow> grown (cn_link c) (cn_link c')"
  using request_grown by (fastforce simp: send_flush_def bind_in_def split: prod.splits sum.splits)

text \<open>A start that succeeds has gone through these steps.\<close>

lemma start_streaming_steps:
  assumes "start_streaming_live h d c = (Inr (), c')"
  obtains c1 sender s where "same_config c c1" "conn_state c1 = session_state.Ready"
    "build_rtp_sender h c1 = Inr sender"
    "start_live (h_codec h) d (h_now h) (configured_streamer c1 sender) = (Inr (), s)"
    "cn_streamer c' = Some s" "ports (cn_session c') = ports (cn_session c1)"
    "conn_state c' = Playing" "cn_playback c' = PbPlaying" "cn_device c' = cn_device c"
    "shk (cn_session c') = shk (cn_session c1)"
    "conn_state c \<noteq> session_state.Ready \<longrightarrow> connection_setup h (c\<lparr>cn_listener := False\<rparr>) = (Inr (), c1)"
    "grown (cn_link c1) (cn_link c')"
proof -
  let ?c = "c\<lparr>cn_listener := False\<rparr>"
  obtain c1 where 1: "(if conn_state ?c \<noteq> session_state.Ready then connection_setup h ?c else (Inr (), ?c)) = (Inr (), c1)"
    and r1: "bind_in (from_res (build_rtp_sender h c1) c1) (\<lambda>sender cb.
       bind_in (best_effort_send_flush h 0 0 cb) (\<lambda>_ c.
         bind_in (from_res (fst (start_live (h_codec h) d (h_now h) (configured_streamer cb sender))) c) (\<lambda>_ c.
         bind_in (on_session start_playing c) (\<lambda>_ c.
         bind_in (best_effort (conn_set_volume_linear h (cn_volume c) c)) (\<lambda>_ c.
           (Inr (), c\<lparr>cn_streamer := Some (snd (start_live (h_codec h) d (h_now h) (configured_streamer cb sender))),
              cn_listener := cn_control_rx c, cn_playback := PbPlaying\<rparr>)))))) = (Inr (), c')"
    using assms unfolding start_streaming_live_def Let_def split_def by (auto simp: bind_in_Inr [of "if _ then _ else _"])
  have c1: "same_config c c1 \<and> conn_state c1 = session_state.Ready"
  proof (cases "conn_state c = session_state.Ready")
    case True
    with 1 show ?thesis by (auto simp: same_config_def)
  next
    case False
    with 1 have "connection_setup h ?c = (Inr (), c1)" by simp
    from ensures_Inr [OF setup_ensures [OF same_config_free(1,2)] this, of c] show ?thesis
      by (simp add: same_config_def)
  qed
  from r1 obtain sender c2 where s: "build_rtp_sender h c1 = Inr sender"
    and 2: "best_effort_send_flush h 0 0 c1 = (Inr (), c2)"
    and r2: "bind_in (from_res (fst (start_live (h_codec h) d (h_now h) (configured_streamer c1 sender))) c2) (\<lambda>_ c.
         bind_in (on_session start_playing c) (\<lambda>_ c.
         bind_in (best_effort (conn_set_volume_linear h (cn_volume c) c)) (\<lambda>_ c.
           (Inr (), c\<lparr>cn_streamer := Some (snd (start_live (h_codec h) d (h_now h) (configured_streamer c1 sender))),
              cn_listener := cn_control_rx c, cn_playback := PbPlaying\<rparr>)))) = (Inr (), c')"
    by (auto simp: bind_in_Inr from_res_Inr)
  from r2 obtain c3 c4 where st: "fst (start_live (h_codec h) d (h_now h) (configured_streamer c1 sender)) = Inr ()"
    and 3: "on_session start_playing c2 = (Inr (), c3)"
    and 4: "best_effort (conn_set_volume_linear h (cn_volume c3) c3) = (Inr (), c4)"
    and c': "c' = c4\<lparr>cn_streamer := Some (snd (start_live (h_codec h) d (h_now h) (configured_streamer c1 sender))),
              cn_listener := cn_control_rx c4, cn_playback := PbPlaying\<rparr>"
    by (auto simp: bind_in_Inr from_res_Inr)
  let ?P = "\<lambda>c. cn_session c = cn_session c1 \<and> cn_device c = cn_device c1"
  have p2: "?P c2"
    by (rule ensures_Inr [OF best_effort_send_flush_keeps 2]) (simp_all add: link_free_def)
  then have p3: "ports (cn_session c3) = ports (cn_session c1) \<and> conn_state c3 = Playing \<and> cn_device c3 = cn_device c1 \<and>
      shk (cn_session c3) = shk (cn_session c1)"
    using 3 by (auto simp: on_session_def start_playing_def wrong_state_def split: if_splits)
  let ?Q = "\<lambda>c. ports (cn_session c) = ports (cn_session c1) \<and> conn_state c = Playing \<and> cn_device c = cn_device c1 \<and>
      shk (cn_session c) = shk (cn_session c1)"
  have "?Q c4"
    by (rule ensures_Inr [OF ensures_best_effort [OF volume_linear_keeps] 4])
      (use p3 in \<open>simp_all add: volume_free_def link_free_def\<close>)
  moreover have "grown (cn_link c1) (cn_link c')"
  proof -
    have "grown (cn_link c1) (cn_link c2)"
      using 2 flush_grown by (metis best_effort_send_flush_def best_effort_snd prod.collapse)
    moreover have "cn_link c3 = cn_link c2" using 3 by (auto simp: on_session_def split: prod.splits)
    moreover have "grown (cn_link c3) (cn_link c4)" using 4 volume_grown by (metis best_effort_snd prod.collapse)
    moreover have "cn_link c' = cn_link c4" using c' by simp
    ultimately show ?thesis using grown_trans by metis
  qed
  moreover have "conn_state c \<noteq> session_state.Ready \<longrightarrow> connection_setup h ?c = (Inr (), c1)"
    using 1 by (auto split: if_splits)
  ultimately show ?thesis
    using c1 s st c' by (intro that [of c1 sender "snd (start_live (h_codec h) d (h_now h) (configured_streamer c1 sender))"])
      (auto simp: prod_eq_iff same_config_def)
qed

lemma configured_streamer_simps:
  "st_task (configured_streamer c r) = False"
  "rtp_senders (st_inner (configured_streamer c r)) = [r]"
  "si_config (st_inner (configured_streamer c r)) = cn_config c"
  "first_packet_sent (st_inner (configured_streamer c r)) = False"
  "si_buffer (st_inner (configured_streamer c r)) = buffer_new (audio_format (cn_config c)) DEFAULT_BUFFER_CAPACITY_MS"
  by (auto simp: configured_streamer_def Let_def set_rtp_sender_def set_render_delay_ms_def
      set_timing_offset_def set_timing_updates_def on_inner_def streamer_new_def
      split: option.split)

lemma build_rtp_sender_fields:
  assumes "build_rtp_sender h c = Inr r"
  shows "\<exists>p addr. ports (cn_session c) = Some p \<and> select_best_address (addresses (cn_device c)) = Some addr \<and>
    rtp_dest r = (addr, data_port p) \<and> control_dest r = Some (addr, control_port p) \<and> rtp_socket r \<and>
    rtp_sequence r = 0 \<and> rtp_cipher r = Some (chacha_encrypt_payload (h_aead h) (shk (cn_session c)))"
  using assms
  by (cases "ports (cn_session c)"; cases "select_best_address (addresses (cn_device c))"; cases "h_data_bind h")
    (auto simp: build_rtp_sender_def Let_def sender_new_def set_control_dest_def set_control_socket_def
      set_packet_cipher_def)

lemma configured_fresh:
  "rtp_socket r \<Longrightarrow> channels (audio_format (cn_config c)) \<noteq> 0 \<Longrightarrow> fresh_streamer (configured_streamer c r)"
  by (simp add: fresh_streamer_def configured_streamer_simps whole_packets_def send_targets_def buffer_new_def Let_def
      buffer_ok_def max_def)

section \<open>A sample connection\<close>

definition sample_f32 :: f32_ops where
  "sample_f32 = \<lparr> f32_le = \<lambda>a b. a = b, f32_clamp = \<lambda>x lo hi. x, f32_mul = \<lambda>a b. a, f32_div = \<lambda>a b. a,
     f32_log10 = \<lambda>a. a, f32_powf = \<lambda>a b. b, f32_fixed2 = \<lambda>_. ''0.00'' \<rparr>"

definition sample_host :: host where
  "sample_host = \<lparr> h_aead = plain_aead, h_plists = toy_plists, h_codec = \<lambda>_ _ _. copy_codec,
     h_f32 = sample_f32, h_show_ip = \<lambda>_. ''192.0.2.1'', h_local_ip = None, h_ntp_port = Inr 50000,
     h_events = True, h_control_port = Inr 50001, h_clock_id = None, h_offset = clock_offset_default,
     h_data_bind = Inr (), h_control_clone = True, h_signalled = True, h_now = 0 \<rparr>"

text \<open>A connection after SETUP, to a receiver that then says nothing more.\<close>

definition sample_receiver :: device where
  "sample_receiver = the (res_ok (parse_airplay_txt (\<lambda>_. None) ''Kitchen''
     [(''deviceid'', ''AA:BB:CC:DD:EE:FF'')] [V4 9] 7000))"

lemma sample_receiver_addresses: "addresses sample_receiver = [V4 9]"
  by code_simp

definition sample_session :: rtsp_session where
  "sample_session = (session_new ''u'' (replicate 32 5) 1 2 sample_receiver default_config)
     \<lparr>ss_state := session_state.Ready,
      ports := Some \<lparr>data_port = 6000, control_port = 6001, event_port = 5000\<rparr>\<rparr>"

definition sample_link :: link where
  "sample_link = \<lparr> lk_conn = connection_new\<lparr>conn_stream := True\<rparr>, lk_answers = [], lk_log = [] \<rparr>"

definition sample_connection :: connection where
  "sample_connection = (from_paired_parts sample_receiver sample_link sample_session default_config)
     \<lparr>cn_control_rx := True\<rparr>"

definition silent :: "link \<Rightarrow> bool" where
  "silent lk \<longleftrightarrow> lk_answers lk = [] \<and> conn_stream (lk_conn lk)"

lemma silent_send:
  assumes "silent lk" shows "\<exists>e lk'. rtsp_send h r lk = (Inl (Fail e), lk') \<and> silent lk'"
proof -
  have clear: "read_plaintext_response [] False = Inl TimedOut"
    by (simp add: read_plaintext_response_def plain_head.simps)
  have sealed: "read_blocks a False cc [] [] = (Inl TimedOut, cc, [])" for a cc
    by (simp add: read_blocks.simps starve_def)
  show ?thesis
  proof (cases "conn_cipher (lk_conn lk)")
    case None
    with assms clear show ?thesis
      by (simp add: rtsp_send_def silent_def next_answer_def silence_def connection_send_def wire_data_def
          read_response_def read_error_value_def next_cseq_def Let_def)
  next
    case (Some cc)
    obtain res cc' where "control_encrypt (h_aead h) cc
        (request_serialize (with_session_headers (lk_conn lk) r) (conn_cseq (lk_conn lk) + 1)) = (res, cc')" by fastforce
    with Some assms sealed show ?thesis
      by (cases res) (auto simp: rtsp_send_def silent_def next_answer_def silence_def connection_send_def wire_data_def
          read_response_def read_error_value_def next_cseq_def Let_def)
  qed
qed

lemma silent_request:
  assumes "silent (cn_link c)"
  obtains e lk where "send_request h r c = (Inl (Fail e), c\<lparr>cn_link := lk\<rparr>)" "silent lk"
  using silent_send [OF assms, of h r] by (auto simp: send_request_def)

lemma silent_flush:
  assumes "silent (cn_link c)"
  obtains lk where "best_effort_send_flush h sq t c = (Inr (), c\<lparr>cn_link := lk\<rparr>)" "silent lk"
  by (rule silent_request [OF assms, of h "flush_with_info (conn_uri c) sq t"])
    (simp add: best_effort_send_flush_def send_flush_def best_effort_def)

lemma silent_volume:
  assumes "silent (cn_link c)"
  obtains lk v where "best_effort (conn_set_volume_linear h w c) = (Inr (), c\<lparr>cn_link := lk, cn_volume := v\<rparr>)" "silent lk"
proof -
  let ?clamped = "f32_clamp (h_f32 h)
     (if f32_le (h_f32 h) (f32_clamp (h_f32 h) w F32_0 F32_1) F32_0 then F32_MINUS_144
      else f32_mul (h_f32 h) F32_20 (f32_log10 (h_f32 h) (f32_clamp (h_f32 h) w F32_0 F32_1))) F32_MINUS_144 F32_0"
  let ?v = "if f32_le (h_f32 h) ?clamped F32_MINUS_144 then F32_0
     else f32_powf (h_f32 h) F32_10 (f32_div (h_f32 h) ?clamped F32_20)"
  let ?c = "c\<lparr>cn_volume := ?v\<rparr>"
  have "silent (cn_link ?c)" using assms by simp
  from silent_request [OF this, of h "set_parameter_text (conn_uri ?c) (build_set_volume_db (f32_fixed2 (h_f32 h) ?clamped))"]
  obtain e lk where "send_request h (set_parameter_text (conn_uri ?c)
       (build_set_volume_db (f32_fixed2 (h_f32 h) ?clamped))) ?c = (Inl (Fail e), ?c\<lparr>cn_link := lk\<rparr>)" "silent lk"
    by blast
  then have "best_effort (conn_set_volume_linear h w c) = (Inr (), c\<lparr>cn_link := lk, cn_volume := ?v\<rparr>)"
    by (simp add: conn_set_volume_linear_def conn_set_volume_db_def best_effort_def Let_def)
  then show ?thesis using \<open>silent lk\<close> by (rule that)
qed

text \<open>Starting on a connection that is set up succeeds, and the receiver's silence is only logged.\<close>

lemma silent_start:
  assumes "conn_state c = session_state.Ready" and "silent (cn_link c)" and "build_rtp_sender h c = Inr r"
    and "codec (audio_format (cn_config c)) = Alac"
  shows "\<exists>c'. start_streaming_live h d c = (Inr (), c') \<and> silent (cn_link c') \<and>
    shk (cn_session c') = shk (cn_session c)"
proof -
  let ?c = "c\<lparr>cn_listener := False\<rparr>"
  have sil: "silent (cn_link ?c)" using assms(2) by simp
  have r: "build_rtp_sender h ?c = Inr r" using assms(3) by (simp add: build_rtp_sender_def)
  obtain lk1 where 1: "best_effort_send_flush h 0 0 ?c = (Inr (), ?c\<lparr>cn_link := lk1\<rparr>)" "silent lk1"
    by (rule silent_flush [OF sil])
  have st: "fst (start_live (h_codec h) d now (configured_streamer ?c r)) = Inr ()" for now
    using assms(4) by (simp add: start_live_def create_encoder_def on_inner_def Let_def configured_streamer_simps)
  let ?c2 = "?c\<lparr>cn_link := lk1\<rparr>"
  let ?c3 = "?c2\<lparr>cn_session := (cn_session ?c2)\<lparr>ss_state := Playing\<rparr>\<rparr>"
  have 3: "on_session start_playing ?c2 = (Inr (), ?c3)"
    using assms(1) by (simp add: on_session_def start_playing_def)
  have sil3: "silent (cn_link ?c3)" using 1(2) by simp
  obtain lk v where 4: "best_effort (conn_set_volume_linear h (cn_volume ?c3) ?c3) =
      (Inr (), ?c3\<lparr>cn_link := lk, cn_volume := v\<rparr>)" "silent lk"
    by (rule silent_volume [OF sil3])
  show ?thesis
    unfolding start_streaming_live_def Let_def split_def
    using assms(1) r 1(1) st 3 4 by simp
qed

lemma sample_start:
  "\<exists>c'. start_streaming_live sample_host d sample_connection = (Inr (), c') \<and> silent (cn_link c') \<and>
    length (shk (cn_session c')) = 32"
proof -
  have ready: "conn_state sample_connection = session_state.Ready" "silent (cn_link sample_connection)"
    "codec (audio_format (cn_config sample_connection)) = Alac" "length (shk (cn_session sample_connection)) = 32"
    by (simp_all add: sample_connection_def from_paired_parts_def sample_session_def silent_def sample_link_def
        connection_new_def default_config_def default_format_def session_new_def Let_def)
  have "select_best_address [V4 9] = Some (V4 9)" by (simp add: select_best_address_def)
  then obtain r where r: "build_rtp_sender sample_host sample_connection = Inr r"
    by (simp add: build_rtp_sender_def sample_connection_def from_paired_parts_def sample_session_def
        sample_receiver_addresses sample_host_def Let_def)
  from silent_start [OF ready(1,2) r ready(3), of d] ready(4) show ?thesis by auto
qed

section \<open>Claims\<close>

text \<open>C19: whatever calls are made on a paired connection, in any order and with whatever answers, the
  playback state and the session agree: it says playing or paused only if the session does, there is
  a streamer only once the session has played, retransmissions are served only while there is one,
  and a session that is ready, playing or paused has its ports and its control socket.\<close>

theorem connection_state_consistent:
  assumes "ss_state s = Paired" and "conn_run calls (from_paired_parts dev lk s cfg) = Some c"
  shows "conn_inv c"
  by (rule conn_run_inv [OF assms(2)]) (simp add: conn_inv_def from_paired_parts_def assms(1))

definition sample_paired :: connection where
  "sample_paired = from_paired_parts sample_receiver sample_link
     (sample_session\<lparr>ss_state := Paired\<rparr>) default_config"

lemma map_streamer_None: "cn_streamer c = None \<Longrightarrow> map_streamer f c = c"
  by (simp add: map_streamer_def)

lemma silent_pause:
  assumes "silent (cn_link c)" and "cn_streamer c = None"
  obtains e lk where "conn_pause h c = (Inl (Fail e), c\<lparr>cn_link := lk\<rparr>)" "silent lk"
  by (rule silent_request [OF assms(1), of h "flush_with_info (conn_uri c) 0 0"])
    (simp add: conn_pause_def map_streamer_None assms(2))

lemma silent_send_flush:
  assumes "silent (cn_link c)"
  obtains e lk where "send_flush h sq t c = (Inl (Fail e), c\<lparr>cn_link := lk\<rparr>)" "silent lk"
  by (rule silent_request [OF assms, of h "flush_with_info (conn_uri c) sq t"]) (simp add: send_flush_def)

lemma sample_paired_run:
  "\<exists>c. conn_run [(sample_host, sample_started, CallFlush 1 2), (sample_host, sample_started, CallPause)]
     sample_paired = Some c"
proof -
  have start: "silent (cn_link sample_paired)" "cn_streamer sample_paired = None"
    by (simp_all add: sample_paired_def from_paired_parts_def silent_def sample_link_def connection_new_def)
  obtain e lk where 1: "send_flush sample_host 1 2 sample_paired =
      (Inl (Fail e), sample_paired\<lparr>cn_link := lk\<rparr>)" "silent lk"
    by (rule silent_send_flush [OF start(1)])
  let ?c = "sample_paired\<lparr>cn_link := lk\<rparr>"
  obtain e' lk' where 2: "conn_pause sample_host ?c = (Inl (Fail e'), ?c\<lparr>cn_link := lk'\<rparr>)"
    by (rule silent_pause [of ?c]) (use 1 start in simp_all)
  show ?thesis
    by (simp add: streamer_moved_def map_streamer_None start 1 2)
qed

theorem connection_state_consistent_witness:
  "\<exists>c. conn_run [(sample_host, sample_started, CallFlush 1 2), (sample_host, sample_started, CallPause)]
     sample_paired = Some c \<and> conn_inv c"
proof -
  obtain c where c: "conn_run [(sample_host, sample_started, CallFlush 1 2), (sample_host, sample_started, CallPause)]
     sample_paired = Some c"
    using sample_paired_run by blast
  have "conn_inv c"
    by (rule connection_state_consistent [OF _ c [unfolded sample_paired_def]]) simp
  with c show ?thesis by blast
qed

text \<open>C20: a connection streams once. After a stream has been started, no sequence of calls, \<open>stop\<close>
  included, lets a second one start: the session never returns to a state from which SETUP or
  playing is accepted, so every later start fails.\<close>

theorem connection_streams_once:
  assumes "start_streaming_live h d c = (Inr (), c1)" and "conn_run calls c1 = Some c2"
  shows "\<exists>e. fst (start_streaming_live h' d' c2) = Inl e"
proof -
  obtain s where "conn_state c1 = Playing" by (rule start_streaming_steps [OF assms(1)])
  then have "spent c2" by (intro conn_run_spent [OF assms(2)]) (simp add: spent_def)
  from start_spent [OF this, of h' d'] show ?thesis
    by (cases "start_streaming_live h' d' c2"; cases "fst (start_streaming_live h' d' c2)") auto
qed

lemma sample_stop_run:
  "silent (cn_link c) \<Longrightarrow> \<exists>c'. conn_run [(sample_host, sample_started, CallStop)] c = Some c'"
proof -
  assume sil: "silent (cn_link c)"
  let ?c = "map_streamer (\<lambda>s. snd (streamer_stop (h_signalled sample_host) s))
      ((streamer_moved sample_started c)\<lparr>cn_listener := False\<rparr>)"
  have "silent (cn_link ?c)" using sil by (simp add: map_streamer_def streamer_moved_def)
  then obtain lk where "best_effort_send_flush sample_host 0 0 ?c = (Inr (), ?c\<lparr>cn_link := lk\<rparr>)"
    by (rule silent_flush)
  then show ?thesis by (simp add: conn_stop_def)
qed

theorem connection_streams_once_witness:
  "\<exists>c1 c2. start_streaming_live sample_host sample_decoder sample_connection = (Inr (), c1) \<and>
     conn_run [(sample_host, sample_started, CallStop)] c1 = Some c2 \<and>
     (\<exists>e. fst (start_streaming_live sample_host sample_decoder c2) = Inl e)"
proof -
  obtain c1 where 1: "start_streaming_live sample_host sample_decoder sample_connection = (Inr (), c1)"
      "silent (cn_link c1)"
    using sample_start by blast
  obtain c2 where 2: "conn_run [(sample_host, sample_started, CallStop)] c1 = Some c2"
    using sample_stop_run [OF 1(2)] by blast
  from connection_streams_once [OF 1(1) 2] 1(1) 2 show ?thesis by blast
qed


text \<open>The packets that a started connection hands to the sender thread.\<close>

lemma started_stream_log:
  assumes "start_streaming_live h d c = (Inr (), c')" and "cn_streamer c' = Some s"
    and "channels (audio_format (cn_config c)) \<noteq> 0"
    and "\<forall>rate n ch. codec_fits (unat n * unat (channels (audio_format (cn_config c))) * 2 + 256) (h_codec h rate n ch)"
    and "ResetAfterFlush \<notin> set evs" and "k < length (packets (fst (run_io (streamer_step rn) s evs)))"
  shows "\<exists>w. fst (packets (fst (run_io (streamer_step rn) s evs)) ! k) = [w] \<and> wire_seq w = word_of_nat k \<and>
    wire_marker w = (k = 0) \<and> wire_time w = word_of_nat k * frames_per_packet (audio_format (cn_config c))"
proof -
  obtain c1 r where st: "same_config c c1" "build_rtp_sender h c1 = Inr r"
      "start_live (h_codec h) d (h_now h) (configured_streamer c1 r) = (Inr (), s)"
    by (rule start_streaming_steps [OF assms(1)]) (use assms(2) in auto)
  have r: "rtp_socket r" "rtp_sequence r = 0" using build_rtp_sender_fields [OF st(2)] by auto
  have cfg: "si_config (st_inner (configured_streamer c1 r)) = cn_config c"
    using st(1) by (simp add: configured_streamer_simps same_config_def)
  have fresh: "fresh_streamer (configured_streamer c1 r)"
    using r(1) assms(3) st(1) by (intro configured_fresh) (simp_all add: same_config_def)
  have "good_log (cn_config c) [0] (has_control_port (st_inner (configured_streamer c1 r)))
      (packets (fst (run_io (streamer_step rn) s evs)))"
    using start_live_run [OF fresh st(3), unfolded cfg, OF assms(3,4,5), of rn] r(2)
    by (simp add: configured_streamer_simps)
  with assms(6) show ?thesis
    by (auto simp: good_log_def packet_k_def packet_for_def time_k_def list_all2_Cons1)
qed



text \<open>Only ALAC can be streamed. A stream in any other codec never starts, on any connection and
  whatever the receiver answers: the two AirPlay 2 buffered presets, which are AAC, can be connected
  with but not played.\<close>

theorem only_alac_streams:
  "codec (audio_format (cn_config c)) \<noteq> Alac \<Longrightarrow> \<exists>e. fst (start_streaming_live h d c) = Inl e"
proof (rule ccontr)
  assume codec: "codec (audio_format (cn_config c)) \<noteq> Alac"
    and "\<nexists>e. fst (start_streaming_live h d c) = Inl e"
  then obtain c' where "start_streaming_live h d c = (Inr (), c')"
    by (cases "start_streaming_live h d c"; cases "fst (start_streaming_live h d c)") auto
  then obtain c1 r s where "same_config c c1"
    and st: "start_live (h_codec h) d (h_now h) (configured_streamer c1 r) = (Inr (), s)"
    by (rule start_streaming_steps)
  then have "codec (audio_format (cn_config c1)) \<noteq> Alac" using codec by (simp add: same_config_def)
  with st show False
    by (cases "codec (audio_format (cn_config c1))")
      (simp_all add: start_live_def create_encoder_def on_inner_def Let_def configured_streamer_simps)
qed

theorem only_alac_streams_witness:
  "\<exists>e. fst (start_streaming_live sample_host sample_decoder
     (sample_connection\<lparr>cn_config := airplay2_buffered\<rparr>)) = Inl e"
  by (rule only_alac_streams) (simp add: airplay2_buffered_def buffered_default_def)

end
