(* ===== verification/Handshake.thy ===== *)
theory Handshake
  imports Connection
begin

text \<open>
  Connecting to a receiver, \<open>src/client/handshake.rs\<close>: the TCP connection, \<open>GET /info\<close>, transient
  pairing in the clear, the control cipher, and an encrypted \<open>OPTIONS\<close>. It composes the RTSP
  connection with the pairing session; what it returns is a connection of \<open>Connection\<close>.

  The random values, whether the TCP connection is accepted and the receiver's answers are the
  argument \<open>shake\<close>.
\<close>

section \<open>Connecting\<close>

record shake =
  hw_pair :: pair_env
  hw_draws :: "bytes list"
  hw_device_id :: bytes
  hw_uuid :: string
  hw_key :: bytes
  hw_r1 :: u32
  hw_r2 :: u32
  hw_accepted :: bool
  hw_answers :: "exchange list"

definition add_default_rtsp_headers :: "string \<Rightarrow> rtsp_connection \<Rightarrow> rtsp_connection" where
  "add_default_rtsp_headers cid c =
     (let client_instance = remove_char CHR '':'' cid;
          c = add_session_header ''User-Agent'' AIRPLAY_USER_AGENT c;
          c = add_session_header ''X-Apple-Client-Name'' AIRPLAY_CLIENT_NAME c;
          c = add_session_header ''X-Apple-Device-ID'' cid c;
          c = add_session_header ''DACP-ID'' client_instance c;
          c = add_session_header ''Client-Instance'' client_instance c
      in add_session_header ''Active-Remote'' AIRPLAY_ACTIVE_REMOTE c)"

definition install_control_cipher :: "session_keys \<Rightarrow> rtsp_connection \<Rightarrow> rtsp_connection" where
  "install_control_cipher keys c =
     set_cipher (control_cipher_new (sk_write_key keys) (sk_read_key keys)) c"

definition probe_encrypted_options :: "host \<Rightarrow> link \<Rightarrow> (unit, link) call" where
  "probe_encrypted_options h lk = best_effort (rtsp_send h options_request lk)"

text \<open>A session operation on a session that is not yet part of a connection.\<close>

definition on_new_session :: "'a session_result \<Rightarrow> 's \<Rightarrow> (rtsp_session, 's) call" where
  "on_new_session r lk = (case r of (Inl e, _) \<Rightarrow> (Inl (Fail e), lk) | (Inr _, s) \<Rightarrow> (Inr s, lk))"

definition open_connected_session ::
  "host \<Rightarrow> shake \<Rightarrow> device \<Rightarrow> stream_config \<Rightarrow> string \<Rightarrow> (rtsp_session, link) call" where
  "open_connected_session h w dev cfg cid =
     (let lk = \<lparr> lk_conn = connection_new, lk_answers = hw_answers w, lk_log = [] \<rparr> in
     bind_in (from_res (ok_or (select_best_address (addresses dev)) (Rtsp ConnectionRefused)) lk) (\<lambda>ip lk.
       let (res, c) = connection_connect (hw_accepted w) (lk_conn lk) in
     bind_in (from_res res (lk\<lparr>lk_conn := c\<rparr>)) (\<lambda>_ lk.
       let s = session_new (hw_uuid w) (hw_key w) (hw_r1 w) (hw_r2 w) dev cfg;
           s = set_client_device_id cid s in
     bind_in (on_new_session (set_connected s) lk) (\<lambda>s lk.
       let s = set_request_host (h_show_ip h ip) s;
           lk = lk\<lparr>lk_conn := add_default_rtsp_headers cid (lk_conn lk)\<rparr> in
     bind_in (rtsp_send h get_info lk) (\<lambda>_ lk. (Inr s, lk))))))"

text \<open>The responses M2 and M4 with the requests between them.\<close>

definition pairing_exchange ::
  "host \<Rightarrow> pair_env \<Rightarrow> string \<Rightarrow> bytes \<Rightarrow> pairing_session \<Rightarrow> link \<Rightarrow> (pairing_session, link) call" where
  "pairing_exchange h env cid m1 pairing lk =
     bind_in (rtsp_send h (pair_setup_request m1 cid HKP_TRANSIENT) lk) (\<lambda>m2_resp lk.
       let (m3, pairing) = continue_transient_pairing env pairing (response_body m2_resp) in
     bind_in (from_res m3 lk) (\<lambda>m3 lk.
       (case m3 of
          None \<Rightarrow> (Inr pairing, lk)
        | Some m3_data \<Rightarrow>
            bind_in (rtsp_send h (pair_setup_request m3_data cid HKP_TRANSIENT) lk) (\<lambda>m4_resp lk.
              let (m5, pairing) = continue_transient_pairing env pairing (response_body m4_resp) in
            bind_in (from_res m5 lk) (\<lambda>_ lk. (Inr pairing, lk))))))"

definition finish_handshake ::
  "host \<Rightarrow> device \<Rightarrow> stream_config \<Rightarrow> rtsp_session \<Rightarrow> pairing_session \<Rightarrow> link \<Rightarrow> (connection, link) call" where
  "finish_handshake h dev cfg s pairing lk =
     bind_in (from_res (ok_or (fst (take_session_keys pairing))
         (Rtsp (SetupFailed ''Missing session keys after transient pairing''))) lk) (\<lambda>keys lk.
       let lk = lk\<lparr>lk_conn := install_control_cipher keys (lk_conn lk)\<rparr> in
     bind_in (probe_encrypted_options h lk) (\<lambda>_ lk.
     bind_in (on_new_session (set_paired s) lk) (\<lambda>s lk.
       (Inr (from_paired_parts dev lk s cfg), lk))))"

text \<open>\<open>None\<close> if the loop that draws the SRP secret has only seen zeros.\<close>

definition connect_with_pin ::
  "host \<Rightarrow> shake \<Rightarrow> device \<Rightarrow> stream_config \<Rightarrow> string \<Rightarrow> (connection, link) call option" where
  "connect_with_pin h w dev cfg pin =
     (let cid = generate_device_id (hw_device_id w) in
      case open_connected_session h w dev cfg cid of
        (Inl e, lk) \<Rightarrow> Some (Inl e, lk)
      | (Inr s, lk) \<Rightarrow>
          map_option (\<lambda>(m1, pairing).
             bind_in (from_res m1 lk) (\<lambda>m1 lk.
             bind_in (pairing_exchange h (hw_pair w) cid m1 pairing lk) (\<lambda>pairing lk.
               finish_handshake h dev cfg s pairing lk)))
            (start_transient_pairing_with_pin (hw_pair w) (hw_draws w) pairing_session_new pin))"

definition connect_auto ::
  "host \<Rightarrow> shake \<Rightarrow> device \<Rightarrow> stream_config \<Rightarrow> string \<Rightarrow> (connection, link) call option" where
  "connect_auto = connect_with_pin"

definition DEFAULT_TRANSIENT_PIN :: string where
  "DEFAULT_TRANSIENT_PIN = ''3939''"

definition connection_connect_default ::
  "host \<Rightarrow> shake \<Rightarrow> device \<Rightarrow> stream_config \<Rightarrow> (connection, link) call option" where
  "connection_connect_default h w dev cfg = connect_with_pin h w dev cfg DEFAULT_TRANSIENT_PIN"

section \<open>Requests in the clear and sealed\<close>

text \<open>The body of an answer that is read in the clear.\<close>

definition says :: "exchange \<Rightarrow> bytes \<Rightarrow> bool" where
  "says x b \<longleftrightarrow> (\<exists>data resp. read_plaintext_response (ex_input x) (ex_eof x) = Inr data \<and>
     response_parse data = Inr resp \<and> b = response_body resp)"

lemma silence_says_nothing: "\<not> says silence b"
  by (simp add: says_def silence_def read_plaintext_response_def plain_head.simps)

lemma next_answer_says: "says (next_answer lk) b \<Longrightarrow> lk_answers lk = next_answer lk # tl (lk_answers lk)"
  by (cases "lk_answers lk") (simp_all add: next_answer_def silence_says_nothing)

text \<open>A request in the clear that is answered: what it put on the wire, and what it leaves.\<close>

lemma clear_send:
  assumes "rtsp_send h r lk = (Inr resp, lk')" and "conn_cipher (lk_conn lk) = None"
  shows "conn_stream (lk_conn lk)"
    and "lk_conn lk' = (lk_conn lk)\<lparr>conn_cseq := conn_cseq (lk_conn lk) + 1\<rparr>"
    and "lk_log lk' = lk_log lk @
      [(r, Some (request_serialize (with_session_headers (lk_conn lk) r) (conn_cseq (lk_conn lk) + 1)))]"
    and "says (next_answer lk) (response_body resp)" and "lk_answers lk' = tl (lk_answers lk)"
  using assms
  by (auto simp: says_def rtsp_send_def connection_send_def wire_data_def next_cseq_def read_response_def Let_def
      split: if_splits prod.splits sum.splits)

lemma decrypt_block_keys:
  "decrypt_block a c ct n = (res, c') \<Longrightarrow>
   write_key c' = write_key c \<and> read_key c' = read_key c \<and> encrypt_counter c' = encrypt_counter c"
  by (auto simp: decrypt_block_def split: if_splits option.splits)

lemma read_blocks_keys:
  "read_blocks a fin r acc inp = (res, r', rest) \<Longrightarrow>
   write_key r' = write_key r \<and> read_key r' = read_key r \<and> encrypt_counter r' = encrypt_counter r"
proof (induction a fin r acc inp arbitrary: res r' rest rule: read_blocks.induct)
  case (1 a fin r acc inp)
  let ?n = "from_le (take 2 inp) :: u16" and ?rest = "drop 2 inp"
  let ?m = "unat ?n + 16"
  note once = "1.prems" [unfolded read_blocks.simps [of a fin r acc inp] Let_def]
  show ?case
  proof (cases "length inp < 2 \<or> length ?rest < ?m")
    case True
    with once show ?thesis by (auto split: if_splits)
  next
    case False
    then have f: "(length inp < 2) = False" "(length ?rest < ?m) = False" by simp_all
    obtain d r1 where d: "decrypt_block a r (take ?m ?rest) ?n = (d, r1)" by fastforce
    note once = once [unfolded f if_False d prod.case]
    note k = decrypt_block_keys [OF d]
    show ?thesis
    proof (cases d)
      case (Inl e)
      from once [unfolded Inl sum.case] k show ?thesis by (simp only: prod.inject)
    next
      case (Inr plain)
      note ih = "1.IH" [OF _ refl refl refl _ d [symmetric] Inr refl]
      show ?thesis
      proof (cases "find_sub (as_bytes (crlf @ crlf)) (acc @ plain)")
        case None
        with once [unfolded Inr sum.case] ih(1) f k show ?thesis by simp
      next
        case (Some e)
        with once [unfolded Inr sum.case] ih(2) f k show ?thesis by (simp split: if_splits)
      qed
    qed
  qed
qed

lemma control_encrypt_keys:
  "control_encrypt a c p = (res, c') \<Longrightarrow> write_key c' = write_key c \<and> read_key c' = read_key c"
  using encrypt_loop_frame by (auto simp: control_encrypt_def split: if_splits)

text \<open>A sealed request: what is written is what the cipher makes of the request, and the keys stay.\<close>

lemma sealed_send:
  assumes "rtsp_send h r lk = (res, lk')" and "conn_cipher (lk_conn lk) = Some cc" and "conn_stream (lk_conn lk)"
  shows "\<exists>wire cc'. lk_log lk' = lk_log lk @ [(r, wire)] \<and> conn_cipher (lk_conn lk') = Some cc' \<and>
    write_key cc' = write_key cc \<and> read_key cc' = read_key cc \<and> conn_stream (lk_conn lk') \<and>
    (case wire of None \<Rightarrow> True
     | Some b \<Rightarrow> fst (control_encrypt (h_aead h) cc
         (request_serialize (with_session_headers (lk_conn lk) r) (conn_cseq (lk_conn lk) + 1))) = Inr b)"
  using assms control_encrypt_keys read_blocks_keys
  by (fastforce simp: rtsp_send_def connection_send_def wire_data_def next_cseq_def read_response_def Let_def
      split: if_splits prod.splits sum.splits option.splits)

section \<open>A handshake that succeeds\<close>

text \<open>The connection as it sends \<open>GET /info\<close>, and a request as it is sent on it.\<close>

definition opened :: "string \<Rightarrow> rtsp_connection" where
  "opened cid = add_default_rtsp_headers cid (connection_new\<lparr>conn_stream := True\<rparr>)"

definition clear_text :: "string \<Rightarrow> rtsp_request \<Rightarrow> u32 \<Rightarrow> bytes" where
  "clear_text cid r n = request_serialize (with_session_headers (opened cid) r) n"

lemma opened_simps [simp]:
  "conn_cseq (opened cid) = 0" "conn_cipher (opened cid) = None" "conn_stream (opened cid)"
  by (simp_all add: opened_def add_default_rtsp_headers_def add_session_header_def connection_new_def Let_def)

lemma with_session_headers_simps [simp]:
  "with_session_headers (c\<lparr>conn_cseq := n\<rparr>) = with_session_headers c"
  "with_session_headers (c\<lparr>conn_cipher := x\<rparr>) = with_session_headers c"
  by (simp_all add: with_session_headers_def fun_eq_iff)

lemma clear_send_opened:
  assumes "rtsp_send h r lk = (Inr resp, lk')" and "lk_conn lk = (opened cid)\<lparr>conn_cseq := n\<rparr>"
  shows "lk_conn lk' = (opened cid)\<lparr>conn_cseq := n + 1\<rparr>"
    and "lk_log lk' = lk_log lk @ [(r, Some (clear_text cid r (n + 1)))]"
    and "\<exists>x. says x (response_body resp) \<and> lk_answers lk = x # lk_answers lk'"
  using clear_send [OF assms(1)] next_answer_says by (simp_all add: assms(2) clear_text_def) metis

text \<open>The session after \<open>GET /info\<close>.\<close>

definition greeted :: "host \<Rightarrow> shake \<Rightarrow> device \<Rightarrow> stream_config \<Rightarrow> string \<Rightarrow> ip_addr \<Rightarrow> rtsp_session" where
  "greeted h w dev cfg cid ip = set_request_host (h_show_ip h ip) ((set_client_device_id cid
     (session_new (hw_uuid w) (hw_key w) (hw_r1 w) (hw_r2 w) dev cfg))\<lparr>ss_state := Connected\<rparr>)"

lemma greeted_state [simp]: "ss_state (greeted h w dev cfg cid ip) = Connected"
  by (simp add: greeted_def set_request_host_def)

lemma open_session_Inr:
  assumes "open_connected_session h w dev cfg cid = (Inr s, lk)"
  shows "ss_state s = Connected" and "lk_conn lk = (opened cid)\<lparr>conn_cseq := 1\<rparr>"
    and "lk_log lk = [(get_info, Some (clear_text cid get_info 1))]"
    and "\<exists>x. hw_answers w = x # lk_answers lk" 
    and "\<exists>ip. select_best_address (addresses dev) = Some ip \<and> s = greeted h w dev cfg cid ip"
proof -
  have new: "on_new_session (set_connected (set_client_device_id cid (session_new u k r1 r2 dev cfg))) lk =
      (Inr ((set_client_device_id cid (session_new u k r1 r2 dev cfg))\<lparr>ss_state := Connected\<rparr>), lk)"
    for u k r1 r2 and lk :: link
    by (simp add: on_new_session_def set_connected_def set_client_device_id_def session_new_def)
  obtain lk0 resp ip where s: "rtsp_send h get_info lk0 = (Inr resp, lk)" "select_best_address (addresses dev) = Some ip"
      "s = greeted h w dev cfg cid ip"
    and lk0: "lk_conn lk0 = (opened cid)\<lparr>conn_cseq := 0\<rparr>" "lk_log lk0 = []" "lk_answers lk0 = hw_answers w"
    using assms
    by (cases "select_best_address (addresses dev)"; cases "hw_accepted w")
      (auto simp: open_connected_session_def connection_connect_def new bind_in_Inr opened_def
        connection_new_def greeted_def add_default_rtsp_headers_def add_session_header_def Let_def)
  from clear_send_opened [OF s(1) lk0(1)] s(2,3) lk0
  show "ss_state s = Connected" "lk_conn lk = (opened cid)\<lparr>conn_cseq := 1\<rparr>"
    "\<exists>ip. select_best_address (addresses dev) = Some ip \<and> s = greeted h w dev cfg cid ip"
    "lk_log lk = [(get_info, Some (clear_text cid get_info 1))]" "\<exists>x. hw_answers w = x # lk_answers lk"
    by auto
qed

text \<open>The pairing, from a session that has sent M1: the receiver's M4 carries the proof the client
  expects, and the session holds the keys of the common secret.\<close>

lemma pairing_exchange_Inr:
  assumes "pairing_exchange h env cid m1 p lk = (Inr p', lk')"
    and "lk_conn lk = (opened cid)\<lparr>conn_cseq := 1\<rparr>"
    and "transient_setup p = Some t" and "transient_state p = WaitingM2" and "ps_client t = Some cl"
  obtains pr m4 v keys where "proof_for env cl pr" "\<exists>x2 x3 xs. lk_answers lk = x2 # x3 # xs \<and> says x3 m4"
    "tlv_parse m4 = Inr v" "tlv_error v = None" "tlv_state v = Some 4"
    "tlv_get v Proof = Some (expected_server_proof pr)"
    "derive_control_keys (pe_hkdf env) (shared_secret pr) = Inr keys" "session_keys p' = Some keys"
    "lk_conn lk' = (opened cid)\<lparr>conn_cseq := 3\<rparr>"
    "lk_log lk' = lk_log lk @
       (let r2 = pair_setup_request m1 cid HKP_TRANSIENT;
            r3 = pair_setup_request (tlv_encode (m3_tlv cl pr)) cid HKP_TRANSIENT
        in [(r2, Some (clear_text cid r2 2)), (r3, Some (clear_text cid r3 3))])"
    "\<exists>x2 x3. lk_answers lk = x2 # x3 # lk_answers lk'"
proof -
  obtain resp2 lk2 where 2: "rtsp_send h (pair_setup_request m1 cid HKP_TRANSIENT) lk = (Inr resp2, lk2)"
    and r2: "(case continue_transient_pairing env p (response_body resp2) of (m3, pairing) \<Rightarrow>
       bind_in (from_res m3 lk2) (\<lambda>m3 lk. case m3 of None \<Rightarrow> (Inr pairing, lk)
        | Some m3_data \<Rightarrow>
            bind_in (rtsp_send h (pair_setup_request m3_data cid HKP_TRANSIENT) lk) (\<lambda>m4_resp lk.
              let (m5, pairing) = continue_transient_pairing env pairing (response_body m4_resp) in
            bind_in (from_res m5 lk) (\<lambda>_ lk. (Inr pairing, lk))))) = (Inr p', lk')"
    using assms(1) by (auto simp: pairing_exchange_def bind_in_Inr [of "rtsp_send _ _ _"] Let_def)
  have c2: "continue_transient_pairing env p b = continue_m2 env p t b" for b
    using assms(3,4) by (simp add: continue_transient_pairing_def)
  show ?thesis
  proof (cases rule: continue_m2_cases [of env p t "response_body resp2"])
    case (err e)
    with r2 c2 show ?thesis by simp
  next
    case (ok cl' pr ch v raw)
    then have [simp]: "cl' = cl" using assms(5) by simp
    have pf: "proof_for env cl pr" using ok pad_server_key_length by (auto simp: proof_for_def)
    let ?p2 = "p\<lparr>transient_setup := Some (t\<lparr>ps_proof := Some pr, ps_state := M3Sent\<rparr>), transient_state := WaitingM4\<rparr>"
    let ?t2 = "t\<lparr>ps_proof := Some pr, ps_state := M3Sent\<rparr>"
    from r2 obtain resp4 m5 where 4: "rtsp_send h (pair_setup_request (tlv_encode (m3_tlv cl pr)) cid HKP_TRANSIENT) lk2 = (Inr resp4, lk')"
      and r4: "fst (continue_transient_pairing env ?p2 (response_body resp4)) = Inr m5"
        "p' = snd (continue_transient_pairing env ?p2 (response_body resp4))"
      by (auto simp: c2 ok(11) bind_in_Inr from_res_Inr split_def Let_def)
    have c4: "continue_transient_pairing env ?p2 b = continue_m4 env ?p2 ?t2 b" for b
      by (simp add: continue_transient_pairing_def)
    note send2 = clear_send_opened [OF 2 assms(2)]
    note send3 = clear_send_opened [OF 4 send2(1)]
    show ?thesis
    proof (cases rule: continue_m4_cases [of env ?p2 ?t2 "response_body resp4"])
      case (err e st)
      with r4(1) c4 show ?thesis by simp
    next
      case m4: (ok cl'' pr' v' keys)
      have "cl'' = cl" "pr' = pr" using m4(2,3) assms(5) by simp_all
      moreover have "session_keys p' = Some keys" using r4(2) m4(9) c4 by simp
      moreover have "\<exists>x2 x3 xs. lk_answers lk = x2 # x3 # xs \<and> says x3 (response_body resp4)"
        "\<exists>x2 x3. lk_answers lk = x2 # x3 # lk_answers lk'"
        using send2(3) send3(3) by auto
      ultimately show ?thesis
        using m4(4-8) pf send2(2) send3(1,2) by (intro that [of pr "response_body resp4" v' keys]) (simp_all add: Let_def)
    qed
  qed
qed

lemma on_new_session_Inr: "on_new_session r lk = (Inr s, lk') \<longleftrightarrow> (\<exists>x. r = (Inr x, s)) \<and> lk' = lk"
  by (auto simp: on_new_session_def split: prod.splits sum.splits)

text \<open>The last step: the cipher is installed, \<open>OPTIONS\<close> goes out sealed, the session is paired.\<close>

lemma finish_handshake_steps:
  assumes "finish_handshake h dev cfg s p lk = (Inr c, lk')" and "session_keys p = Some keys"
  obtains res where
    "rtsp_send h options_request (lk\<lparr>lk_conn := install_control_cipher keys (lk_conn lk)\<rparr>) = (res, lk')"
    "ss_state s = Connected" "c = from_paired_parts dev lk' (s\<lparr>ss_state := Paired\<rparr>) cfg"
proof -
  let ?lk = "lk\<lparr>lk_conn := install_control_cipher keys (lk_conn lk)\<rparr>"
  obtain s' where 1: "probe_encrypted_options h ?lk = (Inr (), lk')"
      "set_paired s = (Inr (), s')" "c = from_paired_parts dev lk' s' cfg"
    using assms(1,2)
    by (auto simp: finish_handshake_def take_session_keys_def bind_in_Inr on_new_session_Inr Let_def)
  obtain res where send: "rtsp_send h options_request ?lk = (res, lk')"
    using 1(1) by (auto simp: probe_encrypted_options_def best_effort_def
        split: prod.splits sum.splits fault.splits)
  from 1(2,3) that [OF send] show ?thesis by (auto simp: set_paired_def wrong_state_def split: if_splits)
qed

lemma finish_handshake_Inr:
  assumes "finish_handshake h dev cfg s p lk = (Inr c, lk')" and "session_keys p = Some keys"
    and "lk_conn lk = (opened cid)\<lparr>conn_cseq := 3\<rparr>"
  shows "conn_state c = Paired" and "cn_link c = lk'"
    and "\<exists>cc. conn_cipher (lk_conn lk') = Some cc \<and> write_key cc = sk_write_key keys \<and>
      read_key cc = sk_read_key keys"
    and "\<exists>wire. lk_log lk' = lk_log lk @ [(options_request, wire)] \<and>
      (case wire of None \<Rightarrow> True
       | Some b \<Rightarrow> fst (control_encrypt (h_aead h) (control_cipher_new (sk_write_key keys) (sk_read_key keys))
           (clear_text cid options_request 4)) = Inr b)"
proof -
  let ?lk = "lk\<lparr>lk_conn := install_control_cipher keys (lk_conn lk)\<rparr>"
  obtain res where send: "rtsp_send h options_request ?lk = (res, lk')"
    and c: "c = from_paired_parts dev lk' (s\<lparr>ss_state := Paired\<rparr>) cfg"
    by (rule finish_handshake_steps [OF assms(1,2)])
  from c show "conn_state c = Paired" "cn_link c = lk'" by (simp_all add: from_paired_parts_def)
  have cc: "conn_cipher (lk_conn ?lk) = Some (control_cipher_new (sk_write_key keys) (sk_read_key keys))"
    "conn_stream (lk_conn ?lk)" "lk_log ?lk = lk_log lk"
    "request_serialize (with_session_headers (lk_conn ?lk) options_request) (conn_cseq (lk_conn ?lk) + 1) =
       clear_text cid options_request 4"
    by (simp_all add: install_control_cipher_def set_cipher_def assms(3) clear_text_def)
  from sealed_send [OF send cc(1,2)]
  show "\<exists>cc. conn_cipher (lk_conn lk') = Some cc \<and> write_key cc = sk_write_key keys \<and>
      read_key cc = sk_read_key keys"
    and "\<exists>wire. lk_log lk' = lk_log lk @ [(options_request, wire)] \<and>
      (case wire of None \<Rightarrow> True
       | Some b \<Rightarrow> fst (control_encrypt (h_aead h) (control_cipher_new (sk_write_key keys) (sk_read_key keys))
           (clear_text cid options_request 4)) = Inr b)"
    unfolding cc(3,4) by (auto simp: control_cipher_new_def)
qed

lemma handshake_steps:
  assumes "connect_with_pin h w dev cfg pin = Some (Inr c, lk)"
  obtains s lk1 cl p2 lk2 where
    "open_connected_session h w dev cfg (generate_device_id (hw_device_id w)) = (Inr s, lk1)"
    "srp_client_new (pe_group (hw_pair w)) (hw_draws w) (as_bytes ''Pair-Setup'') (as_bytes pin) = Some cl"
    "pairing_exchange h (hw_pair w) (generate_device_id (hw_device_id w)) (tlv_encode pair_setup_m1_with_flags)
       (pairing_session_new\<lparr>transient_setup := Some \<lparr>ps_state = M1Sent, ps_pin = pin, ps_client = Some cl,
          ps_proof = None\<rparr>, transient_state := WaitingM2\<rparr>) lk1 = (Inr p2, lk2)"
    "finish_handshake h dev cfg s p2 lk2 = (Inr c, lk)"
proof -
  obtain s lk1 where 1: "open_connected_session h w dev cfg (generate_device_id (hw_device_id w)) = (Inr s, lk1)"
    using assms by (auto simp: connect_with_pin_def Let_def split: prod.splits sum.splits)
  show ?thesis
    by (cases rule: start_cases [of "hw_pair w" "hw_draws w" pairing_session_new pin])
      (use assms 1 in \<open>auto simp: connect_with_pin_def bind_in_Inr pairing_session_new_def
        intro: that [OF 1]\<close>)
qed

lemma connected_fields:
  assumes "connect_with_pin h w dev cfg pin = Some (Inr c, lk)"
  shows "conn_state c = Paired" "cn_device c = dev" "cn_config c = cfg" "cn_playback c = PbStopped"
    "cn_streamer c = None" "\<not> cn_listener c"
proof -
  obtain s lk1 cl p2 lk2 where "finish_handshake h dev cfg s p2 lk2 = (Inr c, lk)"
    by (rule handshake_steps [OF assms])
  then have "\<exists>s lk. c = from_paired_parts dev lk s cfg \<and> ss_state s = Paired"
    by (auto simp: finish_handshake_def bind_in_Inr on_new_session_Inr set_paired_def wrong_state_def Let_def
        split: if_splits)
  then show "conn_state c = Paired" "cn_device c = dev" "cn_config c = cfg" "cn_playback c = PbStopped"
    "cn_streamer c = None" "\<not> cn_listener c"
    by (auto simp: from_paired_parts_def)
qed

section \<open>A receiver that answers\<close>

text \<open>An answer in the clear: status 200, the length of the body and the body.\<close>

definition reply :: "bytes \<Rightarrow> exchange" where
  "reply b = \<lparr> ex_written = True,
     ex_input = response_bytes 200 ''OK'' [(''Content-Length'', fmt_dec (length b))] b,
     ex_eof = False, ex_in_time = True \<rparr>"

lemma length_fmt_dec: "length (fmt_dec n) \<le> n + 1"
proof -
  have "length (fmt_radix 10 k) \<le> k + 1" for k
  proof (induction k rule: less_induct)
    case (less k)
    show ?case
      using less [of "k div 10"] by (subst fmt_radix.simps) (auto simp: Let_def)
  qed
  then show ?thesis by (simp add: fmt_dec_def)
qed

lemma reply_parses:
  assumes "length b < 2 ^ 32"
  shows "read_plaintext_response (ex_input (reply b)) (ex_eof (reply b)) = Inr (ex_input (reply b))"
    and "\<exists>resp. response_parse (ex_input (reply b)) = Inr resp \<and> response_body resp = b"
proof -
  let ?kvs = "[(''Content-Length'', fmt_dec (length b))]"
  have clean: "\<forall>kv \<in> set ?kvs. header_clean kv" using header_clean_fixed by simp
  have u: "unat (word_of_nat (length b) :: u64) = length b"
    using assms by (simp add: unsigned_of_nat take_bit_nat_eq_self)
  have parse: "(parse_dec (fmt_dec (length b)) :: u64 option) = Some (word_of_nat (length b))"
    using parse_dec_fmt [of "word_of_nat (length b) :: u64"] u by simp
  have colon: "CHR '':'' \<notin> set (status_line_text 200 ''OK'')"
    using fmt_dec_digits [of "CHR '':''" 200] by (auto simp: status_line_text_def)
  have t: "trim ''Content-Length'' = ''Content-Length''" "trim (fmt_dec (length b)) = fmt_dec (length b)"
    using header_clean_fixed(2) [of "length b"] by (simp_all add: header_clean_def)
  have scan: "(case scan_content_length (status_line_text 200 ''OK'' # map header_text ?kvs) of
      None \<Rightarrow> 0 | Some n \<Rightarrow> unat n) = length b"
    using colon header_split [of "(''Content-Length'', fmt_dec (length b))"] clean
    by (simp add: trim_space t parse u eq_ignore_ascii_case_def)
  show "read_plaintext_response (ex_input (reply b)) (ex_eof (reply b)) = Inr (ex_input (reply b))"
    unfolding reply_def exchange.simps
    by (rule plain_response [OF _ clean scan]) (use assms in simp_all)
  have l: "length (fmt_dec (unat (200 :: u16))) \<le> 201" using length_fmt_dec [of 200] by simp
  have "length (response_bytes 200 ''OK'' ?kvs b) < 2 ^ 64"
    using l length_fmt_dec [of "length b"] assms
    by (simp add: response_bytes_def head_text_def header_text_def status_line_text_def crlf_def)
  moreover have "unat (content_length_of (fold (\<lambda>(k, v). hm_insert k v) ?kvs [])) = length b"
    by (simp add: content_length_of_def find_header_def hm_insert_def eq_ignore_ascii_case_def parse u)
  ultimately obtain resp where "response_parse (response_bytes 200 ''OK'' ?kvs b) = Inr resp"
      "rs_body resp = (if b = [] then None else Some b)"
    using response_parse_gives [of "''OK''" ?kvs b 200] clean by auto
  then show "\<exists>resp. response_parse (ex_input (reply b)) = Inr resp \<and> response_body resp = b"
    by (auto simp: reply_def response_body_def)
qed

lemma clear_reply:
  assumes "lk_conn lk = (opened cid)\<lparr>conn_cseq := n\<rparr>" and "lk_answers lk = reply b # xs"
    and "length b < 2 ^ 32"
  obtains resp lk' where "rtsp_send h r lk = (Inr resp, lk')" "response_body resp = b"
    "lk_conn lk' = (opened cid)\<lparr>conn_cseq := n + 1\<rparr>" "lk_answers lk' = xs"
proof -
  obtain resp where r: "response_parse (ex_input (reply b)) = Inr resp" "response_body resp = b"
    using reply_parses(2) [OF assms(3)] by blast
  have w: "ex_written (reply b)" by (simp add: reply_def)
  show ?thesis
    by (rule that [of resp "lk\<lparr>lk_conn := (opened cid)\<lparr>conn_cseq := n + 1\<rparr>, lk_answers := xs,
        lk_log := lk_log lk @ [(r, Some (clear_text cid r (n + 1)))]\<rparr>"])
      (simp_all add: rtsp_send_def next_answer_def assms(1,2) connection_send_def next_cseq_def
        wire_data_def read_response_def reply_parses(1) [OF assms(3)] r w clear_text_def Let_def)
qed

lemma open_session_reply:
  assumes "select_best_address (addresses dev) = Some ip" and "hw_accepted w"
    and "hw_answers w = reply info # xs" and "length info < 2 ^ 32"
  obtains s lk where "open_connected_session h w dev cfg cid = (Inr s, lk)" "ss_state s = Connected"
    "lk_conn lk = (opened cid)\<lparr>conn_cseq := 1\<rparr>" "lk_answers lk = xs"
proof -
  let ?lk = "\<lparr> lk_conn = opened cid, lk_answers = hw_answers w, lk_log = [] \<rparr>"
  have c: "lk_conn ?lk = (opened cid)\<lparr>conn_cseq := 0\<rparr>"
    by (simp add: opened_def add_default_rtsp_headers_def add_session_header_def connection_new_def Let_def)
  obtain resp lk' where g: "rtsp_send h get_info ?lk = (Inr resp, lk')"
      "lk_conn lk' = (opened cid)\<lparr>conn_cseq := 1\<rparr>" "lk_answers lk' = xs"
    by (rule clear_reply [OF c _ assms(4), where h = h and r = get_info and xs = xs])
      (use assms(3) in simp_all)
  then show ?thesis
    by (intro that [of "set_request_host (h_show_ip h ip) ((set_client_device_id cid
          (session_new (hw_uuid w) (hw_key w) (hw_r1 w) (hw_r2 w) dev cfg))\<lparr>ss_state := Connected\<rparr>)" lk'])
      (simp_all add: open_connected_session_def assms(1,2) connection_connect_def on_new_session_def
        set_connected_def set_client_device_id_def session_new_def set_request_host_def Let_def opened_def)
qed

text \<open>A sealed request that is not answered.\<close>

lemma silent_sealed_send:
  assumes "conn_cipher (lk_conn lk) = Some cc" and "next_answer lk = silence" and "conn_stream (lk_conn lk)"
  shows "\<exists>e lk' cc'. rtsp_send h r lk = (Inl (Fail e), lk') \<and> lk_answers lk' = tl (lk_answers lk) \<and>
    conn_stream (lk_conn lk') \<and> conn_cipher (lk_conn lk') = Some cc' \<and> write_key cc' = write_key cc \<and>
    read_key cc' = read_key cc \<and> decrypt_counter cc' = decrypt_counter cc"
proof -
  have "read_blocks a False cc [] [] = (Inl TimedOut, cc, [])" for a cc
    by (simp add: read_blocks.simps starve_def)
  moreover obtain res c1 where e: "control_encrypt (h_aead h) cc
      (request_serialize (with_session_headers (lk_conn lk) r) (conn_cseq (lk_conn lk) + 1)) = (res, c1)" by fastforce
  moreover have "write_key c1 = write_key cc" "read_key c1 = read_key cc" "decrypt_counter c1 = decrypt_counter cc"
    using e encrypt_loop_frame by (auto simp: control_encrypt_def split: if_splits)
  ultimately show ?thesis
    using assms
    by (cases res) (auto simp: rtsp_send_def silence_def connection_send_def next_cseq_def wire_data_def
        read_response_def read_error_value_def Let_def)
qed

lemma finish_silent:
  assumes "ss_state s = Connected" and "session_keys p = Some keys"
    and "lk_conn lk = (opened cid)\<lparr>conn_cseq := 3\<rparr>" and "next_answer lk = silence"
  shows "\<exists>c lk' cc. finish_handshake h dev cfg s p lk = (Inr c, lk') \<and> lk_answers lk' = tl (lk_answers lk) \<and>
    conn_stream (lk_conn lk') \<and> conn_cipher (lk_conn lk') = Some cc \<and> read_key cc = sk_read_key keys \<and>
    decrypt_counter cc = 0"
proof -
  let ?lk = "lk\<lparr>lk_conn := install_control_cipher keys (lk_conn lk)\<rparr>"
  obtain e lk' cc where "rtsp_send h options_request ?lk = (Inl (Fail e), lk')" "lk_answers lk' = tl (lk_answers lk)"
      "conn_stream (lk_conn lk')" "conn_cipher (lk_conn lk') = Some cc" "read_key cc = sk_read_key keys"
      "decrypt_counter cc = 0"
    using silent_sealed_send [of ?lk _ h options_request] assms(4)
    by (auto simp: install_control_cipher_def set_cipher_def assms(3) control_cipher_new_def next_answer_def)
  then show ?thesis
    using assms(1,2)
    by (simp add: finish_handshake_def take_session_keys_def probe_encrypted_options_def best_effort_def
        on_new_session_def set_paired_def Let_def)
qed

text \<open>The whole handshake with a receiver that knows the PIN and does not answer \<open>OPTIONS\<close>.\<close>

lemma honest_connect:
  assumes "select_best_address (addresses dev) = Some ip" and "hw_accepted w"
    and "hw_answers w = reply info # reply second # reply fourth # later"
    and "later = [] \<or> hd later = silence"
    and "length info < 2 ^ 32" and "length second < 2 ^ 32" and "length fourth < 2 ^ 32"
    and "srp_client_new (pe_group (hw_pair w)) (hw_draws w) (as_bytes ''Pair-Setup'') (as_bytes pin) = Some cl"
    and "A = srp_public_key cl"
    and "srp_group (pe_group (hw_pair w))" and "length slt = 16"
    and "x = compute_x (pe_sha (hw_pair w)) slt (as_bytes ''Pair-Setup'') (as_bytes pin)"
    and "v = server_verifier (pe_group (hw_pair w)) x"
    and "B = server_public (pe_group (hw_pair w)) (compute_k (pe_sha (hw_pair w)) (pe_group (hw_pair w))) v b"
    and "B mod srp_n (pe_group (hw_pair w)) \<noteq> 0"
    and "length raw \<le> 384" and "be_nat raw = B"
    and "u = compute_u (pe_sha (hw_pair w)) A B" and "u \<noteq> 0"
    and "K = pe_sha (hw_pair w) (pad_to_n (server_secret (pe_group (hw_pair w)) A v u b))"
    and "derive_control_keys (pe_hkdf (hw_pair w)) K = Inr keys"
    and "second = tlv_encode (m2_tlv slt raw)"
    and "M = compute_m1 (pe_sha (hw_pair w)) (pe_group (hw_pair w)) (as_bytes ''Pair-Setup'') slt A B K"
    and "fourth = tlv_encode (m4_tlv (pe_sha (hw_pair w) (pad_to_n A @ M @ K)))"
  shows "\<exists>c lk cc. connect_with_pin h w dev cfg pin = Some (Inr c, lk) \<and> conn_state c = Paired \<and>
    conn_cipher (lk_conn lk) = Some cc \<and> write_key cc = sk_write_key keys \<and> read_key cc = sk_read_key keys \<and>
    decrypt_counter cc = 0 \<and> conn_stream (lk_conn lk) \<and> lk_answers lk = tl later \<and> cn_link c = lk"
proof -
  let ?cid = "generate_device_id (hw_device_id w)"
  let ?t = "\<lparr>ps_state = M1Sent, ps_pin = pin, ps_client = Some cl, ps_proof = None\<rparr>"
  let ?p = "pairing_session_new\<lparr>transient_setup := Some ?t, transient_state := WaitingM2\<rparr>"
  have start: "start_transient_pairing_with_pin (hw_pair w) (hw_draws w) pairing_session_new pin =
      Some (Inr (tlv_encode pair_setup_m1_with_flags), ?p)"
    by (simp add: start_transient_pairing_with_pin_def generate_m1_def new_transient_with_pin_def assms(8)
        pairing_session_new_def)
  obtain m3 s2 s3 where run: "continue_transient_pairing (hw_pair w) ?p second = (Inr (Some m3), s2)"
      "continue_transient_pairing (hw_pair w) s2 fourth = (Inr None, s3)" "session_keys s3 = Some keys"
    using honest_run [OF start _ _ assms(9-21), of ?t] unfolding assms(22-24) by (auto simp: pairing_session_new_def)
  obtain s lk1 where 1: "open_connected_session h w dev cfg ?cid = (Inr s, lk1)" "ss_state s = Connected"
      "lk_conn lk1 = (opened ?cid)\<lparr>conn_cseq := 1\<rparr>" "lk_answers lk1 = reply second # reply fourth # later"
    by (rule open_session_reply [OF assms(1-3,5)])
  obtain resp2 lk2 where 2: "rtsp_send h (pair_setup_request (tlv_encode pair_setup_m1_with_flags) ?cid HKP_TRANSIENT) lk1 =
      (Inr resp2, lk2)" "response_body resp2 = second" "lk_conn lk2 = (opened ?cid)\<lparr>conn_cseq := 1 + 1\<rparr>"
      "lk_answers lk2 = reply fourth # later"
    by (rule clear_reply [OF 1(3,4) assms(6)])
  obtain resp4 lk3 where 3: "rtsp_send h (pair_setup_request m3 ?cid HKP_TRANSIENT) lk2 =
      (Inr resp4, lk3)" "response_body resp4 = fourth" "lk_conn lk3 = (opened ?cid)\<lparr>conn_cseq := 1 + 1 + 1\<rparr>"
      "lk_answers lk3 = later"
    by (rule clear_reply [OF 2(3,4) assms(7)])
  have "pairing_exchange h (hw_pair w) ?cid (tlv_encode pair_setup_m1_with_flags) ?p lk1 = (Inr s3, lk3)"
    by (simp add: pairing_exchange_def 2(1,2) 3(1,2) run)
  moreover have "next_answer lk3 = silence" using 3(4) assms(4) by (cases later) (simp_all add: next_answer_def)
  then obtain c lk4 cc where 4: "finish_handshake h dev cfg s s3 lk3 = (Inr c, lk4)" "lk_answers lk4 = tl later"
      "conn_stream (lk_conn lk4)" "conn_cipher (lk_conn lk4) = Some cc" "decrypt_counter cc = 0"
    using finish_silent [OF 1(2) run(3), of lk3 ?cid h dev cfg] 3(3,4) by auto
  ultimately have "connect_with_pin h w dev cfg pin = Some (Inr c, lk4)"
    by (simp add: connect_with_pin_def 1(1) start 4(1))
  moreover have "conn_cseq (lk_conn lk3) = 3" by (simp add: 3(3))
  ultimately show ?thesis
    using finish_handshake_Inr [OF 4(1) run(3), of ?cid] 3(3) 4 by auto
qed

section \<open>A sample receiver\<close>

definition sample_proof :: bytes where
  "sample_proof = compute_m1 toy_sha toy_params (as_bytes ''Pair-Setup'') (replicate 16 1) 17 9 toy_secret"

definition sample_m4 :: bytes where
  "sample_m4 = tlv_encode (m4_tlv (toy_sha (pad_to_n 17 @ sample_proof @ toy_secret)))"

definition sample_shake :: "exchange list \<Rightarrow> shake" where
  "sample_shake later = \<lparr> hw_pair = toy_env, hw_draws = [[7]], hw_device_id = [1, 2, 3, 4, 5, 6], hw_uuid = ''u'',
     hw_key = replicate 32 5, hw_r1 = 1, hw_r2 = 2, hw_accepted = True,
     hw_answers = reply [1, 2] # reply toy_m2 # reply sample_m4 # later \<rparr>"

lemma sample_lengths: "length toy_m2 < 2 ^ 32" "length sample_m4 < 2 ^ 32"
proof -
  have "length toy_m2 < 300" unfolding toy_m2_def by code_simp
  then show "length toy_m2 < 2 ^ 32" by simp
  have "length (tlv_encode (m4_tlv (replicate 63 0 @ [3]))) < 300" by code_simp
  then show "length sample_m4 < 2 ^ 32" by (simp add: sample_m4_def toy_sha_def)
qed

lemma sample_address: "select_best_address (addresses sample_receiver) = Some (V4 9)"
  by (simp add: sample_receiver_addresses select_best_address_def)

definition sample_keys :: session_keys where
  "sample_keys = \<lparr>sk_write_key = replicate 32 0, sk_read_key = replicate 32 0\<rparr>"

lemma sample_shake_facts:
  "hw_accepted (sample_shake later)" "hw_answers (sample_shake later) = reply [1, 2] # reply toy_m2 # reply sample_m4 # later"
  "hw_pair (sample_shake later) = toy_env" "hw_draws (sample_shake later) = [[7]]"
  by (simp_all add: sample_shake_def)

lemma sample_pairing_facts:
  "srp_client_new (pe_group (hw_pair (sample_shake later))) (hw_draws (sample_shake later)) (as_bytes ''Pair-Setup'')
     (as_bytes ''3939'') = Some toy_client"
  "17 = srp_public_key toy_client" "srp_group (pe_group (hw_pair (sample_shake later)))"
  "3 = compute_x (pe_sha (hw_pair (sample_shake later))) (replicate 16 1) (as_bytes ''Pair-Setup'') (as_bytes ''3939'')"
  "10 = server_verifier (pe_group (hw_pair (sample_shake later))) 3"
  "9 = server_public (pe_group (hw_pair (sample_shake later)))
     (compute_k (pe_sha (hw_pair (sample_shake later))) (pe_group (hw_pair (sample_shake later)))) 10 2"
  "9 mod srp_n (pe_group (hw_pair (sample_shake later))) \<noteq> 0"
  "3 = compute_u (pe_sha (hw_pair (sample_shake later))) 17 9"
  "toy_secret = pe_sha (hw_pair (sample_shake later)) (pad_to_n (server_secret (pe_group (hw_pair (sample_shake later))) 17 10 3 2))"
  "derive_control_keys (pe_hkdf (hw_pair (sample_shake later))) toy_secret = Inr sample_keys"
  "sample_proof = compute_m1 (pe_sha (hw_pair (sample_shake later))) (pe_group (hw_pair (sample_shake later)))
     (as_bytes ''Pair-Setup'') (replicate 16 1) 17 9 toy_secret"
  "sample_m4 = tlv_encode (m4_tlv (pe_sha (hw_pair (sample_shake later)) (pad_to_n 17 @ sample_proof @ toy_secret)))"
  unfolding sample_shake_facts(3,4)
  by (simp_all add: toy_facts toy_group toy_values server_verifier_def server_public_def toy_secret_def
      toy_client_new sample_keys_def sample_proof_def sample_m4_def)

lemma sample_connect:
  assumes "later = [] \<or> hd later = silence"
  shows "\<exists>c lk cc. connect_with_pin h (sample_shake later) sample_receiver cfg ''3939'' = Some (Inr c, lk) \<and>
    conn_state c = Paired \<and> conn_cipher (lk_conn lk) = Some cc \<and>
    write_key cc = sk_write_key sample_keys \<and> read_key cc = sk_read_key sample_keys \<and>
    decrypt_counter cc = 0 \<and> conn_stream (lk_conn lk) \<and> lk_answers lk = tl later \<and> cn_link c = lk"
  by (rule honest_connect [where cl = toy_client and A = 17 and x = 3 and v = 10 and b = 2
        and u = 3 and B = 9 and slt = "replicate 16 1" and raw = "[9]" and K = toy_secret
        and info = "[1, 2]" and M = sample_proof, OF sample_address sample_shake_facts(1,2) assms _ sample_lengths
        sample_pairing_facts(1-3) _ sample_pairing_facts(4-7) _ _ sample_pairing_facts(8) _
        sample_pairing_facts(9,10) toy_m2_def sample_pairing_facts(11,12)]) (simp_all add: toy_values)

section \<open>A receiver that answers on the sealed channel\<close>

text \<open>The link after the handshake: the key the receiver seals with, how many blocks it has sealed, and the
  answers to come.\<close>

definition sealed_link :: "bytes \<Rightarrow> u64 \<Rightarrow> exchange list \<Rightarrow> link \<Rightarrow> bool" where
  "sealed_link k n xs lk \<longleftrightarrow> conn_stream (lk_conn lk) \<and> lk_answers lk = xs \<and>
     (\<exists>cc. conn_cipher (lk_conn lk) = Some cc \<and> read_key cc = k \<and> decrypt_counter cc = n)"

text \<open>An empty answer with status 200, sealed as the \<open>n\<close>-th block.\<close>

definition ok_response :: bytes where
  "ok_response = response_bytes 200 ''OK'' [] []"

definition sealed_reply :: "bytes \<Rightarrow> u64 \<Rightarrow> exchange" where
  "sealed_reply k n = \<lparr> ex_written = True,
     ex_input = sealed_block ok_response (ok_response @
       plain_tag k (build_nonce_from_counter n) (to_le (word_of_nat (length ok_response) :: u16))),
     ex_eof = False, ex_in_time = True \<rparr>"

lemma ok_response_facts: "length ok_response < 1024" "complete_message ok_response"
  "\<exists>resp. response_parse ok_response = Inr resp \<and> hm_get (rs_headers resp) k = None"
proof -
  show len: "length ok_response < 1024"
    by (simp add: ok_response_def response_bytes_def head_text_def status_line_text_def crlf_def fmt_dec_def
        fmt_radix.simps)
  have "CHR '':'' \<notin> set (status_line_text 200 ''OK'')"
    using fmt_dec_digits [of "CHR '':''" 200] by (auto simp: status_line_text_def)
  then show "complete_message ok_response"
    unfolding ok_response_def
    by (intro complete_response) (use len in \<open>simp_all add: ok_response_def\<close>)
  have "content_length_of [] = 0" by (simp add: content_length_of_def find_header_def)
  then show "\<exists>resp. response_parse ok_response = Inr resp \<and> hm_get (rs_headers resp) k = None"
    using response_parse_gives [of "''OK''" "[]" "[]" 200] len by (auto simp: ok_response_def)
qed

lemma plain_encrypt: "p \<noteq> [] \<Longrightarrow> \<exists>w c'. control_encrypt plain_aead c p = (Inr w, c')"
proof -
  have "\<exists>w c'. encrypt_loop plain_aead c p out = (Inr w, c')" for c out
  proof (induction "length p" arbitrary: p c out rule: less_induct)
    case less
    show ?case
    proof (cases "p = []")
      case False
      then have "length (drop MAX_BLOCK p) < length p" by (simp add: MAX_BLOCK_def)
      from less [OF this] False show ?thesis
        by (subst encrypt_loop.simps) (simp add: plain_aead_def Let_def)
    qed (simp add: encrypt_loop.simps)
  qed
  then show "p \<noteq> [] \<Longrightarrow> ?thesis" by (simp add: control_encrypt_def)
qed

lemma request_not_empty: "request_serialize r n \<noteq> []"
  by (cases "rq_method r") (simp_all add: request_serialize_def request_head_def as_bytes_def)

lemma sealed_answer:
  assumes "sealed_link k n (sealed_reply k n # xs) lk" and "h_aead h = plain_aead"
  shows "\<exists>resp lk'. rtsp_send h r lk = (Inr resp, lk') \<and> hm_get (rs_headers resp) ''Session'' = None \<and>
    sealed_link k (n + 1) xs lk'"
proof -
  obtain cc where cc: "conn_cipher (lk_conn lk) = Some cc" "read_key cc = k" "decrypt_counter cc = n"
    and lk: "conn_stream (lk_conn lk)" "lk_answers lk = sealed_reply k n # xs"
    using assms(1) by (auto simp: sealed_link_def)
  obtain w c1 where e: "control_encrypt plain_aead cc
      (request_serialize (with_session_headers (lk_conn lk) r) (conn_cseq (lk_conn lk) + 1)) = (Inr w, c1)"
    using plain_encrypt [OF request_not_empty] by blast
  have c1: "read_key c1 = k" "decrypt_counter c1 = n"
    using encrypt_loop_frame e cc by (auto simp: control_encrypt_def split: if_splits)
  let ?ct = "ok_response @ plain_tag k (build_nonce_from_counter n) (to_le (word_of_nat (length ok_response) :: u16))"
  have "read_blocks plain_aead False c1 [] (sealed_block ok_response ?ct @ []) =
      (Inr ok_response, c1\<lparr>decrypt_counter := decrypt_counter c1 + 1\<rparr>, [])"
    using read_blocks_step [of ok_response ?ct plain_aead c1 ok_response "[]" "[]" False "[]"]
      ok_response_facts(1,2) c1
    by (simp add: MAX_BLOCK_def plain_aead_def)
  moreover obtain resp where "response_parse ok_response = Inr resp" "hm_get (rs_headers resp) ''Session'' = None"
    using ok_response_facts(3) by blast
  ultimately show ?thesis
    using cc lk e c1 assms(2)
    by (simp add: rtsp_send_def next_answer_def sealed_reply_def connection_send_def next_cseq_def wire_data_def
        read_response_def sealed_link_def Let_def)
qed

lemma sealed_silence:
  assumes "sealed_link k n (silence # xs) lk"
  shows "\<exists>lk'. rtsp_send_timeout h r lk = (None, lk') \<and> sealed_link k n xs lk'"
proof -
  obtain cc where cc: "conn_cipher (lk_conn lk) = Some cc" "read_key cc = k" "decrypt_counter cc = n"
    and lk: "conn_stream (lk_conn lk)" "lk_answers lk = silence # xs"
    using assms(1) by (auto simp: sealed_link_def)
  have same: "lk\<lparr>lk_answers := silence # xs\<rparr> = lk" using lk(2) by (cases lk) simp
  have next_: "next_answer lk = silence" "\<not> ex_in_time silence" by (simp_all add: next_answer_def lk silence_def)
  from silent_sealed_send [OF cc(1) next_(1) lk(1), of h r] lk cc show ?thesis
    by (auto simp: rtsp_send_timeout_def next_ same sealed_link_def)
qed

text \<open>A plist library whose answers know every stream type.\<close>

definition answering_plists :: plists where
  "answering_plists = toy_plists\<lparr>dec_phase2 := \<lambda>_. Inr \<lparr>r2_streams = map (\<lambda>ty.
     \<lparr>sr_stream_type = ty, sr_data_port = 6000, sr_control_port = 6001, sr_stream_id = 1\<rparr>) [96, 103, 110]\<rparr>\<rparr>"

definition answering_host :: host where
  "answering_host = sample_host\<lparr>h_plists := answering_plists, h_clock_id := Some (replicate 8 1)\<rparr>"

lemma answering_host_aead [simp]: "h_aead answering_host = plain_aead"
  by (simp add: answering_host_def sample_host_def)

lemma send_request_answered:
  assumes "sealed_link k n (sealed_reply k n # xs) (cn_link c)" and "h_aead h = plain_aead"
  obtains resp lk where "send_request h r c = (Inr resp, c\<lparr>cn_link := lk\<rparr>)" "sealed_link k (n + 1) xs lk"
    "session_headers (lk_conn lk) = session_headers (lk_conn (cn_link c))" "hm_get (rs_headers resp) ''Session'' = None"
  using sealed_answer [OF assms, of r] send_session_headers by (fastforce simp: send_request_def)

text \<open>A host whose plist library has the same answers, whatever it makes of the second request.\<close>

definition answering :: "host \<Rightarrow> bool" where
  "answering h \<longleftrightarrow> h_aead h = plain_aead \<and> h_events h \<and> h_control_port h = Inr 50001 \<and> h_ntp_port h = Inr 50000 \<and>
     enc_phase1 (h_plists h) = (\<lambda>_. Inr [1]) \<and> dec_phase1 (h_plists h) = dec_phase1 answering_plists \<and>
     dec_phase2 (h_plists h) = dec_phase2 answering_plists"

definition encodes_phase2 :: "host \<Rightarrow> rtsp_session \<Rightarrow> bool" where
  "encodes_phase2 h s \<longleftrightarrow>
     (\<exists>b. enc_phase2 (h_plists h) \<lparr>p2_streams = [phase2_stream (s\<lparr>local_control_port := 50001\<rparr>)]\<rparr> = Inr b)"

lemma answering_host_answers: "answering answering_host" "encodes_phase2 answering_host s"
  by (simp_all add: answering_def encodes_phase2_def answering_host_def sample_host_def answering_plists_def toy_plists_def)

lemma phase2_answered:
  assumes "ss_state s = SetupPhase1" and "answering h" and "ports s = Some p"
  shows "process_setup_phase2_response (h_plists h) b s =
    (Inr (), s\<lparr>ports := Some (p\<lparr>data_port := 6000, control_port := 6001\<rparr>), ss_state := session_state.Ready\<rparr>)"
  using assms
  by (cases "stream_type (ss_config s)")
    (simp_all add: process_setup_phase2_response_def answering_def answering_plists_def plist_codec_def)

lemma setup_answered:
  assumes "sealed_link k 0 (sealed_reply k 0 # sealed_reply k 1 # silence # xs) (cn_link c)"
    and "conn_state c = Paired" and "cn_device c = sample_receiver"
    and "answering h" and "encodes_phase2 h (cn_session c)"
  shows "\<exists>addr c'. setup_rtsp_media_session h port as c = (Inr addr, c') \<and> sealed_link k 2 xs (cn_link c') \<and>
    session_headers (lk_conn (cn_link c')) = hm_insert ''Session'' ''1'' (session_headers (lk_conn (cn_link c)))"
proof -
  have h: "h_aead h = plain_aead" "h_events h" "h_control_port h = Inr 50001"
    using assms(4) by (simp_all add: answering_def)
  have build: "build_setup_phase1 (h_plists h) s port (Some as) = Inr [1]" for s
    using assms(4) by (simp add: build_setup_phase1_def answering_def plist_codec_def)
  obtain resp1 lk1 where 1: "send_request h (setup_request (conn_uri c) [1]) c = (Inr resp1, c\<lparr>cn_link := lk1\<rparr>)"
      "sealed_link k (0 + 1) (sealed_reply k 1 # silence # xs) lk1"
      "session_headers (lk_conn lk1) = session_headers (lk_conn (cn_link c))" "hm_get (rs_headers resp1) ''Session'' = None"
    by (rule send_request_answered [OF assms(1) h(1)])
  let ?p = "\<lparr>data_port = 0, control_port = 0, event_port = 5000\<rparr>"
  let ?s2 = "(cn_session c)\<lparr>ports := Some ?p, ss_state := SetupPhase1\<rparr>"
  let ?c2 = "c\<lparr>cn_link := lk1, cn_session := ?s2\<rparr>"
  have 2: "on_session (process_setup_phase1_response (h_plists h) b) (c\<lparr>cn_link := lk1\<rparr>) = (Inr (), ?c2)" for b
    using assms(4) by (simp add: on_session_def process_setup_phase1_response_def assms(2) answering_def
        answering_plists_def toy_plists_def plist_codec_def)
  let ?lk2 = "lk1\<lparr>lk_conn := add_session_header ''Session'' ''1'' (lk_conn lk1)\<rparr>"
  let ?c3 = "c\<lparr>cn_link := ?lk2, cn_events := True, cn_session := set_local_control_port 50001 ?s2, cn_control_rx := True\<rparr>"
  have lk2: "sealed_link k 1 (sealed_reply k 1 # silence # xs) (cn_link ?c3)"
    using 1(2) by (simp add: sealed_link_def add_session_header_def)
  obtain b where build2: "build_setup_phase2 (h_plists h) (cn_session ?c3) = Inr b"
    using assms(5) by (auto simp: build_setup_phase2_def set_local_control_port_def encodes_phase2_def plist_codec_def
        phase2_stream_def Let_def)
  obtain resp2 lk3 where 3: "send_request h (setup_request (conn_uri ?c3) b) ?c3 = (Inr resp2, ?c3\<lparr>cn_link := lk3\<rparr>)"
      "sealed_link k (1 + 1) (silence # xs) lk3"
      "session_headers (lk_conn lk3) = session_headers (lk_conn (cn_link ?c3))"
    by (rule send_request_answered [OF lk2 h(1)])
  let ?c4 = "?c3\<lparr>cn_link := lk3, cn_session := (set_local_control_port 50001 ?s2)\<lparr>
     ports := Some (?p\<lparr>data_port := 6000, control_port := 6001\<rparr>), ss_state := session_state.Ready\<rparr>\<rparr>"
  have 4: "on_session (process_setup_phase2_response (h_plists h) (response_body resp2)) (?c3\<lparr>cn_link := lk3\<rparr>) =
      (Inr (), ?c4)"
    using phase2_answered [of "set_local_control_port 50001 ?s2" h ?p "response_body resp2"] assms(4)
    by (simp add: on_session_def set_local_control_port_def)
  obtain lk4 where 5: "rtsp_send_timeout h (record_with_info (conn_uri ?c4) 0 0) lk3 = (None, lk4)"
      "sealed_link k (1 + 1) xs lk4"
    using sealed_silence [OF 3(2)] by blast
  have "session_headers (lk_conn lk4) = hm_insert ''Session'' ''1'' (session_headers (lk_conn (cn_link c)))"
    using 5(1) 3(3) 1(3) send_session_headers
    by (fastforce simp: rtsp_send_timeout_def add_session_header_def split: if_splits prod.splits)
  moreover have "setup_rtsp_media_session h port as c = (Inr (V4 9), ?c4\<lparr>cn_link := lk4\<rparr>)"
    using 3(1) 4 5(1) build2
    by (simp add: setup_rtsp_media_session_def h build 1(1,4) 2 assms(3) sample_address best_effort_send_initial_record_def Let_def)
  ultimately show ?thesis using 5(2) by auto
qed

lemma connection_setup_answered:
  assumes "sealed_link k 0 (sealed_reply k 0 # sealed_reply k 1 # silence # xs) (cn_link c)"
    and "conn_state c = Paired" and "cn_device c = sample_receiver"
    and "answering h" and "encodes_phase2 h (cn_session c)"
  shows "\<exists>c1. connection_setup h c = (Inr (), setup_clock h c1) \<and>
    sealed_link k 2 xs (cn_link c1) \<and> cn_config c1 = cn_config c \<and>
    session_headers (lk_conn (cn_link c1)) = hm_insert ''Session'' ''1'' (session_headers (lk_conn (cn_link c)))"
proof -
  obtain port c0 where 0: "setup_timing_port h c = (Inr port, c0)"
      "cn_link c0 = cn_link c" "cn_session c0 = cn_session c" "cn_device c0 = cn_device c" "cn_config c0 = cn_config c"
    using assms(4) by (cases "timing_protocol (cn_config c)") (simp_all add: setup_timing_port_def answering_def)
  obtain addr c1 where 1: "setup_rtsp_media_session h port (local_rtsp_addresses h) c0 = (Inr addr, c1)"
      "sealed_link k 2 xs (cn_link c1)"
      "session_headers (lk_conn (cn_link c1)) = hm_insert ''Session'' ''1'' (session_headers (lk_conn (cn_link c0)))"
    using setup_answered [of k xs c0 h port] assms 0 by metis
  have "cn_config c1 = cn_config c0"
    using ensures_Inr [OF setup_media_ensures [where P = "\<lambda>c. cn_config c = cn_config c0"] 1(1)]
    by (simp add: setup_free_def link_free_def)
  with 0 1 show ?thesis by (auto simp: connection_setup_def)
qed

text \<open>A receiver that answers the whole handshake and SETUP (its second \<open>silence\<close> is for RECORD), and then
  one more request.\<close>

definition sample_key :: bytes where
  "sample_key = sk_read_key sample_keys"

definition answering_shake :: "exchange list \<Rightarrow> shake" where
  "answering_shake later =
     sample_shake (silence # sealed_reply sample_key 0 # sealed_reply sample_key 1 # silence # later)"

lemma answering_connect:
  "\<exists>p lk. connect_with_pin h (answering_shake later) sample_receiver cfg ''3939'' = Some (Inr p, lk) \<and>
    sealed_link sample_key 0 (sealed_reply sample_key 0 # sealed_reply sample_key 1 # silence # later) (cn_link p)"
proof -
  obtain p lk cc where 1: "connect_with_pin h (answering_shake later) sample_receiver cfg ''3939'' = Some (Inr p, lk)"
    and 2: "conn_cipher (lk_conn lk) = Some cc" "read_key cc = sample_key" "decrypt_counter cc = 0"
      "conn_stream (lk_conn lk)" "cn_link p = lk"
      "lk_answers lk = sealed_reply sample_key 0 # sealed_reply sample_key 1 # silence # later"
    using sample_connect [of "silence # sealed_reply sample_key 0 # sealed_reply sample_key 1 # silence # later" h cfg]
    by (auto simp: answering_shake_def sample_key_def)
  then show ?thesis by (auto simp: sealed_link_def)
qed

section \<open>Claims\<close>

text \<open>C3: connecting returns a connection only to a receiver that has proved it knows the PIN: it sent, in
  its third answer, the proof the client expects for the secret it computed. The connection is then
  paired and its control channel uses the keys derived from that secret. Before that, exactly three
  requests went out in the clear, \<open>GET /info\<close>, M1 and M3, and the fourth, \<open>OPTIONS\<close>, is what the new
  cipher makes of it.\<close>

theorem connected_means_authenticated:
  assumes "connect_with_pin h w dev cfg pin = Some (Inr c, lk)"
  shows "\<exists>cl pr x1 x2 x3 xs m4 v keys cc wire.
    srp_client_new (pe_group (hw_pair w)) (hw_draws w) (as_bytes ''Pair-Setup'') (as_bytes pin) = Some cl \<and>
    proof_for (hw_pair w) cl pr \<and> hw_answers w = x1 # x2 # x3 # xs \<and> says x3 m4 \<and>
    tlv_parse m4 = Inr v \<and> tlv_error v = None \<and> tlv_get v Proof = Some (expected_server_proof pr) \<and>
    derive_control_keys (pe_hkdf (hw_pair w)) (shared_secret pr) = Inr keys \<and>
    conn_state c = Paired \<and> conn_cipher (lk_conn lk) = Some cc \<and>
    write_key cc = sk_write_key keys \<and> read_key cc = sk_read_key keys \<and>
    (let cid = generate_device_id (hw_device_id w);
         r2 = pair_setup_request (tlv_encode pair_setup_m1_with_flags) cid HKP_TRANSIENT;
         r3 = pair_setup_request (tlv_encode (m3_tlv cl pr)) cid HKP_TRANSIENT
     in lk_log lk = [(get_info, Some (clear_text cid get_info 1)), (r2, Some (clear_text cid r2 2)),
            (r3, Some (clear_text cid r3 3)), (options_request, wire)] \<and>
        (case wire of None \<Rightarrow> True
         | Some b \<Rightarrow> fst (control_encrypt (h_aead h)
             (control_cipher_new (sk_write_key keys) (sk_read_key keys)) (clear_text cid options_request 4)) = Inr b))"
proof -
  let ?cid = "generate_device_id (hw_device_id w)"
  obtain s lk1 cl p2 lk2 where st:
    "open_connected_session h w dev cfg ?cid = (Inr s, lk1)"
    "srp_client_new (pe_group (hw_pair w)) (hw_draws w) (as_bytes ''Pair-Setup'') (as_bytes pin) = Some cl"
    "pairing_exchange h (hw_pair w) ?cid (tlv_encode pair_setup_m1_with_flags)
       (pairing_session_new\<lparr>transient_setup := Some \<lparr>ps_state = M1Sent, ps_pin = pin, ps_client = Some cl,
          ps_proof = None\<rparr>, transient_state := WaitingM2\<rparr>) lk1 = (Inr p2, lk2)"
    "finish_handshake h dev cfg s p2 lk2 = (Inr c, lk)"
    by (rule handshake_steps [OF assms])
  note o = open_session_Inr [OF st(1)]
  obtain pr m4 v keys where p: "proof_for (hw_pair w) cl pr" "\<exists>x2 x3 xs. lk_answers lk1 = x2 # x3 # xs \<and> says x3 m4"
    "tlv_parse m4 = Inr v" "tlv_error v = None" "tlv_state v = Some 4"
    "tlv_get v Proof = Some (expected_server_proof pr)"
    "derive_control_keys (pe_hkdf (hw_pair w)) (shared_secret pr) = Inr keys" "session_keys p2 = Some keys"
    "lk_conn lk2 = (opened ?cid)\<lparr>conn_cseq := 3\<rparr>"
    "lk_log lk2 = lk_log lk1 @
       (let r2 = pair_setup_request (tlv_encode pair_setup_m1_with_flags) ?cid HKP_TRANSIENT;
            r3 = pair_setup_request (tlv_encode (m3_tlv cl pr)) ?cid HKP_TRANSIENT
        in [(r2, Some (clear_text ?cid r2 2)), (r3, Some (clear_text ?cid r3 3))])"
    by (rule pairing_exchange_Inr [OF st(3) o(2), where cl = cl and
        t = "\<lparr>ps_state = M1Sent, ps_pin = pin, ps_client = Some cl, ps_proof = None\<rparr>"]) simp_all
  note f = finish_handshake_Inr [OF st(4) p(8,9)]
  obtain cc wire where w: "conn_cipher (lk_conn lk) = Some cc" "write_key cc = sk_write_key keys"
      "read_key cc = sk_read_key keys" "lk_log lk = lk_log lk2 @ [(options_request, wire)]"
      "case wire of None \<Rightarrow> True
       | Some b \<Rightarrow> fst (control_encrypt (h_aead h) (control_cipher_new (sk_write_key keys) (sk_read_key keys))
           (clear_text ?cid options_request 4)) = Inr b"
    using f(3,4) by blast
  from o(4) p(2) obtain x1 x2 x3 xs where x: "hw_answers w = x1 # x2 # x3 # xs" "says x3 m4" by auto
  show ?thesis
    by (intro exI [of _ cl] exI [of _ pr] exI [of _ x1] exI [of _ x2] exI [of _ x3] exI [of _ xs] exI [of _ m4]
        exI [of _ v] exI [of _ keys] exI [of _ cc] exI [of _ wire])
      (use st(2) p x f(1) w o(3) in \<open>simp add: Let_def\<close>)
qed

theorem connected_means_authenticated_witness:
  "\<exists>c lk. connect_with_pin sample_host (sample_shake []) sample_receiver default_config ''3939'' = Some (Inr c, lk) \<and>
    conn_state c = Paired \<and> (\<exists>wire. map fst (lk_log lk) = wire @ [options_request] \<and> length wire = 3)"
proof -
  obtain c lk where 1: "connect_with_pin sample_host (sample_shake []) sample_receiver default_config ''3939'' = Some (Inr c, lk)"
    using sample_connect [of "[]"] by blast
  from connected_means_authenticated [OF 1] 1 show ?thesis by (fastforce simp: Let_def)
qed



end
