(* ===== verification/Group.thy ===== *)
theory Group
  imports Connection
begin

text \<open>
  A group of receivers, \<open>src/client/group.rs\<close>: one streamer that sends to all of them, and the
  operations that go to every member. The first receiver, the primary, belongs to the client and is
  passed to each operation; the state of a call is the group and the primary. \<open>hs\<close> gives the world of
  each receiver, the primary's at 0.
\<close>

section \<open>The group\<close>

record group_session =
  gs_connections :: "connection list"
  gs_streamer :: "audio_streamer option"
  gs_playback :: "playback_state option"
  gs_stats :: stream_stats
  gs_listener :: bool

type_synonym 'a group_call = "('a, group_session \<times> connection) call"

definition group_new :: "connection list \<Rightarrow> group_session" where
  "group_new cs = \<lparr> gs_connections = cs, gs_streamer = None, gs_playback = None,
     gs_stats = stream_stats_new, gs_listener = False \<rparr>"

text \<open>A failure that is only logged, for every member in turn.\<close>

fun each_member ::
  "(nat \<Rightarrow> connection \<Rightarrow> (unit, connection) call) \<Rightarrow> nat \<Rightarrow> connection list \<Rightarrow> (unit, connection list) call" where
  "each_member f i [] = (Inr (), [])"
| "each_member f i (c # cs) =
     (case best_effort (f i c) of
        (Inl e, c') \<Rightarrow> (Inl e, c' # cs)
      | (Inr _, c') \<Rightarrow> (let (r, cs') = each_member f (Suc i) cs in (r, c' # cs')))"

definition on_members ::
  "(nat \<Rightarrow> connection \<Rightarrow> (unit, connection) call) \<Rightarrow> group_session \<times> connection \<Rightarrow> unit group_call" where
  "on_members f gp =
     (let (r, cs) = each_member f 1 (gs_connections (fst gp))
      in (r, (fst gp)\<lparr>gs_connections := cs\<rparr>, snd gp))"

definition on_primary :: "(connection \<Rightarrow> ('a, connection) call) \<Rightarrow> group_session \<times> connection \<Rightarrow> 'a group_call" where
  "on_primary f gp = (let (r, p) = f (snd gp) in (r, fst gp, p))"

definition on_group :: "(group_session \<Rightarrow> group_session) \<Rightarrow> group_session \<times> connection \<Rightarrow> group_session \<times> connection" where
  "on_group f gp = (f (fst gp), snd gp)"

definition map_group_streamer :: "(audio_streamer \<Rightarrow> audio_streamer) \<Rightarrow> group_session \<Rightarrow> group_session" where
  "map_group_streamer f g = g\<lparr>gs_streamer := map_option f (gs_streamer g)\<rparr>"

text \<open>\<open>stop\<close> of the streamer does not fail; the group then drops it.\<close>

definition drop_streamer :: "group_session \<Rightarrow> group_session" where
  "drop_streamer g = g\<lparr>gs_listener := False, gs_streamer := None\<rparr>"

definition group_disconnect :: "(nat \<Rightarrow> host) \<Rightarrow> group_session \<Rightarrow> (unit, group_session) call" where
  "group_disconnect hs g =
     (let g = drop_streamer g;
          (r, cs) = each_member (\<lambda>i. conn_disconnect (hs i)) 1 (gs_connections g)
      in bind_in (r, g\<lparr>gs_connections := cs\<rparr>) (\<lambda>_ g.
           (Inr (), g\<lparr>gs_connections := [], gs_playback := None\<rparr>)))"

definition set_group_playback :: "playback_state \<Rightarrow> group_session \<Rightarrow> group_session" where
  "set_group_playback p g = (if gs_playback g \<noteq> None then g\<lparr>gs_playback := Some p\<rparr> else g)"

definition group_pause :: "(nat \<Rightarrow> host) \<Rightarrow> group_session \<times> connection \<Rightarrow> unit group_call" where
  "group_pause hs gp =
     (let gp = on_group (map_group_streamer (\<lambda>s. snd (streamer_pause (h_signalled (hs 0)) s))) gp in
     bind_in (on_primary (conn_pause (hs 0)) gp) (\<lambda>_ gp.
     bind_in (on_members (\<lambda>i. best_effort_send_flush (hs i) 0 0) gp) (\<lambda>_ gp.
       (Inr (), on_group (set_group_playback PbPaused \<circ> map_group_streamer reset_after_flush) gp))))"

definition group_resume :: "(nat \<Rightarrow> host) \<Rightarrow> group_session \<times> connection \<Rightarrow> unit group_call" where
  "group_resume hs gp =
     bind_in (on_primary (conn_resume (hs 0)) gp) (\<lambda>_ gp.
     bind_in (on_members (\<lambda>i. best_effort_send_record (hs i)) gp) (\<lambda>_ gp.
       (Inr (), on_group (set_group_playback PbPlaying \<circ>
           map_group_streamer (\<lambda>s. snd (streamer_resume (h_signalled (hs 0)) s))) gp)))"

definition group_stop :: "(nat \<Rightarrow> host) \<Rightarrow> group_session \<times> connection \<Rightarrow> unit group_call" where
  "group_stop hs gp =
     bind_in (on_primary (conn_stop (hs 0)) (on_group drop_streamer gp)) (\<lambda>_ gp.
     bind_in (on_members (\<lambda>i. best_effort_send_flush (hs i) 0 0) gp) (\<lambda>_ gp.
       (Inr (), on_group (\<lambda>g. g\<lparr>gs_playback := None\<rparr>) gp)))"

definition group_set_volume_linear :: "(nat \<Rightarrow> host) \<Rightarrow> f32 \<Rightarrow> group_session \<times> connection \<Rightarrow> unit group_call" where
  "group_set_volume_linear hs volume = on_members (\<lambda>i. conn_set_volume_linear (hs i) volume)"

definition group_set_volume_db :: "(nat \<Rightarrow> host) \<Rightarrow> f32 \<Rightarrow> group_session \<times> connection \<Rightarrow> unit group_call" where
  "group_set_volume_db hs volume_db = on_members (\<lambda>i. conn_set_volume_db (hs i) volume_db)"

definition group_send_feedback :: "(nat \<Rightarrow> host) \<Rightarrow> group_session \<times> connection \<Rightarrow> unit group_call" where
  "group_send_feedback hs = on_members (\<lambda>i. conn_send_feedback (hs i))"

section \<open>Streaming to the group\<close>

text \<open>The senders of the members, in order; the first failure ends it.\<close>

fun member_senders :: "(nat \<Rightarrow> host) \<Rightarrow> nat \<Rightarrow> connection list \<Rightarrow> error + rtp_sender list" where
  "member_senders hs i [] = Inr []"
| "member_senders hs i (c # cs) =
     and_then (build_rtp_sender (hs i) c) (\<lambda>r. map_sum (\<lambda>e. e) ((#) r) (member_senders hs (Suc i) cs))"

definition group_streamer ::
  "stream_config \<Rightarrow> u32 \<Rightarrow> bytes \<Rightarrow> connection \<Rightarrow> rtp_sender list \<Rightarrow> audio_streamer" where
  "group_streamer cfg delay ptp_clock_id p senders =
     (let s = set_rtp_senders senders (streamer_new cfg);
          s = (case cn_timing_offset p of None \<Rightarrow> s | Some off \<Rightarrow> set_timing_offset off s);
          s = (case cn_timing_tx p of None \<Rightarrow> s | Some _ \<Rightarrow> set_timing_updates s);
          s = set_ptp_sync_mode ptp_clock_id s
      in if 0 < delay then set_render_delay_ms delay s else s)"

text \<open>The receivers with a control socket that can be cloned, by number.\<close>

definition control_sockets :: "(nat \<Rightarrow> host) \<Rightarrow> connection list \<Rightarrow> nat list" where
  "control_sockets hs cs = filter (\<lambda>i. clone_control_socket_for_recv (hs i) (cs ! i)) [0..<length cs]"

definition group_start_live_streaming ::
  "(nat \<Rightarrow> host) \<Rightarrow> stream_config \<Rightarrow> u32 \<Rightarrow> live_decoder \<Rightarrow> group_session \<times> connection \<Rightarrow> unit group_call" where
  "group_start_live_streaming hs cfg delay d gp =
     (let gp = on_group drop_streamer gp in
     bind_in (on_primary (best_effort_send_flush (hs 0) 0 0) gp) (\<lambda>_ gp.
     bind_in (on_members (\<lambda>i. best_effort_send_flush (hs i) 0 0) gp) (\<lambda>_ gp.
       let volume = cn_volume (snd gp) in
     bind_in (on_primary (\<lambda>c. best_effort (conn_set_volume_linear (hs 0) volume c)) gp) (\<lambda>_ gp.
     bind_in (group_set_volume_linear hs volume gp) (\<lambda>_ gp.
     bind_in (from_res (member_senders hs 0 (snd gp # gs_connections (fst gp))) gp) (\<lambda>senders gp.
     bind_in (from_res (ok_or (cn_clock_id (snd gp))
         (Rtsp (SetupFailed ''No PTP clock ID for group streaming''))) gp) (\<lambda>ptp_clock_id gp.
       let (started, streamer) =
         start_live (h_codec (hs 0)) d (h_now (hs 0)) (group_streamer cfg delay ptp_clock_id (snd gp) senders) in
     bind_in (from_res started gp) (\<lambda>_ gp.
       (Inr (), on_group (\<lambda>g. g\<lparr>gs_stats := with_device_count (1 + length (gs_connections g)),
           gs_listener := spawn_group (control_sockets hs (snd gp # gs_connections g)),
           gs_streamer := Some streamer, gs_playback := Some PbPlaying\<rparr>) gp)))))))))"

section \<open>Queries\<close>

definition group_is_connected :: "group_session \<Rightarrow> bool" where
  "group_is_connected g \<longleftrightarrow> gs_connections g \<noteq> []"

definition group_device_count :: "group_session \<Rightarrow> nat" where
  "group_device_count g = (if gs_connections g = [] then 0 else 1 + length (gs_connections g))"

definition group_stats_snapshot :: "group_session \<Rightarrow> stats_snapshot" where
  "group_stats_snapshot g =
     (let snap = stats_snapshot (gs_stats g) in
      case gs_streamer g of None \<Rightarrow> snap
      | Some s \<Rightarrow> snap\<lparr>snap_packets_sent := st_packets_sent s, snap_underruns := st_underruns s\<rparr>)"

section \<open>Lemmas\<close>

lemma on_members_Inr:
  "on_members f gp = (Inr x, gp') \<Longrightarrow> snd gp' = snd gp \<and> gs_streamer (fst gp') = gs_streamer (fst gp) \<and>
     gs_playback (fst gp') = gs_playback (fst gp)"
  by (auto simp: on_members_def split: prod.splits)

lemma on_primary_Inr:
  "on_primary f gp = (Inr x, gp') \<longleftrightarrow> fst gp' = fst gp \<and> f (snd gp) = (Inr x, snd gp')"
  by (cases gp') (auto simp: on_primary_def split: prod.splits)

text \<open>What starting changes of the primary: its link and its volume.\<close>

lemma primary_flush_keeps:
  assumes "volume_free P" and "P (snd gp)" and "on_primary (best_effort_send_flush h sq t) gp = (Inr (), gp')"
  shows "P (snd gp')"
  using assms(3) ensures_Inr [OF best_effort_send_flush_keeps [OF volume_free_link [OF assms(1)] assms(2)]]
  by (auto simp: on_primary_Inr)

lemma primary_volume_keeps:
  assumes "volume_free P" and "P (snd gp)"
    and "on_primary (\<lambda>c. best_effort (conn_set_volume_linear h v c)) gp = (Inr (), gp')"
  shows "P (snd gp')"
  using assms(3) ensures_Inr [OF ensures_best_effort [OF volume_linear_keeps [OF assms(1,2)]]]
  by (auto simp: on_primary_Inr)

lemma group_start_steps:
  assumes "group_start_live_streaming hs cfg delay d gp = (Inr (), gp')"
  obtains senders clock_id s where
    "member_senders hs 0 (snd gp' # gs_connections (fst gp')) = Inr senders" "cn_clock_id (snd gp') = Some clock_id"
    "start_live (h_codec (hs 0)) d (h_now (hs 0)) (group_streamer cfg delay clock_id (snd gp') senders) = (Inr (), s)"
    "gs_streamer (fst gp') = Some s" "gs_playback (fst gp') = Some PbPlaying"
    "conn_state (snd gp') = conn_state (snd gp)"
proof -
  let ?gp = "on_group drop_streamer gp"
  from assms obtain gp1 gp2 gp3 gp4 senders clock_id where
    1: "on_primary (best_effort_send_flush (hs 0) 0 0) ?gp = (Inr (), gp1)"
    and 2: "on_members (\<lambda>i. best_effort_send_flush (hs i) 0 0) gp1 = (Inr (), gp2)"
    and 3: "on_primary (\<lambda>c. best_effort (conn_set_volume_linear (hs 0) (cn_volume (snd gp2)) c)) gp2 = (Inr (), gp3)"
    and 4: "group_set_volume_linear hs (cn_volume (snd gp2)) gp3 = (Inr (), gp4)"
    and 5: "member_senders hs 0 (snd gp4 # gs_connections (fst gp4)) = Inr senders"
      "cn_clock_id (snd gp4) = Some clock_id"
    and 6: "fst (start_live (h_codec (hs 0)) d (h_now (hs 0)) (group_streamer cfg delay clock_id (snd gp4) senders)) = Inr ()"
    and 7: "gp' = on_group (\<lambda>g. g\<lparr>gs_stats := with_device_count (1 + length (gs_connections g)),
           gs_listener := spawn_group (control_sockets hs (snd gp4 # gs_connections g)),
           gs_streamer := Some (snd (start_live (h_codec (hs 0)) d (h_now (hs 0))
             (group_streamer cfg delay clock_id (snd gp4) senders))), gs_playback := Some PbPlaying\<rparr>) gp4"
    unfolding group_start_live_streaming_def Let_def split_def
    by (auto simp: bind_in_Inr from_res_Inr ok_or_Inr)
  have keep: "P (snd gp4)" if P: "volume_free P" "P (snd gp)" for P
  proof -
    have "P (snd gp1)" by (rule primary_flush_keeps [OF P(1) _ 1]) (simp add: on_group_def P(2))
    then have "P (snd gp2)" using on_members_Inr [OF 2] by simp
    then have "P (snd gp3)" by (rule primary_volume_keeps [OF P(1) _ 3])
    then show "P (snd gp4)" using on_members_Inr [OF 4 [unfolded group_set_volume_linear_def]] by simp
  qed
  have "conn_state (snd gp4) = conn_state (snd gp)"
    by (rule keep) (simp_all add: volume_free_def link_free_def)
  then show ?thesis
    by (intro that [of senders clock_id "snd (start_live (h_codec (hs 0)) d (h_now (hs 0))
        (group_streamer cfg delay clock_id (snd gp4) senders))"])
      (use 5 6 7 in \<open>auto simp: on_group_def prod_eq_iff\<close>)
qed

text \<open>The sender of a connection goes to the data port of SETUP at the best address of its device.\<close>

definition sender_of :: "connection \<Rightarrow> rtp_sender \<Rightarrow> bool" where
  "sender_of c r \<longleftrightarrow> (\<exists>p addr. ports (cn_session c) = Some p \<and>
     select_best_address (addresses (cn_device c)) = Some addr \<and> rtp_dest r = (addr, data_port p) \<and>
     rtp_socket r \<and> rtp_sequence r = 0)"

lemma member_senders_all: "member_senders hs i cs = Inr rs \<Longrightarrow> list_all2 sender_of cs rs"
proof (induction cs arbitrary: i rs)
  case (Cons c cs)
  obtain r rs' where r: "build_rtp_sender (hs i) c = Inr r" "member_senders hs (Suc i) cs = Inr rs'" "rs = r # rs'"
    using Cons.prems by (cases "member_senders hs (Suc i) cs") (auto simp: and_then_eq_Inr)
  have "sender_of c r" using build_rtp_sender_fields [OF r(1)] by (auto simp: sender_of_def)
  with Cons.IH [OF r(2)] r(3) show ?case by simp
qed simp

lemma group_streamer_simps:
  "st_task (group_streamer cfg delay i p rs) = False"
  "rtp_senders (st_inner (group_streamer cfg delay i p rs)) = rs"
  "si_config (st_inner (group_streamer cfg delay i p rs)) = cfg"
  "first_packet_sent (st_inner (group_streamer cfg delay i p rs)) = False"
  "si_buffer (st_inner (group_streamer cfg delay i p rs)) = buffer_new (audio_format cfg) DEFAULT_BUFFER_CAPACITY_MS"
  by (auto simp: group_streamer_def Let_def set_rtp_senders_def set_render_delay_ms_def
      set_timing_offset_def set_timing_updates_def set_ptp_sync_mode_def on_inner_def streamer_new_def
      split: option.split)

lemma group_fresh:
  "rs = r # rs' \<Longrightarrow> rtp_socket r \<Longrightarrow> channels (audio_format cfg) \<noteq> 0 \<Longrightarrow>
   fresh_streamer (group_streamer cfg delay i p rs)"
  by (simp add: fresh_streamer_def group_streamer_simps whole_packets_def send_targets_def buffer_new_def Let_def
      buffer_ok_def max_def)

lemma pause_needs_playing:
  assumes "conn_state c = session_state.Ready"
  shows "ensures (conn_pause h c) (\<lambda>_ _. False) (\<lambda>_ _. True)"
  unfolding conn_pause_def Let_def
  by (rule ensures_bind [OF ensures_weaken [OF send_request_keeps
          [where P = "\<lambda>c. conn_state c = session_state.Ready"]]])
    (use assms in \<open>auto simp: link_free_def map_streamer_def on_session_def session_pause_def wrong_state_def\<close>)

section \<open>The group's invariant\<close>

text \<open>Members never stream themselves; they and the primary are consistent; retransmissions are served only
  while there is a streamer.\<close>

definition member_ok :: "connection \<Rightarrow> bool" where
  "member_ok c \<longleftrightarrow> conn_inv c \<and> cn_streamer c = None"

definition group_inv :: "group_session \<times> connection \<Rightarrow> bool" where
  "group_inv gp \<longleftrightarrow> conn_inv (snd gp) \<and> (\<forall>c \<in> set (gs_connections (fst gp)). member_ok c) \<and>
     (gs_listener (fst gp) \<longrightarrow> gs_streamer (fst gp) \<noteq> None) \<and>
     gs_playback (fst gp) \<in> {None, Some PbPlaying, Some PbPaused}"

lemma member_ok_free: "volume_free member_ok" "link_free member_ok"
  using volume_free_inv by (simp_all add: member_ok_def volume_free_def link_free_def)

lemma each_member_ensures:
  assumes "\<And>i c. P c \<Longrightarrow> ensures (f i c) (\<lambda>_. P) (\<lambda>e c'. e = Panic \<or> P c')" and "\<forall>c \<in> set cs. P c"
  shows "ensures (each_member f i cs) (\<lambda>_ cs'. \<forall>c \<in> set cs'. P c) (\<lambda>e _. e = Panic)"
  using assms(2)
proof (induction cs arbitrary: i)
  case (Cons c cs)
  have c: "P c" using Cons.prems by simp
  obtain r c' where r: "f i c = (r, c')" by fastforce
  obtain r2 cs' where r2: "each_member f (Suc i) cs = (r2, cs')" by fastforce
  have "ensures (r2, cs') (\<lambda>_ cs'. \<forall>c \<in> set cs'. P c) (\<lambda>e _. e = Panic)"
    using Cons.IH [of "Suc i"] Cons.prems by (simp add: r2)
  moreover have "ensures (r, c') (\<lambda>_. P) (\<lambda>e c'. e = Panic \<or> P c')" using assms(1) [OF c, of i] by (simp add: r)
  ultimately show ?case
    by (cases r; cases r2) (auto simp: r r2 best_effort_def split: fault.splits)
qed simp

lemma on_members_inv:
  assumes "\<And>i c. member_ok c \<Longrightarrow> ensures (f i c) (\<lambda>_. member_ok) (\<lambda>_. member_ok)" and "group_inv gp"
  shows "ensures (on_members f gp) (\<lambda>_. group_inv) (\<lambda>e _. e = Panic)"
proof -
  have "ensures (each_member f 1 (gs_connections (fst gp))) (\<lambda>_ cs'. \<forall>c \<in> set cs'. member_ok c) (\<lambda>e _. e = Panic)"
    by (rule each_member_ensures [OF ensures_weaken [OF assms(1)]]) (use assms(2) in \<open>auto simp: group_inv_def\<close>)
  then show ?thesis
    using assms(2) by (auto simp: on_members_def ensures_def group_inv_def split: prod.splits sum.splits)
qed

lemma on_primary_inv:
  assumes "\<And>c. conn_inv c \<Longrightarrow> ensures (f c) (\<lambda>_. conn_inv) (\<lambda>_. conn_inv)" and "group_inv gp"
  shows "ensures (on_primary f gp) (\<lambda>_. group_inv) (\<lambda>_. group_inv)"
proof -
  have "ensures (f (snd gp)) (\<lambda>_. conn_inv) (\<lambda>_. conn_inv)" using assms by (simp add: group_inv_def)
  then show ?thesis
    using assms(2) by (auto simp: on_primary_def ensures_def group_inv_def split: prod.splits sum.splits)
qed

lemma group_inv_streamer:
  "group_inv gp \<Longrightarrow> group_inv (on_group (map_group_streamer f) gp)"
  "group_inv gp \<Longrightarrow> group_inv (on_group drop_streamer gp)"
  "group_inv gp \<Longrightarrow> p \<in> {PbPlaying, PbPaused} \<Longrightarrow> group_inv (on_group (set_group_playback p \<circ> map_group_streamer f) gp)"
  "group_inv gp \<Longrightarrow> group_inv (on_group (\<lambda>g. g\<lparr>gs_playback := None\<rparr>) gp)"
  by (auto simp: group_inv_def on_group_def map_group_streamer_def drop_streamer_def set_group_playback_def)

text \<open>An operation leaves the invariant, unless it panics.\<close>

abbreviation keeps_group :: "'a group_call \<Rightarrow> bool" where
  "keeps_group r \<equiv> ensures r (\<lambda>_. group_inv) (\<lambda>e gp. e = Panic \<or> group_inv gp)"

lemma keeps_groupI:
  "ensures r (\<lambda>_. group_inv) (\<lambda>_. group_inv) \<Longrightarrow> keeps_group r"
  "ensures r (\<lambda>_. group_inv) (\<lambda>e _. e = Panic) \<Longrightarrow> keeps_group r"
  by (erule ensures_weaken; simp)+

lemmas keeps_primary = keeps_groupI(1) [OF on_primary_inv]
lemmas keeps_members = keeps_groupI(2) [OF on_members_inv]

lemma group_members_keep:
  assumes "group_inv gp"
  shows "keeps_group (on_members (\<lambda>i. best_effort_send_flush (hs i) sq t) gp)"
    and "keeps_group (on_members (\<lambda>i. best_effort_send_record (hs i)) gp)"
    and "keeps_group (group_set_volume_linear hs v gp)" and "keeps_group (group_set_volume_db hs v gp)"
    and "keeps_group (group_send_feedback hs gp)"
  unfolding group_set_volume_linear_def group_set_volume_db_def group_send_feedback_def
  by (rule keeps_members [OF _ assms], intro best_effort_send_flush_keeps best_effort_send_record_keeps
      volume_linear_keeps volume_db_keeps feedback_keeps member_ok_free, assumption)+

lemma group_pause_keeps: "group_inv gp \<Longrightarrow> keeps_group (group_pause hs gp)"
  unfolding group_pause_def Let_def
  by (rule ensures_bind [OF keeps_primary [OF pause_inv]], assumption, erule group_inv_streamer,
      rule ensures_bind [OF group_members_keep(1)], assumption) (simp add: group_inv_streamer)

lemma group_resume_keeps: "group_inv gp \<Longrightarrow> keeps_group (group_resume hs gp)"
  unfolding group_resume_def
  by (rule ensures_bind [OF keeps_primary [OF resume_inv]], assumption, assumption,
      rule ensures_bind [OF group_members_keep(2)], assumption) (simp add: group_inv_streamer)

lemma group_stop_keeps: "group_inv gp \<Longrightarrow> keeps_group (group_stop hs gp)"
  unfolding group_stop_def
  by (rule ensures_bind [OF keeps_primary [OF stop_inv]], assumption, erule group_inv_streamer,
      rule ensures_bind [OF group_members_keep(1)], assumption) (simp add: group_inv_streamer)

lemma group_start_keeps: "group_inv gp \<Longrightarrow> keeps_group (group_start_live_streaming hs cfg delay d gp)"
proof -
  assume gp: "group_inv gp"
  have flush: "conn_inv c \<Longrightarrow> ensures (best_effort_send_flush h 0 0 c) (\<lambda>_. conn_inv) (\<lambda>_. conn_inv)" for h c
    by (rule best_effort_send_flush_keeps [OF volume_free_inv(2)])
  have vol: "conn_inv c \<Longrightarrow> ensures (best_effort (conn_set_volume_linear h v c)) (\<lambda>_. conn_inv) (\<lambda>_. conn_inv)" for h v c
    by (intro ensures_best_effort volume_linear_keeps volume_free_inv)
  have res: "group_inv gp \<Longrightarrow> keeps_group (from_res r gp)" for r :: "error + 'x" and gp
    by (rule ensures_from_res) simp_all
  show ?thesis
    unfolding group_start_live_streaming_def Let_def split_def
    apply (rule ensures_bind [OF keeps_primary [OF flush]], assumption, rule group_inv_streamer(2), rule gp)
    apply (rule ensures_bind [OF group_members_keep(1)], assumption)
    apply (rule ensures_bind [OF keeps_primary [OF vol]], assumption, assumption)
    apply (rule ensures_bind [OF group_members_keep(3)], assumption)
    apply (rule ensures_bind [OF res], assumption)
    apply (rule ensures_bind [OF res], assumption)
    apply (rule ensures_bind [OF res], assumption)
    apply (simp add: group_inv_def on_group_def)
    done
qed

section \<open>A sample group\<close>

definition sample_primary :: connection where
  "sample_primary = sample_connection\<lparr>cn_clock_id := Some (replicate 8 1)\<rparr>"

definition sample_group :: "group_session \<times> connection" where
  "sample_group = (group_new [sample_connection], sample_primary)"

text \<open>A connection after SETUP to a receiver that has fallen silent.\<close>

definition quiet :: "connection \<Rightarrow> bool" where
  "quiet c \<longleftrightarrow> silent (cn_link c) \<and> cn_session c = cn_session sample_connection \<and>
     cn_device c = sample_receiver"

lemma quiet_flush:
  assumes "quiet c"
  obtains c' where "best_effort_send_flush h sq t c = (Inr (), c')" "quiet c'" "cn_clock_id c' = cn_clock_id c"
proof -
  obtain lk where "best_effort_send_flush h sq t c = (Inr (), c\<lparr>cn_link := lk\<rparr>)" "silent lk"
    using silent_flush [of c h sq t] assms by (auto simp: quiet_def)
  with assms show ?thesis by (intro that [of "c\<lparr>cn_link := lk\<rparr>"]) (simp_all add: quiet_def)
qed

lemma quiet_volume:
  assumes "quiet c"
  obtains c' where "best_effort (conn_set_volume_linear h v c) = (Inr (), c')" "quiet c'" "cn_clock_id c' = cn_clock_id c"
proof -
  from assms have "silent (cn_link c)" by (simp add: quiet_def)
  then obtain lk w where "best_effort (conn_set_volume_linear h v c) = (Inr (), c\<lparr>cn_link := lk, cn_volume := w\<rparr>)" "silent lk"
    by (rule silent_volume)
  with assms show ?thesis by (intro that [of "c\<lparr>cn_link := lk, cn_volume := w\<rparr>"]) (simp_all add: quiet_def)
qed

lemma quiet_sender:
  assumes "quiet c" shows "\<exists>r. build_rtp_sender sample_host c = Inr r"
  using assms sample_receiver_addresses
  by (simp add: build_rtp_sender_def quiet_def sample_connection_def from_paired_parts_def sample_session_def
      sample_host_def select_best_address_def Let_def)

lemma sample_quiet: "quiet sample_connection" "quiet sample_primary"
  by (simp_all add: quiet_def sample_primary_def sample_connection_def from_paired_parts_def silent_def
      sample_link_def connection_new_def)

lemma best_effort_done [simp]: "best_effort (Inr x, c) = (Inr (), c)"
  by (simp add: best_effort_def)

lemma sample_group_start:
  "\<exists>gp'. group_start_live_streaming (\<lambda>_. sample_host) default_config 0 d sample_group = (Inr (), gp') \<and>
    (\<forall>c \<in> set (snd gp' # gs_connections (fst gp')). length (shk (cn_session c)) = 32) \<and>
    1 + length (gs_connections (fst gp')) = 2"
proof -
  let ?h = sample_host
  obtain p1 where p1: "best_effort_send_flush ?h 0 0 sample_primary = (Inr (), p1)" "quiet p1"
      "cn_clock_id p1 = cn_clock_id sample_primary"
    by (rule quiet_flush [OF sample_quiet(2)])
  obtain m1 where m1: "best_effort_send_flush ?h 0 0 sample_connection = (Inr (), m1)" "quiet m1"
    by (rule quiet_flush [OF sample_quiet(1)])
  obtain p2 where p2: "best_effort (conn_set_volume_linear ?h (cn_volume p1) p1) = (Inr (), p2)" "quiet p2"
      "cn_clock_id p2 = cn_clock_id p1"
    by (rule quiet_volume [OF p1(2)])
  obtain m2 where m2: "best_effort (conn_set_volume_linear ?h (cn_volume p1) m1) = (Inr (), m2)" "quiet m2"
    by (rule quiet_volume [OF m1(2)])
  obtain r r' where r: "build_rtp_sender ?h p2 = Inr r" "build_rtp_sender ?h m2 = Inr r'"
    using quiet_sender p2(2) m2(2) by blast
  have id: "cn_clock_id p2 = Some (replicate 8 1)" by (simp add: p2(3) p1(3) sample_primary_def)
  have alac: "codec (audio_format default_config) = Alac" by (simp add: default_config_def default_format_def)
  have st: "fst (start_live cn d now (group_streamer default_config 0 i p rs)) = Inr ()" for cn now i p rs
    by (simp add: start_live_def create_encoder_def on_inner_def Let_def group_streamer_simps alac)
  have key: "length (shk (cn_session c)) = 32" if "quiet c" for c
    using that by (simp add: quiet_def sample_connection_def from_paired_parts_def sample_session_def session_new_def Let_def)
  show ?thesis
    unfolding group_start_live_streaming_def Let_def split_def
    by (simp add: key p2(2) m2(2) sample_group_def group_new_def on_group_def drop_streamer_def on_primary_def on_members_def
        group_set_volume_linear_def p1(1) m1(1) p2(1) m2(1) r id st)
qed

section \<open>Claims\<close>

text \<open>The receivers of a group hear the same. A started group has one sender per receiver, in their
  order, to the data port each announced; the \<open>k\<close>-th packet goes to all of them, with sequence number
  \<open>k\<close>, the marker exactly if \<open>k = 0\<close>, and RTP time \<open>k\<close> packet lengths, through any turns of the
  streaming task and any pauses, resumes and stops.\<close>

theorem group_hears_the_same:
  assumes "group_start_live_streaming hs cfg delay d gp = (Inr (), gp')"
    and "channels (audio_format cfg) \<noteq> 0"
    and "\<forall>rate n ch. codec_fits (unat n * unat (channels (audio_format cfg)) * 2 + 256) (h_codec (hs 0) rate n ch)"
    and "ResetAfterFlush \<notin> set evs"
  shows "\<exists>s. gs_streamer (fst gp') = Some s \<and>
    list_all2 sender_of (snd gp' # gs_connections (fst gp')) (rtp_senders (st_inner s)) \<and>
    (let ps = packets (fst (run_io (streamer_step rn) s evs)) in
     \<forall>k < length ps. length (fst (ps ! k)) = 1 + length (gs_connections (fst gp')) \<and>
       (\<forall>w \<in> set (fst (ps ! k)). wire_seq w = word_of_nat k \<and> wire_marker w = (k = 0) \<and>
         wire_time w = word_of_nat k * frames_per_packet (audio_format cfg)))"
proof -
  obtain senders clock_id s where st:
    "member_senders hs 0 (snd gp' # gs_connections (fst gp')) = Inr senders"
    "start_live (h_codec (hs 0)) d (h_now (hs 0)) (group_streamer cfg delay clock_id (snd gp') senders) = (Inr (), s)"
    "gs_streamer (fst gp') = Some s"
    by (rule group_start_steps [OF assms(1)])
  let ?g = "group_streamer cfg delay clock_id (snd gp') senders"
  note all = member_senders_all [OF st(1)]
  then obtain r rs where r: "senders = r # rs" "rtp_socket r" by (auto simp: list_all2_Cons1 sender_of_def)
  have zero: "\<forall>x \<in> set senders. rtp_sequence x = 0"
    using all by (auto simp: in_set_conv_nth list_all2_conv_all_nth sender_of_def)
  have same: "rtp_senders (st_inner s) = senders"
    using st(2) by (auto simp: start_live_def on_inner_def group_streamer_simps Let_def
        split: sum.splits if_splits)
  have "good_log cfg (map rtp_sequence senders) (has_control_port (st_inner ?g))
      (packets (fst (run_io (streamer_step rn) s evs)))"
    using start_live_run [OF group_fresh [OF r assms(2)] st(2), unfolded group_streamer_simps, OF assms(2-4)] .
  moreover have "length senders = 1 + length (gs_connections (fst gp'))"
    using all by (auto dest: list_all2_lengthD)
  ultimately have "let ps = packets (fst (run_io (streamer_step rn) s evs)) in
     \<forall>k < length ps. length (fst (ps ! k)) = 1 + length (gs_connections (fst gp')) \<and>
       (\<forall>w \<in> set (fst (ps ! k)). wire_seq w = word_of_nat k \<and> wire_marker w = (k = 0) \<and>
         wire_time w = word_of_nat k * frames_per_packet (audio_format cfg))"
    using zero
    by (fastforce simp: good_log_def packet_k_def packet_for_def time_k_def Let_def in_set_conv_nth
        list_all2_conv_all_nth)
  with st(3) same all show ?thesis by simp
qed

theorem group_hears_the_same_witness:
  "\<exists>gp' s. group_start_live_streaming (\<lambda>_. sample_host) default_config 0 sample_decoder sample_group = (Inr (), gp') \<and>
    gs_streamer (fst gp') = Some s \<and>
    list_all2 sender_of (snd gp' # gs_connections (fst gp')) (rtp_senders (st_inner s)) \<and>
    (let ps = packets (fst (run_io (streamer_step (\<lambda>_ _ _. Inl (Fail Timeout))) s
        (PauseCall True # ResumeCall True # replicate 20 (Tick sample_tick True True)))) in
     \<forall>k < length ps. length (fst (ps ! k)) = 1 + length (gs_connections (fst gp')) \<and>
       (\<forall>w \<in> set (fst (ps ! k)). wire_seq w = word_of_nat k \<and> wire_marker w = (k = 0) \<and>
         wire_time w = word_of_nat k * frames_per_packet (audio_format default_config)))"
proof -
  obtain gp' where 1: "group_start_live_streaming (\<lambda>_. sample_host) default_config 0 sample_decoder sample_group = (Inr (), gp')"
    using sample_group_start by blast
  have c: "channels (audio_format default_config) \<noteq> 0" by (simp add: default_config_def default_format_def)
  have fits: "\<forall>rate n ch. codec_fits (unat n * unat (channels (audio_format default_config)) * 2 + 256)
      (h_codec sample_host rate n ch)"
    by (simp add: sample_host_def copy_codec_fits)
  have evs: "ResetAfterFlush \<notin> set (PauseCall True # ResumeCall True # replicate 20 (Tick sample_tick True True))"
    by simp
  from group_hears_the_same [OF 1 c fits evs, of "\<lambda>_ _ _. Inl (Fail Timeout)"] 1 show ?thesis by blast
qed

text \<open>The first pause of a group that has just been started always fails. Starting the group never
  marks the primary's session as playing, so after its streamer has been paused and the receivers
  flushed, \<open>pause\<close> returns the error of a session in the wrong state, with the streamer paused and the
  group still saying that it plays.\<close>

theorem group_pause_after_start_fails:
  assumes "group_start_live_streaming hs cfg delay d gp = (Inr (), gp')"
    and "conn_state (snd gp) = session_state.Ready"
  shows "\<exists>e g p. group_pause hs' (on_group (map_group_streamer (\<lambda>_. s)) gp') = (Inl e, g, p) \<and>
    gs_playback g = Some PbPlaying \<and> gs_streamer g = Some (snd (streamer_pause (h_signalled (hs' 0)) s)) \<and>
    (si_state (st_inner s) = StStreaming \<longrightarrow> si_state (st_inner (snd (streamer_pause (h_signalled (hs' 0)) s))) = StPaused)"
proof -
  obtain s0 where st: "gs_streamer (fst gp') = Some s0" "gs_playback (fst gp') = Some PbPlaying"
    "conn_state (snd gp') = conn_state (snd gp)"
    by (rule group_start_steps [OF assms(1)])
  have ready: "conn_state (snd gp') = session_state.Ready" by (simp add: st(3) assms(2))
  obtain res p where p: "conn_pause (hs' 0) (snd gp') = (res, p)" by fastforce
  obtain e where "res = Inl e"
    using pause_needs_playing [OF ready, of "hs' 0"] unfolding p by (cases res) simp_all
  then show ?thesis
    using st(1,2) p
    by (auto simp: group_pause_def on_group_def map_group_streamer_def on_primary_def streamer_pause_def Let_def)
qed

theorem group_pause_after_start_fails_witness:
  "\<exists>gp' e g p. group_start_live_streaming (\<lambda>_. sample_host) default_config 0 sample_decoder sample_group = (Inr (), gp') \<and>
    group_pause (\<lambda>_. sample_host) (on_group (map_group_streamer (\<lambda>_. sample_started)) gp') = (Inl e, g, p) \<and>
    gs_playback g = Some PbPlaying"
proof -
  obtain gp' where 1: "group_start_live_streaming (\<lambda>_. sample_host) default_config 0 sample_decoder sample_group = (Inr (), gp')"
    using sample_group_start by blast
  have "conn_state (snd sample_group) = session_state.Ready"
    by (simp add: sample_group_def sample_primary_def sample_connection_def from_paired_parts_def sample_session_def)
  from group_pause_after_start_fails [OF 1 this, of "\<lambda>_. sample_host" sample_started] 1 show ?thesis by blast
qed

end
