(* ===== verification/Client.thy ===== *)
theory Client
  imports Browser Handshake Group
begin

text \<open>
  The client, \<open>src/client/api.rs\<close>, and its builder, \<open>src/client/builder.rs\<close>: discovery, one connection or
  a group of connections, and the routing of every operation to them. \<open>hs\<close> gives the world of each
  connected receiver, the first at 0; connecting has the world and the random values of the new
  receiver.
\<close>

section \<open>The client and its builder\<close>

record client =
  cl_browser :: browser
  cl_connection :: "connection option"
  cl_group :: "group_session option"
  cl_config :: stream_config
  cl_delay :: u32

type_synonym client_call = "(unit, client) call"

definition DEFAULT_RENDER_DELAY_MS :: u32 where "DEFAULT_RENDER_DELAY_MS = 200"

text \<open>\<open>daemon\<close>: whether the mDNS daemon could be started.\<close>

definition client_with_config :: "error + unit \<Rightarrow> stream_config \<Rightarrow> error + client" where
  "client_with_config daemon cfg = and_then daemon (\<lambda>_. Inr
     \<lparr> cl_browser = service_browser_new, cl_connection = None, cl_group = None, cl_config = cfg,
       cl_delay = DEFAULT_RENDER_DELAY_MS \<rparr>)"

definition client_new :: "error + unit \<Rightarrow> error + client" where
  "client_new daemon = client_with_config daemon default_config"

definition client_set_render_delay_ms :: "u32 \<Rightarrow> client \<Rightarrow> client" where
  "client_set_render_delay_ms ms c = c\<lparr>cl_delay := ms\<rparr>"

record client_builder =
  cb_config :: stream_config
  cb_delay :: u32

definition builder_new :: client_builder where
  "builder_new = \<lparr> cb_config = default_config, cb_delay = DEFAULT_RENDER_DELAY_MS \<rparr>"

definition builder_stream_config :: "stream_config \<Rightarrow> client_builder \<Rightarrow> client_builder" where
  "builder_stream_config cfg b = b\<lparr>cb_config := cfg\<rparr>"

definition builder_audio_format :: "audio_format \<Rightarrow> client_builder \<Rightarrow> client_builder" where
  "builder_audio_format f b = b\<lparr>cb_config := (cb_config b)\<lparr>audio_format := f\<rparr>\<rparr>"

definition builder_airplay2_buffered :: "client_builder \<Rightarrow> client_builder" where
  "builder_airplay2_buffered b = b\<lparr>cb_config := airplay2_buffered\<rparr>"

definition builder_airplay1 :: "client_builder \<Rightarrow> client_builder" where
  "builder_airplay1 b = b\<lparr>cb_config := airplay1_realtime\<rparr>"

definition builder_render_delay_ms :: "u32 \<Rightarrow> client_builder \<Rightarrow> client_builder" where
  "builder_render_delay_ms ms b = b\<lparr>cb_delay := ms\<rparr>"

definition builder_build :: "error + unit \<Rightarrow> client_builder \<Rightarrow> error + client" where
  "builder_build daemon b =
     map_sum (\<lambda>e. e) (client_set_render_delay_ms (cb_delay b)) (client_with_config daemon (cb_config b))"

section \<open>Discovery\<close>

definition client_discover ::
  "(string \<Rightarrow> u128 option) \<Rightarrow> string option \<Rightarrow> string option \<Rightarrow> nat \<Rightarrow> scan_turn list \<Rightarrow> client
     \<Rightarrow> (error fault + device list) option \<times> client" where
  "client_discover p airplay_err raop_err timeout turns c =
     (let (res, b) = scan p airplay_err raop_err timeout turns (cl_browser c) in (res, c\<lparr>cl_browser := b\<rparr>))"

definition client_get_device :: "client \<Rightarrow> device_id \<Rightarrow> device option" where
  "client_get_device c k = get_device (cl_browser c) k"

section \<open>One connection\<close>

definition disconnect_group :: "(nat \<Rightarrow> host) \<Rightarrow> client \<Rightarrow> client_call" where
  "disconnect_group hs c =
     (case cl_group c of None \<Rightarrow> (Inr (), c)
      | Some g \<Rightarrow> (let (r, g) = group_disconnect hs g in (r, c\<lparr>cl_group := Some g\<rparr>)))"

definition disconnect_connection :: "(nat \<Rightarrow> host) \<Rightarrow> client \<Rightarrow> client_call" where
  "disconnect_connection hs c =
     (case cl_connection c of None \<Rightarrow> (Inr (), c)
      | Some p \<Rightarrow> (let (r, p) = conn_disconnect (hs 0) p in (r, c\<lparr>cl_connection := Some p\<rparr>)))"

definition client_disconnect :: "(nat \<Rightarrow> host) \<Rightarrow> client \<Rightarrow> client_call" where
  "client_disconnect hs c =
     bind_in (disconnect_group hs c) (\<lambda>_ c.
     bind_in (disconnect_connection hs (c\<lparr>cl_group := None\<rparr>)) (\<lambda>_ c.
       (Inr (), c\<lparr>cl_connection := None\<rparr>)))"

text \<open>Pairing and SETUP with a new receiver; a connection that fails is dropped.\<close>

definition new_connection ::
  "host \<Rightarrow> shake \<Rightarrow> device \<Rightarrow> string \<Rightarrow> client \<Rightarrow> client_call option" where
  "new_connection h w dev pin c =
     map_option (\<lambda>(res, lk).
       (case res of Inl e \<Rightarrow> (Inl e, c)
        | Inr conn \<Rightarrow>
            (case connection_setup h (conn_set_render_delay_ms (cl_delay c) conn) of
               (Inl e, _) \<Rightarrow> (Inl e, c)
             | (Inr _, conn) \<Rightarrow> (Inr (), c\<lparr>cl_connection := Some conn\<rparr>))))
       (connect_with_pin h w dev (cl_config c) pin)"

definition client_connect_with_pin ::
  "(nat \<Rightarrow> host) \<Rightarrow> host \<Rightarrow> shake \<Rightarrow> device \<Rightarrow> string \<Rightarrow> client \<Rightarrow> client_call option" where
  "client_connect_with_pin hs h w dev pin c =
     (case (if cl_connection c \<noteq> None then client_disconnect hs c else (Inr (), c)) of
        (Inl e, c) \<Rightarrow> Some (Inl e, c)
      | (Inr _, c) \<Rightarrow> new_connection h w dev pin c)"

definition client_connect ::
  "(nat \<Rightarrow> host) \<Rightarrow> host \<Rightarrow> shake \<Rightarrow> device \<Rightarrow> client \<Rightarrow> client_call option" where
  "client_connect hs h w dev = client_connect_with_pin hs h w dev DEFAULT_TRANSIENT_PIN"

definition client_is_connected :: "client \<Rightarrow> bool" where
  "client_is_connected c \<longleftrightarrow> cl_connection c \<noteq> None"

definition connected_device :: "client \<Rightarrow> device option" where
  "connected_device c = map_option cn_device (cl_connection c)"

section \<open>Connecting to a group\<close>

text \<open>PTP with the primary as master; for ALAC the magic cookie of the encoder (\<open>cookie\<close>) is announced.\<close>

definition group_config :: "(audio_format \<Rightarrow> bytes) \<Rightarrow> stream_config \<Rightarrow> stream_config" where
  "group_config cookie cfg =
     (let cfg = cfg\<lparr>timing_protocol := Ptp, ptp_mode := Master\<rparr>
      in if codec (audio_format cfg) = Alac \<and> asc cfg = None
         then cfg\<lparr>asc := Some (cookie (audio_format cfg))\<rparr> else cfg)"

text \<open>One connection per device, in order; the first failure ends it. Here and below a call that fails
  drops the connections made so far, so only its error remains.\<close>

fun connect_all ::
  "(nat \<Rightarrow> host) \<Rightarrow> (nat \<Rightarrow> shake) \<Rightarrow> stream_config \<Rightarrow> nat \<Rightarrow> device list
     \<Rightarrow> (error fault + connection list) option" where
  "connect_all hs ws cfg i [] = Some (Inr [])"
| "connect_all hs ws cfg i (dev # devs) =
     (case connect_auto (hs i) (ws i) dev cfg DEFAULT_TRANSIENT_PIN of
        None \<Rightarrow> None
      | Some (Inl e, _) \<Rightarrow> Some (Inl e)
      | Some (Inr conn, _) \<Rightarrow>
          map_option (map_sum (\<lambda>e. e) ((#) conn)) (connect_all hs ws cfg (Suc i) devs))"

definition peer_addresses :: "host \<Rightarrow> device list \<Rightarrow> string list" where
  "peer_addresses h devices =
     map (h_show_ip h) (List.map_filter (\<lambda>d. find is_ipv4 (addresses d)) devices) @ local_rtsp_addresses h"

definition setup_primary :: "host \<Rightarrow> u32 \<Rightarrow> string list \<Rightarrow> connection \<Rightarrow> (unit, connection) call" where
  "setup_primary h delay peers c =
     bind_in (connection_setup h c) (\<lambda>_ c. send_setpeers h peers (conn_set_render_delay_ms delay c))"

definition setup_member ::
  "host \<Rightarrow> u32 \<Rightarrow> string list \<Rightarrow> bytes \<Rightarrow> clock_offset \<Rightarrow> clock_offset \<Rightarrow> connection \<Rightarrow> (unit, connection) call" where
  "setup_member h delay peers clock_id off timing_rx c =
     bind_in (setup_for_group h clock_id off timing_rx c)
       (\<lambda>_ c. send_setpeers h peers (conn_set_render_delay_ms delay c))"

fun setup_members ::
  "(nat \<Rightarrow> host) \<Rightarrow> u32 \<Rightarrow> string list \<Rightarrow> bytes \<Rightarrow> clock_offset \<Rightarrow> clock_offset \<Rightarrow> nat \<Rightarrow> connection list
     \<Rightarrow> error fault + connection list" where
  "setup_members hs delay peers clock_id off timing_rx i [] = Inr []"
| "setup_members hs delay peers clock_id off timing_rx i (c # cs) =
     (case setup_member (hs i) delay peers clock_id off timing_rx c of
        (Inl e, _) \<Rightarrow> Inl e
      | (Inr _, c) \<Rightarrow>
          map_sum (\<lambda>e. e) ((#) c) (setup_members hs delay peers clock_id off timing_rx (Suc i) cs))"

definition set_up_group ::
  "(nat \<Rightarrow> host) \<Rightarrow> u32 \<Rightarrow> string list \<Rightarrow> connection \<Rightarrow> connection list \<Rightarrow> error fault + connection \<times> connection list" where
  "set_up_group hs delay peers primary members =
     (case setup_primary (hs 0) delay peers primary of
        (Inl e, _) \<Rightarrow> Inl e
      | (Inr _, primary) \<Rightarrow>
          and_then (map_err Fail (ok_or (cn_clock_id primary) (Rtsp (SetupFailed ''Primary has no PTP clock ID''))))
            (\<lambda>clock_id.
          and_then (map_err Fail (ok_or (cn_timing_offset primary) (Rtsp (SetupFailed ''Primary has no timing offset''))))
            (\<lambda>off.
          and_then (map_err Fail (ok_or (cn_timing_tx primary) (Rtsp (SetupFailed ''Primary has no timing channel''))))
            (\<lambda>timing_rx.
          map_sum (\<lambda>e. e) (Pair primary) (setup_members hs delay peers clock_id off timing_rx 1 members)))))"

definition connect_group ::
  "(nat \<Rightarrow> host) \<Rightarrow> (nat \<Rightarrow> host) \<Rightarrow> (nat \<Rightarrow> shake) \<Rightarrow> (audio_format \<Rightarrow> bytes) \<Rightarrow> device list \<Rightarrow> client
     \<Rightarrow> client_call option" where
  "connect_group old hs ws cookie devices c =
     (if length devices < 2 then Some (Inl (Fail (Discovery NoDevicesFound)), c)
      else (case client_disconnect old c of
        (Inl e, c) \<Rightarrow> Some (Inl e, c)
      | (Inr _, c) \<Rightarrow>
          map_option (\<lambda>conns.
            (case and_then conns (\<lambda>conns.
                    set_up_group hs (cl_delay c) (peer_addresses (hs 0) devices) (hd conns) (tl conns)) of
               Inl e \<Rightarrow> (Inl e, c)
             | Inr (primary, members) \<Rightarrow>
                 (Inr (), c\<lparr>cl_connection := Some primary, cl_group := Some (group_new members)\<rparr>)))
            (connect_all hs ws (group_config cookie (cl_config c)) 0 devices)))"

section \<open>Operations on the connection and the group\<close>

text \<open>An operation of the connection.\<close>

definition on_connection :: "(connection \<Rightarrow> (unit, connection) call) \<Rightarrow> client \<Rightarrow> client_call" where
  "on_connection f c =
     (case cl_connection c of None \<Rightarrow> (Inl (Fail (Rtsp NoSession)), c)
      | Some p \<Rightarrow> (let (r, p) = f p in (r, c\<lparr>cl_connection := Some p\<rparr>)))"

text \<open>An operation of the group with its primary.\<close>

definition on_client_group ::
  "(group_session \<times> connection \<Rightarrow> unit group_call) \<Rightarrow> client \<Rightarrow> client_call" where
  "on_client_group f c =
     (case (cl_connection c, cl_group c) of
        (Some p, Some g) \<Rightarrow> (let (r, g, p) = f (g, p) in (r, c\<lparr>cl_connection := Some p, cl_group := Some g\<rparr>))
      | _ \<Rightarrow> (Inl (Fail (Rtsp NoSession)), c))"

text \<open>The group if there is one, else the connection.\<close>

definition route ::
  "(group_session \<times> connection \<Rightarrow> unit group_call) \<Rightarrow> (connection \<Rightarrow> (unit, connection) call)
     \<Rightarrow> client \<Rightarrow> client_call" where
  "route f f1 c =
     (if cl_connection c \<noteq> None \<and> cl_group c \<noteq> None then on_client_group f c else on_connection f1 c)"

text \<open>The connection and then, if that went well, the group's members.\<close>

definition both ::
  "(connection \<Rightarrow> (unit, connection) call) \<Rightarrow> (group_session \<times> connection \<Rightarrow> unit group_call)
     \<Rightarrow> client \<Rightarrow> client_call" where
  "both f1 f c =
     bind_in (on_connection f1 c) (\<lambda>_ c. if cl_group c \<noteq> None then on_client_group f c else (Inr (), c))"

definition client_pause :: "(nat \<Rightarrow> host) \<Rightarrow> client \<Rightarrow> client_call" where
  "client_pause hs = route (group_pause hs) (conn_pause (hs 0))"

definition client_resume :: "(nat \<Rightarrow> host) \<Rightarrow> client \<Rightarrow> client_call" where
  "client_resume hs = route (group_resume hs) (conn_resume (hs 0))"

definition client_stop :: "(nat \<Rightarrow> host) \<Rightarrow> client \<Rightarrow> client_call" where
  "client_stop hs = route (group_stop hs) (conn_stop (hs 0))"

definition client_set_volume_linear :: "(nat \<Rightarrow> host) \<Rightarrow> f32 \<Rightarrow> client \<Rightarrow> client_call" where
  "client_set_volume_linear hs v = both (conn_set_volume_linear (hs 0) v) (group_set_volume_linear hs v)"

definition client_set_volume_db :: "(nat \<Rightarrow> host) \<Rightarrow> f32 \<Rightarrow> client \<Rightarrow> client_call" where
  "client_set_volume_db hs v = both (conn_set_volume_db (hs 0) v) (group_set_volume_db hs v)"

definition client_send_feedback :: "(nat \<Rightarrow> host) \<Rightarrow> client \<Rightarrow> client_call" where
  "client_send_feedback hs = both (conn_send_feedback (hs 0)) (group_send_feedback hs)"

definition start_live_streaming_with_decoder :: "(nat \<Rightarrow> host) \<Rightarrow> live_decoder \<Rightarrow> client \<Rightarrow> client_call" where
  "start_live_streaming_with_decoder hs d = on_connection (start_streaming_live (hs 0) d)"

text \<open>\<open>arriving\<close> is what the new channel will deliver.\<close>

definition client_start_live_streaming ::
  "(nat \<Rightarrow> host) \<Rightarrow> recv list \<Rightarrow> u32 \<Rightarrow> u8 \<Rightarrow> client \<Rightarrow> client_call" where
  "client_start_live_streaming hs arriving rate ch =
     start_live_streaming_with_decoder hs (live_decoder_new arriving rate ch)"

definition start_group_live_streaming_with_decoder :: "(nat \<Rightarrow> host) \<Rightarrow> live_decoder \<Rightarrow> client \<Rightarrow> client_call" where
  "start_group_live_streaming_with_decoder hs d c =
     on_client_group (group_start_live_streaming hs (cl_config c) (cl_delay c) d) c"

definition start_group_live_streaming ::
  "(nat \<Rightarrow> host) \<Rightarrow> recv list \<Rightarrow> u32 \<Rightarrow> u8 \<Rightarrow> client \<Rightarrow> client_call" where
  "start_group_live_streaming hs arriving rate ch =
     start_group_live_streaming_with_decoder hs (live_decoder_new arriving rate ch)"

section \<open>Queries\<close>

definition client_playback_state :: "client \<Rightarrow> playback_state" where
  "client_playback_state c =
     (case Option.bind (cl_group c) gs_playback of
        Some st \<Rightarrow> st
      | None \<Rightarrow> (case cl_connection c of None \<Rightarrow> PbStopped | Some p \<Rightarrow> cn_playback p))"

definition client_playback_position :: "client \<Rightarrow> rat" where
  "client_playback_position c = (case cl_connection c of None \<Rightarrow> 0 | Some p \<Rightarrow> playback_position p)"

text \<open>\<open>wait_for_completion\<close>, over the client as it is at each poll: whether it has returned by then.\<close>

fun wait_for_completion :: "client list \<Rightarrow> bool" where
  "wait_for_completion [] = False"
| "wait_for_completion (c # polls) =
     (client_playback_state c = PbStopped \<or> client_playback_state c = PbError \<or> wait_for_completion polls)"

definition client_is_group_connected :: "client \<Rightarrow> bool" where
  "client_is_group_connected c = (case cl_group c of None \<Rightarrow> False | Some g \<Rightarrow> group_is_connected g)"

definition client_group_device_count :: "client \<Rightarrow> nat" where
  "client_group_device_count c = (case cl_group c of None \<Rightarrow> 0 | Some g \<Rightarrow> group_device_count g)"

definition client_stats_snapshot :: "client \<Rightarrow> stats_snapshot" where
  "client_stats_snapshot c =
     (case cl_group c of Some g \<Rightarrow> group_stats_snapshot g
      | None \<Rightarrow>
          (case cl_connection c of
             Some p \<Rightarrow> (stats_snapshot (cn_stats p))
               \<lparr>snap_packets_sent := streamer_packets_sent p, snap_underruns := streamer_underruns p\<rparr>
           | None \<Rightarrow> stats_snapshot stream_stats_new))"

section \<open>What connecting returns\<close>

text \<open>A connection after SETUP: nothing is streaming, and the receiver's ports are known.\<close>

definition just_set_up :: "device \<Rightarrow> stream_config \<Rightarrow> connection \<Rightarrow> bool" where
  "just_set_up dev cfg c \<longleftrightarrow> cn_device c = dev \<and> cn_config c = cfg \<and> cn_playback c = PbStopped \<and>
     cn_streamer c = None \<and> \<not> cn_listener c \<and> conn_state c = session_state.Ready \<and> cn_control_rx c \<and>
     ports (cn_session c) \<noteq> None"

definition idle_on :: "device \<Rightarrow> stream_config \<Rightarrow> connection \<Rightarrow> bool" where
  "idle_on dev cfg c \<longleftrightarrow> cn_device c = dev \<and> cn_config c = cfg \<and> cn_playback c = PbStopped \<and>
     cn_streamer c = None \<and> \<not> cn_listener c"

lemma idle_free: "setup_free (idle_on dev cfg)" "clock_free (idle_on dev cfg)"
  by (simp_all add: setup_free_def link_free_def clock_free_def idle_on_def)

lemma just_set_up_free: "link_free (just_set_up dev cfg)"
  by (simp add: link_free_def just_set_up_def)

lemma just_set_up_inv: "just_set_up dev cfg c \<Longrightarrow> conn_inv c"
  by (simp add: just_set_up_def conn_inv_def)

lemma set_up_connection:
  assumes "connection_setup h c = (Inr (), c')" and "idle_on dev cfg c"
  shows "just_set_up dev cfg c'"
  using ensures_Inr [OF setup_ensures [OF idle_free assms(2)] assms(1)]
  by (simp add: just_set_up_def idle_on_def)

lemma setup_delay: "connection_setup h c = (Inr (), c') \<Longrightarrow> cn_render_delay_ms c' = cn_render_delay_ms c"
  using ensures_Inr [OF setup_ensures [where P = "\<lambda>c'. cn_render_delay_ms c' = cn_render_delay_ms c" and c = c and h = h]]
  by (simp add: setup_free_def link_free_def clock_free_def)

lemma disconnect_group_end:
  "ensures (disconnect_group hs c)
     (\<lambda>_ c'. cl_connection c' = cl_connection c \<and> cl_config c' = cl_config c \<and> cl_delay c' = cl_delay c)
     (\<lambda>e _. e = Panic)"
proof (cases "cl_group c")
  case (Some g)
  have "ensures (each_member (\<lambda>i. conn_disconnect (hs i)) 1 (gs_connections (drop_streamer g)))
      (\<lambda>_ cs'. \<forall>c \<in> set cs'. True) (\<lambda>e _. e = Panic)"
    by (rule each_member_ensures [OF ensures_weaken [OF disconnect_end]]) simp_all
  then have "ensures (group_disconnect hs g) (\<lambda>_ _. True) (\<lambda>e _. e = Panic)"
    by (auto simp: group_disconnect_def ensures_def bind_in_def Let_def split: prod.splits sum.splits)
  with Some show ?thesis
    by (auto simp: disconnect_group_def ensures_def split: prod.splits sum.splits)
qed (simp add: disconnect_group_def)

lemma disconnect_connection_end:
  "ensures (disconnect_connection hs c)
     (\<lambda>_ c'. cl_group c' = cl_group c \<and> cl_config c' = cl_config c \<and> cl_delay c' = cl_delay c)
     (\<lambda>e _. e = Panic)"
proof (cases "cl_connection c")
  case (Some p)
  with disconnect_end [of "hs 0" p] show ?thesis
    by (auto simp: disconnect_connection_def ensures_def split: prod.splits sum.splits)
qed (simp add: disconnect_connection_def)

lemma client_disconnect_end:
  "ensures (client_disconnect hs c)
     (\<lambda>_ c'. cl_connection c' = None \<and> cl_group c' = None \<and> cl_config c' = cl_config c \<and> cl_delay c' = cl_delay c)
     (\<lambda>e _. e = Panic)"
  unfolding client_disconnect_def
  by (rule ensures_bind [OF disconnect_group_end],
      rule ensures_bind [OF ensures_weaken [OF disconnect_connection_end]]) auto

lemma new_connection_end:
  assumes "new_connection h w dev pin c = Some r"
  shows "ensures r
    (\<lambda>_ c'. cl_group c' = cl_group c \<and> (\<exists>p. cl_connection c' = Some p \<and> just_set_up dev (cl_config c) p \<and>
        cn_render_delay_ms p = cl_delay c))
    (\<lambda>_ c'. c' = c)"
proof -
  obtain res lk where 1: "connect_with_pin h w dev (cl_config c) pin = Some (res, lk)"
    using assms by (auto simp: new_connection_def)
  show ?thesis
  proof (cases res)
    case (Inl e)
    with assms 1 show ?thesis by (auto simp: new_connection_def)
  next
    case (Inr p)
    note f = connected_fields [OF 1 [unfolded Inr]]
    let ?p = "conn_set_render_delay_ms (cl_delay c) p"
    obtain res2 p2 where 2: "connection_setup h ?p = (res2, p2)" by fastforce
    have idle: "idle_on dev (cl_config c) ?p" using f by (simp add: idle_on_def conn_set_render_delay_ms_def)
    have r: "r = (case res2 of Inl e \<Rightarrow> (Inl e, c) | Inr _ \<Rightarrow> (Inr (), c\<lparr>cl_connection := Some p2\<rparr>))"
      using assms 1 Inr 2 by (auto simp: new_connection_def split: sum.splits)
    show ?thesis
    proof (cases res2)
      case (Inr u)
      with set_up_connection [OF _ idle, of h p2] setup_delay [of h ?p p2] 2 r show ?thesis
        by (simp add: conn_set_render_delay_ms_def)
    qed (simp add: r)
  qed
qed

section \<open>What connecting a group returns\<close>

lemma connect_all_Inr:
  "connect_all hs ws cfg i devs = Some (Inr conns) \<Longrightarrow>
   list_all2 (\<lambda>dev c. idle_on dev cfg c \<and> conn_state c = Paired) devs conns"
proof (induction devs arbitrary: i conns)
  case (Cons dev devs)
  from Cons.prems obtain c lk rest where
    1: "connect_with_pin (hs i) (ws i) dev cfg DEFAULT_TRANSIENT_PIN = Some (Inr c, lk)"
    and 2: "connect_all hs ws cfg (Suc i) devs = Some (Inr rest)" "conns = c # rest"
    by (auto simp: connect_auto_def map_sum_eq_Inr split: option.splits prod.splits sum.splits)
  from Cons.IH [OF 2(1)] connected_fields [OF 1] 2(2) show ?case by (simp add: idle_on_def)
qed simp

text \<open>What a member of a group agrees on with the primary.\<close>

definition agreed :: "u32 \<Rightarrow> bytes \<Rightarrow> clock_offset \<Rightarrow> connection \<Rightarrow> bool" where
  "agreed delay clock_id off c \<longleftrightarrow> cn_render_delay_ms c = delay \<and> cn_clock_id c = Some clock_id \<and>
     cn_timing_offset c = Some off"

lemma agreed_free: "link_free (agreed delay clock_id off)"
  by (simp add: agreed_def link_free_def)

lemma setup_for_group_end:
  assumes "setup_for_group h clock_id off tx c = (Inr (), c')" and "idle_on dev cfg c"
  shows "just_set_up dev cfg c' \<and> cn_clock_id c' = Some clock_id \<and> cn_timing_offset c' = Some off"
proof -
  obtain ip c1 where 1: "setup_rtsp_media_session h PTP_EVENT_PORT (local_rtsp_addresses h) c = (Inr ip, c1)"
    and c': "c' = c1\<lparr>cn_clock_id := Some clock_id, cn_timing_offset := Some off, cn_timing_tx := Some off,
      cn_timing_task := True\<rparr>"
    using assms(1) by (auto simp: setup_for_group_def bind_in_Inr)
  from ensures_Inr [OF setup_media_ensures [OF idle_free(1) assms(2)] 1] c' show ?thesis
    by (simp add: just_set_up_def idle_on_def)
qed

lemma setup_member_end:
  assumes "setup_member h delay peers clock_id off tx c = (Inr (), c')" and "idle_on dev cfg c"
  shows "just_set_up dev cfg c' \<and> agreed delay clock_id off c'"
proof -
  obtain c1 where 1: "setup_for_group h clock_id off tx c = (Inr (), c1)"
    and 2: "send_setpeers h peers (conn_set_render_delay_ms delay c1) = (Inr (), c')"
    using assms(1) by (auto simp: setup_member_def bind_in_Inr)
  let ?P = "\<lambda>c. just_set_up dev cfg c \<and> agreed delay clock_id off c"
  have "link_free ?P" using just_set_up_free [of dev cfg] agreed_free [of delay clock_id off] by (simp add: link_free_def)
  moreover have "?P (conn_set_render_delay_ms delay c1)"
    using setup_for_group_end [OF 1 assms(2)]
    by (simp add: just_set_up_def agreed_def conn_set_render_delay_ms_def)
  ultimately show ?thesis by (rule ensures_Inr [OF setpeers_keeps 2])
qed

lemma setup_members_end:
  "setup_members hs delay peers clock_id off tx i cs = Inr cs' \<Longrightarrow>
   list_all2 (\<lambda>dev c. idle_on dev cfg c \<and> conn_state c = Paired) devs cs \<Longrightarrow>
   list_all2 (\<lambda>dev c. just_set_up dev cfg c \<and> agreed delay clock_id off c) devs cs'"
proof (induction cs arbitrary: i cs' devs)
  case (Cons c cs)
  from Cons.prems(2) obtain dev devs' where d: "devs = dev # devs'" "idle_on dev cfg c"
    "list_all2 (\<lambda>dev c. idle_on dev cfg c \<and> conn_state c = Paired) devs' cs"
    by (auto simp: list_all2_Cons2)
  from Cons.prems(1) obtain c1 rest where 1: "setup_member (hs i) delay peers clock_id off tx c = (Inr (), c1)"
    and 2: "setup_members hs delay peers clock_id off tx (Suc i) cs = Inr rest" "cs' = c1 # rest"
    by (auto simp: map_sum_eq_Inr split: prod.splits sum.splits)
  from Cons.IH [OF 2(1) d(3)] setup_member_end [OF 1 d(2)] 2(2) d(1) show ?case by simp
qed simp

lemma setup_primary_end:
  assumes "setup_primary h delay peers c = (Inr (), c')" and "idle_on dev cfg c"
  shows "just_set_up dev cfg c' \<and> cn_render_delay_ms c' = delay"
proof -
  obtain c1 where 1: "connection_setup h c = (Inr (), c1)"
    and 2: "send_setpeers h peers (conn_set_render_delay_ms delay c1) = (Inr (), c')"
    using assms(1) by (auto simp: setup_primary_def bind_in_Inr)
  let ?P = "\<lambda>c. just_set_up dev cfg c \<and> cn_render_delay_ms c = delay"
  have "link_free ?P" using just_set_up_free [of dev cfg] by (simp add: link_free_def)
  moreover have "?P (conn_set_render_delay_ms delay c1)"
    using set_up_connection [OF 1 assms(2)] by (simp add: just_set_up_def conn_set_render_delay_ms_def)
  ultimately show ?thesis by (rule ensures_Inr [OF setpeers_keeps 2])
qed

lemma set_up_group_end:
  assumes "set_up_group hs delay peers c cs = Inr (p, ms)"
    and "list_all2 (\<lambda>dev c. idle_on dev cfg c \<and> conn_state c = Paired) devs (c # cs)"
  shows "\<exists>clock_id off. list_all2 (\<lambda>dev c. just_set_up dev cfg c \<and> agreed delay clock_id off c) devs (p # ms)"
proof -
  obtain dev devs' where d: "devs = dev # devs'" "idle_on dev cfg c"
    "list_all2 (\<lambda>dev c. idle_on dev cfg c \<and> conn_state c = Paired) devs' cs"
    using assms(2) by (auto simp: list_all2_Cons2)
  obtain clock_id off tx where 1: "setup_primary (hs 0) delay peers c = (Inr (), p)"
    and 2: "cn_clock_id p = Some clock_id" "cn_timing_offset p = Some off"
    and 3: "setup_members hs delay peers clock_id off tx 1 cs = Inr ms"
    using assms(1)
    by (auto simp: set_up_group_def and_then_eq_Inr map_sum_eq_Inr map_err_Inr ok_or_Inr split: prod.splits sum.splits)
  from setup_primary_end [OF 1 d(2)] 2 have "just_set_up dev cfg p \<and> agreed delay clock_id off p"
    by (simp add: agreed_def)
  with setup_members_end [OF 3 d(3)] d(1) show ?thesis by auto
qed

section \<open>The calls of a client\<close>

datatype client_op =
    OpConnect host shake device string | OpDisconnect | OpStart live_decoder | OpPause | OpResume | OpStop
  | OpVolumeLinear f32 | OpVolumeDb f32 | OpFeedback
  | OpConnectGroup "nat \<Rightarrow> host" "nat \<Rightarrow> shake" "audio_format \<Rightarrow> bytes" "device list"
  | OpStartGroup live_decoder

fun client_op_step :: "(nat \<Rightarrow> host) \<Rightarrow> client_op \<Rightarrow> client \<Rightarrow> client_call option" where
  "client_op_step hs (OpConnect h w dev pin) c = client_connect_with_pin hs h w dev pin c"
| "client_op_step hs OpDisconnect c = Some (client_disconnect hs c)"
| "client_op_step hs (OpStart d) c = Some (start_live_streaming_with_decoder hs d c)"
| "client_op_step hs OpPause c = Some (client_pause hs c)"
| "client_op_step hs OpResume c = Some (client_resume hs c)"
| "client_op_step hs OpStop c = Some (client_stop hs c)"
| "client_op_step hs (OpVolumeLinear v) c = Some (client_set_volume_linear hs v c)"
| "client_op_step hs (OpVolumeDb v) c = Some (client_set_volume_db hs v c)"
| "client_op_step hs OpFeedback c = Some (client_send_feedback hs c)"
| "client_op_step hs (OpConnectGroup hs' ws cookie devs) c = connect_group hs hs' ws cookie devs c"
| "client_op_step hs (OpStartGroup d) c = Some (start_group_live_streaming_with_decoder hs d c)"

text \<open>Between two calls the streaming tasks may have changed their streamers.\<close>

definition client_moved :: "audio_streamer \<Rightarrow> audio_streamer \<Rightarrow> client \<Rightarrow> client" where
  "client_moved s s' c = c\<lparr>cl_connection := map_option (streamer_moved s) (cl_connection c),
     cl_group := map_option (map_group_streamer (\<lambda>_. s')) (cl_group c)\<rparr>"

text \<open>A run of calls, each in a world of its own; it ends at a panic, or with a call that never returns.\<close>

fun client_run ::
  "((nat \<Rightarrow> host) \<times> audio_streamer \<times> audio_streamer \<times> client_op) list \<Rightarrow> client \<Rightarrow> client option" where
  "client_run [] c = Some c"
| "client_run ((hs, s, s', call) # calls) c =
     (case client_op_step hs call (client_moved s s' c) of
        None \<Rightarrow> None
      | Some (Inl Panic, c') \<Rightarrow> None
      | Some (_, c') \<Rightarrow> client_run calls c')"

definition client_inv :: "client \<Rightarrow> bool" where
  "client_inv c \<longleftrightarrow>
     (case cl_connection c of None \<Rightarrow> cl_group c = None
      | Some p \<Rightarrow> (case cl_group c of None \<Rightarrow> conn_inv p | Some g \<Rightarrow> group_inv (g, p)))"

abbreviation keeps_client :: "client_call \<Rightarrow> bool" where
  "keeps_client r \<equiv> ensures r (\<lambda>_. client_inv) (\<lambda>e c. e = Panic \<or> client_inv c)"

lemma client_inv_connection: "client_inv c \<Longrightarrow> cl_connection c = Some p \<Longrightarrow> conn_inv p"
  by (auto simp: client_inv_def group_inv_def split: option.splits)

lemma client_inv_with: "client_inv c \<Longrightarrow> cl_connection c = Some p \<Longrightarrow> conn_inv p' \<Longrightarrow> client_inv (c\<lparr>cl_connection := Some p'\<rparr>)"
  by (auto simp: client_inv_def group_inv_def split: option.splits)

lemma on_connection_keeps:
  assumes "\<And>p. conn_inv p \<Longrightarrow> ensures (f p) (\<lambda>_. conn_inv) (\<lambda>_. conn_inv)" and "client_inv c"
  shows "keeps_client (on_connection f c)"
proof (cases "cl_connection c")
  case (Some p)
  from assms(1) [OF client_inv_connection [OF assms(2) Some]] client_inv_with [OF assms(2) Some]
  show ?thesis
    by (auto simp: on_connection_def Some ensures_def split: prod.splits sum.splits)
qed (use assms(2) in \<open>simp add: on_connection_def\<close>)

lemma on_client_group_keeps:
  assumes "\<And>gp. group_inv gp \<Longrightarrow> keeps_group (f gp)" and "client_inv c"
  shows "keeps_client (on_client_group f c)"
proof (cases "cl_connection c = None \<or> cl_group c = None")
  case False
  then obtain p g where c: "cl_connection c = Some p" "cl_group c = Some g" by auto
  then have "keeps_group (f (g, p))" using assms by (simp add: client_inv_def)
  with c show ?thesis
    by (auto simp: on_client_group_def ensures_def client_inv_def split: prod.splits sum.splits)
qed (use assms(2) in \<open>auto simp: on_client_group_def split: option.splits\<close>)

lemma route_keeps:
  assumes "\<And>gp. group_inv gp \<Longrightarrow> keeps_group (f gp)"
    and "\<And>p. conn_inv p \<Longrightarrow> ensures (f1 p) (\<lambda>_. conn_inv) (\<lambda>_. conn_inv)" and "client_inv c"
  shows "keeps_client (route f f1 c)"
  using on_client_group_keeps [OF assms(1,3)] on_connection_keeps [OF assms(2,3)] by (simp add: route_def)

lemma both_keeps:
  assumes "\<And>gp. group_inv gp \<Longrightarrow> keeps_group (f gp)"
    and "\<And>p. conn_inv p \<Longrightarrow> ensures (f1 p) (\<lambda>_. conn_inv) (\<lambda>_. conn_inv)" and "client_inv c"
  shows "keeps_client (both f1 f c)"
  unfolding both_def
  by (rule ensures_bind [OF on_connection_keeps [OF assms(2,3)]], assumption)
    (simp add: on_client_group_keeps [OF assms(1)])

lemma disconnect_keeps: "keeps_client (client_disconnect hs c)"
  by (rule ensures_weaken [OF client_disconnect_end]) (simp_all add: client_inv_def)

text \<open>What an established connection or group looks like, and what a failure leaves.\<close>

definition detached :: "client \<Rightarrow> bool" where
  "detached c \<longleftrightarrow> cl_connection c = None \<and> cl_group c = None"

lemma connect_end:
  assumes "client_connect_with_pin hs h w dev pin c = Some r" and "client_inv c"
  shows "ensures r
    (\<lambda>_ c'. cl_group c' = None \<and> (\<exists>p. cl_connection c' = Some p \<and> just_set_up dev (cl_config c) p \<and>
        cn_render_delay_ms p = cl_delay c))
    (\<lambda>e c'. e = Panic \<or> detached c')"
proof -
  obtain d c1 where d: "(if cl_connection c \<noteq> None then client_disconnect hs c else (Inr (), c)) = (d, c1)" by fastforce
  have "ensures (d, c1) (\<lambda>_ c'. detached c' \<and> cl_config c' = cl_config c \<and> cl_delay c' = cl_delay c) (\<lambda>e _. e = Panic)"
    unfolding d [symmetric] using assms(2) client_disconnect_end [of hs c]
    by (auto simp: detached_def client_inv_def ensures_def split: option.splits)
  moreover have "r = (Inl e, c1)" if "d = Inl e" for e
    using assms(1) [unfolded client_connect_with_pin_def d] that by simp
  moreover have "new_connection h w dev pin c1 = Some r" if "d = Inr ()"
    using assms(1) [unfolded client_connect_with_pin_def d] that by simp
  ultimately show ?thesis
    using new_connection_end [of h w dev pin c1 r]
    by (cases d) (auto simp: detached_def ensures_def split: prod.splits sum.splits)
qed

lemma connect_group_end:
  assumes "connect_group old hs ws cookie devices c = Some r"
  shows "ensures r
    (\<lambda>_ c'. \<exists>p ms clock_id off. cl_connection c' = Some p \<and> cl_group c' = Some (group_new ms) \<and>
        list_all2 (\<lambda>dev m. just_set_up dev (group_config cookie (cl_config c)) m \<and> agreed (cl_delay c) clock_id off m)
          devices (p # ms))
    (\<lambda>e c'. e = Panic \<or> detached c' \<or> c' = c \<and> length devices < 2)"
proof (cases "length devices < 2")
  case True
  with assms show ?thesis by (auto simp: connect_group_def)
next
  case False
  obtain d c1 where d: "client_disconnect old c = (d, c1)" by fastforce
  from client_disconnect_end [of old c]
  have e: "ensures (d, c1) (\<lambda>_ c'. detached c' \<and> cl_config c' = cl_config c \<and> cl_delay c' = cl_delay c) (\<lambda>e _. e = Panic)"
    unfolding d by (simp add: detached_def)
  show ?thesis
  proof (cases d)
    case (Inl e')
    with assms False d e show ?thesis by (auto simp: connect_group_def)
  next
    case (Inr u)
    with e have c1: "detached c1" "cl_config c1 = cl_config c" "cl_delay c1 = cl_delay c" by simp_all
    from assms False d Inr obtain conns where
      1: "connect_all hs ws (group_config cookie (cl_config c1)) 0 devices = Some conns"
      and r: "r = (case and_then conns (\<lambda>conns.
                    set_up_group hs (cl_delay c1) (peer_addresses (hs 0) devices) (hd conns) (tl conns)) of
               Inl e \<Rightarrow> (Inl e, c1)
             | Inr (primary, members) \<Rightarrow>
                 (Inr (), c1\<lparr>cl_connection := Some primary, cl_group := Some (group_new members)\<rparr>))"
      by (auto simp: connect_group_def)
    show ?thesis
    proof (cases "and_then conns (\<lambda>conns.
                    set_up_group hs (cl_delay c1) (peer_addresses (hs 0) devices) (hd conns) (tl conns))")
      case (Inl e')
      with r c1 show ?thesis by simp
    next
      case ok: (Inr pm)
      obtain p ms where pm: "pm = (p, ms)" by fastforce
      from ok pm obtain cs where 2: "conns = Inr cs"
        "set_up_group hs (cl_delay c1) (peer_addresses (hs 0) devices) (hd cs) (tl cs) = Inr (p, ms)"
        by (auto simp: and_then_eq_Inr)
      note all = connect_all_Inr [OF 1 [unfolded 2(1)]]
      then obtain m rest where cs: "cs = m # rest" using False by (cases cs) auto
      obtain clock_id off where
        "list_all2 (\<lambda>dev m. just_set_up dev (group_config cookie (cl_config c1)) m \<and> agreed (cl_delay c1) clock_id off m)
          devices (p # ms)"
        using set_up_group_end [OF 2(2) [unfolded cs list.sel] all [unfolded cs]] by blast
      moreover have "r = (Inr (), c1\<lparr>cl_connection := Some p, cl_group := Some (group_new ms)\<rparr>)"
        unfolding r ok pm by simp
      ultimately show ?thesis by (auto simp: c1)
    qed
  qed
qed

lemma established_inv:
  "cl_group c = None \<Longrightarrow> cl_connection c = Some p \<Longrightarrow> just_set_up dev cfg p \<Longrightarrow> client_inv c"
  by (simp add: client_inv_def just_set_up_inv)

lemma group_established_inv:
  assumes "cl_connection c = Some p" and "cl_group c = Some (group_new ms)"
    and "list_all2 (\<lambda>dev m. just_set_up dev cfg m \<and> agreed delay clock_id off m) devices (p # ms)"
  shows "client_inv c"
proof -
  have ok: "conn_inv m \<and> cn_streamer m = None" if "m \<in> set (p # ms)" for m
  proof -
    obtain i where i: "i < length (p # ms)" "m = (p # ms) ! i" using \<open>m \<in> set (p # ms)\<close> by (metis in_set_conv_nth)
    have "just_set_up (devices ! i) cfg m" using list_all2_nthD2 [OF assms(3) i(1)] by (simp add: i(2))
    then show ?thesis using just_set_up_inv by (simp add: just_set_up_def)
  qed
  then show ?thesis
    using assms(1,2) by (simp add: client_inv_def group_inv_def group_new_def member_ok_def)
qed

lemma client_op_keeps:
  assumes "client_inv c" and "client_op_step hs call c = Some r" shows "keeps_client r"
proof (cases call)
  case (OpConnect h w dev pin)
  show ?thesis
    by (rule ensures_weaken [OF connect_end [OF _ assms(1)]])
      (use assms(2) OpConnect established_inv in \<open>auto simp: client_inv_def detached_def\<close>)
next
  case (OpConnectGroup hs' ws cookie devs)
  show ?thesis
    by (rule ensures_weaken [OF connect_group_end])
      (use assms OpConnectGroup group_established_inv in \<open>auto simp: client_inv_def detached_def\<close>)
qed (use assms(2) in \<open>auto simp: client_pause_def client_resume_def client_stop_def client_set_volume_linear_def
    client_set_volume_db_def client_send_feedback_def start_live_streaming_with_decoder_def
    start_group_live_streaming_with_decoder_def
    intro!: disconnect_keeps route_keeps both_keeps on_connection_keeps on_client_group_keeps assms(1)
      group_pause_keeps group_resume_keeps group_stop_keeps group_start_keeps group_members_keep
      pause_inv resume_inv stop_inv start_inv volume_linear_keeps volume_db_keeps feedback_keeps volume_free_inv\<close>)

lemma client_moved_inv [simp]: "client_inv (client_moved s s' c) = client_inv c"
  by (auto simp: client_inv_def client_moved_def group_inv_def map_group_streamer_def split: option.splits)

lemma client_run_inv: "client_run calls c = Some c' \<Longrightarrow> client_inv c \<Longrightarrow> client_inv c'"
proof (induction calls c rule: client_run.induct)
  case (2 hs s s' call calls c)
  from "2.prems"(1) obtain res c1 where r: "client_op_step hs call (client_moved s s' c) = Some (res, c1)"
    by (auto split: option.splits)
  have "keeps_client (res, c1)" by (rule client_op_keeps [OF _ r]) (simp add: "2.prems"(2))
  with 2 r show ?case by (auto split: sum.splits fault.splits)
qed simp

section \<open>Playback states\<close>

lemma moved_playback_state: "client_playback_state (client_moved s s' c) = client_playback_state c"
  by (cases "cl_group c"; cases "cl_connection c")
    (simp_all add: client_playback_state_def client_moved_def streamer_moved_def map_streamer_def
      map_group_streamer_def split: option.split)

lemma started_plays:
  assumes "start_live_streaming_with_decoder hs d c = (Inr (), c')" and "cl_group c = None"
  shows "client_playback_state c' = PbPlaying"
proof -
  obtain p p' where 1: "start_streaming_live (hs 0) d p = (Inr (), p')" "c' = c\<lparr>cl_connection := Some p'\<rparr>"
    using assms(1) by (auto simp: start_live_streaming_with_decoder_def on_connection_def
        split: option.splits prod.splits)
  have "cn_playback p' = PbPlaying" by (rule start_streaming_steps [OF 1(1)])
  with 1(2) assms(2) show ?thesis by (simp add: client_playback_state_def)
qed

lemma group_started_plays:
  assumes "start_group_live_streaming_with_decoder hs d c = (Inr (), c')"
  shows "client_playback_state c' = PbPlaying"
proof -
  obtain g p g' p' where 1: "group_start_live_streaming hs (cl_config c) (cl_delay c) d (g, p) = (Inr (), g', p')"
      "c' = c\<lparr>cl_connection := Some p', cl_group := Some g'\<rparr>"
    using assms by (auto simp: start_group_live_streaming_with_decoder_def on_client_group_def
        split: option.splits prod.splits)
  have "gs_playback g' = Some PbPlaying" by (rule group_start_steps [OF 1(1)]) simp
  with 1(2) show ?thesis by (simp add: client_playback_state_def)
qed

section \<open>A sample client\<close>

definition sample_client :: client where
  "sample_client = \<lparr> cl_browser = service_browser_new, cl_connection = Some sample_connection,
     cl_group = None, cl_config = default_config, cl_delay = 200 \<rparr>"

lemma sample_client_start:
  "\<exists>c'. start_live_streaming_with_decoder (\<lambda>_. sample_host) sample_decoder sample_client = (Inr (), c')"
  using sample_start [of sample_decoder]
  by (auto simp: start_live_streaming_with_decoder_def on_connection_def sample_client_def)

definition empty_client :: client where
  "empty_client = \<lparr> cl_browser = service_browser_new, cl_connection = None, cl_group = None,
     cl_config = default_config, cl_delay = 200 \<rparr>"

lemma empty_client_facts:
  "client_with_config (Inr ()) default_config = Inr empty_client" "client_inv empty_client"
  "cl_connection empty_client = None" "cl_group empty_client = None"
  by (simp_all add: client_with_config_def empty_client_def DEFAULT_RENDER_DELAY_MS_def client_inv_def)

lemma sample_client_connects:
  "\<exists>c'. client_connect_with_pin hs answering_host (answering_shake []) sample_receiver ''3939'' empty_client =
     Some (Inr (), c')"
proof -
  obtain p lk where 1: "connect_with_pin answering_host (answering_shake []) sample_receiver (cl_config empty_client) ''3939'' =
      Some (Inr p, lk)"
    "sealed_link sample_key 0 (sealed_reply sample_key 0 # sealed_reply sample_key 1 # silence # []) (cn_link p)"
    using answering_connect by blast
  note f = connected_fields [OF 1(1)]
  let ?p = "conn_set_render_delay_ms (cl_delay empty_client) p"
  obtain c1 where "connection_setup answering_host ?p = (Inr (), setup_clock answering_host c1)"
    using connection_setup_answered [of sample_key "[]" ?p answering_host] 1(2) f answering_host_answers
    by (auto simp: conn_set_render_delay_ms_def)
  then show ?thesis
    by (simp add: client_connect_with_pin_def new_connection_def empty_client_facts 1(1))
qed

lemma setpeers_answered:
  assumes "sealed_link k n (sealed_reply k n # xs) (cn_link c)"
  shows "\<exists>c'. send_setpeers answering_host peers c = (Inr (), c') \<and> cn_clock_id c' = cn_clock_id c \<and>
    cn_timing_offset c' = cn_timing_offset c \<and> cn_timing_tx c' = cn_timing_tx c"
proof -
  obtain resp lk where "send_request answering_host (setpeers_request [3]) c = (Inr resp, c\<lparr>cn_link := lk\<rparr>)"
    by (rule send_request_answered [OF assms answering_host_aead])
  then show ?thesis
    by (simp add: send_setpeers_def build_setpeers_def plist_codec_def answering_host_def answering_plists_def
        toy_plists_def)
qed

lemma sample_primary_set_up:
  assumes "sealed_link k 0 (sealed_reply k 0 # sealed_reply k 1 # silence # sealed_reply k 2 # xs) (cn_link c)"
    and "conn_state c = Paired" and "cn_device c = sample_receiver"
    and "timing_protocol (cn_config c) = Ptp" and "ptp_mode (cn_config c) = Master"
  shows "\<exists>c' i off tx. setup_primary answering_host delay peers c = (Inr (), c') \<and> cn_clock_id c' = Some i \<and>
    cn_timing_offset c' = Some off \<and> cn_timing_tx c' = Some tx"
proof -
  obtain c1 where 1: "connection_setup answering_host c = (Inr (), setup_clock answering_host c1)"
      "sealed_link k 2 (sealed_reply k 2 # xs) (cn_link c1)" "cn_config c1 = cn_config c"
    using connection_setup_answered [OF assms(1-3) answering_host_answers] by blast
  let ?c2 = "conn_set_render_delay_ms delay (setup_clock answering_host c1)"
  have 2: "sealed_link k 2 (sealed_reply k 2 # xs) (cn_link ?c2)" "cn_clock_id ?c2 \<noteq> None"
      "cn_timing_offset ?c2 \<noteq> None" "cn_timing_tx ?c2 \<noteq> None"
    using 1(2,3) assms(4,5)
    by (simp_all add: conn_set_render_delay_ms_def setup_clock_def answering_host_def Let_def)
  from setpeers_answered [OF 2(1), of peers] 2(2-4) show ?thesis by (auto simp: setup_primary_def 1(1))
qed

lemma sample_member_set_up:
  assumes "sealed_link k 0 (sealed_reply k 0 # sealed_reply k 1 # silence # sealed_reply k 2 # xs) (cn_link c)"
    and "conn_state c = Paired" and "cn_device c = sample_receiver"
  shows "\<exists>c'. setup_member answering_host delay peers i off tx c = (Inr (), c')"
proof -
  obtain addr c1 where 1: "setup_rtsp_media_session answering_host PTP_EVENT_PORT (local_rtsp_addresses answering_host) c =
      (Inr addr, c1)" "sealed_link k 2 (sealed_reply k 2 # xs) (cn_link c1)"
    using setup_answered [OF assms answering_host_answers] by blast
  then have "sealed_link k 2 (sealed_reply k 2 # xs) (cn_link (conn_set_render_delay_ms delay
      (c1\<lparr>cn_clock_id := Some i, cn_timing_offset := Some off, cn_timing_tx := Some off, cn_timing_task := True\<rparr>)))"
    by (simp add: conn_set_render_delay_ms_def)
  from setpeers_answered [OF this, of peers] show ?thesis
    by (auto simp: setup_member_def setup_for_group_def 1(1))
qed

lemma sample_group_connects:
  "\<exists>c'. connect_group hs (\<lambda>_. answering_host) (\<lambda>_. answering_shake [sealed_reply sample_key 2]) (\<lambda>_. [7])
     [sample_receiver, sample_receiver] empty_client = Some (Inr (), c')"
proof -
  let ?h = answering_host and ?cfg = "group_config (\<lambda>_. [7]) (cl_config empty_client)"
  obtain p lk where 1: "connect_with_pin ?h (answering_shake [sealed_reply sample_key 2]) sample_receiver ?cfg ''3939'' =
      Some (Inr p, lk)" "sealed_link sample_key 0 (sealed_reply sample_key 0 # sealed_reply sample_key 1 # silence #
        [sealed_reply sample_key 2]) (cn_link p)"
    using answering_connect by blast
  note f = connected_fields [OF 1(1)]
  have ptp: "timing_protocol ?cfg = Ptp" "ptp_mode ?cfg = Master" by (simp_all add: group_config_def Let_def)
  let ?peers = "peer_addresses ?h [sample_receiver, sample_receiver]"
  obtain p' i off tx where 2: "setup_primary ?h 200 ?peers p = (Inr (), p')" "cn_clock_id p' = Some i"
      "cn_timing_offset p' = Some off" "cn_timing_tx p' = Some tx"
    using sample_primary_set_up [OF 1(2)] f ptp by fastforce
  obtain m where 3: "setup_member ?h 200 ?peers i off tx p = (Inr (), m)"
    using sample_member_set_up [OF 1(2)] f by blast
  have delay: "cl_delay empty_client = 200" by (simp add: empty_client_def)
  show ?thesis
    by (simp add: connect_group_def client_disconnect_def disconnect_group_def disconnect_connection_def
        empty_client_facts connect_auto_def DEFAULT_TRANSIENT_PIN_def 1(1) set_up_group_def 2 3 delay)
qed

section \<open>Claims\<close>

text \<open>C16: whatever calls are made on a client, in any order and with any answers, it stays consistent: a
  group always has its primary, every connection agrees with its session, members never stream on
  their own, and retransmissions are served only while there is a streamer.\<close>

theorem client_stays_consistent:
  assumes "client_with_config daemon cfg = Inr c" and "client_run calls c = Some c'"
  shows "client_inv c'"
  by (rule client_run_inv [OF assms(2)])
    (use assms(1) in \<open>auto simp: client_with_config_def and_then_eq_Inr client_inv_def\<close>)

theorem client_stays_consistent_witness:
  "\<exists>c'. client_run [(\<lambda>_. sample_host, sample_started, sample_started, OpConnect answering_host (answering_shake []) sample_receiver ''3939'')]
      empty_client = Some c' \<and> client_is_connected c' \<and> client_inv c'"
proof -
  obtain c' where 1: "client_connect_with_pin (\<lambda>_. sample_host) answering_host (answering_shake []) sample_receiver ''3939'' empty_client =
      Some (Inr (), c')"
    using sample_client_connects by blast
  have "client_moved s s' empty_client = empty_client" for s s'
    by (simp add: client_moved_def empty_client_def)
  then have run: "client_run [(\<lambda>_. sample_host, sample_started, sample_started,
      OpConnect answering_host (answering_shake []) sample_receiver ''3939'')] empty_client = Some c'"
    by (simp add: 1)
  have "cl_connection c' \<noteq> None"
    using connect_end [OF 1 empty_client_facts(2)] by auto
  with client_stays_consistent [OF empty_client_facts(1) run] run show ?thesis
    by (auto simp: client_is_connected_def)
qed

text \<open>C17: connecting replaces what there was. If it succeeds there is one connection, to that device, set
  up with the client's configuration and render delay and not streaming, and no group; if it fails
  (short of a panic) nothing is connected.\<close>

theorem connecting_replaces:
  assumes "client_run calls c0 = Some c" and "client_inv c0"
    and "client_connect_with_pin hs h w dev pin c = Some (res, c')"
  shows "case res of
      Inl e \<Rightarrow> e = Panic \<or> \<not> client_is_connected c' \<and> cl_group c' = None
    | Inr _ \<Rightarrow> connected_device c' = Some dev \<and> cl_group c' = None \<and> client_playback_state c' = PbStopped \<and>
        (\<exists>p. cl_connection c' = Some p \<and> just_set_up dev (cl_config c) p \<and> cn_render_delay_ms p = cl_delay c)"
  using connect_end [OF assms(3) client_run_inv [OF assms(1,2)]]
  by (auto simp: client_is_connected_def detached_def connected_device_def client_playback_state_def
      just_set_up_def split: sum.splits)

theorem connecting_replaces_witness:
  "\<exists>c' p. client_connect_with_pin (\<lambda>_. sample_host) answering_host (answering_shake []) sample_receiver ''3939'' empty_client =
      Some (Inr (), c') \<and> connected_device c' = Some sample_receiver \<and> cl_connection c' = Some p \<and>
    just_set_up sample_receiver default_config p"
proof -
  obtain c' where 1: "client_connect_with_pin (\<lambda>_. sample_host) answering_host (answering_shake []) sample_receiver ''3939'' empty_client =
      Some (Inr (), c')"
    using sample_client_connects by blast
  have "client_run [] empty_client = Some empty_client" by simp
  from connecting_replaces [OF this empty_client_facts(2) 1] 1 show ?thesis
    by (auto simp: empty_client_def)
qed

text \<open>C18: connecting a group is all or nothing. If it succeeds every device, in order, has a connection
  that is set up, and all of them share the configuration, the render delay, the primary's PTP clock
  and its offset; if it fails (short of a panic, and with two devices or more) nothing is connected.\<close>

theorem group_connects_all_or_nothing:
  assumes "connect_group old hs ws cookie devices c = Some (res, c')" and "2 \<le> length devices"
  shows "case res of
      Inl e \<Rightarrow> e = Panic \<or> \<not> client_is_connected c' \<and> cl_group c' = None
    | Inr _ \<Rightarrow> client_group_device_count c' = length devices \<and> client_playback_state c' = PbStopped \<and>
        (\<exists>p g clock_id off. cl_connection c' = Some p \<and> cl_group c' = Some g \<and>
          list_all2 (\<lambda>dev m. just_set_up dev (group_config cookie (cl_config c)) m \<and>
              agreed (cl_delay c) clock_id off m) devices (p # gs_connections g))"
proof (cases res)
  case (Inl e)
  with connect_group_end [OF assms(1)] assms(2) show ?thesis
    by (auto simp: client_is_connected_def detached_def)
next
  case (Inr u)
  with connect_group_end [OF assms(1)] obtain p ms clock_id off where
    1: "cl_connection c' = Some p" "cl_group c' = Some (group_new ms)"
      "list_all2 (\<lambda>dev m. just_set_up dev (group_config cookie (cl_config c)) m \<and> agreed (cl_delay c) clock_id off m)
         devices (p # ms)"
    by auto
  have n: "length devices = 1 + length ms" using 1(3) by (auto dest: list_all2_lengthD)
  have "cn_playback p = PbStopped" using 1(3) by (auto simp: list_all2_Cons2 just_set_up_def)
  moreover have "ms \<noteq> []" using n assms(2) by auto
  ultimately show ?thesis
    using 1 n Inr
    by (auto simp: client_group_device_count_def group_device_count_def group_new_def client_playback_state_def)
qed

theorem group_connects_all_or_nothing_witness:
  "\<exists>c'. connect_group (\<lambda>_. sample_host) (\<lambda>_. answering_host) (\<lambda>_. answering_shake [sealed_reply sample_key 2]) (\<lambda>_. [7])
      [sample_receiver, sample_receiver] empty_client = Some (Inr (), c') \<and> client_group_device_count c' = 2"
proof -
  obtain c' where 1: "connect_group (\<lambda>_. sample_host) (\<lambda>_. answering_host) (\<lambda>_. answering_shake [sealed_reply sample_key 2]) (\<lambda>_. [7])
      [sample_receiver, sample_receiver] empty_client = Some (Inr (), c')"
    using sample_group_connects by blast
  have "2 \<le> length [sample_receiver, sample_receiver]" by simp
  from group_connects_all_or_nothing [OF 1 this] 1 show ?thesis by auto
qed

text \<open>Waiting for the completion of a stream never ends. The playback state is changed only by calls
  that need the client exclusively, not by the streamer, so after a start that succeeded
  \<open>wait_for_completion\<close>, which borrows the client, polls for ever: also when the source has ended and
  the streamer has stopped.\<close>

theorem waiting_never_ends:
  assumes "start_live_streaming_with_decoder hs d c = (Inr (), c') \<and> cl_group c = None \<or>
    start_group_live_streaming_with_decoder hs d c = (Inr (), c')"
  shows "\<not> wait_for_completion (map (\<lambda>(s, s'). client_moved s s' c') moves)"
proof -
  have "client_playback_state c' = PbPlaying" using assms by (auto intro: started_plays group_started_plays)
  then show ?thesis by (induction moves) (auto simp: moved_playback_state)
qed

theorem waiting_never_ends_witness:
  "\<exists>c'. start_live_streaming_with_decoder (\<lambda>_. sample_host) sample_decoder sample_client = (Inr (), c') \<and>
    \<not> wait_for_completion (map (\<lambda>(s, s'). client_moved s s' c')
      (replicate 100 (snd (streamer_stop True sample_started), sample_started)))"
proof -
  obtain c' where 1: "start_live_streaming_with_decoder (\<lambda>_. sample_host) sample_decoder sample_client = (Inr (), c')"
    using sample_client_start by blast
  have "cl_group sample_client = None" by (simp add: sample_client_def)
  with 1 waiting_never_ends [of "\<lambda>_. sample_host" sample_decoder sample_client c'] show ?thesis by blast
qed

end
