(* ===== verification/Resample.thy ===== *)
theory Resample
  imports Live_Decoder
begin

text \<open>
  The resampler, \<open>src/audio/resampler.rs\<close>: interleaved 16-bit samples are split into channels of
  \<open>f32\<close>, filtered by the sinc resampler of the \<open>rubato\<close> crate and brought back with dither.
  \<open>resampler_maker_of\<close> is the \<open>Resampler::new\<close> the live decoder calls.

  The crate, the random numbers of the dither and the operations on \<open>f32\<close> are the parameter \<open>dsp\<close>.
  What the code relies on is \<open>fixed_in\<close>, the documented behaviour of a \<open>SincFixedIn\<close>: it wants the
  number of frames it was built for, refuses fewer and reads no more. The constants of \<open>SINC_PARAMS\<close>
  other than \<open>sinc_len\<close>, and the maximal ratio, only go into the constructor and are part of it.
\<close>

section \<open>What the crates provide\<close>

record f32_pcm_ops = f32_ops +
  f32_add :: "f32 \<Rightarrow> f32 \<Rightarrow> f32"
  f32_sub :: "f32 \<Rightarrow> f32 \<Rightarrow> f32"
  f32_of_i16 :: "i16 \<Rightarrow> f32"
  f32_to_i16 :: "f32 \<Rightarrow> i16"

definition F32_HALF :: f32 where "F32_HALF = 0x3F000000"
definition F32_32767 :: f32 where "F32_32767 = 0x46FFFE00"
definition F32_32768 :: f32 where "F32_32768 = 0x47000000"
definition F32_MINUS_32768 :: f32 where "F32_MINUS_32768 = 0xC7000000"

text \<open>\<open>sinc_new\<close> takes the target and the source rate, whose quotient is the ratio, the chunk size and
  the number of channels.\<close>

record ('r, 'g) dsp =
  dsp_f32 :: f32_pcm_ops
  sinc_new :: "u32 \<Rightarrow> u32 \<Rightarrow> nat \<Rightarrow> nat \<Rightarrow> string + 'r"
  sinc_process :: "f32 list list \<Rightarrow> 'r \<Rightarrow> (string + f32 list list) \<times> 'r"
  sinc_frames_next :: "'r \<Rightarrow> nat"
  rand_f32 :: "'g \<Rightarrow> f32 \<times> 'g"

definition DEFAULT_CHUNK_SIZE :: nat where "DEFAULT_CHUNK_SIZE = 1024"
definition SINC_LEN :: nat where "SINC_LEN = 512"

section \<open>Dither\<close>

definition dither_to_i16 :: "('r, 'g) dsp \<Rightarrow> f32 \<Rightarrow> 'g \<Rightarrow> i16 \<times> 'g" where
  "dither_to_i16 E sample g =
     (let p = dsp_f32 E;
          (a, g) = rand_f32 E g; rand1 = f32_sub p a F32_HALF;
          (b, g) = rand_f32 E g; rand2 = f32_sub p b F32_HALF;
          tpdf_noise = f32_div p (f32_add p rand1 rand2) F32_32768;
          dithered = f32_add p sample tpdf_noise
      in (f32_to_i16 p (f32_clamp p (f32_mul p dithered F32_32767) F32_MINUS_32768 F32_32767), g))"

text \<open>One frame: a sample of every channel, which panics when a channel is too short.\<close>

fun dither_frame :: "('r, 'g) dsp \<Rightarrow> nat \<Rightarrow> f32 list list \<Rightarrow> 'g \<Rightarrow> (error fault + i16 list) \<times> 'g" where
  "dither_frame E i [] g = (Inr [], g)"
| "dither_frame E i (channel # cs) g =
     (if i < length channel then
        (let (x, g) = dither_to_i16 E (channel ! i) g in
         case dither_frame E i cs g of
           (Inl e, g) \<Rightarrow> (Inl e, g)
         | (Inr xs, g) \<Rightarrow> (Inr (x # xs), g))
      else (Inl Panic, g))"

fun dither_frames :: "('r, 'g) dsp \<Rightarrow> nat list \<Rightarrow> f32 list list \<Rightarrow> 'g \<Rightarrow> (error fault + i16 list) \<times> 'g" where
  "dither_frames E [] cs g = (Inr [], g)"
| "dither_frames E (i # is) cs g =
     (case dither_frame E i cs g of
        (Inl e, g) \<Rightarrow> (Inl e, g)
      | (Inr xs, g) \<Rightarrow>
          (case dither_frames E is cs g of
             (Inl e, g) \<Rightarrow> (Inl e, g)
           | (Inr ys, g) \<Rightarrow> (Inr (xs @ ys), g)))"

definition interleave_with_dither ::
  "('r, 'g) dsp \<Rightarrow> f32 list list \<Rightarrow> 'g \<Rightarrow> (error fault + i16 list) \<times> 'g" where
  "interleave_with_dither E cs g =
     (if cs = [] \<or> hd cs = [] then (Inr [], g) else dither_frames E [0..<length (hd cs)] cs g)"

section \<open>The resampler\<close>

record 'r resampler_state =
  rs_inner :: 'r
  rs_channels :: nat

definition silence_chunk :: "nat \<Rightarrow> nat \<Rightarrow> f32 list list" where
  "silence_chunk nch n = replicate nch (replicate n 0)"

text \<open>The chunks of silence the filter is primed with; an error ends the priming.\<close>

fun prime :: "('r, 'g) dsp \<Rightarrow> f32 list list \<Rightarrow> nat \<Rightarrow> 'r \<Rightarrow> 'r" where
  "prime E chunk 0 r = r"
| "prime E chunk (Suc k) r =
     (case sinc_process E chunk r of
        (Inr _, r) \<Rightarrow> prime E chunk k r
      | (Inl _, r) \<Rightarrow> r)"

definition priming_chunks :: "nat \<Rightarrow> nat" where
  "priming_chunks input_frames_needed = max (SINC_LEN div input_frames_needed) 3"

definition with_chunk_size ::
  "('r, 'g) dsp \<Rightarrow> u32 \<Rightarrow> u32 \<Rightarrow> u8 \<Rightarrow> nat \<Rightarrow> error fault + 'r resampler_state" where
  "with_chunk_size E source target nch chunk_size =
     (let n = unat nch in
      case sinc_new E target source chunk_size n of
        Inl e \<Rightarrow> Inl (Fail (Streaming (Encoding (''Failed to create resampler: '' @ e))))
      | Inr inner \<Rightarrow>
          (let input_frames_needed = sinc_frames_next E inner in
           if input_frames_needed = 0 then Inl Panic
           else Inr \<lparr> rs_inner = prime E (silence_chunk n input_frames_needed)
                         (priming_chunks input_frames_needed) inner,
                      rs_channels = n \<rparr>))"

definition resampler_new :: "('r, 'g) dsp \<Rightarrow> u32 \<Rightarrow> u32 \<Rightarrow> u8 \<Rightarrow> error fault + 'r resampler_state" where
  "resampler_new E source target nch = with_chunk_size E source target nch DEFAULT_CHUNK_SIZE"

definition process_f32 ::
  "('r, 'g) dsp \<Rightarrow> f32 list list \<Rightarrow> 'r resampler_state \<Rightarrow> (error + f32 list list) \<times> 'r resampler_state" where
  "process_f32 E cs s =
     (if cs = [] \<or> hd cs = [] then (Inr [], s)
      else (case sinc_process E cs (rs_inner s) of
          (Inl e, r) \<Rightarrow> (Inl (Streaming (Encoding (''Resampling error: '' @ e))), s\<lparr>rs_inner := r\<rparr>)
        | (Inr out, r) \<Rightarrow> (Inr out, s\<lparr>rs_inner := r\<rparr>)))"

text \<open>The samples of one channel; a rest that is no whole frame is left out.\<close>

definition input_channel :: "f32_pcm_ops \<Rightarrow> nat \<Rightarrow> i16 list \<Rightarrow> nat \<Rightarrow> f32 list" where
  "input_channel p nch samples ch =
     map (\<lambda>i. f32_div p (f32_of_i16 p (samples ! (i * nch + ch))) F32_32768) [0..<length samples div nch]"

definition resampler_process ::
  "('r, 'g) dsp \<Rightarrow> i16 list \<Rightarrow> 'r resampler_state \<times> 'g \<Rightarrow> (error fault + i16 list) \<times> 'r resampler_state \<times> 'g" where
  "resampler_process E samples sg =
     (let (s, g) = sg; nch = rs_channels s in
      if samples = [] then (Inr [], s, g)
      else if nch = 0 then (Inl Panic, s, g)
      else (case process_f32 E (map (input_channel (dsp_f32 E) nch samples) [0..<nch]) s of
          (Inl e, s) \<Rightarrow> (Inl (Fail e), s, g)
        | (Inr resampled, s) \<Rightarrow>
            (let (out, g) = interleave_with_dither E resampled g in (out, s, g))))"

definition input_frames_next :: "('r, 'g) dsp \<Rightarrow> 'r resampler_state \<Rightarrow> nat" where
  "input_frames_next E s = sinc_frames_next E (rs_inner s)"

section \<open>The resampler of the live decoder\<close>

primcorec resampler_object :: "('r, 'g) dsp \<Rightarrow> 'r resampler_state \<times> 'g \<Rightarrow> resampler" where
  "resampler_object E sg = Resampler (\<lambda>xs. map_prod id (resampler_object E) (resampler_process E xs sg))"

definition resampler_maker_of :: "('r, 'g) dsp \<Rightarrow> 'g \<Rightarrow> resampler_maker" where
  "resampler_maker_of E g source target nch =
     map_sum id (\<lambda>s. resampler_object E (s, g)) (resampler_new E source target nch)"

section \<open>What a SincFixedIn promises\<close>

definition fixed_in :: "('r, 'g) dsp \<Rightarrow> bool" where
  "fixed_in E \<longleftrightarrow>
     (\<forall>target source n nch r. sinc_new E target source n nch = Inr r \<longrightarrow> sinc_frames_next E r = n) \<and>
     (\<forall>cs r. sinc_frames_next E (snd (sinc_process E cs r)) = sinc_frames_next E r) \<and>
     (\<forall>cs r. (\<exists>c \<in> set cs. length c < sinc_frames_next E r) \<longrightarrow> isl (fst (sinc_process E cs r))) \<and>
     (\<forall>cs r. sinc_process E (map (take (sinc_frames_next E r)) cs) r = sinc_process E cs r)"

lemma fixed_in_new: "fixed_in E \<Longrightarrow> sinc_new E target source n nch = Inr r \<Longrightarrow> sinc_frames_next E r = n"
  by (simp add: fixed_in_def)

lemma fixed_in_keeps: "fixed_in E \<Longrightarrow> sinc_process E cs r = (out, r') \<Longrightarrow> sinc_frames_next E r' = sinc_frames_next E r"
  by (metis fixed_in_def snd_conv)

lemma fixed_in_refuses:
  assumes "fixed_in E" and "c \<in> set cs" and "length c < sinc_frames_next E r"
  obtains e r' where "sinc_process E cs r = (Inl e, r')"
proof -
  from assms have "isl (fst (sinc_process E cs r))" unfolding fixed_in_def by blast
  then show thesis by (cases "sinc_process E cs r") (auto simp: isl_def intro: that)
qed

lemma fixed_in_reads:
  "fixed_in E \<Longrightarrow> sinc_frames_next E r = n \<Longrightarrow> sinc_process E (map (take n) cs) r = sinc_process E cs r"
  by (auto simp: fixed_in_def)

section \<open>The shape of what comes out\<close>

lemma dither_frame_shape:
  "\<forall>c \<in> set cs. i < length c \<Longrightarrow>
   \<exists>xs g'. dither_frame E i cs g = (Inr xs, g') \<and> list_all2 (\<lambda>x c. \<exists>h. x = fst (dither_to_i16 E (c ! i) h)) xs cs"
proof (induction cs arbitrary: g)
  case (Cons c cs)
  obtain x h where x: "dither_to_i16 E (c ! i) g = (x, h)" by (cases "dither_to_i16 E (c ! i) g")
  from Cons.IH [of h] Cons.prems obtain xs g' where
    "dither_frame E i cs h = (Inr xs, g')" "list_all2 (\<lambda>x c. \<exists>h. x = fst (dither_to_i16 E (c ! i) h)) xs cs"
    by auto
  with x Cons.prems show ?case
    by (intro exI [of _ "x # xs"] exI [of _ g']) (auto intro: exI [of _ g])
qed simp

lemma dither_frames_shape:
  "\<forall>i \<in> set is. \<forall>c \<in> set cs. i < length c \<Longrightarrow>
   \<exists>rows g'. dither_frames E is cs g = (Inr (concat rows), g') \<and>
     list_all2 (\<lambda>row i. list_all2 (\<lambda>x c. \<exists>h. x = fst (dither_to_i16 E (c ! i) h)) row cs) rows is"
proof (induction "is" arbitrary: g)
  case (Cons i "is")
  from dither_frame_shape [of cs i E g] Cons.prems obtain row h where
    r: "dither_frame E i cs g = (Inr row, h)" "list_all2 (\<lambda>x c. \<exists>h. x = fst (dither_to_i16 E (c ! i) h)) row cs"
    by auto
  from Cons.IH [of h] Cons.prems obtain rows g' where
    "dither_frames E is cs h = (Inr (concat rows), g')"
    "list_all2 (\<lambda>row i. list_all2 (\<lambda>x c. \<exists>h. x = fst (dither_to_i16 E (c ! i) h)) row cs) rows is"
    by auto
  with r show ?case by (intro exI [of _ "row # rows"] exI [of _ g']) simp
qed simp

lemma concat_rows_nth:
  "list_all (\<lambda>row. length row = n) rows \<Longrightarrow> f < length rows \<Longrightarrow> c < n \<Longrightarrow> concat rows ! (f * n + c) = rows ! f ! c"
proof (induction rows arbitrary: f)
  case (Cons row rows)
  then show ?case by (cases f) (auto simp: nth_append)
qed simp

text \<open>Frames and channels stay in their places: sample \<open>c\<close> of frame \<open>f\<close> is the dithered sample
  \<open>f\<close> of channel \<open>c\<close>.\<close>

lemma interleave_places:
  assumes "\<forall>c \<in> set cs. length c = m" and "cs \<noteq> []" and "0 < m"
  shows "\<exists>out g'. interleave_with_dither E cs g = (Inr out, g') \<and> length out = m * length cs \<and>
    (\<forall>f < m. \<forall>c < length cs. \<exists>h. out ! (f * length cs + c) = fst (dither_to_i16 E (cs ! c ! f) h))"
proof -
  have hd: "length (hd cs) = m" using assms by simp
  with assms(3) have "hd cs \<noteq> []" by auto
  from dither_frames_shape [of "[0..<m]" cs E g] assms(1) obtain rows g' where
    r: "dither_frames E [0..<m] cs g = (Inr (concat rows), g')"
      "list_all2 (\<lambda>row i. list_all2 (\<lambda>x c. \<exists>h. x = fst (dither_to_i16 E (c ! i) h)) row cs) rows [0..<m]"
    by auto
  then have len: "length rows = m" and rows: "list_all (\<lambda>row. length row = length cs) rows"
    by (auto simp: list_all2_conv_all_nth list_all_length)
  have "length (concat rows) = m * length cs"
    using rows len by (induction rows arbitrary: m) auto
  moreover have "\<exists>h. concat rows ! (f * length cs + c) = fst (dither_to_i16 E (cs ! c ! f) h)"
    if "f < m" "c < length cs" for f c
    using that r(2) len concat_rows_nth [OF rows, of f c] by (auto simp: list_all2_conv_all_nth)
  ultimately show ?thesis
    using r(1) hd \<open>hd cs \<noteq> []\<close> assms(2) by (simp add: interleave_with_dither_def)
qed

section \<open>Whole chunks\<close>

lemma prime_frames: "fixed_in E \<Longrightarrow> sinc_frames_next E (prime E chunk k r) = sinc_frames_next E r"
  by (induction E chunk k r rule: prime.induct) (auto split: prod.split sum.split dest: fixed_in_keeps)

lemma with_chunk_size_frames:
  assumes "fixed_in E" and "with_chunk_size E source target nch n = Inr s"
  shows "input_frames_next E s = n" and "rs_channels s = unat nch" and "0 < n"
  using assms by (auto simp: with_chunk_size_def Let_def input_frames_next_def prime_frames fixed_in_new
      split: sum.splits if_splits)

lemma process_short:
  assumes "fixed_in E" and "0 < rs_channels s" and "rs_channels s \<le> length samples"
    and "length samples < input_frames_next E s * rs_channels s"
  obtains m s' where "resampler_process E samples (s, g) = (Inl (Fail (Streaming (Encoding (''Resampling error: '' @ m)))), s', g)"
proof -
  let ?cs = "map (input_channel (dsp_f32 E) (rs_channels s) samples) [0..<rs_channels s]"
  let ?n = "length samples div rs_channels s"
  have "?n < input_frames_next E s" using assms by (simp add: div_less_iff_less_mult)
  moreover have "input_channel (dsp_f32 E) (rs_channels s) samples 0 \<in> set ?cs" using assms(2) by simp
  ultimately obtain e r where p: "sinc_process E ?cs (rs_inner s) = (Inl e, r)"
    using fixed_in_refuses [OF assms(1), of "input_channel (dsp_f32 E) (rs_channels s) samples 0" ?cs "rs_inner s"]
    by (auto simp: input_frames_next_def input_channel_def)
  have "0 < ?n" using assms by (simp add: div_greater_zero_iff)
  then have "hd ?cs \<noteq> []" using assms(2) by (simp add: hd_map input_channel_def)
  with p assms show thesis
    by (intro that [of e "s\<lparr>rs_inner := r\<rparr>"]) (auto simp: resampler_process_def process_f32_def Let_def)
qed

text \<open>Frames beyond the chunk are not looked at.\<close>

lemma input_channel_take:
  assumes "0 < nch" and "ch < nch"
  shows "input_channel p nch (take (n * nch) samples) ch = take n (input_channel p nch samples ch)"
proof -
  have frames: "min (length samples) (n * nch) div nch = min (length samples div nch) n"
    using div_le_mono [of "length samples" "n * nch" nch] div_le_mono [of "n * nch" "length samples" nch] assms(1)
    by (cases "length samples \<le> n * nch") (simp_all add: min_def)
  have "i * nch + ch < n * nch" if "i < n" for i
  proof -
    from that have "Suc i * nch \<le> n * nch" by (intro mult_le_mono1) simp
    with assms(2) show ?thesis by simp
  qed
  then show ?thesis
    by (intro nth_equalityI) (simp_all add: input_channel_def frames min.commute)
qed

text \<open>One call reads whole frames of one chunk and nothing else.\<close>

lemma process_reads_chunk:
  assumes "fixed_in E" and "input_frames_next E s = n" and "0 < n"
    and "0 < rs_channels s" and "n * rs_channels s \<le> length samples"
  shows "resampler_process E (take (n * rs_channels s) samples) (s, g) = resampler_process E samples (s, g)"
proof (cases "samples = []")
  case True
  then show ?thesis
    by simp
next
  case False
  let ?ch = "rs_channels s" and ?p = "dsp_f32 E"
  let ?cs = "map (input_channel ?p ?ch samples) [0..<?ch]"
  have "map (input_channel ?p ?ch (take (n * ?ch) samples)) [0..<?ch] = map (take n) ?cs"
    by (simp add: input_channel_take)
  also have "process_f32 E \<dots> s = process_f32 E ?cs s"
    using False assms fixed_in_reads [OF assms(1), of "rs_inner s" n ?cs]
    by (simp add: process_f32_def hd_map input_frames_next_def)
  finally have "process_f32 E (map (input_channel ?p ?ch (take (n * ?ch) samples)) [0..<?ch]) s = process_f32 E ?cs s" .
  then show ?thesis
    using False assms(3,4) by (simp add: resampler_process_def Let_def)
qed

text \<open>The states a resampler of the decoder goes through: its chunk and its channels do not change.\<close>

definition wants :: "('r, 'g) dsp \<Rightarrow> nat \<Rightarrow> nat \<Rightarrow> resampler \<Rightarrow> bool" where
  "wants E n nch r \<longleftrightarrow>
     (\<exists>s g. r = resampler_object E (s, g) \<and> input_frames_next E s = n \<and> rs_channels s = nch)"

lemma resampler_process_keeps:
  assumes "fixed_in E" and "resampler_process E samples (s, g) = (out, s', g')"
  shows "input_frames_next E s' = input_frames_next E s" and "rs_channels s' = rs_channels s"
  using assms by (auto simp: resampler_process_def process_f32_def input_frames_next_def Let_def
      dest: fixed_in_keeps split: if_splits sum.splits prod.splits)

lemma wants_made:
  assumes "fixed_in E" and "resampler_maker_of E g source target nch = Inr r"
  shows "wants E DEFAULT_CHUNK_SIZE (unat nch) r"
  using assms with_chunk_size_frames [OF assms(1)]
  by (auto simp: wants_def resampler_maker_of_def resampler_new_def map_sum_eq_Inr)

lemma wants_process:
  assumes "fixed_in E" and "wants E n nch (Resampler process)" and "process samples = (out, r)"
  obtains s g s' g' where "Resampler process = resampler_object E (s, g)" "input_frames_next E s = n"
    "rs_channels s = nch" "resampler_process E samples (s, g) = (out, s', g')" "r = resampler_object E (s', g')"
    "wants E n nch r"
proof -
  from assms(2) obtain s g where s: "Resampler process = resampler_object E (s, g)"
      "input_frames_next E s = n" "rs_channels s = nch" by (auto simp: wants_def)
  then have "process = (\<lambda>xs. map_prod id (resampler_object E) (resampler_process E xs (s, g)))"
    by (simp add: resampler_object.ctr)
  with assms(3) obtain s' g' where p: "resampler_process E samples (s, g) = (out, s', g')"
      "r = resampler_object E (s', g')"
    by (cases "resampler_process E samples (s, g)") auto
  from resampler_process_keeps [OF assms(1) p(1)] s p have "wants E n nch r" by (auto simp: wants_def)
  with s p show thesis by (rule that)
qed

section \<open>Longer frames\<close>

fun cut_frame :: "nat \<Rightarrow> recv \<Rightarrow> recv" where
  "cut_frame n (Got frame) = Got (frame\<lparr>pcm_samples := take n (pcm_samples frame)\<rparr>)"
| "cut_frame n r = r"

definition frames_at_least :: "nat \<Rightarrow> recv list \<Rightarrow> bool" where
  "frames_at_least n = list_all (\<lambda>r. case r of Got frame \<Rightarrow> n \<le> length (pcm_samples frame) | _ \<Rightarrow> True)"

text \<open>Two decoders that differ only in the surplus of the frames to come (and in \<open>position_samples\<close>,
  which nothing reads).\<close>

definition same_but_surplus :: "('r, 'g) dsp \<Rightarrow> nat \<Rightarrow> live_decoder \<Rightarrow> live_decoder \<Rightarrow> bool" where
  "same_but_surplus E n d e \<longleftrightarrow>
     rx e = map (cut_frame (n * unat (dec_channels d))) (rx d) \<and>
     frames_at_least (n * unat (dec_channels d)) (rx d) \<and>
     source_rate e = source_rate d \<and> dec_channels e = dec_channels d \<and> eof e = eof d \<and>
     residual_samples e = residual_samples d \<and> dec_resampler e = dec_resampler d \<and>
     (\<forall>r. dec_resampler d = Some r \<longrightarrow> wants E n (unat (dec_channels d)) r)"

lemma same_but_surplus_residual:
  "same_but_surplus E n d e \<Longrightarrow>
   same_but_surplus E n (d\<lparr>residual_samples := r\<rparr>) (e\<lparr>residual_samples := r\<rparr>)"
  by (simp add: same_but_surplus_def)

lemma decode_frame_surplus:
  assumes "same_but_surplus E n d e"
  obtains (panic) d' e' where "decode_frame d = (Inl Panic, d')" "decode_frame e = (Inl Panic, e')"
    | (none) d' e' where "decode_frame d = (Inr None, d')" "decode_frame e = (Inr None, e')" "same_but_surplus E n d' e'"
    | (frame) xs d' e' where "decode_frame d = (Inr (Some \<lparr>dec_samples = xs\<rparr>), d')"
      "decode_frame e = (Inr (Some \<lparr>dec_samples = take (n * unat (dec_channels d)) xs\<rparr>), e')"
      "n * unat (dec_channels d) \<le> length xs" "dec_channels d' = dec_channels d"
      "same_but_surplus E n d' e'"
proof (cases "rx d")
  case Nil
  with assms show thesis
    by (intro none [of d e]) (auto simp: decode_frame_def same_but_surplus_def)
next
  case (Cons x q)
  show thesis
  proof (cases x)
    case (Got fr)
    show thesis
    proof (cases "eof d")
      case True
      with assms show thesis by (intro none [of d e]) (auto simp: decode_frame_def same_but_surplus_def)
    next
      case False
      note defs = decode_frame_def same_but_surplus_def frames_at_least_def Let_def
      show thesis
      proof (cases "pcm_channels fr = 0")
        case True
        with \<open>\<not> eof d\<close> assms Cons Got show thesis
          by (intro panic [of "snd (decode_frame d)" "snd (decode_frame e)"]) (simp_all add: defs)
      next
        case False
        with \<open>\<not> eof d\<close> assms Cons Got show thesis
          by (intro frame [of "pcm_samples fr" "snd (decode_frame d)" "snd (decode_frame e)"]) (simp_all add: defs)
      qed
    qed
  next
    case RecvTimeout
    with assms Cons show thesis
      by (intro none [of "snd (decode_frame d)" "snd (decode_frame e)"])
        (auto simp: decode_frame_def same_but_surplus_def frames_at_least_def)
  next
    case RecvDisconnected
    with assms Cons show thesis
      by (intro none [of "snd (decode_frame d)" "snd (decode_frame e)"])
        (auto simp: decode_frame_def same_but_surplus_def frames_at_least_def)
  qed
qed

lemma convert_surplus:
  assumes "fixed_in E" and "0 < n" and "0 < unat (dec_channels d)" and "same_but_surplus E n d e"
    and "n * unat (dec_channels d) \<le> length xs" and "source_rate d \<noteq> rate"
  obtains res d' e' where "convert rate xs d = (res, d')"
    "convert rate (take (n * unat (dec_channels d)) xs) e = (res, e')" "same_but_surplus E n d' e'"
    "dec_channels d' = dec_channels d" "source_rate d' = source_rate d"
proof (cases "dec_resampler d")
  case None
  with assms show thesis
    by (intro that [of "Inl Panic" d e]) (auto simp: convert_def same_but_surplus_def)
next
  case (Some r)
  obtain process where r: "r = Resampler process" by (cases r)
  obtain out r' where p: "process xs = (out, r')" by (cases "process xs")
  from assms(4) Some r have w: "wants E n (unat (dec_channels d)) (Resampler process)"
    by (simp add: same_but_surplus_def)
  from assms(1) w p obtain s g s' g' where s: "Resampler process = resampler_object E (s, g)"
      "input_frames_next E s = n" "rs_channels s = unat (dec_channels d)" "wants E n (unat (dec_channels d)) r'"
    by (rule wants_process)
  have "process = (\<lambda>xs. map_prod id (resampler_object E) (resampler_process E xs (s, g)))"
    using s(1) by (simp add: resampler_object.ctr)
  then have "process (take (n * unat (dec_channels d)) xs) = process xs"
    using process_reads_chunk [OF assms(1) s(2) assms(2), of xs g] s(3) assms(3,5) by simp
  with p Some r assms(4,6) s(4) show thesis
    by (intro that [of out "d\<lparr>dec_resampler := Some r'\<rparr>" "e\<lparr>dec_resampler := Some r'\<rparr>"])
      (auto simp: convert_def same_but_surplus_def split: sum.splits)
qed

lemma collect_loop_surplus:
  assumes "fixed_in E" and "0 < n" and "same_but_surplus E n d e"
    and "0 < unat (dec_channels d)" and "source_rate d \<noteq> rate"
  shows "\<exists>res d' e'. collect_loop rate m acc d = (res, d') \<and> collect_loop rate m acc e = (res, e') \<and>
    (\<not> isl res \<longrightarrow> same_but_surplus E n d' e' \<and> dec_channels d' = dec_channels d \<and> source_rate d' = source_rate d)"
  using assms(3-)
proof (induction "length (rx d)" arbitrary: acc d e rule: less_induct)
  case (less d acc e)
  note loop = collect_loop.simps [of rate m acc d] collect_loop.simps [of rate m acc e]
  show ?case
  proof (cases "m \<le> length acc")
    case True
    with less.prems show ?thesis by (simp add: loop)
  next
    case False
    from less.prems(1) show ?thesis
    proof (cases rule: decode_frame_surplus)
      case (panic d' e')
      with False show ?thesis by (simp add: loop)
    next
      case (none d' e')
      have "dec_channels d' = dec_channels d \<and> source_rate d' = source_rate d"
        using none(1) by (auto simp: decode_frame_def Let_def split: if_splits list.splits recv.splits)
      moreover have "same_but_surplus E n (d'\<lparr>residual_samples := acc\<rparr>) (e'\<lparr>residual_samples := acc\<rparr>)"
        using none(3) by (rule same_but_surplus_residual)
      ultimately show ?thesis using False none by (simp add: loop)
    next
      case (frame xs d' e')
      have src: "source_rate d' = source_rate d" and shorter: "length (rx d') < length (rx d)"
        using frame(1) decode_frame_rx [OF frame(1) [symmetric]]
        by (auto simp: decode_frame_def Let_def split: if_splits list.splits recv.splits)
      have "0 < unat (dec_channels d')" "n * unat (dec_channels d') \<le> length xs" "source_rate d' \<noteq> rate"
        using frame(3,4) src less.prems by simp_all
      from convert_surplus [OF assms(1,2) this(1) frame(5) this(2,3)] obtain res d2 e2 where
        c: "convert rate xs d' = (res, d2)"
          "convert rate (take (n * unat (dec_channels d')) xs) e' = (res, e2)" "same_but_surplus E n d2 e2"
          "dec_channels d2 = dec_channels d'" "source_rate d2 = source_rate d'" by metis
      show ?thesis
      proof (cases res)
        case (Inl a)
        with False frame c show ?thesis by (simp add: loop)
      next
        case (Inr ys)
        have "rx d2 = rx d'" using convert_rx [OF c(1) [symmetric]] .
        with shorter have "length (rx d2) < length (rx d)" by simp
        from less.hyps [OF this c(3), of "acc @ ys"] less.prems frame(4) src c(4,5)
        obtain res' d3 e3 where "collect_loop rate m (acc @ ys) d2 = (res', d3)"
            "collect_loop rate m (acc @ ys) e2 = (res', e3)"
            "\<not> isl res' \<longrightarrow> same_but_surplus E n d3 e3 \<and> dec_channels d3 = dec_channels d2 \<and> source_rate d3 = source_rate d2"
          by auto
        with False frame c Inr src show ?thesis by (simp add: loop)
      qed
    qed
  qed
qed

lemma decode_resampled_surplus:
  assumes "fixed_in E" and "same_but_surplus E DEFAULT_CHUNK_SIZE d e"
    and "0 < unat (dec_channels d)" and "source_rate d \<noteq> as_hz (sample_rate f)"
  shows "\<exists>res d' e'. decode_resampled (resampler_maker_of E g) f m d = (res, d') \<and>
    decode_resampled (resampler_maker_of E g) f m e = (res, e') \<and>
    (\<not> isl res \<longrightarrow> same_but_surplus E DEFAULT_CHUNK_SIZE d' e' \<and> dec_channels d' = dec_channels d \<and>
      source_rate d' = source_rate d)"
proof -
  let ?rate = "as_hz (sample_rate f)" and ?n = "m * unat (channels f)" and ?rn = "resampler_maker_of E g"
  let ?c = "DEFAULT_CHUNK_SIZE"
  have same: "source_rate e = source_rate d" "dec_channels e = dec_channels d"
      "residual_samples e = residual_samples d" "dec_resampler e = dec_resampler d"
    using assms(2) by (simp_all add: same_but_surplus_def)
  show ?thesis
  proof (cases "ensure_resampler ?rn ?rate d")
    case (Inl a)
    then have "ensure_resampler ?rn ?rate e = Inl a"
      using same by (auto simp: ensure_resampler_def and_then_eq_Inl split: if_splits)
    with Inl show ?thesis by (simp add: decode_resampled_def)
  next
    case (Inr d1)
    define e1 where "e1 = e\<lparr>dec_resampler := dec_resampler d1\<rparr>"
    have e1: "ensure_resampler ?rn ?rate e = Inr e1"
      using Inr same unfolding e1_def by (auto simp: ensure_resampler_def and_then_eq_Inr split: if_splits)
    have "same_but_surplus E ?c d1 e1" and d1: "dec_channels d1 = dec_channels d"
        "source_rate d1 = source_rate d" "residual_samples d1 = residual_samples e1"
      using Inr assms(2) wants_made [OF assms(1)] unfolding e1_def
      by (auto simp: ensure_resampler_def and_then_eq_Inr same_but_surplus_def split: if_splits)
    then have "same_but_surplus E ?c (d1\<lparr>residual_samples := []\<rparr>) (e1\<lparr>residual_samples := []\<rparr>)"
      by (blast intro: same_but_surplus_residual)
    from collect_loop_surplus [OF assms(1) _ this, of ?rate ?n "residual_samples e1"] assms(3,4) d1
    obtain res d2 e2 where c: "collect_loop ?rate ?n (residual_samples e1) (d1\<lparr>residual_samples := []\<rparr>) = (res, d2)"
        "collect_loop ?rate ?n (residual_samples e1) (e1\<lparr>residual_samples := []\<rparr>) = (res, e2)"
        "\<not> isl res \<longrightarrow> same_but_surplus E ?c d2 e2 \<and> dec_channels d2 = dec_channels d1 \<and> source_rate d2 = source_rate d1"
      by (auto simp: DEFAULT_CHUNK_SIZE_def)
    have "same_but_surplus E ?c (d2\<lparr>residual_samples := r\<rparr>) (e2\<lparr>residual_samples := r\<rparr>)" if "\<not> isl res" for r
      using c(3) that by (blast intro: same_but_surplus_residual)
    with c Inr e1 d1 show ?thesis
      by (cases res) (auto simp: decode_resampled_def Let_def split: option.splits)
  qed
qed

lemma decode_calls_surplus:
  assumes "fixed_in E" and "same_but_surplus E DEFAULT_CHUNK_SIZE d e"
    and "0 < unat (dec_channels d)" and "source_rate d \<noteq> as_hz (sample_rate f)"
    and "list_all (\<lambda>r. \<not> isl r) (fst (decode_calls (decode_resampled (resampler_maker_of E g) f m) k d))"
  shows "fst (decode_calls (decode_resampled (resampler_maker_of E g) f m) k e) =
    fst (decode_calls (decode_resampled (resampler_maker_of E g) f m) k d)"
  using assms(2-)
proof (induction k arbitrary: d e)
  case (Suc k)
  from decode_resampled_surplus [OF assms(1) Suc.prems(1-3), of g m] obtain res d' e' where
    r: "decode_resampled (resampler_maker_of E g) f m d = (res, d')"
      "decode_resampled (resampler_maker_of E g) f m e = (res, e')"
      "\<not> isl res \<longrightarrow> same_but_surplus E DEFAULT_CHUNK_SIZE d' e' \<and> dec_channels d' = dec_channels d \<and>
        source_rate d' = source_rate d" by blast
  with Suc.IH [of d' e'] Suc.prems show ?case
    by (simp add: Let_def split_def)
qed simp

section \<open>A sample resampler\<close>

text \<open>A filter that passes its chunk on, and arithmetic that keeps the first operand.\<close>

definition sample_pcm_ops :: f32_pcm_ops where
  "sample_pcm_ops = \<lparr> f32_le = \<lambda>a b. a = b, f32_clamp = \<lambda>x lo hi. x, f32_mul = \<lambda>a b. a, f32_div = \<lambda>a b. a,
     f32_log10 = \<lambda>a. a, f32_powf = \<lambda>a b. b, f32_fixed2 = \<lambda>_. ''0.00'', f32_add = \<lambda>a b. a, f32_sub = \<lambda>a b. a,
     f32_of_i16 = ucast, f32_to_i16 = ucast \<rparr>"

definition sample_dsp :: "(nat, unit) dsp" where
  "sample_dsp = \<lparr> dsp_f32 = sample_pcm_ops, sinc_new = \<lambda>target source n nch. Inr n,
     sinc_process = \<lambda>cs n. (if list_all (\<lambda>c. n \<le> length c) cs then Inr (map (take n) cs)
       else Inl ''insufficient input'', n),
     sinc_frames_next = \<lambda>n. n, rand_f32 = \<lambda>g. (0, g) \<rparr>"

lemma sample_fixed_in: "fixed_in sample_dsp"
  by (auto simp: fixed_in_def sample_dsp_def list_all_iff o_def intro!: map_cong)

definition sample_state :: "nat resampler_state" where
  "sample_state = \<lparr> rs_inner = DEFAULT_CHUNK_SIZE, rs_channels = 1 \<rparr>"

lemma sample_new: "resampler_new sample_dsp source target 1 = Inr sample_state"
proof -
  have "prime sample_dsp chunk k n = n" for chunk k n
    by (induction k) (simp_all add: sample_dsp_def)
  then show ?thesis
    by (simp add: resampler_new_def with_chunk_size_def sample_state_def Let_def DEFAULT_CHUNK_SIZE_def)
      (simp add: sample_dsp_def)
qed

lemma sample_process:
  assumes "1024 \<le> length samples"
  obtains out where "resampler_process sample_dsp samples (sample_state, ()) = (Inr out, sample_state, ())"
    "length out = 1024"
proof -
  let ?c = "input_channel sample_pcm_ops 1 samples 0"
  have len: "length ?c = length samples" by (simp add: input_channel_def)
  obtain out g where o: "interleave_with_dither sample_dsp [take 1024 ?c] () = (Inr out, g)" "length out = 1024"
    using interleave_places [of "[take 1024 ?c]" 1024 sample_dsp "()"] assms len by auto
  have "?c \<noteq> []" using assms len by auto
  moreover have "samples \<noteq> []" using assms by auto
  ultimately have "resampler_process sample_dsp samples (sample_state, ()) = (Inr out, sample_state, ())"
    using o(1) assms len
    by (simp add: resampler_process_def process_f32_def sample_state_def sample_dsp_def DEFAULT_CHUNK_SIZE_def)
  with o(2) show thesis by (rule that [rotated])
qed

text \<open>A mono stream at 48 kHz, with frames longer than the chunk.\<close>

definition sample_stream :: live_decoder where
  "sample_stream = live_decoder_new
     [Got \<lparr>pcm_samples = replicate 1030 7, pcm_channels = 1, pcm_sample_rate = 48000\<rparr>, RecvTimeout] 48000 1"

abbreviation sample_maker :: resampler_maker where
  "sample_maker \<equiv> resampler_maker_of sample_dsp ()"

lemma sample_conversion:
  assumes "1024 \<le> length samples" and "source_rate d \<noteq> rate"
    and "dec_resampler d = Some (resampler_object sample_dsp (sample_state, ()))"
  obtains out where "convert rate samples d = (Inr out, d)" "length out = 1024"
  using assms by (elim sample_process [of samples]) (simp add: convert_def resampler_object.ctr)

lemma sample_ready:
  "ensure_resampler sample_maker 44100 sample_stream =
     Inr (sample_stream\<lparr>dec_resampler := Some (resampler_object sample_dsp (sample_state, ()))\<rparr>)"
  by (simp add: ensure_resampler_def resampler_maker_of_def sample_new sample_stream_def live_decoder_new_def)

lemma sample_to_come:
  obtains pend where "to_come sample_maker 44100 sample_stream = Some pend" "length pend = 1024"
proof -
  let ?d = "sample_stream\<lparr>dec_resampler := Some (resampler_object sample_dsp (sample_state, ()))\<rparr>"
  obtain out where out: "convert 44100 (replicate 1030 7) ?d = (Inr out, ?d)" "length out = 1024"
    by (rule sample_conversion [of "replicate 1030 7" ?d 44100])
      (simp_all add: sample_stream_def live_decoder_new_def)
  have "rx ?d = [Got \<lparr>pcm_samples = replicate 1030 7, pcm_channels = 1, pcm_sample_rate = 48000\<rparr>, RecvTimeout]"
    by (simp add: sample_stream_def live_decoder_new_def)
  with out have "to_come sample_maker 44100 sample_stream = Some out"
    by (simp add: to_come_def sample_ready)
  with out(2) show thesis by (rule that [rotated])
qed

lemma sample_stream_fields:
  "source_rate sample_stream = 48000" "dec_channels sample_stream = 1" "dec_resampler sample_stream = None"
  "residual_samples sample_stream = []" "eof sample_stream = False" "frames_sane (rx sample_stream)"
  by (simp_all add: sample_stream_def live_decoder_new_def frames_sane_def)

lemma default_rate: "as_hz (sample_rate default_format) = 44100" "channels default_format = 2"
  by (simp_all add: default_format_def protocol_defs)

section \<open>Claims\<close>



text \<open>Of a live frame longer than the chunk only the first 1024 frames are heard: any number of calls
  returns the same packets when every frame to come is cut to the chunk.\<close>

theorem surplus_frames_are_lost:
  assumes "fixed_in E" and "source_rate d \<noteq> as_hz (sample_rate f)" and "dec_resampler d = None"
    and "0 < unat (dec_channels d)" and "frames_at_least (1024 * unat (dec_channels d)) (rx d)"
    and "list_all (\<lambda>r. \<not> isl r) (fst (decode_calls (decode_resampled (resampler_maker_of E g) f m) k d))"
  shows "fst (decode_calls (decode_resampled (resampler_maker_of E g) f m) k
      (d\<lparr>rx := map (cut_frame (1024 * unat (dec_channels d))) (rx d)\<rparr>)) =
    fst (decode_calls (decode_resampled (resampler_maker_of E g) f m) k d)"
  by (rule decode_calls_surplus [OF assms(1) _ assms(4,2,6)])
    (use assms(3,5) in \<open>simp add: same_but_surplus_def DEFAULT_CHUNK_SIZE_def\<close>)

theorem surplus_frames_are_lost_witness:
  "fst (decode_calls (decode_resampled sample_maker default_format 352) 2
      (sample_stream\<lparr>rx := map (cut_frame 1024) (rx sample_stream)\<rparr>)) =
    fst (decode_calls (decode_resampled sample_maker default_format 352) 2 sample_stream)"
proof -
  obtain pend where "to_come sample_maker 44100 sample_stream = Some pend" by (rule sample_to_come)
  then have "list_all (\<lambda>r. \<not> isl r) (fst (decode_calls (decode_resampled sample_maker default_format 352) 2 sample_stream))"
    using decode_calls_cut [of sample_stream sample_maker default_format pend 352 2] sample_stream_fields
    by (auto simp: default_rate)
  moreover have "frames_at_least 1024 (rx sample_stream)"
    by (simp add: frames_at_least_def sample_stream_def live_decoder_new_def)
  ultimately show ?thesis
    using surplus_frames_are_lost [of sample_dsp sample_stream default_format "()" 352 2] sample_stream_fields
      sample_fixed_in by (simp add: default_rate)
qed

text \<open>C28: whatever the rates, the decoder only re-cuts the stream. When every frame to come can be
  converted, the packets returned by any number of calls, the residue and what is still to come are
  exactly the converted samples, in order; every packet has the requested size and no call fails.\<close>

theorem decoder_recuts_resampled_stream:
  assumes "frames_sane (rx d)" and "to_come rn (as_hz (sample_rate f)) d = Some pend"
    and "0 < n * unat (channels f)"
  shows "let (ress, d') = decode_calls (decode_resampled rn f n) k d in
    (\<exists>used rest. rx d = used @ rx d' \<and> to_come rn (as_hz (sample_rate f)) d' = Some rest \<and>
      residual_samples d @ pend = concat (packet_samples ress) @ residual_samples d' @ rest) \<and>
    list_all (\<lambda>p. length p = n * unat (channels f)) (packet_samples ress) \<and> list_all (\<lambda>r. \<not> isl r) ress"
  using decode_calls_cut [OF assms, of k] by auto

theorem decoder_recuts_resampled_stream_witness:
  "\<exists>pend. to_come sample_maker 44100 sample_stream = Some pend \<and> length pend = 1024 \<and>
    (let (ress, d') = decode_calls (decode_resampled sample_maker default_format 352) 2 sample_stream in
    (\<exists>used rest. rx sample_stream = used @ rx d' \<and> to_come sample_maker 44100 d' = Some rest \<and>
      pend = concat (packet_samples ress) @ residual_samples d' @ rest) \<and>
    list_all (\<lambda>p. length p = 704) (packet_samples ress) \<and> list_all (\<lambda>r. \<not> isl r) ress)"
proof -
  obtain pend where p: "to_come sample_maker 44100 sample_stream = Some pend" "length pend = 1024"
    by (rule sample_to_come)
  then show ?thesis
    using decoder_recuts_resampled_stream [of sample_stream sample_maker default_format pend 352 2]
      sample_stream_fields by (auto simp: default_rate)
qed

end
