(* ===== verification/Startup.thy ===== *)
theory Startup
  imports Streamer_Live Group
begin

text \<open>
  From the start of a stream to its first packets: the streamer of \<open>src/audio/streamer.rs\<close> decodes three
  packets at a turn while its buffer is filling, and starts to send when the buffer is more than a
  tenth full. A source that is ahead of the stream is heard after a fixed number of turns, and then at
  every turn; so is a connection (\<open>src/client/connection.rs\<close>) that was started with it. The theory
  adds no definition of the code.
\<close>

section \<open>A source that is ahead\<close>

text \<open>The channel holds frames only, and they come to at least \<open>k\<close> packets of \<open>n\<close> samples.\<close>

definition frames_only :: "live_decoder \<Rightarrow> bool" where
  "frames_only d \<longleftrightarrow> \<not> eof d \<and> list_all (\<lambda>x. \<exists>frame. x = Got frame) (rx d)"

definition ahead :: "resampler_maker \<Rightarrow> audio_format \<Rightarrow> nat \<Rightarrow> live_decoder \<Rightarrow> bool" where
  "ahead rn f k d \<longleftrightarrow> frames_sane (rx d) \<and> frames_only d \<and>
     (\<exists>pend. to_come rn (as_hz (sample_rate f)) d = Some pend \<and>
        k * (unat (frames_per_packet f) * unat (channels f)) \<le> length (residual_samples d) + length pend)"

lemma frames_only_frame:
  assumes "frames_only d" and "decode_frame d = (res, d')" and "frames_sane (rx d)"
  shows "frames_only d' \<and> (res = Inr None \<longrightarrow> rx d' = [])"
  using assms by (auto simp: frames_only_def frames_sane_def decode_frame_def Let_def split: list.splits recv.splits if_splits)

lemma frames_only_convert: "frames_only d \<Longrightarrow> convert r xs d = (res, d') \<Longrightarrow> frames_only d'"
  by (auto simp: convert_def frames_only_def split: if_splits option.splits resampler.splits prod.splits sum.splits)

lemma frames_only_residual [simp]: "frames_only (d\<lparr>residual_samples := xs\<rparr>) = frames_only d"
  by (simp add: frames_only_def)

lemma decode_frame_sane: "decode_frame d = (res, d') \<Longrightarrow> frames_sane (rx d) \<Longrightarrow> frames_sane (rx d')"
  by (auto simp: decode_frame_def frames_sane_def Let_def split: list.split_asm recv.split_asm if_split_asm)

lemma collect_loop_size: "collect_loop r n acc d = (Inr (Some ys), d') \<Longrightarrow> n \<le> length ys"
proof (induction "length (rx d)" arbitrary: acc d rule: less_induct)
  case (less d acc)
  note loop = less.prems [unfolded collect_loop.simps [of r n acc d]]
  show ?case
  proof (cases "n \<le> length acc")
    case True
    with loop show ?thesis by simp
  next
    case False
    with loop obtain fr d1 zs d2 where step: "decode_frame d = (Inr (Some fr), d1)"
        "convert r (dec_samples fr) d1 = (Inr zs, d2)" "collect_loop r n (acc @ zs) d2 = (Inr (Some ys), d')"
      by (auto split: prod.splits sum.splits option.splits)
    have "length (rx d2) < length (rx d)"
      using decode_frame_rx [OF step(1) [symmetric]] convert_rx [OF step(2) [symmetric]] by simp
    from less.hyps [OF this step(3)] show ?thesis .
  qed
qed

lemma collect_loop_frames_only:
  "collect_loop r n acc d = (res, d') \<Longrightarrow> frames_only d \<Longrightarrow> frames_sane (rx d) \<Longrightarrow>
   frames_only d' \<and> (res = Inr None \<longrightarrow> rx d' = [])"
proof (induction "length (rx d)" arbitrary: acc d rule: less_induct)
  case (less d acc)
  note loop = less.prems(1) [unfolded collect_loop.simps [of r n acc d]]
  show ?case
  proof (cases "n \<le> length acc")
    case True
    with loop less.prems(2) show ?thesis by auto
  next
    case False
    obtain x d1 where dec: "decode_frame d = (x, d1)" by (cases "decode_frame d")
    note only = frames_only_frame [OF less.prems(2) dec less.prems(3)]
    show ?thesis
    proof (cases "\<exists>fr. x = Inr (Some fr)")
      case True
      then obtain fr where x: "x = Inr (Some fr)" by blast
      obtain y d2 where conv: "convert r (dec_samples fr) d1 = (y, d2)" by (cases "convert r (dec_samples fr) d1")
      have rx2: "rx d2 = rx d1" using convert_rx [OF conv [symmetric]] .
      have sane: "frames_sane (rx d1)" using decode_frame_sane [OF dec less.prems(3)] .
      show ?thesis
      proof (cases y)
        case (Inl e)
        with loop False dec x conv only frames_only_convert [OF _ conv] show ?thesis by auto
      next
        case (Inr ys)
        have "length (rx d2) < length (rx d)" using decode_frame_rx [of fr d1 d] dec x rx2 by simp
        from less.hyps [OF this _ frames_only_convert [OF _ conv], of "acc @ ys"]
        show ?thesis using loop False dec x conv Inr only sane rx2 by simp
      qed
    next
      case none: False
      with loop False dec only show ?thesis
        by (cases x) (auto split: option.splits if_splits)
    qed
  qed
qed

lemma ahead_decodes:
  assumes "ahead rn f (Suc k) d" and "0 < unat (frames_per_packet f) * unat (channels f)"
  shows "\<exists>fr d'. decode_resampled rn f (unat (frames_per_packet f)) d = (Inr (Some fr), d') \<and> ahead rn f k d'"
proof -
  let ?n = "unat (frames_per_packet f) * unat (channels f)" and ?r = "as_hz (sample_rate f)"
  obtain pend where p: "frames_sane (rx d)" "frames_only d" "to_come rn ?r d = Some pend"
      "Suc k * ?n \<le> length (residual_samples d) + length pend"
    using assms(1) by (auto simp: ahead_def)
  obtain used d' out rest where c: "decode_resampled rn f (unat (frames_per_packet f)) d = (Inr out, d')"
      "rx d = used @ rx d'" "to_come rn ?r d' = Some rest"
      "case out of
         None \<Rightarrow> residual_samples d @ pend = residual_samples d' @ rest \<and> length (residual_samples d') < ?n
       | Some fr \<Rightarrow> residual_samples d @ pend = dec_samples fr @ residual_samples d' @ rest \<and>
           length (dec_samples fr) = ?n"
    using decode_resampled_cuts [OF p(1,3) assms(2)] by blast
  have only: "frames_only d' \<and> (out = None \<longrightarrow> rx d' = [])"
  proof -
    obtain e where e: "ensure_resampler rn ?r d = Inr e" using p(3) by (auto simp: to_come_def split: sum.splits)
    then have "frames_only e" "frames_sane (rx e)"
      using p(1,2) by (auto simp: ensure_resampler_def and_then_eq_Inr frames_only_def split: if_splits)
    moreover obtain res d2 where l: "collect_loop ?r ?n (residual_samples e) (e\<lparr>residual_samples := []\<rparr>) = (res, d2)"
      by (cases "collect_loop ?r ?n (residual_samples e) (e\<lparr>residual_samples := []\<rparr>)")
    ultimately have d2: "frames_only d2 \<and> (res = Inr None \<longrightarrow> rx d2 = [])"
      using collect_loop_frames_only [OF l] by simp
    have size: "?n \<le> length ys" if "res = Inr (Some ys)" for ys
      using collect_loop_size [OF l [unfolded that]] .
    have result: "(Inr out, d') = (case res of
         Inl e \<Rightarrow> (Inl e, d2)
       | Inr None \<Rightarrow> (Inr None, d2)
       | Inr (Some ys) \<Rightarrow> if ys = [] then (Inr None, d2)
           else if ?n < length ys then (Inr (Some \<lparr>dec_samples = take ?n ys\<rparr>), d2\<lparr>residual_samples := drop ?n ys\<rparr>)
           else (Inr (Some \<lparr>dec_samples = ys\<rparr>), d2))"
      unfolding c(1) [symmetric] decode_resampled_def Let_def e sum.case l prod.case
      by (simp split: sum.split option.split)
    show ?thesis
    proof (cases "\<exists>ys. res = Inr (Some ys)")
      case True
      then obtain ys where ys: "res = Inr (Some ys)" by blast
      with size assms(2) have "ys \<noteq> []" by fastforce
      with result d2 ys show ?thesis by (auto split: if_splits)
    next
      case False
      with result d2 show ?thesis by (auto split: sum.splits option.splits)
    qed
  qed
  have sane: "frames_sane (rx d')" using p(1) c(2) by simp
  show ?thesis
  proof (cases out)
    case None
    with only have "rx d' = []" by simp
    then have "rest = []"
      using c(3) ensure_resampler_once(1) [of rn ?r d'] by (auto simp: to_come_def split: sum.splits)
    with c(4) None have "residual_samples d @ pend = residual_samples d'" "length (residual_samples d') < ?n"
      by simp_all
    then have "length (residual_samples d) + length pend < ?n" by (metis length_append)
    with p(4) show ?thesis by simp
  next
    case (Some fr)
    with c(4) have cut: "residual_samples d @ pend = dec_samples fr @ residual_samples d' @ rest"
        "length (dec_samples fr) = ?n" by simp_all
    from arg_cong [OF cut(1), of length] cut(2)
    have "length (residual_samples d) + length pend = ?n + length (residual_samples d') + length rest" by simp
    with p(4) only sane c(3) have "ahead rn f k d'" by (simp add: ahead_def)
    with c(1) Some show ?thesis by blast
  qed
qed

section \<open>Filling the buffer\<close>

definition source_ahead :: "resampler_maker \<Rightarrow> nat \<Rightarrow> streamer_inner \<Rightarrow> bool" where
  "source_ahead rn k i \<longleftrightarrow> (\<exists>d. live_decoder i = Some d \<and> ahead rn (audio_format (si_config i)) k d)"

lemma decode_batch_ahead:
  assumes "healthy rn i" and "source_ahead rn (m + k) i"
    and "length (frames (si_buffer i)) + m \<le> capacity_frames (si_buffer i)"
  shows "\<exists>j. decode_batch rn m i = (Inr (), j) \<and> healthy rn j \<and> source_ahead rn k j \<and>
    length (frames (si_buffer j)) = length (frames (si_buffer i)) + m \<and>
    capacity_frames (si_buffer j) = capacity_frames (si_buffer i)"
  using assms
proof (induction m arbitrary: i)
  case (Suc m)
  let ?f = "audio_format (si_config i)"
  obtain d where d: "live_decoder i = Some d" "ahead rn ?f (Suc (m + k)) d"
    using Suc.prems(2) by (auto simp: source_ahead_def)
  have n: "0 < unat (frames_per_packet ?f) * unat (channels ?f)"
    using Suc.prems(1) by (simp add: healthy_def Let_def)
  obtain fr d' where dec: "decode_resampled rn ?f (unat (frames_per_packet ?f)) d = (Inr (Some fr), d')"
      "ahead rn ?f (m + k) d'"
    using ahead_decodes [OF d(2) n] by blast
  let ?fr = "audio_frame_new (dec_samples fr)"
  obtain b where push: "buffer_push ?fr (si_buffer i) = (Inr (), b)"
    and b: "frames b = frames (si_buffer i) @ [?fr]" "capacity_frames b = capacity_frames (si_buffer i)"
      "buf_format b = buf_format (si_buffer i)"
    using Suc.prems(1,3) by (auto simp: buffer_push_def healthy_def buffer_ok_def Let_def)
  let ?i = "i\<lparr>live_decoder := Some d', si_buffer := b\<rparr>"
  have "decode_batch rn (Suc m) i = decode_batch rn m ?i"
    using d(1) dec(1) push by (simp add: Let_def)
  moreover have "healthy rn ?i"
    using Suc.prems(1,3) dec(2) b by (auto simp: healthy_def ahead_def buffer_ok_def Let_def)
  moreover have "source_ahead rn (m + k) ?i" using dec(2) by (simp add: source_ahead_def)
  ultimately show ?case
    using Suc.IH [of ?i] Suc.prems(3) b by auto
qed auto

text \<open>A stream that has been started and is filling its buffer: nothing sent yet, \<open>b\<close> frames waiting, and
  the source is \<open>k\<close> packets ahead.\<close>

definition filling :: "resampler_maker \<Rightarrow> stream_config \<Rightarrow> u16 list \<Rightarrow> nat \<Rightarrow> nat \<Rightarrow> audio_streamer \<Rightarrow> bool" where
  "filling rn c q b k s \<longleftrightarrow> (\<exists>cp l. on_track c q cp 0 l s) \<and> loop_running s \<and> \<not> loop_checked s \<and>
     si_state (st_inner s) = StBuffering \<and> healthy rn (st_inner s) \<and> source_ahead rn k (st_inner s) \<and>
     list_all sealable (rtp_senders (st_inner s)) \<and> length (frames (si_buffer (st_inner s))) = b"

text \<open>One turn adds three frames; the first turn that fills more than a tenth of the buffer also sends.\<close>

lemma filling_turn:
  assumes "filling rn c q b (3 + k) s" and "10 * b \<le> capacity_frames (si_buffer (st_inner s))" and "tk_thread_alive tk"
  shows "\<exists>outs s'. run_io (streamer_step rn) s [Tick tk0 mf0 sg0, Tick tk mf sg] = (outs, s') \<and>
    (if 10 * (b + 3) \<le> capacity_frames (si_buffer (st_inner s))
     then outs = [] \<and> filling rn c q (b + 3) k s' \<and>
       capacity_frames (si_buffer (st_inner s')) = capacity_frames (si_buffer (st_inner s))
     else (\<exists>ws sd. outs = [ToThread (Packet ws sd)]) \<and> playing rn c q (b + 2) s')"
proof -
  let ?cap = "capacity_frames (si_buffer (st_inner s))"
  obtain cp l where track: "on_track c q cp 0 l s" using assms(1) by (auto simp: filling_def)
  have cap: "4 \<le> ?cap" using assms(1) by (simp add: filling_def healthy_def Let_def)
  have b: "length (frames (si_buffer (st_inner s))) = b" using assms(1) by (simp add: filling_def)
  let ?s = "s\<lparr>loop_checked := True\<rparr>" and ?s1 = "s\<lparr>loop_checked := False\<rparr>"
  have check: "streamer_step rn s (Tick tk0 mf0 sg0) = ([], ?s)"
    using assms(1) by (simp add: filling_def task_step_def loop_part_def loop_check_def Let_def)
  have track1: "on_track c q cp 0 l ?s1" using track by (simp add: on_track_def Let_def)
  let ?i = "update_timing_offset (tk_offset tk) (st_inner s)"
  have i: "healthy rn ?i" "source_ahead rn (3 + k) ?i" "si_buffer ?i = si_buffer (st_inner s)"
    using assms(1) by (auto simp: filling_def healthy_def source_ahead_def update_timing_offset_def split: option.split)
  have "\<not> BUFFER_LOW_WATERMARK_PERCENT \<le> fill_percentage (si_buffer ?i)"
    using fill_tests(1) [of "si_buffer ?i"] cap assms(2) b i(3) by (simp add: BUFFER_LOW_WATERMARK_PERCENT_def)
  then obtain j where refill: "refill_buffer_if_needed rn ?i = (Inr (), j)" "healthy rn j" "source_ahead rn k j"
      "length (frames (si_buffer j)) = b + 3" "capacity_frames (si_buffer j) = ?cap"
    using decode_batch_ahead [OF i(1,2)] i(3) b cap assms(2)
    by (auto simp: refill_buffer_if_needed_def decode_some_inner_def DECODE_BATCH_LIMIT_def)
  have wp: "whole_packets ?i" using track by (simp add: on_track_def Let_def)
  have j: "same_sender (st_inner s) j" "whole_packets j"
    using refill_keeps [OF refill(1) wp] same_sender_trans [OF update_timing_keeps(1)] by auto
  have run: "loop_running s" and buf: "si_state j = StBuffering" and seal: "list_all sealable (rtp_senders j)"
    using assms(1) j(1) by (simp_all add: filling_def same_sender_def)
  have ready: "BUFFER_RESUME_FILL_PERCENT < fill_percentage (si_buffer j) \<longleftrightarrow> ?cap < 10 * (b + 3)"
    using fill_tests(2) [of "si_buffer j"] cap refill(4,5) by (simp add: BUFFER_RESUME_FILL_PERCENT_def)
  show ?thesis
  proof (cases "10 * (b + 3) \<le> ?cap")
    case True
    let ?s' = "?s1\<lparr>st_inner := j, state_cache := StBuffering, loop_deadline := tk_now tk\<rparr>"
    have "buffering_action j = (Wait, j)"
      using buf ready True refill(4) by (auto simp: buffering_action_def buffer_is_empty_def Let_def)
    then have "streamer_step rn ?s (Tick tk mf sg) = ([], ?s')"
      using run by (simp add: task_step_def loop_part_def loop_body_def Let_def refill(1))
    moreover have "on_track c q cp 0 l ?s'" by (rule on_track_inner [OF track1 _ j(2)]) (simp_all add: j(1))
    then have "filling rn c q (b + 3) k ?s'"
      using run buf seal refill by (auto simp: filling_def)
    ultimately show ?thesis using True check refill(5) by simp
  next
    case False
    let ?j = "j\<lparr>si_state := StStreaming\<rparr>"
    let ?s2 = "?s1\<lparr>st_inner := ?j, state_cache := StStreaming\<rparr>"
    have act: "buffering_action j = (buffering_action.Ready, ?j)"
      using buf ready False by (simp add: buffering_action_def)
    have "on_track c q cp 0 l (?s1\<lparr>st_inner := j\<rparr>)" by (rule on_track_inner [OF track1 _ j(2)]) (simp_all add: j(1))
    then have track2: "on_track c q cp 0 l ?s2" by (rule on_track_state) simp_all
    obtain fr frs where fr: "frames (si_buffer j) = fr # frs" "length frs = b + 2"
      using refill(4) by (cases "frames (si_buffer j)") auto
    have "healthy rn ?j" using refill(2) by (simp add: healthy_def)
    then obtain ws sd s' where send: "send_next_frame tk ?s2 = ([ToThread (Packet ws sd)], NextNow, s')"
        "healthy rn (st_inner s')" "list_all sealable (rtp_senders (st_inner s'))"
        "frames (si_buffer (st_inner s')) = frs" "si_state (st_inner s') = StStreaming" "loop_running s'"
        "\<not> loop_checked s'"
      using send_next_frame_live [OF track2, of rn fr frs tk] fr(1) seal run assms(3) by auto
    have body: "loop_body rn tk ?s1 = send_next_frame tk ?s2"
      by (simp add: loop_body_def Let_def refill(1) act)
    from send_next_frame_ok [OF track2, of tk] obtain l' where "on_track c q cp (Suc 0) l' s'"
      by (auto simp: step_ok_def send(1))
    then have "playing rn c q (b + 2) s'" using send fr(2) by (auto simp: playing_def)
    moreover have "streamer_step rn ?s (Tick tk mf sg) = ([ToThread (Packet ws sd)], s')"
      using run send(1) by (simp add: task_step_def loop_part_def body)
    ultimately show ?thesis using False check by simp
  qed
qed

text \<open>Turns in a row.\<close>

lemma turns_Suc: "turns (Suc n) tk = [Tick tk True True, Tick tk True True] @ turns n tk"
  by (simp add: turns_def)

lemma turns_add: "turns (m + n) tk = turns m tk @ turns n tk"
  by (simp add: turns_def replicate_add)

lemma filling_turns:
  assumes "filling rn c q b (3 * m + k) s" and "capacity_frames (si_buffer (st_inner s)) = cap"
    and "10 * (b + 3 * m) \<le> cap" and "tk_thread_alive tk"
  shows "\<exists>s'. run_io (streamer_step rn) s (turns m tk) = ([], s') \<and> filling rn c q (b + 3 * m) k s' \<and>
    capacity_frames (si_buffer (st_inner s')) = cap"
  using assms(1-3)
proof (induction m arbitrary: b s)
  case 0
  then show ?case by (simp add: turns_def)
next
  case (Suc m)
  have "filling rn c q b (3 + (3 * m + k)) s" using Suc.prems(1) by (simp add: algebra_simps)
  from filling_turn [OF this _ assms(4), of tk True True True True] Suc.prems(2,3) obtain s1 where
    one: "run_io (streamer_step rn) s [Tick tk True True, Tick tk True True] = ([], s1)"
      "filling rn c q (b + 3) (3 * m + k) s1" "capacity_frames (si_buffer (st_inner s1)) = cap"
    by auto
  from Suc.IH [OF one(2,3)] Suc.prems(3) obtain s' where "run_io (streamer_step rn) s1 (turns m tk) = ([], s')"
      "filling rn c q (b + 3 + 3 * m) k s'" "capacity_frames (si_buffer (st_inner s')) = cap"
    by auto
  moreover from this(1) have "run_io (streamer_step rn) s (turns (Suc m) tk) = ([], s')"
    by (simp only: turns_Suc run_io_append one(1)) simp
  ultimately show ?case by (auto simp: add.assoc)
qed

text \<open>The turns until the buffer is more than a tenth full, three frames at a turn.\<close>

definition turns_to_start :: "nat \<Rightarrow> nat" where
  "turns_to_start cap = cap div 30 + 1"

lemma filled_plays:
  assumes "filling rn c q 0 (3 * turns_to_start cap) s" and "capacity_frames (si_buffer (st_inner s)) = cap"
    and "tk_thread_alive tk" and "n < 3 * turns_to_start cap"
  shows "packets (fst (run_io (streamer_step rn) s (turns (cap div 30) tk))) = []"
    and "length (packets (fst (run_io (streamer_step rn) s (turns (turns_to_start cap + n) tk)))) = Suc n"
    and "loop_running (snd (run_io (streamer_step rn) s (turns (turns_to_start cap + n) tk)))"
proof -
  let ?m = "cap div 30"
  have "filling rn c q 0 (3 * ?m + 3) s" using assms(1) by (simp add: turns_to_start_def add.commute)
  from filling_turns [OF this assms(2) _ assms(3)] obtain s1 where
    s1: "run_io (streamer_step rn) s (turns ?m tk) = ([], s1)" "filling rn c q (3 * ?m) (3 + 0) s1"
      "capacity_frames (si_buffer (st_inner s1)) = cap"
    by auto
  have full: "\<not> 10 * (3 * ?m + 3) \<le> cap" using div_mult_mod_eq [of cap 30] mod_less_divisor [of 30 cap] by simp
  from filling_turn [OF s1(2) _ assms(3), of tk True True True True] s1(3) full obtain ws sd s2 where
    s2: "run_io (streamer_step rn) s1 [Tick tk True True, Tick tk True True] = ([ToThread (Packet ws sd)], s2)"
      "playing rn c q (3 * ?m + 2) s2"
    by auto
  have "n \<le> 3 * ?m + 2" using assms(4) by (simp add: turns_to_start_def)
  then have "playing rn c q n s2" using s2(2) by (auto simp: playing_def)
  note n = playing_turns [OF this assms(3)]
  have "turns (turns_to_start cap + n) tk = turns (?m + Suc n) tk" by (simp add: turns_to_start_def)
  also have "\<dots> = turns ?m tk @ ([Tick tk True True, Tick tk True True] @ turns n tk)"
    by (simp only: turns_add turns_Suc)
  finally have "turns (turns_to_start cap + n) tk =
      turns ?m tk @ ([Tick tk True True, Tick tk True True] @ turns n tk)" .
  moreover have "run_io (streamer_step rn) s1 ([Tick tk True True, Tick tk True True] @ turns n tk) =
      (let (more, s3) = run_io (streamer_step rn) s2 (turns n tk) in (ToThread (Packet ws sd) # more, s3))"
    by (subst run_io_append, subst s2(1)) simp
  ultimately have run: "run_io (streamer_step rn) s (turns (turns_to_start cap + n) tk) =
      (let (more, s3) = run_io (streamer_step rn) s2 (turns n tk) in (ToThread (Packet ws sd) # more, s3))"
    by (simp only: run_io_append [of _ s "turns ?m tk"] s1(1)) (simp add: split_def)
  show "packets (fst (run_io (streamer_step rn) s (turns ?m tk))) = []" by (simp add: s1(1))
  show "length (packets (fst (run_io (streamer_step rn) s (turns (turns_to_start cap + n) tk)))) = Suc n"
    and "loop_running (snd (run_io (streamer_step rn) s (turns (turns_to_start cap + n) tk)))"
    using n by (simp_all add: run Let_def split_def playing_def)
qed

section \<open>Started streams\<close>

definition seals_everything :: "aead \<Rightarrow> bool" where
  "seals_everything a \<longleftrightarrow> (\<forall>k n ad m. \<exists>c. seal a k n ad m = Some c \<and> 16 \<le> length c)"

lemma chacha_sealable:
  assumes "seals_everything a" and "rtp_cipher r = Some (chacha_encrypt_payload a key)"
  shows "sealable r"
proof -
  have "\<exists>x. chacha_encrypt_payload a key p t s sq = Inr x" for p t s sq
  proof -
    obtain b where "seal a key (audio_nonce sq) (build_aad t s) p = Some b" "16 \<le> length b"
      using assms(1) unfolding seals_everything_def by blast
    then show ?thesis by (simp add: chacha_encrypt_payload_def encrypt_with_seq_def Let_def)
  qed
  with assms(2) show ?thesis by (simp add: sealable_def)
qed

lemma start_live_filling:
  assumes "fresh_streamer s" and "start_live codec_new d now s = (Inr (), s')"
    and "si_config (st_inner s) = c" and "channels (audio_format c) \<noteq> 0" and "frames_per_packet (audio_format c) \<noteq> 0"
    and "\<And>rate n ch. codec_fits (unat n * unat (channels (audio_format c)) * 2 + 256) (codec_new rate n ch)"
    and "frames (si_buffer (st_inner s)) = []" and "4 \<le> capacity_frames (si_buffer (st_inner s))"
    and "list_all sealable (rtp_senders (st_inner s))" and "ahead rn (audio_format c) k d"
  shows "filling rn c (map rtp_sequence (rtp_senders (st_inner s))) 0 k s'"
    and "si_buffer (st_inner s') = si_buffer (st_inner s)"
proof -
  have log: "logged c (map rtp_sequence (rtp_senders (st_inner s))) (has_control_port (st_inner s)) [] s'"
    using assms(1-4,6) by (rule start_live_logged)
  have task: "\<not> st_task s" and wp: "whole_packets (st_inner s)" using assms(1) by (simp_all add: fresh_streamer_def)
  obtain e where e: "create_encoder codec_new (audio_format c) = Inr e"
    using assms(2,3) by (cases "create_encoder codec_new (audio_format c)") (auto simp: start_live_def on_inner_def Let_def)
  have s': "st_inner s' = (st_inner s)\<lparr>live_decoder := Some d, si_encoder := Some e, si_state := StBuffering\<rparr>"
      "loop_running s'" "\<not> loop_checked s'"
    using assms(2) task e by (auto simp: start_live_def on_inner_def assms(3) Let_def)
  then show "si_buffer (st_inner s') = si_buffer (st_inner s)" by simp
  have fields: "si_state (st_inner s') = StBuffering" "live_decoder (st_inner s') = Some d"
      "si_buffer (st_inner s') = si_buffer (st_inner s)" "rtp_senders (st_inner s') = rtp_senders (st_inner s)"
      "si_config (st_inner s') = c"
    by (simp_all add: s' assms(3))
  have pos: "0 < unat (frames_per_packet (audio_format c)) * unat (channels (audio_format c))"
    using assms(4,5) by (simp add: unat_gt_0)
  have "healthy rn (st_inner s')"
    using wp assms(8,10) pos fields by (auto simp: healthy_def whole_packets_def ahead_def Let_def)
  then show "filling rn c (map rtp_sequence (rtp_senders (st_inner s))) 0 k s'"
    using log s'(2,3) fields assms(7,9,10) by (auto simp: filling_def logged_def source_ahead_def)
qed

text \<open>The capacity of a streamer's buffer: two seconds.\<close>

definition buffer_capacity :: "stream_config \<Rightarrow> nat" where
  "buffer_capacity c = capacity_frames (buffer_new (audio_format c) DEFAULT_BUFFER_CAPACITY_MS)"

lemma new_buffer_empty: "frames (buffer_new f ms) = []"
  by (simp add: buffer_new_def Let_def)

lemma started_connection_filling:
  assumes "start_streaming_live h d c = (Inr (), c')" and "cn_streamer c' = Some s"
    and "channels (audio_format (cn_config c)) \<noteq> 0" and "frames_per_packet (audio_format (cn_config c)) \<noteq> 0"
    and "\<forall>rate n ch. codec_fits (unat n * unat (channels (audio_format (cn_config c))) * 2 + 256) (h_codec h rate n ch)"
    and "seals_everything (h_aead h)" and "4 \<le> buffer_capacity (cn_config c)"
    and "ahead rn (audio_format (cn_config c)) k d"
  shows "\<exists>q. filling rn (cn_config c) q 0 k s" and "capacity_frames (si_buffer (st_inner s)) = buffer_capacity (cn_config c)"
proof -
  obtain c1 r where st: "same_config c c1" "build_rtp_sender h c1 = Inr r"
      "start_live (h_codec h) d (h_now h) (configured_streamer c1 r) = (Inr (), s)"
    by (rule start_streaming_steps [OF assms(1)]) (use assms(2) in auto)
  have cfg: "cn_config c1 = cn_config c" using st(1) by (simp add: same_config_def)
  have r: "rtp_socket r" "rtp_cipher r = Some (chacha_encrypt_payload (h_aead h) (shk (cn_session c1)))"
    using build_rtp_sender_fields [OF st(2)] by auto
  have fresh: "fresh_streamer (configured_streamer c1 r)" using r(1) assms(3) cfg by (intro configured_fresh) simp_all
  note start = start_live_filling [OF fresh st(3), of "cn_config c" rn k]
  have fill: "filling rn (cn_config c) (map rtp_sequence (rtp_senders (st_inner (configured_streamer c1 r)))) 0 k s"
    by (rule start(1)) (use assms cfg r chacha_sealable in \<open>auto simp: configured_streamer_simps new_buffer_empty buffer_capacity_def\<close>)
  then show "\<exists>q. filling rn (cn_config c) q 0 k s" by blast
  show "capacity_frames (si_buffer (st_inner s)) = buffer_capacity (cn_config c)"
    by (subst start(2)) (use assms cfg r chacha_sealable in \<open>auto simp: configured_streamer_simps new_buffer_empty buffer_capacity_def\<close>)
qed

lemma member_senders_sealable:
  assumes "member_senders hs i cs = Inr rs" and "\<forall>j. seals_everything (h_aead (hs j))"
  shows "list_all sealable rs"
  using assms(1)
proof (induction cs arbitrary: i rs)
  case (Cons c cs)
  obtain r qs where r: "build_rtp_sender (hs i) c = Inr r" "member_senders hs (Suc i) cs = Inr qs" "rs = r # qs"
    using Cons.prems by (auto simp: and_then_eq_Inr map_sum_eq_Inr)
  have "sealable r" using chacha_sealable assms(2) build_rtp_sender_fields [OF r(1)] by blast
  with Cons.IH [OF r(2)] r(3) show ?case by simp
qed simp

lemma started_group_filling:
  assumes "group_start_live_streaming hs cfg delay d gp = (Inr (), gp')" and "gs_streamer (fst gp') = Some s"
    and "channels (audio_format cfg) \<noteq> 0" and "frames_per_packet (audio_format cfg) \<noteq> 0"
    and "\<forall>rate n ch. codec_fits (unat n * unat (channels (audio_format cfg)) * 2 + 256) (h_codec (hs 0) rate n ch)"
    and "\<forall>j. seals_everything (h_aead (hs j))" and "4 \<le> buffer_capacity cfg"
    and "ahead rn (audio_format cfg) k d"
  shows "\<exists>q. filling rn cfg q 0 k s" and "capacity_frames (si_buffer (st_inner s)) = buffer_capacity cfg"
proof -
  obtain senders clock_id where st:
    "member_senders hs 0 (snd gp' # gs_connections (fst gp')) = Inr senders"
    "start_live (h_codec (hs 0)) d (h_now (hs 0)) (group_streamer cfg delay clock_id (snd gp') senders) = (Inr (), s)"
    by (rule group_start_steps [OF assms(1)]) (use assms(2) in auto)
  let ?g = "group_streamer cfg delay clock_id (snd gp') senders"
  obtain r rs where r: "senders = r # rs" "rtp_socket r"
    using member_senders_all [OF st(1)] by (auto simp: list_all2_Cons1 sender_of_def)
  have fresh: "fresh_streamer ?g" using group_fresh [OF r assms(3)] .
  note start = start_live_filling [OF fresh st(2), of cfg rn k]
  have fill: "filling rn cfg (map rtp_sequence (rtp_senders (st_inner ?g))) 0 k s"
    by (rule start(1)) (use assms member_senders_sealable [OF st(1) assms(6)] in
      \<open>auto simp: group_streamer_simps new_buffer_empty buffer_capacity_def\<close>)
  then show "\<exists>q. filling rn cfg q 0 k s" by blast
  show "capacity_frames (si_buffer (st_inner s)) = buffer_capacity cfg"
    by (subst start(2)) (use assms member_senders_sealable [OF st(1) assms(6)] in
      \<open>auto simp: group_streamer_simps new_buffer_empty buffer_capacity_def\<close>)
qed

section \<open>Claims\<close>


lemma sample_config_facts:
  "cn_config sample_connection = default_config" "channels (audio_format default_config) = 2"
  "frames_per_packet (audio_format default_config) = 352" "buffer_capacity default_config = 250"
  "sample_rate (audio_format default_config) = Hz44100"
  by (simp_all add: sample_connection_def from_paired_parts_def default_config_def default_format_def protocol_defs
      buffer_capacity_def buffer_new_def DEFAULT_BUFFER_CAPACITY_MS_def Let_def)

lemma sample_ahead: "ahead rn (audio_format default_config) 27 sample_decoder"
  by (simp add: ahead_def sample_config_facts sample_decoder_def live_decoder_new_def frames_sane_def frames_only_def
      to_come_same_rate protocol_defs)

lemma sample_seals: "seals_everything (h_aead sample_host)"
  by (auto simp: seals_everything_def sample_host_def plain_aead_def plain_tag_def min_def)

text \<open>A sample group after eleven turns: three packets have been sent.\<close>

lemma sample_group_plays:
  obtains gp' s outs s' where
    "group_start_live_streaming (\<lambda>_. sample_host) default_config 0 sample_decoder sample_group = (Inr (), gp')"
    "gs_streamer (fst gp') = Some s" "run_io (streamer_step (\<lambda>_ _ _. Inl Panic)) s (turns 11 sample_tick) = (outs, s')"
    "length (packets outs) = 3" "loop_running s'"
    "\<forall>c \<in> set (snd gp' # gs_connections (fst gp')). length (shk (cn_session c)) = 32"
    "1 + length (gs_connections (fst gp')) = 2"
proof -
  let ?rn = "\<lambda>_ _ _. Inl Panic"
  obtain gp' where 1: "group_start_live_streaming (\<lambda>_. sample_host) default_config 0 sample_decoder sample_group = (Inr (), gp')"
    and keys: "\<forall>c \<in> set (snd gp' # gs_connections (fst gp')). length (shk (cn_session c)) = 32"
      "1 + length (gs_connections (fst gp')) = 2"
    using sample_group_start by blast
  obtain s where 2: "gs_streamer (fst gp') = Some s" by (rule group_start_steps [OF 1]) blast
  have fill: "\<exists>q. filling ?rn default_config q 0 27 s" "capacity_frames (si_buffer (st_inner s)) = 250"
    using started_group_filling [OF 1 2, of ?rn 27] sample_config_facts sample_ahead sample_seals copy_codec_fits
    by (simp_all add: sample_host_def)
  then obtain q where "filling ?rn default_config q 0 (3 * turns_to_start 250) s" by (auto simp: turns_to_start_def)
  note plays = filled_plays [OF this fill(2), of sample_tick 2]
  obtain outs s' where run: "run_io (streamer_step ?rn) s (turns 11 sample_tick) = (outs, s')"
    by (cases "run_io (streamer_step ?rn) s (turns 11 sample_tick)")
  have "length (packets outs) = 3" "loop_running s'"
    using plays(2,3) run by (simp_all add: turns_to_start_def sample_tick_def)
  with 1 2 run keys that show thesis by blast
qed


end
