(* ===== verification/Stream_Log.thy ===== *)
theory Stream_Log
  imports Streamer_Live
begin

text \<open>
  What holds of a streamer (\<open>src/audio/streamer.rs\<close>) together with everything it has handed to the
  sender thread so far. A property of the packets and of the inner state need only be checked against
  the pieces of an iteration, filling the buffer and sending a frame; the locale \<open>stream_log\<close> carries it
  through any turns of the task and any calls of the streamer in between, and to the point where the
  task ends by itself. The theory adds no definition of the code.
\<close>

text \<open>Everything has been taken out of the decoder and the buffer.\<close>

definition drained :: "streamer_inner \<Rightarrow> bool" where
  "drained i \<longleftrightarrow> frames (si_buffer i) = [] \<and> (\<exists>d. live_decoder i = Some d \<and> is_eof d)"

text \<open>The property holds while the task runs, and still when it has stopped at the end of the source
  (a call of \<open>stop\<close> takes the decoder away).\<close>

definition kept :: "('p list \<Rightarrow> streamer_inner \<Rightarrow> bool) \<Rightarrow> 'p list \<Rightarrow> audio_streamer \<Rightarrow> bool" where
  "kept Q ps s \<longleftrightarrow>
     (loop_running s \<longrightarrow> st_sender_tx s \<and> si_state (st_inner s) \<noteq> StStopped \<and> Q ps (st_inner s)) \<and>
     (si_state (st_inner s) = StStopped \<and> live_decoder (st_inner s) \<noteq> None \<longrightarrow>
        drained (st_inner s) \<and> Q ps (st_inner s))"

lemma kept_running: "kept Q ps s \<Longrightarrow> loop_running s \<Longrightarrow> st_sender_tx s \<and> Q ps (st_inner s)"
  by (simp add: kept_def)

lemma kept_stopped:
  "kept Q ps s \<Longrightarrow> si_state (st_inner s) = StStopped \<Longrightarrow> live_decoder (st_inner s) \<noteq> None \<Longrightarrow>
   drained (st_inner s) \<and> Q ps (st_inner s)"
  by (simp add: kept_def)

lemma kept_silent:
  "\<not> loop_running s \<Longrightarrow> si_state (st_inner s) \<noteq> StStopped \<Longrightarrow> kept Q ps s"
  by (simp add: kept_def)

text \<open>An iteration that does not break or fail goes on.\<close>

definition goes_on :: "loop_end \<Rightarrow> bool" where
  "goes_on e \<longleftrightarrow> e \<noteq> Broken \<and> (\<forall>err. e \<noteq> loop_end.Failed err)"

lemma goes_on_simps [simp]:
  "goes_on NextNow" "goes_on (NextAt n)" "goes_on RetryLater" "\<not> goes_on Broken" "\<not> goes_on (loop_end.Failed err)"
  by (simp_all add: goes_on_def)

text \<open>One that does hands nothing over.\<close>

lemma send_next_frame_quiet:
  "send_next_frame tk s = (outs, e, s') \<Longrightarrow> \<not> goes_on e \<Longrightarrow> packets outs = []"
  by (auto simp: send_next_frame_def send_packet_def finish_iteration_def packets_def Let_def
      split: prod.splits sum.splits option.splits if_splits)

lemma loop_part_quiet:
  "loop_part rn tk s = (outs, e, s') \<Longrightarrow> \<not> goes_on e \<Longrightarrow> packets outs = []"
  using send_next_frame_quiet
  by (auto simp: loop_part_def loop_body_def Let_def split: prod.splits sum.splits buffering_action.splits if_splits)

locale stream_log =
  fixes rn :: resampler_maker and Q :: "(bytes list \<times> bytes option) list \<Rightarrow> streamer_inner \<Rightarrow> bool"
  assumes timing: "Q ps i \<Longrightarrow> Q ps (update_timing_offset u i)"
    and any_state: "Q ps i \<Longrightarrow> Q ps (i\<lparr>si_state := st\<rparr>)"
    and refilled: "Q ps i \<Longrightarrow> refill_buffer_if_needed rn i = (Inr (), j) \<Longrightarrow> Q ps j"
    and reset: "Q ps (st_inner s) \<Longrightarrow> Q ps (st_inner (reset_after_flush s))"
    and sent: "st_sender_tx s \<Longrightarrow> Q ps (st_inner s) \<Longrightarrow> send_next_frame tk s = (outs, e, s') \<Longrightarrow> goes_on e \<Longrightarrow>
      st_sender_tx s' \<and> Q (ps @ packets outs) (st_inner s')"
begin

lemma body_kept:
  assumes "st_sender_tx s" and "Q ps (st_inner s)" and "si_state (st_inner s) \<noteq> StStopped"
    and "loop_body rn tk s = (outs, e, s')"
  shows "si_state (st_inner s') \<noteq> StStopped \<and> (goes_on e \<longrightarrow> st_sender_tx s' \<and> Q (ps @ packets outs) (st_inner s')) \<or>
    e = Broken \<and> outs = [] \<and> drained (st_inner s') \<and> Q ps (st_inner s')"
proof -
  let ?i = "update_timing_offset (tk_offset tk) (st_inner s)"
  obtain res j where refill: "refill_buffer_if_needed rn ?i = (res, j)" by (cases "refill_buffer_if_needed rn ?i")
  have st: "si_state j \<noteq> StStopped"
    using refill_state [OF refill] assms(3) by (simp add: update_timing_offset_def split: option.split)
  obtain a m where act: "buffering_action j = (a, m)" by (cases "buffering_action j")
  show ?thesis
  proof (cases res)
    case (Inl err)
    with assms(4) refill st show ?thesis by (auto simp: loop_body_def Let_def)
  next
    case (Inr u)
    have j: "Q ps j" using refilled [OF timing [OF assms(2)]] refill Inr by simp
    then have m: "Q ps m" using buffering_action_keeps [OF act] any_state by auto
    show ?thesis
    proof (cases a)
      case Ready
      let ?s = "s\<lparr>st_inner := m, state_cache := (if si_state m = StStreaming then StStreaming else state_cache s)\<rparr>"
      have send: "send_next_frame tk ?s = (outs, e, s')"
        using assms(4) refill Inr act Ready by (simp add: loop_body_def Let_def)
      have "si_state m \<noteq> StStopped"
        using act Ready st by (auto simp: buffering_action_def Let_def split: if_splits)
      with send_next_frame_state [OF send] have "si_state (st_inner s') \<noteq> StStopped" by auto
      moreover have "goes_on e \<Longrightarrow> st_sender_tx s' \<and> Q (ps @ packets outs) (st_inner s')"
        using sent [OF _ _ send] assms(1) m by simp
      ultimately show ?thesis by blast
    next
      case Wait
      have "m = j" using act Wait by (auto simp: buffering_action_def Let_def split: if_splits)
      with assms(1,4) refill Inr act Wait m st show ?thesis by (auto simp: loop_body_def Let_def)
    next
      case StopLoop
      have "drained m" using stop_action [of j m] act StopLoop by (auto simp: drained_def)
      with assms(4) refill Inr act StopLoop m show ?thesis by (auto simp: loop_body_def Let_def)
    qed
  qed
qed

lemma task_kept:
  assumes "kept Q ps s" and "task_step rn tk mf sg s = (outs, s')"
  shows "kept Q (ps @ packets outs) s'"
proof (cases "loop_running s")
  case False
  with assms show ?thesis by (simp add: task_step_def)
next
  case True
  then have s: "st_sender_tx s" "Q ps (st_inner s)" "si_state (st_inner s) \<noteq> StStopped"
    using assms(1) by (simp_all add: kept_def)
  obtain o1 e s1 where part: "loop_part rn tk s = (o1, e, s1)" by (cases "loop_part rn tk s")
  have body: "si_state (st_inner s1) \<noteq> StStopped \<and> (goes_on e \<longrightarrow> st_sender_tx s1 \<and> Q (ps @ packets o1) (st_inner s1)) \<or>
      e = Broken \<and> o1 = [] \<and> drained (st_inner s1) \<and> Q ps (st_inner s1)"
  proof (cases "loop_checked s")
    case True
    with part have "loop_body rn tk (s\<lparr>loop_checked := False\<rparr>) = (o1, e, s1)" by (simp add: loop_part_def)
    from body_kept [OF _ _ _ this] s show ?thesis by simp
  next
    case False
    with part s show ?thesis by (auto simp: loop_part_def loop_check_def Let_def split: if_splits)
  qed
  show ?thesis
  proof (cases "goes_on e")
    case True
    then have "outs = o1 \<and> s' = s1"
      using assms(2) part \<open>loop_running s\<close> by (cases e) (simp_all add: task_step_def)
    with body True show ?thesis by (auto simp: kept_def)
  next
    case False
    then have "\<not> loop_running s' \<and> packets outs = packets o1 \<and>
        (si_state (st_inner s') = StStopped \<longrightarrow> st_inner s' = st_inner s1)"
      using assms(2) part \<open>loop_running s\<close>
      by (cases e) (auto simp: task_step_def goes_on_def split: fault.splits if_splits)
    with body show ?thesis by (auto simp: kept_def)
  qed
qed

lemma step_kept:
  assumes "kept Q ps s" and "streamer_step rn s ev = (outs, s')"
  shows "kept Q (ps @ packets outs) s'"
proof (cases ev)
  case (Tick tk mf sg)
  with assms show ?thesis by (auto intro: task_kept)
next
  case ResetAfterFlush
  have "si_state (st_inner (reset_after_flush s)) = si_state (st_inner s)"
      "live_decoder (st_inner (reset_after_flush s)) = live_decoder (st_inner s)"
      "si_buffer (st_inner (reset_after_flush s)) = si_buffer (st_inner s)"
      "loop_running (reset_after_flush s) = loop_running s" "st_sender_tx (reset_after_flush s) = st_sender_tx s"
    by (simp_all add: reset_after_flush_def on_inner_def)
  with assms ResetAfterFlush reset show ?thesis by (auto simp: kept_def drained_def)
next
  case (StopCall sg)
  with assms show ?thesis by (auto simp: streamer_stop_def kept_def Let_def)
next
  case (PauseCall sg)
  have "\<not> (si_state (st_inner s) = StStreaming \<and> si_state (st_inner s) = StStopped)" by auto
  with assms PauseCall show ?thesis
    by (auto simp: streamer_pause_def kept_def any_state split: if_splits)
next
  case (ResumeCall sg)
  with assms show ?thesis by (auto simp: streamer_resume_def kept_def any_state split: if_splits)
qed

lemma run_kept:
  "kept Q ps s \<Longrightarrow> run_io (streamer_step rn) s evs = (outs, s') \<Longrightarrow> kept Q (ps @ packets outs) s'"
proof (induction evs arbitrary: s ps outs)
  case (Cons ev evs)
  obtain o1 s1 where one: "streamer_step rn s ev = (o1, s1)" by (cases "streamer_step rn s ev")
  obtain o2 where more: "run_io (streamer_step rn) s1 evs = (o2, s')" "outs = o1 @ o2"
    using Cons.prems(2) one by (auto split: prod.splits)
  from Cons.IH [OF step_kept [OF Cons.prems(1) one] more(1)] more(2) show ?case by simp
qed simp

text \<open>What the property says of the packets alone holds of the whole log, also after the task has ended.\<close>

lemma step_logged:
  assumes "\<And>ps i. Q ps i \<Longrightarrow> L ps" and "kept Q ps s" and "L ps" and "streamer_step rn s ev = (outs, s')"
  shows "L (ps @ packets outs)"
proof (cases "packets outs = []")
  case True
  with assms(3) show ?thesis by simp
next
  case False
  then obtain tk mf sg where ev: "ev = Tick tk mf sg" "loop_running s"
    using assms(4) by (cases ev)
      (auto simp: task_step_def streamer_stop_def streamer_pause_def streamer_resume_def Let_def split: if_splits)
  obtain o1 e s1 where part: "loop_part rn tk s = (o1, e, s1)" by (cases "loop_part rn tk s")
  have out: "packets outs = packets o1"
    using assms(4) ev part by (auto simp: task_step_def split: loop_end.splits fault.splits if_splits)
  then have e: "goes_on e" using False loop_part_quiet [OF part] by auto
  then have "s' = s1" using assms(4) ev part by (cases e) (simp_all add: task_step_def)
  have "loop_checked s" using part out False by (auto simp: loop_part_def Let_def split: if_splits prod.splits)
  with part have "loop_body rn tk (s\<lparr>loop_checked := False\<rparr>) = (o1, e, s1)" by (simp add: loop_part_def)
  note body = body_kept [OF _ _ _ this, of ps]
  from assms(2) ev(2) have "st_sender_tx s" "Q ps (st_inner s)" "si_state (st_inner s) \<noteq> StStopped"
    by (simp_all add: kept_def)
  with body e have "Q (ps @ packets o1) (st_inner s1)" by auto
  with assms(1) out show ?thesis by simp
qed

lemma run_logged:
  assumes "\<And>ps i. Q ps i \<Longrightarrow> L ps"
  shows "kept Q ps s \<Longrightarrow> L ps \<Longrightarrow> run_io (streamer_step rn) s evs = (outs, s') \<Longrightarrow> L (ps @ packets outs)"
proof (induction evs arbitrary: s ps outs)
  case (Cons ev evs)
  obtain o1 s1 where one: "streamer_step rn s ev = (o1, s1)" by (cases "streamer_step rn s ev")
  obtain o2 where more: "run_io (streamer_step rn) s1 evs = (o2, s')" "outs = o1 @ o2"
    using Cons.prems(3) one by (auto split: prod.splits)
  have "L (ps @ packets o1)" by (rule step_logged [where L = L, OF _ Cons.prems(1,2) one]) (rule assms)
  from Cons.IH [OF step_kept [OF Cons.prems(1) one] this more(1)] more(2) show ?case by simp
qed simp

end

section \<open>Sending to all targets\<close>

text \<open>The packets for one target, from what was handed to the thread.\<close>

definition sent_to :: "nat \<Rightarrow> (bytes list \<times> bytes option) list \<Rightarrow> bytes list" where
  "sent_to i ps = map (\<lambda>p. fst p ! i) ps"

lemma sent_to_simps [simp]:
  "sent_to i [] = []" "sent_to i (ps @ qs) = sent_to i ps @ sent_to i qs" "sent_to i (p # ps) = fst p ! i # sent_to i ps"
  by (simp_all add: sent_to_def)

lemma prepare_all_each:
  "prepare_all pt ts payload mk rs = (Inr ws, rs') \<Longrightarrow>
   length rs' = length rs \<and> (\<forall>i < length rs. serialize_audio pt ts payload mk (rs ! i) = (Inr (ws ! i), rs' ! i))"
proof (induction rs arbitrary: ws rs')
  case (Cons r rs)
  obtain w r' where one: "prepare_audio pt ts payload mk r = (Inr w, r')"
    using Cons.prems by (auto split: prod.splits sum.splits)
  obtain res qs where all: "prepare_all pt ts payload mk rs = (res, qs)"
    by (cases "prepare_all pt ts payload mk rs")
  from Cons.prems one all obtain vs where vs: "res = Inr vs" "ws = w # vs" "rs' = r' # qs"
    by (auto simp: and_then_eq_Inr)
  from Cons.IH [OF all [unfolded vs(1)]] one vs show ?case
    by (auto simp: nth_Cons prepare_audio_def split: nat.split)
qed simp

text \<open>A packet that goes out has been prepared by every sender, whose states apart from the numbers of
  the sync packets were those before; or there is nobody to send to.\<close>

definition sync_aside :: "rtp_sender \<Rightarrow> rtp_sender" where
  "sync_aside r = r\<lparr>sync_sequence := 0, first_sync_sent := False\<rparr>"

lemma sync_aside_eq:
  assumes "sync_aside r' = sync_aside r"
  shows "rtp_socket r' = rtp_socket r \<and> rtp_sequence r' = rtp_sequence r \<and> rtp_cipher r' = rtp_cipher r \<and>
    packet_history r' = packet_history r \<and> rtp_ssrc r' = rtp_ssrc r"
  using assms by (cases r; cases r') (simp add: sync_aside_def)

lemma sync_for_thread_aside:
  assumes "sync_for_thread sync ts t i = (sd, j)"
  shows "j = i\<lparr>rtp_senders := rtp_senders j\<rparr> \<and> map sync_aside (rtp_senders j) = map sync_aside (rtp_senders i)"
  using assms by (auto simp: sync_for_thread_def prepare_sync_def prepare_ptp_sync_def sync_aside_def Let_def
      split: list.splits if_splits prod.splits)

lemma send_packet_prepares:
  assumes "st_sender_tx s" and "send_packet tk p s = (outs, e, s')" and "goes_on e"
  obtains (nobody) "rtp_senders (st_inner s) = []" "outs = []" "s' = s"
    | (out) pt ts ws sd rs rs' where "map sync_aside rs = map sync_aside (rtp_senders (st_inner s))"
      "prepare_all pt ts (pkt_data p) (\<not> first_packet_sent (st_inner s)) rs = (Inr ws, rs')"
      "packets outs = [(ws, sd)]" "st_sender_tx s'" "rtp_senders (st_inner s') = rs'"
      "si_config (st_inner s') = si_config (st_inner s)" "si_encoder (st_inner s') = si_encoder (st_inner s)"
      "si_buffer (st_inner s') = si_buffer (st_inner s)" "live_decoder (st_inner s') = live_decoder (st_inner s)"
proof (cases "rtp_senders (st_inner s) = []")
  case True
  with assms show thesis
    by (intro nobody) (auto simp: send_packet_def finish_iteration_def Let_def split: if_splits prod.splits)
next
  case False
  let ?i = "st_inner s" and ?ts = "ucast (pkt_timestamp p) :: u32"
  let ?pt = "word_of_nat (stream_type_code (stream_type (si_config ?i))) :: u8"
  let ?t = "adjusted_wall_time ?i (now_wall_ns (tk_wall tk)) + render_delay_ns ?i"
  obtain sd j where sync: "sync_for_thread (need_sync ?i ?ts) ?ts ?t ?i = (sd, j)"
    by (cases "sync_for_thread (need_sync ?i ?ts) ?ts ?t ?i")
  obtain res rs where all: "prepare_all ?pt ?ts (pkt_data p) (\<not> first_packet_sent ?i) (rtp_senders j) = (res, rs)"
    by (cases "prepare_all ?pt ?ts (pkt_data p) (\<not> first_packet_sent ?i) (rtp_senders j)")
  obtain ws where ws: "res = Inr ws" using False assms sync all by (cases res) (auto simp: send_packet_def Let_def)
  note aside = sync_for_thread_aside [OF sync]
  have j: "si_config j = si_config ?i" "si_encoder j = si_encoder ?i" "si_buffer j = si_buffer ?i"
      "live_decoder j = live_decoder ?i"
    by (subst conjunct1 [OF aside], simp)+
  have s': "packets outs = [(ws, sd)]"
      "s' = update_sent_packet_state ?ts (\<not> first_packet_sent ?i) (need_sync ?i ?ts)
        (pkt_timestamp p + ucast (pkt_samples p)) (s\<lparr>st_inner := j\<lparr>rtp_senders := rs\<rparr>\<rparr>)"
    using False assms sync all ws by (auto simp: send_packet_def Let_def split: if_splits)
  show thesis
    by (rule out [OF conjunct2 [OF aside] all [unfolded ws] s'(1)])
      (use assms(1) j in \<open>simp_all add: s'(2) update_sent_packet_state_def Let_def\<close>)
qed

text \<open>Where an iteration that sends begins: at the frame at the front of the buffer, or at none.\<close>

lemma send_next_frame_pops:
  assumes "st_sender_tx s" and "send_next_frame tk s = (outs, e, s')" and "goes_on e"
  obtains (underrun) "frames (si_buffer (st_inner s)) = []" "outs = []" "st_sender_tx s'"
      "st_inner s' = (st_inner s)\<lparr>si_state := StBuffering\<rparr>"
    | (frame) fr frs b enc p enc' where "frames (si_buffer (st_inner s)) = fr # frs"
      "b = (si_buffer (st_inner s))\<lparr>frames := frs, total_samples_read := total_samples_read (si_buffer (st_inner s)) +
        frame_count (buf_format (si_buffer (st_inner s))) fr\<rparr>"
      "si_encoder (st_inner s) = Some enc" "alac_encoder_encode (samples fr) enc = (Inr p, enc')"
      "send_packet tk p (s\<lparr>st_inner := (st_inner s)\<lparr>si_buffer := b, si_encoder := Some enc'\<rparr>\<rparr>) = (outs, e, s')"
proof (cases "frames (si_buffer (st_inner s))")
  case Nil
  with assms show thesis
    by (intro underrun) (auto simp: send_next_frame_def buffer_pop_def finish_iteration_def record_buffer_underrun_def
        Let_def split: if_splits)
next
  case (Cons fr frs)
  let ?b = "(si_buffer (st_inner s))\<lparr>frames := frs, total_samples_read := total_samples_read (si_buffer (st_inner s)) +
        frame_count (buf_format (si_buffer (st_inner s))) fr\<rparr>"
  have pop: "buffer_pop (si_buffer (st_inner s)) = (Inr (Some fr), ?b)"
    using assms(2,3) Cons by (auto simp: send_next_frame_def buffer_pop_def Let_def split: if_splits)
  obtain enc where enc: "si_encoder (st_inner s) = Some enc"
    using assms(2,3) pop by (cases "si_encoder (st_inner s)") (auto simp: send_next_frame_def Let_def)
  obtain res enc' where code: "alac_encoder_encode (samples fr) enc = (res, enc')"
    by (cases "alac_encoder_encode (samples fr) enc")
  obtain p where p: "res = Inr p" using assms(2,3) pop enc code by (cases res) (auto simp: send_next_frame_def Let_def)
  show thesis
    by (rule frame [OF Cons refl enc code [unfolded p]])
      (use assms(2) pop enc code p in \<open>simp add: send_next_frame_def Let_def\<close>)
qed

end
