(* ===== verification/Retransmission.thy ===== *)
theory Retransmission
  imports Startup Stream_Log
begin

text \<open>
  Streaming and retransmission together: the streamer of \<open>src/audio/streamer.rs\<close> lends its RTP senders to
  the control listeners of \<open>src/client/control.rs\<close> between any two steps of its task. What the senders
  remember is what the streamer has handed to the sender thread, so a listener answers a request with
  the very packets that went out. The theory adds no definition of the code; it composes \<open>Streamer\<close>,
  \<open>Rtp\<close>, \<open>Control\<close>, \<open>Connection\<close> and \<open>Group\<close>.
\<close>

section \<open>What the senders remember\<close>

text \<open>The \<open>n\<close> senders are bound, and the history of each is the log of its packets.\<close>

definition remembers :: "nat \<Rightarrow> (bytes list \<times> bytes option) list \<Rightarrow> rtp_sender list \<Rightarrow> bool" where
  "remembers n ps rs \<longleftrightarrow> length rs = n \<and> (\<forall>i < n. rtp_socket (rs ! i) \<and> history_inv (sent_to i ps) (rs ! i))"

lemma remembers_alike:
  assumes "map sync_aside rs' = map sync_aside rs"
  shows "remembers n ps rs' = remembers n ps rs"
proof -
  have "length rs' = length rs" using assms by (rule map_eq_imp_length_eq)
  moreover have "sync_aside (rs' ! i) = sync_aside (rs ! i)" if "i < length rs" for i
    using arg_cong [OF assms, of "\<lambda>xs. xs ! i"] that \<open>length rs' = length rs\<close> by simp
  then have "rtp_socket (rs' ! i) = rtp_socket (rs ! i) \<and> history_inv lg (rs' ! i) = history_inv lg (rs ! i)"
    if "i < length rs" for i lg
    using that sync_aside_eq [of "rs' ! i" "rs ! i"] by (simp add: history_inv_def)
  ultimately show ?thesis by (auto simp: remembers_def)
qed

lemma serialize_audio_socket: "serialize_audio pt ts payload mk r = (res, r') \<Longrightarrow> rtp_socket r' = rtp_socket r"
  by (auto simp: serialize_audio_def Let_def split: sum.splits)

lemma prepare_all_remembers:
  assumes "prepare_all pt ts payload mk rs = (Inr ws, rs')" and "remembers n ps rs"
  shows "remembers n (ps @ [(ws, sd)]) rs'"
  using prepare_all_each [OF assms(1)] assms(2) history_inv_step serialize_audio_socket
  by (fastforce simp: remembers_def)

lemma send_packet_remembers:
  assumes "st_sender_tx s" and "remembers n ps (rtp_senders (st_inner s))" and "send_packet tk p s = (outs, e, s')"
    and "goes_on e"
  shows "st_sender_tx s' \<and> remembers n (ps @ packets outs) (rtp_senders (st_inner s'))"
  using assms(1,3,4)
proof (cases rule: send_packet_prepares)
  case nobody
  with assms(1,2) show ?thesis by simp
next
  case (out pt ts ws sd rs rs')
  have "remembers n ps rs" using assms(2) remembers_alike [OF out(1)] by simp
  from prepare_all_remembers [OF out(2) this, of sd] out(3-5) show ?thesis by simp
qed

lemma decode_batch_senders: "decode_batch rn k i = (res, j) \<Longrightarrow> rtp_senders j = rtp_senders i"
proof (induction k arbitrary: i)
  case (Suc k)
  then show ?case
    by (auto simp: Let_def split: option.splits prod.splits sum.splits fault.splits dest!: Suc.IH)
qed simp

lemma refill_senders: "refill_buffer_if_needed rn i = (res, j) \<Longrightarrow> rtp_senders j = rtp_senders i"
  by (auto simp: refill_buffer_if_needed_def decode_some_inner_def decode_batch_senders split: if_splits)

text \<open>What the senders remember is the log of the streamer.\<close>

definition recorded :: "nat \<Rightarrow> (bytes list \<times> bytes option) list \<Rightarrow> streamer_inner \<Rightarrow> bool" where
  "recorded n ps i \<longleftrightarrow> remembers n ps (rtp_senders i)"

interpretation memory: stream_log rn "recorded n" for rn n
proof (unfold_locales, goal_cases)
  case (1 ps i u)
  then show ?case by (simp add: recorded_def update_timing_offset_def split: option.split)
next
  case (3 ps i j)
  then show ?case using refill_senders [OF 3(2)] by (simp add: recorded_def)
next
  case (4 ps s)
  have "map sync_aside (map reset_sync_state rs) = map sync_aside rs" for rs
    by (simp add: sync_aside_def reset_sync_state_def)
  from remembers_alike [OF this] 4 show ?case by (simp add: recorded_def reset_after_flush_def on_inner_def)
next
  case (5 s ps tk outs e s')
  from 5(1,3,4) show ?case
  proof (cases rule: send_next_frame_pops)
    case underrun
    with 5(2) show ?thesis by (simp add: recorded_def)
  next
    case (frame fr frs b enc p enc')
    with send_packet_remembers [OF _ _ frame(5) 5(4)] 5(1,2) show ?thesis by (simp add: recorded_def)
  qed
qed (simp add: recorded_def)

section \<open>What a listener answers\<close>

text \<open>The specification: of the last 512 packets, those with the requested sequence numbers, in the order
  of the request, each wrapped as a retransmission.\<close>

definition answers :: "bytes list \<Rightarrow> retransmit_request \<Rightarrow> bytes list" where
  "answers lg r = concat (map (\<lambda>sq. case window_packet lg sq of None \<Rightarrow> []
     | Some p \<Rightarrow> [build_retransmit_response p]) (requested r))"

lemma handle_remembered:
  assumes "remembers n ps (rtp_senders (st_inner s))" and "i < n"
  shows "handle_retransmit_for_target (\<lambda>_. True) i r s =
    (answers (sent_to i ps) r, Inr (word_of_nat (length (answers (sent_to i ps) r))))"
proof -
  let ?r = "rtp_senders (st_inner s) ! i"
  have "history_inv (sent_to i ps) ?r" "rtp_socket ?r" "i < length (rtp_senders (st_inner s))"
    using assms by (simp_all add: remembers_def)
  then show ?thesis
    by (simp add: handle_retransmit_for_target_def handle_retransmit_def retransmit_loop_all answers_def
        history_packet_window)
qed

lemma recorded_start:
  assumes "\<forall>r \<in> set (rtp_senders (st_inner s)). fresh_sender r \<and> rtp_socket r" and "st_sender_tx s"
    and "si_state (st_inner s) = StBuffering"
  shows "kept (recorded (length (rtp_senders (st_inner s)))) [] s"
  using assms fresh_history by (simp add: kept_def recorded_def remembers_def)

lemma listeners_answer:
  assumes "kept (recorded n) [] s" and "run_io (streamer_step rn) s evs = (outs, s')" and "loop_running s'" and "i < n"
    and "parse_retransmit_request (take 2048 data) = Some r"
    and "ev = \<lparr> ce_recv = Datagram data, ce_streamer = s', ce_accepts = \<lambda>_. True \<rparr>"
  shows "fst (group_step st (i, ev)) = answers (sent_to i (packets outs)) r"
    and "i = 0 \<Longrightarrow> rr_socket rcv \<Longrightarrow> fst (single_step rcv st ev) = answers (sent_to 0 (packets outs)) r"
proof -
  have "remembers n (packets outs) (rtp_senders (st_inner s'))"
    using kept_running [OF memory.run_kept [OF assms(1,2)] assms(3)] by (simp add: recorded_def)
  note h = handle_remembered [OF this assms(4), of r]
  show "fst (group_step st (i, ev)) = answers (sent_to i (packets outs)) r"
    using assms(5) by (simp add: assms(6) group_step_def h Let_def)
  show "fst (single_step rcv st ev) = answers (sent_to 0 (packets outs)) r" if "i = 0" "rr_socket rcv"
    using assms(5) h that by (simp add: assms(6) single_step_def recv_raw_timeout_def Let_def)
qed

section \<open>Started connections and groups\<close>

lemma built_sender_fresh:
  assumes "build_rtp_sender h c = Inr r" shows "fresh_sender r \<and> rtp_socket r"
  using assms
  by (cases "ports (cn_session c)"; cases "select_best_address (addresses (cn_device c))"; cases "h_data_bind h")
    (auto simp: build_rtp_sender_def Let_def fresh_sender_def sender_new_def set_control_dest_def
      set_control_socket_def set_packet_cipher_def)

lemma start_live_senders:
  assumes "start_live codec_new d now s = (Inr (), s')" and "rtp_senders (st_inner s) \<noteq> []"
    and "\<forall>r \<in> set (rtp_senders (st_inner s)). rtp_socket r" and "\<not> st_task s"
  shows "rtp_senders (st_inner s') = rtp_senders (st_inner s) \<and> st_sender_tx s' \<and> si_state (st_inner s') = StBuffering"
proof -
  have "send_targets (rtp_senders (st_inner s)) \<noteq> []"
    using assms(2,3) by (cases "rtp_senders (st_inner s)") (auto simp: send_targets_def)
  with assms(1,4) show ?thesis
    by (auto simp: start_live_def on_inner_def Let_def split: sum.splits if_splits)
qed

lemma started_connection_recorded:
  assumes "start_streaming_live h d c = (Inr (), c')" and "cn_streamer c' = Some s"
  shows "kept (recorded 1) [] s"
proof -
  obtain c1 r s1 where st: "build_rtp_sender h c1 = Inr r"
      "start_live (h_codec h) d (h_now h) (configured_streamer c1 r) = (Inr (), s1)" "cn_streamer c' = Some s1"
    by (rule start_streaming_steps [OF assms(1)])
  have "rtp_senders (st_inner s1) = [r] \<and> st_sender_tx s1 \<and> si_state (st_inner s1) = StBuffering"
    using start_live_senders [OF st(2)] built_sender_fresh [OF st(1)] by (simp add: configured_streamer_simps)
  with built_sender_fresh [OF st(1)] recorded_start [of s1] st(3) assms(2) show ?thesis by simp
qed

lemma started_group_recorded:
  assumes "group_start_live_streaming hs cfg delay d gp = (Inr (), gp')" and "gs_streamer (fst gp') = Some s"
  shows "kept (recorded (1 + length (gs_connections (fst gp')))) [] s"
proof -
  obtain senders clock_id s1 where st:
    "member_senders hs 0 (snd gp' # gs_connections (fst gp')) = Inr senders"
    "start_live (h_codec (hs 0)) d (h_now (hs 0)) (group_streamer cfg delay clock_id (snd gp') senders) = (Inr (), s1)"
    "gs_streamer (fst gp') = Some s1"
    by (rule group_start_steps [OF assms(1)])
  have fresh: "\<forall>r \<in> set rs. fresh_sender r \<and> rtp_socket r" if "member_senders hs i cs = Inr rs" for i cs rs
    using that
  proof (induction cs arbitrary: i rs)
    case (Cons c cs)
    then show ?case by (auto simp: and_then_eq_Inr map_sum_eq_Inr dest: built_sender_fresh)
  qed simp
  have len: "length senders = 1 + length (gs_connections (fst gp'))"
    using member_senders_all [OF st(1)] by (auto dest: list_all2_lengthD)
  then have "senders \<noteq> []" by auto
  with start_live_senders [OF st(2)] fresh [OF st(1)]
  have "rtp_senders (st_inner s1) = senders \<and> st_sender_tx s1 \<and> si_state (st_inner s1) = StBuffering" by (simp add: group_streamer_simps)
  with recorded_start [of s1] fresh [OF st(1)] len assms(2) st(3) show ?thesis by simp
qed

text \<open>The listener of a started connection replays what the connection has streamed.\<close>

theorem connection_replays_the_stream:
  assumes "start_streaming_live h d c = (Inr (), c')" and "cn_streamer c' = Some s"
    and "run_io (streamer_step rn) s evs = (outs, s')" and "loop_running s'"
    and "parse_retransmit_request (take 2048 data) = Some r" and "rr_socket rcv"
  shows "fst (single_step rcv st \<lparr> ce_recv = Datagram data, ce_streamer = s', ce_accepts = \<lambda>_. True \<rparr>) =
    answers (sent_to 0 (packets outs)) r"
  by (rule listeners_answer(2) [OF started_connection_recorded [OF assms(1,2)] assms(3,4) _ assms(5) refl refl assms(6)])
    simp

section \<open>Claims\<close>

text \<open>C29: the listener of a group replays what each of its devices was sent. After any turns of the
  streaming task and any pauses, resumes, flushes and stops, as long as the task runs, a request from
  device \<open>i\<close> is answered with exactly those of the last 512 packets handed over for device \<open>i\<close> that
  have the requested sequence numbers, in the order of the request, byte for byte.\<close>

theorem group_replays_the_stream:
  assumes "group_start_live_streaming hs cfg delay d gp = (Inr (), gp')" and "gs_streamer (fst gp') = Some s"
    and "run_io (streamer_step rn) s evs = (outs, s')" and "loop_running s'"
    and "parse_retransmit_request (take 2048 data) = Some r" and "i < 1 + length (gs_connections (fst gp'))"
  shows "fst (group_step st (i, \<lparr> ce_recv = Datagram data, ce_streamer = s', ce_accepts = \<lambda>_. True \<rparr>)) =
    answers (sent_to i (packets outs)) r"
  by (rule listeners_answer(1) [OF started_group_recorded [OF assms(1,2)] assms(3,4,6,5) refl])

definition sample_replay_request :: bytes where
  "sample_replay_request = [0x80, 0xD5, 0, 1, 0, 1, 0, 2]"

lemma sample_replay_parsed:
  "parse_retransmit_request (take 2048 sample_replay_request) = Some \<lparr>first_sequence = 1, rt_count = 2\<rparr>"
  by (simp add: sample_replay_request_def parse_retransmit_request_def protocol_defs from_be_def
      RETRANSMIT_REQUEST_def be_nat_def)

text \<open>After eleven turns the sample group has been sent three packets, and a device that asks for two
  packets from number 1 gets the last two.\<close>

theorem group_replays_the_stream_witness:
  "\<exists>gp' s outs s'. group_start_live_streaming (\<lambda>_. sample_host) default_config 0 sample_decoder sample_group = (Inr (), gp') \<and>
    gs_streamer (fst gp') = Some s \<and> run_io (streamer_step (\<lambda>_ _ _. Inl Panic)) s (turns 11 sample_tick) = (outs, s') \<and>
    length (packets outs) = 3 \<and>
    fst (group_step stream_stats_new (0, \<lparr> ce_recv = Datagram sample_replay_request, ce_streamer = s', ce_accepts = \<lambda>_. True \<rparr>)) =
      [build_retransmit_response (sent_to 0 (packets outs) ! 1), build_retransmit_response (sent_to 0 (packets outs) ! 2)]"
proof -
  obtain gp' s outs s' where
    1: "group_start_live_streaming (\<lambda>_. sample_host) default_config 0 sample_decoder sample_group = (Inr (), gp')"
    and 2: "gs_streamer (fst gp') = Some s"
    and run: "run_io (streamer_step (\<lambda>_ _ _. Inl Panic)) s (turns 11 sample_tick) = (outs, s')"
    and len: "length (packets outs) = 3" and live: "loop_running s'"
    by (rule sample_group_plays)
  have lg: "length (sent_to 0 (packets outs)) = 3" using len by (simp add: sent_to_def)
  have "window_packet (sent_to 0 (packets outs)) 1 = Some (sent_to 0 (packets outs) ! 1)"
    "window_packet (sent_to 0 (packets outs)) 2 = Some (sent_to 0 (packets outs) ! 2)"
    by (simp_all add: window_packet_def lg PACKET_HISTORY_SIZE_def upt_rec numeral_2_eq_2)
  then have "answers (sent_to 0 (packets outs)) \<lparr>first_sequence = 1, rt_count = 2\<rparr> =
      [build_retransmit_response (sent_to 0 (packets outs) ! 1), build_retransmit_response (sent_to 0 (packets outs) ! 2)]"
    by (simp add: answers_def requested_def upt_rec)
  with group_replays_the_stream [OF 1 2 run live sample_replay_parsed, of 0 stream_stats_new] 1 2 run len
  show ?thesis by auto
qed

end
