(* ===== verification/Delivery.thy ===== *)
theory Delivery
  imports Startup Stream_Log
begin

text \<open>
  From the source to the ear: what a receiver gets when it opens the packets of a stream with the key of
  its session and decodes them is what the application has pushed, sample by sample, through the live
  decoder, the jitter buffer, the encoder, the cipher and the RTP framing (\<open>src/audio/live_decoder.rs\<close>,
  \<open>buffer.rs\<close>, \<open>encoder.rs\<close>, \<open>cipher.rs\<close>, \<open>rtp/sender.rs\<close>, \<open>streamer.rs\<close>). The theory adds no
  definition of the code.
\<close>

section \<open>The receiver\<close>

text \<open>A receiver opens each packet and decodes it; \<open>None\<close> when one does not open.\<close>

fun heard :: "(bytes \<Rightarrow> bytes option) \<Rightarrow> (bytes \<Rightarrow> bytes) \<Rightarrow> bytes list \<Rightarrow> bytes option" where
  "heard opn dec [] = Some []"
| "heard opn dec (w # ws) =
     (case opn w of None \<Rightarrow> None | Some payload \<Rightarrow> map_option ((@) (dec payload)) (heard opn dec ws))"

lemma heard_snoc:
  "heard opn dec ws = Some x \<Longrightarrow> opn w = Some payload \<Longrightarrow> heard opn dec (ws @ [w]) = Some (x @ dec payload)"
  by (induction ws arbitrary: x) (auto split: option.splits)

text \<open>The bytes of PCM samples.\<close>

definition pcm :: "i16 list \<Rightarrow> bytes" where
  "pcm xs = concat (map to_le xs)"

lemma pcm_append [simp]: "pcm [] = []" "pcm (xs @ ys) = pcm xs @ pcm ys"
  by (simp_all add: pcm_def)

lemma length_pcm [simp]: "length (pcm xs) = 2 * length xs"
  by (induction xs) (simp_all add: pcm_def)

text \<open>ALAC is lossless: a whole packet, encoded into a buffer that has 256 bytes to spare, decodes to
  what it was, whatever was encoded before.\<close>

coinductive lossless :: "(bytes \<Rightarrow> bytes) \<Rightarrow> pcm_description \<Rightarrow> nat \<Rightarrow> alac_codec \<Rightarrow> bool" where
  "(\<And>bs out. length out = n \<Longrightarrow> length bs + 256 = n \<Longrightarrow>
      (case f d bs out of (k, out', c) \<Rightarrow>
         k \<le> n \<and> length out' = n \<and> dec (take k out') = bs \<and> lossless dec d n c)) \<Longrightarrow>
    lossless dec d n (Alac_codec f)"

lemma losslessD:
  assumes "lossless dec d n c" and "length out = n" and "length bs + 256 = n" and "alac_encode c d bs out = (k, out', c')"
  shows "k \<le> n \<and> length out' = n \<and> dec (take k out') = bs \<and> lossless dec d n c'"
  using assms(1)
proof cases
  case (1 f)
  show ?thesis using 1(2) [OF assms(2,3)] assms(4) 1(1) by (simp split: prod.splits)
qed

definition lossless_encoder :: "(bytes \<Rightarrow> bytes) \<Rightarrow> alac_encoder \<Rightarrow> bool" where
  "lossless_encoder dec e \<longleftrightarrow> enc_buffer e = [] \<and> channels (enc_format e) \<noteq> 0 \<and>
     length (output_buffer e) = 2 * packet_samples_per (enc_format e) + 256 \<and>
     lossless dec (input_format e) (length (output_buffer e)) (alac_state e)"

lemma encode_decodes:
  assumes "lossless_encoder dec e" and "length xs = packet_samples_per (enc_format e)"
  shows "\<exists>p e'. alac_encoder_encode xs e = (Inr p, e') \<and> lossless_encoder dec e' \<and> enc_format e' = enc_format e \<and>
    dec (pkt_data p) = pcm xs \<and> length (pkt_data p) \<le> 2 * packet_samples_per (enc_format e) + 256"
proof -
  let ?n = "length (output_buffer e)"
  obtain k out c where a: "alac_encode (alac_state e) (input_format e) (pcm xs) (output_buffer e) = (k, out, c)"
    by (cases "alac_encode (alac_state e) (input_format e) (pcm xs) (output_buffer e)") auto
  have "lossless dec (input_format e) ?n (alac_state e)" using assms(1) unfolding lossless_encoder_def by blast
  moreover have "length (pcm xs) + 256 = ?n" using assms by (simp add: lossless_encoder_def)
  ultimately have "k \<le> ?n" "length out = ?n" "dec (take k out) = pcm xs" "lossless dec (input_format e) ?n c"
    using losslessD [OF _ refl _ a] by simp_all
  with assms a show ?thesis
    by (simp add: alac_encoder_encode_def encode_samples_def Let_def packet_samples_per_def lossless_encoder_def
        pcm_def)
qed

section \<open>What has not been played\<close>

text \<open>A channel: nothing is received after its end has been.\<close>

definition one_end :: "recv list \<Rightarrow> bool \<Rightarrow> bool" where
  "one_end r e \<longleftrightarrow> RecvDisconnected \<notin> set (butlast r) \<and> (e \<longrightarrow> r = [])"

lemma decode_frame_end: "decode_frame d = (res, d') \<Longrightarrow> one_end (rx d) (eof d) \<Longrightarrow> one_end (rx d') (eof d')"
  by (auto simp: decode_frame_def one_end_def Let_def split: list.split_asm recv.split_asm if_split_asm
      dest: in_set_butlastD)

lemma convert_channel: "convert r xs d = (res, d') \<Longrightarrow> rx d' = rx d \<and> eof d' = eof d"
  by (auto simp: convert_def split: if_splits option.splits resampler.splits prod.splits sum.splits)

text \<open>What every receive keeps of the channel, the collecting loop and the decoder keep.\<close>

lemma collect_loop_channel:
  assumes step: "\<And>d res d'. decode_frame d = (res, d') \<Longrightarrow> P (rx d) (eof d) \<Longrightarrow> P (rx d') (eof d')"
  shows "collect_loop r n acc d = (res, d') \<Longrightarrow> P (rx d) (eof d) \<Longrightarrow> P (rx d') (eof d')"
proof (induction r n acc d rule: collect_loop.induct)
  case (1 r n acc d)
  note loop = "1.prems"(1) [unfolded collect_loop.simps [of r n acc d]]
  show ?case
  proof (cases "n \<le> length acc")
    case True
    with loop "1.prems"(2) show ?thesis by simp
  next
    case False
    obtain out d1 where one: "decode_frame d = (out, d1)" by (cases "decode_frame d")
    note end1 = step [OF one "1.prems"(2)]
    show ?thesis
    proof (cases "\<exists>fr. out = Inr (Some fr)")
      case True
      then obtain fr where fr: "out = Inr (Some fr)" by blast
      obtain more d2 where conv: "convert r (dec_samples fr) d1 = (more, d2)" by (cases "convert r (dec_samples fr) d1")
      have end2: "P (rx d2) (eof d2)" using convert_channel [OF conv] end1 by simp
      show ?thesis
      proof (cases more)
        case (Inl e)
        with loop False one fr conv end2 show ?thesis by simp
      next
        case (Inr ys)
        with loop False one fr conv have "collect_loop r n (acc @ ys) d2 = (res, d')" by simp
        with "1.IH" [OF False one [symmetric] fr refl conv [symmetric] Inr this end2] show ?thesis by simp
      qed
    next
      case none: False
      with loop False one end1 show ?thesis by (auto split: sum.splits option.splits)
    qed
  qed
qed

lemma decode_resampled_loop:
  assumes "decode_resampled rn f n d = (Inr out, d')"
  obtains e res d1 where "ensure_resampler rn (as_hz (sample_rate f)) d = Inr e"
    "rx e = rx d" "eof e = eof d" "residual_samples e = residual_samples d"
    "collect_loop (as_hz (sample_rate f)) (n * unat (channels f)) (residual_samples d) (e\<lparr>residual_samples := []\<rparr>) =
      (Inr res, d1)"
    "rx d' = rx d1" "eof d' = eof d1" "out \<noteq> None \<longrightarrow> res \<noteq> None" "out = None \<longrightarrow> res = None \<or> res = Some []"
proof -
  let ?n = "n * unat (channels f)" and ?r = "as_hz (sample_rate f)"
  obtain e where e: "ensure_resampler rn ?r d = Inr e"
    using assms by (cases "ensure_resampler rn ?r d") (simp_all add: decode_resampled_def)
  have same: "rx e = rx d" "eof e = eof d" "residual_samples e = residual_samples d"
    using e by (auto simp: ensure_resampler_def and_then_eq_Inr split: if_splits)
  obtain res d1 where loop: "collect_loop ?r ?n (residual_samples d) (e\<lparr>residual_samples := []\<rparr>) = (res, d1)"
    by (cases "collect_loop ?r ?n (residual_samples d) (e\<lparr>residual_samples := []\<rparr>)")
  have "\<exists>x. res = Inr x \<and> rx d' = rx d1 \<and> eof d' = eof d1 \<and> (out \<noteq> None \<longrightarrow> x \<noteq> None) \<and>
      (out = None \<longrightarrow> x = None \<or> x = Some [])"
    using assms e loop same(3)
    by (auto simp: decode_resampled_def Let_def split: sum.splits option.splits if_splits)
  then show thesis
  proof (elim exE conjE)
    fix x
    assume "res = Inr x" "rx d' = rx d1" "eof d' = eof d1" "out \<noteq> None \<longrightarrow> x \<noteq> None"
      "out = None \<longrightarrow> x = None \<or> x = Some []"
    with that [OF e same, of x d1] loop show thesis by simp
  qed
qed

lemma decode_resampled_channel:
  assumes "\<And>d res d'. decode_frame d = (res, d') \<Longrightarrow> P (rx d) (eof d) \<Longrightarrow> P (rx d') (eof d')"
    and "decode_resampled rn f n d = (Inr out, d')" and "P (rx d) (eof d)"
  shows "P (rx d') (eof d')"
  using assms(2)
proof (cases rule: decode_resampled_loop)
  case (1 e res d1)
  from collect_loop_channel [of P, OF assms(1) 1(5)] assms(3) 1 show ?thesis by simp
qed

text \<open>A packet is only made of frames that were received, so the end has not been seen.\<close>

lemma collect_loop_more:
  "collect_loop r n acc d = (Inr (Some ys), d') \<Longrightarrow> length acc < n \<Longrightarrow> \<not> eof d'"
proof (induction r n acc d rule: collect_loop.induct)
  case (1 r n acc d)
  then obtain fr d1 zs d2 where step: "decode_frame d = (Inr (Some fr), d1)"
      "convert r (dec_samples fr) d1 = (Inr zs, d2)" "collect_loop r n (acc @ zs) d2 = (Inr (Some ys), d')"
    by (subst (asm) (2) collect_loop.simps) (auto split: prod.splits sum.splits option.splits)
  have "\<not> eof d2"
    using step(1) convert_channel [OF step(2)]
    by (auto simp: decode_frame_def Let_def split: list.split_asm recv.split_asm if_split_asm)
  with step(3) "1.IH" [OF _ step(1) [symmetric] refl refl step(2) [symmetric] refl step(3)] "1.prems"(2) show ?case
    by (cases "n \<le> length (acc @ zs)") (auto simp: collect_loop.simps [of r n "acc @ zs" d2])
qed

lemma decode_resampled_more:
  assumes "decode_resampled rn f n d = (Inr (Some fr), d')"
    and "eof d \<longrightarrow> length (residual_samples d) < n * unat (channels f)"
  shows "\<not> eof d'"
  using assms(1)
proof (cases rule: decode_resampled_loop)
  case (1 e res d1)
  then obtain ys where ys: "res = Some ys" by auto
  show ?thesis
  proof (cases "n * unat (channels f) \<le> length (residual_samples d)")
    case True
    with 1 assms(2) show ?thesis by (auto simp: collect_loop.simps [of _ _ "residual_samples d"])
  next
    case False
    with 1 ys collect_loop_more show ?thesis by fastforce
  qed
qed

lemma decode_resampled_ends:
  assumes "decode_resampled rn f n d = (Inr out, d')" and "one_end (rx d) (eof d)"
    and "eof d \<longrightarrow> length (residual_samples d) < n * unat (channels f)"
    and "out = None \<longrightarrow> length (residual_samples d') < n * unat (channels f)"
  shows "one_end (rx d') (eof d') \<and> (eof d' \<longrightarrow> length (residual_samples d') < n * unat (channels f))"
proof -
  have "one_end (rx d') (eof d')" by (rule decode_resampled_channel [where P = one_end, OF decode_frame_end assms(1,2)])
  with assms decode_resampled_more [of rn f n d] show ?thesis by (cases out) auto
qed

text \<open>The samples a decoder has before it: its residue and what the frames in the channel come to at the
  target rate. Once the end of the channel has been seen, less than a packet is left.\<close>

definition comes_to :: "resampler_maker \<Rightarrow> audio_format \<Rightarrow> live_decoder \<Rightarrow> i16 list \<Rightarrow> bool" where
  "comes_to rn f d xs \<longleftrightarrow> frames_sane (rx d) \<and> one_end (rx d) (eof d) \<and>
     (eof d \<longrightarrow> length (residual_samples d) < packet_samples_per f) \<and>
     (\<exists>pend. to_come rn (as_hz (sample_rate f)) d = Some pend \<and> xs = residual_samples d @ pend)"

text \<open>What a streamer has before it: the frames of the buffer, then the samples of the decoder.\<close>

definition unplayed :: "resampler_maker \<Rightarrow> streamer_inner \<Rightarrow> i16 list \<Rightarrow> bool" where
  "unplayed rn i xs \<longleftrightarrow>
     (\<exists>d ys. live_decoder i = Some d \<and> comes_to rn (audio_format (si_config i)) d ys \<and>
       xs = concat (map samples (frames (si_buffer i))) @ ys)"

lemma unplayed_cong:
  "si_config j = si_config i \<Longrightarrow> live_decoder j = live_decoder i \<Longrightarrow> frames (si_buffer j) = frames (si_buffer i) \<Longrightarrow>
   unplayed rn j xs = unplayed rn i xs"
  by (simp add: unplayed_def)

lemma decode_batch_unplayed:
  "decode_batch rn k i = (Inr (), j) \<Longrightarrow> unplayed rn i xs \<Longrightarrow> 0 < packet_samples_per (audio_format (si_config i)) \<Longrightarrow>
   unplayed rn j xs"
proof (induction k arbitrary: i)
  case (Suc k)
  let ?f = "audio_format (si_config i)"
  let ?n = "unat (frames_per_packet ?f)"
  obtain d pend where d: "live_decoder i = Some d" "frames_sane (rx d)" "one_end (rx d) (eof d)"
      "eof d \<longrightarrow> length (residual_samples d) < packet_samples_per ?f"
      "to_come rn (as_hz (sample_rate ?f)) d = Some pend"
      "xs = concat (map samples (frames (si_buffer i))) @ residual_samples d @ pend"
    using Suc.prems(2) by (auto simp: unplayed_def comes_to_def)
  obtain used d' out rest where one: "decode_resampled rn ?f ?n d = (Inr out, d')" "rx d = used @ rx d'"
      "to_come rn (as_hz (sample_rate ?f)) d' = Some rest"
      "case out of
         None \<Rightarrow> residual_samples d @ pend = residual_samples d' @ rest \<and>
           length (residual_samples d') < ?n * unat (channels ?f)
       | Some fr \<Rightarrow> residual_samples d @ pend = dec_samples fr @ residual_samples d' @ rest \<and>
           length (dec_samples fr) = ?n * unat (channels ?f)"
    using decode_resampled_cuts [OF d(2,5), of ?n] Suc.prems(3) unfolding packet_samples_per_def by blast
  have ends: "one_end (rx d') (eof d') \<and> (eof d' \<longrightarrow> length (residual_samples d') < packet_samples_per ?f)"
    unfolding packet_samples_per_def
    by (rule decode_resampled_ends [OF one(1) d(3)]) (use d(4) one(4) in \<open>auto simp: packet_samples_per_def\<close>)
  have sane: "frames_sane (rx d')" using d(2) one(2) by (rule frames_sane_rest)
  show ?case
  proof (cases out)
    case None
    with Suc.prems(1) d(1) one(1) have "j = i\<lparr>live_decoder := Some d'\<rparr>" by (simp add: Let_def)
    with None d(6) one(3,4) ends sane show ?thesis by (simp add: unplayed_def comes_to_def)
  next
    case (Some fr)
    let ?fr = "audio_frame_new (dec_samples fr)"
    obtain b where push: "buffer_push ?fr (si_buffer i) = (Inr (), b)"
      and more: "decode_batch rn k (i\<lparr>live_decoder := Some d', si_buffer := b\<rparr>) = (Inr (), j)"
      using Suc.prems(1) d(1) one(1) Some
      by (auto simp: Let_def split: prod.splits sum.splits fault.splits)
    have "frames b = frames (si_buffer i) @ [?fr]" using push by (auto simp: buffer_push_def split: if_splits)
    with Some d(6) one(3,4) ends sane have "unplayed rn (i\<lparr>live_decoder := Some d', si_buffer := b\<rparr>) xs"
      by (auto simp: unplayed_def comes_to_def audio_frame_new_def)
    with Suc.IH [OF more] Suc.prems(3) show ?thesis by simp
  qed
qed simp

lemma refill_unplayed:
  "refill_buffer_if_needed rn i = (Inr (), j) \<Longrightarrow> unplayed rn i xs \<Longrightarrow>
   0 < packet_samples_per (audio_format (si_config i)) \<Longrightarrow> unplayed rn j xs"
  by (auto simp: refill_buffer_if_needed_def decode_some_inner_def decode_batch_unplayed split: if_splits)

section \<open>What every receiver has heard\<close>

text \<open>A sender seals for a receiver: with the AEAD and the key of the receiver's session.\<close>

definition seals_for :: "aead \<times> bytes \<Rightarrow> rtp_sender \<Rightarrow> bool" where
  "seals_for rc r \<longleftrightarrow> aead_ok (fst rc) \<and> length (snd rc) = 32 \<and>
     rtp_cipher r = Some (chacha_encrypt_payload (fst rc) (snd rc))"

lemma seals_for_alike: "rtp_cipher r' = rtp_cipher r \<Longrightarrow> seals_for rc r' = seals_for rc r"
  by (simp add: seals_for_def)

lemma all_seal_alike:
  assumes "map rtp_cipher rs' = map rtp_cipher rs"
  shows "list_all2 seals_for rcvs rs' = list_all2 seals_for rcvs rs"
proof -
  have "list_all2 (\<lambda>rc c. aead_ok (fst rc) \<and> length (snd rc) = 32 \<and>
      c = Some (chacha_encrypt_payload (fst rc) (snd rc))) rcvs (map rtp_cipher rs'') = list_all2 seals_for rcvs rs''" for rs''
    unfolding list_all2_map2 by (intro arg_cong [where f = "\<lambda>P. list_all2 P rcvs rs''"] ext) (simp add: seals_for_def)
  from this [of rs'] this [of rs] assms show ?thesis by simp
qed

lemma aside_ciphers:
  assumes "map sync_aside rs' = map sync_aside rs"
  shows "map rtp_cipher rs' = map rtp_cipher rs"
proof (rule nth_equalityI)
  show len: "length (map rtp_cipher rs') = length (map rtp_cipher rs)"
    using map_eq_imp_length_eq [OF assms] by simp
  fix k assume "k < length (map rtp_cipher rs')"
  then show "map rtp_cipher rs' ! k = map rtp_cipher rs ! k"
    using arg_cong [OF assms, of "\<lambda>xs. xs ! k"] len sync_aside_eq [of "rs' ! k" "rs ! k"] by simp
qed

lemma serialize_audio_cipher: "serialize_audio pt ts payload mk r = (res, r') \<Longrightarrow> rtp_cipher r' = rtp_cipher r"
  by (auto simp: serialize_audio_def Let_def split: sum.splits)

lemma prepare_all_opens:
  assumes "prepare_all pt ts payload mk rs = (Inr ws, rs')" and "length payload < 2 ^ 32"
    and "list_all2 seals_for rcvs rs"
  shows "list_all2 seals_for rcvs rs' \<and>
    (\<forall>k < length rcvs. open_packet (fst (rcvs ! k)) (snd (rcvs ! k)) (ws ! k) = Some payload)"
proof -
  note each = prepare_all_each [OF assms(1)]
  have one: "seals_for (rcvs ! k) (rs' ! k) \<and>
      open_packet (fst (rcvs ! k)) (snd (rcvs ! k)) (ws ! k) = Some payload" if k: "k < length rcvs" for k
  proof -
    have seals: "seals_for (rcvs ! k) (rs ! k)" and "k < length rs"
      using assms(3) k by (auto simp: list_all2_conv_all_nth)
    with each have ser: "serialize_audio pt ts payload mk (rs ! k) = (Inr (ws ! k), rs' ! k)" by simp
    then have "rtp_cipher (rs' ! k) = rtp_cipher (rs ! k)" by (rule serialize_audio_cipher)
    moreover have "open_packet (fst (rcvs ! k)) (snd (rcvs ! k)) (ws ! k) = Some payload"
      using serialized_opens [of "fst (rcvs ! k)" "snd (rcvs ! k)" payload "rs ! k" pt ts mk] seals assms(2) ser
      by (auto simp: seals_for_def)
    ultimately show ?thesis using seals seals_for_alike by blast
  qed
  have "length rs' = length rcvs" using each assms(3) by (auto dest: list_all2_lengthD)
  with one show ?thesis by (simp add: list_all2_conv_all_nth)
qed

definition has_heard ::
  "(bytes \<Rightarrow> bytes) \<Rightarrow> (aead \<times> bytes) list \<Rightarrow> i16 list \<Rightarrow> (bytes list \<times> bytes option) list \<Rightarrow> bool" where
  "has_heard dec rcvs played ps \<longleftrightarrow>
     (\<forall>k < length rcvs. heard (open_packet (fst (rcvs ! k)) (snd (rcvs ! k))) dec (sent_to k ps) = Some (pcm played))"

text \<open>Of the source, whole packets have been played, one for each packet sent, each receiver has heard them,
  and the rest is still before the streamer.\<close>

definition delivering ::
  "resampler_maker \<Rightarrow> (bytes \<Rightarrow> bytes) \<Rightarrow> (aead \<times> bytes) list \<Rightarrow> i16 list \<Rightarrow> (bytes list \<times> bytes option) list \<Rightarrow>
   streamer_inner \<Rightarrow> bool" where
  "delivering rn dec rcvs src ps i \<longleftrightarrow> (let f = audio_format (si_config i); n = packet_samples_per f in
     whole_packets i \<and> 0 < n \<and> 2 * n + 256 < 2 ^ 32 \<and> list_all2 seals_for rcvs (rtp_senders i) \<and>
     (\<exists>enc. si_encoder i = Some enc \<and> lossless_encoder dec enc \<and> enc_format enc = f) \<and>
     (\<exists>played rest. src = played @ rest \<and> n dvd length played \<and> unplayed rn i rest \<and> has_heard dec rcvs played ps \<and>
       (rcvs = [] \<or> length played = n * length ps)))"

lemma delivering_cong:
  assumes "si_config j = si_config i" and "live_decoder j = live_decoder i" and "si_buffer j = si_buffer i"
    and "map rtp_cipher (rtp_senders j) = map rtp_cipher (rtp_senders i)" and "si_encoder j = si_encoder i"
  shows "delivering rn dec rcvs src ps j = delivering rn dec rcvs src ps i"
proof -
  have "unplayed rn j xs = unplayed rn i xs" for xs using assms(1-3) by (intro unplayed_cong) simp_all
  with assms all_seal_alike [OF assms(4), of rcvs] show ?thesis by (simp add: delivering_def whole_packets_def)
qed

lemma delivering_unplayed:
  "delivering rn dec rcvs src ps i \<Longrightarrow> \<exists>xs. unplayed rn i xs \<and> 0 < packet_samples_per (audio_format (si_config i))"
  unfolding delivering_def Let_def by blast

lemma refill_delivering:
  assumes "delivering rn dec rcvs src ps i" and "refill_buffer_if_needed rn i = (Inr (), j)"
  shows "delivering rn dec rcvs src ps j"
proof -
  have "same_sender i j \<and> whole_packets j"
    using refill_keeps [OF assms(2)] assms(1) by (simp add: delivering_def Let_def)
  with assms refill_unplayed [OF assms(2)] show ?thesis
    by (fastforce simp: delivering_def same_sender_def Let_def)
qed

text \<open>Sending the frame at the front moves it from the rest to what has been heard.\<close>

lemma send_delivering:
  assumes "delivering rn dec rcvs src ps (st_inner s)" and "frames (si_buffer (st_inner s)) = fr # frs"
    and "b = (si_buffer (st_inner s))\<lparr>frames := frs, total_samples_read := t\<rparr>"
    and "si_encoder (st_inner s) = Some enc" and "alac_encoder_encode (samples fr) enc = (Inr p, enc')"
    and "st_sender_tx s" and "goes_on e"
    and "send_packet tk p (s\<lparr>st_inner := (st_inner s)\<lparr>si_buffer := b, si_encoder := Some enc'\<rparr>\<rparr>) = (outs, e, s')"
  shows "st_sender_tx s' \<and> delivering rn dec rcvs src (ps @ packets outs) (st_inner s')"
proof -
  let ?i = "st_inner s"
  let ?f = "audio_format (si_config ?i)"
  let ?s = "s\<lparr>st_inner := ?i\<lparr>si_buffer := b, si_encoder := Some enc'\<rparr>\<rparr>"
  have wp: "whole_packets ?i" and n: "0 < packet_samples_per ?f" "2 * packet_samples_per ?f + 256 < 2 ^ 32"
    and seals: "list_all2 seals_for rcvs (rtp_senders ?i)" and enc: "lossless_encoder dec enc" "enc_format enc = ?f"
    using assms(1,4) by (auto simp: delivering_def Let_def)
  obtain played rest where src: "src = played @ rest" "packet_samples_per ?f dvd length played" "unplayed rn ?i rest"
      "has_heard dec rcvs played ps" "rcvs = [] \<or> length played = packet_samples_per ?f * length ps"
    using assms(1) by (auto simp: delivering_def Let_def)
  have len: "length (samples fr) = packet_samples_per ?f" using wp assms(2) by (simp add: whole_packets_def)
  have code: "lossless_encoder dec enc'" "enc_format enc' = ?f" "dec (pkt_data p) = pcm (samples fr)"
      "length (pkt_data p) < 2 ^ 32"
    using encode_decodes [OF enc(1), of "samples fr"] len enc(2) assms(5) n(2) by auto
  obtain rest' where rest: "rest = samples fr @ rest'"
    using src(3) assms(2) by (auto simp: unplayed_def comes_to_def)
  have "unplayed rn i rest'" if "si_config i = si_config ?i" "live_decoder i = live_decoder ?i" "si_buffer i = b" for i
    using src(3) that assms(2,3) rest by (auto simp: unplayed_def comes_to_def)
  moreover have "whole_packets i" if "si_config i = si_config ?i" "si_buffer i = b" for i
    using wp that assms(2,3) by (auto simp: whole_packets_def buffer_ok_def)
  ultimately have delivered: "delivering rn dec rcvs src ps' i"
    if "si_config i = si_config ?i" "live_decoder i = live_decoder ?i" "si_buffer i = b" "si_encoder i = Some enc'"
      "list_all2 seals_for rcvs (rtp_senders i)" "has_heard dec rcvs (played @ samples fr) ps'"
      "rcvs = [] \<or> length ps' = Suc (length ps)" for i ps'
    using that n code(1,2) src(1,2,5) rest len unfolding delivering_def Let_def
    by (intro conjI exI [of _ enc'] exI [of _ "played @ samples fr"] exI [of _ rest']) (auto simp: algebra_simps)
  from assms(6) have "st_sender_tx ?s" by simp
  from this assms(8,7) show ?thesis
  proof (cases rule: send_packet_prepares)
    case nobody
    with seals have "rcvs = []" by simp
    with nobody assms(6) delivered [of "st_inner s'" ps] seals show ?thesis by (simp add: has_heard_def)
  next
    case (out pt ts ws sd rs rs')
    have "map rtp_cipher rs = map rtp_cipher (rtp_senders ?i)" using aside_ciphers [OF out(1)] by simp
    then have "list_all2 seals_for rcvs rs" using seals all_seal_alike by blast
    note opens = prepare_all_opens [OF out(2) code(4) this]
    have "heard (open_packet (fst (rcvs ! k)) (snd (rcvs ! k))) dec (sent_to k (ps @ packets outs)) =
        Some (pcm (played @ samples fr))" if "k < length rcvs" for k
      using heard_snoc [of "open_packet (fst (rcvs ! k)) (snd (rcvs ! k))" dec "sent_to k ps" "pcm played" "ws ! k"]
        opens src(4) that out(3) code(3) by (simp add: has_heard_def)
    with out opens delivered [of "st_inner s'" "ps @ packets outs"] show ?thesis by (simp add: has_heard_def)
  qed
qed

interpretation ear: stream_log rn "delivering rn dec rcvs src" for rn dec rcvs src
proof (unfold_locales, goal_cases)
  case (1 ps i u)
  then show ?case
    by (subst delivering_cong [of _ i]) (auto simp: update_timing_offset_def split: option.split)
next
  case (2 ps i st)
  then show ?case by (subst delivering_cong [of _ i]) simp_all
next
  case (3 ps i j)
  then show ?case by (rule refill_delivering)
next
  case (4 ps s)
  then show ?case
    by (subst delivering_cong [of _ "st_inner s"]) (simp_all add: reset_after_flush_def on_inner_def reset_sync_state_def)
next
  case (5 s ps tk outs e s')
  from 5(1,3,4) show ?case
  proof (cases rule: send_next_frame_pops)
    case underrun
    with 5(2) delivering_cong [of "st_inner s'" "st_inner s"] show ?thesis by simp
  next
    case (frame fr frs b enc p enc')
    from send_delivering [OF 5(2) frame(1,2,3,4) 5(1,4) frame(5)] show ?thesis .
  qed
qed

section \<open>Where a stream starts and where it ends\<close>

text \<open>The codec that is made for a format is lossless.\<close>

definition lossless_codec :: "(bytes \<Rightarrow> bytes) \<Rightarrow> (u32 \<Rightarrow> u32 \<Rightarrow> u32 \<Rightarrow> alac_codec) \<Rightarrow> audio_format \<Rightarrow> bool" where
  "lossless_codec dec codec_new f \<longleftrightarrow> (let e = alac_encoder_new codec_new f in
     lossless dec (input_format e) (length (output_buffer e)) (alac_state e))"

definition packable :: "audio_format \<Rightarrow> bool" where
  "packable f \<longleftrightarrow> channels f \<noteq> 0 \<and> frames_per_packet f \<noteq> 0 \<and> 2 * packet_samples_per f + 256 < 2 ^ 32"

lemma lossless_encoder_new:
  "channels f \<noteq> 0 \<Longrightarrow> lossless_codec dec codec_new f \<Longrightarrow> lossless_encoder dec (alac_encoder_new codec_new f)"
  by (simp add: lossless_codec_def lossless_encoder_def alac_encoder_new_def packet_samples_per_def Let_def
      mult.commute)

lemma start_live_delivering:
  assumes "fresh_streamer s" and "start_live codec_new d now s = (Inr (), s')"
    and "packable (audio_format (si_config (st_inner s)))"
    and "lossless_codec dec codec_new (audio_format (si_config (st_inner s)))"
    and "list_all2 seals_for rcvs (rtp_senders (st_inner s))" and "frames (si_buffer (st_inner s)) = []"
    and "comes_to rn (audio_format (si_config (st_inner s))) d src"
  shows "kept (delivering rn dec rcvs src) [] s'"
proof -
  let ?f = "audio_format (si_config (st_inner s))"
  have task: "\<not> st_task s" "send_targets (rtp_senders (st_inner s)) \<noteq> []" "whole_packets (st_inner s)"
    using assms(1) by (simp_all add: fresh_streamer_def)
  have e: "create_encoder codec_new ?f = Inr (alac_encoder_new codec_new ?f)"
    using assms(2) by (auto simp: start_live_def create_encoder_def on_inner_def Let_def split: audio_codec.splits)
  have s': "st_inner s' = (st_inner s)\<lparr>live_decoder := Some d, si_encoder := Some (alac_encoder_new codec_new ?f),
        si_state := StBuffering\<rparr>" "st_sender_tx s'"
    using assms(2) task e by (auto simp: start_live_def on_inner_def Let_def)
  have "lossless_encoder dec (alac_encoder_new codec_new ?f)" "enc_format (alac_encoder_new codec_new ?f) = ?f"
    using lossless_encoder_new [of ?f] assms(3,4) by (simp_all add: packable_def alac_encoder_new_def Let_def)
  moreover have "0 < packet_samples_per ?f" using assms(3) by (simp add: packable_def packet_samples_per_def unat_gt_0)
  moreover have "unplayed rn (st_inner s') src" using assms(6,7) by (simp add: s'(1) unplayed_def)
  ultimately have "delivering rn dec rcvs src [] (st_inner s')"
    using assms(3,5) task(3) unfolding delivering_def Let_def
    by (intro conjI exI [of _ "alac_encoder_new codec_new ?f"] exI [of _ "[]"] exI [of _ src])
      (simp_all add: s'(1) has_heard_def packable_def whole_packets_def)
  then show ?thesis using s' by (simp add: kept_def)
qed

lemma delivering_heard:
  assumes "delivering rn dec rcvs src ps i" and "k < length rcvs"
  shows "\<exists>played rest. src = played @ rest \<and> unplayed rn i rest \<and>
    heard (open_packet (fst (rcvs ! k)) (snd (rcvs ! k))) dec (sent_to k ps) = Some (pcm played)"
  using assms unfolding delivering_def has_heard_def Let_def by blast

text \<open>When everything has been drained, only a tail shorter than a packet has not been sent and heard.\<close>

lemma drained_heard:
  assumes "delivering rn dec rcvs src ps i" and "drained i" and "k < length rcvs"
  shows "heard (open_packet (fst (rcvs ! k)) (snd (rcvs ! k))) dec (sent_to k ps) =
    Some (pcm (take (length src - length src mod packet_samples_per (audio_format (si_config i))) src)) \<and>
    length ps = length src div packet_samples_per (audio_format (si_config i))"
proof -
  let ?n = "packet_samples_per (audio_format (si_config i))"
  obtain played rest where p: "src = played @ rest" "?n dvd length played" "unplayed rn i rest"
      "heard (open_packet (fst (rcvs ! k)) (snd (rcvs ! k))) dec (sent_to k ps) = Some (pcm played)"
      "length played = ?n * length ps"
    using assms(1,3) by (auto simp: delivering_def has_heard_def Let_def)
  from p(3) assms(2) obtain d pend where d: "one_end (rx d) (eof d)" "length (residual_samples d) < ?n" "eof d"
      "to_come rn (as_hz (sample_rate (audio_format (si_config i)))) d = Some pend" "rest = residual_samples d @ pend"
    by (auto simp: unplayed_def comes_to_def drained_def is_eof_def)
  have "rx d = []" using d(1,3) by (simp add: one_end_def)
  then have "pend = []" using d(4) ensure_resampler_once(1) by (fastforce simp: to_come_def split: sum.splits)
  then have "length src mod ?n = length rest" using p(1,2) d(2,5) by (auto simp: mod_add_left_eq [symmetric])
  moreover have "length rest < ?n" using d(2,5) \<open>pend = []\<close> by simp
  ultimately show ?thesis using p(1,4,5) by (simp add: div_nat_eqI)
qed

lemma members_seal:
  assumes "member_senders hs j cs = Inr rs" and "\<forall>j. aead_ok (h_aead (hs j))"
    and "\<forall>c \<in> set cs. length (shk (cn_session c)) = 32"
  shows "list_all2 seals_for (map (\<lambda>(i, c). (h_aead (hs i), shk (cn_session c))) (enumerate j cs)) rs"
  using assms(1,3)
proof (induction cs arbitrary: j rs)
  case (Cons c cs)
  obtain r qs where r: "build_rtp_sender (hs j) c = Inr r" "member_senders hs (Suc j) cs = Inr qs" "rs = r # qs"
    using Cons.prems(1) by (auto simp: and_then_eq_Inr map_sum_eq_Inr)
  have "seals_for (h_aead (hs j), shk (cn_session c)) r"
    using build_rtp_sender_fields [OF r(1)] assms(2) Cons.prems(2) by (auto simp: seals_for_def)
  with Cons.IH [OF r(2)] r(3) Cons.prems(2) show ?case by simp
qed simp

lemma started_group_delivering:
  assumes "group_start_live_streaming hs cfg delay d gp = (Inr (), gp')" and "gs_streamer (fst gp') = Some s"
    and "packable (audio_format cfg)" and "lossless_codec dec (h_codec (hs 0)) (audio_format cfg)"
    and "\<forall>j. aead_ok (h_aead (hs j))" and "\<forall>c \<in> set (snd gp' # gs_connections (fst gp')). length (shk (cn_session c)) = 32"
    and "comes_to rn (audio_format cfg) d src"
  shows "kept (delivering rn dec (map (\<lambda>(i, c). (h_aead (hs i), shk (cn_session c)))
      (enumerate 0 (snd gp' # gs_connections (fst gp')))) src) [] s"
proof -
  obtain senders clock_id where st:
    "member_senders hs 0 (snd gp' # gs_connections (fst gp')) = Inr senders"
    "start_live (h_codec (hs 0)) d (h_now (hs 0)) (group_streamer cfg delay clock_id (snd gp') senders) = (Inr (), s)"
    by (rule group_start_steps [OF assms(1)]) (use assms(2) in auto)
  obtain r rs where r: "senders = r # rs" "rtp_socket r"
    using member_senders_all [OF st(1)] by (auto simp: list_all2_Cons1 sender_of_def)
  have "fresh_streamer (group_streamer cfg delay clock_id (snd gp') senders)"
    using group_fresh [OF r] assms(3) by (simp add: packable_def)
  from start_live_delivering [OF this st(2)] members_seal [OF st(1) assms(5,6)] assms(3,4,7) show ?thesis
    by (simp add: group_streamer_simps new_buffer_empty)
qed

lemma started_connection_delivering:
  assumes "start_streaming_live h d c = (Inr (), c')" and "cn_streamer c' = Some s"
    and "packable (audio_format (cn_config c))" and "lossless_codec dec (h_codec h) (audio_format (cn_config c))"
    and "aead_ok (h_aead h)" and "length (shk (cn_session c')) = 32"
    and "comes_to rn (audio_format (cn_config c)) d src"
  shows "kept (delivering rn dec [(h_aead h, shk (cn_session c'))] src) [] s"
proof -
  obtain c1 r where st: "same_config c c1" "build_rtp_sender h c1 = Inr r"
      "start_live (h_codec h) d (h_now h) (configured_streamer c1 r) = (Inr (), s)"
      "shk (cn_session c') = shk (cn_session c1)"
    by (rule start_streaming_steps [OF assms(1)]) (use assms(2) in auto)
  have cfg: "cn_config c1 = cn_config c" using st(1) by (simp add: same_config_def)
  have r: "rtp_socket r" "seals_for (h_aead h, shk (cn_session c')) r"
    using build_rtp_sender_fields [OF st(2)] assms(5,6) st(4) by (auto simp: seals_for_def)
  have "fresh_streamer (configured_streamer c1 r)"
    using configured_fresh r(1) assms(3) cfg by (simp add: packable_def)
  from start_live_delivering [OF this st(3)] r(2) assms(3,4,7) cfg show ?thesis
    by (simp add: configured_streamer_simps new_buffer_empty)
qed

section \<open>Claims\<close>


lemma lossless_copy: "lossless (\<lambda>b. b) d n copy_codec"
proof (coinduction rule: lossless.coinduct)
  case lossless
  show ?case
    by (intro exI conjI, rule refl, rule refl, rule refl, rule copy_codec.code) auto
qed

lemma sample_packable: "packable (audio_format default_config)"
  using sample_config_facts by (simp add: packable_def packet_samples_per_def)

lemma sample_lossless: "lossless_codec (\<lambda>b. b) (h_codec sample_host) f"
  by (simp add: lossless_codec_def alac_encoder_new_def sample_host_def lossless_copy Let_def)

lemma sample_comes_to: "comes_to rn (audio_format default_config) sample_decoder (replicate 70400 1)"
  using sample_config_facts
  by (simp add: comes_to_def sample_decoder_def live_decoder_new_def frames_sane_def one_end_def
      to_come_same_rate protocol_defs)


end
