(* ===== verification/Completion.thy ===== *)
theory Completion
  imports Delivery
begin

text \<open>
  The end of a stream (\<open>src/audio/streamer.rs\<close>, \<open>src/audio/live_decoder.rs\<close>): a source that ends is played
  to its end. Every turn of the task makes progress, whatever gaps there are between the frames: it sends
  a packet, receives from the channel, fills the buffer or learns that the buffer is empty. So after a
  number of turns that the source and the buffer bound, the task has ended by itself, or waits for ever
  with at most a tenth of the buffer that will not be played. The theory adds no definition of the code.
\<close>

section \<open>A channel that will end\<close>

definition will_end :: "recv list \<Rightarrow> bool \<Rightarrow> bool" where
  "will_end r e \<longleftrightarrow> e \<or> (r \<noteq> [] \<and> last r = RecvDisconnected)"

lemma decode_frame_will_end: "decode_frame d = (res, d') \<Longrightarrow> will_end (rx d) (eof d) \<Longrightarrow> will_end (rx d') (eof d')"
  by (auto simp: decode_frame_def will_end_def Let_def split: list.split_asm recv.split_asm if_split_asm)

lemma decode_frame_eof: "decode_frame d = (res, d') \<Longrightarrow> eof d \<Longrightarrow> eof d'"
  by (simp add: decode_frame_def)

lemma decode_frame_takes:
  assumes "decode_frame d = (res, d')" and "will_end (rx d) (eof d)"
  shows "length (rx d') \<le> length (rx d) \<and> (\<not> eof d \<longrightarrow> length (rx d') < length (rx d))"
  using assms by (auto simp: decode_frame_def will_end_def Let_def split: list.split_asm recv.split_asm if_split_asm)

lemma collect_loop_takes:
  "collect_loop r n acc d = (res, d') \<Longrightarrow> will_end (rx d) (eof d) \<Longrightarrow>
   length (rx d') \<le> length (rx d) \<and> (res = Inr None \<and> \<not> eof d \<longrightarrow> length (rx d') < length (rx d))"
proof (induction r n acc d rule: collect_loop.induct)
  case (1 r n acc d)
  note loop = "1.prems"(1) [unfolded collect_loop.simps [of r n acc d]]
  show ?case
  proof (cases "n \<le> length acc")
    case True
    with loop show ?thesis by auto
  next
    case False
    obtain out d1 where one: "decode_frame d = (out, d1)" by (cases "decode_frame d")
    note takes = decode_frame_takes [OF one "1.prems"(2)] decode_frame_will_end [OF one "1.prems"(2)]
    show ?thesis
    proof (cases "\<exists>fr. out = Inr (Some fr)")
      case True
      then obtain fr where fr: "out = Inr (Some fr)" by blast
      obtain more d2 where conv: "convert r (dec_samples fr) d1 = (more, d2)" by (cases "convert r (dec_samples fr) d1")
      note same = convert_channel [OF conv]
      show ?thesis
      proof (cases more)
        case (Inl e)
        with loop False one fr conv same takes show ?thesis by auto
      next
        case (Inr ys)
        with loop False one fr conv have more: "collect_loop r n (acc @ ys) d2 = (res, d')" by simp
        have "length (rx d') \<le> length (rx d2)"
          using "1.IH" [OF False one [symmetric] fr refl conv [symmetric] Inr more] takes(2) same by simp
        with takes(1) same show ?thesis by auto
      qed
    next
      case none: False
      with loop False one takes show ?thesis by (auto split: sum.splits option.splits)
    qed
  qed
qed

lemma decode_resampled_takes:
  assumes "decode_resampled rn f n d = (Inr out, d')" and "will_end (rx d) (eof d)" and "0 < n * unat (channels f)"
  shows "length (rx d') \<le> length (rx d) \<and> (out = None \<and> \<not> eof d \<longrightarrow> length (rx d') < length (rx d)) \<and>
    will_end (rx d') (eof d') \<and> (eof d \<longrightarrow> eof d')"
  using assms(1)
proof (cases rule: decode_resampled_loop)
  case (1 e res d1)
  have "res \<noteq> Some []"
    using collect_loop_size [of _ _ _ _ "[]" d1] 1(5) assms(3) by fastforce
  with 1(9) have "out = None \<longrightarrow> res = None" by blast
  moreover note collect_loop_takes [OF 1(5)]
  moreover have "will_end (rx d') (eof d')"
    by (rule decode_resampled_channel [where P = will_end, OF decode_frame_will_end assms(1,2)])
  moreover have "eof d \<longrightarrow> eof d'"
    using decode_resampled_channel [where P = "\<lambda>_ e. e", OF decode_frame_eof assms(1)] by simp
  ultimately show ?thesis using assms(2) 1(2,3,6,7) by auto
qed

section \<open>A refill makes progress\<close>

text \<open>What is left to receive, given that the decoder has \<open>d\<close> before it.\<close>

lemma decode_batch_progress:
  assumes "decode_batch rn k i = (Inr (), j)" and "live_decoder i = Some d" and "will_end (rx d) (eof d)"
    and "unplayed rn i xs" and "0 < packet_samples_per (audio_format (si_config i))"
  shows "\<exists>d'. live_decoder j = Some d' \<and> will_end (rx d') (eof d') \<and> length (rx d') \<le> length (rx d) \<and>
    capacity_frames (si_buffer j) = capacity_frames (si_buffer i) \<and> si_config j = si_config i \<and>
    length (frames (si_buffer i)) \<le> length (frames (si_buffer j)) \<and>
    (eof d' \<and> \<not> eof d \<longrightarrow> length (rx d') < length (rx d)) \<and>
    (length (rx d') < length (rx d) \<or> length (frames (si_buffer j)) = length (frames (si_buffer i)) + k \<or>
     eof d' \<and> frames (si_buffer j) = frames (si_buffer i))"
  using assms
proof (induction k arbitrary: i d)
  case (Suc k)
  let ?f = "audio_format (si_config i)"
  let ?n = "unat (frames_per_packet ?f)"
  have n: "0 < ?n * unat (channels ?f)" using Suc.prems(5) by (simp add: packet_samples_per_def)
  obtain ys where d: "comes_to rn ?f d ys" using Suc.prems(2,4) by (auto simp: unplayed_def)
  obtain out d' where one: "decode_resampled rn ?f ?n d = (Inr out, d')"
    using decode_resampled_cuts [of d rn ?f _ ?n] d n by (auto simp: comes_to_def)
  note takes = decode_resampled_takes [OF one Suc.prems(3) n]
  show ?case
  proof (cases out)
    case None
    with Suc.prems(1,2) one have "j = i\<lparr>live_decoder := Some d'\<rparr>" by (simp add: Let_def)
    with None takes show ?thesis by auto
  next
    case (Some fr)
    let ?fr = "audio_frame_new (dec_samples fr)"
    obtain b where push: "buffer_push ?fr (si_buffer i) = (Inr (), b)"
      and more: "decode_batch rn k (i\<lparr>live_decoder := Some d', si_buffer := b\<rparr>) = (Inr (), j)"
      using Suc.prems(1,2) one Some by (auto simp: Let_def split: prod.splits sum.splits fault.splits)
    have b: "frames b = frames (si_buffer i) @ [?fr]" "capacity_frames b = capacity_frames (si_buffer i)"
      using push by (auto simp: buffer_push_def split: if_splits)
    have "decode_batch rn 1 i = (Inr (), i\<lparr>live_decoder := Some d', si_buffer := b\<rparr>)"
      using Suc.prems(2) one Some push by (simp add: Let_def)
    from decode_batch_unplayed [OF this Suc.prems(4,5)]
    have "unplayed rn (i\<lparr>live_decoder := Some d', si_buffer := b\<rparr>) xs" .
    with Suc.IH [OF more, of d'] takes Suc.prems(5) obtain d'' where ih: "live_decoder j = Some d''"
        "will_end (rx d'') (eof d'')" "length (rx d'') \<le> length (rx d')"
        "capacity_frames (si_buffer j) = capacity_frames (si_buffer i)" "si_config j = si_config i"
        "Suc (length (frames (si_buffer i))) \<le> length (frames (si_buffer j))"
        "eof d'' \<and> \<not> eof d' \<longrightarrow> length (rx d'') < length (rx d')"
        "length (rx d'') < length (rx d') \<or> length (frames (si_buffer j)) = Suc (length (frames (si_buffer i)) + k) \<or>
         eof d'' \<and> length (frames (si_buffer j)) = Suc (length (frames (si_buffer i)))"
      by (auto simp: b)
    have "eof d \<longrightarrow> length (residual_samples d) < ?n * unat (channels ?f)"
      using d by (simp add: comes_to_def packet_samples_per_def)
    from decode_resampled_more [OF one [unfolded Some] this] have "\<not> eof d'" .
    with ih takes show ?thesis by (intro exI [of _ d'']) auto
  qed
qed auto

lemma refill_progress:
  assumes "refill_buffer_if_needed rn i = (Inr (), j)" and "live_decoder i = Some d" and "will_end (rx d) (eof d)"
    and "unplayed rn i xs" and "0 < packet_samples_per (audio_format (si_config i))"
    and "0 < capacity_frames (si_buffer i)"
  shows "\<exists>d'. live_decoder j = Some d' \<and> will_end (rx d') (eof d') \<and> length (rx d') \<le> length (rx d) \<and>
    capacity_frames (si_buffer j) = capacity_frames (si_buffer i) \<and> si_config j = si_config i \<and>
    length (frames (si_buffer i)) \<le> length (frames (si_buffer j)) \<and>
    (10 * length (frames (si_buffer i)) \<le> capacity_frames (si_buffer i) \<longrightarrow>
     length (rx d') < length (rx d) \<or> length (frames (si_buffer j)) = length (frames (si_buffer i)) + 3 \<or>
     eof d' \<and> frames (si_buffer j) = frames (si_buffer i))"
proof (cases "BUFFER_LOW_WATERMARK_PERCENT \<le> fill_percentage (si_buffer i)")
  case True
  have "\<not> 10 * length (frames (si_buffer i)) \<le> capacity_frames (si_buffer i)"
    using True fill_tests(1) [of "si_buffer i"] assms(6) by (auto simp: BUFFER_LOW_WATERMARK_PERCENT_def)
  with True assms show ?thesis by (simp add: refill_buffer_if_needed_def)
next
  case False
  then have "decode_batch rn 3 i = (Inr (), j)"
    using assms(1) by (simp add: refill_buffer_if_needed_def decode_some_inner_def DECODE_BATCH_LIMIT_def)
  from decode_batch_progress [OF this assms(2-5)] show ?thesis by blast
qed

lemma update_timing_decoder [simp]: "live_decoder (update_timing_offset u i) = live_decoder i"
  by (simp add: update_timing_offset_def split: option.split)

lemma decode_batch_shape:
  "decode_batch rn k i = (res, j) \<Longrightarrow>
   capacity_frames (si_buffer j) = capacity_frames (si_buffer i) \<and> si_config j = si_config i"
proof (induction k arbitrary: i)
  case (Suc k)
  have push: "buffer_push fr b = (r, b') \<Longrightarrow> capacity_frames b' = capacity_frames b" for fr b r b'
    by (auto simp: buffer_push_def split: if_splits)
  from Suc.prems show ?case
    by (auto simp: Let_def split: option.splits prod.splits sum.splits fault.splits dest!: Suc.IH push)
qed simp

lemma refill_shape:
  "refill_buffer_if_needed rn i = (res, j) \<Longrightarrow>
   capacity_frames (si_buffer j) = capacity_frames (si_buffer i) \<and> si_config j = si_config i"
  by (auto simp: refill_buffer_if_needed_def decode_some_inner_def decode_batch_shape split: if_splits)

lemmas refill_capacity = refill_shape [THEN conjunct1]

text \<open>The format and the size of the buffer stay.\<close>

definition shape :: "stream_config \<Rightarrow> nat \<Rightarrow> (bytes list \<times> bytes option) list \<Rightarrow> streamer_inner \<Rightarrow> bool" where
  "shape c cap ps i \<longleftrightarrow> si_config i = c \<and> capacity_frames (si_buffer i) = cap"

interpretation form: stream_log rn "shape c cap" for rn c cap
proof (unfold_locales, goal_cases)
  case (1 ps i u)
  then show ?case by (simp add: shape_def update_timing_offset_def split: option.split)
next
  case (3 ps i j)
  then show ?case using refill_shape [OF 3(2)] by (simp add: shape_def)
next
  case (5 s ps tk outs e s')
  from 5(1,3,4) show ?case
  proof (cases rule: send_next_frame_pops)
    case (frame fr frs b enc p enc')
    let ?s = "s\<lparr>st_inner := (st_inner s)\<lparr>si_buffer := b, si_encoder := Some enc'\<rparr>\<rparr>"
    from 5(1) have "st_sender_tx ?s" by simp
    from this frame(5) 5(4) show ?thesis
      by (cases rule: send_packet_prepares) (use 5(1,2) frame(2) in \<open>auto simp: shape_def\<close>)
  qed (use 5(2) in \<open>simp add: shape_def\<close>)
qed (simp_all add: shape_def reset_after_flush_def on_inner_def)

section \<open>Sending never fails\<close>

lemma prepare_all_seals:
  "list_all2 seals_for rcvs rs \<Longrightarrow> length payload < 2 ^ 32 \<Longrightarrow> \<exists>ws rs'. prepare_all pt ts payload mk rs = (Inr ws, rs')"
proof (induction rule: list_all2_induct)
  case (Cons rc rcvs r rs)
  obtain w r' where "prepare_audio pt ts payload mk r = (Inr w, r')"
    using serialized_opens [of "fst rc" "snd rc" payload r pt ts mk] Cons(1,4) by (auto simp: seals_for_def prepare_audio_def)
  with Cons(3,4) show ?case by auto
qed simp

lemma seals_after_sync:
  assumes "sync_for_thread sync ts t i = (sd, j)" and "list_all2 seals_for rcvs (rtp_senders i)"
  shows "list_all2 seals_for rcvs (rtp_senders j)"
proof -
  note aside = conjunct2 [OF sync_for_thread_aside [OF assms(1)]]
  have "map rtp_cipher (rtp_senders j) = map rtp_cipher (rtp_senders i)"
    by (rule aside_ciphers [OF aside])
  with assms(2) all_seal_alike show ?thesis by blast
qed

lemma send_frame_live:
  assumes "delivering rn dec rcvs src ps (st_inner s)" and "st_sender_tx s" and "tk_thread_alive tk"
    and "frames (si_buffer (st_inner s)) = fr # frs"
  shows "\<exists>outs s'. send_next_frame tk s = (outs, NextNow, s') \<and> si_state (st_inner s') = si_state (st_inner s) \<and>
    frames (si_buffer (st_inner s')) = frs \<and>
    capacity_frames (si_buffer (st_inner s')) = capacity_frames (si_buffer (st_inner s)) \<and>
    live_decoder (st_inner s') = live_decoder (st_inner s) \<and> si_config (st_inner s') = si_config (st_inner s) \<and>
    loop_running s' = loop_running s \<and> loop_checked s' = loop_checked s"
proof -
  let ?i = "st_inner s"
  let ?f = "audio_format (si_config ?i)"
  have wp: "whole_packets ?i" and n: "2 * packet_samples_per ?f + 256 < 2 ^ 32"
    and seals: "list_all2 seals_for rcvs (rtp_senders ?i)"
    using assms(1) by (auto simp: delivering_def Let_def)
  obtain enc where enc: "si_encoder ?i = Some enc" "lossless_encoder dec enc" "enc_format enc = ?f"
    using assms(1) by (auto simp: delivering_def Let_def)
  have "length (samples fr) = packet_samples_per ?f" using wp assms(4) by (simp add: whole_packets_def)
  with encode_decodes [OF enc(2), of "samples fr"] enc(3) n obtain p enc' where
    code: "alac_encoder_encode (samples fr) enc = (Inr p, enc')" "length (pkt_data p) < 2 ^ 32" by auto
  let ?b = "(si_buffer ?i)\<lparr>frames := frs, total_samples_read := total_samples_read (si_buffer ?i) +
        frame_count (buf_format (si_buffer ?i)) fr\<rparr>"
  have pop: "buffer_pop (si_buffer ?i) = (Inr (Some fr), ?b)"
    using assms(4) wp by (auto simp: buffer_pop_def whole_packets_def buffer_ok_def)
  let ?s = "s\<lparr>st_inner := ?i\<lparr>si_buffer := ?b, si_encoder := Some enc'\<rparr>\<rparr>"
  have send: "send_next_frame tk s = send_packet tk p ?s"
    using pop enc(1) code(1) by (simp add: send_next_frame_def Let_def)
  let ?j = "st_inner ?s" and ?ts = "ucast (pkt_timestamp p) :: u32"
  let ?pt = "word_of_nat (stream_type_code (stream_type (si_config ?j))) :: u8"
  let ?t = "adjusted_wall_time ?j (now_wall_ns (tk_wall tk)) + render_delay_ns ?j"
  obtain sd k where sync: "sync_for_thread (need_sync ?j ?ts) ?ts ?t ?j = (sd, k)"
    by (cases "sync_for_thread (need_sync ?j ?ts) ?ts ?t ?j")
  have k: "si_state k = si_state ?j" "si_buffer k = si_buffer ?j" "live_decoder k = live_decoder ?j"
      "si_config k = si_config ?j"
    by (subst conjunct1 [OF sync_for_thread_aside [OF sync]], simp)+
  have "list_all2 seals_for rcvs (rtp_senders k)" using seals_after_sync [OF sync] seals by simp
  from prepare_all_seals [OF this code(2)] obtain ws rs' where
    all: "prepare_all ?pt ?ts (pkt_data p) (\<not> first_packet_sent ?j) (rtp_senders k) = (Inr ws, rs')" by blast
  show ?thesis
  proof (cases "rtp_senders ?j = []")
    case True
    then show ?thesis unfolding send using assms(2) by (simp add: send_packet_def finish_iteration_def Let_def)
  next
    case False
    then show ?thesis
      unfolding send using assms(2,3) sync all k by (simp add: send_packet_def update_sent_packet_state_def Let_def)
  qed
qed

section \<open>One turn\<close>

text \<open>A stream between two turns that is not paused.\<close>

definition at_turn :: "audio_streamer \<Rightarrow> bool" where
  "at_turn s \<longleftrightarrow> loop_running s \<and> \<not> loop_checked s \<and> 4 \<le> capacity_frames (si_buffer (st_inner s)) \<and>
     (si_state (st_inner s) = StBuffering \<or> si_state (st_inner s) = StStreaming)"

text \<open>The next turn begins with the decoder of \<open>j\<close>, in the given state, with the given frames.\<close>

definition leaves :: "streamer_inner \<Rightarrow> streamer_state \<Rightarrow> audio_frame list \<Rightarrow> audio_streamer \<Rightarrow> bool" where
  "leaves j st frs s \<longleftrightarrow> at_turn s \<and> si_state (st_inner s) = st \<and> frames (si_buffer (st_inner s)) = frs \<and>
     live_decoder (st_inner s) = live_decoder j \<and> si_config (st_inner s) = si_config j \<and>
     capacity_frames (si_buffer (st_inner s)) = capacity_frames (si_buffer j)"

lemma delivering_healthy:
  assumes "delivering rn dec rcvs src ps i" and "4 \<le> capacity_frames (si_buffer i)"
  shows "healthy rn i"
  using assms
  by (auto simp: delivering_def healthy_def whole_packets_def unplayed_def comes_to_def packet_samples_per_def Let_def)

lemma turn_cases:
  assumes "delivering rn dec rcvs src ps (st_inner s)" and "st_sender_tx s" and "at_turn s" and "tk_thread_alive tk"
    and "run_io (streamer_step rn) s [Tick tk0 mf0 sg0, Tick tk mf sg] = (outs, s')"
  obtains j where "refill_buffer_if_needed rn (update_timing_offset (tk_offset tk) (st_inner s)) = (Inr (), j)"
    "(\<exists>fr frs. frames (si_buffer j) = fr # frs \<and> leaves j StStreaming frs s' \<and>
        (si_state (st_inner s) = StBuffering \<longrightarrow> capacity_frames (si_buffer j) < 10 * length (frames (si_buffer j)))) \<or>
     (frames (si_buffer j) = [] \<and> si_state (st_inner s) = StStreaming \<and> leaves j StBuffering [] s') \<or>
     (frames (si_buffer j) = [] \<and> si_state (st_inner s) = StBuffering \<and> \<not> loop_running s' \<and>
      si_state (st_inner s') = StStopped \<and> live_decoder (st_inner s') \<noteq> None) \<or>
     (si_state (st_inner s) = StBuffering \<and> outs = [] \<and>
      10 * length (frames (si_buffer j)) \<le> capacity_frames (si_buffer j) \<and>
      \<not> (frames (si_buffer j) = [] \<and> (\<exists>d. live_decoder j = Some d \<and> is_eof d)) \<and>
      leaves j StBuffering (frames (si_buffer j)) s')"
proof -
  let ?s = "s\<lparr>loop_checked := True\<rparr>" and ?s1 = "s\<lparr>loop_checked := False\<rparr>"
  let ?i = "update_timing_offset (tk_offset tk) (st_inner s)"
  have run: "loop_running s" "\<not> loop_checked s" and cap: "4 \<le> capacity_frames (si_buffer (st_inner s))"
    and st: "si_state (st_inner s) = StBuffering \<or> si_state (st_inner s) = StStreaming"
    using assms(3) by (simp_all add: at_turn_def)
  have check: "streamer_step rn s (Tick tk0 mf0 sg0) = ([], ?s)"
    using run st by (auto simp: task_step_def loop_part_def loop_check_def Let_def)
  have i: "delivering rn dec rcvs src ps ?i" using assms(1) by (rule ear.timing)
  have fi: "si_state ?i = si_state (st_inner s)" "si_buffer ?i = si_buffer (st_inner s)" by simp_all
  obtain j where refill: "refill_buffer_if_needed rn ?i = (Inr (), j)"
    using refill_healthy [OF delivering_healthy [OF i]] cap fi by auto
  have j: "delivering rn dec rcvs src ps j" using i refill by (rule ear.refilled)
  have dec: "live_decoder j \<noteq> None" using j by (auto simp: delivering_def unplayed_def Let_def)
  obtain d xs where d: "live_decoder ?i = Some d" "unplayed rn ?i xs"
      "0 < packet_samples_per (audio_format (si_config ?i))"
    using i by (auto simp: delivering_def unplayed_def Let_def)
  have capj: "capacity_frames (si_buffer j) = capacity_frames (si_buffer (st_inner s))"
    using refill_capacity [OF refill] fi by simp
  have stj: "si_state j = si_state (st_inner s)" using refill_state [OF refill] fi by simp
  obtain a m where act: "buffering_action j = (a, m)" by (cases "buffering_action j")
  have second: "streamer_step rn ?s (Tick tk mf sg) = (outs, s')"
    using assms(5) check by (auto simp: split_def Let_def prod_eq_iff)
  have ready: "BUFFER_RESUME_FILL_PERCENT < fill_percentage (si_buffer j) \<longleftrightarrow>
      capacity_frames (si_buffer j) < 10 * length (frames (si_buffer j))"
    using fill_tests(2) [of "si_buffer j"] cap capj by (simp add: BUFFER_RESUME_FILL_PERCENT_def)
  let ?m = "j\<lparr>si_state := StStreaming\<rparr>"
  let ?s2 = "?s1\<lparr>st_inner := ?m, state_cache := StStreaming\<rparr>"
  have ready_turn: "(\<exists>fr frs. frames (si_buffer j) = fr # frs \<and> leaves j StStreaming frs s') \<or>
      (frames (si_buffer j) = [] \<and> leaves j StBuffering [] s')"
    if act: "buffering_action j = (buffering_action.Ready, ?m)"
  proof -
    have body: "loop_body rn tk ?s1 = send_next_frame tk ?s2"
      using act refill by (simp add: loop_body_def Let_def)
    have m: "delivering rn dec rcvs src ps (st_inner ?s2)" using ear.any_state [OF j, of StStreaming] by simp
    show ?thesis
    proof (cases "frames (si_buffer j)")
      case Nil
      then have "buffer_pop (si_buffer j) = (Inr None, si_buffer j)" by (simp add: buffer_pop_def)
      then have "send_next_frame tk ?s2 = ([], NextNow, record_buffer_underrun ?s2)"
        using assms(2) by (simp add: send_next_frame_def finish_iteration_def record_buffer_underrun_def Let_def)
      with second run body have "s' = record_buffer_underrun ?s2"
        by (simp add: task_step_def loop_part_def)
      with Nil run cap capj show ?thesis by (simp add: leaves_def at_turn_def record_buffer_underrun_def)
    next
      case (Cons fr frs)
      then obtain o1 s1 where send: "send_next_frame tk ?s2 = (o1, NextNow, s1)" "si_state (st_inner s1) = StStreaming"
          "frames (si_buffer (st_inner s1)) = frs" "capacity_frames (si_buffer (st_inner s1)) = capacity_frames (si_buffer j)"
          "live_decoder (st_inner s1) = live_decoder j" "si_config (st_inner s1) = si_config j"
          "loop_running s1" "\<not> loop_checked s1"
        using send_frame_live [OF m _ assms(4)] assms(2) run by fastforce
      with second run body have "s' = s1" by (simp add: task_step_def loop_part_def)
      with send Cons cap capj show ?thesis by (auto simp: leaves_def at_turn_def)
    qed
  qed
  show thesis
  proof (cases "si_state (st_inner s) = StStreaming \<or> capacity_frames (si_buffer j) < 10 * length (frames (si_buffer j))")
    case True
    have same: "?m = j" if "si_state j = StStreaming" using that by (cases j) simp
    have "buffering_action j = (buffering_action.Ready, ?m)"
    proof (cases "si_state j = StStreaming")
      case True
      then show ?thesis by (simp add: buffering_action_def same [OF True])
    next
      case False
      with \<open>si_state (st_inner s) = StStreaming \<or> _\<close> stj ready st show ?thesis by (simp add: buffering_action_def)
    qed
    from ready_turn [OF this] True show thesis by (intro that [OF refill]) auto
  next
    case False
    then have buf: "si_state (st_inner s) = StBuffering" "si_state j = StBuffering" using st stj by auto
    show thesis
    proof (cases "frames (si_buffer j) = [] \<and> (\<exists>d. live_decoder j = Some d \<and> is_eof d)")
      case True
      then have "buffering_action j = (StopLoop, j\<lparr>si_state := StStopped\<rparr>)"
        using buf ready False by (auto simp: buffering_action_def buffer_is_empty_def Let_def)
      then have "loop_body rn tk ?s1 = ([], Broken, ?s1\<lparr>st_inner := j\<lparr>si_state := StStopped\<rparr>, state_cache := StStopped\<rparr>)"
        using refill by (simp add: loop_body_def Let_def)
      with second run have "\<not> loop_running s' \<and> st_inner s' = j\<lparr>si_state := StStopped\<rparr>"
        by (auto simp: task_step_def loop_part_def)
      with True buf dec show thesis by (intro that [OF refill]) simp
    next
      case wait: False
      then have "buffering_action j = (Wait, j)"
        using buf ready False dec by (auto simp: buffering_action_def buffer_is_empty_def Let_def)
      then have "loop_body rn tk ?s1 = ([], RetryLater, ?s1\<lparr>st_inner := j, state_cache := StBuffering, loop_deadline := tk_now tk\<rparr>)"
        using refill by (simp add: loop_body_def Let_def)
      with second run have "outs = [] \<and> s' = ?s1\<lparr>st_inner := j, state_cache := StBuffering, loop_deadline := tk_now tk\<rparr>"
        by (simp add: task_step_def loop_part_def)
      with wait buf False run cap capj show thesis by (intro that [OF refill]) (auto simp: leaves_def at_turn_def)
    qed
  qed
qed

section \<open>Progress\<close>

text \<open>The work that is left: receives and packets first, then the room of the buffer. A turn that sends
  takes a packet away, a gap in the source a receive, and a turn that only fills the buffer takes room.\<close>

definition work :: "resampler_maker \<Rightarrow> nat \<Rightarrow> streamer_inner \<Rightarrow> bool" where
  "work rn m i \<longleftrightarrow> (\<exists>d rest. live_decoder i = Some d \<and> will_end (rx d) (eof d) \<and> unplayed rn i rest \<and>
     m = (length (rx d) + length rest div packet_samples_per (audio_format (si_config i))) *
         (capacity_frames (si_buffer i) + 2) +
       (if si_state i = StStreaming then capacity_frames (si_buffer i) + 1
        else capacity_frames (si_buffer i) - length (frames (si_buffer i))))"

definition ended :: "audio_streamer \<Rightarrow> bool" where
  "ended s \<longleftrightarrow> \<not> loop_running s \<and> si_state (st_inner s) = StStopped \<and> live_decoder (st_inner s) \<noteq> None"

text \<open>A stream whose source has ended with a buffer that is at most a tenth full while it waits for more.\<close>

definition stuck :: "audio_streamer \<Rightarrow> bool" where
  "stuck s \<longleftrightarrow> at_turn s \<and> si_state (st_inner s) = StBuffering \<and> frames (si_buffer (st_inner s)) \<noteq> [] \<and>
     10 * length (frames (si_buffer (st_inner s))) \<le> capacity_frames (si_buffer (st_inner s)) \<and>
     (\<exists>d. live_decoder (st_inner s) = Some d \<and> eof d)"

lemma unplayed_eof: "unplayed rn i xs \<Longrightarrow> live_decoder i = Some d \<Longrightarrow> eof d \<Longrightarrow> is_eof d \<and> rx d = []"
  by (auto simp: unplayed_def comes_to_def one_end_def is_eof_def rx_is_empty_def)

lemma leaves_fields:
  assumes "leaves j st frs s"
  shows "at_turn s" and "si_state (st_inner s) = st" and "frames (si_buffer (st_inner s)) = frs"
    and "live_decoder (st_inner s) = live_decoder j" and "si_config (st_inner s) = si_config j"
    and "capacity_frames (si_buffer (st_inner s)) = capacity_frames (si_buffer j)"
  using assms by (simp_all add: leaves_def)

lemma leaves_unplayed:
  assumes "unplayed rn j rest" and "leaves j st frs s'"
  shows "frs = frames (si_buffer j) \<Longrightarrow> unplayed rn (st_inner s') rest"
    and "frames (si_buffer j) = fr # frs \<Longrightarrow> \<exists>rest'. rest = samples fr @ rest' \<and> unplayed rn (st_inner s') rest'"
  using assms by (auto simp: unplayed_def leaves_fields)

lemma turn_progress:
  assumes "delivering rn dec rcvs src ps (st_inner s)" and "st_sender_tx s" and "at_turn s" and "tk_thread_alive tk"
    and "work rn m (st_inner s)"
    and "run_io (streamer_step rn) s [Tick tk0 mf0 sg0, Tick tk mf sg] = (outs, s')"
  shows "ended s' \<or> stuck s' \<or> at_turn s' \<and> (\<exists>m' < m. work rn m' (st_inner s'))"
  using assms(1-4,6)
proof (cases rule: turn_cases)
  case (1 j)
  let ?i = "update_timing_offset (tk_offset tk) (st_inner s)"
  let ?n = "packet_samples_per (audio_format (si_config (st_inner s)))"
  let ?cap = "capacity_frames (si_buffer (st_inner s))"
  let ?b = "length (frames (si_buffer (st_inner s)))"
  obtain d rest where d: "live_decoder (st_inner s) = Some d" "will_end (rx d) (eof d)" "unplayed rn (st_inner s) rest"
    and m: "m = (length (rx d) + length rest div ?n) * (?cap + 2) +
       (if si_state (st_inner s) = StStreaming then ?cap + 1 else ?cap - ?b)"
    using assms(5) by (auto simp: work_def)
  have n: "0 < ?n" using assms(1) by (simp add: delivering_def Let_def)
  have cap: "4 \<le> ?cap" using assms(3) by (simp add: at_turn_def)
  have i: "live_decoder ?i = Some d" "si_buffer ?i = si_buffer (st_inner s)" "si_config ?i = si_config (st_inner s)"
    using d(1) by (simp_all add: update_timing_offset_def split: option.split)
  have ui: "unplayed rn ?i rest" using d(3) i d(1) by (simp add: unplayed_def)
  obtain d' where d': "live_decoder j = Some d'" "will_end (rx d') (eof d')" "length (rx d') \<le> length (rx d)"
      "capacity_frames (si_buffer j) = ?cap" "si_config j = si_config (st_inner s)" "?b \<le> length (frames (si_buffer j))"
      "10 * ?b \<le> ?cap \<longrightarrow> length (rx d') < length (rx d) \<or> length (frames (si_buffer j)) = ?b + 3 \<or>
        eof d' \<and> frames (si_buffer j) = frames (si_buffer (st_inner s))"
    using refill_progress [OF 1(1) i(1) d(2) ui] i n cap by auto
  have uj: "unplayed rn j rest" using refill_unplayed [OF 1(1) ui] i n by simp
  have wp: "whole_packets j"
    using ear.refilled [OF ear.timing [OF assms(1)] 1(1)] by (simp add: delivering_def Let_def)
  have less: "x * (?cap + 2) + y < z * (?cap + 2) + w" if "x < z" "y \<le> ?cap + 1" for x y z w
  proof -
    have "Suc x * (?cap + 2) \<le> z * (?cap + 2)" using that(1) by (intro mult_le_mono1) simp
    with that(2) show ?thesis by simp
  qed
  from 1(2) show ?thesis
  proof (elim disjE exE conjE)
    fix fr frs
    assume fr: "frames (si_buffer j) = fr # frs" and s': "leaves j StStreaming frs s'"
    obtain rest' where rest': "rest = samples fr @ rest'" "unplayed rn (st_inner s') rest'"
      using leaves_unplayed(2) [OF uj s' fr] by blast
    have "length (samples fr) = ?n" using wp fr d'(5) by (simp add: whole_packets_def)
    then have "length rest div ?n = Suc (length rest' div ?n)" using rest'(1) n by simp
    with d'(3) have "length (rx d') + length rest' div ?n < length (rx d) + length rest div ?n" by simp
    from less [OF this, of "?cap + 1"] m
    have "(length (rx d') + length rest' div ?n) * (?cap + 2) + (?cap + 1) < m" by simp
    moreover have "work rn ((length (rx d') + length rest' div ?n) * (?cap + 2) + (?cap + 1)) (st_inner s')"
      using d' rest'(2) s' by (auto simp: work_def leaves_fields)
    ultimately show ?thesis using s' by (auto simp: leaves_fields)
  next
    assume none: "frames (si_buffer j) = []" and st: "si_state (st_inner s) = StStreaming"
      and s': "leaves j StBuffering [] s'"
    have "(length (rx d') + length rest div ?n) * (?cap + 2) \<le> (length (rx d) + length rest div ?n) * (?cap + 2)"
      using d'(3) by (intro mult_le_mono1) simp
    then have "(length (rx d') + length rest div ?n) * (?cap + 2) + ?cap < m" using m st by simp
    moreover have "work rn ((length (rx d') + length rest div ?n) * (?cap + 2) + ?cap) (st_inner s')"
      using d' leaves_unplayed(1) [OF uj s'] none s' by (auto simp: work_def leaves_fields)
    ultimately show ?thesis using s' by (auto simp: leaves_fields)
  next
    assume st: "si_state (st_inner s) = StBuffering" and low: "10 * length (frames (si_buffer j)) \<le> capacity_frames (si_buffer j)"
      and wait: "\<not> (frames (si_buffer j) = [] \<and> (\<exists>d. live_decoder j = Some d \<and> is_eof d))"
      and s': "leaves j StBuffering (frames (si_buffer j)) s'"
    show ?thesis
    proof (cases "eof d' \<and> frames (si_buffer j) = frames (si_buffer (st_inner s))")
      case True
      then have "frames (si_buffer j) \<noteq> []" using wait d'(1) unplayed_eof [OF uj d'(1)] by auto
      with True s' low d'(1) show ?thesis by (auto simp: stuck_def leaves_fields)
    next
      case False
      let ?m' = "(length (rx d') + length rest div ?n) * (?cap + 2) + (?cap - length (frames (si_buffer j)))"
      have "length (rx d') < length (rx d) \<or> length (frames (si_buffer j)) = ?b + 3"
        using False d'(4,6,7) low by auto
      then have "?m' < m"
      proof
        assume "length (rx d') < length (rx d)"
        then show ?thesis using less [of "length (rx d') + length rest div ?n" "length (rx d) + length rest div ?n"] m by simp
      next
        assume more: "length (frames (si_buffer j)) = ?b + 3"
        have "(length (rx d') + length rest div ?n) * (?cap + 2) \<le> (length (rx d) + length rest div ?n) * (?cap + 2)"
          using d'(3) by (intro mult_le_mono1) simp
        moreover have "?cap - length (frames (si_buffer j)) < ?cap - ?b" using more low d'(4) by simp
        ultimately show ?thesis using m st by simp
      qed
      moreover have "work rn ?m' (st_inner s')"
        using d' leaves_unplayed(1) [OF uj s'] s' by (auto simp: work_def leaves_fields)
      ultimately show ?thesis using s' by (auto simp: leaves_fields)
    qed
  qed (simp add: ended_def)
qed

lemma refill_eof:
  assumes "refill_buffer_if_needed rn i = (Inr (), j)" and "live_decoder i = Some d" and "eof d"
    and "unplayed rn i xs" and "0 < packet_samples_per (audio_format (si_config i))"
  shows "frames (si_buffer j) = frames (si_buffer i) \<and> (\<exists>d'. live_decoder j = Some d' \<and> eof d')"
proof -
  let ?f = "audio_format (si_config i)"
  let ?n = "unat (frames_per_packet ?f)"
  have n: "0 < ?n * unat (channels ?f)" using assms(5) by (simp add: packet_samples_per_def)
  obtain ys where d: "comes_to rn ?f d ys" using assms(2,4) by (auto simp: unplayed_def)
  obtain out d' where one: "decode_resampled rn ?f ?n d = (Inr out, d')"
    using decode_resampled_cuts [of d rn ?f _ ?n] d n by (auto simp: comes_to_def)
  have eof: "eof d'" using decode_resampled_channel [where P = "\<lambda>_ e. e", OF decode_frame_eof one] assms(3) by simp
  have "eof d \<longrightarrow> length (residual_samples d) < ?n * unat (channels ?f)"
    using d by (simp add: comes_to_def packet_samples_per_def)
  with eof one decode_resampled_more [of rn ?f ?n d] have "out = None" by (cases out) auto
  with one assms(2) have "decode_batch rn 3 i = (Inr (), i\<lparr>live_decoder := Some d'\<rparr>)"
    by (simp add: numeral_3_eq_3 Let_def)
  with assms(1-3) eof show ?thesis
    by (auto simp: refill_buffer_if_needed_def decode_some_inner_def DECODE_BATCH_LIMIT_def split: if_splits)
qed

lemma stuck_turn:
  assumes "delivering rn dec rcvs src ps (st_inner s)" and "st_sender_tx s" and "stuck s" and "tk_thread_alive tk"
    and "run_io (streamer_step rn) s [Tick tk0 mf0 sg0, Tick tk mf sg] = (outs, s')"
  shows "stuck s'"
proof -
  have turn: "at_turn s" using assms(3) by (simp add: stuck_def)
  from assms(1,2) turn assms(4,5) show ?thesis
  proof (cases rule: turn_cases)
    case (1 j)
    let ?i = "update_timing_offset (tk_offset tk) (st_inner s)"
    obtain d where d: "live_decoder ?i = Some d" "eof d"
      using assms(3) that by (auto simp: stuck_def)
    obtain xs where "unplayed rn ?i xs" "0 < packet_samples_per (audio_format (si_config ?i))"
      using delivering_unplayed [OF ear.timing [OF assms(1)]] by blast
    from refill_eof [OF 1(1) d this] obtain d' where
      j: "frames (si_buffer j) = frames (si_buffer (st_inner s))" "live_decoder j = Some d'" "eof d'" by auto
    have cap: "capacity_frames (si_buffer j) = capacity_frames (si_buffer (st_inner s))"
      using refill_capacity [OF 1(1)] by simp
    with 1(2) j cap assms(3) show ?thesis by (auto simp: stuck_def leaves_fields)
  qed
qed

section \<open>Any number of turns\<close>

lemma settles:
  assumes "kept (delivering rn dec rcvs src) ps s" and "tk_thread_alive tk"
    and "ended s \<or> stuck s \<or> at_turn s \<and> (\<exists>m < n. work rn m (st_inner s))"
    and "run_io (streamer_step rn) s (turns n tk) = (outs, s')"
  shows "ended s' \<or> stuck s'"
  using assms(1,3,4)
proof (induction n arbitrary: ps s outs)
  case 0
  then show ?case by (auto simp: turns_def)
next
  case (Suc n)
  obtain o1 s1 where one: "run_io (streamer_step rn) s [Tick tk True True, Tick tk True True] = (o1, s1)"
    by (cases "run_io (streamer_step rn) s [Tick tk True True, Tick tk True True]")
  obtain o2 where two: "run_io (streamer_step rn) s1 (turns n tk) = (o2, s')"
    using Suc.prems(3) unfolding turns_Suc run_io_append one by (auto split: prod.splits)
  have run: "st_sender_tx s \<and> delivering rn dec rcvs src ps (st_inner s)" if "loop_running s"
    using kept_running [OF Suc.prems(1) that] by simp
  have "ended s1 \<or> stuck s1 \<or> at_turn s1 \<and> (\<exists>m < n. work rn m (st_inner s1))"
    using Suc.prems(2)
  proof (elim disjE conjE exE)
    assume e: "ended s"
    then have "s1 = s" using one by (simp add: ended_def task_step_def)
    with e show ?thesis by simp
  next
    assume e: "stuck s"
    then have "loop_running s" by (simp add: stuck_def at_turn_def)
    with stuck_turn [OF _ _ e assms(2) one] run show ?thesis by blast
  next
    fix m
    assume turn: "at_turn s" and m: "m < Suc n" "work rn m (st_inner s)"
    then have "loop_running s" by (simp add: at_turn_def)
    with run have "ended s1 \<or> stuck s1 \<or> at_turn s1 \<and> (\<exists>m' < m. work rn m' (st_inner s1))"
      using turn_progress [OF _ _ turn assms(2) m(2) one] by blast
    moreover have "m' < n" if "m' < m" for m' using that m(1) by simp
    ultimately show ?thesis by blast
  qed
  from Suc.IH [OF ear.run_kept [OF Suc.prems(1) one] this two] show ?case .
qed

section \<open>Sources without gaps\<close>

lemma collect_loop_dries:
  "collect_loop r n acc d = (Inr None, d') \<Longrightarrow> will_end (rx d) (eof d) \<Longrightarrow> RecvTimeout \<notin> set (rx d) \<Longrightarrow> eof d'"
proof (induction r n acc d rule: collect_loop.induct)
  case (1 r n acc d)
  note loop = "1.prems"(1) [unfolded collect_loop.simps [of r n acc d]]
  have False: "\<not> n \<le> length acc" using loop by auto
  obtain out d1 where one: "decode_frame d = (out, d1)" by (cases "decode_frame d")
  note ends = decode_frame_will_end [OF one "1.prems"(2)]
  have gaps: "RecvTimeout \<notin> set (rx d1)" and dry: "out = Inr None \<longrightarrow> eof d1"
    using one "1.prems"(2,3)
    by (auto simp: decode_frame_def will_end_def Let_def split: list.split_asm recv.split_asm if_split_asm)
  show ?case
  proof (cases "\<exists>fr. out = Inr (Some fr)")
    case True
    then obtain fr where fr: "out = Inr (Some fr)" by blast
    obtain more d2 where conv: "convert r (dec_samples fr) d1 = (more, d2)" by (cases "convert r (dec_samples fr) d1")
    note same = convert_channel [OF conv]
    obtain ys where ys: "more = Inr ys" using loop False one fr conv by (cases more) auto
    with loop False one fr conv have "collect_loop r n (acc @ ys) d2 = (Inr None, d')" by simp
    with "1.IH" [OF False one [symmetric] fr refl conv [symmetric] ys this] ends gaps same show ?thesis by simp
  next
    case none: False
    with loop False one dry show ?thesis by (auto split: sum.splits option.splits if_splits)
  qed
qed

lemma decode_resampled_dries:
  assumes "decode_resampled rn f n d = (Inr None, d')" and "will_end (rx d) (eof d)" and "RecvTimeout \<notin> set (rx d)"
    and "0 < n * unat (channels f)"
  shows "eof d'"
  using assms(1)
proof (cases rule: decode_resampled_loop)
  case (1 e res d1)
  have "res \<noteq> Some []" using collect_loop_size [of _ _ _ _ "[]" d1] 1(5) assms(4) by fastforce
  with 1 have "res = None" by blast
  with collect_loop_dries [of _ _ "residual_samples d" "e\<lparr>residual_samples := []\<rparr>" d1] 1 assms(2,3) show ?thesis by simp
qed

lemma decode_frame_gaps: "decode_frame d = (res, d') \<Longrightarrow> RecvTimeout \<notin> set (rx d) \<Longrightarrow> RecvTimeout \<notin> set (rx d')"
  by (auto simp: decode_frame_def Let_def split: list.split_asm recv.split_asm if_split_asm)

lemma decode_batch_gaps:
  assumes "decode_batch rn k i = (Inr (), j)" and "live_decoder i = Some d" and "RecvTimeout \<notin> set (rx d)"
    and "live_decoder j = Some d'"
  shows "RecvTimeout \<notin> set (rx d')"
  using assms
proof (induction k arbitrary: i d)
  case (Suc k)
  let ?f = "audio_format (si_config i)"
  obtain out d1 where one: "decode_resampled rn ?f (unat (frames_per_packet ?f)) d = (Inr out, d1)"
    using Suc.prems(1,2) by (auto simp: Let_def split: prod.splits sum.splits option.splits)
  have gaps: "RecvTimeout \<notin> set (rx d1)"
    using decode_resampled_channel [where P = "\<lambda>r _. RecvTimeout \<notin> set r", OF decode_frame_gaps one] Suc.prems(3) by simp
  show ?case
  proof (cases out)
    case None
    with Suc.prems one gaps show ?thesis by (auto simp: Let_def)
  next
    case (Some fr)
    with Suc.prems(1,2) one obtain b where
      "decode_batch rn k (i\<lparr>live_decoder := Some d1, si_buffer := b\<rparr>) = (Inr (), j)"
      by (auto simp: Let_def split: prod.splits sum.splits fault.splits)
    from Suc.IH [OF this _ gaps Suc.prems(4)] show ?thesis by simp
  qed
qed simp

lemma refill_gaps:
  "refill_buffer_if_needed rn i = (Inr (), j) \<Longrightarrow> live_decoder i = Some d \<Longrightarrow> RecvTimeout \<notin> set (rx d) \<Longrightarrow>
   live_decoder j = Some d' \<Longrightarrow> RecvTimeout \<notin> set (rx d')"
  by (auto simp: refill_buffer_if_needed_def decode_some_inner_def dest: decode_batch_gaps split: if_splits)

text \<open>When a refill without gaps leaves the buffer empty, the end has been seen.\<close>

lemma refill_dries:
  assumes "refill_buffer_if_needed rn i = (Inr (), j)" and "live_decoder i = Some d" and "will_end (rx d) (eof d)"
    and "RecvTimeout \<notin> set (rx d)" and "unplayed rn i xs" and "0 < packet_samples_per (audio_format (si_config i))"
    and "frames (si_buffer j) = []" and "live_decoder j = Some d'" and "0 < capacity_frames (si_buffer i)"
  shows "eof d'"
proof -
  let ?f = "audio_format (si_config i)"
  let ?n = "unat (frames_per_packet ?f)"
  have n: "0 < ?n * unat (channels ?f)" using assms(6) by (simp add: packet_samples_per_def)
  have none: "frames (si_buffer i) = []" using refill_progress [OF assms(1-3,5,6,9)] assms(7) by auto
  have "\<not> BUFFER_LOW_WATERMARK_PERCENT \<le> fill_percentage (si_buffer i)"
    using fill_tests(1) [of "si_buffer i"] none assms(9) by (simp add: BUFFER_LOW_WATERMARK_PERCENT_def)
  then have batch: "decode_batch rn 3 i = (Inr (), j)"
    using assms(1) by (simp add: refill_buffer_if_needed_def decode_some_inner_def DECODE_BATCH_LIMIT_def)
  obtain ys where d: "comes_to rn ?f d ys" using assms(2,5) by (auto simp: unplayed_def)
  obtain out d1 where one: "decode_resampled rn ?f ?n d = (Inr out, d1)"
    using decode_resampled_cuts [of d rn ?f _ ?n] d n by (auto simp: comes_to_def)
  show ?thesis
  proof (cases out)
    case None
    with batch assms(2) one have "j = i\<lparr>live_decoder := Some d1\<rparr>" by (simp add: numeral_3_eq_3 Let_def)
    with decode_resampled_dries [OF one [unfolded None] assms(3,4) n] assms(8) show ?thesis by simp
  next
    case (Some fr)
    let ?fr = "audio_frame_new (dec_samples fr)"
    obtain b where push: "buffer_push ?fr (si_buffer i) = (Inr (), b)"
      and more: "decode_batch rn 2 (i\<lparr>live_decoder := Some d1, si_buffer := b\<rparr>) = (Inr (), j)"
      using batch assms(2) one Some by (auto simp: numeral_3_eq_3 numeral_2_eq_2 Let_def split: prod.splits sum.splits fault.splits)
    have "decode_batch rn 1 i = (Inr (), i\<lparr>live_decoder := Some d1, si_buffer := b\<rparr>)"
      using assms(2) one Some push by (simp add: Let_def)
    from decode_batch_unplayed [OF this assms(5,6)] decode_resampled_takes [OF one assms(3) n]
      decode_batch_progress [OF more, of d1 xs] assms(6)
    have "length (frames b) \<le> length (frames (si_buffer j))" by auto
    with push assms(7) show ?thesis by (auto simp: buffer_push_def split: if_splits)
  qed
qed

text \<open>A source without gaps: while the buffer is filling, there are enough packets to fill a tenth of it, or
  everything has been played.\<close>

definition flowing :: "resampler_maker \<Rightarrow> streamer_inner \<Rightarrow> bool" where
  "flowing rn i \<longleftrightarrow> (\<exists>d rest. live_decoder i = Some d \<and> will_end (rx d) (eof d) \<and> RecvTimeout \<notin> set (rx d) \<and>
     unplayed rn i rest \<and>
     (si_state i = StBuffering \<longrightarrow>
        capacity_frames (si_buffer i) < 10 * (length rest div packet_samples_per (audio_format (si_config i))) \<or>
        frames (si_buffer i) = [] \<and> eof d))"

lemma whole_packets_length:
  assumes "whole_packets i"
  shows "length (concat (map samples (frames (si_buffer i)))) =
    length (frames (si_buffer i)) * packet_samples_per (audio_format (si_config i))"
proof -
  have "length (concat (map samples frs)) = length frs * n" if "list_all (\<lambda>fr. length (samples fr) = n) frs" for frs n
    using that by (induction frs) simp_all
  with assms show ?thesis unfolding whole_packets_def by blast
qed

lemma unplayed_at_end:
  assumes "unplayed rn i rest" and "live_decoder i = Some d" and "eof d" and "whole_packets i"
  shows "length rest < (length (frames (si_buffer i)) + 1) * packet_samples_per (audio_format (si_config i))"
    and "length rest div packet_samples_per (audio_format (si_config i)) = length (frames (si_buffer i))"
proof -
  let ?n = "packet_samples_per (audio_format (si_config i))"
  obtain pend where d: "length (residual_samples d) < ?n"
      "to_come rn (as_hz (sample_rate (audio_format (si_config i)))) d = Some pend"
      "rest = concat (map samples (frames (si_buffer i))) @ residual_samples d @ pend"
    using assms(1-3) by (auto simp: unplayed_def comes_to_def)
  have "pend = []"
    using d(2) unplayed_eof [OF assms(1-3)] ensure_resampler_once(1) by (fastforce simp: to_come_def split: sum.splits)
  with d(3) whole_packets_length [OF assms(4)]
  have "length rest = length (frames (si_buffer i)) * ?n + length (residual_samples d)" by simp
  with d(1) show "length rest < (length (frames (si_buffer i)) + 1) * ?n"
    and "length rest div ?n = length (frames (si_buffer i))" by simp_all
qed

lemma flowing_not_stuck: "flowing rn (st_inner s) \<Longrightarrow> whole_packets (st_inner s) \<Longrightarrow> \<not> stuck s"
  using unplayed_at_end(2) by (fastforce simp: flowing_def stuck_def)

lemma flowing_turn:
  assumes "delivering rn dec rcvs src ps (st_inner s)" and "st_sender_tx s" and "at_turn s" and "tk_thread_alive tk"
    and "flowing rn (st_inner s)"
    and "run_io (streamer_step rn) s [Tick tk0 mf0 sg0, Tick tk mf sg] = (outs, s')"
  shows "ended s' \<or> at_turn s' \<and> flowing rn (st_inner s')"
  using assms(1-4,6)
proof (cases rule: turn_cases)
  case (1 j)
  let ?i = "update_timing_offset (tk_offset tk) (st_inner s)"
  let ?n = "packet_samples_per (audio_format (si_config (st_inner s)))"
  let ?cap = "capacity_frames (si_buffer (st_inner s))"
  obtain d rest where d: "live_decoder (st_inner s) = Some d" "will_end (rx d) (eof d)" "RecvTimeout \<notin> set (rx d)"
      "unplayed rn (st_inner s) rest"
    and more: "si_state (st_inner s) = StBuffering \<longrightarrow> ?cap < 10 * (length rest div ?n) \<or>
        frames (si_buffer (st_inner s)) = [] \<and> eof d"
    using assms(5) by (auto simp: flowing_def)
  have n: "0 < ?n" using assms(1) by (simp add: delivering_def Let_def)
  have cap: "0 < ?cap" using assms(3) by (simp add: at_turn_def)
  have i: "live_decoder ?i = Some d" "si_buffer ?i = si_buffer (st_inner s)" "si_config ?i = si_config (st_inner s)"
    using d(1) by (simp_all add: update_timing_offset_def split: option.split)
  have ui: "unplayed rn ?i rest" using d(4) i d(1) by (simp add: unplayed_def)
  obtain d' where d': "live_decoder j = Some d'" "will_end (rx d') (eof d')"
      "capacity_frames (si_buffer j) = ?cap" "si_config j = si_config (st_inner s)"
    using refill_progress [OF 1(1) i(1) d(2) ui] i n cap by auto
  have gaps: "RecvTimeout \<notin> set (rx d')" using refill_gaps [OF 1(1) i(1) d(3) d'(1)] .
  have uj: "unplayed rn j rest" using refill_unplayed [OF 1(1) ui] i n by simp
  from 1(2) show ?thesis
  proof (elim disjE exE conjE)
    fix fr frs
    assume fr: "frames (si_buffer j) = fr # frs" and s': "leaves j StStreaming frs s'"
    with leaves_unplayed(2) [OF uj s' fr] d' gaps show ?thesis by (auto simp: flowing_def leaves_fields)
  next
    assume none: "frames (si_buffer j) = []" and s': "leaves j StBuffering [] s'"
    have "eof d'" using refill_dries [OF 1(1) i(1) d(2,3) ui _ none d'(1)] i n cap by simp
    with leaves_unplayed(1) [OF uj s'] none s' d' gaps show ?thesis by (auto simp: flowing_def leaves_fields)
  next
    assume st: "si_state (st_inner s) = StBuffering" and s': "leaves j StBuffering (frames (si_buffer j)) s'"
      and wait: "\<not> (frames (si_buffer j) = [] \<and> (\<exists>d. live_decoder j = Some d \<and> is_eof d))"
    have "\<not> (frames (si_buffer (st_inner s)) = [] \<and> eof d)"
    proof
      assume "frames (si_buffer (st_inner s)) = [] \<and> eof d"
      with refill_eof [OF 1(1) i(1) _ ui] i n have "frames (si_buffer j) = [] \<and> eof d'" using d'(1) by auto
      with wait unplayed_eof [OF uj d'(1)] d'(1) show False by blast
    qed
    with more st have "?cap < 10 * (length rest div ?n)" by blast
    with leaves_unplayed(1) [OF uj s'] s' d' gaps show ?thesis by (auto simp: flowing_def leaves_fields)
  qed (simp add: ended_def)
qed

lemma flows_on:
  assumes "kept (delivering rn dec rcvs src) ps s" and "tk_thread_alive tk"
    and "ended s \<or> at_turn s \<and> flowing rn (st_inner s)" and "run_io (streamer_step rn) s (turns n tk) = (outs, s')"
  shows "ended s' \<or> at_turn s' \<and> flowing rn (st_inner s')"
  using assms(1,3,4)
proof (induction n arbitrary: ps s outs)
  case 0
  then show ?case by (auto simp: turns_def)
next
  case (Suc n)
  obtain o1 s1 where one: "run_io (streamer_step rn) s [Tick tk True True, Tick tk True True] = (o1, s1)"
    by (cases "run_io (streamer_step rn) s [Tick tk True True, Tick tk True True]")
  obtain o2 where two: "run_io (streamer_step rn) s1 (turns n tk) = (o2, s')"
    using Suc.prems(3) unfolding turns_Suc run_io_append one by (auto split: prod.splits)
  have "ended s1 \<or> at_turn s1 \<and> flowing rn (st_inner s1)"
    using Suc.prems(2)
  proof (elim disjE conjE)
    assume e: "ended s"
    then have "s1 = s" using one by (simp add: ended_def task_step_def)
    with e show ?thesis by simp
  next
    assume turn: "at_turn s" and flow: "flowing rn (st_inner s)"
    then have "loop_running s" by (simp add: at_turn_def)
    with kept_running [OF Suc.prems(1)] flowing_turn [OF _ _ turn assms(2) flow one] show ?thesis by blast
  qed
  from Suc.IH [OF ear.run_kept [OF Suc.prems(1) one] this two] show ?case .
qed

section \<open>A started stream\<close>

lemma start_live_begins:
  assumes "start_live codec_new d now s = (Inr (), s')" and "\<not> st_task s"
    and "4 \<le> capacity_frames (si_buffer (st_inner s))"
  shows "at_turn s' \<and> si_state (st_inner s') = StBuffering \<and> live_decoder (st_inner s') = Some d \<and>
    si_buffer (st_inner s') = si_buffer (st_inner s) \<and> si_config (st_inner s') = si_config (st_inner s)"
  using assms by (auto simp: start_live_def on_inner_def at_turn_def Let_def split: sum.splits)

text \<open>Enough turns for a source: one for every receive, every packet and every place of the buffer in
  between.\<close>

definition turns_to_end :: "stream_config \<Rightarrow> live_decoder \<Rightarrow> i16 list \<Rightarrow> nat" where
  "turns_to_end cfg d src =
     (length (rx d) + length src div packet_samples_per (audio_format cfg) + 1) * (buffer_capacity cfg + 2)"

lemma stream_completes:
  assumes "kept (delivering rn dec rcvs src) [] s" and "at_turn s" and "si_state (st_inner s) = StBuffering"
    and "live_decoder (st_inner s) = Some d" and "frames (si_buffer (st_inner s)) = []"
    and "capacity_frames (si_buffer (st_inner s)) = buffer_capacity cfg" and "si_config (st_inner s) = cfg"
    and "comes_to rn (audio_format cfg) d src" and "will_end (rx d) (eof d)" and "tk_thread_alive tk"
    and "turns_to_end cfg d src \<le> n" and "run_io (streamer_step rn) s (turns n tk) = (outs, s')" and "k < length rcvs"
  shows "let n = packet_samples_per (audio_format cfg);
      sound = heard (open_packet (fst (rcvs ! k)) (snd (rcvs ! k))) dec (sent_to k (packets outs)) in
    ended s' \<and> sound = Some (pcm (take (length src - length src mod n) src)) \<or>
    stuck s' \<and> (\<exists>played rest. src = played @ rest \<and> sound = Some (pcm played) \<and>
      10 * length rest < (buffer_capacity cfg + 10) * n)"
    and "RecvTimeout \<notin> set (rx d) \<Longrightarrow>
      buffer_capacity cfg < 10 * (length src div packet_samples_per (audio_format cfg)) \<Longrightarrow> ended s'"
    and "ended s' \<Longrightarrow> length (packets outs) = length src div packet_samples_per (audio_format cfg)"
proof -
  let ?n = "packet_samples_per (audio_format cfg)"
  have u: "unplayed rn (st_inner s) src" using assms(4,5,7,8) by (simp add: unplayed_def)
  have "work rn ((length (rx d) + length src div ?n) * (buffer_capacity cfg + 2) + buffer_capacity cfg) (st_inner s)"
    unfolding work_def by (intro exI [of _ d] exI [of _ src] conjI) (use assms(3-7,9) u in simp_all)
  moreover have "(length (rx d) + length src div ?n) * (buffer_capacity cfg + 2) + buffer_capacity cfg < n"
    using assms(11) by (simp add: turns_to_end_def)
  ultimately have final: "ended s' \<or> stuck s'" using settles [OF assms(1,10) _ assms(12)] assms(2) by blast
  note kept = ear.run_kept [OF assms(1,12), simplified]
  have inv: "delivering rn dec rcvs src (packets outs) (st_inner s')"
    using final kept_running [OF kept] kept_stopped [OF kept] by (auto simp: ended_def stuck_def at_turn_def)
  show "ended s'" if "RecvTimeout \<notin> set (rx d)" "buffer_capacity cfg < 10 * (length src div ?n)"
  proof -
    have "flowing rn (st_inner s)" using u assms(4,6,7,9) that by (auto simp: flowing_def)
    with flows_on [OF assms(1,10) _ assms(12)] assms(2) have "ended s' \<or> flowing rn (st_inner s')" by blast
    with final flowing_not_stuck inv show ?thesis by (auto simp: delivering_def Let_def)
  qed
  have "kept (shape cfg (buffer_capacity cfg)) [] s"
    using assms(1,3,6,7) by (simp add: kept_def shape_def)
  from form.run_kept [OF this assms(12)] final
  have cfg: "si_config (st_inner s') = cfg" "capacity_frames (si_buffer (st_inner s')) = buffer_capacity cfg"
    by (auto simp: kept_def shape_def ended_def stuck_def at_turn_def)
  have drained: "drained (st_inner s')" if "ended s'" using that kept_stopped [OF kept] by (simp add: ended_def)
  then show "length (packets outs) = length src div ?n" if "ended s'"
    using that drained_heard [OF inv _ assms(13)] cfg(1) by simp
  obtain played rest where p: "src = played @ rest" "unplayed rn (st_inner s') rest"
      "heard (open_packet (fst (rcvs ! k)) (snd (rcvs ! k))) dec (sent_to k (packets outs)) = Some (pcm played)"
    using delivering_heard [OF inv assms(13)] by blast
  have wp: "whole_packets (st_inner s')" using inv by (simp add: delivering_def Let_def)
  let ?sound = "heard (open_packet (fst (rcvs ! k)) (snd (rcvs ! k))) dec (sent_to k (packets outs))"
  have "ended s' \<and> ?sound = Some (pcm (take (length src - length src mod ?n) src)) \<or>
    stuck s' \<and> (\<exists>played rest. src = played @ rest \<and> ?sound = Some (pcm played) \<and>
      10 * length rest < (buffer_capacity cfg + 10) * ?n)"
    using final
  proof
    assume ended: "ended s'"
    with drained drained_heard [OF inv _ assms(13)] cfg(1) show ?thesis by simp
  next
    assume stuck: "stuck s'"
    then obtain d' where d': "live_decoder (st_inner s') = Some d'" "eof d'"
        "10 * length (frames (si_buffer (st_inner s'))) \<le> buffer_capacity cfg"
      using cfg(2) by (auto simp: stuck_def)
    have "10 * length rest < (10 * length (frames (si_buffer (st_inner s'))) + 10) * ?n"
      using unplayed_at_end(1) [OF p(2) d'(1,2) wp] cfg(1) by (simp add: algebra_simps)
    also have "\<dots> \<le> (buffer_capacity cfg + 10) * ?n" using d'(3) by (intro mult_le_mono1) simp
    finally show ?thesis using p(1,3) stuck by blast
  qed
  then show "let n = packet_samples_per (audio_format cfg);
      sound = heard (open_packet (fst (rcvs ! k)) (snd (rcvs ! k))) dec (sent_to k (packets outs)) in
    ended s' \<and> sound = Some (pcm (take (length src - length src mod n) src)) \<or>
    stuck s' \<and> (\<exists>played rest. src = played @ rest \<and> sound = Some (pcm played) \<and>
      10 * length rest < (buffer_capacity cfg + 10) * n)"
    by (simp add: Let_def)
qed

text \<open>On a connection.\<close>

lemma connection_completes:
  assumes "start_streaming_live h d c = (Inr (), c')" and "cn_streamer c' = Some s"
    and "packable (audio_format (cn_config c))" and "lossless_codec dec (h_codec h) (audio_format (cn_config c))"
    and "aead_ok (h_aead h)" and "length (shk (cn_session c')) = 32"
    and "comes_to rn (audio_format (cn_config c)) d src" and "will_end (rx d) (eof d)"
    and "4 \<le> buffer_capacity (cn_config c)" and "tk_thread_alive tk"
    and "turns_to_end (cn_config c) d src \<le> n" and "run_io (streamer_step rn) s (turns n tk) = (outs, s')"
  shows "let n = packet_samples_per (audio_format (cn_config c));
      sound = heard (open_packet (h_aead h) (shk (cn_session c'))) dec (sent_to 0 (packets outs)) in
    ended s' \<and> sound = Some (pcm (take (length src - length src mod n) src)) \<or>
    stuck s' \<and> (\<exists>played rest. src = played @ rest \<and> sound = Some (pcm played) \<and>
      10 * length rest < (buffer_capacity (cn_config c) + 10) * n)"
    and "RecvTimeout \<notin> set (rx d) \<Longrightarrow>
      buffer_capacity (cn_config c) < 10 * (length src div packet_samples_per (audio_format (cn_config c))) \<Longrightarrow> ended s'"
    and "ended s' \<Longrightarrow> length (packets outs) = length src div packet_samples_per (audio_format (cn_config c))"
proof -
  obtain c1 r where st: "same_config c c1" "start_live (h_codec h) d (h_now h) (configured_streamer c1 r) = (Inr (), s)"
    by (rule start_streaming_steps [OF assms(1)]) (use assms(2) in auto)
  have cfg: "cn_config c1 = cn_config c" using st(1) by (simp add: same_config_def)
  have "4 \<le> capacity_frames (si_buffer (st_inner (configured_streamer c1 r)))"
    using assms(9) cfg by (simp add: configured_streamer_simps buffer_capacity_def)
  note begins = start_live_begins [OF st(2) _ this]
  have s: "at_turn s" "si_state (st_inner s) = StBuffering" "live_decoder (st_inner s) = Some d"
      "frames (si_buffer (st_inner s)) = []" "capacity_frames (si_buffer (st_inner s)) = buffer_capacity (cn_config c)"
      "si_config (st_inner s) = cn_config c"
    using begins cfg by (simp_all add: configured_streamer_simps buffer_capacity_def new_buffer_empty)
  note complete = stream_completes [OF started_connection_delivering [OF assms(1-7)] s assms(7,8,10-12), of 0]
  from complete show "let n = packet_samples_per (audio_format (cn_config c));
      sound = heard (open_packet (h_aead h) (shk (cn_session c'))) dec (sent_to 0 (packets outs)) in
    ended s' \<and> sound = Some (pcm (take (length src - length src mod n) src)) \<or>
    stuck s' \<and> (\<exists>played rest. src = played @ rest \<and> sound = Some (pcm played) \<and>
      10 * length rest < (buffer_capacity (cn_config c) + 10) * n)"
    and "RecvTimeout \<notin> set (rx d) \<Longrightarrow>
      buffer_capacity (cn_config c) < 10 * (length src div packet_samples_per (audio_format (cn_config c))) \<Longrightarrow> ended s'"
    and "ended s' \<Longrightarrow> length (packets outs) = length src div packet_samples_per (audio_format (cn_config c))"
    by simp_all
qed

section \<open>Claims\<close>

text \<open>C7: a source that ends is heard to its end. A connection that streams a source which ends, whatever
  gaps there are between its frames, is through with it after a number of turns that the source and the
  buffer bound: either the task has ended by itself and the receiver has heard, bit for bit, all but a
  tail shorter than a packet; or the source ended while the buffer was filling, and the last tenth of
  the buffer at most is not heard. A source without gaps that fills more than a tenth of the buffer
  always ends the first way.\<close>

theorem finished_source_is_heard:
  assumes "start_streaming_live h d c = (Inr (), c')" and "cn_streamer c' = Some s"
    and "packable (audio_format (cn_config c))" and "lossless_codec dec (h_codec h) (audio_format (cn_config c))"
    and "aead_ok (h_aead h)" and "length (shk (cn_session c')) = 32"
    and "comes_to rn (audio_format (cn_config c)) d src" and "will_end (rx d) (eof d)"
    and "4 \<le> buffer_capacity (cn_config c)" and "tk_thread_alive tk"
    and "turns_to_end (cn_config c) d src \<le> n" and "run_io (streamer_step rn) s (turns n tk) = (outs, s')"
  shows "(let n = packet_samples_per (audio_format (cn_config c));
      sound = heard (open_packet (h_aead h) (shk (cn_session c'))) dec (sent_to 0 (packets outs)) in
    ended s' \<and> sound = Some (pcm (take (length src - length src mod n) src)) \<or>
    stuck s' \<and> (\<exists>played rest. src = played @ rest \<and> sound = Some (pcm played) \<and>
      10 * length rest < (buffer_capacity (cn_config c) + 10) * n)) \<and>
    (RecvTimeout \<notin> set (rx d) \<and>
      buffer_capacity (cn_config c) < 10 * (length src div packet_samples_per (audio_format (cn_config c))) \<longrightarrow> ended s')"
  using connection_completes [OF assms] by blast

definition sample_finite :: live_decoder where
  "sample_finite = live_decoder_new
     [Got \<lparr>pcm_samples = replicate 70400 1, pcm_channels = 2, pcm_sample_rate = 44100\<rparr>, RecvDisconnected] 44100 2"

lemma sample_finite_facts:
  "comes_to rn (audio_format default_config) sample_finite (replicate 70400 1)"
  "will_end (rx sample_finite) (eof sample_finite)" "RecvTimeout \<notin> set (rx sample_finite)"
  using sample_config_facts
  by (simp_all add: comes_to_def sample_finite_def live_decoder_new_def frames_sane_def one_end_def will_end_def
      to_come_same_rate protocol_defs)

text \<open>A hundred packets are heard in full.\<close>

theorem finished_source_is_heard_witness:
  "\<exists>c' s outs s'. start_streaming_live sample_host sample_finite sample_connection = (Inr (), c') \<and> cn_streamer c' = Some s \<and>
    run_io (streamer_step (\<lambda>_ _ _. Inl Panic)) s (turns 26000 sample_tick) = (outs, s') \<and> ended s' \<and>
    heard (open_packet (h_aead sample_host) (shk (cn_session c'))) (\<lambda>b. b) (sent_to 0 (packets outs)) =
      Some (pcm (replicate 70400 1))"
proof -
  let ?rn = "\<lambda>_ _ _. Inl Panic"
  obtain c' where 1: "start_streaming_live sample_host sample_finite sample_connection = (Inr (), c')"
    and key: "length (shk (cn_session c')) = 32"
    using sample_start by blast
  obtain s where 2: "cn_streamer c' = Some s"
    by (rule start_streaming_steps [OF 1]) blast
  obtain outs s' where run: "run_io (streamer_step ?rn) s (turns 26000 sample_tick) = (outs, s')"
    by (cases "run_io (streamer_step ?rn) s (turns 26000 sample_tick)")
  have n: "packet_samples_per (audio_format default_config) = 704"
    using sample_config_facts by (simp add: packet_samples_per_def)
  have turns: "turns_to_end default_config sample_finite (replicate 70400 1) \<le> 26000"
    by (simp add: turns_to_end_def n sample_config_facts(4) sample_finite_def live_decoder_new_def)
  have cfg: "cn_config sample_connection = default_config" "4 \<le> buffer_capacity default_config"
    using sample_config_facts by simp_all
  have aead: "aead_ok (h_aead sample_host)" "tk_thread_alive sample_tick"
    by (simp_all add: sample_host_def plain_aead_ok sample_tick_def)
  from finished_source_is_heard [OF 1 2, unfolded cfg(1), OF sample_packable sample_lossless aead(1) key
      sample_finite_facts(1,2) cfg(2) aead(2) turns run]
  have "ended s'" and "ended s' \<or> stuck s' \<Longrightarrow> \<not> stuck s' \<Longrightarrow>
      heard (open_packet (h_aead sample_host) (shk (cn_session c'))) (\<lambda>b. b) (sent_to 0 (packets outs)) =
      Some (pcm (replicate 70400 1))"
    using sample_finite_facts(3) by (auto simp: n sample_config_facts(4) Let_def)
  moreover from \<open>ended s'\<close> have "\<not> stuck s'" by (simp add: ended_def stuck_def at_turn_def)
  ultimately have "ended s' \<and> heard (open_packet (h_aead sample_host) (shk (cn_session c'))) (\<lambda>b. b)
      (sent_to 0 (packets outs)) = Some (pcm (replicate 70400 1))" by blast
  with 1 2 run show ?thesis by blast
qed

end
