(* ===== verification/Nonces.thy ===== *)
theory Nonces
  imports Completion Retransmission
begin

text \<open>
  Key and nonce of every audio packet of a stream (\<open>src/crypto/chacha.rs\<close>, \<open>src/audio/cipher.rs\<close>,
  \<open>src/audio/rtp/sender.rs\<close>, \<open>src/audio/streamer.rs\<close>). ChaCha20-Poly1305 needs a fresh nonce for each
  message under a key. The theory adds no definition of the code.
\<close>

section \<open>The nonce of a packet\<close>

text \<open>The last eight bytes of a packet are the nonce; a receiver puts four zeros before them.\<close>

definition wire_nonce :: "bytes \<Rightarrow> bytes" where
  "wire_nonce w = replicate 4 0 @ drop (length w - 8) w"

text \<open>\<open>w\<close> is a packet whose body is some payload sealed with this key and its own nonce, the time stamp and
  the source of its header being the associated data.\<close>

definition sealed_with :: "aead \<Rightarrow> bytes \<Rightarrow> bytes \<Rightarrow> bool" where
  "sealed_with a key w \<longleftrightarrow> wire_nonce w = audio_nonce (wire_seq w) \<and>
     (\<exists>payload. seal a key (wire_nonce w) (slice w 4 12) payload = Some (slice w 12 (length w - 8)))"

lemma serialized_sealed:
  assumes "serialize_audio pt ts payload mk r = (Inr w, r')" and "rtp_cipher r = Some (chacha_encrypt_payload a key)"
  shows "sealed_with a key w"
proof -
  let ?h = "with_marker mk (rtp_header_new pt (rtp_sequence r) ts (rtp_ssrc r))"
  obtain ct where ct: "seal a key (audio_nonce (rtp_sequence r)) (build_aad ts (rtp_ssrc r)) payload = Some ct" "16 \<le> length ct"
    and w: "w = rtp_header_serialize ?h @ ct @ to_le (rtp_sequence r) @ replicate 6 0"
    using assms
    by (auto simp: serialize_audio_def audio_wire_def chacha_encrypt_payload_def encrypt_with_seq_def opt_bytes_def
        slice_audio_nonce Let_def and_then_eq_Inr split: sum.splits option.splits if_splits fault.splits)
  have len: "length w = length ct + 20" by (simp add: w)
  have "wire_nonce w = audio_nonce (rtp_sequence r)" "slice w 12 (length w - 8) = ct"
    by (simp_all add: wire_nonce_def len slice_def) (simp_all add: w audio_nonce_layout)
  moreover have "wire_seq w = rtp_sequence r" by (simp add: w with_marker_def rtp_header_new_def)
  moreover have "slice w 4 12 = build_aad ts (rtp_ssrc r)"
    by (simp add: w rtp_header_layout codec_simps with_marker_def rtp_header_new_def build_aad_layout)
      (simp add: slice_def)
  ultimately show ?thesis using ct(1) by (auto simp: sealed_with_def)
qed

section \<open>Every packet of a stream\<close>

definition keyed :: "aead \<times> bytes \<Rightarrow> rtp_sender \<Rightarrow> bool" where
  "keyed rc r \<longleftrightarrow> rtp_cipher r = Some (chacha_encrypt_payload (fst rc) (snd rc))"

definition all_sealed :: "(aead \<times> bytes) list \<Rightarrow> (bytes list \<times> bytes option) list \<Rightarrow> bool" where
  "all_sealed rcvs ps \<longleftrightarrow> (\<forall>p \<in> set ps. length (fst p) = length rcvs \<and>
     (\<forall>k < length rcvs. sealed_with (fst (rcvs ! k)) (snd (rcvs ! k)) (fst p ! k)))"

definition sealing :: "(aead \<times> bytes) list \<Rightarrow> (bytes list \<times> bytes option) list \<Rightarrow> streamer_inner \<Rightarrow> bool" where
  "sealing rcvs ps i \<longleftrightarrow> list_all2 keyed rcvs (rtp_senders i) \<and> all_sealed rcvs ps"

lemma keyed_alike:
  assumes "map rtp_cipher rs' = map rtp_cipher rs"
  shows "list_all2 keyed rcvs rs' = list_all2 keyed rcvs rs"
proof -
  have "list_all2 keyed rcvs rs = list_all2 (\<lambda>rc c. c = Some (chacha_encrypt_payload (fst rc) (snd rc))) rcvs (map rtp_cipher rs)" for rs
    unfolding list_all2_map2 keyed_def ..
  with assms show ?thesis by simp
qed

lemma prepare_all_sealed:
  assumes "prepare_all pt ts payload mk rs = (Inr ws, rs')" and "list_all2 keyed rcvs rs" and "all_sealed rcvs ps"
  shows "list_all2 keyed rcvs rs' \<and> all_sealed rcvs (ps @ [(ws, sd)])"
proof -
  have each: "length rs' = length rs" "\<forall>i < length rs. serialize_audio pt ts payload mk (rs ! i) = (Inr (ws ! i), rs' ! i)"
    using prepare_all_each [OF assms(1)] by blast+
  have len: "length rcvs = length rs" using assms(2) by (rule list_all2_lengthD)
  have "map rtp_cipher rs' = map rtp_cipher rs"
    using each serialize_audio_cipher by (intro nth_equalityI) auto
  with assms(2) keyed_alike have "list_all2 keyed rcvs rs'" by blast
  moreover have "sealed_with (fst (rcvs ! k)) (snd (rcvs ! k)) (ws ! k)" if "k < length rcvs" for k
    using serialized_sealed [of pt ts payload mk "rs ! k" "ws ! k" "rs' ! k"] each(2) assms(2) that len
    by (auto simp: list_all2_conv_all_nth keyed_def)
  moreover have "length ws = length rcvs"
    using prepare_all_fields [OF assms(1)] len by (auto simp: packet_for_def dest: list_all2_lengthD)
  ultimately show ?thesis using assms(3) by (simp add: all_sealed_def)
qed

lemma sealing_cong: "rtp_senders j = rtp_senders i \<Longrightarrow> sealing rcvs ps j = sealing rcvs ps i"
  by (simp add: sealing_def)

interpretation wrap: stream_log rn "sealing rcvs" for rn rcvs
proof (unfold_locales, goal_cases)
  case (1 ps i u)
  then show ?case by (subst sealing_cong [of _ i]) (auto simp: update_timing_offset_def split: option.split)
next
  case (2 ps i st)
  then show ?case by (subst sealing_cong [of _ i]) simp_all
next
  case (3 ps i j)
  then show ?case using refill_senders by (subst sealing_cong [of _ i]) auto
next
  case (4 ps s)
  have "map rtp_cipher (rtp_senders (st_inner (reset_after_flush s))) = map rtp_cipher (rtp_senders (st_inner s))"
    by (simp add: reset_after_flush_def on_inner_def reset_sync_state_def)
  from 4 keyed_alike [OF this, of rcvs] show ?case by (simp add: sealing_def)
next
  case (5 s ps tk outs e s')
  from 5(1,3,4) show ?case
  proof (cases rule: send_next_frame_pops)
    case underrun
    with 5(2) sealing_cong [of "st_inner s'" "st_inner s"] show ?thesis by simp
  next
    case (frame fr frs b enc p enc')
    let ?s = "s\<lparr>st_inner := (st_inner s)\<lparr>si_buffer := b, si_encoder := Some enc'\<rparr>\<rparr>"
    have tx: "st_sender_tx ?s" using 5(1) by simp
    from tx frame(5) 5(4) show ?thesis
    proof (cases rule: send_packet_prepares)
      case nobody
      with 5(1,2) sealing_cong [of "st_inner s'" "st_inner s"] show ?thesis by simp
    next
      case (out pt ts ws sd rs rs')
      have "map rtp_cipher rs = map rtp_cipher (rtp_senders (st_inner s))" using aside_ciphers [OF out(1)] by simp
      from 5(2) keyed_alike [OF this, of rcvs] have "list_all2 keyed rcvs rs" "all_sealed rcvs ps"
        by (simp_all add: sealing_def)
      from prepare_all_sealed [OF out(2) this] out show ?thesis by (simp add: sealing_def)
    qed
  qed
qed


section \<open>Started streams\<close>

text \<open>Whatever a started connection streams is sealed under the key of its session.\<close>

lemma connection_stream_sealed:
  assumes "start_streaming_live h d c = (Inr (), c')" and "cn_streamer c' = Some s"
    and "run_io (streamer_step rn) s evs = (outs, s')"
  shows "all_sealed [(h_aead h, shk (cn_session c'))] (packets outs)"
proof -
  obtain c1 r where st: "same_config c c1" "build_rtp_sender h c1 = Inr r"
      "start_live (h_codec h) d (h_now h) (configured_streamer c1 r) = (Inr (), s)"
      "shk (cn_session c') = shk (cn_session c1)"
    by (rule start_streaming_steps [OF assms(1)]) (use assms(2) in auto)
  have "keyed (h_aead h, shk (cn_session c')) r" using build_rtp_sender_fields [OF st(2)] st(4) by (auto simp: keyed_def)
  moreover have "rtp_senders (st_inner s) = [r]" "st_sender_tx s \<and> si_state (st_inner s) \<noteq> StStopped"
    using st(3) build_rtp_sender_fields [OF st(2)]
    by (auto simp: start_live_def on_inner_def configured_streamer_simps send_targets_def Let_def split: sum.splits if_splits)
  ultimately have "kept (sealing [(h_aead h, shk (cn_session c'))]) [] s"
    by (simp add: kept_def sealing_def all_sealed_def)
  from wrap.run_logged [where L = "all_sealed [(h_aead h, shk (cn_session c'))]", OF _ this _ assms(3)] show ?thesis
    by (auto simp: sealing_def all_sealed_def)
qed

text \<open>And whatever a group streams, for each device under the key of its session.\<close>

definition group_keys :: "(nat \<Rightarrow> host) \<Rightarrow> connection list \<Rightarrow> (aead \<times> bytes) list" where
  "group_keys hs cs = map (\<lambda>(i, c). (h_aead (hs i), shk (cn_session c))) (enumerate 0 cs)"

lemma members_keyed:
  "member_senders hs j cs = Inr rs \<Longrightarrow>
   list_all2 keyed (map (\<lambda>(i, c). (h_aead (hs i), shk (cn_session c))) (enumerate j cs)) rs"
proof (induction cs arbitrary: j rs)
  case (Cons c cs)
  obtain r qs where r: "build_rtp_sender (hs j) c = Inr r" "member_senders hs (Suc j) cs = Inr qs" "rs = r # qs"
    using Cons.prems by (auto simp: and_then_eq_Inr map_sum_eq_Inr)
  have "keyed (h_aead (hs j), shk (cn_session c)) r" using build_rtp_sender_fields [OF r(1)] by (auto simp: keyed_def)
  with Cons.IH [OF r(2)] r(3) show ?case by simp
qed simp

lemma group_stream_sealed:
  assumes "group_start_live_streaming hs cfg delay d gp = (Inr (), gp')" and "gs_streamer (fst gp') = Some s"
    and "run_io (streamer_step rn) s evs = (outs, s')"
  shows "all_sealed (group_keys hs (snd gp' # gs_connections (fst gp'))) (packets outs)"
    and "list_all2 sender_of (snd gp' # gs_connections (fst gp')) (rtp_senders (st_inner s))"
proof -
  obtain senders clock_id where st:
    "member_senders hs 0 (snd gp' # gs_connections (fst gp')) = Inr senders"
    "start_live (h_codec (hs 0)) d (h_now (hs 0)) (group_streamer cfg delay clock_id (snd gp') senders) = (Inr (), s)"
    by (rule group_start_steps [OF assms(1)]) (use assms(2) in auto)
  note all = member_senders_all [OF st(1)]
  have bound: "senders \<noteq> [] \<and> (\<forall>r \<in> set senders. rtp_socket r)"
    using all by (auto simp: list_all2_conv_all_nth in_set_conv_nth sender_of_def)
  then have s: "rtp_senders (st_inner s) = senders" "st_sender_tx s" "si_state (st_inner s) \<noteq> StStopped"
    using start_live_senders [OF st(2)] by (auto simp: group_streamer_simps)
  with all show "list_all2 sender_of (snd gp' # gs_connections (fst gp')) (rtp_senders (st_inner s))" by simp
  have "kept (sealing (group_keys hs (snd gp' # gs_connections (fst gp')))) [] s"
    using members_keyed [OF st(1)] s by (simp add: kept_def sealing_def all_sealed_def group_keys_def)
  from wrap.run_logged [where L = "all_sealed (group_keys hs (snd gp' # gs_connections (fst gp')))", OF _ this _ assms(3)]
  show "all_sealed (group_keys hs (snd gp' # gs_connections (fst gp'))) (packets outs)"
    by (auto simp: sealing_def all_sealed_def)
qed

lemma sealed_nonces:
  "sealed_with a key w \<Longrightarrow> sealed_with a key v \<Longrightarrow> wire_nonce w = wire_nonce v \<longleftrightarrow> wire_seq w = wire_seq v"
  by (simp add: sealed_with_def audio_nonce_inject)

text \<open>Two packets of a stream, and whether they share their nonce.\<close>

lemma stream_nonces:
  assumes "start_streaming_live h d c = (Inr (), c')" and "cn_streamer c' = Some s"
    and "channels (audio_format (cn_config c)) \<noteq> 0"
    and "\<forall>rate n ch. codec_fits (unat n * unat (channels (audio_format (cn_config c))) * 2 + 256) (h_codec h rate n ch)"
    and "ResetAfterFlush \<notin> set evs" and "run_io (streamer_step rn) s evs = (outs, s')"
    and "j < length (packets outs)" and "k < length (packets outs)"
  shows "\<exists>w v. fst (packets outs ! j) = [w] \<and> fst (packets outs ! k) = [v] \<and>
    sealed_with (h_aead h) (shk (cn_session c')) w \<and> sealed_with (h_aead h) (shk (cn_session c')) v \<and>
    (wire_nonce w = wire_nonce v \<longleftrightarrow> j mod 65536 = k mod 65536)"
proof -
  have one: "\<exists>w. fst (packets outs ! i) = [w] \<and> wire_seq w = word_of_nat i \<and>
      sealed_with (h_aead h) (shk (cn_session c')) w" if i: "i < length (packets outs)" for i
  proof -
    obtain w where w: "fst (packets outs ! i) = [w]" "wire_seq w = word_of_nat i"
      using started_stream_log [OF assms(1-5), of i rn, unfolded assms(6) fst_conv, OF i] by blast
    moreover have "sealed_with (h_aead h) (shk (cn_session c')) (fst (packets outs ! i) ! 0)"
      using connection_stream_sealed [OF assms(1,2,6)] i by (simp add: all_sealed_def)
    ultimately show ?thesis by auto
  qed
  obtain w v where "fst (packets outs ! j) = [w]" "fst (packets outs ! k) = [v]" "wire_seq w = word_of_nat j"
      "wire_seq v = word_of_nat k" and sealed: "sealed_with (h_aead h) (shk (cn_session c')) w"
      "sealed_with (h_aead h) (shk (cn_session c')) v"
    using one assms(7,8) by blast
  moreover from this have "wire_nonce w = wire_nonce v \<longleftrightarrow> j mod 65536 = k mod 65536"
    using sealed_nonces [OF sealed] by (simp add: word_of_nat_eq_iff take_bit_eq_mod)
  ultimately show ?thesis by blast
qed

lemma turns_no_reset: "ResetAfterFlush \<notin> set (turns n tk)"
  by (auto simp: turns_def)

section \<open>Claims\<close>



text \<open>C10: and every long stream uses nonces twice. A connection that streams a source of 65537 packets or more
  without gaps has, when it is through with it, sent two packets sealed under the same key with the same
  nonce.\<close>

theorem long_streams_reuse_nonces:
  assumes "start_streaming_live h d c = (Inr (), c')" and "cn_streamer c' = Some s"
    and "packable (audio_format (cn_config c))" and "lossless_codec dec (h_codec h) (audio_format (cn_config c))"
    and "aead_ok (h_aead h)" and "length (shk (cn_session c')) = 32"
    and "comes_to rn (audio_format (cn_config c)) d src" and "will_end (rx d) (eof d)"
    and "4 \<le> buffer_capacity (cn_config c)" and "tk_thread_alive tk"
    and "turns_to_end (cn_config c) d src \<le> n" and "run_io (streamer_step rn) s (turns n tk) = (outs, s')"
    and "\<forall>rate n ch. codec_fits (unat n * unat (channels (audio_format (cn_config c))) * 2 + 256) (h_codec h rate n ch)"
    and "RecvTimeout \<notin> set (rx d)" and "buffer_capacity (cn_config c) < 655370"
    and "65537 * packet_samples_per (audio_format (cn_config c)) \<le> length src"
  shows "\<exists>w v. fst (packets outs ! 0) = [w] \<and> fst (packets outs ! 65536) = [v] \<and> 65536 < length (packets outs) \<and>
    sealed_with (h_aead h) (shk (cn_session c')) w \<and> sealed_with (h_aead h) (shk (cn_session c')) v \<and>
    wire_nonce w = wire_nonce v"
proof -
  let ?n = "packet_samples_per (audio_format (cn_config c))"
  have pos: "0 < ?n" and ch: "channels (audio_format (cn_config c)) \<noteq> 0"
    using assms(3) by (simp_all add: packable_def packet_samples_per_def unat_gt_0)
  have many: "65537 \<le> length src div ?n" using assms(16) pos by (simp add: less_eq_div_iff_mult_less_eq)
  note complete = connection_completes [OF assms(1-12)]
  have "ended s'" using complete(2) assms(14,15) many by simp
  with complete(3) many have "0 < length (packets outs)" "65536 < length (packets outs)" by simp_all
  with stream_nonces [OF assms(1,2) ch assms(13) turns_no_reset assms(12) this] show ?thesis by simp
qed

definition sample_long :: live_decoder where
  "sample_long = live_decoder_new
     [Got \<lparr>pcm_samples = replicate 46138048 1, pcm_channels = 2, pcm_sample_rate = 44100\<rparr>, RecvDisconnected] 44100 2"

lemma sample_long_facts:
  "comes_to rn (audio_format default_config) sample_long (replicate 46138048 1)"
  "will_end (rx sample_long) (eof sample_long)" "RecvTimeout \<notin> set (rx sample_long)"
  using sample_config_facts
  by (simp_all add: comes_to_def sample_long_def live_decoder_new_def frames_sane_def one_end_def will_end_def
      to_come_same_rate protocol_defs)

theorem long_streams_reuse_nonces_witness:
  "\<exists>c' s n outs s' w v. start_streaming_live sample_host sample_long sample_connection = (Inr (), c') \<and>
    cn_streamer c' = Some s \<and> run_io (streamer_step (\<lambda>_ _ _. Inl Panic)) s (turns n sample_tick) = (outs, s') \<and>
    fst (packets outs ! 0) = [w] \<and> fst (packets outs ! 65536) = [v] \<and>
    sealed_with (h_aead sample_host) (shk (cn_session c')) v \<and> wire_nonce w = wire_nonce v"
proof -
  let ?rn = "\<lambda>_ _ _. Inl Panic" and ?n = "turns_to_end default_config sample_long (replicate 46138048 1)"
  obtain c' where 1: "start_streaming_live sample_host sample_long sample_connection = (Inr (), c')"
    and key: "length (shk (cn_session c')) = 32"
    using sample_start by blast
  obtain s where 2: "cn_streamer c' = Some s"
    by (rule start_streaming_steps [OF 1]) blast
  obtain outs s' where run: "run_io (streamer_step ?rn) s (turns ?n sample_tick) = (outs, s')"
    by (cases "run_io (streamer_step ?rn) s (turns ?n sample_tick)")
  have n: "packet_samples_per (audio_format default_config) = 704"
    using sample_config_facts by (simp add: packet_samples_per_def)
  have cfg: "cn_config sample_connection = default_config" "4 \<le> buffer_capacity default_config"
      "buffer_capacity default_config < 655370"
      "65537 * packet_samples_per (audio_format default_config) \<le> length (replicate 46138048 (1 :: i16))"
    using sample_config_facts n by simp_all
  have aead: "aead_ok (h_aead sample_host)" "tk_thread_alive sample_tick"
    by (simp_all add: sample_host_def plain_aead_ok sample_tick_def)
  have fits: "\<forall>rate n ch. codec_fits (unat n * unat (channels (audio_format default_config)) * 2 + 256)
      (h_codec sample_host rate n ch)" by (simp add: sample_host_def copy_codec_fits)
  from long_streams_reuse_nonces [OF 1 2, unfolded cfg(1), OF sample_packable sample_lossless aead(1) key
      sample_long_facts(1,2) cfg(2) aead(2) order_refl run fits sample_long_facts(3) cfg(3,4)]
  show ?thesis using 1 2 run by blast
qed

end
