(* ===== verification/Send_Targets.thy ===== *)
theory Send_Targets
  imports Nonces
begin

text \<open>
  How the sender thread gets its sockets (\<open>clone_data_socket\<close> and \<open>clone_control_socket\<close> of
  \<open>src/audio/rtp/sender.rs\<close>, \<open>AudioStreamer::start_live\<close> of \<open>src/audio/streamer.rs\<close>). Cloning a socket needs a
  file descriptor and may fail. \<open>send_targets\<close> of \<open>Streamer\<close> is the case that every clone succeeds; here is
  the general one. The thread finds the packet of a target by the target's place in the list.
\<close>

section \<open>Cloning\<close>

definition clone_data_socket :: "error + unit \<Rightarrow> rtp_sender \<Rightarrow> error + sock_addr option" where
  "clone_data_socket cloned r = (if rtp_socket r then map_sum id (\<lambda>_. Some (rtp_dest r)) cloned else Inr None)"

definition clone_control_socket :: "error + unit \<Rightarrow> rtp_sender \<Rightarrow> error + sock_addr option" where
  "clone_control_socket cloned r =
     (case control_dest r of
        Some d \<Rightarrow> (if control_socket r then map_sum id (\<lambda>_. Some d) cloned else Inr None)
      | None \<Rightarrow> Inr None)"

text \<open>The list of targets that \<open>start_live\<close> builds; \<open>data i\<close> and \<open>ctl i\<close> are what the operating system answers
  for the sender \<open>i\<close>.\<close>

fun cloned_targets ::
  "(nat \<Rightarrow> error + unit) \<Rightarrow> (nat \<Rightarrow> error + unit) \<Rightarrow> nat \<Rightarrow> rtp_sender list \<Rightarrow> send_target list" where
  "cloned_targets data ctl i [] = []"
| "cloned_targets data ctl i (r # rs) =
     (case clone_data_socket (data i) r of
        Inr (Some data_dest) \<Rightarrow>
          (let ctrl = (case clone_control_socket (ctl i) r of Inr c \<Rightarrow> c | Inl _ \<Rightarrow> None)
           in \<lparr>tg_data_dest = data_dest, tg_control_socket = (ctrl \<noteq> None), tg_control_dest = ctrl\<rparr> #
              cloned_targets data ctl (Suc i) rs)
      | _ \<Rightarrow> cloned_targets data ctl (Suc i) rs)"

lemma all_cloned: "cloned_targets (\<lambda>_. Inr ()) (\<lambda>_. Inr ()) i rs = send_targets rs"
  by (induction rs arbitrary: i)
    (auto simp: send_targets_def clone_data_socket_def clone_control_socket_def split: option.split)

lemma cloned_dests:
  "map tg_data_dest (cloned_targets data ctl i rs) =
    map (\<lambda>(j, r). rtp_dest r) (filter (\<lambda>(j, r). rtp_socket r \<and> (\<exists>u. data j = Inr u)) (enumerate i rs))"
proof (induction rs arbitrary: i)
  case (Cons r rs)
  then show ?case by (cases "data i") (simp_all add: clone_data_socket_def Let_def)
qed simp

section \<open>One clone fails\<close>

lemma enumerate_without:
  "k < length rs \<Longrightarrow> filter (\<lambda>(j, r). j \<noteq> i + k) (enumerate i rs) =
    enumerate i (take k rs) @ enumerate (i + Suc k) (drop (Suc k) rs)"
proof (induction rs arbitrary: i k)
  case (Cons r rs)
  show ?case
  proof (cases k)
    case 0
    have "\<forall>(j, x) \<in> set (enumerate (Suc i) rs). j \<noteq> i" by (auto simp: in_set_enumerate_eq)
    then have "filter (\<lambda>(j, x). j \<noteq> i) (enumerate (Suc i) rs) = enumerate (Suc i) rs" by (intro filter_True) auto
    with 0 show ?thesis by simp
  next
    case (Suc m)
    with Cons.IH [of m "Suc i"] Cons.prems show ?thesis by simp
  qed
qed simp

lemma dests_without:
  assumes "\<forall>r \<in> set rs. rtp_socket r" and "k < length rs" and "\<And>j. (\<exists>u. data j = Inr u) \<longleftrightarrow> j \<noteq> k"
  shows "map tg_data_dest (cloned_targets data ctl 0 rs) = map rtp_dest (take k rs @ drop (Suc k) rs)"
proof -
  have "filter (\<lambda>(j, r). rtp_socket r \<and> (\<exists>u. data j = Inr u)) (enumerate 0 rs) = filter (\<lambda>(j, r). j \<noteq> 0 + k) (enumerate 0 rs)"
    by (rule filter_cong) (use assms(1,3) in \<open>auto simp: in_set_enumerate_eq\<close>)
  also have "\<dots> = enumerate 0 (take k rs) @ enumerate (Suc k) (drop (Suc k) rs)"
    using enumerate_without [OF assms(2), of 0] by simp
  finally have "map tg_data_dest (cloned_targets data ctl 0 rs) =
      map (\<lambda>(j, r). rtp_dest r) (enumerate 0 (take k rs) @ enumerate (Suc k) (drop (Suc k) rs))"
    by (simp only: cloned_dests)
  moreover have "map (\<lambda>(j, r). rtp_dest r) (enumerate i xs) = map rtp_dest xs" for i and xs :: "rtp_sender list"
    by (induction xs arbitrary: i) simp_all
  ultimately show ?thesis by simp
qed

text \<open>What the thread sends for a packet, by destination.\<close>

lemma datagrams_by_dest:
  "length ts \<le> length ws \<Longrightarrow>
   audio_datagrams ts ws = map (\<lambda>i. SendTo (DataSocket i) (map tg_data_dest ts ! i) (ws ! i)) [0..<length ts]"
proof -
  assume len: "length ts \<le> length ws"
  have "filter (\<lambda>(i, t). i < length ws) (enumerate 0 ts) = enumerate 0 ts"
    using len by (intro filter_True) (auto simp: in_set_enumerate_eq)
  then show ?thesis
    by (auto simp: audio_datagrams_def intro!: nth_equalityI simp: nth_enumerate_eq simp del: enumerate_simps)
qed

section \<open>Claims\<close>

text \<open>C25: when cloning the data socket of one device of a group fails, the devices behind it get the packets
  of their predecessors. The thread's list of targets has one entry less, but every packet still comes as
  one datagram for each device: from the lost one on, the datagram sealed for device \<open>i\<close> with the key of its
  session goes to device \<open>i + 1\<close>, and the last one is not sent at all.\<close>

theorem lost_clone_misdirects_packets:
  assumes "group_start_live_streaming hs cfg delay d gp = (Inr (), gp')" and "gs_streamer (fst gp') = Some s"
    and "run_io (streamer_step rn) s evs = (outs, s')" and "(ws, sd) \<in> set (packets outs)"
    and "\<forall>j. (\<exists>u. data j = Inr u) \<longleftrightarrow> j \<noteq> k" and "k \<le> i" and "i < length (gs_connections (fst gp'))"
  shows "let cs = snd gp' # gs_connections (fst gp');
      sent = audio_datagrams (cloned_targets data ctl 0 (rtp_senders (st_inner s))) ws in
    length ws = length cs \<and> length sent = length cs - 1 \<and>
    sealed_with (h_aead (hs i)) (shk (cn_session (cs ! i))) (ws ! i) \<and>
    (\<exists>p addr. ports (cn_session (cs ! Suc i)) = Some p \<and>
      select_best_address (addresses (cn_device (cs ! Suc i))) = Some addr \<and>
      sent ! i = SendTo (DataSocket i) (addr, data_port p) (ws ! i))"
proof -
  let ?cs = "snd gp' # gs_connections (fst gp')" and ?rs = "rtp_senders (st_inner s)"
  let ?ts = "cloned_targets data ctl 0 ?rs"
  note sealed = group_stream_sealed [OF assms(1-3)]
  have len: "length ?rs = length ?cs" using sealed(2) by (auto dest: list_all2_lengthD)
  have sender: "sender_of (?cs ! j) (?rs ! j)" if "j < length ?cs" for j
    using sealed(2) that by (auto simp: list_all2_conv_all_nth)
  have ws: "length ws = length ?cs" "sealed_with (h_aead (hs i)) (shk (cn_session (?cs ! i))) (ws ! i)"
    using sealed(1) assms(4,7) by (auto simp: all_sealed_def group_keys_def nth_enumerate_eq simp del: enumerate_simps)
  have k: "k < length ?rs" using assms(6,7) len by simp
  have "\<forall>r \<in> set ?rs. rtp_socket r"
  proof
    fix r assume "r \<in> set ?rs"
    then obtain j where j: "j < length ?rs" "r = ?rs ! j" by (auto simp: in_set_conv_nth)
    with sender [of j] len show "rtp_socket r" by (auto simp: sender_of_def)
  qed
  note dests = dests_without [OF this k, of data ctl] assms(5)
  then have dests: "map tg_data_dest ?ts = map rtp_dest (take k ?rs @ drop (Suc k) ?rs)" by blast
  have n: "length ?ts = length ?cs - 1" using arg_cong [OF dests, of length] k len by simp
  have out: "audio_datagrams ?ts ws = map (\<lambda>i. SendTo (DataSocket i) (map tg_data_dest ?ts ! i) (ws ! i)) [0..<length ?ts]"
    by (rule datagrams_by_dest) (use n ws(1) in simp)
  have "map tg_data_dest ?ts ! i = rtp_dest (?rs ! Suc i)"
    unfolding dests using assms(6,7) k len by (simp add: nth_append min_def)
  moreover have "Suc i < length ?cs" using assms(7) by simp
  ultimately have "\<exists>p addr. ports (cn_session (?cs ! Suc i)) = Some p \<and>
      select_best_address (addresses (cn_device (?cs ! Suc i))) = Some addr \<and>
      audio_datagrams ?ts ws ! i = SendTo (DataSocket i) (addr, data_port p) (ws ! i)"
    using sender [of "Suc i"] n assms(7) unfolding out by (auto simp: sender_of_def)
  moreover have "length (audio_datagrams ?ts ws) = length ?cs - 1" using n unfolding out by simp
  ultimately show ?thesis using ws by (simp add: Let_def)
qed

theorem lost_clone_misdirects_packets_witness:
  "\<exists>gp' s outs s' ws sd p addr.
    group_start_live_streaming (\<lambda>_. sample_host) default_config 0 sample_decoder sample_group = (Inr (), gp') \<and>
    gs_streamer (fst gp') = Some s \<and> run_io (streamer_step (\<lambda>_ _ _. Inl Panic)) s (turns 11 sample_tick) = (outs, s') \<and>
    (ws, sd) \<in> set (packets outs) \<and> length ws = 2 \<and>
    audio_datagrams (cloned_targets (\<lambda>i. if i = 0 then Inl (Connection_error ''descriptors'') else Inr ()) (\<lambda>_. Inr ()) 0
      (rtp_senders (st_inner s))) ws ! 0 = SendTo (DataSocket 0) (addr, data_port p) (ws ! 0) \<and>
    ports (cn_session (gs_connections (fst gp') ! 0)) = Some p"
proof -
  obtain gp' s outs s' where
    1: "group_start_live_streaming (\<lambda>_. sample_host) default_config 0 sample_decoder sample_group = (Inr (), gp')"
    and 2: "gs_streamer (fst gp') = Some s"
    and run: "run_io (streamer_step (\<lambda>_ _ _. Inl Panic)) s (turns 11 sample_tick) = (outs, s')"
    and len: "length (packets outs) = 3" and two: "1 + length (gs_connections (fst gp')) = 2"
    by (rule sample_group_plays)
  have "packets outs \<noteq> []" using len by auto
  then obtain ws sd where p: "(ws, sd) \<in> set (packets outs)" by (metis last_in_set prod.collapse)
  have clone: "\<forall>j. (\<exists>u. (\<lambda>i. if i = 0 then Inl (Connection_error ''descriptors'') else Inr ()) j = Inr u) \<longleftrightarrow> j \<noteq> 0" by simp
  have "0 < length (gs_connections (fst gp'))" using two by simp
  note wrong = lost_clone_misdirects_packets [OF 1 2 run p clone order_refl this, of "\<lambda>_. Inr ()", unfolded Let_def]
  then obtain port addr where "ports (cn_session (gs_connections (fst gp') ! 0)) = Some port"
    "audio_datagrams (cloned_targets (\<lambda>i. if i = 0 then Inl (Connection_error ''descriptors'') else Inr ()) (\<lambda>_. Inr ()) 0
      (rtp_senders (st_inner s))) ws ! 0 = SendTo (DataSocket 0) (addr, data_port port) (ws ! 0)"
    by auto
  moreover have "length ws = 2" using wrong two by simp
  ultimately show ?thesis using 1 2 run p by blast
qed

end
