(* ===== verification/Stream_Keys.thy ===== *)
theory Stream_Keys
  imports Handshake Delivery
begin

text \<open>
  The hand-over of the stream key: what a receiver that shares the secret of the pairing learns from
  the sealed requests of \<open>connect\<close> and \<open>setup\<close> (\<open>src/client/handshake.rs\<close>,
  \<open>src/client/connection.rs\<close>, \<open>src/rtsp/connection.rs\<close>, \<open>src/crypto/chacha.rs\<close>), and that this is
  enough to hear the stream. The theory adds no definition of the code.
\<close>

section \<open>The receiver's end of the control channel\<close>

text \<open>A receiver opens the requests one after the other.\<close>

fun open_texts :: "aead \<Rightarrow> control_cipher \<Rightarrow> bytes list \<Rightarrow> bytes list option" where
  "open_texts a sc [] = Some []"
| "open_texts a sc (w # ws) =
     (case open_blocks a sc w of None \<Rightarrow> None | Some (t, sc') \<Rightarrow> map_option ((#) t) (open_texts a sc' ws))"

text \<open>The stream that a SETUP request describes; \<open>undo\<close> decodes a property list.\<close>

definition stream_told :: "(bytes \<Rightarrow> setup_phase2_request option) \<Rightarrow> bytes \<Rightarrow> stream_def option" where
  "stream_told undo msg =
     (case read_message msg of
        None \<Rightarrow> None
      | Some (_, _, b) \<Rightarrow>
          (case undo b of None \<Rightarrow> None
           | Some r \<Rightarrow> (case p2_streams r of [st] \<Rightarrow> Some st | _ \<Rightarrow> None)))"

text \<open>The receiver's cipher \<open>sc\<close> is ready for the next block of the client's \<open>cc\<close>.\<close>

definition follows :: "control_cipher \<Rightarrow> control_cipher \<Rightarrow> bool" where
  "follows cc sc \<longleftrightarrow> length (write_key cc) = 32 \<and> read_key sc = write_key cc \<and> decrypt_counter sc = encrypt_counter cc"

definition followed :: "link \<Rightarrow> control_cipher \<Rightarrow> bool" where
  "followed lk sc \<longleftrightarrow> (\<exists>cc. conn_cipher (lk_conn lk) = Some cc \<and> follows cc sc)"

text \<open>Whatever is sealed and written, the receiver opens; and it is ready for the next request.\<close>

lemma sent_opens:
  assumes "rtsp_send h r lk = (res, lk')" and "lk_log lk' = lk_log lk @ [(r, Some w)]"
    and "followed lk sc" and "aead_ok (h_aead h)"
  shows "\<exists>sc'. open_blocks (h_aead h) sc w =
      Some (request_serialize (with_session_headers (lk_conn lk) r) (conn_cseq (lk_conn lk) + 1), sc') \<and> followed lk' sc'"
proof -
  let ?t = "request_serialize (with_session_headers (lk_conn lk) r) (conn_cseq (lk_conn lk) + 1)"
  obtain cc where cc: "conn_cipher (lk_conn lk) = Some cc" "follows cc sc" using assms(3) by (auto simp: followed_def)
  obtain wire cc1 sc1 where w: "encrypt_loop (h_aead h) cc ?t [] = (Inr wire, cc1)"
      "open_blocks (h_aead h) sc wire = Some (?t, sc1)" "decrypt_counter sc1 = encrypt_counter cc1"
      "write_key cc1 = write_key cc"
    using encrypt_loop_opens [OF assms(4), of cc sc ?t "[]"] cc(2) by (auto simp: follows_def)
  have enc: "control_encrypt (h_aead h) cc ?t = (Inr wire, cc1)"
    using w(1) request_not_empty by (simp add: control_encrypt_def)
  have read: "read_key sc1 = read_key sc" using open_blocks_frame [OF w(2)] by simp
  have "w = wire \<and> (\<exists>cc2. conn_cipher (lk_conn lk') = Some cc2 \<and> write_key cc2 = write_key cc1 \<and>
      encrypt_counter cc2 = encrypt_counter cc1)"
    using assms(1,2) cc(1) enc read_blocks_keys
    by (fastforce simp: rtsp_send_def connection_send_def wire_data_def next_cseq_def read_response_def Let_def
        split: if_splits prod.splits sum.splits)
  with w(2,3,4) cc(2) read show ?thesis by (auto simp: followed_def follows_def)
qed

lemma send_logged:
  assumes "rtsp_send h r lk = (Inr resp, lk')" obtains w where "lk_log lk' = lk_log lk @ [(r, Some w)]"
  using assms
  by (auto simp: rtsp_send_def connection_send_def Let_def split: if_splits prod.splits sum.splits)

lemma written_logged:
  assumes "rtsp_send h r lk = (res, lk')" and "ex_written (next_answer lk)" and "conn_stream (lk_conn lk)"
    and "followed lk sc" and "aead_ok (h_aead h)"
  obtains w where "lk_log lk' = lk_log lk @ [(r, Some w)]"
proof -
  let ?t = "request_serialize (with_session_headers (lk_conn lk) r) (conn_cseq (lk_conn lk) + 1)"
  obtain cc where cc: "conn_cipher (lk_conn lk) = Some cc" "follows cc sc" using assms(4) by (auto simp: followed_def)
  obtain wire cc1 where "encrypt_loop (h_aead h) cc ?t [] = (Inr wire, cc1)"
    using encrypt_loop_opens [OF assms(5), of cc sc ?t "[]"] cc(2) by (auto simp: follows_def)
  then have "control_encrypt (h_aead h) cc ?t = (Inr wire, cc1)"
    using request_not_empty by (simp add: control_encrypt_def)
  with assms(1-3) cc(1) that show thesis
    by (auto simp: rtsp_send_def connection_send_def wire_data_def next_cseq_def Let_def split: prod.splits sum.splits)
qed

section \<open>What SETUP tells\<close>

lemma phase_keeps:
  "process_setup_phase1_response pl b s = (res, s') \<Longrightarrow>
     shk s' = shk s \<and> request_uri s' = request_uri s \<and> ss_config s' = ss_config s"
  "process_setup_phase2_response pl b s = (res, s') \<Longrightarrow>
     shk s' = shk s \<and> request_uri s' = request_uri s \<and> local_control_port s' = local_control_port s"
  by (auto simp: process_setup_phase1_response_def process_setup_phase2_response_def wrong_state_def request_uri_def Let_def
      split: if_splits sum.splits option.splits)

text \<open>The two SETUP requests of a successful setup, as a receiver that follows the channel opens them: the second
  describes the stream, with the key of the session and the control port that was bound.\<close>

lemma setup_media_tells:
  assumes "setup_rtsp_media_session h port as c = (Inr addr, c')" and "followed (cn_link c) sc"
    and "aead_ok (h_aead h)"
  obtains r1 w1 t1 r2 w2 more sc1 sc2 hs n st b where
    "lk_log (cn_link c') = lk_log (cn_link c) @ (r1, Some w1) # (r2, Some w2) # more"
    "open_blocks (h_aead h) sc w1 = Some (t1, sc1)"
    "open_blocks (h_aead h) sc1 w2 = Some (request_serialize (with_session_headers hs (setup_request (conn_uri c) b)) n, sc2)"
    "session_headers hs = session_headers (lk_conn (cn_link c'))"
    "enc_phase2 (h_plists h) \<lparr>p2_streams = [st]\<rparr> = Inr b"
    "sd_shk st = shk (cn_session c)" "h_control_port h = Inr (sd_control_port st)"
    "shk (cn_session c') = shk (cn_session c)"
proof -
  obtain b1 resp1 c1 u c2 p where
      1: "send_request h (setup_request (conn_uri c) b1) c = (Inr resp1, c1)"
    and 2: "on_session (process_setup_phase1_response (h_plists h) (response_body resp1)) c1 = (Inr u, c2)"
    and p: "h_control_port h = Inr p"
    and rest: "\<exists>b resp2 c4 u' c5 u''.
      let k = c2\<lparr>cn_link := (cn_link c2)\<lparr>lk_conn := add_session_header ''Session''
            (case hm_get (rs_headers resp1) ''Session'' of None \<Rightarrow> ''1'' | Some v \<Rightarrow> v) (lk_conn (cn_link c2))\<rparr>\<rparr>;
          k = (if h_events h then k\<lparr>cn_events := True\<rparr> else k);
          c3 = k\<lparr>cn_session := set_local_control_port p (cn_session k), cn_control_rx := True\<rparr>
      in build_setup_phase2 (h_plists h) (cn_session c3) = Inr b \<and>
         send_request h (setup_request (conn_uri c3) b) c3 = (Inr resp2, c4) \<and>
         on_session (process_setup_phase2_response (h_plists h) (response_body resp2)) c4 = (Inr u', c5) \<and>
         best_effort_send_initial_record h c5 = (Inr u'', c')"
    using assms(1) unfolding setup_rtsp_media_session_def Let_def bind_in_Inr from_res_Inr by auto
  let ?v = "case hm_get (rs_headers resp1) ''Session'' of None \<Rightarrow> ''1'' | Some v \<Rightarrow> v"
  let ?lk = "(cn_link c2)\<lparr>lk_conn := add_session_header ''Session'' ?v (lk_conn (cn_link c2))\<rparr>"
  let ?k = "c2\<lparr>cn_link := ?lk\<rparr>"
  let ?k2 = "if h_events h then ?k\<lparr>cn_events := True\<rparr> else ?k"
  define c3 where "c3 = ?k2\<lparr>cn_session := set_local_control_port p (cn_session ?k2), cn_control_rx := True\<rparr>"
  have c3: "cn_link c3 = ?lk" "cn_session c3 = set_local_control_port p (cn_session c2)" by (simp_all add: c3_def)
  obtain b resp2 c4 u' c5 u'' where 3: "build_setup_phase2 (h_plists h) (cn_session c3) = Inr b"
    and 4: "send_request h (setup_request (conn_uri c3) b) c3 = (Inr resp2, c4)"
    and 5: "on_session (process_setup_phase2_response (h_plists h) (response_body resp2)) c4 = (Inr u', c5)"
    and 6: "best_effort_send_initial_record h c5 = (Inr u'', c')"
    using rest unfolding Let_def c3_def by blast
  obtain lk1 where s1: "rtsp_send h (setup_request (conn_uri c) b1) (cn_link c) = (Inr resp1, lk1)" "c1 = c\<lparr>cn_link := lk1\<rparr>"
    using 1 by (auto simp: send_request_def split: prod.splits)
  obtain lk4 where s2: "rtsp_send h (setup_request (conn_uri c3) b) ?lk = (Inr resp2, lk4)" "c4 = c3\<lparr>cn_link := lk4\<rparr>"
    using 4 c3(1) by (auto simp: send_request_def split: prod.splits)
  obtain w1 where w1: "lk_log lk1 = lk_log (cn_link c) @ [(setup_request (conn_uri c) b1, Some w1)]"
    by (rule send_logged [OF s1(1)])
  obtain w2 where w2: "lk_log lk4 = lk_log ?lk @ [(setup_request (conn_uri c3) b, Some w2)]"
    by (rule send_logged [OF s2(1)])
  have c2: "cn_link c2 = lk1" "shk (cn_session c2) = shk (cn_session c)"
      "request_uri (cn_session c2) = request_uri (cn_session c)"
    using 2 s1(2) phase_keeps(1) by (auto simp: on_session_def split: prod.splits)
  have c5: "cn_link c5 = lk4" "shk (cn_session c5) = shk (cn_session c)"
    using 5 s2(2) phase_keeps(2) c3(2) c2(2) by (auto simp: on_session_def set_local_control_port_def split: prod.splits)
  have uri: "conn_uri c3 = conn_uri c"
    using c2(3) c3(2) by (simp add: conn_uri_def request_uri_def set_local_control_port_def)
  note last = initial_record_grown [OF 6]
  obtain more where more: "lk_log (cn_link c') = lk_log lk4 @ more"
    using last c5(1) by (auto simp: grown_def)
  obtain sc1 where o1: "open_blocks (h_aead h) sc w1 =
      Some (request_serialize (with_session_headers (lk_conn (cn_link c)) (setup_request (conn_uri c) b1))
        (conn_cseq (lk_conn (cn_link c)) + 1), sc1)" "followed lk1 sc1"
    using sent_opens [OF s1(1) w1 assms(2,3)] by blast
  have f: "followed ?lk sc1" using o1(2) c2(1) by (simp add: followed_def add_session_header_def)
  obtain sc2 where o2: "open_blocks (h_aead h) sc1 w2 =
      Some (request_serialize (with_session_headers (lk_conn ?lk) (setup_request (conn_uri c) b)) (conn_cseq (lk_conn ?lk) + 1), sc2)"
    using sent_opens [OF s2(1) w2 f assms(3)] uri by auto
  have heads: "session_headers (lk_conn ?lk) = session_headers (lk_conn (cn_link c'))"
    using last c5(1) send_session_headers [OF s2(1)] by (simp add: grown_def)
  have enc: "enc_phase2 (h_plists h) \<lparr>p2_streams = [phase2_stream (cn_session c3)]\<rparr> = Inr b"
    using 3 by (auto simp: build_setup_phase2_def wrong_state_def plist_codec_def split: if_splits)
  have st: "sd_shk (phase2_stream (cn_session c3)) = shk (cn_session c)"
      "h_control_port h = Inr (sd_control_port (phase2_stream (cn_session c3)))"
    using c3(2) c2(2) p by (simp_all add: phase2_stream_def set_local_control_port_def Let_def)
  show thesis
    by (rule that [OF _ o1(1) o2 heads enc st]) (use more w1 w2 c2(1) last c5(2) in simp_all)
qed

section \<open>Reading the stream from SETUP\<close>

lemma set_hm_insert: "set (hm_insert k v m) \<subseteq> insert (k, v) (set m)"
  by (induction m) (auto simp: hm_insert_def)

lemma session_header_fold:
  "rq_uri (fold (\<lambda>(k, v) r. with_header k v r) kvs r) = rq_uri r \<and>
   rq_body (fold (\<lambda>(k, v) r. with_header k v r) kvs r) = rq_body r \<and>
   set (rq_headers (fold (\<lambda>(k, v) r. with_header k v r) kvs r)) \<subseteq> set kvs \<union> set (rq_headers r)"
proof (induction kvs arbitrary: r)
  case (Cons kv kvs)
  from Cons [of "with_header (fst kv) (snd kv) r"] set_hm_insert [of "fst kv" "snd kv" "rq_headers r"]
  show ?case by (auto simp: with_header_def split_def)
qed simp

lemma setup_told:
  assumes "line_str uri" and "\<forall>kv \<in> set (session_headers hs). header_clean kv"
    and "undo b = Some \<lparr>p2_streams = [st]\<rparr>"
  shows "stream_told undo (request_serialize (with_session_headers hs (setup_request uri b)) n) = Some st"
proof -
  let ?r = "setup_request uri b"
  have "trim ''Content-Type'' = ''Content-Type''"
    "trim ''application/x-apple-binary-plist'' = ''application/x-apple-binary-plist''"
    by (rule trim_plain, simp)+
  then have "\<forall>kv \<in> set (rq_headers ?r). header_clean kv" "rq_uri ?r = uri" "rq_body ?r = Some b"
    by (simp_all add: setup_request_def with_body_def content_type_bplist_def with_header_def request_new_def
        hm_insert_def header_clean_def)
  then have "request_clean (with_session_headers hs ?r)" "rq_body (with_session_headers hs ?r) = Some b"
    using assms(1,2) session_header_fold [of "session_headers hs" ?r]
    by (auto simp: request_clean_def with_session_headers_def)
  with assms(3) show ?thesis by (simp add: stream_told_def request_reads)
qed

text \<open>A start that had to set up first.\<close>

lemma start_tells:
  assumes "start_streaming_live h d c = (Inr (), c')" and "conn_state c \<noteq> session_state.Ready"
    and "followed (cn_link c) sc" and "aead_ok (h_aead h)" and "line_str (conn_uri c)"
    and "\<forall>kv \<in> set (session_headers (lk_conn (cn_link c'))). header_clean kv"
    and "\<And>r b. enc_phase2 (h_plists h) r = Inr b \<Longrightarrow> undo b = Some r"
  obtains r1 w1 r2 w2 more t1 t2 st where
    "lk_log (cn_link c') = lk_log (cn_link c) @ (r1, Some w1) # (r2, Some w2) # more"
    "open_texts (h_aead h) sc [w1, w2] = Some [t1, t2]" "stream_told undo t2 = Some st"
    "sd_shk st = shk (cn_session c')" "h_control_port h = Inr (sd_control_port st)"
    "shk (cn_session c') = shk (cn_session c)"
proof -
  let ?c = "c\<lparr>cn_listener := False\<rparr>"
  obtain c1 where start: "connection_setup h ?c = (Inr (), c1)" "grown (cn_link c1) (cn_link c')"
      "shk (cn_session c') = shk (cn_session c1)"
    by (rule start_streaming_steps [OF assms(1)]) (use assms(2) in blast)
  obtain port c0 addr c2 where 0: "setup_timing_port h ?c = (Inr port, c0)"
    and 2: "setup_rtsp_media_session h port (local_rtsp_addresses h) c0 = (Inr addr, c2)"
    and c1: "c1 = setup_clock h c2"
    using start(1) by (auto simp: connection_setup_def bind_in_Inr)
  have c0: "cn_link c0 = cn_link c" "cn_session c0 = cn_session c" "conn_uri c0 = conn_uri c"
    using 0 by (auto simp: setup_timing_port_def bind_in_Inr from_res_Inr conn_uri_def split: timing_protocol.splits)
  have link: "cn_link c1 = cn_link c2" "cn_session c1 = cn_session c2"
    by (auto simp: c1 setup_clock_def Let_def split: timing_protocol.split ptp_mode.split option.split)
  have f: "followed (cn_link c0) sc" using assms(3) c0(1) by simp
  obtain r1 w1 t1 r2 w2 more sc1 sc2 hs n st b where told:
    "lk_log (cn_link c2) = lk_log (cn_link c0) @ (r1, Some w1) # (r2, Some w2) # more"
    "open_blocks (h_aead h) sc w1 = Some (t1, sc1)"
    "open_blocks (h_aead h) sc1 w2 = Some (request_serialize (with_session_headers hs (setup_request (conn_uri c0) b)) n, sc2)"
    "session_headers hs = session_headers (lk_conn (cn_link c2))"
    "enc_phase2 (h_plists h) \<lparr>p2_streams = [st]\<rparr> = Inr b"
    "sd_shk st = shk (cn_session c0)" "h_control_port h = Inr (sd_control_port st)"
    "shk (cn_session c2) = shk (cn_session c0)"
    by (rule setup_media_tells [OF 2 f assms(4)])
  have "\<forall>kv \<in> set (session_headers hs). header_clean kv" using assms(6) told(4) start(2) link(1) by (simp add: grown_def)
  from setup_told [of "conn_uri c0" hs undo b st n, OF _ this assms(7) [OF told(5)]] assms(5) c0(3)
  have read: "stream_told undo (request_serialize (with_session_headers hs (setup_request (conn_uri c0) b)) n) = Some st" by simp
  obtain more' where more: "lk_log (cn_link c') = lk_log (cn_link c2) @ more'"
    using start(2) link(1) by (auto simp: grown_def)
  show thesis
    by (rule that [of r1 w1 r2 w2 "more @ more'" t1, OF _ _ read])
      (use more told c0 link start(3) in simp_all)
qed

section \<open>A connection that has been paired\<close>

text \<open>The moment the control channel is sealed: three requests have gone out in the clear, a receiver with the
  keys of the common secret is ready, and \<open>OPTIONS\<close> is what comes next.\<close>

lemma sealed_start:
  assumes "connect_with_pin h w dev cfg pin = Some (Inr c, lk)"
    and "hw_answers w = x1 # x2 # x3 # xs"
    and "\<And>salt ikm info n okm. pe_hkdf (hw_pair w) salt ikm info n = Some okm \<Longrightarrow> length okm = n"
  obtains cl pr keys lk0 res where
    "srp_client_new (pe_group (hw_pair w)) (hw_draws w) (as_bytes ''Pair-Setup'') (as_bytes pin) = Some cl"
    "proof_for (hw_pair w) cl pr" "derive_control_keys (pe_hkdf (hw_pair w)) (shared_secret pr) = Inr keys"
    "followed lk0 (control_cipher_new (sk_read_key keys) (sk_write_key keys))" "conn_stream (lk_conn lk0)"
    "conn_cseq (lk_conn lk0) = 3" "length (lk_log lk0) = 3" "lk_answers lk0 = xs"
    "rtsp_send h options_request lk0 = (res, cn_link c)" "shk (cn_session c) = hw_key w"
proof -
  let ?cid = "generate_device_id (hw_device_id w)"
  obtain s lk1 cl p2 lk2 where st:
    "open_connected_session h w dev cfg ?cid = (Inr s, lk1)"
    "srp_client_new (pe_group (hw_pair w)) (hw_draws w) (as_bytes ''Pair-Setup'') (as_bytes pin) = Some cl"
    "pairing_exchange h (hw_pair w) ?cid (tlv_encode pair_setup_m1_with_flags)
       (pairing_session_new\<lparr>transient_setup := Some \<lparr>ps_state = M1Sent, ps_pin = pin, ps_client = Some cl,
          ps_proof = None\<rparr>, transient_state := WaitingM2\<rparr>) lk1 = (Inr p2, lk2)"
    "finish_handshake h dev cfg s p2 lk2 = (Inr c, lk)"
    by (rule handshake_steps [OF assms(1)])
  note o = open_session_Inr [OF st(1)]
  obtain pr keys where p: "proof_for (hw_pair w) cl pr"
    "derive_control_keys (pe_hkdf (hw_pair w)) (shared_secret pr) = Inr keys" "session_keys p2 = Some keys"
    "lk_conn lk2 = (opened ?cid)\<lparr>conn_cseq := 3\<rparr>" "length (lk_log lk2) = 3"
    "\<exists>x2 x3. lk_answers lk1 = x2 # x3 # lk_answers lk2"
    by (rule pairing_exchange_Inr [OF st(3) o(2), where cl = cl and
        t = "\<lparr>ps_state = M1Sent, ps_pin = pin, ps_client = Some cl, ps_proof = None\<rparr>"]) (simp_all add: o(3) Let_def)
  let ?lk = "lk2\<lparr>lk_conn := install_control_cipher keys (lk_conn lk2)\<rparr>"
  obtain res where f: "rtsp_send h options_request ?lk = (res, lk)" "c = from_paired_parts dev lk (s\<lparr>ss_state := Paired\<rparr>) cfg"
    by (rule finish_handshake_steps [OF st(4) p(3)])
  have "length (sk_write_key keys) = 32" using derive_control_keys_len [OF assms(3) p(2)] by simp
  then have "followed ?lk (control_cipher_new (sk_read_key keys) (sk_write_key keys))"
      "conn_stream (lk_conn ?lk)" "conn_cseq (lk_conn ?lk) = 3"
    by (simp_all add: followed_def follows_def control_cipher_new_def install_control_cipher_def set_cipher_def p(4))
  moreover have "lk_answers ?lk = xs" using o(4) p(6) assms(2) by auto
  moreover have "shk s = hw_key w"
    using o(5) by (auto simp: greeted_def set_request_host_def set_client_device_id_def session_new_def)
  ultimately show thesis using that [OF st(2) p(1,2)] f p(5) by (simp add: from_paired_parts_def)
qed

text \<open>After the handshake a receiver with the keys of the common secret follows the channel, once it has
  opened \<open>OPTIONS\<close>.\<close>

lemma connected_followed:
  assumes "connect_with_pin h w dev cfg pin = Some (Inr c, lk)"
    and "hw_answers w = x1 # x2 # x3 # x4 # xs" and "ex_written x4" and "aead_ok (h_aead h)"
    and "\<And>salt ikm info n okm. pe_hkdf (hw_pair w) salt ikm info n = Some okm \<Longrightarrow> length okm = n"
  obtains cl pr keys w0 t0 sc where
    "srp_client_new (pe_group (hw_pair w)) (hw_draws w) (as_bytes ''Pair-Setup'') (as_bytes pin) = Some cl"
    "proof_for (hw_pair w) cl pr" "derive_control_keys (pe_hkdf (hw_pair w)) (shared_secret pr) = Inr keys"
    "open_blocks (h_aead h) (control_cipher_new (sk_read_key keys) (sk_write_key keys)) w0 = Some (t0, sc)"
    "followed (cn_link c) sc" "map snd (drop 3 (lk_log (cn_link c))) = [Some w0]" "shk (cn_session c) = hw_key w"
proof -
  obtain cl pr keys lk0 res where p:
    "srp_client_new (pe_group (hw_pair w)) (hw_draws w) (as_bytes ''Pair-Setup'') (as_bytes pin) = Some cl"
    "proof_for (hw_pair w) cl pr" "derive_control_keys (pe_hkdf (hw_pair w)) (shared_secret pr) = Inr keys"
    "followed lk0 (control_cipher_new (sk_read_key keys) (sk_write_key keys))" "conn_stream (lk_conn lk0)"
    "length (lk_log lk0) = 3" "lk_answers lk0 = x4 # xs"
    "rtsp_send h options_request lk0 = (res, cn_link c)" "shk (cn_session c) = hw_key w"
    by (rule sealed_start [OF assms(1,2,5)])
  have "ex_written (next_answer lk0)" using p(7) assms(3) by (simp add: next_answer_def)
  then obtain w0 where log: "lk_log (cn_link c) = lk_log lk0 @ [(options_request, Some w0)]"
    using written_logged [OF p(8) _ p(5,4) assms(4)] by blast
  from sent_opens [OF p(8) log p(4) assms(4)] obtain t0 sc where
    "open_blocks (h_aead h) (control_cipher_new (sk_read_key keys) (sk_write_key keys)) w0 = Some (t0, sc)" "followed (cn_link c) sc"
    by blast
  with that [OF p(1-3)] log p(6,9) show thesis by simp
qed

section \<open>Claims\<close>

text \<open>C5: a receiver that shares the secret of the pairing hears the source. Take a connection that connecting
  has returned and a stream that was started on it. With the control keys of the common secret alone,
  the receiver opens the first three sealed requests on the wire (\<open>OPTIONS\<close> and the two of SETUP), reads in
  the last one the stream and the control port that was bound, and with the key it finds there the
  packets of the stream open and decode, at any time, to a prefix of what the application has pushed;
  the rest is still in the jitter buffer, the residue of the decoder and the channel.\<close>

theorem paired_receiver_hears_the_source:
  assumes "connect_with_pin h w dev cfg pin = Some (Inr c, lk)"
    and "hw_answers w = x1 # x2 # x3 # x4 # xs" and "ex_written x4"
    and "start_streaming_live h d c = (Inr (), c')" and "cn_streamer c' = Some s"
    and "aead_ok (h_aead h)" and "\<forall>salt ikm info n okm. pe_hkdf (hw_pair w) salt ikm info n = Some okm \<longrightarrow> length okm = n"
    and "\<forall>r b. enc_phase2 (h_plists h) r = Inr b \<longrightarrow> undo b = Some r"
    and "length (hw_key w) = 32" and "line_str (conn_uri c)"
    and "\<forall>kv \<in> set (session_headers (lk_conn (cn_link c'))). header_clean kv"
    and "packable (audio_format cfg)" and "lossless_codec dec (h_codec h) (audio_format cfg)"
    and "comes_to rn (audio_format cfg) d src"
    and "run_io (streamer_step rn) s evs = (outs, s')" and "loop_running s'"
  shows "\<exists>cl pr keys w0 w1 w2 more t0 t1 t2 st played rest.
    srp_client_new (pe_group (hw_pair w)) (hw_draws w) (as_bytes ''Pair-Setup'') (as_bytes pin) = Some cl \<and>
    proof_for (hw_pair w) cl pr \<and> derive_control_keys (pe_hkdf (hw_pair w)) (shared_secret pr) = Inr keys \<and>
    map snd (drop 3 (lk_log (cn_link c'))) = Some w0 # Some w1 # Some w2 # more \<and>
    open_texts (h_aead h) (control_cipher_new (sk_read_key keys) (sk_write_key keys)) [w0, w1, w2] = Some [t0, t1, t2] \<and>
    stream_told undo t2 = Some st \<and> h_control_port h = Inr (sd_control_port st) \<and>
    src = played @ rest \<and> unplayed rn (st_inner s') rest \<and>
    heard (open_packet (h_aead h) (sd_shk st)) dec (sent_to 0 (packets outs)) = Some (pcm played)"
proof -
  note con = connected_fields [OF assms(1)]
  have hkdf: "\<And>salt ikm info n okm. pe_hkdf (hw_pair w) salt ikm info n = Some okm \<Longrightarrow> length okm = n"
    using assms(7) by blast
  have undo: "\<And>r b. enc_phase2 (h_plists h) r = Inr b \<Longrightarrow> undo b = Some r" using assms(8) by blast
  obtain cl pr keys w0 t0 sc where p:
    "srp_client_new (pe_group (hw_pair w)) (hw_draws w) (as_bytes ''Pair-Setup'') (as_bytes pin) = Some cl"
    "proof_for (hw_pair w) cl pr" "derive_control_keys (pe_hkdf (hw_pair w)) (shared_secret pr) = Inr keys"
    "open_blocks (h_aead h) (control_cipher_new (sk_read_key keys) (sk_write_key keys)) w0 = Some (t0, sc)"
    "followed (cn_link c) sc" "map snd (drop 3 (lk_log (cn_link c))) = [Some w0]" "shk (cn_session c) = hw_key w"
    by (rule connected_followed [OF assms(1-3,6) hkdf])
  have "conn_state c \<noteq> session_state.Ready" using con(1) by simp
  note tells = start_tells [OF assms(4) this p(5) assms(6,10,11) undo]
  obtain r1 w1 r2 w2 more t1 t2 st where t:
    "lk_log (cn_link c') = lk_log (cn_link c) @ (r1, Some w1) # (r2, Some w2) # more"
    "open_texts (h_aead h) sc [w1, w2] = Some [t1, t2]" "stream_told undo t2 = Some st"
    "sd_shk st = shk (cn_session c')" "h_control_port h = Inr (sd_control_port st)"
    "shk (cn_session c') = shk (cn_session c)"
    by (rule tells)
  have key: "length (shk (cn_session c')) = 32" using t(6) p(7) assms(9) by simp
  note cfg = con(3)
  have "delivering rn dec [(h_aead h, shk (cn_session c'))] src (packets outs) (st_inner s')"
    using kept_running [OF ear.run_kept [OF started_connection_delivering [OF assms(4,5), unfolded cfg,
      OF assms(12,13,6) key assms(14)] assms(15)] assms(16)] by simp
  from delivering_heard [OF this, of 0] t(4) obtain played rest where hear: "src = played @ rest"
      "unplayed rn (st_inner s') rest"
      "heard (open_packet (h_aead h) (sd_shk st)) dec (sent_to 0 (packets outs)) = Some (pcm played)" by auto
  have len: "3 - length (lk_log (cn_link c)) = 0" using arg_cong [OF p(6), of length] by simp
  have wires: "map snd (drop 3 (lk_log (cn_link c'))) = Some w0 # Some w1 # Some w2 # map snd more"
    using p(6) by (simp add: t(1) len del: diff_is_0_eq diff_is_0_eq')
  have texts: "open_texts (h_aead h) (control_cipher_new (sk_read_key keys) (sk_write_key keys)) [w0, w1, w2] = Some [t0, t1, t2]"
    using p(4) t(2) by simp
  show ?thesis
    by (intro exI conjI, rule p(1), rule p(2), rule p(3), rule wires, rule texts, rule t(3), rule t(5), rule hear(1),
        rule hear(2), rule hear(3))
qed

text \<open>A host with a property-list library that knows one SETUP request.\<close>

definition told_request :: setup_phase2_request where
  "told_request = \<lparr>p2_streams = [phase2_stream ((session_new ''u'' (replicate 32 5) 1 2 sample_receiver default_config)
     \<lparr>local_control_port := 50001\<rparr>)]\<rparr>"

definition telling_host :: host where
  "telling_host = answering_host\<lparr>h_plists := answering_plists\<lparr>enc_phase2 :=
     (\<lambda>r. if r = told_request then Inr [2] else Inl ''unknown'')\<rparr>\<rparr>"

definition read_told :: "bytes \<Rightarrow> setup_phase2_request option" where
  "read_told b = (if b = [2] then Some told_request else None)"

lemma telling_host_facts:
  "answering telling_host" "h_aead telling_host = plain_aead" "h_codec telling_host = (\<lambda>_ _ _. copy_codec)"
  "h_data_bind telling_host = Inr ()" "h_show_ip telling_host = (\<lambda>_. ''192.0.2.1'')"
  "enc_phase2 (h_plists telling_host) r = Inr b \<Longrightarrow> read_told b = Some r"
  by (simp_all add: telling_host_def answering_def answering_host_def sample_host_def answering_plists_def toy_plists_def
      read_told_def split: if_splits)

text \<open>What the handshake leaves: the session and the headers.\<close>

lemma connected_session:
  assumes "connect_with_pin h w dev cfg pin = Some (Inr c, lk)"
  shows "\<exists>ip. select_best_address (addresses dev) = Some ip \<and>
      cn_session c = (greeted h w dev cfg (generate_device_id (hw_device_id w)) ip)\<lparr>ss_state := Paired\<rparr>"
    and "session_headers (lk_conn (cn_link c)) = session_headers (opened (generate_device_id (hw_device_id w)))"
proof -
  let ?cid = "generate_device_id (hw_device_id w)"
  obtain s lk1 cl p2 lk2 where st:
    "open_connected_session h w dev cfg ?cid = (Inr s, lk1)"
    "pairing_exchange h (hw_pair w) ?cid (tlv_encode pair_setup_m1_with_flags)
       (pairing_session_new\<lparr>transient_setup := Some \<lparr>ps_state = M1Sent, ps_pin = pin, ps_client = Some cl,
          ps_proof = None\<rparr>, transient_state := WaitingM2\<rparr>) lk1 = (Inr p2, lk2)"
    "finish_handshake h dev cfg s p2 lk2 = (Inr c, lk)"
    by (rule handshake_steps [OF assms])
  note o = open_session_Inr [OF st(1)]
  obtain keys where p: "session_keys p2 = Some keys" "lk_conn lk2 = (opened ?cid)\<lparr>conn_cseq := 3\<rparr>"
    by (rule pairing_exchange_Inr [OF st(2) o(2), where cl = cl and
        t = "\<lparr>ps_state = M1Sent, ps_pin = pin, ps_client = Some cl, ps_proof = None\<rparr>"]) simp_all
  obtain res where f: "rtsp_send h options_request (lk2\<lparr>lk_conn := install_control_cipher keys (lk_conn lk2)\<rparr>) = (res, lk)"
      "c = from_paired_parts dev lk (s\<lparr>ss_state := Paired\<rparr>) cfg"
    by (rule finish_handshake_steps [OF st(3) p(1)])
  show "\<exists>ip. select_best_address (addresses dev) = Some ip \<and>
      cn_session c = (greeted h w dev cfg ?cid ip)\<lparr>ss_state := Paired\<rparr>"
    using o(5) f(2) by (auto simp: from_paired_parts_def)
  show "session_headers (lk_conn (cn_link c)) = session_headers (opened ?cid)"
    using send_session_headers [OF f(1)] f(2) p(2)
    by (simp add: from_paired_parts_def install_control_cipher_def set_cipher_def)
qed

lemma start_after_setup:
  assumes "connection_setup h (c\<lparr>cn_listener := False\<rparr>) = (Inr (), c1)" and "conn_state c \<noteq> session_state.Ready"
  shows "start_streaming_live h d c = start_streaming_live h d c1"
    and "conn_state c1 = session_state.Ready" and "ports (cn_session c1) \<noteq> None" and "same_config c c1"
proof -
  let ?P = "\<lambda>c1. \<not> cn_listener c1 \<and> same_config c c1"
  have c1: "?P c1 \<and> conn_state c1 = session_state.Ready \<and> ports (cn_session c1) \<noteq> None"
    using ensures_Inr [OF setup_ensures [of ?P] assms(1)]
    by (simp add: setup_free_def link_free_def clock_free_def same_config_def)
  then show "conn_state c1 = session_state.Ready" and "ports (cn_session c1) \<noteq> None" and "same_config c c1" by simp_all
  have listening: "c1\<lparr>cn_listener := False\<rparr> = c1" using c1 by (cases c1) simp
  show "start_streaming_live h d c = start_streaming_live h d c1"
    unfolding start_streaming_live_def Let_def listening using c1 assms by simp
qed

lemma rtp_sender_built:
  "ports (cn_session c) \<noteq> None \<Longrightarrow> select_best_address (addresses (cn_device c)) = Some ip \<Longrightarrow>
   h_data_bind h = Inr () \<Longrightarrow> \<exists>r. build_rtp_sender h c = Inr r"
  by (auto simp: build_rtp_sender_def Let_def)

lemma told_encodes: "encodes_phase2 telling_host
    ((greeted telling_host (answering_shake []) sample_receiver default_config cid ip)\<lparr>ss_state := Paired\<rparr>)"
proof -
  have "\<lparr>p2_streams = [phase2_stream (((greeted telling_host (answering_shake []) sample_receiver default_config cid ip)
      \<lparr>ss_state := Paired\<rparr>)\<lparr>local_control_port := 50001\<rparr>)]\<rparr> = told_request"
    by (simp add: told_request_def phase2_stream_def greeted_def set_request_host_def set_client_device_id_def
        session_new_def answering_shake_def sample_shake_def Let_def)
  then show ?thesis by (simp add: encodes_phase2_def telling_host_def)
qed

lemma told_texts:
  "line_str (request_uri ((greeted telling_host (answering_shake []) sample_receiver default_config cid ip)\<lparr>ss_state := Paired\<rparr>))"
  "\<forall>kv \<in> set (hm_insert ''Session'' ''1'' (session_headers (opened (generate_device_id [1, 2, 3, 4, 5, 6])))). header_clean kv"
proof -
  show "line_str (request_uri ((greeted telling_host (answering_shake []) sample_receiver default_config cid ip)\<lparr>ss_state := Paired\<rparr>))"
    by (simp add: request_uri_def greeted_def set_request_host_def session_new_def set_client_device_id_def
        answering_shake_def sample_shake_def telling_host_facts ascii_upper_def Let_def)
  show "\<forall>kv \<in> set (hm_insert ''Session'' ''1'' (session_headers (opened (generate_device_id [1, 2, 3, 4, 5, 6])))). header_clean kv"
    by code_simp
qed

text \<open>A stream that is started on a connection that has just been paired, three packets into it.\<close>

lemma told_sample:
  obtains c lk c' s outs s' where
    "connect_with_pin telling_host (answering_shake []) sample_receiver default_config ''3939'' = Some (Inr c, lk)"
    "start_streaming_live telling_host sample_decoder c = (Inr (), c')" "cn_streamer c' = Some s"
    "run_io (streamer_step (\<lambda>_ _ _. Inl Panic)) s (turns 11 sample_tick) = (outs, s')"
    "length (packets outs) = 3" "loop_running s'" "line_str (conn_uri c)"
    "\<forall>kv \<in> set (session_headers (lk_conn (cn_link c'))). header_clean kv"
proof -
  let ?h = telling_host and ?rn = "\<lambda>_ _ _. Inl Panic"
  obtain c lk where 1: "connect_with_pin ?h (answering_shake []) sample_receiver default_config ''3939'' = Some (Inr c, lk)"
    and link: "sealed_link sample_key 0 [sealed_reply sample_key 0, sealed_reply sample_key 1, silence] (cn_link c)"
    using answering_connect by blast
  note con = connected_fields [OF 1]
  obtain ip where s: "cn_session c = (greeted ?h (answering_shake []) sample_receiver default_config
      (generate_device_id (hw_device_id (answering_shake []))) ip)\<lparr>ss_state := Paired\<rparr>"
    using connected_session(1) [OF 1] by blast
  have listening: "c\<lparr>cn_listener := False\<rparr> = c" using con(6) by (cases c) simp
  have enc: "encodes_phase2 ?h (cn_session c)" using told_encodes s by simp
  obtain c2 where 2: "connection_setup ?h c = (Inr (), setup_clock ?h c2)" "sealed_link sample_key 2 [] (cn_link c2)"
      "cn_config c2 = cn_config c"
      "session_headers (lk_conn (cn_link c2)) = hm_insert ''Session'' ''1'' (session_headers (lk_conn (cn_link c)))"
    using connection_setup_answered [OF link con(1,2) telling_host_facts(1) enc] by blast
  let ?c1 = "setup_clock ?h c2"
  have clock: "cn_link ?c1 = cn_link c2"
    by (auto simp: setup_clock_def Let_def split: timing_protocol.split ptp_mode.split option.split)
  have ready: "connection_setup ?h (c\<lparr>cn_listener := False\<rparr>) = (Inr (), ?c1)" "conn_state c \<noteq> session_state.Ready"
    using 2(1) listening con(1) by simp_all
  note after = start_after_setup [OF this]
  have "cn_device ?c1 = sample_receiver" "cn_config ?c1 = default_config"
    using after(4) con(2,3) by (simp_all add: same_config_def)
  then obtain r where r: "build_rtp_sender ?h ?c1 = Inr r"
    using rtp_sender_built [OF after(3), of _ ?h] sample_address telling_host_facts(4) by auto
  have sil: "silent (cn_link ?c1)" using 2(2) clock by (simp add: sealed_link_def silent_def)
  have "codec (audio_format (cn_config ?c1)) = Alac"
    using \<open>cn_config ?c1 = default_config\<close> by (simp add: default_config_def default_format_def)
  from silent_start [OF after(2) sil r this, of sample_decoder] obtain c' where
    c': "start_streaming_live ?h sample_decoder ?c1 = (Inr (), c')" by blast
  then have start: "start_streaming_live ?h sample_decoder c = (Inr (), c')" using after(1) by simp
  obtain s where st: "cn_streamer c' = Some s" by (rule start_streaming_steps [OF c']) blast
  have "grown (cn_link ?c1) (cn_link c')"
    by (rule start_streaming_steps [OF start]) (use ready in auto)
  then have "session_headers (lk_conn (cn_link c')) =
      hm_insert ''Session'' ''1'' (session_headers (opened (generate_device_id [1, 2, 3, 4, 5, 6])))"
    using clock 2(4) connected_session(2) [OF 1] by (simp add: grown_def answering_shake_def sample_shake_def)
  then have heads: "\<forall>kv \<in> set (session_headers (lk_conn (cn_link c'))). header_clean kv" using told_texts(2) by simp
  have uri: "line_str (conn_uri c)" using told_texts(1) s by (simp add: conn_uri_def)
  have fill: "\<exists>q. filling ?rn default_config q 0 27 s" "capacity_frames (si_buffer (st_inner s)) = 250"
    using started_connection_filling [OF start st, of ?rn 27] con(3) sample_config_facts sample_ahead sample_seals copy_codec_fits
    by (simp_all add: telling_host_facts sample_host_def)
  then obtain q where "filling ?rn default_config q 0 (3 * turns_to_start 250) s" by (auto simp: turns_to_start_def)
  note plays = filled_plays [OF this fill(2), of sample_tick 2]
  obtain outs s' where run: "run_io (streamer_step ?rn) s (turns 11 sample_tick) = (outs, s')"
    by (cases "run_io (streamer_step ?rn) s (turns 11 sample_tick)")
  have "length (packets outs) = 3" "loop_running s'"
    using plays(2,3) run by (simp_all add: turns_to_start_def sample_tick_def)
  from that [OF 1 start st run this uri heads] show thesis .
qed

theorem paired_receiver_hears_the_source_witness:
  "\<exists>c lk c' s outs s' (keys :: session_keys) w0 w1 w2 more t0 t1 t2 st played rest.
    connect_with_pin telling_host (answering_shake []) sample_receiver default_config ''3939'' = Some (Inr c, lk) \<and>
    start_streaming_live telling_host sample_decoder c = (Inr (), c') \<and> cn_streamer c' = Some s \<and>
    run_io (streamer_step (\<lambda>_ _ _. Inl Panic)) s (turns 11 sample_tick) = (outs, s') \<and> length (packets outs) = 3 \<and>
    map snd (drop 3 (lk_log (cn_link c'))) = Some w0 # Some w1 # Some w2 # more \<and>
    open_texts (h_aead telling_host) (control_cipher_new (sk_read_key keys) (sk_write_key keys)) [w0, w1, w2] =
      Some [t0, t1, t2] \<and>
    stream_told read_told t2 = Some st \<and> replicate 70400 1 = played @ rest \<and>
    heard (open_packet (h_aead telling_host) (sd_shk st)) (\<lambda>b. b) (sent_to 0 (packets outs)) = Some (pcm played)"
proof -
  obtain c lk c' s outs s' where
    1: "connect_with_pin telling_host (answering_shake []) sample_receiver default_config ''3939'' = Some (Inr c, lk)"
    and 2: "start_streaming_live telling_host sample_decoder c = (Inr (), c')" "cn_streamer c' = Some s"
    and 3: "run_io (streamer_step (\<lambda>_ _ _. Inl Panic)) s (turns 11 sample_tick) = (outs, s')"
    and 4: "length (packets outs) = 3" "loop_running s'" "line_str (conn_uri c)"
    "\<forall>kv \<in> set (session_headers (lk_conn (cn_link c'))). header_clean kv"
    by (rule told_sample)
  have answers: "hw_answers (answering_shake []) = reply [1, 2] # reply toy_m2 # reply sample_m4 # silence #
      [sealed_reply sample_key 0, sealed_reply sample_key 1, silence]"
    by (simp add: answering_shake_def sample_shake_def)
  have "ex_written silence" "aead_ok (h_aead telling_host)"
    "\<forall>salt ikm info n okm. pe_hkdf (hw_pair (answering_shake [])) salt ikm info n = Some okm \<longrightarrow> length okm = n"
    "\<forall>r b. enc_phase2 (h_plists telling_host) r = Inr b \<longrightarrow> read_told b = Some r"
    "length (hw_key (answering_shake [])) = 32"
    "lossless_codec (\<lambda>b. b) (h_codec telling_host) (audio_format default_config)"
    using telling_host_facts(6) sample_lossless
    by (simp_all add: silence_def telling_host_facts plain_aead_ok answering_shake_def sample_shake_def toy_env_def
        sample_host_def)
  from paired_receiver_hears_the_source [OF 1 answers this(1) 2 this(2-5) 4(3,4) sample_packable this(6)
      sample_comes_to 3 4(2)]
  show ?thesis
    by (elim exE conjE) (intro exI conjI, rule 1, rule 2(1), rule 2(2), rule 3, rule 4(1), assumption+)
qed

end
