(* ===== verification/Sealed_Channel.thy ===== *)
theory Sealed_Channel
  imports Stream_Keys
begin

text \<open>
  The control channel over the life of a connection (\<open>src/rtsp/connection.rs\<close>,
  \<open>src/crypto/chacha.rs\<close>, \<open>src/client/connection.rs\<close>): whatever is called, whatever is answered, however
  late or garbled, the requests stay in order under consecutive counters, so that the receiver can open
  all of them. The theory adds no definition of the code.
\<close>

section \<open>What the operations of a connection do to its link\<close>

text \<open>An operation touches the link of its connection only by sending a request, with or without an outer
  time-out, by adding a session header and by closing it. What these keep, every call keeps.\<close>

locale link_machine =
  fixes a :: aead and I :: "link \<Rightarrow> bool"
  assumes send: "h_aead h = a \<Longrightarrow> I lk \<Longrightarrow> rtsp_send h r lk = (res, lk') \<Longrightarrow> I lk'"
    and late: "I lk \<Longrightarrow> I (lk\<lparr>lk_answers := silence # tl (lk_answers lk)\<rparr>)"
    and header: "I lk \<Longrightarrow> I (lk\<lparr>lk_conn := add_session_header k v (lk_conn lk)\<rparr>)"
    and close: "I lk \<Longrightarrow> I (lk\<lparr>lk_conn := connection_close (lk_conn lk)\<rparr>)"
begin

definition holds :: "('x, connection) call \<Rightarrow> bool" where
  "holds r \<longleftrightarrow> I (cn_link (snd r))"

lemma holds_simps [simp]: "holds (res, c) = I (cn_link c)" by (simp add: holds_def)

lemma holds_bind:
  "holds r \<Longrightarrow> (\<And>x c. I (cn_link c) \<Longrightarrow> holds (f x c)) \<Longrightarrow> holds (bind_in r f)"
  by (cases r; cases "fst r") (auto simp: bind_in_def split: sum.splits)

lemma holds_from_res: "I (cn_link c) \<Longrightarrow> holds (from_res r c)"
  by (cases r) simp_all

lemma holds_best_effort: "holds r \<Longrightarrow> holds (best_effort r)"
  by (cases r) (auto simp: best_effort_def split: sum.splits fault.splits)

lemma holds_session: "I (cn_link c) \<Longrightarrow> holds (on_session f c)"
  by (simp add: on_session_def split: prod.split)

lemma holds_request:
  assumes "h_aead h = a" and "I (cn_link c)" shows "holds (send_request h r c)"
  using send [OF assms] by (auto simp: send_request_def split: prod.split)

lemma timeout_holds:
  assumes "h_aead h = a" and "I lk" and "rtsp_send_timeout h r lk = (res, lk')" shows "I lk'"
  using assms(3) send [OF assms(1)] assms(2) late [OF assms(2)]
  by (fastforce simp: rtsp_send_timeout_def split: if_splits prod.splits)

lemma holds_flush: "h_aead h = a \<Longrightarrow> I (cn_link c) \<Longrightarrow> holds (send_flush h sq t c)"
  unfolding send_flush_def by (rule holds_bind, rule holds_request) simp_all

lemma holds_volume_db: "h_aead h = a \<Longrightarrow> I (cn_link c) \<Longrightarrow> holds (conn_set_volume_db h v c)"
  unfolding conn_set_volume_db_def Let_def by (rule holds_bind, rule holds_request) simp_all

lemma holds_volume: "h_aead h = a \<Longrightarrow> I (cn_link c) \<Longrightarrow> holds (conn_set_volume_linear h v c)"
  unfolding conn_set_volume_linear_def Let_def by (rule holds_volume_db)

lemma holds_initial_record:
  assumes "h_aead h = a" and "I (cn_link c)" shows "holds (best_effort_send_initial_record h c)"
  using timeout_holds [OF assms]
  by (auto simp: best_effort_send_initial_record_def holds_best_effort split: prod.split option.split)

lemma holds_feedback:
  assumes "h_aead h = a" and "I (cn_link c)" shows "holds (conn_send_feedback h c)"
  using timeout_holds [OF assms]
  by (auto simp: conn_send_feedback_def bind_in_def split: prod.split option.split sum.split)

lemma holds_setup_media:
  assumes "h_aead h = a" and "I (cn_link c)" shows "holds (setup_rtsp_media_session h port as c)"
  unfolding setup_rtsp_media_session_def Let_def
  by (intro holds_bind holds_from_res holds_request holds_session holds_initial_record assms(1))
    (simp_all add: assms header)

lemma holds_setup:
  assumes "h_aead h = a" and "I (cn_link c)" shows "holds (connection_setup h c)"
proof -
  have "cn_link (setup_clock h c1) = cn_link c1" for c1
    by (auto simp: setup_clock_def Let_def split: timing_protocol.split ptp_mode.split option.split)
  moreover have "holds (setup_timing_port h c)"
    using assms(2)
    by (auto simp: setup_timing_port_def intro!: holds_bind holds_from_res split: timing_protocol.split)
  ultimately show ?thesis
    unfolding connection_setup_def by (intro holds_bind holds_setup_media assms(1)) simp_all
qed

lemma link_mapped [simp]: "cn_link (map_streamer f c) = cn_link c" "cn_link (streamer_moved s c) = cn_link c"
  by (simp_all add: map_streamer_def streamer_moved_def)

lemma call_holds:
  assumes "h_aead h = a" and "I (cn_link c)" shows "holds (conn_call_step h call c)"
proof (cases call)
  case (CallStart d)
  show ?thesis
    unfolding CallStart conn_call_step.simps start_streaming_live_def Let_def split_def best_effort_send_flush_def
    by (intro holds_bind holds_from_res holds_session holds_best_effort holds_flush holds_volume assms(1))
      (use holds_setup [OF assms(1), of "c\<lparr>cn_listener := False\<rparr>"] assms(2) in simp_all)
next
  case CallDisconnect
  show ?thesis
    unfolding CallDisconnect conn_call_step.simps conn_disconnect_def Let_def
    by (rule holds_bind)
      (auto simp: assms close intro!: holds_bind holds_best_effort holds_session holds_request)
qed (use assms in \<open>auto simp: conn_pause_def conn_resume_def conn_stop_def best_effort_send_flush_def send_record_def Let_def
    intro!: holds_bind holds_request holds_session holds_best_effort holds_flush holds_setup holds_volume holds_volume_db holds_feedback\<close>)

lemma run_holds:
  "conn_run calls c = Some c' \<Longrightarrow> I (cn_link c) \<Longrightarrow> \<forall>(h, _, _) \<in> set calls. h_aead h = a \<Longrightarrow> I (cn_link c')"
proof (induction calls c rule: conn_run.induct)
  case (2 h s call calls c)
  have "I (cn_link (snd (conn_call_step h call (streamer_moved s c))))"
    using call_holds [of h "streamer_moved s c" call] 2(4,5) by (simp add: holds_def)
  with 2 show ?case by (auto split: prod.splits sum.splits fault.splits)
qed simp

end

section \<open>The receiver opens every request\<close>

text \<open>What a receiver makes of the bytes of several requests, and the cipher it has then.\<close>

fun open_all :: "aead \<Rightarrow> control_cipher \<Rightarrow> bytes list \<Rightarrow> (bytes list \<times> control_cipher) option" where
  "open_all a sc [] = Some ([], sc)"
| "open_all a sc (w # ws) =
     (case open_blocks a sc w of None \<Rightarrow> None | Some (t, sc') \<Rightarrow> map_option (apfst ((#) t)) (open_all a sc' ws))"

lemma open_texts_all: "open_texts a sc ws = map_option fst (open_all a sc ws)"
  by (induction ws arbitrary: sc) (auto split: option.split simp: option.map_comp comp_def)

lemma open_all_snoc:
  "open_all a sc ws = Some (ts, sc1) \<Longrightarrow> open_blocks a sc1 w = Some (t, sc2) \<Longrightarrow>
   open_all a sc (ws @ [w]) = Some (ts @ [t], sc2)"
  by (induction ws arbitrary: sc ts) (auto split: option.splits)

text \<open>The requests of a log that went out, with their bytes.\<close>

definition written :: "(rtsp_request \<times> bytes option) list \<Rightarrow> (rtsp_request \<times> bytes) list" where
  "written lg = map (\<lambda>(r, w). (r, the w)) (filter (\<lambda>(r, w). w \<noteq> None) lg)"

lemma written_simps [simp]:
  "written [] = []" "written (xs @ ys) = written xs @ written ys" "written [(r, Some w)] = [(r, w)]" "written [(r, None)] = []"
  by (simp_all add: written_def)

text \<open>The texts are the requests in order, with the session headers of their time, numbered from \<open>q\<close>.\<close>

definition carries :: "u32 \<Rightarrow> rtsp_request list \<Rightarrow> bytes list \<Rightarrow> bool" where
  "carries q rs ts \<longleftrightarrow> length ts = length rs \<and>
     (\<forall>i < length rs. \<exists>hs. ts ! i = request_serialize (with_session_headers hs (rs ! i)) (q + 1 + word_of_nat i))"

lemma carries_snoc:
  "carries q rs ts \<Longrightarrow> carries q (rs @ [r]) (ts @ [request_serialize (with_session_headers hs r) (q + word_of_nat (length ts) + 1)])"
  by (auto simp: carries_def nth_append less_Suc_eq algebra_simps)

text \<open>The receiver has opened everything that was written since the log had \<open>n\<close> entries; while the
  connection is open it is ready for the next request, and no request has been held back.\<close>

definition in_sync :: "aead \<Rightarrow> control_cipher \<Rightarrow> nat \<Rightarrow> u32 \<Rightarrow> link \<Rightarrow> bool" where
  "in_sync a sc n q lk \<longleftrightarrow> aead_ok a \<and> n \<le> length (lk_log lk) \<and> (\<forall>x \<in> set (lk_answers lk). ex_written x) \<and>
     (\<exists>ts sc'. open_all a sc (map snd (written (drop n (lk_log lk)))) = Some (ts, sc') \<and>
        carries q (map fst (written (drop n (lk_log lk)))) ts \<and>
        (conn_stream (lk_conn lk) \<longrightarrow> followed lk sc' \<and> conn_cseq (lk_conn lk) = q + word_of_nat (length ts) \<and>
           (\<forall>e \<in> set (drop n (lk_log lk)). snd e \<noteq> None)))"

lemma tl_all: "\<forall>x \<in> set xs. P x \<Longrightarrow> \<forall>x \<in> set (tl xs). P x"
  by (cases xs) simp_all

lemma in_sync_link:
  assumes "in_sync a sc n q lk" and "lk_log lk' = lk_log lk" and "\<forall>x \<in> set (lk_answers lk'). ex_written x"
    and "conn_stream (lk_conn lk') \<Longrightarrow> conn_stream (lk_conn lk) \<and> conn_cipher (lk_conn lk') = conn_cipher (lk_conn lk) \<and>
      conn_cseq (lk_conn lk') = conn_cseq (lk_conn lk)"
  shows "in_sync a sc n q lk'"
  using assms by (auto simp: in_sync_def followed_def)

lemma send_cseq:
  "rtsp_send h r lk = (res, lk') \<Longrightarrow> conn_stream (lk_conn lk) \<Longrightarrow> conn_cseq (lk_conn lk') = conn_cseq (lk_conn lk) + 1"
  by (auto simp: rtsp_send_def connection_send_def wire_data_def next_cseq_def read_response_def Let_def
      split: if_splits prod.splits sum.splits option.splits)

lemma send_in_sync:
  assumes "in_sync (h_aead h) sc n q lk" and "rtsp_send h r lk = (res, lk')"
  shows "in_sync (h_aead h) sc n q lk'"
proof (cases "conn_stream (lk_conn lk)")
  case False
  with assms(2) have "lk_log lk' = lk_log lk @ [(r, None)]" "lk_conn lk' = lk_conn lk" "lk_answers lk' = lk_answers lk"
    by (auto simp: rtsp_send_def connection_send_def Let_def)
  with assms(1) False show ?thesis by (auto simp: in_sync_def)
next
  case True
  from assms(1) obtain ts sc' where o: "aead_ok (h_aead h)" "n \<le> length (lk_log lk)" "\<forall>x \<in> set (lk_answers lk). ex_written x"
      "open_all (h_aead h) sc (map snd (written (drop n (lk_log lk)))) = Some (ts, sc')"
      "carries q (map fst (written (drop n (lk_log lk)))) ts" "followed lk sc'"
      "conn_cseq (lk_conn lk) = q + word_of_nat (length ts)" "\<forall>e \<in> set (drop n (lk_log lk)). snd e \<noteq> None"
    using True by (auto simp: in_sync_def)
  have "ex_written (next_answer lk)" using o(3) by (auto simp: next_answer_def silence_def split: list.split)
  then obtain w where log: "lk_log lk' = lk_log lk @ [(r, Some w)]"
    by (rule written_logged [OF assms(2) _ True o(6,1)])
  obtain sc2 where open2: "open_blocks (h_aead h) sc' w =
      Some (request_serialize (with_session_headers (lk_conn lk) r) (q + word_of_nat (length ts) + 1), sc2)" "followed lk' sc2"
    using sent_opens [OF assms(2) log o(6,1)] o(7) by auto
  have "\<forall>x \<in> set (lk_answers lk'). ex_written x"
    using assms(2) tl_all [OF o(3)] True by (auto simp: rtsp_send_def Let_def split: prod.splits)
  moreover note open_all_snoc [OF o(4) open2(1)] carries_snoc [OF o(5), of r "lk_conn lk"] send_cseq [OF assms(2) True]
  ultimately show ?thesis using o(1,2,7,8) log open2(2) unfolding in_sync_def by (auto simp: add.assoc)
qed

interpretation sync: link_machine a "in_sync a sc n q" for a sc n q
proof (unfold_locales, goal_cases)
  case (1 h lk r res lk')
  then show ?case using send_in_sync by blast
next
  case (2 lk)
  then show ?case
    by (rule in_sync_link) (use 2 tl_all [of "lk_answers lk" ex_written] in \<open>simp_all add: in_sync_def silence_def\<close>)
next
  case (3 lk k v)
  then show ?case by (rule in_sync_link) (use 3 in \<open>auto simp: in_sync_def add_session_header_def\<close>)
next
  case (4 lk)
  then show ?case by (rule in_sync_link) (use 4 in \<open>auto simp: in_sync_def connection_close_def\<close>)
qed

section \<open>Claims\<close>

text \<open>C6: the control channel never gets out of step. On a connection that connecting has returned, make any
  calls in any order, with any answers of the receiver (short, garbled, late, missing) as long as the
  writes themselves succeed. The receiver that shares the secret of the pairing opens, with the keys of
  that secret alone, every request that has gone out since the channel was sealed, in order, each numbered
  one more than the one before; and while the connection is open none has been held back.\<close>

theorem receiver_opens_every_request:
  assumes "connect_with_pin h w dev cfg pin = Some (Inr c, lk)" and "hw_answers w = x1 # x2 # x3 # xs"
    and "\<forall>x \<in> set xs. ex_written x" and "aead_ok (h_aead h)"
    and "\<forall>salt ikm info n okm. pe_hkdf (hw_pair w) salt ikm info n = Some okm \<longrightarrow> length okm = n"
    and "conn_run calls c = Some c'" and "\<forall>(h', s, call) \<in> set calls. h_aead h' = h_aead h"
  shows "\<exists>cl pr keys ts. srp_client_new (pe_group (hw_pair w)) (hw_draws w) (as_bytes ''Pair-Setup'') (as_bytes pin) = Some cl \<and>
    proof_for (hw_pair w) cl pr \<and> derive_control_keys (pe_hkdf (hw_pair w)) (shared_secret pr) = Inr keys \<and>
    (let sent = written (drop 3 (lk_log (cn_link c'))) in
     open_texts (h_aead h) (control_cipher_new (sk_read_key keys) (sk_write_key keys)) (map snd sent) = Some ts \<and>
     carries 3 (map fst sent) ts \<and>
     (conn_stream (lk_conn (cn_link c')) \<longrightarrow> length (lk_log (cn_link c')) = 3 + length sent))"
proof -
  have hkdf: "\<And>salt ikm info n okm. pe_hkdf (hw_pair w) salt ikm info n = Some okm \<Longrightarrow> length okm = n"
    using assms(5) by blast
  obtain cl pr keys lk0 res where p:
    "srp_client_new (pe_group (hw_pair w)) (hw_draws w) (as_bytes ''Pair-Setup'') (as_bytes pin) = Some cl"
    "proof_for (hw_pair w) cl pr" "derive_control_keys (pe_hkdf (hw_pair w)) (shared_secret pr) = Inr keys"
    "followed lk0 (control_cipher_new (sk_read_key keys) (sk_write_key keys))" "conn_stream (lk_conn lk0)"
    "conn_cseq (lk_conn lk0) = 3" "length (lk_log lk0) = 3" "lk_answers lk0 = xs"
    "rtsp_send h options_request lk0 = (res, cn_link c)" "shk (cn_session c) = hw_key w"
    by (rule sealed_start [OF assms(1,2) hkdf])
  let ?sc = "control_cipher_new (sk_read_key keys) (sk_write_key keys)"
  have "in_sync (h_aead h) ?sc 3 3 lk0" using p(4,6-8) assms(3,4) by (simp add: in_sync_def carries_def)
  from sync.run_holds [OF assms(6) sync.send [OF refl this p(9)] assms(7)]
  have "in_sync (h_aead h) ?sc 3 3 (cn_link c')" .
  then obtain ts sc' where ts: "3 \<le> length (lk_log (cn_link c'))"
      "open_all (h_aead h) ?sc (map snd (written (drop 3 (lk_log (cn_link c'))))) = Some (ts, sc')"
      "carries 3 (map fst (written (drop 3 (lk_log (cn_link c'))))) ts"
      "conn_stream (lk_conn (cn_link c')) \<longrightarrow> (\<forall>e \<in> set (drop 3 (lk_log (cn_link c'))). snd e \<noteq> None)"
    by (auto simp: in_sync_def)
  have "length (lk_log (cn_link c')) = 3 + length (written (drop 3 (lk_log (cn_link c'))))"
    if "conn_stream (lk_conn (cn_link c'))"
  proof -
    have "filter (\<lambda>(r, w). w \<noteq> None) (drop 3 (lk_log (cn_link c'))) = drop 3 (lk_log (cn_link c'))"
      using ts(4) that by (intro filter_True) auto
    then show ?thesis using ts(1) by (simp add: written_def)
  qed
  with p(1-3) ts(2,3) show ?thesis by (auto simp: open_texts_all Let_def)
qed

text \<open>A connection that has been set up after pairing.\<close>

lemma told_setup_run:
  obtains c lk c' where
    "connect_with_pin telling_host (answering_shake []) sample_receiver default_config ''3939'' = Some (Inr c, lk)"
    "conn_run [(telling_host, sample_started, CallSetup)] c = Some c'" "conn_stream (lk_conn (cn_link c'))"
proof -
  let ?h = telling_host
  obtain c lk where 1: "connect_with_pin ?h (answering_shake []) sample_receiver default_config ''3939'' = Some (Inr c, lk)"
    and link: "sealed_link sample_key 0 [sealed_reply sample_key 0, sealed_reply sample_key 1, silence] (cn_link c)"
    using answering_connect by blast
  note con = connected_fields [OF 1]
  obtain ip where "cn_session c = (greeted ?h (answering_shake []) sample_receiver default_config
      (generate_device_id (hw_device_id (answering_shake []))) ip)\<lparr>ss_state := Paired\<rparr>"
    using connected_session(1) [OF 1] by blast
  then have enc: "encodes_phase2 ?h (cn_session c)" using told_encodes by simp
  obtain c2 where 2: "connection_setup ?h c = (Inr (), setup_clock ?h c2)" "sealed_link sample_key 2 [] (cn_link c2)"
    using connection_setup_answered [OF link con(1,2) telling_host_facts(1) enc] by blast
  have clock: "cn_link (setup_clock ?h c2) = cn_link c2"
    by (auto simp: setup_clock_def Let_def split: timing_protocol.split ptp_mode.split option.split)
  have "cn_streamer c = None" using con by simp
  then have "streamer_moved sample_started c = c" by (simp add: streamer_moved_def map_streamer_None)
  with that [OF 1] 2 clock show thesis by (simp add: sealed_link_def)
qed

theorem receiver_opens_every_request_witness:
  "\<exists>c lk c' (keys :: session_keys) ts.
    connect_with_pin telling_host (answering_shake []) sample_receiver default_config ''3939'' = Some (Inr c, lk) \<and>
    conn_run [(telling_host, sample_started, CallSetup)] c = Some c' \<and>
    (let sent = written (drop 3 (lk_log (cn_link c'))) in
     open_texts plain_aead (control_cipher_new (sk_read_key keys) (sk_write_key keys)) (map snd sent) = Some ts \<and>
     carries 3 (map fst sent) ts \<and> length (lk_log (cn_link c')) = 3 + length sent)"
proof -
  obtain c lk c' where
    1: "connect_with_pin telling_host (answering_shake []) sample_receiver default_config ''3939'' = Some (Inr c, lk)"
    and 2: "conn_run [(telling_host, sample_started, CallSetup)] c = Some c'" and 3: "conn_stream (lk_conn (cn_link c'))"
    by (rule told_setup_run)
  have answers: "hw_answers (answering_shake []) = reply [1, 2] # reply toy_m2 # reply sample_m4 # silence #
      [sealed_reply sample_key 0, sealed_reply sample_key 1, silence]"
    by (simp add: answering_shake_def sample_shake_def)
  have "\<forall>x \<in> set (silence # [sealed_reply sample_key 0, sealed_reply sample_key 1, silence]). ex_written x"
    "aead_ok (h_aead telling_host)"
    "\<forall>salt ikm info n okm. pe_hkdf (hw_pair (answering_shake [])) salt ikm info n = Some okm \<longrightarrow> length okm = n"
    "\<forall>(h', s, call) \<in> set [(telling_host, sample_started, CallSetup)]. h_aead h' = h_aead telling_host"
    by (simp_all add: silence_def sealed_reply_def telling_host_facts plain_aead_ok answering_shake_def sample_shake_def toy_env_def)
  from receiver_opens_every_request [OF 1 answers this(1-3) 2 this(4)] 1 2 3 show ?thesis
    unfolding telling_host_facts(2) Let_def by blast
qed

end
