(* ===== verification/Listener.thy ===== *)
theory Listener
  imports Control
begin

text \<open>
  The thread of a control listener and its life (\<open>ControlListener\<close> of \<open>src/client/control.rs\<close>): spawning,
  the loop with its shutdown flag, the rotation over the sockets of a group, \<open>stop\<close> and \<open>drop\<close>. The answers
  themselves are \<open>single_step\<close> and \<open>group_step\<close> of \<open>Control\<close>. The flag is read once before each receive;
  what another thread does to it falls between two turns.
\<close>

section \<open>The listener and its thread\<close>

record control_listener =
  cl_shutdown :: bool
  cl_handle :: bool

text \<open>The listener with its thread (the number of the socket it reads next, as long as it runs) and the
  statistics they share.\<close>

record listening =
  ls_listener :: control_listener
  ls_thread :: "nat option"
  ls_stats :: stream_stats

text \<open>The operating system may refuse the thread; the listener is then one without a handle.\<close>

definition spawned :: "bool \<Rightarrow> stream_stats \<Rightarrow> listening" where
  "spawned thread st =
     \<lparr>ls_listener = \<lparr>cl_shutdown = False, cl_handle = thread\<rparr>, ls_thread = (if thread then Some 0 else None), ls_stats = st\<rparr>"

definition spawn_single :: "bool \<Rightarrow> stream_stats \<Rightarrow> listening" where
  "spawn_single thread st = spawned thread st"

definition spawn_group_listener :: "nat list \<Rightarrow> bool \<Rightarrow> stream_stats \<Rightarrow> listening option" where
  "spawn_group_listener sockets thread st = (if sockets = [] then None else Some (spawned thread st))"

text \<open>One turn of a loop over \<open>n\<close> sockets.\<close>

definition listener_turn ::
  "(nat \<Rightarrow> stream_stats \<Rightarrow> control_event \<Rightarrow> bytes list \<times> stream_stats) \<Rightarrow> nat \<Rightarrow> control_event \<Rightarrow> listening
     \<Rightarrow> bytes list \<times> listening" where
  "listener_turn serve n ev l =
     (case ls_thread l of
        None \<Rightarrow> ([], l)
      | Some i \<Rightarrow>
          if cl_shutdown (ls_listener l) then ([], l\<lparr>ls_thread := None\<rparr>)
          else (let (outs, st) = serve i (ls_stats l) ev
                in (outs, l\<lparr>ls_stats := st, ls_thread := Some (Suc i mod n)\<rparr>)))"

definition single_turn :: "rtp_receiver \<Rightarrow> control_event \<Rightarrow> listening \<Rightarrow> bytes list \<times> listening" where
  "single_turn r = listener_turn (\<lambda>i. single_step r) 1"

definition group_turn :: "nat list \<Rightarrow> control_event \<Rightarrow> listening \<Rightarrow> bytes list \<times> listening" where
  "group_turn sockets = listener_turn (\<lambda>i st ev. group_step st (sockets ! i, ev)) (length sockets)"

text \<open>\<open>stop\<close> sets the flag, takes the handle and, if there was one, waits until the thread has ended; \<open>drop\<close>
  only sets the flag.\<close>

definition stop_signal :: "listening \<Rightarrow> bool \<times> listening" where
  "stop_signal l = (cl_handle (ls_listener l), l\<lparr>ls_listener := \<lparr>cl_shutdown = True, cl_handle = False\<rparr>\<rparr>)"

definition joined :: "bool \<Rightarrow> listening \<Rightarrow> bool" where
  "joined waits l \<longleftrightarrow> \<not> waits \<or> ls_thread l = None"

definition listener_drop :: "listening \<Rightarrow> listening" where
  "listener_drop l = l\<lparr>ls_listener := (ls_listener l)\<lparr>cl_shutdown := True\<rparr>\<rparr>"

text \<open>What happens, in order.\<close>

datatype listener_event = Turn control_event | StopSignal | Dropped

fun listener_step ::
  "(control_event \<Rightarrow> listening \<Rightarrow> bytes list \<times> listening) \<Rightarrow> listening \<Rightarrow> listener_event \<Rightarrow> bytes list \<times> listening" where
  "listener_step turn l (Turn ev) = turn ev l"
| "listener_step turn l StopSignal = ([], snd (stop_signal l))"
| "listener_step turn l Dropped = ([], listener_drop l)"

section \<open>After the end\<close>

text \<open>A listener that has been told to stop.\<close>

locale stopping =
  fixes turn :: "control_event \<Rightarrow> listening \<Rightarrow> bytes list \<times> listening"
  assumes last_turn: "cl_shutdown (ls_listener l) \<Longrightarrow> turn ev l = ([], l\<lparr>ls_thread := None\<rparr>)"
begin

lemma silent_step:
  assumes "cl_shutdown (ls_listener l)" and "listener_step turn l ev = (outs, l')"
  shows "outs = [] \<and> cl_shutdown (ls_listener l') \<and> ls_stats l' = ls_stats l \<and>
    (ls_thread l = None \<or> (\<exists>e. ev = Turn e) \<longrightarrow> ls_thread l' = None)"
  using assms by (cases ev) (auto simp: last_turn stop_signal_def listener_drop_def)

lemma silent_run:
  "cl_shutdown (ls_listener l) \<Longrightarrow> run_io (listener_step turn) l evs = (outs, l') \<Longrightarrow>
   outs = [] \<and> ls_stats l' = ls_stats l \<and> (ls_thread l = None \<or> (\<exists>e. Turn e \<in> set evs) \<longrightarrow> ls_thread l' = None)"
proof (induction evs arbitrary: l outs)
  case (Cons ev evs)
  obtain o1 l1 where one: "listener_step turn l ev = (o1, l1)" by (cases "listener_step turn l ev")
  obtain o2 where more: "run_io (listener_step turn) l1 evs = (o2, l')" "outs = o1 @ o2"
    using Cons.prems(2) one by (auto split: prod.splits)
  note step = silent_step [OF Cons.prems(1) one]
  from Cons.IH [OF _ more(1)] step more(2) show ?case by auto
qed simp

end

interpretation one: stopping "single_turn r" for r
  by unfold_locales (auto simp: single_turn_def listener_turn_def split: option.split)

interpretation all: stopping "group_turn sockets" for sockets
  by unfold_locales (auto simp: group_turn_def listener_turn_def split: option.split)

text \<open>\<open>stop\<close> of a group's listener returns after one more turn of its thread at most, and from the signal on no
  request is answered or counted, whatever arrives.\<close>

theorem stopped_listener_is_silent:
  assumes "stop_signal l = (waits, l1)" and "run_io (listener_step (group_turn sockets)) l1 evs = (outs, l2)"
  shows "outs = [] \<and> ls_stats l2 = ls_stats l \<and> ((\<exists>ev. Turn ev \<in> set evs) \<longrightarrow> joined waits l2)"
proof -
  have "cl_shutdown (ls_listener l1)" "ls_stats l1 = ls_stats l" using assms(1) by (auto simp: stop_signal_def)
  with all.silent_run [OF _ assms(2)] show ?thesis by (auto simp: joined_def)
qed

section \<open>The rotation\<close>

text \<open>Until then a group's thread reads its sockets in turn, so that every device is served once in as many
  turns as there are sockets, and does to each datagram what \<open>listen_group\<close> does.\<close>

definition rotation :: "nat list \<Rightarrow> nat \<Rightarrow> control_event list \<Rightarrow> (nat \<times> control_event) list" where
  "rotation sockets i evs = map (\<lambda>k. (sockets ! ((i + k) mod length sockets), evs ! k)) [0..<length evs]"

lemma rotation_Cons:
  "rotation sockets i (ev # evs) = (sockets ! (i mod length sockets), ev) # rotation sockets (Suc i) evs"
  by (simp add: rotation_def upt_conv_Cons map_Suc_upt [symmetric] comp_def del: upt_Suc)

lemma rotation_mod: "rotation sockets (i mod length sockets) evs = rotation sockets i evs"
  by (simp add: rotation_def mod_add_left_eq)

lemma group_rotates:
  assumes "sockets \<noteq> []"
  shows "ls_thread l = Some i \<Longrightarrow> i < length sockets \<Longrightarrow> \<not> cl_shutdown (ls_listener l) \<Longrightarrow>
    run_io (listener_step (group_turn sockets)) l (map Turn evs) =
      (fst (listen_group (ls_stats l) (rotation sockets i evs)),
       l\<lparr>ls_stats := snd (listen_group (ls_stats l) (rotation sockets i evs)),
         ls_thread := Some ((i + length evs) mod length sockets)\<rparr>)"
proof (induction evs arbitrary: l i)
  case Nil
  then show ?case by (simp add: rotation_def listen_group_def)
next
  case (Cons ev evs)
  obtain outs st where one: "group_step (ls_stats l) (sockets ! i, ev) = (outs, st)"
    by (cases "group_step (ls_stats l) (sockets ! i, ev)")
  let ?l = "l\<lparr>ls_stats := st, ls_thread := Some (Suc i mod length sockets)\<rparr>"
  have "group_turn sockets ev l = (outs, ?l)"
    using Cons.prems one by (simp add: group_turn_def listener_turn_def)
  moreover have "run_io (listener_step (group_turn sockets)) ?l (map Turn evs) =
      (fst (listen_group st (rotation sockets (Suc i) evs)),
       l\<lparr>ls_stats := snd (listen_group st (rotation sockets (Suc i) evs)),
         ls_thread := Some ((Suc i + length evs) mod length sockets)\<rparr>)"
    using Cons.IH [of ?l "Suc i mod length sockets"] Cons.prems assms
    by (simp add: rotation_mod mod_add_left_eq)
  ultimately show ?case
    using one Cons.prems(2) by (simp add: rotation_Cons listen_group_def split_def Let_def)
qed

theorem group_listener_rotates:
  assumes "spawn_group_listener sockets True st = Some l"
  shows "fst (run_io (listener_step (group_turn sockets)) l (map Turn evs)) = fst (listen_group st (rotation sockets 0 evs))"
    and "ls_stats (snd (run_io (listener_step (group_turn sockets)) l (map Turn evs))) =
      snd (listen_group st (rotation sockets 0 evs))"
  using assms group_rotates [of sockets l 0 evs]
  by (auto simp: spawn_group_listener_def spawned_def split: if_splits)

text \<open>A listener whose thread the operating system refused answers nothing and its \<open>stop\<close> does not wait; a
  device that asks again gets no packet and no error.\<close>

theorem refused_listener_is_deaf:
  assumes "spawn_group_listener sockets False st = Some l"
  shows "run_io (listener_step (group_turn sockets)) l (map Turn evs) = ([], l) \<and> joined (fst (stop_signal l)) l"
proof -
  have "ls_thread l = None" "\<not> cl_handle (ls_listener l)"
    using assms by (auto simp: spawn_group_listener_def spawned_def split: if_splits)
  then show ?thesis by (induction evs) (simp_all add: group_turn_def listener_turn_def joined_def stop_signal_def)
qed

lemma spawn_group_presence: "spawn_group sockets \<longleftrightarrow> spawn_group_listener sockets thread st \<noteq> None"
  by (simp add: spawn_group_def spawn_group_listener_def)

end
