(* ===== verification/Sockets.thy ===== *)
theory Sockets
  imports Ptp_Flow Connection Sender_Thread
begin

text \<open>
  What the program asks of the operating system outside its loops: UDP sockets and their ports
  (\<open>bind\<close> in \<open>src/audio/rtp/sender.rs\<close> and \<open>src/timing/ntp.rs\<close>, the openings of the two PTP tasks in
  \<open>src/timing/ptp/flows\<close>), socket options (\<open>src/audio/rtp/socket.rs\<close>), and what the sender thread does
  with its priority, the wireless interface and the clock (\<open>src/audio/sender_thread.rs\<close>).

  The system is the ports that are in use, the ports the process may bind, and the ports it would give
  to a socket that asks for any. A bound socket always tells its port.
\<close>

section \<open>UDP ports\<close>

record udp_os =
  uo_bound :: "u16 list"
  uo_allowed :: "u16 \<Rightarrow> bool"
  uo_ephemeral :: "u16 list"

definition udp_bind :: "u16 \<Rightarrow> udp_os \<Rightarrow> (error + u16) \<times> udp_os" where
  "udp_bind port os =
     (let candidates = (if port = 0 then uo_ephemeral os else if uo_allowed os port then [port] else []) in
      case filter (\<lambda>p. p \<notin> set (uo_bound os)) candidates of
        [] \<Rightarrow> (Inl (Connection_error ''io''), os)
      | p # _ \<Rightarrow> (Inr p, os\<lparr>uo_bound := p # uo_bound os\<rparr>))"

definition udp_close :: "u16 \<Rightarrow> udp_os \<Rightarrow> udp_os" where
  "udp_close p os = os\<lparr>uo_bound := removeAll p (uo_bound os)\<rparr>"

text \<open>\<open>set_socket_qos\<close>: every option is asked for, whatever became of the ones before; the result is what
  the system has accepted.\<close>

datatype sock_option = IpTos nat | SoSndBuf nat | SoPriority nat

definition qos_options :: "bool \<Rightarrow> sock_option list" where
  "qos_options linux = [IpTos 0xB8, SoSndBuf (1024 * 1024)] @ (if linux then [SoPriority 6] else [])"

definition set_socket_qos :: "bool \<Rightarrow> (sock_option \<Rightarrow> bool) \<Rightarrow> sock_option list" where
  "set_socket_qos linux accepted = filter accepted (qos_options linux)"

text \<open>\<open>RtpSender::bind\<close>: the port, the options that are set, the sender.\<close>

definition rtp_bind ::
  "bool \<Rightarrow> (sock_option \<Rightarrow> bool) \<Rightarrow> u16 \<Rightarrow> rtp_sender \<Rightarrow> udp_os \<Rightarrow>
   (error + u16 \<times> sock_option list) \<times> rtp_sender \<times> udp_os" where
  "rtp_bind linux accepted local_port s os =
     (case udp_bind local_port os of
        (Inl e, os) \<Rightarrow> (Inl e, s, os)
      | (Inr port, os) \<Rightarrow> (Inr (port, set_socket_qos linux accepted), s\<lparr>rtp_socket := True\<rparr>, os))"

section \<open>The NTP timing server\<close>

record ntp_server =
  nts_port :: u16
  nts_shutdown :: bool
  nts_task :: bool

definition ntp_server_start :: "udp_os \<Rightarrow> (error + ntp_server) \<times> udp_os" where
  "ntp_server_start os =
     (case udp_bind 0 os of
        (Inl e, os) \<Rightarrow> (Inl e, os)
      | (Inr port, os) \<Rightarrow> (Inr \<lparr>nts_port = port, nts_shutdown = False, nts_task = True\<rparr>, os))"

text \<open>A turn of the task: a datagram, with the clock before and after it is parsed, or a change of the
  shutdown flag.\<close>

datatype ntp_event = NtpDatagram bytes u128 u128 | NtpRecvError | NtpShutdownChanged

definition ntp_server_step :: "ntp_server \<Rightarrow> ntp_event \<Rightarrow> bytes list \<times> ntp_server" where
  "ntp_server_step s ev =
     (if \<not> nts_task s then ([], s)
      else (case ev of
          NtpDatagram d t_recv t_send \<Rightarrow> (case ntp_run_loop_step d t_recv t_send of None \<Rightarrow> [] | Some r \<Rightarrow> [r], s)
        | NtpRecvError \<Rightarrow> ([], s)
        | NtpShutdownChanged \<Rightarrow> ([], if nts_shutdown s then s\<lparr>nts_task := False\<rparr> else s)))"

text \<open>\<open>stop\<close> waits for the task, which sees the flag.\<close>

definition ntp_server_stop :: "ntp_server \<Rightarrow> ntp_server" where
  "ntp_server_stop s = snd (ntp_server_step (s\<lparr>nts_shutdown := True\<rparr>) NtpShutdownChanged)"

section \<open>The openings of the PTP tasks\<close>

definition bind_or_ephemeral :: "u16 \<Rightarrow> udp_os \<Rightarrow> (error + u16) \<times> udp_os" where
  "bind_or_ephemeral port os =
     (case udp_bind port os of (Inr p, os) \<Rightarrow> (Inr p, os) | (Inl _, os) \<Rightarrow> udp_bind 0 os)"

text \<open>A failure drops the first socket.\<close>

definition ptp_sockets :: "udp_os \<Rightarrow> (error + u16 \<times> u16) \<times> udp_os" where
  "ptp_sockets os =
     (case bind_or_ephemeral PTP_EVENT_PORT os of
        (Inl e, os) \<Rightarrow> (Inl e, os)
      | (Inr ep, os) \<Rightarrow>
          (case bind_or_ephemeral PTP_GENERAL_PORT os of
             (Inl e, os) \<Rightarrow> (Inl e, udp_close ep os)
           | (Inr gp, os) \<Rightarrow> (Inr (ep, gp), os)))"

record 'a ptp_task =
  pt_event_port :: u16
  pt_general_port :: u16
  pt_state :: 'a

definition run_ptp_slave :: "u128 \<Rightarrow> udp_os \<Rightarrow> (error + ptp_out list \<times> slave ptp_task) \<times> udp_os" where
  "run_ptp_slave now os =
     (case ptp_sockets os of
        (Inl e, os) \<Rightarrow> (Inl e, os)
      | (Inr (ep, gp), os) \<Rightarrow>
          (let (outs, s) = slave_start now
           in (Inr (outs, \<lparr>pt_event_port = ep, pt_general_port = gp, pt_state = s\<rparr>), os)))"

definition run_bmca_yield_flow ::
  "ip_addr \<Rightarrow> u8 \<Rightarrow> u128 \<Rightarrow> (nat \<Rightarrow> u128) \<Rightarrow> (nat \<Rightarrow> bool) \<Rightarrow> udp_os \<Rightarrow>
   (error + ptp_out list \<times> bmca ptp_task) \<times> udp_os" where
  "run_bmca_yield_flow master_ip priority1 now sync_at sent os =
     (case ptp_sockets os of
        (Inl e, os) \<Rightarrow> (Inl e, os)
      | (Inr (ep, gp), os) \<Rightarrow>
          (let (outs, s) = bmca_start master_ip priority1 now sync_at sent
           in (Inr (outs, \<lparr>pt_event_port = ep, pt_general_port = gp, pt_state = s\<rparr>), os)))"

text \<open>What the network and the timer bring to this host. The system gives a datagram to the socket that has
  its port; what the select loop then sees are the events of the machines.\<close>

datatype arrival = Arrival ip_addr u16 bytes u128 bool | Timer bool

fun slave_sees :: "'a ptp_task \<Rightarrow> arrival \<Rightarrow> slave_event list" where
  "slave_sees t (Timer _) = [AnnounceTick]"
| "slave_sees t (Arrival src port d now _) =
     (if port = pt_event_port t then [EventRecv d now]
      else if port = pt_general_port t then [GeneralRecv d now] else [])"

fun bmca_sees :: "'a ptp_task \<Rightarrow> arrival \<Rightarrow> bmca_event list" where
  "bmca_sees t (Timer ok) = [Deadline ok]"
| "bmca_sees t (Arrival src port d now ok) =
     (if port = pt_event_port t then [BmEvent src d now]
      else if port = pt_general_port t then [BmGeneral src d now ok] else [])"

section \<open>The sender thread and the machine it runs on\<close>

datatype sched_policy = SchedFifo nat

text \<open>\<open>set_realtime_priority\<close>: the policy the thread gets, if any.\<close>

definition set_realtime_priority :: "bool \<Rightarrow> bool \<Rightarrow> sched_policy option" where
  "set_realtime_priority linux granted = (if linux \<and> granted then Some (SchedFifo 50) else None)"

text \<open>The interfaces \<open>iw\<close> was called for, and the one it worked for.\<close>

fun try_interfaces :: "(string \<Rightarrow> bool) \<Rightarrow> string list \<Rightarrow> string list \<times> string option" where
  "try_interfaces works [] = ([], None)"
| "try_interfaces works (i # rest) =
     (if works i then ([i], Some i) else (let (tried, found) = try_interfaces works rest in (i # tried, found)))"

definition disable_wifi_power_save :: "bool \<Rightarrow> (string \<Rightarrow> bool) \<Rightarrow> string list \<times> string option" where
  "disable_wifi_power_save linux works =
     (if linux then try_interfaces works [''wlan0'', ''wlp2s0'', ''wlp3s0''] else ([], None))"

record timespec =
  tv_sec :: i64
  tv_nsec :: i64

definition deadline_timespec :: "u64 \<Rightarrow> timespec" where
  "deadline_timespec deadline_ns =
     \<lparr>tv_sec = deadline_ns div 1000000000, tv_nsec = deadline_ns mod 1000000000\<rparr>"

definition monotonic_now_ns :: "timespec \<Rightarrow> u64" where
  "monotonic_now_ns ts = tv_sec ts * 1000000000 + tv_nsec ts"

section \<open>Lemmas: ports\<close>

text \<open>No port is given twice, and port 0 to nobody.\<close>

definition os_ok :: "udp_os \<Rightarrow> bool" where
  "os_ok os \<longleftrightarrow> distinct (uo_bound os) \<and> 0 \<notin> set (uo_bound os) \<and> 0 \<notin> set (uo_ephemeral os)"

lemma udp_bind_cases:
  obtains (err) e where "udp_bind port os = (Inl e, os)"
  | (ok) p where "udp_bind port os = (Inr p, os\<lparr>uo_bound := p # uo_bound os\<rparr>)" "p \<notin> set (uo_bound os)"
      "if port = 0 then p \<in> set (uo_ephemeral os) else p = port \<and> uo_allowed os port"
proof -
  let ?c = "if port = 0 then uo_ephemeral os else if uo_allowed os port then [port] else []"
  let ?free = "filter (\<lambda>p. p \<notin> set (uo_bound os)) ?c"
  show thesis
  proof (cases ?free)
    case Nil
    then have "udp_bind port os = (Inl (Connection_error ''io''), os)" unfolding udp_bind_def Let_def by simp
    then show thesis by (rule err)
  next
    case (Cons p ps)
    then have "p \<in> set ?free" by simp
    then have "p \<notin> set (uo_bound os)" "p \<in> set ?c" by simp_all
    moreover have "udp_bind port os = (Inr p, os\<lparr>uo_bound := p # uo_bound os\<rparr>)"
      using Cons unfolding udp_bind_def Let_def by simp
    ultimately show thesis by (intro ok [of p]) (auto split: if_splits)
  qed
qed

lemma udp_bind_ok: "udp_bind port os = (res, os') \<Longrightarrow> os_ok os \<Longrightarrow> os_ok os'"
  by (cases rule: udp_bind_cases [of port os]) (auto simp: os_ok_def split: if_splits)

definition available :: "u16 \<Rightarrow> udp_os \<Rightarrow> bool" where
  "available p os \<longleftrightarrow> uo_allowed os p \<and> p \<notin> set (uo_bound os)"

lemma udp_bind_available: "available p os \<Longrightarrow> p \<noteq> 0 \<Longrightarrow> udp_bind p os = (Inr p, os\<lparr>uo_bound := p # uo_bound os\<rparr>)"
  by (simp add: udp_bind_def available_def)

text \<open>The port a PTP task wants is the one it gets if it is available; otherwise it gets any.\<close>

lemma bind_or_ephemeral_cases:
  assumes "port \<noteq> 0"
  obtains (err) e where "bind_or_ephemeral port os = (Inl e, os)" "\<not> available port os"
  | (ok) p where "bind_or_ephemeral port os = (Inr p, os\<lparr>uo_bound := p # uo_bound os\<rparr>)" "p \<notin> set (uo_bound os)"
      "if available port os then p = port else p \<in> set (uo_ephemeral os)"
proof (cases "available port os")
  case True
  with udp_bind_available [OF True assms] show thesis
    by (intro ok [of port]) (simp_all add: bind_or_ephemeral_def available_def)
next
  case False
  then have first: "fst (udp_bind port os) = Inl e \<and> snd (udp_bind port os) = os"
    if "e = Connection_error ''io''" for e
    using assms that by (auto simp: udp_bind_def available_def)
  then have "bind_or_ephemeral port os = udp_bind 0 os"
    by (cases "udp_bind port os") (simp add: bind_or_ephemeral_def)
  then show thesis
    by (cases rule: udp_bind_cases [of 0 os]) (use False err ok in auto)
qed

lemma ptp_sockets_cases:
  obtains (err) e where "ptp_sockets os = (Inl e, os)"
  | (ok) ep gp where "ptp_sockets os = (Inr (ep, gp), os\<lparr>uo_bound := gp # ep # uo_bound os\<rparr>)"
      "ep \<notin> set (uo_bound os)" "gp \<notin> set (uo_bound os)" "gp \<noteq> ep"
      "if available 319 os then ep = 319 else ep \<in> set (uo_ephemeral os)"
      "if available 320 os \<and> ep \<noteq> 320 then gp = 320 else gp \<in> set (uo_ephemeral os)"
proof -
  have nz: "(319 :: u16) \<noteq> 0" "(320 :: u16) \<noteq> 0" by simp_all
  from nz(1) show thesis
  proof (cases rule: bind_or_ephemeral_cases [where os = os])
  case (err e)
  with that(1) show thesis by (simp add: ptp_sockets_def PTP_EVENT_PORT_def)
next
  case (ok ep)
  let ?os = "os\<lparr>uo_bound := ep # uo_bound os\<rparr>"
  have closed: "udp_close ep ?os = os" using ok(2) by (simp add: udp_close_def removeAll_id)
  from nz(2) show thesis
  proof (cases rule: bind_or_ephemeral_cases [where os = ?os])
    case (err e)
    with ok(1) closed that(1) show thesis by (simp add: ptp_sockets_def PTP_EVENT_PORT_def PTP_GENERAL_PORT_def)
  next
    case gp: (ok gp)
    then have "if available 320 os \<and> ep \<noteq> 320 then gp = 320 else gp \<in> set (uo_ephemeral os)"
      by (auto simp: available_def split: if_splits)
    moreover have "ptp_sockets os = (Inr (ep, gp), os\<lparr>uo_bound := gp # ep # uo_bound os\<rparr>)"
      using ok(1) gp(1) by (simp add: ptp_sockets_def PTP_EVENT_PORT_def PTP_GENERAL_PORT_def)
    ultimately show thesis using that(2) ok(2,3) gp(2) by auto
  qed
qed
qed

section \<open>Tasks that cannot hear\<close>

text \<open>Datagrams come to the two ports of the protocol.\<close>

fun to_ptp_ports :: "arrival \<Rightarrow> bool" where
  "to_ptp_ports (Timer _) = True"
| "to_ptp_ports (Arrival src port d now ok) \<longleftrightarrow> port = PTP_EVENT_PORT \<or> port = PTP_GENERAL_PORT"

definition offsets :: "ptp_out list \<Rightarrow> clock_offset list" where
  "offsets outs = concat (map (\<lambda>out. case out of PublishOffset c \<Rightarrow> [c] | _ \<Rightarrow> []) outs)"

definition ptp_run :: "('a \<Rightarrow> 'e \<Rightarrow> ptp_out list \<times> 'a) \<Rightarrow> ('a ptp_task \<Rightarrow> arrival \<Rightarrow> 'e list) \<Rightarrow> 'a ptp_task \<Rightarrow>
   arrival list \<Rightarrow> ptp_out list" where
  "ptp_run step sees t arrivals = fst (run_io step (pt_state t) (concat (map (sees t) arrivals)))"

definition deaf :: "'a ptp_task \<Rightarrow> bool" where
  "deaf t \<longleftrightarrow> {pt_event_port t, pt_general_port t} \<inter> {PTP_EVENT_PORT, PTP_GENERAL_PORT} = {}"

lemma deaf_sees:
  "deaf t \<Longrightarrow> to_ptp_ports a \<Longrightarrow> set (slave_sees t a) \<subseteq> {AnnounceTick}"
  "deaf t \<Longrightarrow> to_ptp_ports a \<Longrightarrow> set (bmca_sees t a) \<subseteq> range Deadline"
  by (cases a; auto simp: deaf_def)+

lemma task_sockets:
  "run_ptp_slave now os = (Inr (outs, t), os') \<Longrightarrow>
   ptp_sockets os = (Inr (pt_event_port t, pt_general_port t), os') \<and> pt_state t = snd (slave_start now)"
  "run_bmca_yield_flow m p now sync_at sent os = (Inr (outs, u), os') \<Longrightarrow>
   ptp_sockets os = (Inr (pt_event_port u, pt_general_port u), os') \<and> pt_state u = snd (bmca_start m p now sync_at sent)"
  by (auto simp: run_ptp_slave_def run_bmca_yield_flow_def Let_def split: prod.splits sum.splits)

text \<open>A task for which neither port is to be had is deaf.\<close>

lemma unavailable_deaf:
  assumes "ptp_sockets os = (Inr (ep, gp), os')" and "\<not> available PTP_EVENT_PORT os" and "\<not> available PTP_GENERAL_PORT os"
    and "\<forall>p \<in> set (uo_ephemeral os). 1024 \<le> p"
  shows "{ep, gp} \<inter> {PTP_EVENT_PORT, PTP_GENERAL_PORT} = {}"
  using assms
  by (cases rule: ptp_sockets_cases [of os]) (auto simp: PTP_EVENT_PORT_def PTP_GENERAL_PORT_def)

lemma announce_run: "set evs \<subseteq> {AnnounceTick} \<Longrightarrow> offsets (fst (run_io slave_step s evs)) = []"
  by (induction evs arbitrary: s) (auto simp: offsets_def split_def Let_def)

lemma deadline_run:
  "set evs \<subseteq> range Deadline \<Longrightarrow> bm_phase s = Syncing \<Longrightarrow> run_io bmca_step s evs = ([], s)"
  by (induction evs) (auto simp: bmca_ops)

lemma deaf_negotiation:
  assumes "set evs \<subseteq> range Deadline" and "evs \<noteq> []" and "bm_phase s = Negotiating" and "bm_priority1 s < 255"
  shows "fst (run_io bmca_step s evs) = [PublishClockId (replicate 8 0)]"
proof -
  obtain ok rest where evs: "evs = Deadline ok # rest" using assms(1,2) by (cases evs) auto
  have "bmca_step s (Deadline ok) = ([PublishClockId (replicate 8 0)], s\<lparr>bm_phase := Syncing\<rparr>)"
    using assms(3,4) by (simp add: bmca_ops)
  with deadline_run [of rest "s\<lparr>bm_phase := Syncing\<rparr>"] assms(1) evs show ?thesis by simp
qed

text \<open>What the connection learns from the task: the first clock identity, the last offset.\<close>

definition negotiated :: "ptp_out list \<Rightarrow> host \<Rightarrow> host" where
  "negotiated outs h = h\<lparr>h_clock_id := (case clock_ids outs of [] \<Rightarrow> None | i # _ \<Rightarrow> Some i),
     h_offset := last (clock_offset_default # offsets outs)\<rparr>"

definition BMCA_YIELD_PRIORITY :: u8 where "BMCA_YIELD_PRIORITY = 250"

text \<open>Where neither port of the protocol is to be had (they are privileged, or another PTP service has
  them), SETUP as a master succeeds all the same: the task takes two other ports, hears nothing, and
  when its deadline passes the connection has the all-zero clock identity and the offset zero.\<close>

theorem setup_without_ptp_ports:
  assumes "run_bmca_yield_flow master_ip BMCA_YIELD_PRIORITY now sync_at (\<lambda>_. True) os = (Inr (outs, t), os')"
    and "\<not> available PTP_EVENT_PORT os" and "\<not> available PTP_GENERAL_PORT os"
    and "\<forall>p \<in> set (uo_ephemeral os). 1024 \<le> p"
    and "\<forall>a \<in> set arrivals. to_ptp_ports a" and "Timer ok \<in> set arrivals"
    and "timing_protocol (cn_config c) = Ptp" and "ptp_mode (cn_config c) = Master"
  shows "cn_clock_id (setup_clock (negotiated (ptp_run bmca_step bmca_sees t arrivals) h) c) = Some (replicate 8 0)"
    and "cn_timing_offset (setup_clock (negotiated (ptp_run bmca_step bmca_sees t arrivals) h) c) = Some clock_offset_default"
proof -
  note task = task_sockets(2) [OF assms(1)]
  have deaf: "deaf t" using unavailable_deaf [OF conjunct1 [OF task] assms(2-4)] by (simp add: deaf_def)
  have state: "bm_phase (pt_state t) = Negotiating" "bm_priority1 (pt_state t) < 255"
    by (simp_all add: task bmca_start_def split_def Let_def BMCA_YIELD_PRIORITY_def)
  let ?evs = "concat (map (bmca_sees t) arrivals)"
  have "set ?evs \<subseteq> range Deadline" using deaf_sees(2) [OF deaf] assms(5) by fastforce
  moreover have "?evs \<noteq> []" using assms(6) by (auto intro!: bexI [of _ "Timer ok"])
  ultimately have "ptp_run bmca_step bmca_sees t arrivals = [PublishClockId (replicate 8 0)]"
    unfolding ptp_run_def by (intro deaf_negotiation state)
  then show "cn_clock_id (setup_clock (negotiated (ptp_run bmca_step bmca_sees t arrivals) h) c) = Some (replicate 8 0)"
    and "cn_timing_offset (setup_clock (negotiated (ptp_run bmca_step bmca_sees t arrivals) h) c) = Some clock_offset_default"
    using assms(7,8) by (simp_all add: negotiated_def setup_clock_def offsets_def Let_def)
qed

text \<open>A process without privileges.\<close>

definition sample_os :: udp_os where
  "sample_os = \<lparr>uo_bound = [], uo_allowed = (\<lambda>p. 1024 \<le> p), uo_ephemeral = [40000, 40001, 40002]\<rparr>"

lemma sample_os_facts:
  "ptp_sockets sample_os = (Inr (40000, 40001), sample_os\<lparr>uo_bound := [40001, 40000]\<rparr>)"
  "\<not> available PTP_EVENT_PORT sample_os" "\<not> available PTP_GENERAL_PORT sample_os"
  "\<forall>p \<in> set (uo_ephemeral sample_os). 1024 \<le> p"
  by (simp_all add: sample_os_def ptp_sockets_def bind_or_ephemeral_def udp_bind_def available_def
      PTP_EVENT_PORT_def PTP_GENERAL_PORT_def)

theorem setup_without_ptp_ports_witness:
  "\<exists>outs t os'. run_bmca_yield_flow (V4 9) BMCA_YIELD_PRIORITY 7 (\<lambda>_. 8) (\<lambda>_. True) sample_os = (Inr (outs, t), os') \<and>
    cn_clock_id (setup_clock (negotiated (ptp_run bmca_step bmca_sees t
      [Arrival (V4 9) 320 (announce_packet (replicate 8 1) 1 248 1) 9 True, Timer True]) sample_host)
      (sample_connection\<lparr>cn_config := default_config\<lparr>timing_protocol := Ptp, ptp_mode := Master\<rparr>\<rparr>)) = Some (replicate 8 0)"
proof -
  obtain outs t os' where run: "run_bmca_yield_flow (V4 9) BMCA_YIELD_PRIORITY 7 (\<lambda>_. 8) (\<lambda>_. True) sample_os = (Inr (outs, t), os')"
    by (cases "bmca_start (V4 9) BMCA_YIELD_PRIORITY 7 (\<lambda>_. 8) (\<lambda>_. True)")
      (simp add: run_bmca_yield_flow_def sample_os_facts)
  from setup_without_ptp_ports(1) [OF run sample_os_facts(2-4), of
      "[Arrival (V4 9) 320 (announce_packet (replicate 8 1) 1 248 1) 9 True, Timer True]" True
      "sample_connection\<lparr>cn_config := default_config\<lparr>timing_protocol := Ptp, ptp_mode := Master\<rparr>\<rparr>" sample_host] run
  show ?thesis by (simp add: PTP_GENERAL_PORT_def)
qed

text \<open>A second PTP slave on the same host, while the first one runs, never publishes an offset.\<close>

theorem second_ptp_slave_is_deaf:
  assumes "run_ptp_slave now1 os = (Inr (outs1, t1), os1)" and "available PTP_EVENT_PORT os" and "available PTP_GENERAL_PORT os"
    and "run_ptp_slave now2 os1 = (Inr (outs2, t2), os2)" and "\<forall>p \<in> set (uo_ephemeral os). 1024 \<le> p"
    and "\<forall>a \<in> set arrivals. to_ptp_ports a"
  shows "offsets (ptp_run slave_step slave_sees t2 arrivals) = []"
proof -
  note 1 = task_sockets(1) [OF assms(1)]
  have "available 319 os" "available 320 os"
    using assms(2,3) by (simp_all add: PTP_EVENT_PORT_def PTP_GENERAL_PORT_def)
  with 1 [THEN conjunct1] have "os1 = os\<lparr>uo_bound := 320 # 319 # uo_bound os\<rparr>"
    by (cases rule: ptp_sockets_cases [of os]) auto
  then have taken: "\<not> available PTP_EVENT_PORT os1" "\<not> available PTP_GENERAL_PORT os1" "uo_ephemeral os1 = uo_ephemeral os"
    by (simp_all add: available_def PTP_EVENT_PORT_def PTP_GENERAL_PORT_def)
  note 2 = task_sockets(1) [OF assms(4), THEN conjunct1]
  have "deaf t2" using unavailable_deaf [OF 2 taken(1,2)] assms(5) taken(3) by (simp add: deaf_def)
  then have "set (concat (map (slave_sees t2) arrivals)) \<subseteq> {AnnounceTick}"
    using deaf_sees(1) assms(6) by fastforce
  then show ?thesis unfolding ptp_run_def by (rule announce_run)
qed

section \<open>The other sockets\<close>

text \<open>The timing, control and data sockets of a connection have three different ports.\<close>

theorem connection_ports_differ:
  assumes "os_ok os" and "ntp_server_start os = (Inr server, os1)" and "udp_bind 0 os1 = (Inr control, os2)"
    and "rtp_bind linux accepted 0 s os2 = (Inr (data, opts), s', os3)"
  shows "distinct [nts_port server, control, data] \<and> 0 \<notin> {nts_port server, control, data}"
proof -
  have 1: "uo_bound os1 = nts_port server # uo_bound os" "nts_port server \<notin> set (uo_bound os)" "uo_ephemeral os1 = uo_ephemeral os"
      "nts_port server \<in> set (uo_ephemeral os)"
    using assms(2) by (cases rule: udp_bind_cases [of 0 os]; auto simp: ntp_server_start_def)+
  have 2: "uo_bound os2 = control # uo_bound os1" "control \<notin> set (uo_bound os1)" "uo_ephemeral os2 = uo_ephemeral os1"
      "control \<in> set (uo_ephemeral os1)"
    using assms(3) by (cases rule: udp_bind_cases [of 0 os1]; auto)+
  have 3: "data \<notin> set (uo_bound os2)" "data \<in> set (uo_ephemeral os2)"
    using assms(4) by (cases rule: udp_bind_cases [of 0 os2]; auto simp: rtp_bind_def)+
  from 1 2 3 assms(1) show ?thesis by (auto simp: os_ok_def)
qed

text \<open>A timing server that has been stopped answers nothing, whatever still arrives.\<close>

theorem stopped_ntp_server_is_silent: "run_io ntp_server_step (ntp_server_stop s) evs = ([], ntp_server_stop s)"
  by (induction evs) (simp_all add: ntp_server_stop_def ntp_server_step_def)

text \<open>Before that every datagram is answered on its own, and a change of the flag alone does not stop it.\<close>

theorem running_ntp_server_answers:
  assumes "nts_task s" and "\<not> nts_shutdown s"
  shows "run_io ntp_server_step s evs =
    (concat (map (\<lambda>ev. case ev of NtpDatagram d t u \<Rightarrow> (case ntp_run_loop_step d t u of None \<Rightarrow> [] | Some r \<Rightarrow> [r]) | _ \<Rightarrow> []) evs), s)"
  using assms by (induction evs) (auto simp: ntp_server_step_def split: ntp_event.split)

text \<open>Each option is set exactly when the system takes it, whatever it makes of the others.\<close>

lemma qos_independent: "set (set_socket_qos linux accepted) = {opt \<in> set (qos_options linux). accepted opt}"
  by (simp add: set_socket_qos_def)

text \<open>The deadline of the sender thread survives its way through \<open>timespec\<close>, up to the last nanosecond.\<close>

lemma timespec_round_trip:
  "monotonic_now_ns (deadline_timespec d) = d" "tv_nsec (deadline_timespec d) < 1000000000"
proof -
  show "monotonic_now_ns (deadline_timespec d) = d"
    unfolding monotonic_now_ns_def deadline_timespec_def timespec.simps by (rule div_mult_mod_eq)
  show "tv_nsec (deadline_timespec d) < 1000000000"
    by (simp add: deadline_timespec_def word_mod_less_divisor)
qed

text \<open>\<open>iw\<close> is called up to the first interface it works for.\<close>

lemma try_interfaces_stops:
  "try_interfaces works xs = (takeWhile (Not \<circ> works) xs @ take 1 (dropWhile (Not \<circ> works) xs), List.find works xs)"
  by (induction xs) (simp_all split: prod.split)

end
