(* ===== verification/Spec2Isabelle.thy ===== *)
theory Spec2Isabelle
  imports Features Device Pairing Ptp_Flow Rtsp_Conn Rtsp_Session Browser Control Pipeline Connection Handshake Group Client Resample Retransmission Completion Nonces Send_Targets Sealed_Channel Listener Sockets
begin

text \<open>
  Development of \<open>liba2\<close>, a sender for AirPlay 2 receivers written in Rust (\<open>src/src\<close>; paths
  below are relative to it).

  \<^bold>\<open>The program.\<close> A client (\<open>client/api.rs\<close>) discovers receivers on the local network
  (\<open>discovery\<close>), connects to one of them or to a group (\<open>client/handshake.rs\<close>,
  \<open>client/connection.rs\<close>, \<open>client/group.rs\<close>) and streams live audio to it. Connecting is an RTSP
  exchange over TCP (\<open>rtsp\<close>): the receiver's information, transient pairing with a PIN
  (\<open>pairing\<close>, over TLV8 containers and SRP-6a of \<open>crypto\<close>), from then on every message sealed with
  ChaCha20-Poly1305. SETUP negotiates ports, stream key and clock: the sender's NTP responder
  (\<open>timing/ntp.rs\<close>) or PTP (\<open>timing/ptp\<close>). Streaming (\<open>audio\<close>) is a chain of stages: the
  application pushes PCM frames into a channel; the live decoder takes them out, resamples them if
  need be and cuts them into packets; a jitter buffer; the ALAC encoder; the RTP sender of each
  receiver, which numbers, seals and remembers the packet; the bounded channel to the real-time sender
  thread, which paces the packets onto the network. A control listener answers requests for
  retransmission from the history of the RTP senders.

  \<^bold>\<open>The theories and the code they model.\<close>

  \<^item> \<open>Prelude\<close>, \<open>Rust_Str\<close>: what the sources use of the language and its standard library. Machine
    integers are words of their width with the wrap-around of a release build, \<open>Result\<close> is a sum with
    the \<open>?\<close> operator \<open>and_then\<close>, a panic is the value \<open>Panic\<close> of \<open>fault\<close>, a \<open>HashMap\<close> an association
    list behind the interface \<open>key_store\<close>, a \<open>str\<close> its UTF-8 bytes as a \<open>string\<close>. The locale
    \<open>machine\<close> proves once that an invariant kept by each step is kept by a run; \<open>wire_codec\<close> is the
    contract of a serialised format of fixed length.
  \<^item> \<open>Errors\<close>, \<open>Codec\<close>, \<open>Features\<close>, \<open>Device\<close>: \<open>core\<close>, \<open>protocol.rs\<close>, \<open>client/identity.rs\<close>.
  \<^item> \<open>Tlv8\<close>, \<open>Chacha\<close>, \<open>Srp\<close>, \<open>Pairing\<close>: \<open>crypto\<close>, \<open>audio/cipher.rs\<close>, \<open>pairing\<close>. Pair-setup and the
    pairing session are state machines over the messages they are given.
  \<^item> \<open>Rtsp_Msg\<close>, \<open>Rtsp_Conn\<close>, \<open>Rtsp_Session\<close>: \<open>rtsp\<close>. A connection reads the bytes the peer sends in
    answer to a request; the session is the record of \<open>RtspSession\<close> and its life cycle.
  \<^item> \<open>Clock\<close>, \<open>Ptp_Wire\<close>, \<open>Ptp_Flow\<close>: \<open>timing\<close>. The two PTP tasks are machines over the arms of their
    \<open>select!\<close> loops, a packet with the time it arrived at.
  \<^item> \<open>Sockets\<close>: what is asked of the operating system around the loops: the ports of the timing, PTP and
    RTP sockets, socket options, the life of the NTP server, priority and clock of the sender thread.
  \<^item> \<open>Discovery\<close>, \<open>Browser\<close>: \<open>discovery\<close>, over the events of the mDNS daemon.
  \<^item> \<open>Live_Decoder\<close>, \<open>Resample\<close>, \<open>Audio_Buffer\<close>, \<open>Encoder\<close>, \<open>Rtp\<close>, \<open>Sender_Thread\<close>: the stages of
    \<open>audio\<close>, each alone. \<open>Resample\<close> gives the object the live decoder takes for a resampler.
  \<^item> \<open>Streamer\<close>, \<open>Streamer_Run\<close>, \<open>Streamer_Live\<close>: \<open>audio/streamer.rs\<close>, the task between them. A turn
    of its loop is two steps, for the two sections that hold the lock, so that \<open>pause\<close>, \<open>resume\<close>,
    \<open>stop\<close> and the control listener fall before, between and after them.
  \<^item> \<open>Pipeline\<close>: task, channel of 128 messages and sender thread together, in any interleaving, and
    \<open>stop\<close> in its two halves, the signal and the join.
  \<^item> \<open>Startup\<close>, \<open>Stream_Log\<close>, \<open>Retransmission\<close>, \<open>Delivery\<close>, \<open>Completion\<close>, \<open>Nonces\<close>, \<open>Stream_Keys\<close>: no code of their own. They follow
    a stream across the stages, from the start of a connection or group: when its first packet goes out,
    what holds of everything that was sent (the locale \<open>stream_log\<close>), what the control listeners answer,
    what the receivers hear, how the stream ends, which key and nonce seal each packet, and how a receiver
    gets the key. \<open>Send_Targets\<close>: the sockets the sender thread is given, when cloning one may fail.
    \<open>Sealed_Channel\<close>, no code of its own either, follows the control channel through any calls of a
    connection; its locale \<open>link_machine\<close> says that what one request keeps of the link every call keeps.
  \<^item> \<open>Control\<close>, \<open>Listener\<close>: \<open>client/control.rs\<close>, \<open>client/stats.rs\<close>, \<open>audio/rtp/receiver.rs\<close>. The answers to
    requests for retransmission, and the life of the thread that gives them.
  \<^item> \<open>Connection\<close>, \<open>Handshake\<close>, \<open>Group\<close>, \<open>Client\<close>: \<open>client\<close>. They compose all of the above: an
    operation is a function from the state and what the outside does meanwhile (\<open>host\<close>, \<open>shake\<close>, the
    answers of the receiver) to a result and the next state. A spawned task is its presence.

  \<^bold>\<open>What is shown.\<close>

  \<^item> Security: pairing with an accessory that knows the PIN succeeds and both sides hold the same keys;
    keys appear only after the accessory's proof has been checked; a connection that \<open>connect\<close> returns
    has gone through that check and speaks under those keys; sealed messages and packets open to what was
    sealed, with counters in step; the SRP client computes what an honest server computes; whatever is called and answered on a connection,
    its receiver can open every request that goes out; the nonces of a stream are fresh for 65536 packets.
  \<^item> Streaming: the packets a streamer, a connection or a group sends are numbered without a gap and
    timed one packet length apart, the first one marked, to the ports of SETUP; what leaves the pipeline
    is what the streamer sent, in order; the decoder only re-cuts what was pushed, at any rate; a sync
    packet goes out every second; requests for retransmission are answered at any time from the last 512
    packets sent to the device that asks, byte for byte; a started connection whose source is ahead is
    silent for a fixed number of turns and then sends a packet at every turn.
  \<^item> End to end: what a receiver gets when it opens its packets with the session's key and decodes them is
    at any time a prefix of what the application has pushed, bit for bit, and nothing of the rest is lost;
    a source that ends is through after a bounded number of turns, heard up to its last whole packet, or
    the stream waits for ever with at most a tenth of the buffer unplayed. A receiver needs no more than
    the secret of the pairing: the key is in the sealed SETUP it opens.
  \<^item> State: on a connection and on a client, whatever is called in whatever order, playback state,
    session, streamer, listener and group agree; connecting replaces, a group connects all or nothing,
    disconnecting releases everything; the registry of devices is well-formed and can be rebuilt from the
    events.
  \<^item> Formats: TLV8, RTSP requests and responses, the feature bits, identifiers, versions, PTP messages
    and the framing of the control channel read back what was written.
  \<^item> Faults of the code, each with the state that shows it: a stop whose signal finds the channel full, a
    short tail that is never played, an underrun that undoes a pause, a connection that streams only once,
    a group that cannot be paused after its start, a wait that never ends, live frames shorter than the
    chunk of the resampler, the sign of the clock offset, PTP tasks on ports where nobody calls, nonces that
    come again in every long stream, packets that go to the wrong device of a group.

  \<^bold>\<open>Loops and bounds.\<close> Loops over data are structural or have a measure; the loops of tasks and threads
  are step functions, run over the list of the events they see. \<open>Rtsp_Conn\<close> reads the
  bytes the peer sends in answer to a request, so its loops end with them; what follows is the end of the
  stream or silence, which ends in the time-out. The polling of \<open>wait_for_completion\<close> is the list of
  the states it sees. No function needs fuel. Where a theorem excludes the wrap-around of a counter, its statement says how many steps it covers.

  \<^bold>\<open>Parameters.\<close> Code that is not in the repository is an argument: the AEAD, HKDF and SHA-512, the
  property-list library, the ALAC encoder, the sinc filter, the mDNS daemon, random numbers, clocks,
  \<open>f32\<close> arithmetic, and what the operating system answers. Laws a theorem needs of them are named
  hypotheses (\<open>aead_ok\<close>, \<open>lossless_codec\<close>, \<open>fixed_in\<close>, \<open>seals_everything\<close>, ...), and a witness instantiates each.

  \<^bold>\<open>Not modelled.\<close> Logging and the diagnostics of the streamer, which nothing else reads; the re-exports
  of the module files; the pacing of the sender thread on systems other than Linux, which is that of
  another library's sleeper; memory ordering of the atomics, which the code only uses for single values.
\<close>

end
